(* ===== verification/Prelude.thy ===== *)
theory Prelude
  imports Main "HOL-Library.Word" "HOL-Library.Monad_Syntax"
begin

text \<open>
  Shared vocabulary of the development: machine integers, buffers and the checked
  memory accesses that every component uses, with the automation for them.

  A C object that the code addresses as an array of bytes is a \<open>u8 list\<close> (an array of
  characters a \<open>string\<close>); its length is the size of the object. Every access goes through one of \<open>rd\<close>, \<open>wr\<close>,
  \<open>rdn\<close>, \<open>wrn\<close>, and the result type of code that touches memory is
  \<open>'a option\<close>: \<open>None\<close> is a fault, that is an access outside the object, a
  dereference of a null pointer or a division by zero, which C leaves undefined.
  Error codes that the source returns are ordinary values under \<open>Some\<close>.
  A pointer that the source compares with NULL is a \<open>ptr\<close>, where \<open>None\<close> is NULL.
  Bytes are little endian in memory (the host the SDK and the tools are written for).
\<close>

unbundle bit_operations_syntax

section \<open>Machine integers\<close>

type_synonym u8 = "8 word"
type_synonym u16 = "16 word"
type_synonym u32 = "32 word"
type_synonym bytes = "u8 list"
type_synonym ptr = "u8 list option"

text \<open>\<open>size_t\<close> values are naturals below \<open>2 ^ 64\<close>; the operations that can leave
  that range are written with their wrap-around.\<close>

definition sz_sub :: "nat \<Rightarrow> nat \<Rightarrow> nat" where
  "sz_sub a b = (if b \<le> a then a - b else a + 2 ^ 64 - b)"

definition sz_add :: "nat \<Rightarrow> nat \<Rightarrow> nat" where
  "sz_add a b = (a + b) mod 2 ^ 64"

lemma sz_sub_le [simp]: "b \<le> a \<Longrightarrow> sz_sub a b = a - b"
  by (simp add: sz_sub_def)

lemma sz_sub_wrap: "a < b \<Longrightarrow> sz_sub a b = a + 2 ^ 64 - b"
  by (simp add: sz_sub_def)

lemma sz_add_less [simp]: "a + b < 2 ^ 64 \<Longrightarrow> sz_add a b = a + b"
  by (simp add: sz_add_def)

lemma unat_of_nat16 [simp]: "n < 65536 \<Longrightarrow> unat (of_nat n :: u16) = n"
  by (simp add: unat_of_nat take_bit_nat_eq_self)

lemma unat_of_nat8 [simp]: "n < 256 \<Longrightarrow> unat (of_nat n :: u8) = n"
  by (simp add: unat_of_nat take_bit_nat_eq_self)

lemma unat_u8_less [simp]: "unat (b :: u8) < 256"
  using unsigned_less [of b] by simp

lemma unat_u16_less [simp]: "unat (h :: u16) < 65536"
  using unsigned_less [of h] by simp

lemma bit_u8_high [simp]: "8 \<le> n \<Longrightarrow> \<not> bit (b :: u8) n"
  using bit_imp_le_length [of b n] by auto

section \<open>Little-endian encodings\<close>

definition le16 :: "u16 \<Rightarrow> bytes" where
  "le16 w = [ucast w, ucast (drop_bit 8 w)]"

definition of_le16 :: "u8 \<Rightarrow> u8 \<Rightarrow> u16" where
  "of_le16 b0 b1 = ucast b0 OR push_bit 8 (ucast b1)"

definition le32 :: "u32 \<Rightarrow> bytes" where
  "le32 w = [ucast w, ucast (drop_bit 8 w), ucast (drop_bit 16 w), ucast (drop_bit 24 w)]"

definition of_le32 :: "u8 \<Rightarrow> u8 \<Rightarrow> u8 \<Rightarrow> u8 \<Rightarrow> u32" where
  "of_le32 b0 b1 b2 b3 =
     ucast b0 OR push_bit 8 (ucast b1) OR push_bit 16 (ucast b2) OR push_bit 24 (ucast b3)"

lemma length_le16 [simp]: "length (le16 w) = 2"
  by (simp add: le16_def)

lemma length_le32 [simp]: "length (le32 w) = 4"
  by (simp add: le32_def)

lemma of_le16_le16 [simp]: "of_le16 (le16 w ! 0) (le16 w ! Suc 0) = w"
  by (rule bit_word_eqI) (auto simp: le16_def of_le16_def bit_simps)

lemma of_le16_bytes: "of_le16 (ucast w) (ucast (drop_bit 8 w)) = w"
  using of_le16_le16 [of w] by (simp add: le16_def)

lemma le16_of_le16 [simp]: "le16 (of_le16 a b) = [a, b]"
  by (auto simp: le16_def of_le16_def bit_simps intro!: bit_word_eqI)

lemma le16_inject [simp]: "le16 a = le16 b \<longleftrightarrow> a = b"
  by (metis of_le16_le16)

lemma of_le32_bytes:
  "of_le32 (ucast w) (ucast (drop_bit 8 w)) (ucast (drop_bit 16 w)) (ucast (drop_bit 24 w)) = w"
proof (rule bit_word_eqI)
  fix n assume "n < LENGTH(32)"
  then consider "n < 8" | "8 \<le> n" "n < 16" | "16 \<le> n" "n < 24" | "24 \<le> n" "n < 32"
    by fastforce
  then show "bit (of_le32 (ucast w) (ucast (drop_bit 8 w)) (ucast (drop_bit 16 w))
      (ucast (drop_bit 24 w))) n = bit w n"
    by cases (auto simp: of_le32_def bit_simps)
qed

lemma of_le32_le32 [simp]:
  "of_le32 (le32 w ! 0) (le32 w ! Suc 0) (le32 w ! 2) (le32 w ! 3) = w"
  by (simp add: le32_def of_le32_bytes)

lemma le32_of_le32 [simp]: "le32 (of_le32 a b c d) = [a, b, c, d]"
  by (auto simp: le32_def of_le32_def bit_simps intro!: bit_word_eqI)

text \<open>The order conversions of a little-endian host: Bluetooth order is host order, network
  order is its reverse.\<close>

definition hton128 :: "bytes \<Rightarrow> bytes" where
  "hton128 v = rev v"

definition ntoh128 :: "bytes \<Rightarrow> bytes" where
  "ntoh128 v = rev v"

lemma ntoh_hton128 [simp]: "ntoh128 (hton128 v) = v" "hton128 (ntoh128 v) = v"
  by (simp_all add: ntoh128_def hton128_def)

section \<open>Checked memory accesses\<close>

named_theorems c_mem \<open>evaluation of checked memory accesses\<close>

definition rd :: "'a list \<Rightarrow> nat \<Rightarrow> 'a option" where
  "rd xs i = (if i < length xs then Some (xs ! i) else None)"

definition rdn :: "'a list \<Rightarrow> nat \<Rightarrow> nat \<Rightarrow> 'a list option" where
  "rdn xs i n = (if i + n \<le> length xs then Some (take n (drop i xs)) else None)"

definition wr :: "'a list \<Rightarrow> nat \<Rightarrow> 'a \<Rightarrow> 'a list option" where
  "wr xs i b = (if i < length xs then Some (xs[i := b]) else None)"

text \<open>\<open>memcpy\<close>/\<open>memmove\<close> of the bytes \<open>bs\<close> to \<open>xs + i\<close>.\<close>

definition wrn :: "'a list \<Rightarrow> nat \<Rightarrow> 'a list \<Rightarrow> 'a list option" where
  "wrn xs i bs =
     (if i + length bs \<le> length xs then Some (take i xs @ bs @ drop (i + length bs) xs) else None)"

definition overlay :: "'a list \<Rightarrow> 'a list \<Rightarrow> 'a list" where
  "overlay bs buf = bs @ drop (length bs) buf"

lemma rd_Some [c_mem]: "i < length xs \<Longrightarrow> rd xs i = Some (xs ! i)"
  by (simp add: rd_def)

lemma rd_None [c_mem]: "length xs \<le> i \<Longrightarrow> rd xs i = None"
  by (simp add: rd_def)

lemma rd_eq_Some [simp]: "rd xs i = Some b \<longleftrightarrow> i < length xs \<and> b = xs ! i"
  by (auto simp: rd_def)

lemma rd_eq_None [simp]: "rd xs i = None \<longleftrightarrow> length xs \<le> i"
  by (auto simp: rd_def)

lemma rdn_Some [c_mem]: "i + n \<le> length xs \<Longrightarrow> rdn xs i n = Some (take n (drop i xs))"
  by (simp add: rdn_def)

lemma rdn_None [c_mem]: "length xs < i + n \<Longrightarrow> rdn xs i n = None"
  by (simp add: rdn_def)

lemma rdn_eq_Some: "rdn xs i n = Some ys \<longleftrightarrow> i + n \<le> length xs \<and> ys = take n (drop i xs)"
  by (auto simp: rdn_def)

lemma rdn_eq_None [simp]: "rdn xs i n = None \<longleftrightarrow> length xs < i + n"
  by (auto simp: rdn_def)

lemma rdn_length: "rdn xs i n = Some ys \<Longrightarrow> length ys = n"
  by (auto simp: rdn_eq_Some)

lemma wr_Some [c_mem]: "i < length xs \<Longrightarrow> wr xs i b = Some (xs[i := b])"
  by (simp add: wr_def)

lemma wr_None [c_mem]: "length xs \<le> i \<Longrightarrow> wr xs i b = None"
  by (simp add: wr_def)

lemma wr_length: "wr xs i b = Some ys \<Longrightarrow> length ys = length xs"
  by (auto simp: wr_def split: if_splits)

lemma wrn_Some [c_mem]:
  "i + length bs \<le> length xs \<Longrightarrow> wrn xs i bs = Some (take i xs @ bs @ drop (i + length bs) xs)"
  by (simp add: wrn_def)

lemma wrn_None [c_mem]: "length xs < i + length bs \<Longrightarrow> wrn xs i bs = None"
  by (simp add: wrn_def)

lemma wrn_length: "wrn xs i bs = Some ys \<Longrightarrow> length ys = length xs"
  by (auto simp: wrn_def split: if_splits)

lemma wrn_zero [simp]: "wrn xs i [] = (if i \<le> length xs then Some xs else None)"
  by (simp add: wrn_def)

subsection \<open>Filling a buffer from the front\<close>

text \<open>The encoders write their fields one after the other from offset 0. \<open>overlay bs buf\<close>
  is the buffer after \<open>bs\<close> has been written; the rules advance it field by field.\<close>

named_theorems c_fill \<open>writes at the end of the part of a buffer already filled\<close>

lemma length_overlay [simp]: "length bs \<le> length buf \<Longrightarrow> length (overlay bs buf) = length buf"
  by (simp add: overlay_def)

lemma take_overlay [simp]: "n \<le> length bs \<Longrightarrow> take n (overlay bs buf) = take n bs"
  by (simp add: overlay_def)

lemma drop_overlay: "length bs \<le> n \<Longrightarrow> drop n (overlay bs buf) = drop n buf"
  by (simp add: overlay_def)

lemma nth_overlay [simp]: "i < length bs \<Longrightarrow> overlay bs buf ! i = bs ! i"
  by (simp add: overlay_def nth_append)

lemma overlay_Nil [simp]: "overlay [] buf = buf"
  by (simp add: overlay_def)

lemma overlay_overlay [simp]:
  "length bs \<le> length cs \<Longrightarrow> overlay bs (overlay cs buf) = overlay (bs @ drop (length bs) cs) buf"
  by (simp add: overlay_def)

lemma wr_front [c_fill]: "0 < length buf \<Longrightarrow> wr buf 0 b = Some (overlay [b] buf)"
  by (cases buf) (simp_all add: wr_def overlay_def)

lemma wr_overlay [c_fill]:
  "i = length bs \<Longrightarrow> i < length buf \<Longrightarrow> wr (overlay bs buf) i b = Some (overlay (bs @ [b]) buf)"
  by (simp add: wr_def overlay_def list_update_append Cons_nth_drop_Suc [symmetric])

lemma wrn_overlay [c_fill]:
  "i = length bs \<Longrightarrow> i + length cs \<le> length buf \<Longrightarrow>
   wrn (overlay bs buf) i cs = Some (overlay (bs @ cs) buf)"
  by (simp add: wrn_def overlay_def add.commute)

text \<open>Rewriting a part already filled.\<close>

lemma wr_overlay_in [c_fill]:
  "i < length bs \<Longrightarrow> length bs \<le> length buf \<Longrightarrow>
   wr (overlay bs buf) i b = Some (overlay (bs[i := b]) buf)"
  by (simp add: wr_def overlay_def list_update_append1)

lemma wrn_overlay_in [c_fill]:
  "i + length cs \<le> length bs \<Longrightarrow> length bs \<le> length buf \<Longrightarrow>
   wrn (overlay bs buf) i cs = Some (overlay (take i bs @ cs @ drop (i + length cs) bs) buf)"
  by (simp add: wrn_def overlay_def)

lemma wrn_front:
  "length cs \<le> length buf \<Longrightarrow> wrn buf 0 cs = Some (overlay cs buf)"
  by (simp add: wrn_def overlay_def)

section \<open>Generic list facts\<close>

lemma take_Suc_nth: "n < length xs \<Longrightarrow> take (Suc n) xs = take n xs @ [xs ! n]"
  by (simp add: take_Suc_conv_app_nth)

lemma length_1_iff: "length xs = Suc 0 \<longleftrightarrow> (\<exists>x. xs = [x])"
  by (auto simp: length_Suc_conv)

text \<open>The position of the first element with a property: the search functions of GLib.\<close>

fun find_index :: "('a \<Rightarrow> bool) \<Rightarrow> 'a list \<Rightarrow> nat option" where
  "find_index P [] = None"
| "find_index P (x # xs) = (if P x then Some 0 else map_option Suc (find_index P xs))"

lemma find_index_Some:
  "find_index P xs = Some n \<Longrightarrow> n < length xs \<and> P (xs ! n) \<and> (\<forall>m < n. \<not> P (xs ! m))"
  by (induction xs arbitrary: n) (auto simp: nth_Cons' gr0_conv_Suc split: if_splits)

lemma find_index_None [simp]: "find_index P xs = None \<longleftrightarrow> (\<forall>x \<in> set xs. \<not> P x)"
  by (induction xs) auto

lemma concat_fixed_width:
  "list_all (\<lambda>x. length x = n) xss \<Longrightarrow> length (concat xss) = n * length xss"
  by (induction xss) auto

section \<open>String functions of the C library\<close>

text \<open>\<open>memcmp\<close> on blocks of equal length. C fixes only the sign of the result, for which -1, 0 and 1 stand here: a
  result of the model is read as a sign, and its negation as the opposite sign. The program only asks whether it is 0.\<close>

fun memcmp :: "bytes \<Rightarrow> bytes \<Rightarrow> int" where
  "memcmp (a # as) (b # bs) = (if a = b then memcmp as bs else if a < b then -1 else 1)"
| "memcmp _ _ = 0"

lemma memcmp_eq_0: "length as = length bs \<Longrightarrow> memcmp as bs = 0 \<longleftrightarrow> as = bs"
  by (induction as bs rule: memcmp.induct) auto

lemma memcmp_antisym: "length as = length bs \<Longrightarrow> memcmp bs as = - memcmp as bs"
  by (induction as bs rule: memcmp.induct) auto

end
