(* ===== verification/Protocol.thy ===== *)
theory Protocol
  imports Prelude
begin

text \<open>
  The vehicle message protocol: \<open>src/src/protocol.h\<close> (message identifiers and the packed
  message structs) and \<open>src/src/protocol.c\<close> (one builder per message).

  A builder casts the 20-byte \<open>anki_vehicle_msg_t\<close> it is given to the packed struct of its
  message and assigns the fields, so it is modelled as the writes it makes to the bytes of
  that object, at the offsets of the packed layout. A NULL message fails the \<open>assert\<close> and
  is a fault. A \<open>float\<close> parameter is only copied; it is represented by its 32 bits.
  \<open>vehicle_msg\<close> with \<open>wire\<close> is the specification: the struct a message stands for and
  its bytes. The lemmas show that every builder produces exactly these bytes.
\<close>

section \<open>Identifiers and sizes (protocol.h)\<close>

abbreviation (input) ANKI_VEHICLE_MSG_MAX_SIZE :: nat where "ANKI_VEHICLE_MSG_MAX_SIZE \<equiv> 20"
abbreviation (input) ANKI_VEHICLE_MSG_PAYLOAD_MAX_SIZE :: nat where "ANKI_VEHICLE_MSG_PAYLOAD_MAX_SIZE \<equiv> 18"
abbreviation (input) ANKI_VEHICLE_MSG_BASE_SIZE :: u8 where "ANKI_VEHICLE_MSG_BASE_SIZE \<equiv> 1"
abbreviation (input) ANKI_VEHICLE_MSG_TYPE_SIZE :: u8 where "ANKI_VEHICLE_MSG_TYPE_SIZE \<equiv> 2"

text \<open>The anonymous enum of message identifiers, in the order of the header.\<close>

datatype msg_id =
    C2V_DISCONNECT
  | C2V_PING_REQUEST | V2C_PING_RESPONSE
  | C2V_VERSION_REQUEST | V2C_VERSION_RESPONSE
  | C2V_SET_LIGHTS
  | C2V_SET_SPEED | C2V_CHANGE_LANE | C2V_CANCEL_LANE_CHANGE | C2V_TURN_180
  | C2V_SET_OFFSET_FROM_ROAD_CENTER
  | C2V_LIGHTS_PATTERN
  | C2V_SDK_MODE

fun id_code :: "msg_id \<Rightarrow> u8" where
  "id_code C2V_DISCONNECT = 0x0d"
| "id_code C2V_PING_REQUEST = 0x16"
| "id_code V2C_PING_RESPONSE = 0x17"
| "id_code C2V_VERSION_REQUEST = 0x18"
| "id_code V2C_VERSION_RESPONSE = 0x19"
| "id_code C2V_SET_LIGHTS = 0x1d"
| "id_code C2V_SET_SPEED = 0x24"
| "id_code C2V_CHANGE_LANE = 0x25"
| "id_code C2V_CANCEL_LANE_CHANGE = 0x26"
| "id_code C2V_TURN_180 = 0x32"
| "id_code C2V_SET_OFFSET_FROM_ROAD_CENTER = 0x2c"
| "id_code C2V_LIGHTS_PATTERN = 0x33"
| "id_code C2V_SDK_MODE = 0x90"

abbreviation (input) ANKI_VEHICLE_MSG_SDK_MODE_SIZE :: u8 where "ANKI_VEHICLE_MSG_SDK_MODE_SIZE \<equiv> 2"
abbreviation (input) ANKI_VEHICLE_MSG_C2V_SET_SPEED_SIZE :: u8 where "ANKI_VEHICLE_MSG_C2V_SET_SPEED_SIZE \<equiv> 6"
abbreviation (input) ANKI_VEHICLE_MSG_C2V_CHANGE_LANE_SIZE :: u8 where "ANKI_VEHICLE_MSG_C2V_CHANGE_LANE_SIZE \<equiv> 9"
abbreviation (input) ANKI_VEHICLE_MSG_C2V_SET_LIGHTS_SIZE :: u8 where "ANKI_VEHICLE_MSG_C2V_SET_LIGHTS_SIZE \<equiv> 2"
abbreviation (input) ANKI_VEHICLE_MSG_C2V_LIGHTS_PATTERN_SIZE :: u8 where "ANKI_VEHICLE_MSG_C2V_LIGHTS_PATTERN_SIZE \<equiv> 7"
abbreviation (input) ANKI_VEHICLE_MSG_V2C_VERSION_RESPONSE_SIZE :: u8 where "ANKI_VEHICLE_MSG_V2C_VERSION_RESPONSE_SIZE \<equiv> 3"

section \<open>The packed message structs and their layout\<close>

type_synonym f32 = u32 \<comment> \<open>the bits of a \<open>float\<close>\<close>

record anki_vehicle_msg_t =
  msg_size :: u8
  msg_id :: u8

record anki_vehicle_msg_version_response_t = anki_vehicle_msg_t +
  version :: u16

record anki_vehicle_msg_sdk_mode_t = anki_vehicle_msg_t +
  sdk_on :: u8

text \<open>The two fields of \<open>set_speed\<close> are \<open>int16_t\<close>: 16 bits, read with \<open>sint\<close>.\<close>

record anki_vehicle_msg_set_speed_t = anki_vehicle_msg_t +
  speed_mm_per_sec :: u16
  accel_mm_per_sec2 :: u16
  speed_reserved :: u8

record anki_vehicle_msg_set_offset_from_road_center_t = anki_vehicle_msg_t +
  offset_mm :: f32

record anki_vehicle_msg_change_lane_t = anki_vehicle_msg_t +
  horizontal_speed_mm_per_sec :: u16
  offset_from_road_center_mm :: f32
  reserved0 :: u8
  reserved1 :: u8

record anki_vehicle_msg_set_lights_t = anki_vehicle_msg_t +
  light_mask :: u8

record anki_vehicle_msg_lights_pattern_t = anki_vehicle_msg_t +
  channel :: u8
  effect :: u8
  light_start :: u8
  light_end :: u8
  cycles_per_min :: u16

definition layout_head :: "'a anki_vehicle_msg_t_scheme \<Rightarrow> bytes" where
  "layout_head m = [msg_size m, msg_id m]"

definition layout_version_response :: "anki_vehicle_msg_version_response_t \<Rightarrow> bytes" where
  "layout_version_response m = layout_head m @ le16 (version m)"

definition layout_sdk_mode :: "anki_vehicle_msg_sdk_mode_t \<Rightarrow> bytes" where
  "layout_sdk_mode m = layout_head m @ [sdk_on m]"

definition layout_set_speed :: "anki_vehicle_msg_set_speed_t \<Rightarrow> bytes" where
  "layout_set_speed m =
     layout_head m @ le16 (speed_mm_per_sec m) @ le16 (accel_mm_per_sec2 m) @ [speed_reserved m]"

definition layout_set_offset :: "anki_vehicle_msg_set_offset_from_road_center_t \<Rightarrow> bytes" where
  "layout_set_offset m = layout_head m @ le32 (offset_mm m)"

definition layout_change_lane :: "anki_vehicle_msg_change_lane_t \<Rightarrow> bytes" where
  "layout_change_lane m =
     layout_head m @ le16 (horizontal_speed_mm_per_sec m) @ le32 (offset_from_road_center_mm m) @
     [reserved0 m, reserved1 m]"

definition layout_set_lights :: "anki_vehicle_msg_set_lights_t \<Rightarrow> bytes" where
  "layout_set_lights m = layout_head m @ [light_mask m]"

definition layout_lights_pattern :: "anki_vehicle_msg_lights_pattern_t \<Rightarrow> bytes" where
  "layout_lights_pattern m =
     layout_head m @ [channel m, effect m, light_start m, light_end m] @ le16 (cycles_per_min m)"

lemmas layouts = layout_head_def layout_version_response_def layout_sdk_mode_def
  layout_set_speed_def layout_set_offset_def layout_change_lane_def layout_set_lights_def
  layout_lights_pattern_def

text \<open>The LED channels and effects of \<open>protocol.h\<close> and their C values.\<close>

datatype anki_vehicle_light_channel_t =
  LIGHT_RED | LIGHT_TAIL | LIGHT_BLUE | LIGHT_GREEN | LIGHT_FRONTL | LIGHT_FRONTR

fun channel_code :: "anki_vehicle_light_channel_t \<Rightarrow> u8" where
  "channel_code LIGHT_RED = 0"
| "channel_code LIGHT_TAIL = 1"
| "channel_code LIGHT_BLUE = 2"
| "channel_code LIGHT_GREEN = 3"
| "channel_code LIGHT_FRONTL = 4"
| "channel_code LIGHT_FRONTR = 5"

datatype anki_vehicle_light_effect_t =
  EFFECT_STEADY | EFFECT_FADE | EFFECT_THROB | EFFECT_FLASH | EFFECT_RANDOM

fun effect_code :: "anki_vehicle_light_effect_t \<Rightarrow> u8" where
  "effect_code EFFECT_STEADY = 0"
| "effect_code EFFECT_FADE = 1"
| "effect_code EFFECT_THROB = 2"
| "effect_code EFFECT_FLASH = 3"
| "effect_code EFFECT_RANDOM = 4"

section \<open>The message builders (protocol.c)\<close>

text \<open>The result is the returned size and the message object after the writes.\<close>

definition anki_vehicle_msg_set_sdk_mode :: "ptr \<Rightarrow> u8 \<Rightarrow> (u8 \<times> bytes) option" where
  "anki_vehicle_msg_set_sdk_mode message on = do {
     msg \<leftarrow> message;
     msg \<leftarrow> wrn msg 0 (replicate 3 0);
     msg \<leftarrow> wr msg 0 ANKI_VEHICLE_MSG_SDK_MODE_SIZE;
     msg \<leftarrow> wr msg 1 (id_code C2V_SDK_MODE);
     msg \<leftarrow> wr msg 2 on;
     Some (3, msg) }"

definition anki_vehicle_msg_set_speed :: "ptr \<Rightarrow> u16 \<Rightarrow> u16 \<Rightarrow> (u8 \<times> bytes) option" where
  "anki_vehicle_msg_set_speed message speed accel = do {
     msg \<leftarrow> message;
     msg \<leftarrow> wrn msg 0 (replicate 7 0);
     msg \<leftarrow> wr msg 0 ANKI_VEHICLE_MSG_C2V_SET_SPEED_SIZE;
     msg \<leftarrow> wr msg 1 (id_code C2V_SET_SPEED);
     msg \<leftarrow> wrn msg 2 (le16 speed);
     msg \<leftarrow> wrn msg 4 (le16 accel);
     Some (7, msg) }"

definition anki_vehicle_msg_set_offset_from_road_center :: "ptr \<Rightarrow> f32 \<Rightarrow> (u8 \<times> bytes) option" where
  "anki_vehicle_msg_set_offset_from_road_center msg offset = do {
     m \<leftarrow> msg;
     m \<leftarrow> wrn m 0 (replicate 6 0);
     m \<leftarrow> wr m 0 (6 - ANKI_VEHICLE_MSG_BASE_SIZE);
     m \<leftarrow> wr m 1 (id_code C2V_SET_OFFSET_FROM_ROAD_CENTER);
     m \<leftarrow> wrn m 2 (le32 offset);
     Some (6, m) }"

definition anki_vehicle_msg_change_lane :: "ptr \<Rightarrow> u16 \<Rightarrow> f32 \<Rightarrow> (u8 \<times> bytes) option" where
  "anki_vehicle_msg_change_lane message speed offset = do {
     msg \<leftarrow> message;
     msg \<leftarrow> wrn msg 0 (replicate ANKI_VEHICLE_MSG_MAX_SIZE 0);
     msg \<leftarrow> wr msg 0 ANKI_VEHICLE_MSG_C2V_CHANGE_LANE_SIZE;
     msg \<leftarrow> wr msg 1 (id_code C2V_CHANGE_LANE);
     msg \<leftarrow> wrn msg 2 (le16 speed);
     msg \<leftarrow> wrn msg 4 (le32 offset);
     Some (10, msg) }"

definition anki_vehicle_msg_set_lights :: "ptr \<Rightarrow> u8 \<Rightarrow> (u8 \<times> bytes) option" where
  "anki_vehicle_msg_set_lights message light_bits = do {
     msg \<leftarrow> message;
     msg \<leftarrow> wrn msg 0 (replicate 3 0);
     msg \<leftarrow> wr msg 0 ANKI_VEHICLE_MSG_C2V_SET_LIGHTS_SIZE;
     msg \<leftarrow> wr msg 1 (id_code C2V_SET_LIGHTS);
     msg \<leftarrow> wr msg 2 light_bits;
     Some (3, msg) }"

definition anki_vehicle_msg_lights_pattern ::
  "ptr \<Rightarrow> u8 \<Rightarrow> u8 \<Rightarrow> u8 \<Rightarrow> u8 \<Rightarrow> u16 \<Rightarrow> (u8 \<times> bytes) option" where
  "anki_vehicle_msg_lights_pattern message chan eff st en cycles = do {
     msg \<leftarrow> message;
     msg \<leftarrow> wrn msg 0 (replicate 8 0);
     msg \<leftarrow> wr msg 0 ANKI_VEHICLE_MSG_C2V_LIGHTS_PATTERN_SIZE;
     msg \<leftarrow> wr msg 1 (id_code C2V_LIGHTS_PATTERN);
     msg \<leftarrow> wr msg 2 chan;
     msg \<leftarrow> wr msg 3 eff;
     msg \<leftarrow> wr msg 4 st;
     msg \<leftarrow> wr msg 5 en;
     msg \<leftarrow> wrn msg 6 (le16 cycles);
     Some (8, msg) }"

definition anki_vehicle_msg_disconnect :: "ptr \<Rightarrow> (u8 \<times> bytes) option" where
  "anki_vehicle_msg_disconnect msg = do {
     m \<leftarrow> msg;
     m \<leftarrow> wr m 0 ANKI_VEHICLE_MSG_BASE_SIZE;
     m \<leftarrow> wr m 1 (id_code C2V_DISCONNECT);
     Some (ANKI_VEHICLE_MSG_TYPE_SIZE, m) }"

definition anki_vehicle_msg_cancel_lane_change :: "ptr \<Rightarrow> (u8 \<times> bytes) option" where
  "anki_vehicle_msg_cancel_lane_change msg = do {
     m \<leftarrow> msg;
     m \<leftarrow> wr m 0 ANKI_VEHICLE_MSG_BASE_SIZE;
     m \<leftarrow> wr m 1 (id_code C2V_CANCEL_LANE_CHANGE);
     Some (ANKI_VEHICLE_MSG_TYPE_SIZE, m) }"

definition anki_vehicle_msg_turn_180 :: "ptr \<Rightarrow> (u8 \<times> bytes) option" where
  "anki_vehicle_msg_turn_180 msg = do {
     m \<leftarrow> msg;
     m \<leftarrow> wr m 0 ANKI_VEHICLE_MSG_BASE_SIZE;
     m \<leftarrow> wr m 1 (id_code C2V_TURN_180);
     Some (ANKI_VEHICLE_MSG_TYPE_SIZE, m) }"

definition anki_vehicle_msg_ping :: "ptr \<Rightarrow> (u8 \<times> bytes) option" where
  "anki_vehicle_msg_ping msg = do {
     m \<leftarrow> msg;
     m \<leftarrow> wr m 0 ANKI_VEHICLE_MSG_BASE_SIZE;
     m \<leftarrow> wr m 1 (id_code C2V_PING_REQUEST);
     Some (ANKI_VEHICLE_MSG_TYPE_SIZE, m) }"

definition anki_vehicle_msg_get_version :: "ptr \<Rightarrow> (u8 \<times> bytes) option" where
  "anki_vehicle_msg_get_version msg = do {
     m \<leftarrow> msg;
     m \<leftarrow> wr m 0 ANKI_VEHICLE_MSG_BASE_SIZE;
     m \<leftarrow> wr m 1 (id_code C2V_VERSION_REQUEST);
     Some (ANKI_VEHICLE_MSG_TYPE_SIZE, m) }"

lemmas builders = anki_vehicle_msg_set_sdk_mode_def anki_vehicle_msg_set_speed_def
  anki_vehicle_msg_set_offset_from_road_center_def anki_vehicle_msg_change_lane_def
  anki_vehicle_msg_set_lights_def anki_vehicle_msg_lights_pattern_def
  anki_vehicle_msg_disconnect_def anki_vehicle_msg_cancel_lane_change_def
  anki_vehicle_msg_turn_180_def anki_vehicle_msg_ping_def anki_vehicle_msg_get_version_def

section \<open>Specification: the message a builder stands for\<close>

datatype vehicle_msg =
    SdkMode u8
  | SetSpeed u16 u16
  | SetOffset f32
  | ChangeLane u16 f32
  | SetLights u8
  | LightsPattern u8 u8 u8 u8 u16
  | Disconnect
  | CancelLaneChange
  | Turn180
  | Ping
  | GetVersion

fun wire :: "vehicle_msg \<Rightarrow> bytes" where
  "wire (SdkMode v) = layout_sdk_mode
     \<lparr>msg_size = 2, msg_id = id_code C2V_SDK_MODE, sdk_on = v\<rparr>"
| "wire (SetSpeed s a) = layout_set_speed
     \<lparr>msg_size = 6, msg_id = id_code C2V_SET_SPEED, speed_mm_per_sec = s,
      accel_mm_per_sec2 = a, speed_reserved = 0\<rparr>"
| "wire (SetOffset x) = layout_set_offset
     \<lparr>msg_size = 5, msg_id = id_code C2V_SET_OFFSET_FROM_ROAD_CENTER, offset_mm = x\<rparr>"
| "wire (ChangeLane s x) = layout_change_lane
     \<lparr>msg_size = 9, msg_id = id_code C2V_CHANGE_LANE, horizontal_speed_mm_per_sec = s,
      offset_from_road_center_mm = x, reserved0 = 0, reserved1 = 0\<rparr>"
| "wire (SetLights m) = layout_set_lights
     \<lparr>msg_size = 2, msg_id = id_code C2V_SET_LIGHTS, light_mask = m\<rparr>"
| "wire (LightsPattern c e s t r) = layout_lights_pattern
     \<lparr>msg_size = 7, msg_id = id_code C2V_LIGHTS_PATTERN, channel = c, effect = e,
      light_start = s, light_end = t, cycles_per_min = r\<rparr>"
| "wire Disconnect = [1, id_code C2V_DISCONNECT]"
| "wire CancelLaneChange = [1, id_code C2V_CANCEL_LANE_CHANGE]"
| "wire Turn180 = [1, id_code C2V_TURN_180]"
| "wire Ping = [1, id_code C2V_PING_REQUEST]"
| "wire GetVersion = [1, id_code C2V_VERSION_REQUEST]"

text \<open>The builder that makes a message: one entry point per constructor.\<close>

fun build :: "vehicle_msg \<Rightarrow> ptr \<Rightarrow> (u8 \<times> bytes) option" where
  "build (SdkMode v) p = anki_vehicle_msg_set_sdk_mode p v"
| "build (SetSpeed s a) p = anki_vehicle_msg_set_speed p s a"
| "build (SetOffset x) p = anki_vehicle_msg_set_offset_from_road_center p x"
| "build (ChangeLane s x) p = anki_vehicle_msg_change_lane p s x"
| "build (SetLights m) p = anki_vehicle_msg_set_lights p m"
| "build (LightsPattern c e s t r) p = anki_vehicle_msg_lights_pattern p c e s t r"
| "build Disconnect p = anki_vehicle_msg_disconnect p"
| "build CancelLaneChange p = anki_vehicle_msg_cancel_lane_change p"
| "build Turn180 p = anki_vehicle_msg_turn_180 p"
| "build Ping p = anki_vehicle_msg_ping p"
| "build GetVersion p = anki_vehicle_msg_get_version p"

text \<open>A reader of these messages, used to state that no information is lost.\<close>

definition read_msg :: "bytes \<Rightarrow> vehicle_msg option" where
  "read_msg bs = (case bs of
       [n, t] \<Rightarrow>
         if n \<noteq> 1 then None
         else if t = id_code C2V_DISCONNECT then Some Disconnect
         else if t = id_code C2V_CANCEL_LANE_CHANGE then Some CancelLaneChange
         else if t = id_code C2V_TURN_180 then Some Turn180
         else if t = id_code C2V_PING_REQUEST then Some Ping
         else if t = id_code C2V_VERSION_REQUEST then Some GetVersion
         else None
     | [n, t, a] \<Rightarrow>
         if n \<noteq> 2 then None
         else if t = id_code C2V_SDK_MODE then Some (SdkMode a)
         else if t = id_code C2V_SET_LIGHTS then Some (SetLights a)
         else None
     | [n, t, a, b, c, d] \<Rightarrow>
         if n = 5 \<and> t = id_code C2V_SET_OFFSET_FROM_ROAD_CENTER
         then Some (SetOffset (of_le32 a b c d)) else None
     | [n, t, a, b, c, d, r] \<Rightarrow>
         if n = 6 \<and> t = id_code C2V_SET_SPEED \<and> r = 0
         then Some (SetSpeed (of_le16 a b) (of_le16 c d)) else None
     | [n, t, a, b, c, d, e, f] \<Rightarrow>
         if n = 7 \<and> t = id_code C2V_LIGHTS_PATTERN
         then Some (LightsPattern a b c d (of_le16 e f)) else None
     | [n, t, a, b, c, d, e, f, r, q] \<Rightarrow>
         if n = 9 \<and> t = id_code C2V_CHANGE_LANE \<and> r = 0 \<and> q = 0
         then Some (ChangeLane (of_le16 a b) (of_le32 c d e f)) else None
     | _ \<Rightarrow> None)"

lemma read_msg_wire: "read_msg (wire m) = Some m"
  by (cases m) (simp_all add: read_msg_def layouts le16_def le32_def of_le16_bytes of_le32_bytes)

lemma wire_length: "2 \<le> length (wire m)" "length (wire m) \<le> 10"
  by (cases m; simp add: layouts)+

lemma wire_size_byte: "wire m ! 0 = of_nat (length (wire m) - 1)"
  by (cases m) (simp_all add: layouts)

section \<open>The contract of a builder\<close>

text \<open>What the code that sends a message relies on: the builder fills the front of the object
  it is given with a message whose first byte is the number of the bytes that follow it, says
  how many bytes to send, and leaves the object's size alone.\<close>

locale message_builder =
  fixes make :: "ptr \<Rightarrow> (u8 \<times> bytes) option" and image :: bytes
  assumes makes: "ANKI_VEHICLE_MSG_MAX_SIZE \<le> length mem \<Longrightarrow>
      \<exists>mem'. make (Some mem) = Some (of_nat (length image), mem') \<and>
             take (length image) mem' = image \<and> length mem' = length mem"
    and null: "make None = None"
    and sized: "image \<noteq> [] \<and> length image \<le> ANKI_VEHICLE_MSG_MAX_SIZE"
    and counted: "image ! 0 = of_nat (length image - 1)"
begin

text \<open>The bytes that \<open>gatt_write_char(attrib, handle, value, plen, ...)\<close> is given: they depend
  on nothing but the message, so no uninitialised byte of the object leaves the program.\<close>

lemma sent_bytes:
  assumes "ANKI_VEHICLE_MSG_MAX_SIZE \<le> length mem" "make (Some mem) = Some (n, mem')"
  shows "take (unat n) mem' = image"
proof -
  have "length image \<le> 20" using sized by simp
  then show ?thesis using makes [OF assms(1)] assms(2) by auto
qed

lemma sent_size:
  assumes "ANKI_VEHICLE_MSG_MAX_SIZE \<le> length mem" "make (Some mem) = Some (n, mem')"
  shows "0 < n" "unat n \<le> ANKI_VEHICLE_MSG_MAX_SIZE" "mem' ! 0 = n - 1"
proof -
  have len: "0 < length image" "length image \<le> 20" using sized by simp_all
  from makes [OF assms(1)] assms(2) have n: "n = of_nat (length image)"
    and img: "take (length image) mem' = image" by auto
  show "0 < n" using len by (simp add: n word_greater_zero_iff word_of_nat_eq_0_iff nat_dvd_not_less)
  show "unat n \<le> ANKI_VEHICLE_MSG_MAX_SIZE" using len by (simp add: n)
  have "mem' ! 0 = image ! 0" using img len by (metis nth_take)
  then show "mem' ! 0 = n - 1" using len by (simp add: counted n of_nat_diff)
qed

lemma independent_of_memory:
  assumes "ANKI_VEHICLE_MSG_MAX_SIZE \<le> length mem1" "ANKI_VEHICLE_MSG_MAX_SIZE \<le> length mem2"
    and "make (Some mem1) = Some (n1, mem1')" "make (Some mem2) = Some (n2, mem2')"
  shows "n1 = n2" "take (unat n1) mem1' = take (unat n2) mem2'"
  using sent_bytes [OF assms(1,3)] sent_bytes [OF assms(2,4)] makes [OF assms(1)] makes [OF assms(2)] assms
  by auto

end

text \<open>Each builder, run on any 20-byte object, yields the specified bytes over it.\<close>

lemma build_wire:
  assumes "ANKI_VEHICLE_MSG_MAX_SIZE \<le> length mem"
  shows "\<exists>mem'. build m (Some mem) = Some (of_nat (length (wire m)), mem') \<and>
    take (length (wire m)) mem' = wire m \<and> length mem' = length mem"
proof -
  have ne: "mem \<noteq> []" using assms by auto
  show ?thesis using assms ne
    by (cases m) (simp_all add: builders layouts wrn_front c_fill numeral_eq_Suc)
qed

interpretation msg: message_builder "build m" "wire m" for m
proof
  show "build m None = None" by (cases m) (simp_all add: builders)
  show "wire m \<noteq> [] \<and> length (wire m) \<le> ANKI_VEHICLE_MSG_MAX_SIZE"
    using wire_length [of m] by auto
qed (rule build_wire wire_size_byte; assumption?)+

section \<open>Properties\<close>

text \<open>What a builder leaves behind its message: only \<open>anki_vehicle_msg_change_lane\<close> clears the whole object.\<close>

definition behind :: "vehicle_msg \<Rightarrow> bytes \<Rightarrow> bytes" where
  "behind m mem = (case m of
     ChangeLane _ _ \<Rightarrow> replicate (ANKI_VEHICLE_MSG_MAX_SIZE - length (wire m)) 0 @ drop ANKI_VEHICLE_MSG_MAX_SIZE mem
   | _ \<Rightarrow> drop (length (wire m)) mem)"

lemma build_behind:
  assumes "ANKI_VEHICLE_MSG_MAX_SIZE \<le> length mem" and "build m (Some mem) = Some (n, mem')"
  shows "drop (length (wire m)) mem' = behind m mem"
proof -
  have ne: "mem \<noteq> []" using assms by auto
  show ?thesis using assms ne
    by (cases m) (auto simp: behind_def builders layouts wrn_front c_fill numeral_eq_Suc, simp_all add: overlay_def le16_def le32_def)
qed

text \<open>C11: every message builder of \<open>protocol.c\<close>, given a 20-byte message object, returns without
  a fault the number of bytes to send, and those bytes of the object are the packed struct of
  the message: its size byte counts the bytes after it, its identifier is the one of the
  header, and the parameters can be read back from it. The bytes behind the message stay as they were, except that
  the builder of a lane change clears all 20 bytes of the object.\<close>

theorem build_roundtrip:
  assumes "ANKI_VEHICLE_MSG_MAX_SIZE \<le> length mem"
  shows "\<exists>n mem'. build m (Some mem) = Some (n, mem') \<and> length mem' = length mem \<and>
    0 < n \<and> unat n \<le> ANKI_VEHICLE_MSG_MAX_SIZE \<and> mem' ! 0 = n - 1 \<and>
    take (unat n) mem' = wire m \<and> read_msg (take (unat n) mem') = Some m \<and>
    drop (unat n) mem' = (case m of
      ChangeLane _ _ \<Rightarrow> replicate (ANKI_VEHICLE_MSG_MAX_SIZE - length (wire m)) 0 @ drop ANKI_VEHICLE_MSG_MAX_SIZE mem
    | _ \<Rightarrow> drop (length (wire m)) mem)"
proof -
  obtain mem' where b: "build m (Some mem) = Some (of_nat (length (wire m)), mem')"
    "length mem' = length mem"
    using msg.makes [OF assms] by blast
  have n: "unat (of_nat (length (wire m)) :: u8) = length (wire m)"
    using wire_length [of m] by simp
  show ?thesis
    using b msg.sent_bytes [OF assms b(1)] msg.sent_size [OF assms b(1)] read_msg_wire build_behind [OF assms b(1)] n
    by (auto simp: behind_def)
qed

text \<open>what a builder asks to send does not depend on what the message object held before (the
  tools build messages in uninitialised stack objects), and two builder calls ask to send the
  same bytes only if they are the same call.\<close>

theorem build_independent_injective:
  assumes "ANKI_VEHICLE_MSG_MAX_SIZE \<le> length mem1" "ANKI_VEHICLE_MSG_MAX_SIZE \<le> length mem2"
    and "build m1 (Some mem1) = Some (n1, mem1')" "build m2 (Some mem2) = Some (n2, mem2')"
  shows "take (unat n1) mem1' = take (unat n2) mem2' \<longleftrightarrow> m1 = m2"
  using msg.sent_bytes [OF assms(1,3)] msg.sent_bytes [OF assms(2,4)] read_msg_wire
  by (metis option.inject)

theorem build_roundtrip_witness:
  "\<exists>n mem'. build (SetSpeed 1000 25000) (Some (replicate 20 0xAA)) = Some (n, mem') \<and>
     take (unat n) mem' = [0x06, 0x24, 0xe8, 0x03, 0xa8, 0x61, 0x00]"
proof -
  have "wire (SetSpeed 1000 25000) = [0x06, 0x24, 0xe8, 0x03, 0xa8, 0x61, 0x00]"
    by (simp add: layouts le16_def)
  moreover have "20 \<le> length (replicate 20 (0xAA :: u8))" by simp
  ultimately show ?thesis using build_roundtrip by metis
qed

theorem build_independent_injective_witness:
  "\<exists>n1 mem1 n2 mem2. build Ping (Some (replicate 20 0xAA)) = Some (n1, mem1) \<and>
     build GetVersion (Some (replicate 20 0)) = Some (n2, mem2) \<and>
     take (unat n1) mem1 \<noteq> take (unat n2) mem2"
proof -
  have l: "20 \<le> length (replicate 20 (0xAA :: u8))" "20 \<le> length (replicate 20 (0 :: u8))" by simp_all
  obtain mem1 mem2 where "build Ping (Some (replicate 20 0xAA)) = Some (of_nat (length (wire Ping)), mem1)"
    "build GetVersion (Some (replicate 20 0)) = Some (of_nat (length (wire GetVersion)), mem2)"
    using msg.makes [OF l(1)] msg.makes [OF l(2)] by blast
  then show ?thesis using build_independent_injective [OF l] by blast
qed

end
