(* ===== verification/Anki_Uuid.thy ===== *)
theory Anki_Uuid
  imports Prelude
begin

text \<open>
  Service identifiers of the SDK: \<open>src/src/uuid.h\<close>, \<open>src/src/uuid.c\<close> and the constants of
  \<open>src/src/vehicle_gatt_profile.h\<close>. A \<open>uuid128_t\<close> is its 16 bytes, \<open>byte0\<close> first.
\<close>

type_synonym uuid128_t = bytes

definition uuid128_cmp :: "uuid128_t \<Rightarrow> uuid128_t \<Rightarrow> int option" where
  "uuid128_cmp a b = do {
     x \<leftarrow> rdn a 0 16;
     y \<leftarrow> rdn b 0 16;
     Some (memcmp x y) }"

definition ANKI_STR_SERVICE_UUID :: string where
  "ANKI_STR_SERVICE_UUID = ''BE15BEEF-6186-407E-8381-0BD89C4D8DF4''"

definition ANKI_SERVICE_UUID :: uuid128_t where
  "ANKI_SERVICE_UUID =
     [0xbe, 0x15, 0xbe, 0xef, 0x61, 0x68, 0x40, 0x7e, 0x83, 0x81, 0x0b, 0xd8, 0x9c, 0x4d, 0x8d, 0xf4]"

definition ANKI_SERVICE_UUID_LE :: uuid128_t where
  "ANKI_SERVICE_UUID_LE =
     [0xf4, 0x8d, 0x4d, 0x9c, 0xd8, 0x0b, 0x81, 0x83, 0x7e, 0x40, 0x86, 0x61, 0xef, 0xbe, 0x15, 0xbe]"

definition ANKI_STR_CHR_READ_UUID :: string where
  "ANKI_STR_CHR_READ_UUID = ''BE15BEE0-6186-407E-8381-0BD89C4D8DF4''"

definition ANKI_CHR_READ_UUID :: uuid128_t where
  "ANKI_CHR_READ_UUID =
     [0xbe, 0x15, 0xbe, 0xe0, 0x61, 0x68, 0x40, 0x7e, 0x83, 0x81, 0x0b, 0xd8, 0x9c, 0x4d, 0x8d, 0xf4]"

definition ANKI_STR_CHR_WRITE_UUID :: string where
  "ANKI_STR_CHR_WRITE_UUID = ''BE15BEE1-6186-407E-8381-0BD89C4D8DF4''"

definition ANKI_CHR_WRITE_UUID :: uuid128_t where
  "ANKI_CHR_WRITE_UUID =
     [0xbe, 0x15, 0xbe, 0xe1, 0x61, 0x68, 0x40, 0x7e, 0x83, 0x81, 0x0b, 0xd8, 0x9c, 0x4d, 0x8d, 0xf4]"

lemma length_ANKI_SERVICE_UUID_LE [simp]: "length ANKI_SERVICE_UUID_LE = 16"
  by (simp add: ANKI_SERVICE_UUID_LE_def)

lemma uuid128_cmp_eq_0:
  "length a = 16 \<Longrightarrow> length b = 16 \<Longrightarrow> uuid128_cmp a b = Some 0 \<longleftrightarrow> a = b"
  by (simp add: uuid128_cmp_def c_mem memcmp_eq_0)

lemma uuid128_cmp_fault: "uuid128_cmp a b = None \<longleftrightarrow> length a < 16 \<or> length b < 16"
  by (auto simp: uuid128_cmp_def rdn_def)

lemma uuid128_cmp_append:
  "16 \<le> length a \<Longrightarrow> uuid128_cmp (a @ r) b = uuid128_cmp a b"
  by (simp add: uuid128_cmp_def c_mem)

end
