(* ===== verification/Eir.thy ===== *)
theory Eir
  imports Prelude
begin

text \<open>
  Advertising records: \<open>src/src/eir.h\<close> and \<open>src/src/eir.c\<close>. A scan is a sequence of
  records, each a length byte, a type byte and \<open>length - 1\<close> bytes of data; it ends at the
  length of the scan, at a zero length or at a zero type. \<open>ad_bytes\<close> is the encoding of a list
  of records; the locale \<open>ad_walker\<close> is what a loop over such a scan promises, with the
  theorem that such a loop visits exactly the encoded records. \<open>ble_adv_parse_scan\<close> is one
  such loop; the advertisement parser is another.
\<close>

section \<open>Record types (eir.h)\<close>

abbreviation (input) ADV_TYPE_INVALID :: u8 where "ADV_TYPE_INVALID \<equiv> 0"
abbreviation (input) ADV_TYPE_FLAGS :: u8 where "ADV_TYPE_FLAGS \<equiv> 0x1"
abbreviation (input) ADV_TYPE_UUID_128 :: u8 where "ADV_TYPE_UUID_128 \<equiv> 0x7"
abbreviation (input) ADV_TYPE_LOCAL_NAME :: u8 where "ADV_TYPE_LOCAL_NAME \<equiv> 0x9"
abbreviation (input) ADV_TYPE_TX_POWER :: u8 where "ADV_TYPE_TX_POWER \<equiv> 0xa"
abbreviation (input) ADV_TYPE_MANUFACTURER_DATA :: u8 where "ADV_TYPE_MANUFACTURER_DATA \<equiv> 0xff"

record ble_adv_record_t =
  rec_type :: u8
  rec_length :: u8
  rec_data :: bytes \<comment> \<open>\<open>uint8_t data[30]\<close>\<close>

section \<open>The scan loop (eir.c)\<close>

text \<open>The body of \<open>if (records != NULL)\<close>: the record at \<open>idx\<close> is overwritten, a copy longer
  than its 30 data bytes or an index outside the array is a fault.\<close>

definition store_record ::
  "bytes \<Rightarrow> nat \<Rightarrow> u8 \<Rightarrow> u8 \<Rightarrow> u8 \<Rightarrow> ble_adv_record_t list option \<Rightarrow> ble_adv_record_t list option option" where
  "store_record scan i len type idx records = (case records of
       None \<Rightarrow> Some None
     | Some rs \<Rightarrow>
         if unat idx < length rs then do {
           d \<leftarrow> rdn scan (i + 1) (unat len - 1);
           d' \<leftarrow> wrn (rec_data (rs ! unat idx)) 0 d;
           Some (Some (rs[unat idx := \<lparr>rec_type = type, rec_length = len - 1, rec_data = d'\<rparr>]))
         } else None)"

text \<open>The \<open>while\<close> loop, from index \<open>i\<close> with the 8-bit \<open>record_index\<close>.\<close>

function scan_loop ::
  "bytes \<Rightarrow> nat \<Rightarrow> nat \<Rightarrow> u8 \<times> ble_adv_record_t list option \<Rightarrow>
   (u8 \<times> ble_adv_record_t list option) option" where
  "scan_loop scan data_len i (record_index, records) =
     (if i < data_len then do {
        len \<leftarrow> rd scan i;
        if len = 0 then Some (record_index, records) else do {
          type \<leftarrow> rd scan (i + 1);
          if type = ADV_TYPE_INVALID then Some (record_index, records) else do {
            records' \<leftarrow> store_record scan (i + 1) len type record_index records;
            scan_loop scan data_len (i + 1 + unat len) (record_index + 1, records')
          }
        }
      } else Some (record_index, records))"
  by pat_completeness auto
termination
  by (relation "measure (\<lambda>(scan, n, i, s). n - i)") auto

declare scan_loop.simps [simp del]

text \<open>\<open>record_count\<close> and \<open>records\<close> are the objects the pointers refer to, \<open>None\<close> for NULL;
  the result is the return value and the two objects afterwards.\<close>

definition ble_adv_parse_scan ::
  "ptr \<Rightarrow> nat \<Rightarrow> nat option \<Rightarrow> ble_adv_record_t list option \<Rightarrow>
   (int \<times> nat option \<times> ble_adv_record_t list option) option" where
  "ble_adv_parse_scan data data_len record_count records = (case data of
       None \<Rightarrow> Some (1, record_count, records)
     | Some scan \<Rightarrow> do {
         (record_index, records') \<leftarrow> scan_loop scan data_len 0 (0, records);
         Some (0, map_option (\<lambda>_. unat record_index) record_count, records') })"

section \<open>The encoding of a list of records\<close>

type_synonym ad_record = "u8 \<times> bytes"

definition ad_valid :: "ad_record \<Rightarrow> bool" where
  "ad_valid r \<longleftrightarrow> fst r \<noteq> ADV_TYPE_INVALID \<and> length (snd r) < 255"

fun ad_bytes :: "ad_record list \<Rightarrow> bytes" where
  "ad_bytes [] = []"
| "ad_bytes ((t, d) # rs) = of_nat (length d + 1) # t # d @ ad_bytes rs"

text \<open>A scan of \<open>n\<close> bytes in \<open>scan\<close> from offset \<open>i\<close> holds the records \<open>rs\<close>: they fill it, or
  are followed by a zero byte (the padding of a short advertisement).\<close>

definition holds_records :: "bytes \<Rightarrow> nat \<Rightarrow> nat \<Rightarrow> ad_record list \<Rightarrow> bool" where
  "holds_records scan n i rs \<longleftrightarrow> list_all ad_valid rs \<and> n \<le> length scan \<and>
     (\<exists>post. drop i scan = ad_bytes rs @ post \<and> i \<le> length scan \<and>
        (n = i + length (ad_bytes rs) \<or> i + length (ad_bytes rs) < n \<and> hd post = 0))"

lemma holds_records_Cons:
  assumes "holds_records scan n i ((t, d) # rs)"
  shows "i < n" "Suc i + length d < length scan"
    "scan ! i = of_nat (length d + 1)" "scan ! Suc i = t" "length d < 255" "t \<noteq> 0"
    "take (length d) (drop (i + 2) scan) = d"
    "holds_records scan n (i + 2 + length d) rs"
proof -
  obtain post where dr: "drop i scan = of_nat (length d + 1) # t # d @ ad_bytes rs @ post"
    and n: "n \<le> length scan" "i \<le> length scan"
    and e: "n = i + 2 + length d + length (ad_bytes rs) \<or>
            i + 2 + length d + length (ad_bytes rs) < n \<and> hd post = 0"
    and v: "ad_valid (t, d)" "list_all ad_valid rs"
    using assms by (auto simp: holds_records_def)
  have len: "length scan = i + 2 + length d + length (ad_bytes rs) + length post"
    using arg_cong [OF dr, of length] n by simp
  show "i < n" using e by auto
  show "Suc i + length d < length scan" using len by simp
  show "scan ! i = of_nat (length d + 1)" "scan ! Suc i = t"
    using arg_cong [OF dr, of "\<lambda>xs. xs ! 0"] arg_cong [OF dr, of "\<lambda>xs. xs ! 1"] len by simp_all
  show "length d < 255" "t \<noteq> 0" using v by (simp_all add: ad_valid_def)
  have d2: "drop (i + 2) scan = d @ ad_bytes rs @ post"
    using arg_cong [OF dr, of "drop 2"] by (simp add: add.commute)
  then show "take (length d) (drop (i + 2) scan) = d" by simp
  have "drop (i + 2 + length d) scan = ad_bytes rs @ post"
    using arg_cong [OF d2, of "drop (length d)"] by (simp add: add.commute)
  then show "holds_records scan n (i + 2 + length d) rs"
    unfolding holds_records_def using v n e len by auto
qed

lemma holds_records_Nil:
  assumes "holds_records scan n i []"
  shows "n = i \<or> i < n \<and> i < length scan \<and> scan ! i = 0"
proof -
  obtain post where p: "drop i scan = post" "n = i \<or> i < n \<and> hd post = 0" "n \<le> length scan"
    using assms by (auto simp: holds_records_def)
  then show ?thesis by (auto simp: hd_drop_conv_nth)
qed

lemma holds_records_whole: "list_all ad_valid rs \<Longrightarrow> holds_records (ad_bytes rs) (length (ad_bytes rs)) 0 rs"
  by (simp add: holds_records_def)

lemma holds_records_padded:
  "list_all ad_valid rs \<Longrightarrow> holds_records (ad_bytes rs @ replicate (Suc k) 0) (length (ad_bytes rs) + Suc k) 0 rs"
  by (simp add: holds_records_def)

section \<open>Loops over a scan\<close>

text \<open>Visiting records: a step either returns (\<open>Inl\<close>) or goes on with a new state (\<open>Inr\<close>).\<close>

fun run_records ::
  "(u8 \<Rightarrow> bytes \<Rightarrow> 's \<Rightarrow> ('r + 's) option) \<Rightarrow> ('s \<Rightarrow> 'r option) \<Rightarrow> ad_record list \<Rightarrow> 's \<Rightarrow> 'r option" where
  "run_records step finish [] s = finish s"
| "run_records step finish ((t, d) # rs) s = do {
     x \<leftarrow> step t d s;
     case x of Inl r \<Rightarrow> Some r | Inr s' \<Rightarrow> run_records step finish rs s' }"

locale ad_walker =
  fixes walk :: "bytes \<Rightarrow> nat \<Rightarrow> nat \<Rightarrow> 's \<Rightarrow> 'r option"
    and step :: "u8 \<Rightarrow> bytes \<Rightarrow> 's \<Rightarrow> ('r + 's) option"
    and finish :: "'s \<Rightarrow> 'r option"
  assumes walk_end: "n \<le> i \<Longrightarrow> walk scan n i s = finish s"
    and walk_pad: "i < n \<Longrightarrow> i < length scan \<Longrightarrow> scan ! i = 0 \<Longrightarrow> walk scan n i s = finish s"
    and walk_record: "i < n \<Longrightarrow> Suc i + length d < length scan \<Longrightarrow> length d < 255 \<Longrightarrow>
      scan ! i = of_nat (length d + 1) \<Longrightarrow> scan ! Suc i = t \<Longrightarrow> t \<noteq> 0 \<Longrightarrow>
      take (length d) (drop (i + 2) scan) = d \<Longrightarrow>
      walk scan n i s = do {
        x \<leftarrow> step t d s;
        case x of Inl r \<Rightarrow> Some r | Inr s' \<Rightarrow> walk scan n (i + 2 + length d) s' }"
begin

theorem walk_run: "holds_records scan n i rs \<Longrightarrow> walk scan n i s = run_records step finish rs s"
proof (induction rs arbitrary: i s)
  case Nil
  then show ?case using holds_records_Nil [OF Nil] walk_end walk_pad by auto
next
  case (Cons r rs)
  obtain t d where r: "r = (t, d)" by (cases r)
  note h = holds_records_Cons [OF Cons.prems [unfolded r]]
  show ?case
    using walk_record [OF h(1,2,5,3,4,6,7), of s] Cons.IH [OF h(8)] r
    by (auto split: sum.splits intro!: Option.bind_cong)
qed

corollary walk_ad_bytes:
  "list_all ad_valid rs \<Longrightarrow> walk (ad_bytes rs) (length (ad_bytes rs)) 0 s = run_records step finish rs s"
  by (rule walk_run [OF holds_records_whole])

text \<open>The padding of an advertisement does not change what is found in it.\<close>

corollary walk_padding:
  "list_all ad_valid rs \<Longrightarrow>
   walk (ad_bytes rs @ replicate (Suc k) 0) (length (ad_bytes rs) + Suc k) 0 s =
   walk (ad_bytes rs) (length (ad_bytes rs)) 0 s"
  using walk_run [OF holds_records_padded] walk_ad_bytes by simp

end

section \<open>\<open>ble_adv_parse_scan\<close> finds the encoded records\<close>

definition put_record :: "u8 \<Rightarrow> bytes \<Rightarrow> u8 \<Rightarrow> ble_adv_record_t list option \<Rightarrow> ble_adv_record_t list option option" where
  "put_record t d idx records = (case records of
       None \<Rightarrow> Some None
     | Some rs \<Rightarrow>
         if unat idx < length rs then do {
           d' \<leftarrow> wrn (rec_data (rs ! unat idx)) 0 d;
           Some (Some (rs[unat idx := \<lparr>rec_type = t, rec_length = of_nat (length d), rec_data = d'\<rparr>]))
         } else None)"

definition scan_step ::
  "u8 \<Rightarrow> bytes \<Rightarrow> u8 \<times> ble_adv_record_t list option \<Rightarrow>
   ((u8 \<times> ble_adv_record_t list option) + (u8 \<times> ble_adv_record_t list option)) option" where
  "scan_step t d s = do {
     records \<leftarrow> put_record t d (fst s) (snd s);
     Some (Inr (fst s + 1, records)) }"

lemma store_record_put:
  assumes "Suc i + length d < length scan" "length d < 255" "take (length d) (drop (i + 2) scan) = d"
  shows "store_record scan (Suc i) (of_nat (length d + 1)) t idx records = put_record t d idx records"
proof -
  have n: "unat (of_nat (length d + 1) :: u8) = length d + 1" using assms by (subst unat_of_nat8) auto
  then have "rdn scan (Suc i + 1) (unat (of_nat (length d + 1) :: u8) - 1) = Some d"
    using assms by (simp add: rdn_eq_Some)
  then show ?thesis
    by (auto simp: store_record_def put_record_def split: option.splits)
qed

interpretation eir: ad_walker scan_loop scan_step Some
proof
  fix n i :: nat and scan and s :: "u8 \<times> ble_adv_record_t list option"
  show "n \<le> i \<Longrightarrow> scan_loop scan n i s = Some s"
    by (cases s) (simp add: scan_loop.simps)
  show "scan_loop scan n i s = Some s" if "i < n" "i < length scan" "scan ! i = 0"
    using that by (cases s) (simp add: scan_loop.simps c_mem)
next
  fix n i :: nat and scan d :: bytes and t :: u8 and s :: "u8 \<times> ble_adv_record_t list option"
  assume a: "i < n" "Suc i + length d < length scan" "length d < 255"
    "scan ! i = of_nat (length d + 1)" "scan ! Suc i = t" "t \<noteq> 0"
    "take (length d) (drop (i + 2) scan) = d"
  have n: "unat (of_nat (length d + 1) :: u8) = length d + 1" using a by (subst unat_of_nat8) auto
  then have nz: "(of_nat (length d + 1) :: u8) \<noteq> 0" by (metis unat_0 add_is_0 zero_neq_one)
  obtain idx records where s: "s = (idx, records)" by (cases s)
  show "scan_loop scan n i s = do {
          x \<leftarrow> scan_step t d s;
          case x of Inl r \<Rightarrow> Some r | Inr s' \<Rightarrow> scan_loop scan n (i + 2 + length d) s' }"
    using a n nz store_record_put [OF a(2,3,7)]
    by (simp add: s scan_loop.simps [of scan n i] c_mem scan_step_def
        del: of_nat_add of_nat_Suc split: option.split)
qed

text \<open>The array after storing the records \<open>rs\<close> from index \<open>k\<close>.\<close>

fun stored :: "ad_record list \<Rightarrow> nat \<Rightarrow> ble_adv_record_t list \<Rightarrow> ble_adv_record_t list" where
  "stored [] k arr = arr"
| "stored ((t, d) # rs) k arr = stored rs (Suc k)
     (arr[k := \<lparr>rec_type = t, rec_length = of_nat (length d),
                rec_data = overlay d (rec_data (arr ! k))\<rparr>])"

lemma length_stored [simp]: "length (stored rs k arr) = length arr"
  by (induction rs k arr rule: stored.induct) auto

lemma stored_nth_below: "i < k \<Longrightarrow> stored rs k arr ! i = arr ! i"
  by (induction rs k arr rule: stored.induct) auto

lemma stored_nth_above: "k + length rs \<le> i \<Longrightarrow> stored rs k arr ! i = arr ! i"
  by (induction rs k arr rule: stored.induct) auto

lemma stored_nth:
  "j < length rs \<Longrightarrow> k + j < length arr \<Longrightarrow>
   rec_type (stored rs k arr ! (k + j)) = fst (rs ! j) \<and>
   rec_length (stored rs k arr ! (k + j)) = of_nat (length (snd (rs ! j))) \<and>
   take (length (snd (rs ! j))) (rec_data (stored rs k arr ! (k + j))) = snd (rs ! j)"
proof (induction rs k arr arbitrary: j rule: stored.induct)
  case (2 t d rs k arr)
  show ?case
  proof (cases j)
    case 0
    then show ?thesis using 2 by (simp add: stored_nth_below)
  next
    case (Suc j')
    then show ?thesis using 2(1) [of j'] 2(2,3) by simp
  qed
qed simp

lemma run_count:
  "run_records scan_step Some rs (idx, None) = Some (idx + of_nat (length rs), None)"
  by (induction rs arbitrary: idx) (auto simp: scan_step_def put_record_def algebra_simps)

lemma run_store:
  assumes "list_all (\<lambda>r. length (snd r) \<le> 30) rs" "list_all (\<lambda>r. length (rec_data r) = 30) arr"
    "k + length rs \<le> length arr" "k + length rs < 256"
  shows "run_records scan_step Some rs (of_nat k, Some arr) =
    Some (of_nat (k + length rs), Some (stored rs k arr))"
  using assms
proof (induction rs arbitrary: k arr)
  case (Cons r rs)
  obtain t d where r: "r = (t, d)" by (cases r)
  have k: "unat (of_nat k :: u8) = k" "k < length arr" using Cons.prems by simp_all
  then have "length (rec_data (arr ! k)) = 30" using Cons.prems(2) by (auto simp: list_all_length)
  then have w: "wrn (rec_data (arr ! k)) 0 d = Some (overlay d (rec_data (arr ! k)))"
    and l: "length (overlay d (rec_data (arr ! k))) = 30"
    using Cons.prems(1) by (simp_all add: r wrn_front)
  let ?arr = "arr[k := \<lparr>rec_type = t, rec_length = of_nat (length d),
      rec_data = overlay d (rec_data (arr ! k))\<rparr>]"
  have "list_all (\<lambda>r. length (rec_data r) = 30) ?arr"
    using Cons.prems(2) l k by (auto simp: list_all_length nth_list_update)
  then have "run_records scan_step Some rs (of_nat (Suc k), Some ?arr) =
      Some (of_nat (Suc k + length rs), Some (stored rs (Suc k) ?arr))"
    using Cons.prems by (intro Cons.IH) auto
  moreover have "scan_step t d (of_nat k, Some arr) = Some (Inr (of_nat (Suc k), Some ?arr))"
    using k w by (simp add: scan_step_def put_record_def add.commute)
  ultimately show ?case by (simp add: r add.commute)
qed simp

lemma parse_scan_count:
  assumes "holds_records scan n 0 rs"
  shows "ble_adv_parse_scan (Some scan) n (Some c) None = Some (0, Some (length rs mod 256), None)"
  using eir.walk_run [OF assms, of "(0, None)"]
  by (simp add: ble_adv_parse_scan_def run_count unat_of_nat take_bit_eq_mod)

lemma parse_scan_records:
  assumes "holds_records scan n 0 rs" "list_all (\<lambda>r. length (snd r) \<le> 30) rs"
    and "list_all (\<lambda>r. length (rec_data r) = 30) arr" "length rs \<le> length arr" "length rs < 256"
  shows "ble_adv_parse_scan (Some scan) n (Some c) (Some arr) =
    Some (0, Some (length rs), Some (stored rs 0 arr))"
  using eir.walk_run [OF assms(1), of "(0, Some arr)"] run_store [OF assms(2,3), of 0] assms(4,5)
  by (simp add: ble_adv_parse_scan_def)

section \<open>Properties\<close>

text \<open>C21: \<open>ble_adv_parse_scan\<close> finds exactly the records a scan was made of, also when the scan is
  zero padded: it returns 0 with their number, stores type, length and data of the k-th one in
  the k-th element of the array, and touches no element after them.\<close>

theorem parse_scan_roundtrip:
  assumes "list_all ad_valid rs" "list_all (\<lambda>r. length (snd r) \<le> 30) rs"
    and "list_all (\<lambda>r. length (rec_data r) = 30) arr" "length rs \<le> length arr" "length rs < 256"
  shows "\<exists>arr'. ble_adv_parse_scan (Some (ad_bytes rs @ replicate k 0)) (length (ad_bytes rs) + k)
      (Some c) (Some arr) = Some (0, Some (length rs), Some arr') \<and> length arr' = length arr \<and>
    (\<forall>j < length rs. (rec_type (arr' ! j), take (unat (rec_length (arr' ! j))) (rec_data (arr' ! j))) = rs ! j) \<and>
    (\<forall>j. length rs \<le> j \<longrightarrow> j < length arr \<longrightarrow> arr' ! j = arr ! j)"
proof -
  have h: "holds_records (ad_bytes rs @ replicate k 0) (length (ad_bytes rs) + k) 0 rs"
    using holds_records_whole [OF assms(1)] holds_records_padded [OF assms(1)] by (cases k) simp_all
  have "length (snd (rs ! j)) < 256" if "j < length rs" for j
    using assms(1) that by (fastforce simp: list_all_length ad_valid_def)
  then have "(rec_type (stored rs 0 arr ! j),
      take (unat (rec_length (stored rs 0 arr ! j))) (rec_data (stored rs 0 arr ! j))) = rs ! j"
    if "j < length rs" for j
    using stored_nth [of j rs 0 arr] that assms(4) by (simp add: prod_eq_iff)
  then show ?thesis
    using parse_scan_records [OF h assms(2-5)] stored_nth_above [of 0 rs] by auto
qed

text \<open>called without an array, \<open>ble_adv_parse_scan\<close> counts in an 8-bit index, so the count it
  stores is the number of records modulo 256.\<close>

theorem parse_scan_count_wraps:
  assumes "holds_records scan n 0 rs"
  shows "ble_adv_parse_scan (Some scan) n (Some c) None = Some (0, Some (length rs mod 256), None)"
  by (rule parse_scan_count [OF assms])

text \<open>a scan whose last byte is a nonzero record length makes \<open>ble_adv_parse_scan\<close> read the
  record type past the end of the scan, with or without an array: the loop bounds the
  position of the length byte only.\<close>

theorem parse_scan_overread:
  assumes "list_all ad_valid rs" "len \<noteq> 0"
  shows "ble_adv_parse_scan (Some (ad_bytes rs @ [len])) (length (ad_bytes rs) + 1) c None = None"
proof -
  have "scan_loop (pre @ ad_bytes rs @ [len]) (length (pre @ ad_bytes rs) + 1) (length pre) (idx, None) = None"
    for pre idx
    using assms(1)
  proof (induction rs arbitrary: pre idx)
    case Nil
    then show ?case using assms(2) by (simp add: scan_loop.simps c_mem nth_append)
  next
    case (Cons r rs)
    have rs: "list_all ad_valid rs" using Cons.prems by simp
    obtain t d where r: "r = (t, d)" "t \<noteq> 0" "length d < 255"
      using Cons.prems by (cases r) (auto simp: ad_valid_def)
    then have n: "unat (of_nat (length d + 1) :: u8) = length d + 1" by (subst unat_of_nat8) auto
    then have nz: "(of_nat (length d + 1) :: u8) \<noteq> 0" by (metis unat_0 add_is_0 zero_neq_one)
    show ?case
      using Cons.IH [OF rs, of "pre @ of_nat (length d + 1) # t # d" "idx + 1"] r n nz
      by (simp add: scan_loop.simps [of _ _ "length pre"] c_mem nth_append store_record_def add.assoc
          del: of_nat_add of_nat_Suc)
  qed
  from this [of "[]" 0] show ?thesis by (simp add: ble_adv_parse_scan_def)
qed

section \<open>Witnesses\<close>

theorem parse_scan_roundtrip_witness:
  "\<exists>arr'. ble_adv_parse_scan (Some ([0x02, 0x01, 0x06, 0x02, 0x0A, 0x00] @ replicate 2 0)) 8 (Some 0)
     (Some (replicate 3 \<lparr>rec_type = 0, rec_length = 0, rec_data = replicate 30 0\<rparr>)) =
     Some (0, Some 2, Some arr') \<and> (rec_type (arr' ! 0), rec_type (arr' ! 1)) = (1, 0x0a)"
proof -
  let ?rs = "[(1, [6]), (0x0a, [0])] :: ad_record list"
  let ?arr = "replicate 3 \<lparr>rec_type = 0, rec_length = 0, rec_data = replicate 30 0\<rparr>"
  have "list_all ad_valid ?rs" "list_all (\<lambda>r. length (snd r) \<le> 30) ?rs"
    "list_all (\<lambda>r. length (rec_data r) = 30) ?arr" "length ?rs \<le> length ?arr" "length ?rs < 256"
    by (simp_all add: ad_valid_def list_all_iff)
  from parse_scan_roundtrip [OF this, of 2 0] obtain arr' where
    p: "ble_adv_parse_scan (Some (ad_bytes ?rs @ replicate 2 0)) (length (ad_bytes ?rs) + 2)
      (Some 0) (Some ?arr) = Some (0, Some (length ?rs), Some arr')"
    and a: "\<forall>j < length ?rs. (rec_type (arr' ! j), take (unat (rec_length (arr' ! j))) (rec_data (arr' ! j))) = ?rs ! j"
    by blast
  have b: "ad_bytes ?rs = [0x02, 0x01, 0x06, 0x02, 0x0A, 0x00]" "length (ad_bytes ?rs) + 2 = 8"
    "length ?rs = 2" by simp_all
  have "rec_type (arr' ! 0) = 1" "rec_type (arr' ! 1) = 0x0a"
    using a [rule_format, of 0] a [rule_format, of 1] by simp_all
  then show ?thesis using p unfolding b(2,3) unfolding b(1) by (intro exI [of _ arr']) simp
qed

theorem parse_scan_count_wraps_witness:
  "ble_adv_parse_scan (Some [0x02, 0x01, 0x06]) 3 (Some 9) None = Some (0, Some 1, None)"
proof -
  have "holds_records [0x02, 0x01, 0x06] 3 0 [(1, [6])]" by (simp add: holds_records_def ad_valid_def)
  then show ?thesis using parse_scan_count_wraps by fastforce
qed

theorem parse_scan_overread_witness:
  "ble_adv_parse_scan (Some [0x02, 0x01, 0x06, 0x05]) 4 None None = None"
proof -
  have "list_all ad_valid [(1, [6])]" "(5 :: u8) \<noteq> 0" by (simp_all add: ad_valid_def)
  from parse_scan_overread [OF this, of None] show ?thesis by (simp add: eval_nat_numeral)
qed

end
