(* ===== verification/Advertisement.thy ===== *)
theory Advertisement
  imports Anki_Uuid Eir
begin

text \<open>
  Vehicle advertisements: \<open>src/src/advertisement.h\<close> and \<open>src/src/advertisement.c\<close>.
  A copy that is longer than the struct member it is made to is a fault, as is a read past
  the scan. The parser is the second loop over advertising records (see \<open>ad_walker\<close>); its
  meaning on a well-formed scan is \<open>run_records adv_step adv_finish\<close>, one step per record.
\<close>

section \<open>The data a scan is parsed into (advertisement.h)\<close>

text \<open>The one-bit fields of the state byte; the reserved bits are not named here because the
  parser never writes them.\<close>

record anki_vehicle_adv_state_t =
  full_battery :: bool
  low_battery :: bool
  on_charger :: bool

record anki_vehicle_adv_info_t =
  adv_state :: anki_vehicle_adv_state_t
  adv_version :: u16
  info_reserved :: bytes \<comment> \<open>5 bytes\<close>
  adv_name :: bytes \<comment> \<open>13 bytes: 12 of UTF-8 and a NUL\<close>

record anki_vehicle_adv_mfg_t =
  mfg_identifier :: u32
  model_id :: u8
  mfg_reserved :: u8
  product_id :: u16

record anki_vehicle_adv_t =
  adv_flags :: u8
  tx_power :: u8
  mfg_data :: anki_vehicle_adv_mfg_t
  local_name :: anki_vehicle_adv_info_t
  service_id :: uuid128_t

text \<open>The objects have the sizes their C types give them.\<close>

definition adv_sized :: "anki_vehicle_adv_t \<Rightarrow> bool" where
  "adv_sized a \<longleftrightarrow> length (service_id a) = 16 \<and> length (adv_name (local_name a)) = 13"

section \<open>The parsers (advertisement.c)\<close>

definition IS_VEHICLE_STATE_SET :: "u8 \<Rightarrow> u8 \<Rightarrow> bool" where
  "IS_VEHICLE_STATE_SET state flag \<longleftrightarrow> (state AND flag) = flag"

abbreviation (input) VEHICLE_STATE_FULL_BATTERY :: u8 where "VEHICLE_STATE_FULL_BATTERY \<equiv> push_bit 4 1"
abbreviation (input) VEHICLE_STATE_LOW_BATTERY :: u8 where "VEHICLE_STATE_LOW_BATTERY \<equiv> push_bit 5 1"
abbreviation (input) VEHICLE_STATE_ON_CHARGER :: u8 where "VEHICLE_STATE_ON_CHARGER \<equiv> push_bit 6 1"

definition is_anki_vehicle_service_uuid :: "bytes \<Rightarrow> bool option" where
  "is_anki_vehicle_service_uuid a = do {
     c \<leftarrow> uuid128_cmp a ANKI_SERVICE_UUID_LE;
     Some (c = 0) }"

definition anki_vehicle_parse_mfg_data ::
  "ptr \<Rightarrow> u8 \<Rightarrow> anki_vehicle_adv_mfg_t \<Rightarrow> (u8 \<times> anki_vehicle_adv_mfg_t) option" where
  "anki_vehicle_parse_mfg_data bytes len mfg = (case bytes of
       None \<Rightarrow> Some (1, mfg)
     | Some b \<Rightarrow>
         if len \<noteq> 8 then Some (1, mfg) else do {
           b1 \<leftarrow> rd b 1; b0 \<leftarrow> rd b 0; b2 \<leftarrow> rd b 2; b3 \<leftarrow> rd b 3;
           b7 \<leftarrow> rd b 7; b6 \<leftarrow> rd b 6; b5 \<leftarrow> rd b 5; b4 \<leftarrow> rd b 4;
           Some (0, mfg\<lparr>product_id := ucast b1 OR push_bit 8 (ucast b0),
                        mfg_reserved := b2, model_id := b3,
                        mfg_identifier := ucast b7 OR push_bit 8 (ucast b6) OR
                          push_bit 16 (ucast b5) OR push_bit 24 (ucast b4)\<rparr>) })"

definition anki_vehicle_parse_local_name ::
  "bytes \<Rightarrow> u8 \<Rightarrow> anki_vehicle_adv_info_t \<Rightarrow> (u8 \<times> anki_vehicle_adv_info_t) option" where
  "anki_vehicle_parse_local_name b len info =
     (if len = 0 then Some (1, info) else do {
        b0 \<leftarrow> rd b 0;
        let state = b0 AND 0xff;
        let info = info\<lparr>adv_state :=
          \<lparr>full_battery = IS_VEHICLE_STATE_SET state VEHICLE_STATE_FULL_BATTERY,
           low_battery = IS_VEHICLE_STATE_SET state VEHICLE_STATE_LOW_BATTERY,
           on_charger = IS_VEHICLE_STATE_SET state VEHICLE_STATE_ON_CHARGER\<rparr>\<rparr>;
        info \<leftarrow> (if len > 1 then do { b1 \<leftarrow> rd b 1; Some (info\<lparr>adv_version := ucast b1\<rparr>) }
                else Some info);
        info \<leftarrow> (if len > 2 then do {
                   b2 \<leftarrow> rd b 2;
                   Some (info\<lparr>adv_version := adv_version info OR push_bit 8 (ucast b2)\<rparr>) }
                else Some info);
        info \<leftarrow> (if len > 8 then do {
                   let name_len = len - 8;
                   let cleared = replicate (length (adv_name info)) 0;
                   src \<leftarrow> rdn b 8 (unat name_len);
                   name \<leftarrow> wrn cleared 0 src;
                   Some (info\<lparr>adv_name := name\<rparr>) }
                else Some info);
        Some (0, info) })"

text \<open>\<open>memmove\<close> to the one-byte members \<open>flags\<close> and \<open>tx_power\<close>.\<close>

definition copy_to_byte :: "u8 \<Rightarrow> bytes \<Rightarrow> nat \<Rightarrow> u8 option" where
  "copy_to_byte old src n = do {
     d \<leftarrow> rdn src 0 n;
     cell \<leftarrow> wrn [old] 0 d;
     Some (cell ! 0) }"

text \<open>The \<open>switch\<close> on one record, whose data starts at the head of \<open>data\<close>: \<open>Inl\<close> is a
  \<open>return\<close> from the parser, \<open>Inr\<close> the object after the record. The pointer to the object is
  \<open>None\<close> for NULL.\<close>

definition adv_record ::
  "bytes \<Rightarrow> u8 \<Rightarrow> u8 \<Rightarrow> anki_vehicle_adv_t option \<Rightarrow>
   ((u8 \<times> anki_vehicle_adv_t option) + anki_vehicle_adv_t option) option" where
  "adv_record data data_len type adv =
     (if type = ADV_TYPE_INVALID then Some (Inl (- 1, adv))
      else if type = ADV_TYPE_FLAGS then (case adv of
          None \<Rightarrow> Some (Inr None)
        | Some a \<Rightarrow> do {
            f \<leftarrow> copy_to_byte (adv_flags a) data (unat data_len);
            Some (Inr (Some (a\<lparr>adv_flags := f\<rparr>))) })
      else if type = ADV_TYPE_UUID_128 then do {
          other \<leftarrow> (if data_len = 16 then do {
                      anki \<leftarrow> is_anki_vehicle_service_uuid data;
                      Some (\<not> anki) }
                    else Some False);
          if other then Some (Inl (2, adv)) else (case adv of
              Some a \<Rightarrow> do {
                d \<leftarrow> rdn data 0 (unat data_len);
                s \<leftarrow> wrn (service_id a) 0 d;
                Some (Inr (Some (a\<lparr>service_id := s\<rparr>))) }
            | None \<Rightarrow> Some (Inl (0, None))) }
      else if type = ADV_TYPE_LOCAL_NAME then (case adv of
          None \<Rightarrow> Some (Inr None)
        | Some a \<Rightarrow> do {
            (_, n) \<leftarrow> anki_vehicle_parse_local_name data data_len (local_name a);
            Some (Inr (Some (a\<lparr>local_name := n\<rparr>))) })
      else if type = ADV_TYPE_TX_POWER then (case adv of
          None \<Rightarrow> Some (Inr None)
        | Some a \<Rightarrow> do {
            p \<leftarrow> copy_to_byte (tx_power a) data (unat data_len);
            Some (Inr (Some (a\<lparr>tx_power := p\<rparr>))) })
      else if type = ADV_TYPE_MANUFACTURER_DATA then (case adv of
          None \<Rightarrow> Some (Inr None)
        | Some a \<Rightarrow> do {
            (_, m) \<leftarrow> anki_vehicle_parse_mfg_data (Some data) data_len (mfg_data a);
            Some (Inr (Some (a\<lparr>mfg_data := m\<rparr>))) })
      else Some (Inl (3, adv)))"

text \<open>The \<open>return\<close> after the loop.\<close>

definition adv_finish :: "anki_vehicle_adv_t option \<Rightarrow> (u8 \<times> anki_vehicle_adv_t option) option" where
  "adv_finish adv = (case adv of
       None \<Rightarrow> Some (2, None)
     | Some a \<Rightarrow> do {
         anki \<leftarrow> is_anki_vehicle_service_uuid (service_id a);
         Some (if anki then 0 else 2, Some a) })"

function adv_loop ::
  "bytes \<Rightarrow> nat \<Rightarrow> nat \<Rightarrow> anki_vehicle_adv_t option \<Rightarrow> (u8 \<times> anki_vehicle_adv_t option) option" where
  "adv_loop scan scan_len i adv =
     (if i < scan_len then do {
        len \<leftarrow> rd scan i;
        if len = 0 then adv_finish adv else do {
          type \<leftarrow> rd scan (i + 1);
          if type = ADV_TYPE_INVALID then adv_finish adv else do {
            r \<leftarrow> adv_record (drop (i + 2) scan) (len - 1) type adv;
            case r of
              Inl ret \<Rightarrow> Some ret
            | Inr adv' \<Rightarrow> adv_loop scan scan_len (i + 1 + unat len) adv'
          }
        }
      } else adv_finish adv)"
  by pat_completeness auto
termination
  by (relation "measure (\<lambda>(scan, n, i, a). n - i)") auto

declare adv_loop.simps [simp del]

definition anki_vehicle_parse_adv_record ::
  "ptr \<Rightarrow> nat \<Rightarrow> anki_vehicle_adv_t option \<Rightarrow> (u8 \<times> anki_vehicle_adv_t option) option" where
  "anki_vehicle_parse_adv_record scan_data scan_data_len adv = (case scan_data of
       None \<Rightarrow> Some (1, adv)
     | Some scan \<Rightarrow> adv_loop scan scan_data_len 0 adv)"

definition anki_vehicle_adv_record_has_anki_uuid :: "ptr \<Rightarrow> nat \<Rightarrow> u8 option" where
  "anki_vehicle_adv_record_has_anki_uuid scan_data scan_data_len = do {
     (r, _) \<leftarrow> anki_vehicle_parse_adv_record scan_data scan_data_len None;
     Some (if r = 0 then 1 else 0) }"

section \<open>One step per record\<close>

text \<open>The step reads nothing past the record's own data.\<close>

lemma rd_append [simp]: "i < length xs \<Longrightarrow> rd (xs @ ys) i = rd xs i"
  by (simp add: rd_def nth_append)

lemma rdn_append [simp]: "i + n \<le> length xs \<Longrightarrow> rdn (xs @ ys) i n = rdn xs i n"
  by (simp add: rdn_def)

lemma parse_mfg_data_append:
  "unat len = length d \<Longrightarrow>
   anki_vehicle_parse_mfg_data (Some (d @ r)) len m = anki_vehicle_parse_mfg_data (Some d) len m"
  by (cases "len = 8") (simp_all add: anki_vehicle_parse_mfg_data_def)

lemma parse_local_name_append:
  assumes "unat len = length d"
  shows "anki_vehicle_parse_local_name (d @ r) len a = anki_vehicle_parse_local_name d len a"
proof -
  have "len > 1 \<longleftrightarrow> 1 < length d" "len > 2 \<longleftrightarrow> 2 < length d" "len > 8 \<longleftrightarrow> 8 < length d"
    "len = 0 \<longleftrightarrow> length d = 0"
    using assms by (auto simp: word_less_nat_alt unat_eq_zero)
  moreover have "8 < length d \<Longrightarrow> unat (len - 8) = length d - 8"
    using assms by (subst unat_sub) (auto simp: word_le_nat_alt)
  ultimately show ?thesis
    by (auto simp: anki_vehicle_parse_local_name_def Let_def simp del: rd_eq_Some)
qed

lemma adv_record_append:
  "unat n = length d \<Longrightarrow> adv_record (d @ r) n t adv = adv_record d n t adv"
  by (auto simp: adv_record_def copy_to_byte_def parse_mfg_data_append parse_local_name_append
      is_anki_vehicle_service_uuid_def uuid128_cmp_append split: option.split cong: if_cong)

definition adv_step ::
  "u8 \<Rightarrow> bytes \<Rightarrow> anki_vehicle_adv_t option \<Rightarrow>
   ((u8 \<times> anki_vehicle_adv_t option) + anki_vehicle_adv_t option) option" where
  "adv_step t d adv = adv_record d (of_nat (length d)) t adv"

interpretation adv: ad_walker adv_loop adv_step adv_finish
proof
  fix n i :: nat and scan s
  show "n \<le> i \<Longrightarrow> adv_loop scan n i s = adv_finish s"
    by (simp add: adv_loop.simps)
  show "adv_loop scan n i s = adv_finish s" if "i < n" "i < length scan" "scan ! i = 0"
    using that by (simp add: adv_loop.simps c_mem)
next
  fix n i :: nat and scan d :: bytes and t :: u8 and s
  assume a: "i < n" "Suc i + length d < length scan" "length d < 255"
    "scan ! i = of_nat (length d + 1)" "scan ! Suc i = t" "t \<noteq> 0"
    "take (length d) (drop (i + 2) scan) = d"
  have n: "unat (of_nat (length d + 1) :: u8) = length d + 1" using a by (subst unat_of_nat8) auto
  then have nz: "(of_nat (length d + 1) :: u8) \<noteq> 0" by (metis unat_0 add_is_0 zero_neq_one)
  have "drop (i + 2) scan = d @ drop (i + 2 + length d) scan"
    using a(7) by (metis append_take_drop_id drop_drop add.commute)
  then have "adv_record (drop (i + 2) scan) (of_nat (length d + 1) - 1) t s = adv_step t d s"
    using a by (simp add: adv_step_def adv_record_append)
  then show "adv_loop scan n i s = do {
          x \<leftarrow> adv_step t d s;
          case x of Inl r \<Rightarrow> Some r | Inr s' \<Rightarrow> adv_loop scan n (i + 2 + length d) s' }"
    using a n nz
    by (simp add: adv_loop.simps [of scan n i] c_mem del: of_nat_add of_nat_Suc)
qed

section \<open>What the parsers compute\<close>

text \<open>Specification: the meaning of the data of one record, without machine operations.\<close>

definition state_of_byte :: "u8 \<Rightarrow> anki_vehicle_adv_state_t" where
  "state_of_byte b = \<lparr>full_battery = bit b 4, low_battery = bit b 5, on_charger = bit b 6\<rparr>"

definition name_effect :: "bytes \<Rightarrow> anki_vehicle_adv_info_t \<Rightarrow> anki_vehicle_adv_info_t" where
  "name_effect d info =
     (if d = [] then info else info\<lparr>
        adv_state := state_of_byte (d ! 0),
        adv_version := (if length d = 1 then adv_version info
                        else if length d = 2 then ucast (d ! 1)
                        else of_le16 (d ! 1) (d ! 2)),
        adv_name := (if 8 < length d then drop 8 d @ replicate (21 - length d) 0
                     else adv_name info)\<rparr>)"

definition mfg_bytes :: "anki_vehicle_adv_mfg_t \<Rightarrow> bytes" where
  "mfg_bytes m = rev (le16 (product_id m)) @ [mfg_reserved m, model_id m] @ rev (le32 (mfg_identifier m))"

definition mfg_effect :: "bytes \<Rightarrow> anki_vehicle_adv_mfg_t \<Rightarrow> anki_vehicle_adv_mfg_t" where
  "mfg_effect d m = (if length d \<noteq> 8 then m else
     \<lparr>mfg_identifier = of_le32 (d ! 7) (d ! 6) (d ! 5) (d ! 4), model_id = d ! 3,
      mfg_reserved = d ! 2, product_id = of_le16 (d ! 1) (d ! 0)\<rparr>)"

lemma state_set_bit: "k < 8 \<Longrightarrow> IS_VEHICLE_STATE_SET b (push_bit k 1) \<longleftrightarrow> bit b k"
  unfolding IS_VEHICLE_STATE_SET_def
  by (auto simp: bit_eq_iff [where ?'a = u8] bit_simps)

lemmas state_set_bits = state_set_bit [of 4, simplified] state_set_bit [of 5, simplified]
  state_set_bit [of 6, simplified]

lemma and_0xff [simp]: "(b :: u8) AND 0xff = b"
proof -
  have "(0xff :: u8) = - 1" by simp
  then show ?thesis by (simp only: and.right_neutral)
qed

lemma parse_local_name_eq:
  assumes "unat len = length d" "length (adv_name info) = 13"
  shows "anki_vehicle_parse_local_name d len info =
    (if d = [] then Some (1, info)
     else if length d \<le> 21 then Some (0, name_effect d info) else None)"
proof -
  have cmp: "len > 1 \<longleftrightarrow> 1 < length d" "len > 2 \<longleftrightarrow> 2 < length d" "len > 8 \<longleftrightarrow> 8 < length d"
    "len = 0 \<longleftrightarrow> d = []"
    using assms(1) by (auto simp: word_less_nat_alt unat_eq_zero)
  have sub: "8 < length d \<Longrightarrow> unat (len - 8) = length d - 8"
    using assms(1) by (subst unat_sub) (auto simp: word_le_nat_alt)
  note defs = anki_vehicle_parse_local_name_def Let_def name_effect_def state_of_byte_def
    state_set_bits of_le16_def wrn_def
  consider "d = []" | "length d = 1" | "length d = 2" | "2 < length d" "length d \<le> 8" | "8 < length d"
  proof -
    have "length d = 0 \<or> length d = 1 \<or> length d = 2 \<or> 2 < length d \<and> length d \<le> 8 \<or> 8 < length d"
      by arith
    with that show ?thesis by auto
  qed
  then show ?thesis
    by cases (use assms(2) cmp sub in \<open>auto simp: defs c_mem simp del: rd_eq_Some\<close>)
qed

lemma parse_mfg_data_eq:
  "unat len = length d \<Longrightarrow> anki_vehicle_parse_mfg_data (Some d) len m =
     Some (if length d = 8 then (0, mfg_effect d m) else (1, m))"
  by (auto simp: anki_vehicle_parse_mfg_data_def mfg_effect_def c_mem of_le16_def of_le32_def
      word_unat_eq_iff [of len] simp del: rd_eq_Some)

text \<open>A record fits its member of the struct.\<close>

definition adv_fits :: "ad_record \<Rightarrow> bool" where
  "adv_fits r \<longleftrightarrow>
     (fst r \<in> {ADV_TYPE_FLAGS, ADV_TYPE_TX_POWER} \<longrightarrow> length (snd r) \<le> 1) \<and>
     (fst r = ADV_TYPE_UUID_128 \<longrightarrow> length (snd r) \<le> 16) \<and>
     (fst r = ADV_TYPE_LOCAL_NAME \<longrightarrow> length (snd r) \<le> 21)"

definition adv_known :: "u8 \<Rightarrow> bool" where
  "adv_known t \<longleftrightarrow> t \<in> {ADV_TYPE_FLAGS, ADV_TYPE_UUID_128, ADV_TYPE_LOCAL_NAME, ADV_TYPE_TX_POWER,
     ADV_TYPE_MANUFACTURER_DATA}"

text \<open>The object after a record, and the record that ends the parse with 2.\<close>

definition adv_effect :: "ad_record \<Rightarrow> anki_vehicle_adv_t \<Rightarrow> anki_vehicle_adv_t" where
  "adv_effect r a = (case r of (t, d) \<Rightarrow>
     if t = ADV_TYPE_FLAGS then (if d = [] then a else a\<lparr>adv_flags := hd d\<rparr>)
     else if t = ADV_TYPE_UUID_128 then a\<lparr>service_id := overlay d (service_id a)\<rparr>
     else if t = ADV_TYPE_LOCAL_NAME then a\<lparr>local_name := name_effect d (local_name a)\<rparr>
     else if t = ADV_TYPE_TX_POWER then (if d = [] then a else a\<lparr>tx_power := hd d\<rparr>)
     else if t = ADV_TYPE_MANUFACTURER_DATA then a\<lparr>mfg_data := mfg_effect d (mfg_data a)\<rparr>
     else a)"

definition foreign_uuid :: "ad_record \<Rightarrow> bool" where
  "foreign_uuid r \<longleftrightarrow> fst r = ADV_TYPE_UUID_128 \<and> length (snd r) = 16 \<and> snd r \<noteq> ANKI_SERVICE_UUID_LE"

lemma is_anki_eq:
  "length u = 16 \<Longrightarrow> is_anki_vehicle_service_uuid u = Some (u = ANKI_SERVICE_UUID_LE)"
  by (simp add: is_anki_vehicle_service_uuid_def uuid128_cmp_def c_mem memcmp_eq_0)

lemma copy_to_byte_eq:
  "copy_to_byte old d (length d) =
     (if length d \<le> 1 then Some (if d = [] then old else hd d) else None)"
  by (cases d) (auto simp: copy_to_byte_def c_mem wrn_def)

lemma adv_step_eq:
  assumes "length d < 255" "t \<noteq> 0" "adv_sized a"
  shows "adv_step t d (Some a) =
    (if \<not> adv_known t then Some (Inl (3, Some a))
     else if foreign_uuid (t, d) then Some (Inl (2, Some a))
     else if adv_fits (t, d) then Some (Inr (Some (adv_effect (t, d) a)))
     else None)"
proof -
  have u: "unat (of_nat (length d) :: u8) = length d" using assms(1) by simp
  have u16: "of_nat (length d) = (16 :: u8) \<longleftrightarrow> length d = 16"
    using u by (simp add: word_unat_eq_iff)
  have s: "length (service_id a) = 16" "length (adv_name (local_name a)) = 13"
    using assms(3) by (auto simp: adv_sized_def)
  note defs = adv_step_def adv_record_def adv_known_def foreign_uuid_def adv_fits_def adv_effect_def
  consider "t = 1" | "t = 7" | "t = 9" | "t = 10" | "t = 255" | "\<not> adv_known t"
    by (auto simp: adv_known_def)
  then show ?thesis
  proof cases
    case 1 then show ?thesis by (auto simp: defs u copy_to_byte_eq)
  next
    case 2 then show ?thesis
      using s by (auto simp: defs u u16 is_anki_eq c_mem overlay_def)
  next
    case 3 then show ?thesis
      using s by (auto simp: defs u parse_local_name_eq name_effect_def)
  next
    case 4 then show ?thesis by (auto simp: defs u copy_to_byte_eq)
  next
    case 5 then show ?thesis by (auto simp: defs u parse_mfg_data_eq mfg_effect_def)
  next
    case 6 then show ?thesis using assms(2) by (auto simp: defs)
  qed
qed

lemma adv_effect_sized: "adv_sized a \<Longrightarrow> adv_fits r \<Longrightarrow> adv_sized (adv_effect r a)"
  by (auto simp: adv_sized_def adv_effect_def adv_fits_def name_effect_def split: prod.split)

section \<open>The parser against its specification\<close>

fun adv_spec :: "ad_record list \<Rightarrow> anki_vehicle_adv_t \<Rightarrow> (u8 \<times> anki_vehicle_adv_t option) option" where
  "adv_spec [] a = Some (if service_id a = ANKI_SERVICE_UUID_LE then 0 else 2, Some a)"
| "adv_spec (r # rs) a =
     (if \<not> adv_known (fst r) then Some (3, Some a)
      else if foreign_uuid r then Some (2, Some a)
      else if adv_fits r then adv_spec rs (adv_effect r a)
      else None)"

lemma run_adv_spec:
  "list_all ad_valid rs \<Longrightarrow> adv_sized a \<Longrightarrow>
   run_records adv_step adv_finish rs (Some a) = adv_spec rs a"
proof (induction rs arbitrary: a)
  case Nil
  then show ?case by (simp add: adv_finish_def is_anki_eq adv_sized_def)
next
  case (Cons r rs)
  obtain t d where r: "r = (t, d)" by (cases r)
  then have "length d < 255" "t \<noteq> 0" using Cons.prems by (auto simp: ad_valid_def)
  then show ?case
    using Cons by (simp add: r adv_step_eq adv_effect_sized)
qed

lemma adv_spec_append:
  "list_all (\<lambda>r. adv_known (fst r) \<and> \<not> foreign_uuid r \<and> adv_fits r) rs \<Longrightarrow>
   adv_spec (rs @ rs') a = adv_spec rs' (fold adv_effect rs a)"
  by (induction rs arbitrary: a) auto

lemma adv_spec_Nil_rest:
  "list_all (\<lambda>r. adv_known (fst r) \<and> \<not> foreign_uuid r \<and> adv_fits r) rs \<Longrightarrow>
   adv_spec rs a = adv_spec [] (fold adv_effect rs a)"
  using adv_spec_append [of rs "[]"] by simp

lemma fold_effect_sized:
  "list_all adv_fits rs \<Longrightarrow> adv_sized a \<Longrightarrow> adv_sized (fold adv_effect rs a)"
  by (induction rs arbitrary: a) (auto simp: adv_effect_sized)

text \<open>What one step does to the object, on any data: it stays sized, and a return from inside
  the loop never reports success for an object.\<close>

lemma local_name_sized:
  "anki_vehicle_parse_local_name d n i = Some (r, i') \<Longrightarrow> length (adv_name i') = length (adv_name i)"
  by (auto simp: anki_vehicle_parse_local_name_def Let_def bind_eq_Some_conv
      split: if_splits dest: wrn_length)

lemma adv_record_sized:
  assumes "adv_record d n t (Some a) = Some (Inr x)" "adv_sized a"
  obtains a' where "x = Some a'" "adv_sized a'"
  using assms
  by (auto simp: adv_record_def adv_sized_def bind_eq_Some_conv split: if_splits
      dest: wrn_length local_name_sized)

lemma adv_record_return:
  "adv_record d n t (Some a) = Some (Inl (r, x)) \<Longrightarrow> r \<in> {- 1, 2, 3} \<and> x = Some a"
  by (auto simp: adv_record_def bind_eq_Some_conv split: if_splits)

lemma adv_finish_sized:
  "adv_sized a \<Longrightarrow> adv_finish (Some a) = Some (if service_id a = ANKI_SERVICE_UUID_LE then 0 else 2, Some a)"
  by (simp add: adv_finish_def is_anki_eq adv_sized_def)

lemma adv_loop_success:
  "adv_loop scan n i (Some a) = Some (r, x) \<Longrightarrow> adv_sized a \<Longrightarrow>
   \<exists>a'. x = Some a' \<and> adv_sized a' \<and> (r = 0 \<longrightarrow> service_id a' = ANKI_SERVICE_UUID_LE)"
proof (induction scan n i "Some a" arbitrary: a rule: adv_loop.induct)
  case (1 scan n i a)
  note eq = "1.prems"(1) [unfolded adv_loop.simps [of scan n i]]
  note fin = adv_finish_sized [OF "1.prems"(2)]
  show ?case
  proof (cases "i < n \<and> scan ! i \<noteq> 0 \<and> scan ! (i + 1) \<noteq> 0")
    case False
    then show ?thesis using eq fin "1.prems"(2) by (auto simp: bind_eq_Some_conv split: if_splits)
  next
    case True
    with eq obtain y where y: "i < n" "Suc i < length scan"
      "adv_record (drop (Suc (Suc i)) scan) (scan ! i - 1) (scan ! Suc i) (Some a) = Some y"
      "(case y of Inl ret \<Rightarrow> Some ret
        | Inr adv' \<Rightarrow> adv_loop scan n (Suc (i + unat (scan ! i))) adv') = Some (r, x)"
      by (auto simp: bind_eq_Some_conv split: if_splits)
    show ?thesis
    proof (cases y)
      case (Inl ret)
      then show ?thesis using y adv_record_return "1.prems"(2) by fastforce
    next
      case (Inr z)
      obtain a' where a': "z = Some a'" "adv_sized a'"
        using adv_record_sized [OF y(3) [unfolded Inr] "1.prems"(2)] .
      show ?thesis
        using "1.hyps" y True Inr a' by simp
    qed
  qed
qed

section \<open>Properties\<close>

text \<open>C12: on a scan that holds a list of advertising records (up to its length, or followed by
  zero padding), \<open>anki_vehicle_parse_adv_record\<close> with a struct computes exactly the record-by-record
  specification: an unknown type returns 3, a 128-bit service identifier other than Anki's
  returns 2, a record longer than its member is the overflow fault, any other record updates
  its member, and at the end the service identifier in the struct decides between 0 and 2.\<close>

theorem parse_adv_record_refines:
  assumes "holds_records scan n 0 rs" "adv_sized a"
  shows "anki_vehicle_parse_adv_record (Some scan) n (Some a) = adv_spec rs a"
proof -
  have "list_all ad_valid rs" using assms(1) by (simp add: holds_records_def)
  then show ?thesis
    using adv.walk_run [OF assms(1)] run_adv_spec assms(2)
    by (simp add: anki_vehicle_parse_adv_record_def)
qed

text \<open>C28: whatever the bytes of a scan are, \<open>anki_vehicle_parse_adv_record\<close> reports success for
  a struct only when the service identifier stored in it is the Anki one, and the arrays of the
  struct keep their sizes.\<close>

theorem parse_adv_record_success_sound:
  assumes "anki_vehicle_parse_adv_record (Some scan) n (Some a) = Some (r, x)" "adv_sized a"
  shows "\<exists>a'. x = Some a' \<and> adv_sized a' \<and> (r = 0 \<longrightarrow> service_id a' = ANKI_SERVICE_UUID_LE)"
  using adv_loop_success [of scan n 0 a r x] assms by (simp add: anki_vehicle_parse_adv_record_def)

text \<open>C29: parsing two packets (an advertisement and its scan response) one after the other into
  the same struct gives the verdict and the struct that one packet with the records of both
  would give: records accumulate.\<close>

theorem parse_adv_record_accumulates:
  assumes "list_all ad_valid (rs @ rs')" "adv_sized a"
    and "list_all (\<lambda>r. adv_known (fst r) \<and> \<not> foreign_uuid r \<and> adv_fits r) (rs @ rs')"
  shows "\<exists>v a1. anki_vehicle_parse_adv_record (Some (ad_bytes rs)) (length (ad_bytes rs)) (Some a) = Some (v, Some a1) \<and>
    anki_vehicle_parse_adv_record (Some (ad_bytes rs')) (length (ad_bytes rs')) (Some a1) =
    anki_vehicle_parse_adv_record (Some (ad_bytes (rs @ rs'))) (length (ad_bytes (rs @ rs'))) (Some a)"
proof -
  have v: "list_all ad_valid rs" "list_all ad_valid rs'" using assms(1) by simp_all
  have k: "list_all (\<lambda>r. adv_known (fst r) \<and> \<not> foreign_uuid r \<and> adv_fits r) rs"
    "list_all adv_fits rs" using assms(3) by (simp_all add: list_all_iff)
  let ?a1 = "fold adv_effect rs a"
  have s: "adv_sized ?a1" using fold_effect_sized [OF k(2) assms(2)] .
  note walk = adv.walk_ad_bytes [OF v(1)] adv.walk_ad_bytes [OF v(2)] adv.walk_ad_bytes [OF assms(1)]
  show ?thesis
    using walk run_adv_spec [OF v(1) assms(2)] run_adv_spec [OF v(2) s] run_adv_spec [OF assms(1,2)]
      adv_spec_Nil_rest [OF k(1), of a] adv_spec_append [OF k(1), of rs' a]
    by (auto simp: anki_vehicle_parse_adv_record_def)
qed

text \<open>\<open>anki_vehicle_adv_record_has_anki_uuid\<close> on a well-formed scan answers 1 exactly when the
  first record that is neither flags, name, power nor manufacturer data is a 128-bit service
  identifier that is Anki's, or one whose data is not 16 bytes long (the comparison is then
  skipped, so such a record is taken for Anki's).\<close>

theorem has_anki_uuid_verdict:
  assumes "holds_records scan n 0 rs"
  shows "anki_vehicle_adv_record_has_anki_uuid (Some scan) n = Some
    (case dropWhile (\<lambda>r. adv_known (fst r) \<and> fst r \<noteq> ADV_TYPE_UUID_128) rs of
       [] \<Rightarrow> 0
     | r # _ \<Rightarrow> if fst r = ADV_TYPE_UUID_128 \<and> \<not> foreign_uuid r then 1 else 0)"
proof -
  have v: "list_all ad_valid rs" using assms by (simp add: holds_records_def)
  have step: "adv_step t d None = Some (if t = 7 then Inl (if foreign_uuid (t, d) then 2 else 0, None)
      else if adv_known t then Inr None else Inl (3, None))" if "length d < 255" "t \<noteq> 0" for t d
  proof -
    have "unat (of_nat (length d) :: u8) = length d" using that by simp
    then have "of_nat (length d) = (16 :: u8) \<longleftrightarrow> length d = 16" by (simp add: word_unat_eq_iff)
    then show ?thesis using that
      by (auto simp: adv_step_def adv_record_def is_anki_eq foreign_uuid_def adv_known_def)
  qed
  have "run_records adv_step adv_finish rs None = Some
      (case dropWhile (\<lambda>r. adv_known (fst r) \<and> fst r \<noteq> ADV_TYPE_UUID_128) rs of
         [] \<Rightarrow> 2
       | r # _ \<Rightarrow> if fst r = ADV_TYPE_UUID_128 then (if foreign_uuid r then 2 else 0) else 3, None)"
    using v
  proof (induction rs)
    case (Cons r rs)
    then show ?case by (cases r) (auto simp: step ad_valid_def adv_known_def)
  qed (simp add: adv_finish_def)
  then show ?thesis
    using adv.walk_run [OF assms, of None]
    by (cases "dropWhile (\<lambda>r. adv_known (fst r) \<and> fst r \<noteq> ADV_TYPE_UUID_128) rs")
      (simp_all add: anki_vehicle_adv_record_has_anki_uuid_def anki_vehicle_parse_adv_record_def
        del: dropWhile_eq_Nil_conv)
qed

text \<open>the manufacturer data of a vehicle, written by the vehicle in big-endian order, is read
  back exactly by \<open>anki_vehicle_parse_mfg_data\<close>, whatever was in the struct before.\<close>

theorem mfg_data_roundtrip:
  "anki_vehicle_parse_mfg_data (Some (mfg_bytes m)) 8 m0 = Some (0, m)"
proof -
  have "length (mfg_bytes m) = 8" by (simp add: mfg_bytes_def)
  then have "anki_vehicle_parse_mfg_data (Some (mfg_bytes m)) 8 m0 = Some (0, mfg_effect (mfg_bytes m) m0)"
    by (subst parse_mfg_data_eq) simp_all
  moreover have "mfg_effect (mfg_bytes m) m0 = m"
    by (simp add: mfg_effect_def mfg_bytes_def le16_def le32_def of_le16_bytes of_le32_bytes)
  ultimately show ?thesis by simp
qed

text \<open>\<open>anki_vehicle_parse_local_name\<close> overruns the 13-byte name of the struct exactly when the
  LOCAL_NAME record is longer than 21 bytes; otherwise it decodes the state bits, the
  little-endian version and the zero-padded name. A record of 22 to 29 bytes fits in a legacy
  advertisement, so the overrun is reachable from the air.\<close>

theorem local_name_overrun:
  assumes "unat len = length d" "length (adv_name info) = 13"
  shows "(anki_vehicle_parse_local_name d len info = None \<longleftrightarrow> 21 < unat len) \<and>
    (0 < unat len \<and> unat len \<le> 21 \<longrightarrow>
       anki_vehicle_parse_local_name d len info = Some (0, name_effect d info))"
  using assms by (auto simp: parse_local_name_eq)

section \<open>Witnesses\<close>

text \<open>The two packets of a vehicle in \<open>src/test/adv_data.h\<close>, record by record.\<close>

definition adv0_records :: "ad_record list" where
  "adv0_records =
     [(0x01, [0x06]),
      (0x07, [0xF4, 0x8D, 0x4D, 0x9C, 0xD8, 0x0B, 0x81, 0x83, 0x7E, 0x40, 0x86, 0x61, 0xEF, 0xBE, 0x15, 0xBE]),
      (0xFF, [0xBE, 0xEF, 0x00, 0x01, 0x00, 0xE0, 0x0A, 0xA3])]"

definition adv1_records :: "ad_record list" where
  "adv1_records =
     [(0x09, [0x50, 0x20, 0x21, 0x01, 0x20, 0x20, 0x5A, 0x39, 0x41, 0x41, 0x33, 0x20, 0x54, 0x4F, 0x4D, 0x4D, 0x59, 0x00]),
      (0x0A, [0x00])]"

definition zero_adv :: anki_vehicle_adv_t where
  "zero_adv = \<lparr>adv_flags = 0, tx_power = 0,
     mfg_data = \<lparr>mfg_identifier = 0, model_id = 0, mfg_reserved = 0, product_id = 0\<rparr>,
     local_name = \<lparr>adv_state = \<lparr>full_battery = False, low_battery = False, on_charger = False\<rparr>,
       adv_version = 0, info_reserved = replicate 5 0, adv_name = replicate 13 0\<rparr>,
     service_id = replicate 16 0\<rparr>"

lemma zero_adv_sized: "adv_sized zero_adv"
  by (simp add: adv_sized_def zero_adv_def)

lemma adv0_valid: "list_all ad_valid adv0_records"
  by (simp add: adv0_records_def ad_valid_def)

lemma adv_records_plain:
  "list_all (\<lambda>r. adv_known (fst r) \<and> \<not> foreign_uuid r \<and> adv_fits r) (adv0_records @ adv1_records)"
  "list_all ad_valid (adv0_records @ adv1_records)"
  by (simp_all add: adv0_records_def adv1_records_def adv_known_def foreign_uuid_def adv_fits_def
      ANKI_SERVICE_UUID_LE_def ad_valid_def)

theorem parse_adv_record_refines_witness:
  "holds_records (ad_bytes adv0_records) 31 0 adv0_records \<and> adv_sized zero_adv \<and>
   map_option fst (anki_vehicle_parse_adv_record (Some (ad_bytes adv0_records)) 31 (Some zero_adv)) = Some 0"
proof -
  have len: "length (ad_bytes adv0_records) = 31" by (simp add: adv0_records_def)
  have h: "holds_records (ad_bytes adv0_records) 31 0 adv0_records"
    using holds_records_whole [OF adv0_valid] by (simp add: len)
  have "map_option fst (adv_spec adv0_records zero_adv) = Some 0"
    by (simp add: adv0_records_def adv_known_def foreign_uuid_def adv_fits_def adv_effect_def
        ANKI_SERVICE_UUID_LE_def overlay_def zero_adv_def)
  then show ?thesis
    using parse_adv_record_refines [OF h zero_adv_sized] h zero_adv_sized by simp
qed

theorem parse_adv_record_success_sound_witness:
  "\<exists>a'. anki_vehicle_parse_adv_record (Some (ad_bytes [(7, ANKI_SERVICE_UUID_LE)])) 18 (Some zero_adv) =
      Some (0, Some a') \<and> service_id a' = ANKI_SERVICE_UUID_LE"
proof -
  have v: "list_all ad_valid [(7, ANKI_SERVICE_UUID_LE)]" by (simp add: ad_valid_def)
  have "adv_loop (ad_bytes [(7, ANKI_SERVICE_UUID_LE)]) 18 0 (Some zero_adv) =
      Some (0, Some (zero_adv\<lparr>service_id := ANKI_SERVICE_UUID_LE\<rparr>))"
    using adv.walk_ad_bytes [OF v, of "Some zero_adv"] run_adv_spec [OF v zero_adv_sized]
    by (simp add: adv_known_def foreign_uuid_def adv_fits_def adv_effect_def overlay_def zero_adv_def)
  then have p: "anki_vehicle_parse_adv_record (Some (ad_bytes [(7, ANKI_SERVICE_UUID_LE)])) 18 (Some zero_adv) =
      Some (0, Some (zero_adv\<lparr>service_id := ANKI_SERVICE_UUID_LE\<rparr>))"
    by (simp only: anki_vehicle_parse_adv_record_def option.case)
  show ?thesis using parse_adv_record_success_sound [OF p zero_adv_sized] p by auto
qed

theorem parse_adv_record_accumulates_witness:
  "\<exists>v a1. anki_vehicle_parse_adv_record (Some (ad_bytes adv0_records)) (length (ad_bytes adv0_records)) (Some zero_adv) =
       Some (v, Some a1) \<and>
     anki_vehicle_parse_adv_record (Some (ad_bytes adv1_records)) (length (ad_bytes adv1_records)) (Some a1) =
     anki_vehicle_parse_adv_record (Some (ad_bytes (adv0_records @ adv1_records)))
       (length (ad_bytes (adv0_records @ adv1_records))) (Some zero_adv)"
  by (rule parse_adv_record_accumulates [OF adv_records_plain(2) zero_adv_sized adv_records_plain(1)])

theorem has_anki_uuid_verdict_witness:
  "holds_records [0x01, 0x07] 2 0 [(7, [])] \<and>
   anki_vehicle_adv_record_has_anki_uuid (Some [0x01, 0x07]) 2 = Some 1"
proof -
  have h: "holds_records [0x01, 0x07] 2 0 [(7, [])]" by (simp add: holds_records_def ad_valid_def)
  show ?thesis using has_anki_uuid_verdict [OF h] h by (simp add: foreign_uuid_def)
qed

theorem local_name_overrun_witness:
  "anki_vehicle_parse_local_name (replicate 22 0x41) 22 (local_name zero_adv) = None"
proof -
  have "unat (22 :: u8) = length (replicate 22 (0x41 :: u8))" by simp
  moreover have "length (adv_name (local_name zero_adv)) = 13" by (simp add: zero_adv_def)
  ultimately have "anki_vehicle_parse_local_name (replicate 22 0x41) 22 (local_name zero_adv) = None
      \<longleftrightarrow> 21 < unat (22 :: u8)"
    using local_name_overrun by blast
  then show ?thesis by simp
qed

end
