(* ===== verification/C_String.thy ===== *)
theory C_String
  imports Prelude
begin

text \<open>
  The parts of the C library's string and number functions that the sources use:
  hexadecimal formatting and \<open>snprintf\<close>, \<open>strtol\<close> in base 16, the \<open>%x\<close>
  conversion of \<open>sscanf\<close>, and comparisons. A C string argument is the \<open>string\<close> of
  the characters before its NUL; a character buffer that a function fills is the \<open>string\<close>
  of all its bytes, and \<open>c_str\<close> reads it back up to the first NUL.
\<close>

section \<open>Character buffers\<close>

abbreviation (input) NUL :: char where "NUL \<equiv> CHR 0x00"

definition c_str :: "string \<Rightarrow> string" where
  "c_str buf = takeWhile (\<lambda>c. c \<noteq> NUL) buf"

text \<open>\<open>snprintf (str, n, ...)\<close> with the formatted text \<open>s\<close>.\<close>

definition snprintf :: "string \<Rightarrow> nat \<Rightarrow> string \<Rightarrow> string option" where
  "snprintf str n s = (if n = 0 then Some str else wrn str 0 (take (n - 1) s @ [NUL]))"

lemma snprintf_fits:
  "length s < n \<Longrightarrow> n \<le> length str \<Longrightarrow> snprintf str n s = Some (overlay (s @ [NUL]) str)"
  by (simp add: snprintf_def wrn_front)

lemma c_str_overlay: "NUL \<notin> set s \<Longrightarrow> c_str (overlay (s @ [NUL]) str) = s"
  by (auto simp: c_str_def overlay_def takeWhile_append)

section \<open>Hexadecimal digits\<close>

definition hexc :: "nat \<Rightarrow> char" where
  "hexc d = ''0123456789abcdef'' ! d"

definition hex_val :: "char \<Rightarrow> nat option" where
  "hex_val c = map_of (zip ''0123456789abcdefABCDEF''
     [0, 1, 2, 3, 4, 5, 6, 7, 8, 9, 10, 11, 12, 13, 14, 15, 10, 11, 12, 13, 14, 15]) c"

definition is_hex :: "char \<Rightarrow> bool" where
  "is_hex c \<longleftrightarrow> c \<in> set ''0123456789abcdefABCDEF''"

definition is_space :: "char \<Rightarrow> bool" where
  "is_space c \<longleftrightarrow> c \<in> set [CHR '' '', CHR 0x09, CHR 0x0A, CHR 0x0B, CHR 0x0C, CHR 0x0D]"

definition hex_to_nat :: "string \<Rightarrow> nat" where
  "hex_to_nat s = foldl (\<lambda>a c. a * 16 + the (hex_val c)) 0 s"

text \<open>\<open>hexn p v\<close> is \<open>v\<close> in lower case with \<open>p\<close> digits: the conversion \<open>%.px\<close> for
  values of at most \<open>p\<close> digits.\<close>

fun hexn :: "nat \<Rightarrow> nat \<Rightarrow> string" where
  "hexn 0 v = []"
| "hexn (Suc p) v = hexn p (v div 16) @ [hexc (v mod 16)]"

lemma hexc_all:
  "list_all (\<lambda>d. hex_val (hexc d) = Some d \<and> is_hex (hexc d)) [0..<16]"
  by code_simp

lemma hex_val_hexc [simp]: "d < 16 \<Longrightarrow> hex_val (hexc d) = Some d"
  using hexc_all by (simp add: list_all_iff)

lemma is_hex_hexc [simp]: "d < 16 \<Longrightarrow> is_hex (hexc d)"
  using hexc_all by (simp add: list_all_iff)

lemma is_hex_plain:
  assumes "is_hex c"
  shows "\<not> is_space c" "c \<noteq> CHR ''-''" "c \<noteq> CHR ''+''" "c \<noteq> CHR ''x''" "c \<noteq> CHR ''X''" "c \<noteq> NUL"
  using assms by (auto simp: is_hex_def is_space_def)

lemma length_hexn [simp]: "length (hexn p v) = p"
  by (induction p arbitrary: v) auto

lemma hexn_is_hex: "c \<in> set (hexn p v) \<Longrightarrow> is_hex c"
  by (induction p arbitrary: v) auto

lemma hex_to_nat_snoc: "hex_to_nat (s @ [c]) = hex_to_nat s * 16 + the (hex_val c)"
  by (simp add: hex_to_nat_def)

lemma hex_to_nat_hexn: "v < 16 ^ p \<Longrightarrow> hex_to_nat (hexn p v) = v"
proof (induction p arbitrary: v)
  case (Suc p)
  then have "v div 16 < 16 ^ p" by (simp add: less_mult_imp_div_less mult.commute)
  then show ?case using Suc.IH by (simp add: hex_to_nat_snoc)
qed (simp add: hex_to_nat_def)

section \<open>Reading numbers\<close>

definition sign_split :: "string \<Rightarrow> bool \<times> string" where
  "sign_split s = (case s of
     c # r \<Rightarrow> if c = CHR ''-'' then (True, r) else if c = CHR ''+'' then (False, r) else (False, s)
   | [] \<Rightarrow> (False, []))"

text \<open>\<open>strtol (s, &endptr, 16)\<close> with a 64-bit \<open>long\<close>: the value and the rest that
  \<open>endptr\<close> points to. Without a digit nothing is converted.\<close>

definition strtol16 :: "string \<Rightarrow> int \<times> string" where
  "strtol16 s = (
     let (neg, s2) = sign_split (dropWhile is_space s);
         s3 = (case s2 of
                 a # b # c # r \<Rightarrow>
                   if a = CHR ''0'' \<and> (b = CHR ''x'' \<or> b = CHR ''X'') \<and> is_hex c then c # r else s2
               | _ \<Rightarrow> s2);
         ds = takeWhile is_hex s3;
         v = int (hex_to_nat ds)
     in if ds = [] then (0, s)
        else (max (- (2 ^ 63)) (min (2 ^ 63 - 1) (if neg then - v else v)), drop (length ds) s3))"

text \<open>One conversion \<open>%wx\<close> of \<open>sscanf\<close>: white space is skipped, then at most \<open>w\<close>
  characters are an optional sign, an optional \<open>0x\<close> and digits. \<open>None\<close> is a matching failure.\<close>

definition scan_x :: "nat \<Rightarrow> string \<Rightarrow> (int \<times> string) option" where
  "scan_x w s = (
     let s1 = dropWhile is_space s;
         (neg, s2) = sign_split (take w s1);
         s3 = (case s2 of
                 a # b # r \<Rightarrow> if a = CHR ''0'' \<and> (b = CHR ''x'' \<or> b = CHR ''X'') then r else s2
               | _ \<Rightarrow> s2);
         ds = takeWhile is_hex s3;
         v = int (hex_to_nat ds)
     in if ds = [] then None
        else Some (if neg then - v else v, drop (length (take w s1) - length s3 + length ds) s1))"

text \<open>A literal character of the format.\<close>

definition scan_lit :: "char \<Rightarrow> string \<Rightarrow> string option" where
  "scan_lit c s = (case s of d # r \<Rightarrow> if d = c then Some r else None | [] \<Rightarrow> None)"

lemma sign_split_hex: "is_hex c \<Longrightarrow> sign_split (c # s) = (False, c # s)"
  using is_hex_plain(2,3) by (simp add: sign_split_def)

lemma hex_prefix_plain:
  assumes "\<forall>c \<in> set t. is_hex c"
  shows "(case t of a # b # c # r \<Rightarrow>
      if a = CHR ''0'' \<and> (b = CHR ''x'' \<or> b = CHR ''X'') \<and> is_hex c then c # r else t | _ \<Rightarrow> t) = t"
    and "(case t of a # b # r \<Rightarrow> if a = CHR ''0'' \<and> (b = CHR ''x'' \<or> b = CHR ''X'') then r else t
      | _ \<Rightarrow> t) = t"
proof -
  have "\<not> (b = CHR ''x'' \<or> b = CHR ''X'')" if "t = a # b # r" for a b r
    using assms that is_hex_plain(4,5) [of b] by auto
  then show "(case t of a # b # c # r \<Rightarrow>
      if a = CHR ''0'' \<and> (b = CHR ''x'' \<or> b = CHR ''X'') \<and> is_hex c then c # r else t | _ \<Rightarrow> t) = t"
    and "(case t of a # b # r \<Rightarrow> if a = CHR ''0'' \<and> (b = CHR ''x'' \<or> b = CHR ''X'') then r else t
      | _ \<Rightarrow> t) = t"
    by (simp_all split: list.split)
qed

lemma hex_head:
  assumes "t \<noteq> []" "\<forall>c \<in> set t. is_hex c"
  shows "dropWhile is_space (t @ r) = t @ r" "sign_split t = (False, t)" "takeWhile is_hex t = t"
proof -
  obtain c s where t: "t = c # s" "is_hex c" using assms by (cases t) auto
  show "dropWhile is_space (t @ r) = t @ r" "sign_split t = (False, t)" "takeWhile is_hex t = t"
    using t is_hex_plain(1) sign_split_hex assms(2) by (simp_all add: takeWhile_eq_all_conv)
qed

lemma strtol16_hex:
  assumes "t \<noteq> []" "\<forall>c \<in> set t. is_hex c" "hex_to_nat t < 2 ^ 63"
  shows "strtol16 t = (int (hex_to_nat t), [])"
proof -
  have b: "int (hex_to_nat t) \<le> 2 ^ 63 - 1" using assms(3) by simp
  have h: "dropWhile is_space t = t" using hex_head(1) [OF assms(1,2), of "[]"] by simp
  show ?thesis
    using b assms(1)
    by (simp only: strtol16_def h hex_head(2,3) [OF assms(1,2)] hex_prefix_plain [OF assms(2)] Let_def prod.case)
      simp
qed

lemma scan_x_hex:
  assumes "w = length t" "t \<noteq> []" "\<forall>c \<in> set t. is_hex c"
  shows "scan_x w (t @ r) = Some (int (hex_to_nat t), r)"
proof -
  have w: "take w (t @ r) = t" using assms(1) by simp
  show ?thesis
    using assms(2)
    by (simp only: scan_x_def hex_head [OF assms(2,3)] w hex_prefix_plain [OF assms(3)] Let_def prod.case)
      simp
qed

lemma scan_lit_Cons [simp]: "scan_lit c (c # r) = Some r"
  by (simp add: scan_lit_def)

lemma hexn_Nil [simp]: "hexn p v = [] \<longleftrightarrow> p = 0"
  by (metis length_0_conv length_hexn)

lemma scan_x_hexn:
  "0 < p \<Longrightarrow> v < 16 ^ p \<Longrightarrow> scan_x p (hexn p v @ r) = Some (int v, r)"
  using scan_x_hex [of p "hexn p v" r] by (auto simp: hex_to_nat_hexn dest: hexn_is_hex)

lemma strtol16_hexn:
  "0 < p \<Longrightarrow> v < 16 ^ p \<Longrightarrow> v < 2 ^ 63 \<Longrightarrow> strtol16 (hexn p v) = (int v, [])"
  using strtol16_hex [of "hexn p v"] by (auto simp: hex_to_nat_hexn dest: hexn_is_hex)

section \<open>Comparisons\<close>

definition tolower :: "char \<Rightarrow> char" where
  "tolower c = (case map_of (zip ''ABCDEFGHIJKLMNOPQRSTUVWXYZ'' ''abcdefghijklmnopqrstuvwxyz'') c of
     Some d \<Rightarrow> d | None \<Rightarrow> c)"

text \<open>C fixes only the sign of these results.\<close>

fun strcmp :: "string \<Rightarrow> string \<Rightarrow> int" where
  "strcmp [] [] = 0"
| "strcmp [] (d # ds) = -1"
| "strcmp (c # cs) [] = 1"
| "strcmp (c # cs) (d # ds) =
     (if c = d then strcmp cs ds else if (of_char c :: nat) < of_char d then -1 else 1)"

definition strcasecmp :: "string \<Rightarrow> string \<Rightarrow> int" where
  "strcasecmp a b = strcmp (map tolower a) (map tolower b)"

text \<open>At most \<open>n\<close> characters are compared.\<close>

definition strncmp :: "string \<Rightarrow> string \<Rightarrow> nat \<Rightarrow> int" where
  "strncmp a b n = strcmp (take n a) (take n b)"

definition strncasecmp :: "string \<Rightarrow> string \<Rightarrow> nat \<Rightarrow> int" where
  "strncasecmp a b n = strcasecmp (take n a) (take n b)"

lemma strcmp_eq_0 [simp]: "strcmp a b = 0 \<longleftrightarrow> a = b"
  by (induction a b rule: strcmp.induct) auto

end
