(* ===== verification/Anki_Util.thy ===== *)
theory Anki_Util
  imports C_String
begin

text \<open>
  Hexadecimal helpers: \<open>bytes_to_hex\<close> and \<open>hexdump\<close> of \<open>src/anki_util.c\<close>, and
  \<open>gatt_attr_data_from_string\<close> of \<open>examples/vehicle-tool/utils.c\<close>, which reads a value that
  the user typed in hexadecimal.
\<close>

section \<open>Printing\<close>

definition hex_digit :: "u8 \<Rightarrow> char" where
  "hex_digit d = ''0123456789ABCDEF'' ! unat d"

definition put_hex :: "string \<Rightarrow> nat \<Rightarrow> u8 \<Rightarrow> char \<Rightarrow> string option" where
  "put_hex str s b sep = do {
     str \<leftarrow> wr str s (hex_digit (drop_bit 4 b AND 0xF));
     str \<leftarrow> wr str (s + 1) (hex_digit (b AND 0xF));
     wr str (s + 2) sep
   }"

text \<open>The loop over all bytes but the last; \<open>i\<close> counts bytes, \<open>s = 3 * i\<close>.\<close>

function hex_loop :: "bytes \<Rightarrow> nat \<Rightarrow> nat \<Rightarrow> string \<Rightarrow> string option" where
  "hex_loop value n i str =
     (if i < n then do {
        b \<leftarrow> rd value i;
        str \<leftarrow> put_hex str (3 * i) b CHR '' '';
        hex_loop value n (i + 1) str
      } else Some str)"
  by auto
termination by (relation "measure (\<lambda>(_, n, i, _). n - i)") auto

declare hex_loop.simps [simp del]

text \<open>\<open>output\<close> is NULL, or points to a character pointer that is NULL or a buffer.\<close>

definition bytes_to_hex :: "bytes \<Rightarrow> nat \<Rightarrow> string option option \<Rightarrow> string option option option" where
  "bytes_to_hex value len output = do {
     let str = replicate (len * 3) NUL;
     let last = sz_sub len 1;
     str \<leftarrow> hex_loop value last 0 str;
     b \<leftarrow> rd value last;
     str \<leftarrow> put_hex str (3 * last) b NUL;
     (case output of
        None \<Rightarrow> Some None
      | Some p \<Rightarrow> do { buf \<leftarrow> p; buf \<leftarrow> wrn buf 0 str; Some (Some (Some buf)) })
   }"

text \<open>\<open>hexdump\<close> clears its row buffer and passes the address of that buffer, cast to
  \<open>char **\<close>, as \<open>output\<close>: the destination that \<open>bytes_to_hex\<close> finds there is a null
  pointer, read from the first eight bytes of the row (a shorter row is read past its end).
  The result is the lines printed; both assertions are enabled.\<close>

function dump_rows :: "nat \<Rightarrow> nat \<Rightarrow> string \<Rightarrow> nat \<Rightarrow> bytes \<Rightarrow> nat \<Rightarrow> string list option" where
  "dump_rows i row_count prefix column_len value len =
     (if i < row_count then do {
        let s = replicate (column_len * 3) NUL;
        _ \<leftarrow> rdn s 0 8;
        _ \<leftarrow> bytes_to_hex value len (Some None);
        rest \<leftarrow> dump_rows (i + 1) row_count prefix column_len value len;
        Some ((prefix @ '' '' @ c_str s) # rest)
      } else Some [])"
  by auto
termination by (relation "measure (\<lambda>(i, n, _). n - i)") auto

declare dump_rows.simps [simp del]

definition hexdump :: "string option \<Rightarrow> nat \<Rightarrow> bytes \<Rightarrow> nat \<Rightarrow> string list option" where
  "hexdump prefix column_len value len = do {
     prefix \<leftarrow> prefix;
     (if column_len = 0 then None else do {
        let row_count = (of_nat (len div column_len + 1) :: 32 word);
        dump_rows 0 (nat (sint row_count)) prefix column_len value len
      })
   }"

section \<open>Reading\<close>

text \<open>The length that is returned and the allocated array (\<open>None\<close> when the allocation failed,
  which the parameter \<open>alloc_ok\<close> decides for each size).\<close>

definition hex_pair :: "string \<Rightarrow> nat \<Rightarrow> u8" where
  "hex_pair str i = word_of_int (fst (strtol16 (take 2 (drop (i * 2) str))))"

definition gatt_attr_data_from_string :: "(nat \<Rightarrow> bool) \<Rightarrow> string \<Rightarrow> nat \<times> bytes option" where
  "gatt_attr_data_from_string alloc_ok str = (
     let size = length str div 2
     in if size = 0 \<or> \<not> alloc_ok size then (0, None)
        else (size, Some (map (hex_pair str) [0..<size])))"

section \<open>Correctness\<close>

definition hex_upper :: "u8 \<Rightarrow> string" where
  "hex_upper b = [hex_digit (drop_bit 4 b AND 0xF), hex_digit (b AND 0xF)]"

lemma length_hex_upper [simp]: "length (hex_upper b) = 2"
  by (simp add: hex_upper_def)

lemma length_hex_rows [simp]: "length (concat (map (\<lambda>b. hex_upper b @ [c]) bs)) = 3 * length bs"
  by (induction bs) auto

lemma put_hex_overlay:
  assumes "s = length pre" "s + 3 \<le> length buf"
  shows "put_hex (overlay pre buf) s b c = Some (overlay (pre @ hex_upper b @ [c]) buf)"
proof -
  have "wr (overlay pre buf) s x = Some (overlay (pre @ [x]) buf)" for x
    using assms by (intro wr_overlay) auto
  moreover have "wr (overlay (pre @ [x]) buf) (s + 1) y = Some (overlay ((pre @ [x]) @ [y]) buf)" for x y
    using assms by (intro wr_overlay) auto
  moreover have "wr (overlay (pre @ [x, y]) buf) (s + 2) z = Some (overlay ((pre @ [x, y]) @ [z]) buf)" for x y z
    using assms by (intro wr_overlay) auto
  ultimately show ?thesis by (simp add: put_hex_def hex_upper_def)
qed

lemma hex_loop_overlay:
  assumes "n < length value" "3 * length value \<le> length buf" "i \<le> n"
  shows "hex_loop value n i (overlay (concat (map (\<lambda>b. hex_upper b @ '' '') (take i value))) buf) =
    Some (overlay (concat (map (\<lambda>b. hex_upper b @ '' '') (take n value))) buf)"
  using assms(3)
proof (induction "n - i" arbitrary: i)
  case 0
  then show ?case by (simp add: hex_loop.simps)
next
  case (Suc k)
  then have i: "i < n" "k = n - Suc i" by simp_all
  have "put_hex (overlay (concat (map (\<lambda>b. hex_upper b @ '' '') (take i value))) buf) (3 * i) (value ! i) CHR '' '' =
      Some (overlay (concat (map (\<lambda>b. hex_upper b @ '' '') (take (Suc i) value))) buf)"
    using i assms by (subst put_hex_overlay) (auto simp: take_Suc_nth)
  then show ?case
    using Suc.hyps(1) [OF i(2)] i assms(1) by (simp add: hex_loop.simps [of "value" n i] c_mem)
qed

text \<open>\<open>bytes_to_hex\<close> on a nonempty value and a buffer of three characters per byte fills
  the buffer with the bytes in two upper-case digits each, separated by blanks and ended by a NUL.\<close>

theorem bytes_to_hex_text:
  assumes "value \<noteq> []" "length buf = 3 * length value" "length value < 2 ^ 62"
  shows "bytes_to_hex value (length value) (Some (Some buf)) =
    Some (Some (Some (concat (map (\<lambda>b. hex_upper b @ '' '') (butlast value)) @ hex_upper (last value) @ [NUL])))"
proof -
  let ?z = "replicate (length value * 3) NUL" and ?n = "length value - 1"
  let ?pre = "concat (map (\<lambda>b. hex_upper b @ '' '') (butlast value))"
  have n: "sz_sub (length value) 1 = ?n" "?n < length value" using assms(1) by (simp_all add: Suc_leI)
  have t: "take ?n value = butlast value" by (simp add: butlast_conv_take)
  have "hex_loop value ?n 0 ?z = Some (overlay ?pre ?z)"
    using hex_loop_overlay [OF n(2), of ?z 0] t by simp
  moreover have "put_hex (overlay ?pre ?z) (3 * ?n) (last value) NUL =
      Some (overlay (?pre @ hex_upper (last value) @ [NUL]) ?z)"
    using n by (intro put_hex_overlay) (auto simp: algebra_simps)
  moreover have "overlay (?pre @ hex_upper (last value) @ [NUL]) ?z = ?pre @ hex_upper (last value) @ [NUL]"
    using n by (simp add: overlay_def algebra_simps)
  moreover have "wrn buf 0 (?pre @ hex_upper (last value) @ [NUL]) = Some (?pre @ hex_upper (last value) @ [NUL])"
    using n assms(2) by (simp add: wrn_def algebra_simps)
  ultimately show ?thesis
    unfolding bytes_to_hex_def using n last_conv_nth [OF assms(1)] by (simp add: c_mem)
qed

lemma put_hex_empty: "put_hex [] s b c = None"
  by (simp add: put_hex_def wr_def)

lemma bytes_to_hex_null: "bytes_to_hex value len (Some None) = None"
proof -
  have "x \<bind> (\<lambda>_. None) = (None :: 'b option)" for x :: "'a option" by (cases x) simp_all
  then show ?thesis by (simp add: bytes_to_hex_def)
qed

text \<open>\<open>hexdump\<close> never prints anything: whatever it is given (below the lengths where the
  row count overflows) it faults, because the destination that it hands to \<open>bytes_to_hex\<close>
  is the cleared row buffer read as a pointer.\<close>

theorem hexdump_faults:
  assumes "len < 2 ^ 31 - 1"
  shows "hexdump prefix column_len value len = None"
proof -
  have "dump_rows 0 (nat (sint (of_nat (len div column_len + 1) :: 32 word))) p column_len value len = None" for p
  proof -
    have "len div column_len + 1 < 2 ^ 31" using assms div_le_dividend [of len column_len] by linarith
    then have "sint (of_nat (len div column_len + 1) :: 32 word) = int (len div column_len + 1)"
      by (simp add: signed_of_nat signed_take_bit_int_eq_self del: of_nat_add of_nat_Suc)
    moreover have "rdn x 0 8 \<bind> (\<lambda>_. None) = (None :: string list option)" for x :: string
      by (cases "rdn x 0 8") simp_all
    ultimately show ?thesis
      by (simp add: dump_rows.simps bytes_to_hex_null del: of_nat_add of_nat_Suc)
  qed
  then show ?thesis by (cases prefix) (simp_all add: hexdump_def)
qed

lemma hex_pair_hexn:
  assumes "i < length bs"
  shows "hex_pair (concat (map (\<lambda>b. hexn 2 (unat b)) bs)) i = bs ! i"
proof -
  have "take 2 (drop (2 * i) (concat (map (\<lambda>b. hexn 2 (unat b)) bs))) = hexn 2 (unat (bs ! i))"
    using assms
  proof (induction bs arbitrary: i)
    case (Cons b bs)
    then show ?case by (cases i) (simp_all del: hexn.simps)
  qed simp
  moreover have "strtol16 (hexn 2 (unat (bs ! i))) = (int (unat (bs ! i)), [])"
    by (rule strtol16_hexn) (simp_all add: order.strict_trans [OF unat_u8_less])
  ultimately show ?thesis by (simp add: hex_pair_def mult.commute del: hexn.simps)
qed

text \<open>\<open>gatt_attr_data_from_string\<close> reads the hexadecimal form of any nonempty value back as
  that value, and reports its length.\<close>

theorem attr_data_roundtrip:
  assumes "bs \<noteq> []" "alloc_ok (length bs)"
  shows "gatt_attr_data_from_string alloc_ok (concat (map (\<lambda>b. hexn 2 (unat b)) bs)) = (length bs, Some bs)"
proof -
  let ?s = "concat (map (\<lambda>b. hexn 2 (unat b)) bs)"
  have l: "length ?s = 2 * length bs" by (induction bs) (simp_all del: hexn.simps)
  have "map (hex_pair ?s) [0..<length bs] = bs"
    by (rule nth_equalityI) (simp_all add: hex_pair_hexn)
  then show ?thesis using l assms by (simp add: gatt_attr_data_from_string_def)
qed

lemma hexn_2: "hexn 2 v = [hexc (v div 16 mod 16), hexc (v mod 16)]"
  by (simp add: numeral_2_eq_2)

section \<open>Witnesses\<close>

theorem bytes_to_hex_text_witness:
  "bytes_to_hex [0x0A, 0xFF] 2 (Some (Some ''xxxxxx'')) = Some (Some (Some (''0A FF'' @ [NUL])))"
  using bytes_to_hex_text [of "[0x0A, 0xFF]" "''xxxxxx''"] by (simp add: hex_upper_def hex_digit_def flip: numeral_2_eq_2)

theorem hexdump_faults_witness:
  "hexdump (Some ''data: '') 80 [1, 2, 3] 3 = None"
  using hexdump_faults [of 3] by simp

theorem attr_data_roundtrip_witness:
  "gatt_attr_data_from_string (\<lambda>_. True) ''03ff'' = (2, Some [0x03, 0xFF])"
  using attr_data_roundtrip [of "[0x03, 0xFF]" "\<lambda>_. True"] by (simp add: hexn_2 hexc_def del: hexn.simps)

end
