(* ===== verification/Bt_Uuid.thy ===== *)
theory Bt_Uuid
  imports C_String Anki_Uuid
begin

text \<open>
  Bluetooth UUIDs: \<open>examples/vehicle-tool/lib/uuid.c\<close> and the type of \<open>lib/uuid.h\<close>. The
  tagged union is a datatype with one constructor per tag; a value whose tag was never set is
  \<open>BT_UUID_UNSPEC\<close>. The 128-bit value is kept as its 16 bytes in memory, least
  significant first, as on the little-endian hosts that \<open>bluetooth_base_uuid\<close> is selected for.
\<close>

section \<open>The type\<close>

datatype bt_uuid_t =
    BT_UUID_UNSPEC
  | BT_UUID16 u16
  | BT_UUID32 u32
  | BT_UUID128 bytes

fun uuid_wf :: "bt_uuid_t \<Rightarrow> bool" where
  "uuid_wf BT_UUID_UNSPEC = False"
| "uuid_wf (BT_UUID128 v) = (length v = 16)"
| "uuid_wf _ = True"

text \<open>The union read as a \<open>uint128_t\<close>: the creators clear the whole union first.\<close>

fun value_u128 :: "bt_uuid_t \<Rightarrow> bytes option" where
  "value_u128 BT_UUID_UNSPEC = None"
| "value_u128 (BT_UUID16 v) = Some (le16 v @ replicate 14 0)"
| "value_u128 (BT_UUID32 v) = Some (le32 v @ replicate 12 0)"
| "value_u128 (BT_UUID128 v) = Some v"

text \<open>The union read as a \<open>uint16_t\<close>.\<close>

definition value_u16 :: "bt_uuid_t \<Rightarrow> u16 option" where
  "value_u16 u = do {
     v \<leftarrow> value_u128 u;
     a \<leftarrow> rd v 0;
     b \<leftarrow> rd v 1;
     Some (of_le16 a b)
   }"

lemma value_u16_16 [simp]: "value_u16 (BT_UUID16 v) = Some v"
  by (simp add: value_u16_def c_mem nth_append)

section \<open>Conversion to 128 bits and comparison\<close>

definition bluetooth_base_uuid :: bytes where
  "bluetooth_base_uuid =
     [0xFB, 0x34, 0x9B, 0x5F, 0x80, 0x00, 0x00, 0x80,
      0x00, 0x10, 0x00, 0x00, 0x00, 0x00, 0x00, 0x00]"

abbreviation (input) BASE_UUID16_OFFSET :: nat where "BASE_UUID16_OFFSET \<equiv> 12"
abbreviation (input) BASE_UUID32_OFFSET :: nat where "BASE_UUID32_OFFSET \<equiv> BASE_UUID16_OFFSET"

definition bt_uuid16_to_uuid128 :: "u16 \<Rightarrow> bt_uuid_t option" where
  "bt_uuid16_to_uuid128 u16 = do {
     v \<leftarrow> wrn bluetooth_base_uuid BASE_UUID16_OFFSET (le16 u16);
     Some (BT_UUID128 v)
   }"

definition bt_uuid32_to_uuid128 :: "u32 \<Rightarrow> bt_uuid_t option" where
  "bt_uuid32_to_uuid128 u32 = do {
     v \<leftarrow> wrn bluetooth_base_uuid BASE_UUID32_OFFSET (le32 u32);
     Some (BT_UUID128 v)
   }"

text \<open>\<open>dst\<close> is left as it was for a UUID without a type.\<close>

fun bt_uuid_to_uuid128 :: "bt_uuid_t \<Rightarrow> bt_uuid_t \<Rightarrow> bt_uuid_t option" where
  "bt_uuid_to_uuid128 (BT_UUID128 v) dst = Some (BT_UUID128 v)"
| "bt_uuid_to_uuid128 (BT_UUID32 v) dst = bt_uuid32_to_uuid128 v"
| "bt_uuid_to_uuid128 (BT_UUID16 v) dst = bt_uuid16_to_uuid128 v"
| "bt_uuid_to_uuid128 BT_UUID_UNSPEC dst = Some dst"

definition bt_uuid128_cmp :: "bt_uuid_t \<Rightarrow> bt_uuid_t \<Rightarrow> int option" where
  "bt_uuid128_cmp u1 u2 = do {
     v1 \<leftarrow> value_u128 u1;
     v2 \<leftarrow> value_u128 u2;
     a \<leftarrow> rdn v1 0 16;
     b \<leftarrow> rdn v2 0 16;
     Some (memcmp a b)
   }"

definition bt_uuid16_create :: "u16 \<Rightarrow> int \<times> bt_uuid_t" where
  "bt_uuid16_create v = (0, BT_UUID16 v)"

definition bt_uuid32_create :: "u32 \<Rightarrow> int \<times> bt_uuid_t" where
  "bt_uuid32_create v = (0, BT_UUID32 v)"

definition bt_uuid128_create :: "bytes \<Rightarrow> int \<times> bt_uuid_t" where
  "bt_uuid128_create v = (0, BT_UUID128 v)"

text \<open>The two local copies start without a type.\<close>

definition bt_uuid_cmp :: "bt_uuid_t \<Rightarrow> bt_uuid_t \<Rightarrow> int option" where
  "bt_uuid_cmp uuid1 uuid2 = do {
     u1 \<leftarrow> bt_uuid_to_uuid128 uuid1 BT_UUID_UNSPEC;
     u2 \<leftarrow> bt_uuid_to_uuid128 uuid2 BT_UUID_UNSPEC;
     bt_uuid128_cmp u1 u2
   }"

section \<open>Text form\<close>

abbreviation (input) EINVAL :: int where "EINVAL \<equiv> 22"
abbreviation (input) MAX_LEN_UUID_STR :: nat where "MAX_LEN_UUID_STR \<equiv> 37"

definition ntohl :: "u32 \<Rightarrow> u32" where
  "ntohl w = (let b = le32 w in of_le32 (b ! 3) (b ! 2) (b ! 1) (b ! 0))"

definition ntohs :: "u16 \<Rightarrow> u16" where
  "ntohs w = (let b = le16 w in of_le16 (b ! 1) (b ! 0))"

lemma ntohl_of_le32 [simp]: "ntohl (of_le32 a b c d) = of_le32 d c b a"
  by (simp add: ntohl_def Let_def eval_nat_numeral)

lemma ntohs_of_le16 [simp]: "ntohs (of_le16 a b) = of_le16 b a"
  by (simp add: ntohs_def Let_def)

text \<open>\<open>memcpy\<close> of a number out of a block.\<close>

definition get16 :: "bytes \<Rightarrow> nat \<Rightarrow> u16 option" where
  "get16 v i = do { a \<leftarrow> rd v i; b \<leftarrow> rd v (i + 1); Some (of_le16 a b) }"

definition get32 :: "bytes \<Rightarrow> nat \<Rightarrow> u32 option" where
  "get32 v i = do {
     a \<leftarrow> rd v i; b \<leftarrow> rd v (i + 1); c \<leftarrow> rd v (i + 2); d \<leftarrow> rd v (i + 3);
     Some (of_le32 a b c d)
   }"

definition uuid128_format :: "bytes \<Rightarrow> string option" where
  "uuid128_format v = do {
     let nvalue = hton128 v;
     data0 \<leftarrow> get32 nvalue 0;
     data1 \<leftarrow> get16 nvalue 4;
     data2 \<leftarrow> get16 nvalue 6;
     data3 \<leftarrow> get16 nvalue 8;
     data4 \<leftarrow> get32 nvalue 10;
     data5 \<leftarrow> get16 nvalue 14;
     Some (hexn 8 (unat (ntohl data0)) @ ''-'' @ hexn 4 (unat (ntohs data1)) @ ''-'' @
       hexn 4 (unat (ntohs data2)) @ ''-'' @ hexn 4 (unat (ntohs data3)) @ ''-'' @
       hexn 8 (unat (ntohl data4)) @ hexn 4 (unat (ntohs data5)))
   }"

text \<open>The status and the buffer \<open>str\<close> after the call.\<close>

definition bt_uuid_to_string :: "bt_uuid_t option \<Rightarrow> string \<Rightarrow> nat \<Rightarrow> (int \<times> string) option" where
  "bt_uuid_to_string uuid str n = (case uuid of
     None \<Rightarrow> do { s \<leftarrow> snprintf str n ''NULL''; Some (- EINVAL, s) }
   | Some (BT_UUID16 v) \<Rightarrow> do { s \<leftarrow> snprintf str n (hexn 4 (unat v)); Some (0, s) }
   | Some (BT_UUID32 v) \<Rightarrow> do { s \<leftarrow> snprintf str n (hexn 8 (unat v)); Some (0, s) }
   | Some (BT_UUID128 v) \<Rightarrow> do { t \<leftarrow> uuid128_format v; s \<leftarrow> snprintf str n t; Some (0, s) }
   | Some BT_UUID_UNSPEC \<Rightarrow> do { s \<leftarrow> snprintf str n ''Type of UUID (0) unknown.''; Some (- EINVAL, s) })"

definition is_uuid128 :: "string \<Rightarrow> bool" where
  "is_uuid128 s \<longleftrightarrow> length s = 36 \<and> s ! 8 = CHR ''-'' \<and> s ! 13 = CHR ''-'' \<and>
     s ! 18 = CHR ''-'' \<and> s ! 23 = CHR ''-''"

definition is_uuid32 :: "string \<Rightarrow> bool" where
  "is_uuid32 s \<longleftrightarrow> length s = 8 \<or> length s = 10"

definition is_uuid16 :: "string \<Rightarrow> bool" where
  "is_uuid16 s \<longleftrightarrow> length s = 4 \<or> length s = 6"

definition bt_string_to_uuid16 :: "bt_uuid_t \<Rightarrow> string \<Rightarrow> int \<times> bt_uuid_t" where
  "bt_string_to_uuid16 uuid s = (
     let (v, endptr) = strtol16 s; u16 = (word_of_int v :: u16)
     in if endptr = [] then (0, snd (bt_uuid16_create u16)) else (- EINVAL, uuid))"

definition bt_string_to_uuid32 :: "bt_uuid_t \<Rightarrow> string \<Rightarrow> int \<times> bt_uuid_t" where
  "bt_string_to_uuid32 uuid s = (
     let (v, endptr) = strtol16 s; u32 = (word_of_int v :: u32)
     in if endptr = [] then (0, snd (bt_uuid32_create u32)) else (- EINVAL, uuid))"

text \<open>The \<open>sscanf\<close> call; \<open>None\<close> when fewer than six conversions succeed.\<close>

definition scan_uuid128 :: "string \<Rightarrow> (int \<times> int \<times> int \<times> int \<times> int \<times> int) option" where
  "scan_uuid128 s = do {
     (d0, s) \<leftarrow> scan_x 8 s; s \<leftarrow> scan_lit CHR ''-'' s;
     (d1, s) \<leftarrow> scan_x 4 s; s \<leftarrow> scan_lit CHR ''-'' s;
     (d2, s) \<leftarrow> scan_x 4 s; s \<leftarrow> scan_lit CHR ''-'' s;
     (d3, s) \<leftarrow> scan_x 4 s; s \<leftarrow> scan_lit CHR ''-'' s;
     (d4, s) \<leftarrow> scan_x 8 s;
     (d5, s) \<leftarrow> scan_x 4 s;
     Some (d0, d1, d2, d3, d4, d5)
   }"

definition bt_string_to_uuid128 :: "bt_uuid_t \<Rightarrow> string \<Rightarrow> int \<times> bt_uuid_t" where
  "bt_string_to_uuid128 uuid s = (case scan_uuid128 s of
     None \<Rightarrow> (- EINVAL, uuid)
   | Some (d0, d1, d2, d3, d4, d5) \<Rightarrow>
       let n128 = le32 (ntohl (word_of_int d0)) @ le16 (ntohs (word_of_int d1)) @
             le16 (ntohs (word_of_int d2)) @ le16 (ntohs (word_of_int d3)) @
             le32 (ntohl (word_of_int d4)) @ le16 (ntohs (word_of_int d5));
           u128 = ntoh128 n128
       in (0, snd (bt_uuid128_create u128)))"

definition bt_string_to_uuid :: "bt_uuid_t \<Rightarrow> string \<Rightarrow> int \<times> bt_uuid_t" where
  "bt_string_to_uuid uuid s =
     (if is_uuid128 s then bt_string_to_uuid128 uuid s
      else if is_uuid32 s then bt_string_to_uuid32 uuid s
      else if is_uuid16 s then bt_string_to_uuid16 uuid s
      else (- EINVAL, uuid))"

definition bt_uuid_strcmp :: "string \<Rightarrow> string \<Rightarrow> int" where
  "bt_uuid_strcmp a b = strcasecmp a b"

section \<open>What a UUID denotes\<close>

text \<open>The abstract UUID is a 128-bit number; short UUIDs abbreviate numbers of the Bluetooth
  base range.\<close>

fun le_num :: "bytes \<Rightarrow> nat" where
  "le_num [] = 0"
| "le_num (b # bs) = unat b + 256 * le_num bs"

definition base_num :: nat where
  "base_num = 0x0000000000001000800000805F9B34FB"

fun uuid_num :: "bt_uuid_t \<Rightarrow> nat" where
  "uuid_num BT_UUID_UNSPEC = 0"
| "uuid_num (BT_UUID16 v) = base_num + unat v * 2 ^ 96"
| "uuid_num (BT_UUID32 v) = base_num + unat v * 2 ^ 96"
| "uuid_num (BT_UUID128 v) = le_num v"

lemma digit_split: "(a::nat) < 256 \<Longrightarrow> b < 256 \<Longrightarrow> a + 256 * m = b + 256 * n \<longleftrightarrow> a = b \<and> m = n"
proof
  assume b: "a < 256" "b < 256" and h: "a + 256 * m = b + 256 * n"
  have "(a + 256 * m) mod 256 = (b + 256 * n) mod 256" using h by simp
  then have "a = b" using b by simp
  then show "a = b \<and> m = n" using h by simp
qed simp

lemma le_num_inject: "length a = length b \<Longrightarrow> le_num a = le_num b \<longleftrightarrow> a = b"
proof (induction a arbitrary: b)
  case (Cons x a)
  then obtain y c where b: "b = y # c" "length a = length c" by (cases b) auto
  have "unat x + 256 * le_num a = unat y + 256 * le_num c \<longleftrightarrow> unat x = unat y \<and> le_num a = le_num c"
    by (rule digit_split) simp_all
  then show ?case using Cons.IH [OF b(2)] b(1) by (auto simp: word_unat_eq_iff)
qed simp

lemma le_num_append: "le_num (a @ b) = le_num a + 256 ^ length a * le_num b"
  by (induction a) (auto simp: algebra_simps)

lemma le_num_le16: "le_num (le16 v) = unat v"
proof -
  have "unat v div 256 mod 256 = unat v div 256"
    using unat_u16_less [of v] by (intro mod_less less_mult_imp_div_less) simp
  then show ?thesis by (simp add: le16_def unsigned_ucast_eq take_bit_eq_mod unat_div drop_bit_eq_div)
qed

lemma unat_u32_less [simp]: "unat (w :: u32) < 4294967296"
  using unsigned_less [of w] by simp

lemma digits_4:
  "(n::nat) mod 256 + 256 * (n div 256 mod 256 + 256 * (n div 65536 mod 256 +
    256 * (n div 16777216))) = n"
proof -
  have d: "n div 16777216 = n div 65536 div 256" "n div 65536 = n div 256 div 256"
    by (simp_all add: div_mult2_eq [symmetric])
  then show ?thesis by simp
qed

lemma le_num_le32: "le_num (le32 v) = unat v"
proof -
  have "unat v div 16777216 mod 256 = unat v div 16777216"
    using unat_u32_less [of v] by (intro mod_less less_mult_imp_div_less) simp
  then show ?thesis using digits_4 [of "unat v"]
    by (simp add: le32_def unsigned_ucast_eq take_bit_eq_mod unat_div drop_bit_eq_div)
qed

lemma uuid16_expands: "bt_uuid16_to_uuid128 v = Some (BT_UUID128 (take 12 bluetooth_base_uuid @ le16 v @ [0, 0]))"
  by (simp add: bt_uuid16_to_uuid128_def wrn_def bluetooth_base_uuid_def)

lemma uuid32_expands: "bt_uuid32_to_uuid128 v = Some (BT_UUID128 (take 12 bluetooth_base_uuid @ le32 v))"
  by (simp add: bt_uuid32_to_uuid128_def wrn_def bluetooth_base_uuid_def)

lemma base_part: "le_num (take 12 bluetooth_base_uuid) = base_num"
  by (simp add: bluetooth_base_uuid_def base_num_def)

lemma length_base_part: "length (take 12 bluetooth_base_uuid) = 12"
  by (simp add: bluetooth_base_uuid_def)

text \<open>The expansion of a UUID to 128 bits denotes the same number.\<close>

lemma to_uuid128:
  assumes "uuid_wf u"
  obtains v where "bt_uuid_to_uuid128 u d = Some (BT_UUID128 v)" "length v = 16" "le_num v = uuid_num u"
proof (cases u)
  case (BT_UUID16 x)
  have "le_num (take 12 bluetooth_base_uuid @ le16 x @ [0, 0]) = uuid_num u"
    unfolding le_num_append base_part length_base_part le_num_le16 by (simp add: BT_UUID16)
  then show ?thesis using that BT_UUID16 by (simp add: uuid16_expands length_base_part del: length_take)
next
  case (BT_UUID32 x)
  have "le_num (take 12 bluetooth_base_uuid @ le32 x) = uuid_num u"
    unfolding le_num_append base_part length_base_part le_num_le32 by (simp add: BT_UUID32)
  then show ?thesis using that BT_UUID32 by (simp add: uuid32_expands length_base_part del: length_take)
qed (use assms that in auto)

lemma uuid_cmp_value:
  assumes "uuid_wf u" "uuid_wf v"
  shows "\<exists>a b. bt_uuid_cmp u v = Some (memcmp a b) \<and> bt_uuid_cmp v u = Some (memcmp b a) \<and>
    length a = 16 \<and> length b = 16 \<and> le_num a = uuid_num u \<and> le_num b = uuid_num v"
proof -
  obtain a where a: "bt_uuid_to_uuid128 u BT_UUID_UNSPEC = Some (BT_UUID128 a)" "length a = 16"
    "le_num a = uuid_num u" by (rule to_uuid128 [OF assms(1)])
  obtain b where b: "bt_uuid_to_uuid128 v BT_UUID_UNSPEC = Some (BT_UUID128 b)" "length b = 16"
    "le_num b = uuid_num v" by (rule to_uuid128 [OF assms(2)])
  have "bt_uuid_cmp u v = Some (memcmp a b)" "bt_uuid_cmp v u = Some (memcmp b a)"
    using a b by (simp_all add: bt_uuid_cmp_def bt_uuid128_cmp_def c_mem)
  then show ?thesis using a b by blast
qed

lemma uuid_cmp_eq_0:
  assumes "uuid_wf u" "uuid_wf v"
  shows "bt_uuid_cmp u v = Some 0 \<longleftrightarrow> uuid_num u = uuid_num v"
proof -
  obtain a b where "bt_uuid_cmp u v = Some (memcmp a b)" "length a = 16" "length b = 16"
    "le_num a = uuid_num u" "le_num b = uuid_num v"
    using uuid_cmp_value [OF assms] by blast
  then show ?thesis using memcmp_eq_0 [of a b] le_num_inject [of a b] by simp
qed

text \<open>C20: \<open>bt_uuid_cmp\<close> compares what two UUIDs denote: on UUIDs with a type it always
  gives a result, the result is 0 exactly when both are the same 128-bit number, whichever
  of the three forms each has, and swapping the arguments negates it.\<close>

theorem uuid_cmp_denotes:
  assumes "uuid_wf u" "uuid_wf v"
  shows "\<exists>c. bt_uuid_cmp u v = Some c \<and> bt_uuid_cmp v u = Some (- c) \<and> (c = 0 \<longleftrightarrow> uuid_num u = uuid_num v)"
proof -
  obtain a b where "bt_uuid_cmp u v = Some (memcmp a b)" "bt_uuid_cmp v u = Some (memcmp b a)"
    "length a = 16" "length b = 16"
    using uuid_cmp_value [OF assms] by blast
  then show ?thesis using uuid_cmp_eq_0 [OF assms] memcmp_antisym [of a b] by simp
qed

section \<open>The text form is faithful\<close>

definition uuid_text :: "bt_uuid_t \<Rightarrow> string" where
  "uuid_text u = (case u of
     BT_UUID16 v \<Rightarrow> hexn 4 (unat v) | BT_UUID32 v \<Rightarrow> hexn 8 (unat v)
   | BT_UUID128 v \<Rightarrow> the (uuid128_format v) | BT_UUID_UNSPEC \<Rightarrow> [])"

lemma list_16: "map f [0..<16] = [f 0, f 1, f 2, f 3, f 4, f 5, f 6, f 7, f 8, f 9, f 10, f 11, f 12, f 13, f 14, f 15]"
  by (simp add: eval_nat_numeral)

lemma length_16_elim:
  assumes "length xs = 16"
  obtains a0 a1 a2 a3 a4 a5 a6 a7 a8 a9 a10 a11 a12 a13 a14 a15 where
    "xs = [a0, a1, a2, a3, a4, a5, a6, a7, a8, a9, a10, a11, a12, a13, a14, a15]"
proof -
  have "map ((!) xs) [0..<16] = xs" using map_nth [of xs] assms by simp
  then show ?thesis using that by (metis (no_types) list_16)
qed

lemma unat_u32_less_long [simp]: "unat (w :: u32) < 9223372036854775808"
  by (rule order.strict_trans [OF unat_u32_less]) simp

lemma unat_u16_less_long [simp]: "unat (w :: u16) < 9223372036854775808"
  by (rule order.strict_trans [OF unat_u16_less]) simp

lemma scan_x_u32: "scan_x 8 (hexn 8 (unat (w :: u32)) @ r) = Some (int (unat w), r)"
  by (rule scan_x_hexn) simp_all

lemma scan_x_u16: "scan_x 4 (hexn 4 (unat (w :: u16)) @ r) = Some (int (unat w), r)"
  by (rule scan_x_hexn) simp_all

lemma scan_uuid128_text:
  "scan_uuid128 (hexn 8 (unat (a :: u32)) @ ''-'' @ hexn 4 (unat (b :: u16)) @ ''-'' @
     hexn 4 (unat (c :: u16)) @ ''-'' @ hexn 4 (unat (d :: u16)) @ ''-'' @
     hexn 8 (unat (e :: u32)) @ hexn 4 (unat (f :: u16))) =
   Some (int (unat a), int (unat b), int (unat c), int (unat d), int (unat e), int (unat f))"
proof -
  have f: "scan_x 4 (hexn 4 (unat f)) = Some (int (unat f), [])"
    using scan_x_u16 [of f "[]"] by simp
  show ?thesis
    by (simp add: scan_uuid128_def scan_x_u32 scan_x_u16 f del: hexn.simps)
qed

lemma uuid128_text:
  assumes "length v = 16"
  shows "\<exists>t. uuid128_format v = Some t \<and> length t = 36 \<and> NUL \<notin> set t \<and> is_uuid128 t \<and>
    bt_string_to_uuid128 u t = (0, BT_UUID128 v)"
proof -
  obtain a0 a1 a2 a3 a4 a5 a6 a7 a8 a9 a10 a11 a12 a13 a14 a15 where
    v: "v = [a0, a1, a2, a3, a4, a5, a6, a7, a8, a9, a10, a11, a12, a13, a14, a15]"
    using length_16_elim [OF assms] by metis
  let ?t = "hexn 8 (unat (of_le32 a12 a13 a14 a15)) @ ''-'' @ hexn 4 (unat (of_le16 a10 a11)) @ ''-'' @
     hexn 4 (unat (of_le16 a8 a9)) @ ''-'' @ hexn 4 (unat (of_le16 a6 a7)) @ ''-'' @
     hexn 8 (unat (of_le32 a2 a3 a4 a5)) @ hexn 4 (unat (of_le16 a0 a1))"
  have "uuid128_format v = Some ?t"
    by (simp add: uuid128_format_def hton128_def v get32_def get16_def c_mem del: hexn.simps)
  moreover have "length ?t = 36" by (simp del: hexn.simps)
  moreover have "is_uuid128 ?t" by (simp add: is_uuid128_def nth_append del: hexn.simps)
  moreover have "NUL \<notin> set ?t"
    using is_hex_plain(6) by (auto simp del: hexn.simps dest: hexn_is_hex)
  moreover have "bt_string_to_uuid128 u ?t = (0, BT_UUID128 v)"
    by (simp only: bt_string_to_uuid128_def scan_uuid128_text option.case prod.case)
      (simp add: Let_def bt_uuid128_create_def ntoh128_def v ntohl_def ntohs_def)
  ultimately show ?thesis by blast
qed

lemma string_to_uuid_text:
  assumes "uuid_wf u"
  shows "\<exists>t. length t \<le> 36 \<and> NUL \<notin> set t \<and> bt_string_to_uuid w t = (0, u) \<and>
    (\<forall>str n. length t < n \<longrightarrow> n \<le> length str \<longrightarrow>
       bt_uuid_to_string (Some u) str n = Some (0, overlay (t @ [NUL]) str))"
proof (cases u)
  case (BT_UUID16 v)
  have "strtol16 (hexn 4 (unat v)) = (int (unat v), [])" by (rule strtol16_hexn) simp_all
  then have "bt_string_to_uuid w (hexn 4 (unat v)) = (0, u)"
    by (simp add: bt_string_to_uuid_def is_uuid128_def is_uuid32_def is_uuid16_def
        bt_string_to_uuid16_def bt_uuid16_create_def BT_UUID16 del: hexn.simps)
  moreover have "NUL \<notin> set (hexn 4 (unat v))" using hexn_is_hex is_hex_plain(6) by blast
  moreover have "length (hexn 4 (unat v)) \<le> 36" by (simp del: hexn.simps)
  ultimately show ?thesis
    by (intro exI [of _ "hexn 4 (unat v)"]) (simp add: bt_uuid_to_string_def BT_UUID16 snprintf_fits del: hexn.simps)
next
  case (BT_UUID32 v)
  have "strtol16 (hexn 8 (unat v)) = (int (unat v), [])"
    by (rule strtol16_hexn) simp_all
  then have "bt_string_to_uuid w (hexn 8 (unat v)) = (0, u)"
    by (simp add: bt_string_to_uuid_def is_uuid128_def is_uuid32_def
        bt_string_to_uuid32_def bt_uuid32_create_def BT_UUID32 del: hexn.simps)
  moreover have "NUL \<notin> set (hexn 8 (unat v))" using hexn_is_hex is_hex_plain(6) by blast
  moreover have "length (hexn 8 (unat v)) \<le> 36" by (simp del: hexn.simps)
  ultimately show ?thesis
    by (intro exI [of _ "hexn 8 (unat v)"]) (simp add: bt_uuid_to_string_def BT_UUID32 snprintf_fits del: hexn.simps)
next
  case (BT_UUID128 v)
  then obtain t where "uuid128_format v = Some t" "length t = 36" "NUL \<notin> set t" "is_uuid128 t"
    "bt_string_to_uuid128 w t = (0, BT_UUID128 v)"
    using uuid128_text [of v] assms by auto
  then show ?thesis
    by (intro exI [of _ t]) (simp add: bt_string_to_uuid_def bt_uuid_to_string_def BT_UUID128 snprintf_fits)
qed (use assms in simp)

text \<open>C27: a UUID printed by \<open>bt_uuid_to_string\<close> into a buffer of at least
  \<open>MAX_LEN_UUID_STR\<close> bytes is read back by \<open>bt_string_to_uuid\<close> as the same UUID in the same
  form, for each of the three forms; the buffer behind the text is untouched.\<close>

theorem uuid_string_roundtrip:
  assumes "uuid_wf u" "MAX_LEN_UUID_STR \<le> n" "n \<le> length str"
  shows "\<exists>str'. bt_uuid_to_string (Some u) str n = Some (0, str') \<and>
    bt_string_to_uuid w (c_str str') = (0, u) \<and>
    drop MAX_LEN_UUID_STR str' = drop MAX_LEN_UUID_STR str"
proof -
  obtain t where t: "length t \<le> 36" "NUL \<notin> set t" "bt_string_to_uuid w t = (0, u)"
    "bt_uuid_to_string (Some u) str n = Some (0, overlay (t @ [NUL]) str)"
    using string_to_uuid_text [OF assms(1), of w] assms(2,3) by fastforce
  then show ?thesis by (simp add: c_str_overlay drop_overlay)
qed

section \<open>The constants of the vehicle profile\<close>

lemmas uuid_text_eval = bt_string_to_uuid_def is_uuid128_def bt_string_to_uuid128_def scan_uuid128_def
  scan_x_def scan_lit_def sign_split_def is_space_def is_hex_def hex_to_nat_def hex_val_def
  bt_uuid128_create_def ntoh128_def ntohl_def ntohs_def le16_def le32_def of_le16_def of_le32_def

text \<open>the service and characteristic UUIDs of the vehicle profile agree in their text and
  little-endian forms, but the big-endian byte constants are different UUIDs: bytes 4 and 5 are
  \<open>61 68\<close> where the text has \<open>6186\<close>, so code comparing with them rejects every vehicle.\<close>

theorem profile_uuid_constants:
  "bt_string_to_uuid w ANKI_STR_SERVICE_UUID = (0, BT_UUID128 ANKI_SERVICE_UUID_LE) \<and>
   ANKI_SERVICE_UUID \<noteq> hton128 ANKI_SERVICE_UUID_LE \<and>
   bt_string_to_uuid w ANKI_STR_CHR_READ_UUID \<noteq> (0, BT_UUID128 (ntoh128 ANKI_CHR_READ_UUID)) \<and>
   bt_string_to_uuid w ANKI_STR_CHR_WRITE_UUID \<noteq> (0, BT_UUID128 (ntoh128 ANKI_CHR_WRITE_UUID)) \<and>
   (\<exists>v. bt_string_to_uuid w ANKI_STR_CHR_READ_UUID = (0, BT_UUID128 v)) \<and>
   (\<exists>v. bt_string_to_uuid w ANKI_STR_CHR_WRITE_UUID = (0, BT_UUID128 v))"
proof -
  have s: "bt_string_to_uuid w ANKI_STR_SERVICE_UUID = (0, BT_UUID128 ANKI_SERVICE_UUID_LE)"
    by (simp add: ANKI_STR_SERVICE_UUID_def ANKI_SERVICE_UUID_LE_def uuid_text_eval)
  have r: "bt_string_to_uuid w ANKI_STR_CHR_READ_UUID =
      (0, BT_UUID128 (ntoh128 [0xbe, 0x15, 0xbe, 0xe0, 0x61, 0x86, 0x40, 0x7e, 0x83, 0x81, 0x0b, 0xd8, 0x9c, 0x4d, 0x8d, 0xf4]))"
    by (simp add: ANKI_STR_CHR_READ_UUID_def uuid_text_eval)
  have c: "bt_string_to_uuid w ANKI_STR_CHR_WRITE_UUID =
      (0, BT_UUID128 (ntoh128 [0xbe, 0x15, 0xbe, 0xe1, 0x61, 0x86, 0x40, 0x7e, 0x83, 0x81, 0x0b, 0xd8, 0x9c, 0x4d, 0x8d, 0xf4]))"
    by (simp add: ANKI_STR_CHR_WRITE_UUID_def uuid_text_eval)
  show ?thesis unfolding s r c
    by (simp add: ANKI_SERVICE_UUID_def ANKI_SERVICE_UUID_LE_def ANKI_CHR_READ_UUID_def
        ANKI_CHR_WRITE_UUID_def hton128_def ntoh128_def)
qed

section \<open>Witnesses\<close>

theorem uuid_cmp_denotes_witness:
  "\<exists>c. bt_uuid_cmp (BT_UUID16 0x2800)
      (BT_UUID128 [0xFB, 0x34, 0x9B, 0x5F, 0x80, 0, 0, 0x80, 0, 0x10, 0, 0, 0, 0x28, 0, 0]) = Some c \<and> c = 0"
  using uuid_cmp_denotes [of "BT_UUID16 0x2800"
      "BT_UUID128 [0xFB, 0x34, 0x9B, 0x5F, 0x80, 0, 0, 0x80, 0, 0x10, 0, 0, 0, 0x28, 0, 0]"]
  by (auto simp: base_num_def)

theorem uuid_string_roundtrip_witness:
  "\<exists>str'. bt_uuid_to_string (Some (BT_UUID16 0x2902)) (replicate 40 CHR ''z'') 37 = Some (0, str') \<and>
    bt_string_to_uuid BT_UUID_UNSPEC (c_str str') = (0, BT_UUID16 0x2902)"
  using uuid_string_roundtrip [of "BT_UUID16 0x2902" 37 "replicate 40 CHR ''z''" BT_UUID_UNSPEC] by auto

end
