(* ===== verification/Att.thy ===== *)
theory Att
  imports Bt_Uuid
begin

text \<open>
  The attribute protocol PDUs: \<open>examples/vehicle-tool/att.h\<close> and \<open>att.c\<close>. This theory
  holds the code; \<open>Att_Codec\<close> holds what it is for and the proofs.

  A PDU buffer is a \<open>ptr\<close>, a byte list or NULL, beside the \<open>size_t\<close> length argument that
  the code trusts; an encoder returns its \<open>uint16_t\<close> result with the buffer after the call.
  An out parameter is an option of the value it points to, \<open>None\<close> for NULL, and is returned
  updated. A value to be copied out of is the byte list it points to.
\<close>

section \<open>Opcodes and error codes\<close>

abbreviation (input) ATT_OP_ERROR :: u8 where "ATT_OP_ERROR \<equiv> 0x01"
abbreviation (input) ATT_OP_MTU_REQ :: u8 where "ATT_OP_MTU_REQ \<equiv> 0x02"
abbreviation (input) ATT_OP_MTU_RESP :: u8 where "ATT_OP_MTU_RESP \<equiv> 0x03"
abbreviation (input) ATT_OP_FIND_INFO_REQ :: u8 where "ATT_OP_FIND_INFO_REQ \<equiv> 0x04"
abbreviation (input) ATT_OP_FIND_INFO_RESP :: u8 where "ATT_OP_FIND_INFO_RESP \<equiv> 0x05"
abbreviation (input) ATT_OP_FIND_BY_TYPE_REQ :: u8 where "ATT_OP_FIND_BY_TYPE_REQ \<equiv> 0x06"
abbreviation (input) ATT_OP_FIND_BY_TYPE_RESP :: u8 where "ATT_OP_FIND_BY_TYPE_RESP \<equiv> 0x07"
abbreviation (input) ATT_OP_READ_BY_TYPE_REQ :: u8 where "ATT_OP_READ_BY_TYPE_REQ \<equiv> 0x08"
abbreviation (input) ATT_OP_READ_BY_TYPE_RESP :: u8 where "ATT_OP_READ_BY_TYPE_RESP \<equiv> 0x09"
abbreviation (input) ATT_OP_READ_REQ :: u8 where "ATT_OP_READ_REQ \<equiv> 0x0A"
abbreviation (input) ATT_OP_READ_RESP :: u8 where "ATT_OP_READ_RESP \<equiv> 0x0B"
abbreviation (input) ATT_OP_READ_BLOB_REQ :: u8 where "ATT_OP_READ_BLOB_REQ \<equiv> 0x0C"
abbreviation (input) ATT_OP_READ_BLOB_RESP :: u8 where "ATT_OP_READ_BLOB_RESP \<equiv> 0x0D"
abbreviation (input) ATT_OP_READ_MULTI_REQ :: u8 where "ATT_OP_READ_MULTI_REQ \<equiv> 0x0E"
abbreviation (input) ATT_OP_READ_MULTI_RESP :: u8 where "ATT_OP_READ_MULTI_RESP \<equiv> 0x0F"
abbreviation (input) ATT_OP_READ_BY_GROUP_REQ :: u8 where "ATT_OP_READ_BY_GROUP_REQ \<equiv> 0x10"
abbreviation (input) ATT_OP_READ_BY_GROUP_RESP :: u8 where "ATT_OP_READ_BY_GROUP_RESP \<equiv> 0x11"
abbreviation (input) ATT_OP_WRITE_REQ :: u8 where "ATT_OP_WRITE_REQ \<equiv> 0x12"
abbreviation (input) ATT_OP_WRITE_RESP :: u8 where "ATT_OP_WRITE_RESP \<equiv> 0x13"
abbreviation (input) ATT_OP_WRITE_CMD :: u8 where "ATT_OP_WRITE_CMD \<equiv> 0x52"
abbreviation (input) ATT_OP_PREP_WRITE_REQ :: u8 where "ATT_OP_PREP_WRITE_REQ \<equiv> 0x16"
abbreviation (input) ATT_OP_PREP_WRITE_RESP :: u8 where "ATT_OP_PREP_WRITE_RESP \<equiv> 0x17"
abbreviation (input) ATT_OP_EXEC_WRITE_REQ :: u8 where "ATT_OP_EXEC_WRITE_REQ \<equiv> 0x18"
abbreviation (input) ATT_OP_EXEC_WRITE_RESP :: u8 where "ATT_OP_EXEC_WRITE_RESP \<equiv> 0x19"
abbreviation (input) ATT_OP_HANDLE_NOTIFY :: u8 where "ATT_OP_HANDLE_NOTIFY \<equiv> 0x1B"
abbreviation (input) ATT_OP_HANDLE_IND :: u8 where "ATT_OP_HANDLE_IND \<equiv> 0x1D"
abbreviation (input) ATT_OP_HANDLE_CNF :: u8 where "ATT_OP_HANDLE_CNF \<equiv> 0x1E"
abbreviation (input) ATT_OP_SIGNED_WRITE_CMD :: u8 where "ATT_OP_SIGNED_WRITE_CMD \<equiv> 0xD2"

abbreviation (input) ATT_ECODE_INVALID_HANDLE :: u8 where "ATT_ECODE_INVALID_HANDLE \<equiv> 0x01"
abbreviation (input) ATT_ECODE_READ_NOT_PERM :: u8 where "ATT_ECODE_READ_NOT_PERM \<equiv> 0x02"
abbreviation (input) ATT_ECODE_WRITE_NOT_PERM :: u8 where "ATT_ECODE_WRITE_NOT_PERM \<equiv> 0x03"
abbreviation (input) ATT_ECODE_INVALID_PDU :: u8 where "ATT_ECODE_INVALID_PDU \<equiv> 0x04"
abbreviation (input) ATT_ECODE_AUTHENTICATION :: u8 where "ATT_ECODE_AUTHENTICATION \<equiv> 0x05"
abbreviation (input) ATT_ECODE_REQ_NOT_SUPP :: u8 where "ATT_ECODE_REQ_NOT_SUPP \<equiv> 0x06"
abbreviation (input) ATT_ECODE_INVALID_OFFSET :: u8 where "ATT_ECODE_INVALID_OFFSET \<equiv> 0x07"
abbreviation (input) ATT_ECODE_AUTHORIZATION :: u8 where "ATT_ECODE_AUTHORIZATION \<equiv> 0x08"
abbreviation (input) ATT_ECODE_PREP_QUEUE_FULL :: u8 where "ATT_ECODE_PREP_QUEUE_FULL \<equiv> 0x09"
abbreviation (input) ATT_ECODE_ATTR_NOT_FOUND :: u8 where "ATT_ECODE_ATTR_NOT_FOUND \<equiv> 0x0A"
abbreviation (input) ATT_ECODE_ATTR_NOT_LONG :: u8 where "ATT_ECODE_ATTR_NOT_LONG \<equiv> 0x0B"
abbreviation (input) ATT_ECODE_INSUFF_ENCR_KEY_SIZE :: u8 where "ATT_ECODE_INSUFF_ENCR_KEY_SIZE \<equiv> 0x0C"
abbreviation (input) ATT_ECODE_INVAL_ATTR_VALUE_LEN :: u8 where "ATT_ECODE_INVAL_ATTR_VALUE_LEN \<equiv> 0x0D"
abbreviation (input) ATT_ECODE_UNLIKELY :: u8 where "ATT_ECODE_UNLIKELY \<equiv> 0x0E"
abbreviation (input) ATT_ECODE_INSUFF_ENC :: u8 where "ATT_ECODE_INSUFF_ENC \<equiv> 0x0F"
abbreviation (input) ATT_ECODE_UNSUPP_GRP_TYPE :: u8 where "ATT_ECODE_UNSUPP_GRP_TYPE \<equiv> 0x10"
abbreviation (input) ATT_ECODE_INSUFF_RESOURCES :: u8 where "ATT_ECODE_INSUFF_RESOURCES \<equiv> 0x11"
abbreviation (input) ATT_ECODE_IO :: u8 where "ATT_ECODE_IO \<equiv> 0x80"
abbreviation (input) ATT_ECODE_TIMEOUT :: u8 where "ATT_ECODE_TIMEOUT \<equiv> 0x81"
abbreviation (input) ATT_ECODE_ABORTED :: u8 where "ATT_ECODE_ABORTED \<equiv> 0x82"

definition att_ecode2str :: "u8 \<Rightarrow> string" where
  "att_ecode2str status =
    (if status = ATT_ECODE_INVALID_HANDLE then ''Invalid handle''
     else if status = ATT_ECODE_READ_NOT_PERM then ''Attribute can'' @ [CHR 0x27] @ ''t be read''
     else if status = ATT_ECODE_WRITE_NOT_PERM then ''Attribute can'' @ [CHR 0x27] @ ''t be written''
     else if status = ATT_ECODE_INVALID_PDU then ''Attribute PDU was invalid''
     else if status = ATT_ECODE_AUTHENTICATION then ''Attribute requires authentication before read/write''
     else if status = ATT_ECODE_REQ_NOT_SUPP then ''Server doesn'' @ [CHR 0x27] @ ''t support the request received''
     else if status = ATT_ECODE_INVALID_OFFSET then ''Offset past the end of the attribute''
     else if status = ATT_ECODE_AUTHORIZATION then ''Attribute requires authorization before read/write''
     else if status = ATT_ECODE_PREP_QUEUE_FULL then ''Too many prepare writes have been queued''
     else if status = ATT_ECODE_ATTR_NOT_FOUND then ''No attribute found within the given range''
     else if status = ATT_ECODE_ATTR_NOT_LONG then ''Attribute can'' @ [CHR 0x27] @ ''t be read/written using Read Blob Req''
     else if status = ATT_ECODE_INSUFF_ENCR_KEY_SIZE then ''Encryption Key Size is insufficient''
     else if status = ATT_ECODE_INVAL_ATTR_VALUE_LEN then ''Attribute value length is invalid''
     else if status = ATT_ECODE_UNLIKELY then ''Request attribute has encountered an unlikely error''
     else if status = ATT_ECODE_INSUFF_ENC then ''Encryption required before read/write''
     else if status = ATT_ECODE_UNSUPP_GRP_TYPE then ''Attribute type is not a supported grouping attribute''
     else if status = ATT_ECODE_INSUFF_RESOURCES then ''Insufficient Resources to complete the request''
     else if status = ATT_ECODE_IO then ''Internal application error: I/O''
     else if status = ATT_ECODE_TIMEOUT then ''A timeout occured''
     else if status = ATT_ECODE_ABORTED then ''The operation was aborted''
     else ''Unexpected error code'')"

abbreviation (input) ATT_CHAR_PROPER_READ :: u8 where "ATT_CHAR_PROPER_READ \<equiv> 0x02"
abbreviation (input) ATT_CHAR_PROPER_NOTIFY :: u8 where "ATT_CHAR_PROPER_NOTIFY \<equiv> 0x10"

abbreviation (input) ATT_MAX_VALUE_LEN :: nat where "ATT_MAX_VALUE_LEN \<equiv> 512"
abbreviation (input) ATT_DEFAULT_L2CAP_MTU :: nat where "ATT_DEFAULT_L2CAP_MTU \<equiv> 48"
abbreviation (input) ATT_DEFAULT_LE_MTU :: nat where "ATT_DEFAULT_LE_MTU \<equiv> 23"
abbreviation (input) ATT_CID :: u16 where "ATT_CID \<equiv> 4"
abbreviation (input) ATT_PSM :: u16 where "ATT_PSM \<equiv> 31"

abbreviation (input) ATT_CANCEL_ALL_PREP_WRITES :: u8 where "ATT_CANCEL_ALL_PREP_WRITES \<equiv> 0x00"
abbreviation (input) ATT_WRITE_ALL_PREP_WRITES :: u8 where "ATT_WRITE_ALL_PREP_WRITES \<equiv> 0x01"

abbreviation (input) ATT_FIND_INFO_RESP_FMT_16BIT :: u8 where "ATT_FIND_INFO_RESP_FMT_16BIT \<equiv> 0x01"
abbreviation (input) ATT_FIND_INFO_RESP_FMT_128BIT :: u8 where "ATT_FIND_INFO_RESP_FMT_128BIT \<equiv> 0x02"

abbreviation (input) ENOBUFS :: int where "ENOBUFS \<equiv> 105"

section \<open>Lists of attribute data\<close>

record att_data_list =
  num :: nat
  elem_len :: nat
  elems :: "bytes list"

record att_range =
  start_handle :: u16
  end_handle :: u16

definition att_data_list_alloc :: "nat \<Rightarrow> nat \<Rightarrow> att_data_list option" where
  "att_data_list_alloc n len =
     (if len > 255 then None
      else Some \<lparr>num = n, elem_len = len, elems = replicate n (replicate len 0)\<rparr>)"

section \<open>Unaligned accesses\<close>

definition att_get_u8 :: "bytes \<Rightarrow> nat \<Rightarrow> u8 option" where
  "att_get_u8 p i = rd p i"

definition att_get_u16 :: "bytes \<Rightarrow> nat \<Rightarrow> u16 option" where
  "att_get_u16 p i = do { a \<leftarrow> rd p i; b \<leftarrow> rd p (i + 1); Some (of_le16 a b) }"

definition att_get_u32 :: "bytes \<Rightarrow> nat \<Rightarrow> u32 option" where
  "att_get_u32 p i = do {
     a \<leftarrow> rd p i; b \<leftarrow> rd p (i + 1); c \<leftarrow> rd p (i + 2); d \<leftarrow> rd p (i + 3);
     Some (of_le32 a b c d)
   }"

definition att_get_u128 :: "bytes \<Rightarrow> nat \<Rightarrow> bytes option" where
  "att_get_u128 p i = rdn p i 16"

definition att_put_u8 :: "u8 \<Rightarrow> bytes \<Rightarrow> nat \<Rightarrow> bytes option" where
  "att_put_u8 v p i = wr p i v"

definition att_put_u16 :: "u16 \<Rightarrow> bytes \<Rightarrow> nat \<Rightarrow> bytes option" where
  "att_put_u16 v p i = wrn p i (le16 v)"

definition att_put_u32 :: "u32 \<Rightarrow> bytes \<Rightarrow> nat \<Rightarrow> bytes option" where
  "att_put_u32 v p i = wrn p i (le32 v)"

definition att_put_u128 :: "bytes \<Rightarrow> bytes \<Rightarrow> nat \<Rightarrow> bytes option" where
  "att_put_u128 v p i = do { d \<leftarrow> rdn v 0 16; wrn p i d }"

definition att_put_uuid16 :: "bt_uuid_t \<Rightarrow> bytes \<Rightarrow> nat \<Rightarrow> bytes option" where
  "att_put_uuid16 u p i = do { v \<leftarrow> value_u16 u; att_put_u16 v p i }"

definition att_put_uuid128 :: "bt_uuid_t \<Rightarrow> bytes \<Rightarrow> nat \<Rightarrow> bytes option" where
  "att_put_uuid128 u p i = do { v \<leftarrow> value_u128 u; att_put_u128 v p i }"

definition att_put_uuid :: "bt_uuid_t \<Rightarrow> bytes \<Rightarrow> nat \<Rightarrow> bytes option" where
  "att_put_uuid u p i = (case u of BT_UUID16 _ \<Rightarrow> att_put_uuid16 u p i | _ \<Rightarrow> att_put_uuid128 u p i)"

definition att_get_uuid16 :: "bytes \<Rightarrow> nat \<Rightarrow> bt_uuid_t option" where
  "att_get_uuid16 p i = do { v \<leftarrow> att_get_u16 p i; Some (snd (bt_uuid16_create v)) }"

definition att_get_uuid128 :: "bytes \<Rightarrow> nat \<Rightarrow> bt_uuid_t option" where
  "att_get_uuid128 p i = do { v \<leftarrow> att_get_u128 p i; Some (snd (bt_uuid128_create v)) }"

section \<open>Loops over attribute data\<close>

text \<open>The copy loop of the three list encoders: element \<open>i\<close> goes to \<open>ptr\<close> while the
  \<open>w\<close> bytes written so far and one more element fit in \<open>len\<close>. \<open>w\<close> is kept in a variable
  of \<open>width\<close> bits.\<close>

function put_elems ::
  "nat \<Rightarrow> att_data_list \<Rightarrow> nat \<Rightarrow> nat \<Rightarrow> nat \<Rightarrow> nat \<Rightarrow> nat \<Rightarrow> bytes \<Rightarrow> (nat \<times> bytes) option" where
  "put_elems width lst l len i w ptr pdu =
     (if i < num lst \<and> w + l \<le> len then do {
        e \<leftarrow> rd (elems lst) i;
        d \<leftarrow> rdn e 0 l;
        pdu \<leftarrow> wrn pdu ptr d;
        put_elems width lst l len (i + 1) ((w + l) mod 2 ^ width) (ptr + l) pdu
      } else Some (w, pdu))"
  by auto
termination by (relation "measure (\<lambda>(_, lst, _, _, i, _). num lst - i)") auto

declare put_elems.simps [simp del]

text \<open>The loop of the three list decoders: \<open>k\<close> elements of \<open>l\<close> bytes from \<open>ptr\<close>.\<close>

fun get_elems :: "bytes \<Rightarrow> nat \<Rightarrow> nat \<Rightarrow> nat \<Rightarrow> bytes list option" where
  "get_elems pdu ptr l 0 = Some []"
| "get_elems pdu ptr l (Suc k) = do {
     e \<leftarrow> rdn pdu ptr l;
     es \<leftarrow> get_elems pdu (ptr + l) l k;
     Some (e # es)
   }"

text \<open>Handle ranges.\<close>

fun put_ranges :: "att_range list \<Rightarrow> nat \<Rightarrow> nat \<Rightarrow> bytes \<Rightarrow> (nat \<times> bytes) option" where
  "put_ranges [] len offset pdu = Some (offset, pdu)"
| "put_ranges (r # rs) len offset pdu =
     (if len \<ge> offset + 4 then do {
        pdu \<leftarrow> att_put_u16 (start_handle r) pdu offset;
        pdu \<leftarrow> att_put_u16 (end_handle r) pdu (offset + 2);
        put_ranges rs len ((offset + 4) mod 2 ^ 16) pdu
      } else Some (offset, pdu))"

function get_ranges :: "bytes \<Rightarrow> nat \<Rightarrow> nat \<Rightarrow> att_range list option" where
  "get_ranges pdu len offset =
     (if len \<ge> offset + 4 then do {
        s \<leftarrow> att_get_u16 pdu offset;
        e \<leftarrow> att_get_u16 pdu (offset + 2);
        rs \<leftarrow> get_ranges pdu len (offset + 4);
        Some (\<lparr>start_handle = s, end_handle = e\<rparr> # rs)
      } else Some [])"
  by auto
termination by (relation "measure (\<lambda>(_, len, offset). len - offset)") auto

declare get_ranges.simps [simp del]

section \<open>Discovery of services\<close>

definition enc_read_by_grp_req ::
  "u16 \<Rightarrow> u16 \<Rightarrow> bt_uuid_t option \<Rightarrow> ptr \<Rightarrow> nat \<Rightarrow> (u16 \<times> ptr) option" where
  "enc_read_by_grp_req start end_h uuid pdu len = (case uuid of
     None \<Rightarrow> Some (0, pdu)
   | Some u \<Rightarrow>
      (case (case u of BT_UUID16 _ \<Rightarrow> Some 2 | BT_UUID128 _ \<Rightarrow> Some 16 | _ \<Rightarrow> None) of
         None \<Rightarrow> Some (0, pdu)
       | Some uuid_len \<Rightarrow>
           if len < 5 + uuid_len then Some (0, pdu)
           else do {
             p \<leftarrow> pdu;
             p \<leftarrow> wr p 0 ATT_OP_READ_BY_GROUP_REQ;
             p \<leftarrow> att_put_u16 start p 1;
             p \<leftarrow> att_put_u16 end_h p 3;
             p \<leftarrow> att_put_uuid u p 5;
             Some (of_nat (5 + uuid_len), Some p)
           }))"

definition dec_read_by_grp_req ::
  "ptr \<Rightarrow> nat \<Rightarrow> u16 option \<Rightarrow> u16 option \<Rightarrow> bt_uuid_t option \<Rightarrow>
     (u16 \<times> u16 option \<times> u16 option \<times> bt_uuid_t option) option" where
  "dec_read_by_grp_req pdu len start end_h uuid = (case pdu of
     None \<Rightarrow> Some (0, start, end_h, uuid)
   | Some p \<Rightarrow>
       if start = None \<or> end_h = None \<or> uuid = None then Some (0, start, end_h, uuid)
       else do {
         op \<leftarrow> rd p 0;
         (if op \<noteq> ATT_OP_READ_BY_GROUP_REQ then Some (0, start, end_h, uuid)
          else if len < 5 + 2 then Some (0, start, end_h, uuid)
          else do {
            s \<leftarrow> att_get_u16 p 1;
            e \<leftarrow> att_get_u16 p 3;
            u \<leftarrow> (if len = 5 + 2 then att_get_uuid16 p 5 else att_get_uuid128 p 5);
            Some (of_nat len, Some s, Some e, Some u)
          })
       })"

definition enc_read_by_grp_resp :: "att_data_list option \<Rightarrow> ptr \<Rightarrow> nat \<Rightarrow> (u16 \<times> ptr) option" where
  "enc_read_by_grp_resp lst pdu len = (case lst of
     None \<Rightarrow> Some (0, pdu)
   | Some l \<Rightarrow>
       if len < elem_len l + 2 then Some (0, pdu)
       else do {
         p \<leftarrow> pdu;
         p \<leftarrow> wr p 0 ATT_OP_READ_BY_GROUP_RESP;
         p \<leftarrow> wr p 1 (of_nat (elem_len l));
         (w, p) \<leftarrow> put_elems 16 l (elem_len l) len 0 2 2 p;
         Some (of_nat w, Some p)
       })"

text \<open>The shared part of the list decoders: the division traps on an element length of
  0, and the element count is cut to 16 bits.\<close>

definition dec_data_list :: "bytes \<Rightarrow> nat \<Rightarrow> nat \<Rightarrow> att_data_list option option" where
  "dec_data_list p len elen =
     (if elen = 0 then None
      else let n = (sz_sub len 2 div elen) mod 2 ^ 16 in
        (case att_data_list_alloc n elen of
           None \<Rightarrow> Some None
         | Some l \<Rightarrow> do {
             es \<leftarrow> get_elems p 2 (elem_len l) n;
             Some (Some (l\<lparr>elems := es\<rparr>))
           }))"

definition dec_read_by_grp_resp :: "ptr \<Rightarrow> nat \<Rightarrow> att_data_list option option" where
  "dec_read_by_grp_resp pdu len = do {
     p \<leftarrow> pdu;
     op \<leftarrow> rd p 0;
     (if op \<noteq> ATT_OP_READ_BY_GROUP_RESP then Some None
      else do {
        elen \<leftarrow> rd p 1;
        dec_data_list p len (unat elen)
      })
   }"

definition enc_find_by_type_req ::
  "u16 \<Rightarrow> u16 \<Rightarrow> bt_uuid_t option \<Rightarrow> bytes \<Rightarrow> nat \<Rightarrow> ptr \<Rightarrow> nat \<Rightarrow> (u16 \<times> ptr) option" where
  "enc_find_by_type_req start end_h uuid val vlen pdu len = (case pdu of
     None \<Rightarrow> Some (0, None)
   | Some p \<Rightarrow>
      (case uuid of
         Some (BT_UUID16 v) \<Rightarrow>
           if len < 7 then Some (0, pdu)
           else do {
             let vlen = (if vlen > len - 7 then len - 7 else vlen);
             p \<leftarrow> wr p 0 ATT_OP_FIND_BY_TYPE_REQ;
             p \<leftarrow> att_put_u16 start p 1;
             p \<leftarrow> att_put_u16 end_h p 3;
             p \<leftarrow> att_put_uuid16 (BT_UUID16 v) p 5;
             (if vlen > 0 then do {
                d \<leftarrow> rdn val 0 vlen;
                p \<leftarrow> wrn p 7 d;
                Some (of_nat (7 + vlen), Some p)
              } else Some (7, Some p))
           }
       | _ \<Rightarrow> Some (0, pdu)))"

text \<open>Each out parameter is optional here; \<open>val\<close> is the buffer that receives the value.\<close>

definition dec_find_by_type_req ::
  "ptr \<Rightarrow> nat \<Rightarrow> u16 option \<Rightarrow> u16 option \<Rightarrow> bt_uuid_t option \<Rightarrow> ptr \<Rightarrow> nat option \<Rightarrow>
     (u16 \<times> u16 option \<times> u16 option \<times> bt_uuid_t option \<times> ptr \<times> nat option) option" where
  "dec_find_by_type_req pdu len start end_h uuid val vlen = (case pdu of
     None \<Rightarrow> Some (0, start, end_h, uuid, val, vlen)
   | Some p \<Rightarrow>
       if len < 7 then Some (0, start, end_h, uuid, val, vlen)
       else do {
         op \<leftarrow> rd p 0;
         (if op \<noteq> ATT_OP_FIND_BY_TYPE_REQ then Some (0, start, end_h, uuid, val, vlen)
          else do {
            start \<leftarrow> (case start of None \<Rightarrow> Some None | Some _ \<Rightarrow> do { v \<leftarrow> att_get_u16 p 1; Some (Some v) });
            end_h \<leftarrow> (case end_h of None \<Rightarrow> Some None | Some _ \<Rightarrow> do { v \<leftarrow> att_get_u16 p 3; Some (Some v) });
            uuid \<leftarrow> (case uuid of None \<Rightarrow> Some None | Some _ \<Rightarrow> do { v \<leftarrow> att_get_uuid16 p 5; Some (Some v) });
            let valuelen = len - 7;
            val \<leftarrow> (case val of
               Some b \<Rightarrow> if valuelen > 0 then do { d \<leftarrow> rdn p 7 valuelen; b \<leftarrow> wrn b 0 d; Some (Some b) }
                         else Some (Some b)
             | None \<Rightarrow> Some None);
            let vlen = (case vlen of None \<Rightarrow> None | Some _ \<Rightarrow> Some valuelen);
            Some (of_nat len, start, end_h, uuid, val, vlen)
          })
       })"

definition enc_find_by_type_resp :: "att_range list \<Rightarrow> ptr \<Rightarrow> nat \<Rightarrow> (u16 \<times> ptr) option" where
  "enc_find_by_type_resp matches pdu len = (case pdu of
     None \<Rightarrow> Some (0, None)
   | Some p \<Rightarrow>
       if len < 5 then Some (0, pdu)
       else do {
         p \<leftarrow> wr p 0 ATT_OP_FIND_BY_TYPE_RESP;
         (offset, p) \<leftarrow> put_ranges matches len 1 p;
         Some (of_nat offset, Some p)
       })"

text \<open>The empty list is the NULL that failure returns.\<close>

definition dec_find_by_type_resp :: "ptr \<Rightarrow> nat \<Rightarrow> att_range list option" where
  "dec_find_by_type_resp pdu len = (case pdu of
     None \<Rightarrow> Some []
   | Some p \<Rightarrow>
       if len < 5 then Some []
       else do {
         op \<leftarrow> rd p 0;
         (if op \<noteq> ATT_OP_FIND_BY_TYPE_RESP then Some [] else get_ranges p len 1)
       })"

section \<open>Reading by type\<close>

definition enc_read_by_type_req ::
  "u16 \<Rightarrow> u16 \<Rightarrow> bt_uuid_t option \<Rightarrow> ptr \<Rightarrow> nat \<Rightarrow> (u16 \<times> ptr) option" where
  "enc_read_by_type_req start end_h uuid pdu len = (case uuid of
     None \<Rightarrow> Some (0, pdu)
   | Some u \<Rightarrow>
      (case (case u of BT_UUID16 _ \<Rightarrow> Some 2 | BT_UUID128 _ \<Rightarrow> Some 16 | _ \<Rightarrow> None) of
         None \<Rightarrow> Some (0, pdu)
       | Some uuid_len \<Rightarrow>
           if len < 5 + uuid_len then Some (0, pdu)
           else do {
             p \<leftarrow> pdu;
             p \<leftarrow> wr p 0 ATT_OP_READ_BY_TYPE_REQ;
             p \<leftarrow> att_put_u16 start p 1;
             p \<leftarrow> att_put_u16 end_h p 3;
             p \<leftarrow> att_put_uuid u p 5;
             Some (of_nat (5 + uuid_len), Some p)
           }))"

definition dec_read_by_type_req ::
  "ptr \<Rightarrow> nat \<Rightarrow> u16 option \<Rightarrow> u16 option \<Rightarrow> bt_uuid_t option \<Rightarrow>
     (u16 \<times> u16 option \<times> u16 option \<times> bt_uuid_t option) option" where
  "dec_read_by_type_req pdu len start end_h uuid = (case pdu of
     None \<Rightarrow> Some (0, start, end_h, uuid)
   | Some p \<Rightarrow>
       if start = None \<or> end_h = None \<or> uuid = None then Some (0, start, end_h, uuid)
       else if len < 5 + 2 then Some (0, start, end_h, uuid)
       else do {
         op \<leftarrow> rd p 0;
         (if op \<noteq> ATT_OP_READ_BY_TYPE_REQ then Some (0, start, end_h, uuid)
          else do {
            s \<leftarrow> att_get_u16 p 1;
            e \<leftarrow> att_get_u16 p 3;
            u \<leftarrow> (if len = 5 + 2 then att_get_uuid16 p 5 else att_get_uuid128 p 5);
            Some (of_nat len, Some s, Some e, Some u)
          })
       })"

definition enc_read_by_type_resp :: "att_data_list option \<Rightarrow> ptr \<Rightarrow> nat \<Rightarrow> (u16 \<times> ptr) option" where
  "enc_read_by_type_resp lst pdu len = (case lst of
     None \<Rightarrow> Some (0, pdu)
   | Some dl \<Rightarrow>
      (case pdu of
         None \<Rightarrow> Some (0, pdu)
       | Some p \<Rightarrow> do {
           let l = min (sz_sub len 2) (elem_len dl);
           p \<leftarrow> wr p 0 ATT_OP_READ_BY_TYPE_RESP;
           p \<leftarrow> wr p 1 (of_nat l);
           (w, p) \<leftarrow> put_elems 64 dl l len 0 2 2 p;
           Some (of_nat w, Some p)
         }))"

definition dec_read_by_type_resp :: "ptr \<Rightarrow> nat \<Rightarrow> att_data_list option option" where
  "dec_read_by_type_resp pdu len = do {
     p \<leftarrow> pdu;
     op \<leftarrow> rd p 0;
     (if op \<noteq> ATT_OP_READ_BY_TYPE_RESP then Some None
      else do {
        elen \<leftarrow> rd p 1;
        dec_data_list p len (unat elen)
      })
   }"

section \<open>Writing\<close>

definition enc_write_cmd :: "u16 \<Rightarrow> bytes \<Rightarrow> nat \<Rightarrow> ptr \<Rightarrow> nat \<Rightarrow> (u16 \<times> ptr) option" where
  "enc_write_cmd handle val vlen pdu len = (case pdu of
     None \<Rightarrow> Some (0, None)
   | Some p \<Rightarrow>
       if len < 3 then Some (0, pdu)
       else do {
         let vlen = (if vlen > len - 3 then len - 3 else vlen);
         p \<leftarrow> wr p 0 ATT_OP_WRITE_CMD;
         p \<leftarrow> att_put_u16 handle p 1;
         (if vlen > 0 then do {
            d \<leftarrow> rdn val 0 vlen;
            p \<leftarrow> wrn p 3 d;
            Some (of_nat (3 + vlen), Some p)
          } else Some (3, Some p))
       })"

definition dec_write_cmd ::
  "ptr \<Rightarrow> nat \<Rightarrow> u16 option \<Rightarrow> ptr \<Rightarrow> nat option \<Rightarrow> (u16 \<times> u16 option \<times> ptr \<times> nat option) option" where
  "dec_write_cmd pdu len handle val vlen = (case pdu of
     None \<Rightarrow> Some (0, handle, val, vlen)
   | Some p \<Rightarrow>
       if val = None \<or> vlen = None \<or> handle = None then Some (0, handle, val, vlen)
       else if len < 3 then Some (0, handle, val, vlen)
       else do {
         op \<leftarrow> rd p 0;
         (if op \<noteq> ATT_OP_WRITE_CMD then Some (0, handle, val, vlen)
          else do {
            h \<leftarrow> att_get_u16 p 1;
            b \<leftarrow> val;
            d \<leftarrow> rdn p 3 (len - 3);
            b \<leftarrow> wrn b 0 d;
            Some (of_nat len, Some h, Some b, Some (len - 3))
          })
       })"

definition enc_write_req :: "u16 \<Rightarrow> bytes \<Rightarrow> nat \<Rightarrow> ptr \<Rightarrow> nat \<Rightarrow> (u16 \<times> ptr) option" where
  "enc_write_req handle val vlen pdu len = (case pdu of
     None \<Rightarrow> Some (0, None)
   | Some p \<Rightarrow>
       if len < 3 then Some (0, pdu)
       else do {
         let vlen = (if vlen > len - 3 then len - 3 else vlen);
         p \<leftarrow> wr p 0 ATT_OP_WRITE_REQ;
         p \<leftarrow> att_put_u16 handle p 1;
         (if vlen > 0 then do {
            d \<leftarrow> rdn val 0 vlen;
            p \<leftarrow> wrn p 3 d;
            Some (of_nat (3 + vlen), Some p)
          } else Some (3, Some p))
       })"

definition dec_write_req ::
  "ptr \<Rightarrow> nat \<Rightarrow> u16 option \<Rightarrow> ptr \<Rightarrow> nat option \<Rightarrow> (u16 \<times> u16 option \<times> ptr \<times> nat option) option" where
  "dec_write_req pdu len handle val vlen = (case pdu of
     None \<Rightarrow> Some (0, handle, val, vlen)
   | Some p \<Rightarrow>
       if val = None \<or> vlen = None \<or> handle = None then Some (0, handle, val, vlen)
       else if len < 3 then Some (0, handle, val, vlen)
       else do {
         op \<leftarrow> rd p 0;
         (if op \<noteq> ATT_OP_WRITE_REQ then Some (0, handle, val, vlen)
          else do {
            h \<leftarrow> att_get_u16 p 1;
            b \<leftarrow> val;
            b \<leftarrow> (if len - 3 > 0 then do { d \<leftarrow> rdn p 3 (len - 3); wrn b 0 d } else Some b);
            Some (of_nat len, Some h, Some b, Some (len - 3))
          })
       })"

definition enc_write_resp :: "ptr \<Rightarrow> (u16 \<times> ptr) option" where
  "enc_write_resp pdu = (case pdu of
     None \<Rightarrow> Some (0, None)
   | Some p \<Rightarrow> do {
       p \<leftarrow> wr p 0 ATT_OP_WRITE_RESP;
       Some (1, Some p)
     })"

definition dec_write_resp :: "ptr \<Rightarrow> nat \<Rightarrow> u16 option" where
  "dec_write_resp pdu len = (case pdu of
     None \<Rightarrow> Some 0
   | Some p \<Rightarrow> do {
       op \<leftarrow> rd p 0;
       (if op \<noteq> ATT_OP_WRITE_RESP then Some 0 else Some (of_nat len))
     })"

section \<open>Reading\<close>

definition enc_read_req :: "u16 \<Rightarrow> ptr \<Rightarrow> nat \<Rightarrow> (u16 \<times> ptr) option" where
  "enc_read_req handle pdu len = (case pdu of
     None \<Rightarrow> Some (0, None)
   | Some p \<Rightarrow>
       if len < 3 then Some (0, pdu)
       else do {
         p \<leftarrow> wr p 0 ATT_OP_READ_REQ;
         p \<leftarrow> att_put_u16 handle p 1;
         Some (3, Some p)
       })"

definition enc_read_blob_req :: "u16 \<Rightarrow> u16 \<Rightarrow> ptr \<Rightarrow> nat \<Rightarrow> (u16 \<times> ptr) option" where
  "enc_read_blob_req handle offset pdu len = (case pdu of
     None \<Rightarrow> Some (0, None)
   | Some p \<Rightarrow>
       if len < 5 then Some (0, pdu)
       else do {
         p \<leftarrow> wr p 0 ATT_OP_READ_BLOB_REQ;
         p \<leftarrow> att_put_u16 handle p 1;
         p \<leftarrow> att_put_u16 offset p 3;
         Some (5, Some p)
       })"

definition dec_read_req :: "ptr \<Rightarrow> nat \<Rightarrow> u16 option \<Rightarrow> (u16 \<times> u16 option) option" where
  "dec_read_req pdu len handle = (case pdu of
     None \<Rightarrow> Some (0, handle)
   | Some p \<Rightarrow>
       if handle = None then Some (0, handle)
       else if len < 3 then Some (0, handle)
       else do {
         op \<leftarrow> rd p 0;
         (if op \<noteq> ATT_OP_READ_REQ then Some (0, handle)
          else do {
            handle' \<leftarrow> att_get_u16 p 1;
            Some (3, Some handle')
          })
       })"

definition dec_read_blob_req :: "ptr \<Rightarrow> nat \<Rightarrow> u16 option \<Rightarrow> u16 option \<Rightarrow> (u16 \<times> u16 option \<times> u16 option) option" where
  "dec_read_blob_req pdu len handle offset = (case pdu of
     None \<Rightarrow> Some (0, handle, offset)
   | Some p \<Rightarrow>
       if handle = None \<or> offset = None then Some (0, handle, offset)
       else if len < 5 then Some (0, handle, offset)
       else do {
         op \<leftarrow> rd p 0;
         (if op \<noteq> ATT_OP_READ_BLOB_REQ then Some (0, handle, offset)
          else do {
            handle' \<leftarrow> att_get_u16 p 1;
            offset' \<leftarrow> att_get_u16 p 3;
            Some (5, Some handle', Some offset')
          })
       })"

definition enc_read_resp :: "bytes \<Rightarrow> nat \<Rightarrow> ptr \<Rightarrow> nat \<Rightarrow> (u16 \<times> ptr) option" where
  "enc_read_resp val vlen pdu len = (case pdu of
     None \<Rightarrow> Some (0, None)
   | Some p \<Rightarrow> do {
       let vlen = (if vlen > sz_sub len 1 then sz_sub len 1 else vlen);
       p \<leftarrow> wr p 0 ATT_OP_READ_RESP;
       d \<leftarrow> rdn val 0 vlen;
       p \<leftarrow> wrn p 1 d;
       Some (of_nat (vlen + 1), Some p)
     })"

definition enc_read_blob_resp :: "bytes \<Rightarrow> nat \<Rightarrow> u16 \<Rightarrow> ptr \<Rightarrow> nat \<Rightarrow> (u16 \<times> ptr) option" where
  "enc_read_blob_resp val vlen offset pdu len = (case pdu of
     None \<Rightarrow> Some (0, None)
   | Some p \<Rightarrow> do {
       let vlen = sz_sub vlen (unat offset);
       let vlen = (if vlen > sz_sub len 1 then sz_sub len 1 else vlen);
       p \<leftarrow> wr p 0 ATT_OP_READ_BLOB_RESP;
       d \<leftarrow> rdn val (unat offset) vlen;
       p \<leftarrow> wrn p 1 d;
       Some (of_nat (vlen + 1), Some p)
     })"

text \<open>A \<open>size_t\<close> converted to \<open>ssize_t\<close>.\<close>

definition ssize :: "nat \<Rightarrow> int" where
  "ssize n = (if n < 2 ^ 63 then int n else int n - 2 ^ 64)"

text \<open>The status or length, and the buffer \<open>val\<close> after the call.\<close>

definition dec_read_resp :: "ptr \<Rightarrow> nat \<Rightarrow> ptr \<Rightarrow> nat \<Rightarrow> (int \<times> ptr) option" where
  "dec_read_resp pdu len val vlen = (case pdu of
     None \<Rightarrow> Some (- EINVAL, val)
   | Some p \<Rightarrow> do {
       op \<leftarrow> rd p 0;
       (if op \<noteq> ATT_OP_READ_RESP then Some (- EINVAL, val)
        else (case val of
          None \<Rightarrow> Some (ssize (sz_sub len 1), None)
        | Some b \<Rightarrow>
            if vlen < sz_sub len 1 then Some (- ENOBUFS, val)
            else do {
              d \<leftarrow> rdn p 1 (sz_sub len 1);
              b \<leftarrow> wrn b 0 d;
              Some (ssize (sz_sub len 1), Some b)
            }))
     })"

definition enc_error_resp :: "u8 \<Rightarrow> u16 \<Rightarrow> u8 \<Rightarrow> ptr \<Rightarrow> nat \<Rightarrow> (u16 \<times> ptr) option" where
  "enc_error_resp opcode handle status pdu len =
     (if len < 5 then Some (0, pdu)
      else do {
        p \<leftarrow> pdu;
        p \<leftarrow> wr p 0 ATT_OP_ERROR;
        p \<leftarrow> wr p 1 opcode;
        p \<leftarrow> wrn p 2 (le16 handle);
        p \<leftarrow> wr p 4 status;
        Some (5, Some p)
      })"

section \<open>Attribute information\<close>

definition enc_find_info_req :: "u16 \<Rightarrow> u16 \<Rightarrow> ptr \<Rightarrow> nat \<Rightarrow> (u16 \<times> ptr) option" where
  "enc_find_info_req start end_h pdu len = (case pdu of
     None \<Rightarrow> Some (0, None)
   | Some p \<Rightarrow>
       if len < 5 then Some (0, pdu)
       else do {
         p \<leftarrow> wr p 0 ATT_OP_FIND_INFO_REQ;
         p \<leftarrow> att_put_u16 start p 1;
         p \<leftarrow> att_put_u16 end_h p 3;
         Some (5, Some p)
       })"

definition dec_find_info_req :: "ptr \<Rightarrow> nat \<Rightarrow> u16 option \<Rightarrow> u16 option \<Rightarrow> (u16 \<times> u16 option \<times> u16 option) option" where
  "dec_find_info_req pdu len start end_h = (case pdu of
     None \<Rightarrow> Some (0, start, end_h)
   | Some p \<Rightarrow>
       if len < 5 then Some (0, start, end_h)
       else if start = None \<or> end_h = None then Some (0, start, end_h)
       else do {
         op \<leftarrow> rd p 0;
         (if op \<noteq> ATT_OP_FIND_INFO_REQ then Some (0, start, end_h)
          else do {
            start' \<leftarrow> att_get_u16 p 1;
            end_h' \<leftarrow> att_get_u16 p 3;
            Some (5, Some start', Some end_h')
          })
       })"

definition enc_find_info_resp :: "u8 \<Rightarrow> att_data_list option \<Rightarrow> ptr \<Rightarrow> nat \<Rightarrow> (u16 \<times> ptr) option" where
  "enc_find_info_resp fmt lst pdu len = (case pdu of
     None \<Rightarrow> Some (0, None)
   | Some p \<Rightarrow>
      (case lst of
         None \<Rightarrow> Some (0, pdu)
       | Some l \<Rightarrow>
           if len < elem_len l + 2 then Some (0, pdu)
           else do {
             p \<leftarrow> wr p 0 ATT_OP_FIND_INFO_RESP;
             p \<leftarrow> wr p 1 fmt;
             (w, p) \<leftarrow> put_elems 64 l (elem_len l) len 0 2 2 p;
             Some (of_nat w, Some p)
           }))"

definition dec_find_info_resp :: "ptr \<Rightarrow> nat \<Rightarrow> u8 option \<Rightarrow> (att_data_list option \<times> u8 option) option" where
  "dec_find_info_resp pdu len fmt = (case pdu of
     None \<Rightarrow> Some (None, fmt)
   | Some p \<Rightarrow>
       if fmt = None then Some (None, fmt)
       else do {
         op \<leftarrow> rd p 0;
         (if op \<noteq> ATT_OP_FIND_INFO_RESP then Some (None, fmt)
          else do {
            f \<leftarrow> rd p 1;
            let elen = 2 + (if f = 0x01 then 2 else if f = 0x02 then 16 else 0);
            l \<leftarrow> dec_data_list p len elen;
            Some (l, Some f)
          })
       })"

section \<open>Notifications and indications\<close>

definition enc_notification :: "u16 \<Rightarrow> bytes \<Rightarrow> nat \<Rightarrow> ptr \<Rightarrow> nat \<Rightarrow> (u16 \<times> ptr) option" where
  "enc_notification handle val vlen pdu len = (case pdu of
     None \<Rightarrow> Some (0, None)
   | Some p \<Rightarrow>
       if len < sz_add vlen 3 then Some (0, pdu)
       else do {
         p \<leftarrow> wr p 0 ATT_OP_HANDLE_NOTIFY;
         p \<leftarrow> att_put_u16 handle p 1;
         d \<leftarrow> rdn val 0 vlen;
         p \<leftarrow> wrn p 3 d;
         Some (of_nat (vlen + 3), Some p)
       })"

definition enc_indication :: "u16 \<Rightarrow> bytes \<Rightarrow> nat \<Rightarrow> ptr \<Rightarrow> nat \<Rightarrow> (u16 \<times> ptr) option" where
  "enc_indication handle val vlen pdu len = (case pdu of
     None \<Rightarrow> Some (0, None)
   | Some p \<Rightarrow>
       if len < sz_add vlen 3 then Some (0, pdu)
       else do {
         p \<leftarrow> wr p 0 ATT_OP_HANDLE_IND;
         p \<leftarrow> att_put_u16 handle p 1;
         d \<leftarrow> rdn val 0 vlen;
         p \<leftarrow> wrn p 3 d;
         Some (of_nat (vlen + 3), Some p)
       })"

definition dec_indication ::
  "ptr \<Rightarrow> nat \<Rightarrow> u16 option \<Rightarrow> bytes \<Rightarrow> nat \<Rightarrow> (u16 \<times> u16 option \<times> bytes) option" where
  "dec_indication pdu len handle val vlen = (case pdu of
     None \<Rightarrow> Some (0, handle, val)
   | Some p \<Rightarrow> do {
       op \<leftarrow> rd p 0;
       (if op \<noteq> ATT_OP_HANDLE_IND then Some (0, handle, val)
        else if len < 3 then Some (0, handle, val)
        else do {
          let dlen = min (len - 3) vlen mod 2 ^ 16;
          h \<leftarrow> (case handle of None \<Rightarrow> Some None | Some _ \<Rightarrow> do { v \<leftarrow> att_get_u16 p 1; Some (Some v) });
          d \<leftarrow> rdn p 3 dlen;
          val \<leftarrow> wrn val 0 d;
          Some (of_nat dlen, h, val)
        })
     })"

definition enc_confirmation :: "ptr \<Rightarrow> nat \<Rightarrow> (u16 \<times> ptr) option" where
  "enc_confirmation pdu len = (case pdu of
     None \<Rightarrow> Some (0, None)
   | Some p \<Rightarrow>
       if len < 1 then Some (0, pdu)
       else do {
         p \<leftarrow> wr p 0 ATT_OP_HANDLE_CNF;
         Some (1, Some p)
       })"

section \<open>Exchange of the MTU\<close>

definition enc_mtu_req :: "u16 \<Rightarrow> ptr \<Rightarrow> nat \<Rightarrow> (u16 \<times> ptr) option" where
  "enc_mtu_req mtu pdu len = (case pdu of
     None \<Rightarrow> Some (0, None)
   | Some p \<Rightarrow>
       if len < 3 then Some (0, pdu)
       else do {
         p \<leftarrow> wr p 0 ATT_OP_MTU_REQ;
         p \<leftarrow> att_put_u16 mtu p 1;
         Some (3, Some p)
       })"

definition dec_mtu_req :: "ptr \<Rightarrow> nat \<Rightarrow> u16 option \<Rightarrow> (u16 \<times> u16 option) option" where
  "dec_mtu_req pdu len mtu = (case pdu of
     None \<Rightarrow> Some (0, mtu)
   | Some p \<Rightarrow>
       if mtu = None then Some (0, mtu)
       else if len < 3 then Some (0, mtu)
       else do {
         op \<leftarrow> rd p 0;
         (if op \<noteq> ATT_OP_MTU_REQ then Some (0, mtu)
          else do {
            mtu' \<leftarrow> att_get_u16 p 1;
            Some (3, Some mtu')
          })
       })"

definition enc_mtu_resp :: "u16 \<Rightarrow> ptr \<Rightarrow> nat \<Rightarrow> (u16 \<times> ptr) option" where
  "enc_mtu_resp mtu pdu len = (case pdu of
     None \<Rightarrow> Some (0, None)
   | Some p \<Rightarrow>
       if len < 3 then Some (0, pdu)
       else do {
         p \<leftarrow> wr p 0 ATT_OP_MTU_RESP;
         p \<leftarrow> att_put_u16 mtu p 1;
         Some (3, Some p)
       })"

definition dec_mtu_resp :: "ptr \<Rightarrow> nat \<Rightarrow> u16 option \<Rightarrow> (u16 \<times> u16 option) option" where
  "dec_mtu_resp pdu len mtu = (case pdu of
     None \<Rightarrow> Some (0, mtu)
   | Some p \<Rightarrow>
       if mtu = None then Some (0, mtu)
       else if len < 3 then Some (0, mtu)
       else do {
         op \<leftarrow> rd p 0;
         (if op \<noteq> ATT_OP_MTU_RESP then Some (0, mtu)
          else do {
            mtu' \<leftarrow> att_get_u16 p 1;
            Some (3, Some mtu')
          })
       })"

section \<open>Queued writes\<close>

definition enc_prep_write_req :: "u16 \<Rightarrow> u16 \<Rightarrow> bytes \<Rightarrow> nat \<Rightarrow> ptr \<Rightarrow> nat \<Rightarrow> (u16 \<times> ptr) option" where
  "enc_prep_write_req handle offset val vlen pdu len = (case pdu of
     None \<Rightarrow> Some (0, None)
   | Some p \<Rightarrow>
       if len < 5 then Some (0, pdu)
       else do {
         let vlen = (if vlen > len - 5 then len - 5 else vlen);
         p \<leftarrow> wr p 0 ATT_OP_PREP_WRITE_REQ;
         p \<leftarrow> att_put_u16 handle p 1;
         p \<leftarrow> att_put_u16 offset p 3;
         (if vlen > 0 then do {
            d \<leftarrow> rdn val 0 vlen;
            p \<leftarrow> wrn p 5 d;
            Some (of_nat (5 + vlen), Some p)
          } else Some (5, Some p))
       })"

definition dec_prep_write_req ::
  "ptr \<Rightarrow> nat \<Rightarrow> u16 option \<Rightarrow> u16 option \<Rightarrow> ptr \<Rightarrow> nat option \<Rightarrow>
     (u16 \<times> u16 option \<times> u16 option \<times> ptr \<times> nat option) option" where
  "dec_prep_write_req pdu len handle offset val vlen = (case pdu of
     None \<Rightarrow> Some (0, handle, offset, val, vlen)
   | Some p \<Rightarrow>
       if handle = None \<or> offset = None \<or> val = None \<or> vlen = None then Some (0, handle, offset, val, vlen)
       else if len < 5 then Some (0, handle, offset, val, vlen)
       else do {
         op \<leftarrow> rd p 0;
         (if op \<noteq> ATT_OP_PREP_WRITE_REQ then Some (0, handle, offset, val, vlen)
          else do {
            h \<leftarrow> att_get_u16 p 1;
            off \<leftarrow> att_get_u16 p 3;
            b \<leftarrow> val;
            b \<leftarrow> (if len - 5 > 0 then do { d \<leftarrow> rdn p 5 (len - 5); wrn b 0 d } else Some b);
            Some (of_nat len, Some h, Some off, Some b, Some (len - 5))
          })
       })"

definition enc_prep_write_resp :: "u16 \<Rightarrow> u16 \<Rightarrow> bytes \<Rightarrow> nat \<Rightarrow> ptr \<Rightarrow> nat \<Rightarrow> (u16 \<times> ptr) option" where
  "enc_prep_write_resp handle offset val vlen pdu len = (case pdu of
     None \<Rightarrow> Some (0, None)
   | Some p \<Rightarrow>
       if len < 5 then Some (0, pdu)
       else do {
         let vlen = (if vlen > len - 5 then len - 5 else vlen);
         p \<leftarrow> wr p 0 ATT_OP_PREP_WRITE_RESP;
         p \<leftarrow> att_put_u16 handle p 1;
         p \<leftarrow> att_put_u16 offset p 3;
         (if vlen > 0 then do {
            d \<leftarrow> rdn val 0 vlen;
            p \<leftarrow> wrn p 5 d;
            Some (of_nat (5 + vlen), Some p)
          } else Some (5, Some p))
       })"

text \<open>The response decoder tests for the opcode of the request, as the source does.\<close>

definition dec_prep_write_resp ::
  "ptr \<Rightarrow> nat \<Rightarrow> u16 option \<Rightarrow> u16 option \<Rightarrow> ptr \<Rightarrow> nat option \<Rightarrow>
     (u16 \<times> u16 option \<times> u16 option \<times> ptr \<times> nat option) option" where
  "dec_prep_write_resp pdu len handle offset val vlen = (case pdu of
     None \<Rightarrow> Some (0, handle, offset, val, vlen)
   | Some p \<Rightarrow>
       if handle = None \<or> offset = None \<or> val = None \<or> vlen = None then Some (0, handle, offset, val, vlen)
       else if len < 5 then Some (0, handle, offset, val, vlen)
       else do {
         op \<leftarrow> rd p 0;
         (if op \<noteq> ATT_OP_PREP_WRITE_REQ then Some (0, handle, offset, val, vlen)
          else do {
            h \<leftarrow> att_get_u16 p 1;
            off \<leftarrow> att_get_u16 p 3;
            b \<leftarrow> val;
            b \<leftarrow> (if len - 5 > 0 then do { d \<leftarrow> rdn p 5 (len - 5); wrn b 0 d } else Some b);
            Some (of_nat len, Some h, Some off, Some b, Some (len - 5))
          })
       })"

definition enc_exec_write_req :: "u8 \<Rightarrow> ptr \<Rightarrow> nat \<Rightarrow> (u16 \<times> ptr) option" where
  "enc_exec_write_req flags pdu len = (case pdu of
     None \<Rightarrow> Some (0, None)
   | Some p \<Rightarrow>
       if len < 2 then Some (0, pdu)
       else if flags > 1 then Some (0, pdu)
       else do {
         p \<leftarrow> wr p 0 ATT_OP_EXEC_WRITE_REQ;
         p \<leftarrow> wr p 1 flags;
         Some (2, Some p)
       })"

definition dec_exec_write_req :: "ptr \<Rightarrow> nat \<Rightarrow> u8 option \<Rightarrow> (u16 \<times> u8 option) option" where
  "dec_exec_write_req pdu len flags = (case pdu of
     None \<Rightarrow> Some (0, flags)
   | Some p \<Rightarrow>
       if flags = None then Some (0, flags)
       else if len < 2 then Some (0, flags)
       else do {
         op \<leftarrow> rd p 0;
         (if op \<noteq> ATT_OP_EXEC_WRITE_REQ then Some (0, flags)
          else do {
            f \<leftarrow> rd p 1;
            Some (2, Some f)
          })
       })"

definition enc_exec_write_resp :: "ptr \<Rightarrow> (u16 \<times> ptr) option" where
  "enc_exec_write_resp pdu = (case pdu of
     None \<Rightarrow> Some (0, None)
   | Some p \<Rightarrow> do {
       p \<leftarrow> wr p 0 ATT_OP_EXEC_WRITE_RESP;
       Some (1, Some p)
     })"

definition dec_exec_write_resp :: "ptr \<Rightarrow> nat \<Rightarrow> u16 option" where
  "dec_exec_write_resp pdu len = (case pdu of
     None \<Rightarrow> Some 0
   | Some p \<Rightarrow>
       if len < 1 then Some 0
       else do {
         op \<leftarrow> rd p 0;
         (if op \<noteq> ATT_OP_EXEC_WRITE_RESP then Some 0 else Some (of_nat len))
       })"

end
