(* ===== verification/Att_Codec.thy ===== *)
theory Att_Codec
  imports Att
begin

text \<open>
  What the PDU functions of \<open>Att\<close> are for: a datatype of attribute protocol PDUs, their
  format on the wire, and the proofs that the encoders write it and the decoders read it back.
  \<open>att_encode\<close> and \<open>att_decode\<close> only call the source's function for a PDU, and the one that is named.
\<close>

section \<open>Abstract PDUs\<close>

text \<open>A blob response is given by the whole value and the offset from which on it is sent.\<close>

datatype att_pdu =
    Error_Rsp u8 u16 u8
  | Mtu_Req u16
  | Mtu_Rsp u16
  | Find_Info_Req u16 u16
  | Find_Info_Rsp u8 "bytes list"
  | Find_By_Type_Req u16 u16 u16 bytes
  | Find_By_Type_Rsp "att_range list"
  | Read_By_Type_Req u16 u16 bt_uuid_t
  | Read_By_Type_Rsp "bytes list"
  | Read_Req u16
  | Read_Rsp bytes
  | Read_Blob_Req u16 u16
  | Read_Blob_Rsp bytes u16
  | Read_By_Group_Req u16 u16 bt_uuid_t
  | Read_By_Group_Rsp "bytes list"
  | Write_Req u16 bytes
  | Write_Rsp
  | Write_Cmd u16 bytes
  | Prep_Write_Req u16 u16 bytes
  | Prep_Write_Rsp u16 u16 bytes
  | Exec_Write_Req u8
  | Exec_Write_Rsp
  | Notification u16 bytes
  | Indication u16 bytes
  | Confirmation

fun uuid_bytes :: "bt_uuid_t \<Rightarrow> bytes" where
  "uuid_bytes (BT_UUID16 v) = le16 v"
| "uuid_bytes (BT_UUID128 v) = v"
| "uuid_bytes _ = []"

definition range_bytes :: "att_range \<Rightarrow> bytes" where
  "range_bytes r = le16 (start_handle r) @ le16 (end_handle r)"

definition elem_width :: "bytes list \<Rightarrow> nat" where
  "elem_width es = length (hd es)"

text \<open>The format that the attribute protocol prescribes.\<close>

fun att_wire :: "att_pdu \<Rightarrow> bytes" where
  "att_wire (Error_Rsp opcode h s) = ATT_OP_ERROR # opcode # le16 h @ [s]"
| "att_wire (Mtu_Req m) = ATT_OP_MTU_REQ # le16 m"
| "att_wire (Mtu_Rsp m) = ATT_OP_MTU_RESP # le16 m"
| "att_wire (Find_Info_Req s e) = ATT_OP_FIND_INFO_REQ # le16 s @ le16 e"
| "att_wire (Find_Info_Rsp f es) = ATT_OP_FIND_INFO_RESP # f # concat es"
| "att_wire (Find_By_Type_Req s e u v) = ATT_OP_FIND_BY_TYPE_REQ # le16 s @ le16 e @ le16 u @ v"
| "att_wire (Find_By_Type_Rsp rs) = ATT_OP_FIND_BY_TYPE_RESP # concat (map range_bytes rs)"
| "att_wire (Read_By_Type_Req s e u) = ATT_OP_READ_BY_TYPE_REQ # le16 s @ le16 e @ uuid_bytes u"
| "att_wire (Read_By_Type_Rsp es) = ATT_OP_READ_BY_TYPE_RESP # of_nat (elem_width es) # concat es"
| "att_wire (Read_Req h) = ATT_OP_READ_REQ # le16 h"
| "att_wire (Read_Rsp v) = ATT_OP_READ_RESP # v"
| "att_wire (Read_Blob_Req h off) = ATT_OP_READ_BLOB_REQ # le16 h @ le16 off"
| "att_wire (Read_Blob_Rsp v off) = ATT_OP_READ_BLOB_RESP # drop (unat off) v"
| "att_wire (Read_By_Group_Req s e u) = ATT_OP_READ_BY_GROUP_REQ # le16 s @ le16 e @ uuid_bytes u"
| "att_wire (Read_By_Group_Rsp es) = ATT_OP_READ_BY_GROUP_RESP # of_nat (elem_width es) # concat es"
| "att_wire (Write_Req h v) = ATT_OP_WRITE_REQ # le16 h @ v"
| "att_wire Write_Rsp = [ATT_OP_WRITE_RESP]"
| "att_wire (Write_Cmd h v) = ATT_OP_WRITE_CMD # le16 h @ v"
| "att_wire (Prep_Write_Req h off v) = ATT_OP_PREP_WRITE_REQ # le16 h @ le16 off @ v"
| "att_wire (Prep_Write_Rsp h off v) = ATT_OP_PREP_WRITE_RESP # le16 h @ le16 off @ v"
| "att_wire (Exec_Write_Req f) = [ATT_OP_EXEC_WRITE_REQ, f]"
| "att_wire Exec_Write_Rsp = [ATT_OP_EXEC_WRITE_RESP]"
| "att_wire (Notification h v) = ATT_OP_HANDLE_NOTIFY # le16 h @ v"
| "att_wire (Indication h v) = ATT_OP_HANDLE_IND # le16 h @ v"
| "att_wire Confirmation = [ATT_OP_HANDLE_CNF]"

text \<open>Lists of attribute data are nonempty and of one width, which fits the length byte.\<close>

definition elems_wf :: "bytes list \<Rightarrow> bool" where
  "elems_wf es \<longleftrightarrow> es \<noteq> [] \<and> list_all (\<lambda>e. length e = elem_width es) es \<and>
     0 < elem_width es \<and> elem_width es < 256"

fun uuid_sendable :: "bt_uuid_t \<Rightarrow> bool" where
  "uuid_sendable (BT_UUID16 _) = True"
| "uuid_sendable (BT_UUID128 v) = (length v = 16)"
| "uuid_sendable _ = False"

fun att_wf :: "att_pdu \<Rightarrow> bool" where
  "att_wf (Find_Info_Rsp f es) = (elems_wf es \<and>
     (f = ATT_FIND_INFO_RESP_FMT_16BIT \<and> elem_width es = 4 \<or>
      f = ATT_FIND_INFO_RESP_FMT_128BIT \<and> elem_width es = 18))"
| "att_wf (Find_By_Type_Rsp rs) = (rs \<noteq> [])"
| "att_wf (Read_By_Type_Req s e u) = uuid_sendable u"
| "att_wf (Read_By_Type_Rsp es) = elems_wf es"
| "att_wf (Read_By_Group_Req s e u) = uuid_sendable u"
| "att_wf (Read_By_Group_Rsp es) = elems_wf es"
| "att_wf (Read_Blob_Rsp v off) = (unat off \<le> length v)"
| "att_wf (Exec_Write_Req f) = (f \<le> 1)"
| "att_wf _ = True"

section \<open>Calling the encoders\<close>

definition data_list :: "bytes list \<Rightarrow> att_data_list" where
  "data_list es = \<lparr>num = length es, elem_len = elem_width es, elems = es\<rparr>"

fun att_encode :: "att_pdu \<Rightarrow> ptr \<Rightarrow> nat \<Rightarrow> (u16 \<times> ptr) option" where
  "att_encode (Error_Rsp opcode h s) = enc_error_resp opcode h s"
| "att_encode (Mtu_Req m) = enc_mtu_req m"
| "att_encode (Mtu_Rsp m) = enc_mtu_resp m"
| "att_encode (Find_Info_Req s e) = enc_find_info_req s e"
| "att_encode (Find_Info_Rsp f es) = enc_find_info_resp f (Some (data_list es))"
| "att_encode (Find_By_Type_Req s e u v) = enc_find_by_type_req s e (Some (BT_UUID16 u)) v (length v)"
| "att_encode (Find_By_Type_Rsp rs) = enc_find_by_type_resp rs"
| "att_encode (Read_By_Type_Req s e u) = enc_read_by_type_req s e (Some u)"
| "att_encode (Read_By_Type_Rsp es) = enc_read_by_type_resp (Some (data_list es))"
| "att_encode (Read_Req h) = enc_read_req h"
| "att_encode (Read_Rsp v) = enc_read_resp v (length v)"
| "att_encode (Read_Blob_Req h off) = enc_read_blob_req h off"
| "att_encode (Read_Blob_Rsp v off) = enc_read_blob_resp v (length v) off"
| "att_encode (Read_By_Group_Req s e u) = enc_read_by_grp_req s e (Some u)"
| "att_encode (Read_By_Group_Rsp es) = enc_read_by_grp_resp (Some (data_list es))"
| "att_encode (Write_Req h v) = enc_write_req h v (length v)"
| "att_encode Write_Rsp = (\<lambda>pdu _. enc_write_resp pdu)"
| "att_encode (Write_Cmd h v) = enc_write_cmd h v (length v)"
| "att_encode (Prep_Write_Req h off v) = enc_prep_write_req h off v (length v)"
| "att_encode (Prep_Write_Rsp h off v) = enc_prep_write_resp h off v (length v)"
| "att_encode (Exec_Write_Req f) = enc_exec_write_req f"
| "att_encode Exec_Write_Rsp = (\<lambda>pdu _. enc_exec_write_resp pdu)"
| "att_encode (Notification h v) = enc_notification h v (length v)"
| "att_encode (Indication h v) = enc_indication h v (length v)"
| "att_encode Confirmation = enc_confirmation"

section \<open>Calling the decoders\<close>

text \<open>The decoders of \<open>att.c\<close>. Errors, blob responses, notifications and confirmations have none: their users read them
  in place.\<close>

datatype att_decoder =
    Dec_Mtu_Req | Dec_Mtu_Resp
  | Dec_Find_Info_Req | Dec_Find_Info_Resp
  | Dec_Find_By_Type_Req | Dec_Find_By_Type_Resp
  | Dec_Read_By_Type_Req | Dec_Read_By_Type_Resp
  | Dec_Read_Req | Dec_Read_Resp
  | Dec_Read_Blob_Req
  | Dec_Read_By_Grp_Req | Dec_Read_By_Grp_Resp
  | Dec_Write_Req | Dec_Write_Resp | Dec_Write_Cmd
  | Dec_Prep_Write_Req | Dec_Prep_Write_Resp
  | Dec_Exec_Write_Req | Dec_Exec_Write_Resp
  | Dec_Indication

text \<open>A call of a decoder on the PDU \<open>p\<close>, with places for all its results and a value buffer of the size of the PDU. \<open>Some None\<close>
  is a PDU that the decoder refuses. (The result of \<open>dec_indication\<close> is 0 for a refusal and for an empty value; the two are told apart here.)\<close>

fun att_decode :: "att_decoder \<Rightarrow> bytes \<Rightarrow> att_pdu option option" where
  "att_decode Dec_Mtu_Req p = do {
     (r, m) \<leftarrow> dec_mtu_req (Some p) (length p) (Some 0);
     Some (if r = 0 then None else map_option Mtu_Req m) }"
| "att_decode Dec_Mtu_Resp p = do {
     (r, m) \<leftarrow> dec_mtu_resp (Some p) (length p) (Some 0);
     Some (if r = 0 then None else map_option Mtu_Rsp m) }"
| "att_decode Dec_Find_Info_Req p = do {
     (r, s, e) \<leftarrow> dec_find_info_req (Some p) (length p) (Some 0) (Some 0);
     Some (if r = 0 then None else do { s \<leftarrow> s; e \<leftarrow> e; Some (Find_Info_Req s e) }) }"
| "att_decode Dec_Find_Info_Resp p = do {
     (l, f) \<leftarrow> dec_find_info_resp (Some p) (length p) (Some 0);
     Some (do { l \<leftarrow> l; f \<leftarrow> f; Some (Find_Info_Rsp f (elems l)) }) }"
| "att_decode Dec_Find_By_Type_Req p = do {
     (r, s, e, u, v, vlen) \<leftarrow>
       dec_find_by_type_req (Some p) (length p) (Some 0) (Some 0) (Some (BT_UUID16 0)) (Some (replicate (length p) 0)) (Some 0);
     Some (if r = 0 then None else do {
       s \<leftarrow> s; e \<leftarrow> e; u \<leftarrow> u; u \<leftarrow> value_u16 u; v \<leftarrow> v; n \<leftarrow> vlen;
       Some (Find_By_Type_Req s e u (take n v)) }) }"
| "att_decode Dec_Find_By_Type_Resp p = do {
     rs \<leftarrow> dec_find_by_type_resp (Some p) (length p);
     Some (if rs = [] then None else Some (Find_By_Type_Rsp rs)) }"
| "att_decode Dec_Read_By_Type_Req p = do {
     (r, s, e, u) \<leftarrow> dec_read_by_type_req (Some p) (length p) (Some 0) (Some 0) (Some (BT_UUID16 0));
     Some (if r = 0 then None else do { s \<leftarrow> s; e \<leftarrow> e; u \<leftarrow> u; Some (Read_By_Type_Req s e u) }) }"
| "att_decode Dec_Read_By_Type_Resp p = do {
     l \<leftarrow> dec_read_by_type_resp (Some p) (length p);
     Some (map_option (\<lambda>l. Read_By_Type_Rsp (elems l)) l) }"
| "att_decode Dec_Read_Req p = do {
     (r, h) \<leftarrow> dec_read_req (Some p) (length p) (Some 0);
     Some (if r = 0 then None else map_option Read_Req h) }"
| "att_decode Dec_Read_Resp p = do {
     (n, v) \<leftarrow> dec_read_resp (Some p) (length p) (Some (replicate (length p) 0)) (length p);
     Some (if n < 0 then None else map_option (\<lambda>v. Read_Rsp (take (nat n) v)) v) }"
| "att_decode Dec_Read_Blob_Req p = do {
     (r, h, off) \<leftarrow> dec_read_blob_req (Some p) (length p) (Some 0) (Some 0);
     Some (if r = 0 then None else do { h \<leftarrow> h; off \<leftarrow> off; Some (Read_Blob_Req h off) }) }"
| "att_decode Dec_Read_By_Grp_Req p = do {
     (r, s, e, u) \<leftarrow> dec_read_by_grp_req (Some p) (length p) (Some 0) (Some 0) (Some (BT_UUID16 0));
     Some (if r = 0 then None else do { s \<leftarrow> s; e \<leftarrow> e; u \<leftarrow> u; Some (Read_By_Group_Req s e u) }) }"
| "att_decode Dec_Read_By_Grp_Resp p = do {
     l \<leftarrow> dec_read_by_grp_resp (Some p) (length p);
     Some (map_option (\<lambda>l. Read_By_Group_Rsp (elems l)) l) }"
| "att_decode Dec_Write_Req p = do {
     (r, h, v, vlen) \<leftarrow> dec_write_req (Some p) (length p) (Some 0) (Some (replicate (length p) 0)) (Some 0);
     Some (if r = 0 then None else do { h \<leftarrow> h; v \<leftarrow> v; n \<leftarrow> vlen; Some (Write_Req h (take n v)) }) }"
| "att_decode Dec_Write_Resp p = do {
     r \<leftarrow> dec_write_resp (Some p) (length p);
     Some (if r = 0 then None else Some Write_Rsp) }"
| "att_decode Dec_Write_Cmd p = do {
     (r, h, v, vlen) \<leftarrow> dec_write_cmd (Some p) (length p) (Some 0) (Some (replicate (length p) 0)) (Some 0);
     Some (if r = 0 then None else do { h \<leftarrow> h; v \<leftarrow> v; n \<leftarrow> vlen; Some (Write_Cmd h (take n v)) }) }"
| "att_decode Dec_Prep_Write_Req p = do {
     (r, h, off, v, vlen) \<leftarrow> dec_prep_write_req (Some p) (length p) (Some 0) (Some 0) (Some (replicate (length p) 0)) (Some 0);
     Some (if r = 0 then None else do {
       h \<leftarrow> h; off \<leftarrow> off; v \<leftarrow> v; n \<leftarrow> vlen; Some (Prep_Write_Req h off (take n v)) }) }"
| "att_decode Dec_Prep_Write_Resp p = do {
     (r, h, off, v, vlen) \<leftarrow> dec_prep_write_resp (Some p) (length p) (Some 0) (Some 0) (Some (replicate (length p) 0)) (Some 0);
     Some (if r = 0 then None else do {
       h \<leftarrow> h; off \<leftarrow> off; v \<leftarrow> v; n \<leftarrow> vlen; Some (Prep_Write_Rsp h off (take n v)) }) }"
| "att_decode Dec_Exec_Write_Req p = do {
     (r, f) \<leftarrow> dec_exec_write_req (Some p) (length p) (Some 0);
     Some (if r = 0 then None else map_option Exec_Write_Req f) }"
| "att_decode Dec_Exec_Write_Resp p = do {
     r \<leftarrow> dec_exec_write_resp (Some p) (length p);
     Some (if r = 0 then None else Some Exec_Write_Rsp) }"
| "att_decode Dec_Indication p = do {
     (n, h, v) \<leftarrow> dec_indication (Some p) (length p) (Some 0) (replicate (length p) 0) (length p);
     Some (if length p < 3 \<or> hd p \<noteq> ATT_OP_HANDLE_IND then None
           else map_option (\<lambda>h. Indication h (take (unat n) v)) h) }"

text \<open>The decoder for a PDU.\<close>

fun decoder_of :: "att_pdu \<Rightarrow> att_decoder option" where
  "decoder_of (Error_Rsp _ _ _) = None"
| "decoder_of (Mtu_Req _) = Some Dec_Mtu_Req"
| "decoder_of (Mtu_Rsp _) = Some Dec_Mtu_Resp"
| "decoder_of (Find_Info_Req _ _) = Some Dec_Find_Info_Req"
| "decoder_of (Find_Info_Rsp _ _) = Some Dec_Find_Info_Resp"
| "decoder_of (Find_By_Type_Req _ _ _ _) = Some Dec_Find_By_Type_Req"
| "decoder_of (Find_By_Type_Rsp _) = Some Dec_Find_By_Type_Resp"
| "decoder_of (Read_By_Type_Req _ _ _) = Some Dec_Read_By_Type_Req"
| "decoder_of (Read_By_Type_Rsp _) = Some Dec_Read_By_Type_Resp"
| "decoder_of (Read_Req _) = Some Dec_Read_Req"
| "decoder_of (Read_Rsp _) = Some Dec_Read_Resp"
| "decoder_of (Read_Blob_Req _ _) = Some Dec_Read_Blob_Req"
| "decoder_of (Read_Blob_Rsp _ _) = None"
| "decoder_of (Read_By_Group_Req _ _ _) = Some Dec_Read_By_Grp_Req"
| "decoder_of (Read_By_Group_Rsp _) = Some Dec_Read_By_Grp_Resp"
| "decoder_of (Write_Req _ _) = Some Dec_Write_Req"
| "decoder_of Write_Rsp = Some Dec_Write_Resp"
| "decoder_of (Write_Cmd _ _) = Some Dec_Write_Cmd"
| "decoder_of (Prep_Write_Req _ _ _) = Some Dec_Prep_Write_Req"
| "decoder_of (Prep_Write_Rsp _ _ _) = Some Dec_Prep_Write_Resp"
| "decoder_of (Exec_Write_Req _) = Some Dec_Exec_Write_Req"
| "decoder_of Exec_Write_Rsp = Some Dec_Exec_Write_Resp"
| "decoder_of (Notification _ _) = None"
| "decoder_of (Indication _ _) = Some Dec_Indication"
| "decoder_of Confirmation = None"

section \<open>The encoders write the wire format\<close>

lemma concat_elems_length: "elems_wf es \<Longrightarrow> length (concat es) = elem_width es * length es"
  unfolding elems_wf_def by (intro concat_fixed_width) auto

lemma put_elems_overlay:
  assumes "list_all (\<lambda>e. length e = l) es" "length pre = w" "w + l * (length es - i) \<le> len"
    "len \<le> length buf" "w + l * (length es - i) < 2 ^ width" "i \<le> length es"
  shows "put_elems width \<lparr>num = length es, elem_len = n, elems = es\<rparr> l len i w w (overlay pre buf) =
    Some (w + l * (length es - i), overlay (pre @ concat (drop i es)) buf)"
  using assms
proof (induction "length es - i" arbitrary: i w pre)
  case 0
  then show ?case by (simp add: put_elems.simps)
next
  case (Suc k)
  then have i: "i < length es" "k = length es - Suc i" by simp_all
  define e where "e = es ! i"
  have e: "length e = l" using Suc.prems(1) i by (simp add: list_all_length e_def)
  have s: "l * (length es - i) = l + l * (length es - Suc i)"
    using i by (metis Suc_diff_Suc mult_Suc_right)
  have "wrn (overlay pre buf) w e = Some (overlay (pre @ e) buf)"
    using Suc.prems e s by (intro wrn_overlay) auto
  moreover have "drop i es = e # drop (Suc i) es" using i by (simp add: Cons_nth_drop_Suc e_def)
  moreover have "put_elems width \<lparr>num = length es, elem_len = n, elems = es\<rparr> l len (Suc i) (w + l) (w + l)
      (overlay (pre @ e) buf) = Some (w + l + l * (length es - Suc i), overlay ((pre @ e) @ concat (drop (Suc i) es)) buf)"
    using Suc.prems e s i by (intro Suc.hyps(1)) auto
  ultimately show ?case
    using Suc.prems e s i by (simp add: put_elems.simps [of _ _ _ _ i] c_mem rdn_def flip: e_def)
qed

lemma length_range_bytes [simp]: "length (range_bytes r) = 4"
  by (simp add: range_bytes_def)

lemma length_concat_ranges [simp]: "length (concat (map range_bytes rs)) = 4 * length rs"
  by (induction rs) auto

lemma put_ranges_overlay:
  assumes "offset = length pre" "offset + 4 * length rs \<le> len" "len \<le> length buf"
    "offset + 4 * length rs < 65536"
  shows "put_ranges rs len offset (overlay pre buf) =
    Some (offset + 4 * length rs, overlay (pre @ concat (map range_bytes rs)) buf)"
  using assms
proof (induction rs arbitrary: offset pre)
  case (Cons r rs)
  have "put_ranges rs len (offset + 4) (overlay (pre @ range_bytes r) buf) =
      Some (offset + 4 + 4 * length rs, overlay ((pre @ range_bytes r) @ concat (map range_bytes rs)) buf)"
    using Cons.prems by (intro Cons.IH) auto
  then show ?case
    using Cons.prems by (simp add: att_put_u16_def c_fill range_bytes_def [of r])
qed simp

named_theorems att_enc \<open>the encoders, unfolded\<close>
lemmas [att_enc] = enc_error_resp_def enc_mtu_req_def enc_mtu_resp_def enc_find_info_req_def
  enc_find_info_resp_def enc_find_by_type_req_def enc_find_by_type_resp_def enc_read_by_type_req_def
  enc_read_by_type_resp_def enc_read_req_def enc_read_resp_def enc_read_blob_req_def
  enc_read_blob_resp_def enc_read_by_grp_req_def enc_read_by_grp_resp_def enc_write_req_def
  enc_write_resp_def enc_write_cmd_def enc_prep_write_req_def enc_prep_write_resp_def
  enc_exec_write_req_def enc_exec_write_resp_def enc_notification_def enc_indication_def
  enc_confirmation_def

lemmas att_put = att_put_u16_def att_put_uuid_def att_put_uuid16_def att_put_uuid128_def att_put_u128_def

lemma att_encode_list:
  assumes "elems_wf es" "2 + elem_width es * length es \<le> len" "len \<le> length buf"
    "2 + elem_width es * length es < 2 ^ width"
  shows "put_elems width (data_list es) (elem_width es) len 0 2 2 (overlay [a, b] buf) =
    Some (2 + elem_width es * length es, overlay (a # b # concat es) buf)"
  using put_elems_overlay [of "elem_width es" es "[a, b]" 2 0 len buf width "elem_width es"] assms
  by (simp add: data_list_def elems_wf_def)

lemma elems_wf_bound:
  assumes "elems_wf es"
  shows "elem_width es \<le> elem_width es * length es"
  using assms by (cases es) (auto simp: elems_wf_def)

lemma head_writes:
  assumes "2 \<le> length buf"
  shows "wr buf 0 a = Some (overlay [a] buf)" "wr (overlay [a] buf) (Suc 0) b = Some (overlay [a, b] buf)"
  using assms by (auto intro!: wr_front simp: wr_overlay)

lemma value_fits:
  fixes n :: nat
  shows "n + k \<le> len \<Longrightarrow> (if len - k < n then len - k else n) = n" "n + k \<le> len \<Longrightarrow> \<not> len - k < n"
  by auto

lemma att_wire_nonempty [simp]: "att_wire m \<noteq> []"
  by (cases m) auto

lemma att_encode_fits:
  assumes "att_wf m" "length (att_wire m) \<le> len" "len \<le> length buf" "length (att_wire m) < 65536"
  shows "att_encode m (Some buf) len = Some (of_nat (length (att_wire m)), Some (overlay (att_wire m) buf))"
proof -
  have "0 < length (att_wire m)" by simp
  then have ne: "buf \<noteq> []" using assms(2,3) by fastforce
  show ?thesis
proof (cases m)
  case (Find_Info_Rsp f es)
  then have e: "elems_wf es" and n: "length (concat es) = elem_width es * length es"
    using assms(1) concat_elems_length by auto
  have "length (concat es) + 2 \<le> len" using assms(2) Find_Info_Rsp by simp
  then have b: "2 + elem_width es \<le> len" "2 + elem_width es * length es \<le> len" "2 \<le> length buf"
    using elems_wf_bound [OF e] n assms(3) by linarith+
  have l: "elem_len (data_list es) = elem_width es" by (simp add: data_list_def)
  show ?thesis
    using assms(2-) Find_Info_Rsp e n b
    by (simp add: att_enc head_writes [OF b(3)] att_encode_list l Let_def)
next
  case (Read_By_Type_Rsp es)
  then have e: "elems_wf es" and n: "length (concat es) = elem_width es * length es"
    using assms(1) concat_elems_length by auto
  have "length (concat es) + 2 \<le> len" using assms(2) Read_By_Type_Rsp by simp
  then have b: "2 + elem_width es \<le> len" "2 + elem_width es * length es \<le> len" "2 \<le> length buf"
    using elems_wf_bound [OF e] n assms(3) by linarith+
  have l: "min (len - 2) (elem_len (data_list es)) = elem_width es"
    using b by (simp add: data_list_def)
  show ?thesis
    using assms(2-) Read_By_Type_Rsp e n b
    by (simp add: att_enc head_writes [OF b(3)] att_encode_list l Let_def)
next
  case (Read_By_Group_Rsp es)
  then have e: "elems_wf es" and n: "length (concat es) = elem_width es * length es"
    using assms(1) concat_elems_length by auto
  have "length (concat es) + 2 \<le> len" using assms(2) Read_By_Group_Rsp by simp
  then have b: "2 + elem_width es \<le> len" "2 + elem_width es * length es \<le> len" "2 \<le> length buf"
    using elems_wf_bound [OF e] n assms(3) by linarith+
  have l: "elem_len (data_list es) = elem_width es" by (simp add: data_list_def)
  show ?thesis
    using assms(2-) Read_By_Group_Rsp e n b
    by (simp add: att_enc head_writes [OF b(3)] att_encode_list l Let_def)
next
  case (Find_By_Type_Rsp rs)
  then have "4 * length rs + 1 \<le> len" using assms(2) by simp
  moreover have "4 \<le> 4 * length rs" using assms(1) Find_By_Type_Rsp by (cases rs) auto
  ultimately have b: "5 \<le> len" "0 < length buf" using assms(3) by linarith+
  show ?thesis
    using assms b Find_By_Type_Rsp by (simp add: att_enc wr_front [OF b(2)] put_ranges_overlay)
next
  case (Read_By_Type_Req s e u)
  then show ?thesis using assms ne by (cases u) (simp_all add: att_enc att_put c_fill rdn_Some)
next
  case (Read_By_Group_Req s e u)
  then show ?thesis using assms ne by (cases u) (simp_all add: att_enc att_put c_fill rdn_Some)
qed (use assms ne in \<open>simp_all add: att_enc att_put c_fill rdn_Some Let_def value_fits\<close>)
qed

section \<open>The decoders read the wire format\<close>

named_theorems att_dec \<open>the decoders, unfolded\<close>
lemmas [att_dec] = dec_mtu_req_def dec_mtu_resp_def dec_find_info_req_def dec_find_info_resp_def
  dec_find_by_type_req_def dec_find_by_type_resp_def dec_read_by_type_req_def
  dec_read_by_type_resp_def dec_read_req_def dec_read_resp_def dec_read_blob_req_def
  dec_read_by_grp_req_def dec_read_by_grp_resp_def dec_write_req_def dec_write_resp_def
  dec_write_cmd_def dec_prep_write_req_def dec_prep_write_resp_def dec_exec_write_req_def
  dec_exec_write_resp_def dec_indication_def

lemmas att_get = att_get_u16_def att_get_uuid16_def att_get_uuid128_def att_get_u128_def
  bt_uuid16_create_def bt_uuid128_create_def of_le16_bytes

lemma get_elems_concat:
  assumes "list_all (\<lambda>e. length e = l) es" "ptr = length pre"
  shows "get_elems (pre @ concat es) ptr l (length es) = Some es"
  using assms
proof (induction es arbitrary: ptr pre)
  case (Cons e es)
  have "get_elems ((pre @ e) @ concat es) (ptr + l) l (length es) = Some es"
    using Cons.prems by (intro Cons.IH) auto
  then show ?case using Cons.prems by (simp add: rdn_def)
qed simp

lemma dec_data_list_concat:
  assumes "elems_wf es" "length (concat es) < 65536" "len = 2 + length (concat es)"
  shows "dec_data_list (a # b # concat es) len (elem_width es) =
    Some (Some (data_list es))"
proof -
  have w: "0 < elem_width es" "elem_width es < 256" "list_all (\<lambda>e. length e = elem_width es) es"
    using assms(1) by (auto simp: elems_wf_def)
  have n: "length (concat es) = elem_width es * length es" by (rule concat_elems_length [OF assms(1)])
  have "length es \<le> elem_width es * length es" using w(1) by simp
  then have "length es < 65536" using assms(2) n by linarith
  moreover have "get_elems ([a, b] @ concat es) 2 (elem_width es) (length es) = Some es"
    by (rule get_elems_concat [OF w(3)]) simp
  ultimately show ?thesis
    using w assms(3) n by (simp add: dec_data_list_def att_data_list_alloc_def data_list_def Let_def)
qed

lemma get_ranges_concat:
  assumes "offset = length pre" "len = offset + 4 * length rs"
  shows "get_ranges (pre @ concat (map range_bytes rs) @ suf) len offset = Some rs"
  using assms
proof (induction rs arbitrary: offset pre)
  case Nil
  then show ?case by (simp add: get_ranges.simps)
next
  case (Cons r rs)
  have "get_ranges ((pre @ range_bytes r) @ concat (map range_bytes rs) @ suf) len (offset + 4) = Some rs"
    using Cons.prems by (intro Cons.IH) auto
  then show ?case
    using Cons.prems
    by (simp add: get_ranges.simps [of _ _ "length pre"] att_get_u16_def rd_def nth_append
        range_bytes_def [of r] le16_def of_le16_bytes add.assoc)
qed

lemma result_not_0:
  assumes "k + n < 65536" "0 < k"
  shows "(of_nat k + of_nat n :: u16) \<noteq> 0"
proof -
  have "unat (of_nat (k + n) :: u16) \<noteq> 0" using assms by (subst unat_of_nat16) auto
  then show ?thesis by (metis of_nat_add unat_0)
qed

lemmas results_not_0 = result_not_0 [of 7, simplified] result_not_0 [of 3, simplified]
  result_not_0 [of 5, simplified]

lemma ssize_small: "n < 65536 \<Longrightarrow> ssize n = int n"
  by (simp add: ssize_def)

lemma att_decode_wire:
  assumes "att_wf m" "decoder_of m = Some d" "d \<noteq> Dec_Prep_Write_Resp" "length (att_wire m) < 65536"
  shows "att_decode d (att_wire m) = Some (Some m)"
proof -
  have d: "d = the (decoder_of m)" using assms(2) by simp
  have "att_decode (the (decoder_of m)) (att_wire m) = Some (Some m)"
proof (cases m)
  case (Find_Info_Rsp f es)
  then have e: "elems_wf es" "length (concat es) < 65536"
    and f: "f = 1 \<and> elem_width es = 4 \<or> f = 2 \<and> elem_width es = 18"
    using assms by auto
  have "dec_data_list (5 # f # concat es) (length (5 # f # concat es)) (elem_width es) = Some (Some (data_list es))"
    by (rule dec_data_list_concat [OF e]) simp
  moreover have "elems (data_list es) = es" by (simp add: data_list_def)
  ultimately show ?thesis
    using f Find_Info_Rsp by (auto simp: att_dec rd_def)
next
  case (Read_By_Type_Rsp es)
  then have e: "elems_wf es" "length (concat es) < 65536" using assms by auto
  then have "unat (of_nat (elem_width es) :: u8) = elem_width es" by (simp add: elems_wf_def)
  moreover have "dec_data_list (9 # b # concat es) (length (9 # b # concat es)) (elem_width es) =
      Some (Some (data_list es))" for b
    by (rule dec_data_list_concat [OF e]) simp
  moreover have "elems (data_list es) = es" by (simp add: data_list_def)
  ultimately show ?thesis
    using Read_By_Type_Rsp by (simp add: att_dec rd_def)
next
  case (Read_By_Group_Rsp es)
  then have e: "elems_wf es" "length (concat es) < 65536" using assms by auto
  then have "unat (of_nat (elem_width es) :: u8) = elem_width es" by (simp add: elems_wf_def)
  moreover have "dec_data_list (17 # b # concat es) (length (17 # b # concat es)) (elem_width es) =
      Some (Some (data_list es))" for b
    by (rule dec_data_list_concat [OF e]) simp
  moreover have "elems (data_list es) = es" by (simp add: data_list_def)
  ultimately show ?thesis
    using Read_By_Group_Rsp by (simp add: att_dec rd_def)
next
  case (Find_By_Type_Rsp rs)
  have r: "rs \<noteq> []" using Find_By_Type_Rsp assms(1) by simp
  then have "\<not> Suc (4 * length rs) < 5" by (cases rs) auto
  moreover have "get_ranges ([7] @ concat (map range_bytes rs) @ []) (Suc (4 * length rs)) 1 = Some rs"
    by (rule get_ranges_concat) simp_all
  ultimately show ?thesis
    using r Find_By_Type_Rsp by (simp add: att_dec rd_def)
next
  case (Read_By_Type_Req s e u)
  then show ?thesis using assms
    by (cases u) (simp_all add: att_dec att_get rd_def rdn_def le16_def)
next
  case (Read_By_Group_Req s e u)
  then show ?thesis using assms
    by (cases u) (simp_all add: att_dec att_get rd_def rdn_def le16_def)
qed (use assms in \<open>simp_all add: att_dec att_get rd_def rdn_def wrn_def le16_def Let_def
    results_not_0 ssize_small\<close>)
  then show ?thesis by (simp only: d)
qed

section \<open>The contract of a PDU codec\<close>

text \<open>What a client needs: for the messages it may send, the encoder writes a fixed image and
  reports its length, and the decoder for its kind recovers the message from the image; the image tells the kind.\<close>

locale pdu_codec =
  fixes encode :: "'m \<Rightarrow> ptr \<Rightarrow> nat \<Rightarrow> (u16 \<times> ptr) option"
    and image :: "'m \<Rightarrow> bytes" and kind :: "'m \<Rightarrow> 'k" and decode :: "'k \<Rightarrow> bytes \<Rightarrow> 'm option option"
    and sendable :: "'m \<Rightarrow> bool"
  assumes image_short: "sendable m \<Longrightarrow> length (image m) < 65536"
    and encode_image: "sendable m \<Longrightarrow> length (image m) \<le> len \<Longrightarrow> len \<le> length buf \<Longrightarrow>
      encode m (Some buf) len = Some (of_nat (length (image m)), Some (overlay (image m) buf))"
    and decode_image: "sendable m \<Longrightarrow> decode (kind m) (image m) = Some (Some m)"
    and image_kind: "sendable m \<Longrightarrow> sendable m' \<Longrightarrow> image m = image m' \<Longrightarrow> kind m = kind m'"
begin

lemma transfer:
  assumes "sendable m" "length (image m) \<le> len" "len \<le> length buf"
  shows "\<exists>n buf'. encode m (Some buf) len = Some (n, Some buf') \<and> unat n \<le> len \<and>
    decode (kind m) (take (unat n) buf') = Some (Some m) \<and> drop (unat n) buf' = drop (unat n) buf"
  using encode_image [OF assms] decode_image [OF assms(1)] image_short [OF assms(1)] assms(2,3)
  by (simp add: drop_overlay)

lemma image_injective:
  assumes "sendable m" "sendable m'" "image m = image m'"
  shows "m = m'"
proof -
  have "Some (Some m) = decode (kind m) (image m)" by (simp only: decode_image [OF assms(1)])
  also have "\<dots> = decode (kind m') (image m')" by (simp only: image_kind [OF assms] assms(3))
  also have "\<dots> = Some (Some m')" by (rule decode_image [OF assms(2)])
  finally show ?thesis by simp
qed

lemma sent_differ:
  assumes "sendable m" "sendable m'" "m \<noteq> m'"
    and "length (image m) \<le> len" "length (image m') \<le> len" "len \<le> length buf" "len \<le> length buf'"
    and "encode m (Some buf) len = Some (n, Some b)" "encode m' (Some buf') len = Some (n', Some b')"
  shows "take (unat n) b \<noteq> take (unat n') b'"
  using assms encode_image image_short image_injective by auto

end

text \<open>The decoder that is called, and the PDUs for which it works. The opcodes of the decoders tell them apart.\<close>

definition decoder_call :: "att_decoder option \<Rightarrow> bytes \<Rightarrow> att_pdu option option" where
  "decoder_call d p = (case d of None \<Rightarrow> Some None | Some d \<Rightarrow> att_decode d p)"

definition att_sendable :: "att_pdu \<Rightarrow> bool" where
  "att_sendable m \<longleftrightarrow> att_wf m \<and> decoder_of m \<notin> {None, Some Dec_Prep_Write_Resp} \<and> length (att_wire m) < 65536"

fun own_opcode :: "att_decoder \<Rightarrow> u8" where
  "own_opcode Dec_Mtu_Req = ATT_OP_MTU_REQ"
| "own_opcode Dec_Mtu_Resp = ATT_OP_MTU_RESP"
| "own_opcode Dec_Find_Info_Req = ATT_OP_FIND_INFO_REQ"
| "own_opcode Dec_Find_Info_Resp = ATT_OP_FIND_INFO_RESP"
| "own_opcode Dec_Find_By_Type_Req = ATT_OP_FIND_BY_TYPE_REQ"
| "own_opcode Dec_Find_By_Type_Resp = ATT_OP_FIND_BY_TYPE_RESP"
| "own_opcode Dec_Read_By_Type_Req = ATT_OP_READ_BY_TYPE_REQ"
| "own_opcode Dec_Read_By_Type_Resp = ATT_OP_READ_BY_TYPE_RESP"
| "own_opcode Dec_Read_Req = ATT_OP_READ_REQ"
| "own_opcode Dec_Read_Resp = ATT_OP_READ_RESP"
| "own_opcode Dec_Read_Blob_Req = ATT_OP_READ_BLOB_REQ"
| "own_opcode Dec_Read_By_Grp_Req = ATT_OP_READ_BY_GROUP_REQ"
| "own_opcode Dec_Read_By_Grp_Resp = ATT_OP_READ_BY_GROUP_RESP"
| "own_opcode Dec_Write_Req = ATT_OP_WRITE_REQ"
| "own_opcode Dec_Write_Resp = ATT_OP_WRITE_RESP"
| "own_opcode Dec_Write_Cmd = ATT_OP_WRITE_CMD"
| "own_opcode Dec_Prep_Write_Req = ATT_OP_PREP_WRITE_REQ"
| "own_opcode Dec_Prep_Write_Resp = ATT_OP_PREP_WRITE_RESP"
| "own_opcode Dec_Exec_Write_Req = ATT_OP_EXEC_WRITE_REQ"
| "own_opcode Dec_Exec_Write_Resp = ATT_OP_EXEC_WRITE_RESP"
| "own_opcode Dec_Indication = ATT_OP_HANDLE_IND"

definition att_decoders :: "att_decoder list" where
  "att_decoders = [Dec_Mtu_Req, Dec_Mtu_Resp, Dec_Find_Info_Req, Dec_Find_Info_Resp, Dec_Find_By_Type_Req,
     Dec_Find_By_Type_Resp, Dec_Read_By_Type_Req, Dec_Read_By_Type_Resp, Dec_Read_Req, Dec_Read_Resp,
     Dec_Read_Blob_Req, Dec_Read_By_Grp_Req, Dec_Read_By_Grp_Resp, Dec_Write_Req, Dec_Write_Resp, Dec_Write_Cmd,
     Dec_Prep_Write_Req, Dec_Prep_Write_Resp, Dec_Exec_Write_Req, Dec_Exec_Write_Resp, Dec_Indication]"

lemma att_decoders_all: "d \<in> set att_decoders"
  by (cases d) (simp_all only: att_decoders_def list.set_intros list.set insert_iff simp_thms)

lemma own_opcodes_distinct: "distinct (map own_opcode att_decoders)"
  by (simp add: att_decoders_def)

lemma own_opcode_inject: "own_opcode d = own_opcode d' \<Longrightarrow> d = d'"
  using own_opcodes_distinct att_decoders_all by (auto simp: distinct_map dest: inj_onD)

lemma hd_att_wire: "decoder_of m = Some d \<Longrightarrow> hd (att_wire m) = own_opcode d"
  by (cases m) auto

interpretation att: pdu_codec att_encode att_wire decoder_of decoder_call att_sendable
proof
  show "decoder_call (decoder_of m) (att_wire m) = Some (Some m)" if "att_sendable m" for m
    using that att_decode_wire by (auto simp: att_sendable_def decoder_call_def)
  show "decoder_of m = decoder_of m'" if same: "att_sendable m" "att_sendable m'" "att_wire m = att_wire m'" for m m'
  proof -
    obtain d d' where d: "decoder_of m = Some d" "decoder_of m' = Some d'"
      using same(1,2) by (auto simp: att_sendable_def)
    then have "own_opcode d = own_opcode d'" using hd_att_wire [of m d] hd_att_wire [of m' d'] same(3) by simp
    then show ?thesis using d own_opcode_inject [of d d'] by simp
  qed
qed (simp_all add: att_sendable_def att_encode_fits)

lemma prep_write_rsp_refused: "att_decode Dec_Prep_Write_Resp (att_wire (Prep_Write_Rsp h off v)) = Some None"
  by (simp add: dec_prep_write_resp_def rd_def)

lemma decoder_prep_write_rsp: "decoder_of m = Some Dec_Prep_Write_Resp \<longleftrightarrow> (\<exists>h off v. m = Prep_Write_Rsp h off v)"
  by (cases m) auto

text \<open>C13: every kind of PDU for which \<open>att.c\<close> has an encoder and a decoder survives the exchange, with one exception. The
  encoder, given a buffer with room for the PDU, reports its length and leaves the rest of the buffer
  alone, and the decoder applied to the bytes reported returns the same PDU; only prepare write responses are refused by
  their decoder, which tests for the opcode of the request.\<close>

theorem att_roundtrip:
  assumes "att_wf m" "decoder_of m = Some d" "length (att_wire m) < 65536"
    and "length (att_wire m) \<le> len" "len \<le> length buf"
  shows "\<exists>n buf'. att_encode m (Some buf) len = Some (n, Some buf') \<and> unat n \<le> len \<and>
    att_decode d (take (unat n) buf') = Some (if d = Dec_Prep_Write_Resp then None else Some m) \<and>
    drop (unat n) buf' = drop (unat n) buf"
proof (cases "d = Dec_Prep_Write_Resp")
  case True
  then obtain h off v where "m = Prep_Write_Rsp h off v"
    using assms(2) decoder_prep_write_rsp by auto
  then show ?thesis
    using att_encode_fits [OF assms(1,4,5,3)] assms(3-5) True prep_write_rsp_refused [of h off v]
    by (simp add: drop_overlay del: att_wire.simps att_decode.simps)
next
  case False
  then show ?thesis
    using att.transfer [of m len buf] assms by (simp add: att_sendable_def decoder_call_def)
qed

text \<open>C39: the encoders of all PDUs write exactly the format of the attribute protocol: opcode,
  little-endian handles, offsets and UUIDs, and the value or the list of attribute data.\<close>

theorem att_encode_format:
  assumes "att_wf m" "length (att_wire m) \<le> len" "len \<le> length buf" "length (att_wire m) < 65536"
  shows "\<exists>n buf'. att_encode m (Some buf) len = Some (n, Some buf') \<and> take (unat n) buf' = att_wire m"
  using att_encode_fits [OF assms] assms by simp

section \<open>Memory safety of the encoders\<close>

lemma put_elems_safe:
  assumes "list_all (\<lambda>e. l \<le> length e) es" "length pre = w" "w \<le> len" "len \<le> length buf"
    "len < 2 ^ width"
  shows "\<exists>w' bs. put_elems width \<lparr>num = length es, elem_len = n, elems = es\<rparr> l len i w w (overlay pre buf) =
    Some (w', overlay bs buf) \<and> length bs = w' \<and> w' \<le> len"
  using assms(2,3)
proof (induction "length es - i" arbitrary: i w pre)
  case 0
  then show ?case by (auto simp: put_elems.simps)
next
  case (Suc k)
  then have i: "i < length es" "k = length es - Suc i" by simp_all
  show ?case
  proof (cases "w + l \<le> len")
    case False
    then show ?thesis using Suc.prems by (auto simp: put_elems.simps)
  next
    case True
    define d where "d = take l (es ! i)"
    have d: "length d = l" using assms(1) i by (simp add: d_def list_all_length)
    have "wrn (overlay pre buf) w d = Some (overlay (pre @ d) buf)"
      using Suc.prems True d assms(4) by (intro wrn_overlay) auto
    moreover have "rdn (es ! i) 0 l = Some d"
      using assms(1) i by (simp add: d_def list_all_length rdn_def)
    moreover have "\<exists>w' bs. put_elems width \<lparr>num = length es, elem_len = n, elems = es\<rparr> l len (Suc i)
        (w + l) (w + l) (overlay (pre @ d) buf) = Some (w', overlay bs buf) \<and> length bs = w' \<and> w' \<le> len"
      using Suc.prems True d i by (intro Suc.hyps(1)) auto
    ultimately show ?thesis
      using True i assms(5) by (simp add: put_elems.simps [of _ _ _ _ i] c_mem)
  qed
qed

lemma put_ranges_safe:
  assumes "length pre = w" "w \<le> len" "len \<le> length buf" "len < 65536"
  shows "\<exists>w' bs. put_ranges rs len w (overlay pre buf) = Some (w', overlay bs buf) \<and> length bs = w' \<and> w' \<le> len"
  using assms(1,2)
proof (induction rs arbitrary: pre w)
  case Nil
  then show ?case by auto
next
  case (Cons r rs)
  show ?case
  proof (cases "w + 4 \<le> len")
    case True
    have "\<exists>w' bs. put_ranges rs len (w + 4) (overlay (pre @ range_bytes r) buf) =
        Some (w', overlay bs buf) \<and> length bs = w' \<and> w' \<le> len"
      using Cons.prems True by (intro Cons.IH) auto
    then show ?thesis
      using Cons.prems True assms(3,4) by (simp add: att_put_u16_def c_fill range_bytes_def)
  qed (use Cons.prems in auto)
qed

text \<open>An encoder call that stays inside the length it was given.\<close>

definition stays_inside :: "(u16 \<times> ptr) option \<Rightarrow> bytes \<Rightarrow> nat \<Rightarrow> bool" where
  "stays_inside r buf len \<longleftrightarrow> (case r of
     Some (n, Some buf') \<Rightarrow> unat n \<le> len \<and> length buf' = length buf \<and> drop len buf' = drop len buf
   | _ \<Rightarrow> False)"

lemma stays_overlay:
  "length bs \<le> len \<Longrightarrow> len \<le> length buf \<Longrightarrow> unat n \<le> len \<Longrightarrow>
   stays_inside (Some (n, Some (overlay bs buf))) buf len"
  by (simp add: stays_inside_def drop_overlay)

lemma stays_refused [simp]: "stays_inside (Some (0, Some buf)) buf len"
  by (simp add: stays_inside_def)

lemma list_encoder_stays:
  assumes "elems_wf es" "2 \<le> len" "len \<le> length buf" "len < 65536" "16 \<le> width" "l \<le> elem_width es"
  shows "stays_inside (put_elems width (data_list es) l len 0 2 2 (overlay [a, b] buf) \<bind>
    (\<lambda>(w, p). Some (of_nat w, Some p))) buf len"
proof -
  have "(2::nat) ^ 16 \<le> 2 ^ width" using assms(5) by (intro power_increasing) auto
  then have "len < 2 ^ width" using assms(4) by simp
  moreover have "list_all (\<lambda>e. l \<le> length e) es" using assms(1,6) by (auto simp: elems_wf_def list_all_iff)
  ultimately obtain w bs where "put_elems width (data_list es) l len 0 2 2 (overlay [a, b] buf) =
      Some (w, overlay bs buf)" "length bs = w" "w \<le> len"
    using put_elems_safe [of l es "[a, b]" 2 len buf width "elem_width es" 0] assms(2,3)
    by (auto simp: data_list_def)
  then show ?thesis using assms(3,4) by (simp add: stays_overlay)
qed

lemma value_encoder_stays:
  assumes "length bs \<le> len" "len \<le> length buf" "len < 65536" "n = of_nat (length bs)"
  shows "stays_inside (Some (n, Some (overlay bs buf))) buf len"
  using assms by (simp add: stays_overlay)

lemma unat_result:
  assumes "k + n < 65536"
  shows "unat (of_nat k + of_nat n :: u16) = k + n"
  using unat_of_nat16 [OF assms] by simp

lemma value_stays:
  assumes "length bs = k + n" "k + n \<le> len" "len \<le> length buf" "len < 65536"
  shows "stays_inside (Some (of_nat k + of_nat n, Some (overlay bs buf))) buf len"
  using assms unat_result [of k n] by (simp add: stays_overlay)

lemmas values_stay = value_stays [of _ 7, simplified] value_stays [of _ 3, simplified]
  value_stays [of _ 5, simplified] value_stays [of _ 1, simplified]
  value_stays [of _ 3, unfolded add.commute [of "of_nat 3 :: u16"], simplified]

lemma att_encode_safe:
  assumes "att_wf m" "length (att_wire m) < 2 ^ 64" "2 \<le> len" "len \<le> length buf" "len < 65536"
  shows "stays_inside (att_encode m (Some buf) len) buf len"
proof -
  have ne: "buf \<noteq> []" using assms(3,4) by fastforce
  have h: "2 \<le> length buf" using assms(3,4) by simp
  show ?thesis
  proof (cases m)
    case (Find_Info_Rsp f es)
    then show ?thesis
      using assms list_encoder_stays [of es len buf 64 "elem_width es"]
      by (simp add: att_enc head_writes [OF h]) (simp add: data_list_def)
  next
    case (Read_By_Type_Rsp es)
    then show ?thesis
      using assms list_encoder_stays [of es len buf 64 "min (len - 2) (elem_width es)"]
      by (simp add: att_enc head_writes [OF h] Let_def) (simp add: data_list_def)
  next
    case (Read_By_Group_Rsp es)
    then show ?thesis
      using assms list_encoder_stays [of es len buf 16 "elem_width es"]
      by (simp add: att_enc head_writes [OF h]) (simp add: data_list_def)
  next
    case (Find_By_Type_Rsp rs)
    obtain w bs where "put_ranges rs len 1 (overlay [ATT_OP_FIND_BY_TYPE_RESP] buf) = Some (w, overlay bs buf)"
      "length bs = w" "w \<le> len"
      using put_ranges_safe [of "[ATT_OP_FIND_BY_TYPE_RESP]" 1 len buf rs] assms by auto
    then show ?thesis
      using assms ne Find_By_Type_Rsp by (simp add: att_enc c_fill stays_overlay)
  next
    case (Read_By_Type_Req s e u)
    then show ?thesis using assms ne
      by (cases u) (simp_all add: att_enc att_put c_fill rdn_Some stays_overlay)
  next
    case (Read_By_Group_Req s e u)
    then show ?thesis using assms ne
      by (cases u) (simp_all add: att_enc att_put c_fill rdn_Some stays_overlay)
  next
    case (Read_Blob_Rsp v off)
    then show ?thesis using assms ne
      by (simp add: att_enc att_put c_fill rdn_Some stays_overlay Let_def values_stay del: of_nat_diff)
  qed (use assms ne in \<open>simp_all add: att_enc att_put c_fill rdn_Some stays_overlay Let_def values_stay\<close>)
qed

text \<open>The room that the encoders need which do not check the length they are given.\<close>

fun room :: "att_pdu \<Rightarrow> nat" where
  "room (Read_By_Type_Rsp _) = 2"
| "room (Read_Rsp _) = 1"
| "room (Read_Blob_Rsp _ _) = 1"
| "room Write_Rsp = 1"
| "room Exec_Write_Rsp = 1"
| "room _ = 0"

lemma att_encode_tiny:
  assumes "att_wf m" "length (att_wire m) < 2 ^ 64" "room m \<le> len" "len \<le> length buf" "len < 2"
  shows "stays_inside (att_encode m (Some buf) len) buf len"
proof (cases m)
  case (Read_By_Type_Req s e u)
  then show ?thesis using assms by (cases u) (simp_all add: att_enc)
next
  case (Read_By_Group_Req s e u)
  then show ?thesis using assms by (cases u) (simp_all add: att_enc)
next
  case (Read_Blob_Rsp v off)
  then have "len = 1" using assms by simp
  then have "len = 1" "buf \<noteq> []" using assms(4) by auto
  then show ?thesis using Read_Blob_Rsp assms by (simp add: att_enc c_fill rdn_Some Let_def stays_overlay)
next
  case (Read_Rsp v)
  then have "len = 1" using assms by simp
  then have "len = 1" "buf \<noteq> []" using assms(4) by auto
  then show ?thesis using Read_Rsp assms by (simp add: att_enc c_fill rdn_Some Let_def stays_overlay)
next
  case Write_Rsp
  then have "len = 1" using assms by simp
  then have "len = 1" "buf \<noteq> []" using assms(4) by auto
  then show ?thesis using Write_Rsp by (simp add: att_enc c_fill stays_overlay Suc_le_eq)
next
  case Exec_Write_Rsp
  then have "len = 1" using assms by simp
  then have "len = 1" "buf \<noteq> []" using assms(4) by auto
  then show ?thesis using Exec_Write_Rsp by (simp add: att_enc c_fill stays_overlay Suc_le_eq)
next
  case Confirmation
  then show ?thesis using assms(4)
    by (cases "len = 0"; cases "buf = []") (simp_all add: att_enc c_fill stays_overlay)
qed (use assms in \<open>auto simp: att_enc data_list_def Let_def\<close>)

text \<open>C26: given a PDU within its format and a length of up to 65535 bytes of a buffer, no encoder faults or touches memory behind
  the \<open>len\<close> bytes it was given, and the length it reports is at most \<open>len\<close>, however small the buffer and however large the value
  or the list to be sent is. Within its format means: a UUID of 16 or 128 bits, a nonempty list of data of one width, as the
  information format says, a flag of 0 or 1, and an offset of a blob response inside its value. Five encoders do not check the length
  and need \<open>room\<close> for one or two bytes.\<close>

theorem encoders_stay_inside:
  assumes "att_wf m" "length (att_wire m) < 2 ^ 64" "room m \<le> len" "len \<le> length buf" "len < 65536"
  shows "\<exists>n buf'. att_encode m (Some buf) len = Some (n, Some buf') \<and> unat n \<le> len \<and>
    length buf' = length buf \<and> drop len buf' = drop len buf"
proof -
  have "stays_inside (att_encode m (Some buf) len) buf len"
    using att_encode_safe [OF assms(1,2) _ assms(4,5)] att_encode_tiny [OF assms(1-4)] by (cases "len < 2") simp_all
  then show ?thesis
    unfolding stays_inside_def by (auto split: option.splits)
qed

text \<open>The offset of a blob response is not checked: behind the value, its length wraps around and the encoder reads outside of the value.\<close>

lemma blob_offset_unchecked:
  assumes "length v < unat off" "2 \<le> len" "len \<le> length buf" "len < 65536"
  shows "enc_read_blob_resp v (length v) off (Some buf) len = None"
  using assms by (auto simp: enc_read_blob_resp_def sz_sub_def rdn_def Let_def bind_eq_None_conv)

lemma rdn_take: "n \<le> length v \<Longrightarrow> rdn (take n v) 0 n = rdn v 0 n"
  by (simp add: rdn_def)

text \<open>C40: the three encoders that write a value send exactly the prefix of it that fits: for a write request, a write command or a
  prepared write of any value, the buffer gets the PDU of the truncated value, byte for byte, its length is reported, and the
  rest of the buffer stays; a buffer without room for the handle (and the offset) is refused and left alone.\<close>

theorem write_encoders_truncate:
  assumes "len \<le> length buf" "len < 65536"
  shows "att_encode (Write_Req h v) (Some buf) len =
      (if len < 3 then Some (0, Some buf)
       else let p = [ATT_OP_WRITE_REQ] @ le16 h @ take (len - 3) v in Some (of_nat (length p), Some (p @ drop (length p) buf))) \<and>
    att_encode (Write_Cmd h v) (Some buf) len =
      (if len < 3 then Some (0, Some buf)
       else let p = [ATT_OP_WRITE_CMD] @ le16 h @ take (len - 3) v in Some (of_nat (length p), Some (p @ drop (length p) buf))) \<and>
    att_encode (Prep_Write_Req h off v) (Some buf) len =
      (if len < 5 then Some (0, Some buf)
       else let p = [ATT_OP_PREP_WRITE_REQ] @ le16 h @ le16 off @ take (len - 5) v in Some (of_nat (length p), Some (p @ drop (length p) buf)))"
proof -
  have cut: "att_encode (Write_Req h v) (Some buf) len = att_encode (Write_Req h (take (len - 3) v)) (Some buf) len"
    "att_encode (Write_Cmd h v) (Some buf) len = att_encode (Write_Cmd h (take (len - 3) v)) (Some buf) len" if "3 \<le> len"
    using that by (auto simp: att_enc rdn_take Let_def min_def not_less cong: if_cong)
  have cut5: "att_encode (Prep_Write_Req h off v) (Some buf) len = att_encode (Prep_Write_Req h off (take (len - 5) v)) (Some buf) len"
    if "5 \<le> len"
    using that by (auto simp: att_enc rdn_take Let_def min_def not_less cong: if_cong)
  have fits: "att_encode m (Some buf) len = Some (of_nat (length (att_wire m)), Some (att_wire m @ drop (length (att_wire m)) buf))"
    if "att_wf m" "length (att_wire m) \<le> len" for m
    using att_encode_fits [OF that assms(1)] that(2) assms(2) by (simp add: overlay_def)
  have "att_encode (Write_Req h v) (Some buf) len = Some (0, Some buf)" "att_encode (Write_Cmd h v) (Some buf) len = Some (0, Some buf)"
    if "len < 3"
    using that by (simp_all add: att_enc)
  moreover have "att_encode (Prep_Write_Req h off v) (Some buf) len = Some (0, Some buf)" if "len < 5"
    using that by (simp add: att_enc)
  moreover have "3 \<le> len \<Longrightarrow> length (att_wire (Write_Req h (take (len - 3) v))) \<le> len"
    "3 \<le> len \<Longrightarrow> length (att_wire (Write_Cmd h (take (len - 3) v))) \<le> len"
    "5 \<le> len \<Longrightarrow> length (att_wire (Prep_Write_Req h off (take (len - 5) v))) \<le> len"
    by simp_all
  ultimately show ?thesis
    using cut cut5 fits [of "Write_Req h (take (len - 3) v)"] fits [of "Write_Cmd h (take (len - 3) v)"]
      fits [of "Prep_Write_Req h off (take (len - 5) v)"]
    by (auto simp: Let_def not_less simp del: att_encode.simps)
qed

section \<open>Faults of the decoders\<close>

lemma get_elems_total:
  "ptr + l * k \<le> length p \<Longrightarrow> \<exists>es. get_elems p ptr l k = Some es"
proof (induction k arbitrary: ptr)
  case (Suc k)
  then obtain es where "get_elems p (ptr + l) l k = Some es" by fastforce
  then show ?case using Suc.prems by (simp add: rdn_def)
qed simp

lemma dec_data_list_total:
  assumes "length p = len" "2 \<le> len" "0 < l"
  shows "\<exists>r. dec_data_list p len l = Some r"
proof -
  let ?n = "(len - 2) div l mod 65536"
  have "l * ?n \<le> l * ((len - 2) div l)" by simp
  also have "\<dots> \<le> len - 2" by simp
  finally have "2 + l * ?n \<le> length p" using assms by simp
  then obtain es where "get_elems p 2 l ?n = Some es" using get_elems_total by blast
  then show ?thesis using assms
    by (auto simp: dec_data_list_def Let_def att_data_list_alloc_def)
qed

lemma dec_data_list_0 [simp]: "dec_data_list p len 0 = None"
  by (simp add: dec_data_list_def)

lemma get_ranges_total:
  "len \<le> length p \<Longrightarrow> \<exists>rs. get_ranges p len off = Some rs"
proof (induction "len - off" arbitrary: off rule: less_induct)
  case less
  show ?case
  proof (cases "off + 4 \<le> len")
    case True
    then obtain rs where "get_ranges p len (off + 4) = Some rs" using less by fastforce
    then show ?thesis using True less.prems
      by (simp add: get_ranges.simps [of _ _ off] att_get_u16_def c_mem)
  qed (simp add: get_ranges.simps)
qed

text \<open>Seven decoders read the opcode before they check the length.\<close>

definition reads_first :: "att_decoder \<Rightarrow> bool" where
  "reads_first d \<longleftrightarrow> d \<in> {Dec_Find_Info_Resp, Dec_Read_By_Type_Resp, Dec_Read_Resp, Dec_Read_By_Grp_Req, Dec_Read_By_Grp_Resp,
     Dec_Write_Resp, Dec_Indication}"

definition decoder_faults :: "att_decoder \<Rightarrow> bytes \<Rightarrow> bool" where
  "decoder_faults d p \<longleftrightarrow> (case p of
     [] \<Rightarrow> reads_first d
   | op # r \<Rightarrow> op = own_opcode d \<and>
       (d \<in> {Dec_Read_By_Type_Resp, Dec_Read_By_Grp_Resp} \<and> (r = [] \<or> hd r = 0) \<or>
        d = Dec_Find_Info_Resp \<and> r = [] \<or>
        d \<in> {Dec_Read_By_Type_Req, Dec_Read_By_Grp_Req} \<and> 7 < length p \<and> length p < 21))"

text \<open>C36: the inputs that crash a decoder are exactly these, for each of the 21 decoders: the empty PDU for the seven that
  read the opcode before any length is checked; a list response without its width byte or with width 0 (a
  division by zero that a peer can provoke); an information response without its format byte;
  and a discovery request of 8 to 20 bytes (read as if it had a 128-bit UUID). Every other byte
  string, of any length and opcode, is decoded or refused. (The decoder has a place for each of its results, and a value
  buffer of the size of the PDU.)\<close>

theorem decoder_fault_inputs:
  "att_decode d p = None \<longleftrightarrow> decoder_faults d p"
proof (cases p)
  case Nil
  then show ?thesis
    by (cases d) (simp_all add: att_dec decoder_faults_def reads_first_def rd_def)
next
  case (Cons op r)
  show ?thesis
  proof (cases d)
    case Dec_Find_Info_Resp
    then show ?thesis
      using Cons dec_data_list_total [of p "length p" "Suc (Suc 0)"] dec_data_list_total [of p "length p" 4]
        dec_data_list_total [of p "length p" 18]
      by (cases r) (auto simp: att_dec decoder_faults_def rd_def)
  next
    case Dec_Find_By_Type_Resp
    then show ?thesis using Cons get_ranges_total [of "length p" p 1]
      by (auto simp: att_dec decoder_faults_def rd_def)
  next
    case Dec_Read_By_Type_Resp
    then show ?thesis using Cons dec_data_list_total [of p "length p" "unat (hd r)"]
      by (cases r; cases "hd r = 0") (auto simp: att_dec decoder_faults_def rd_def unat_gt_0)
  next
    case Dec_Read_By_Grp_Resp
    then show ?thesis using Cons dec_data_list_total [of p "length p" "unat (hd r)"]
      by (cases r; cases "hd r = 0") (auto simp: att_dec decoder_faults_def rd_def unat_gt_0)
  qed (use Cons in \<open>auto simp: att_dec att_get decoder_faults_def rd_def rdn_def wrn_def Let_def\<close>)
qed

text \<open>\<open>dec_prep_write_resp\<close> refuses every prepare write response and accepts prepare write
  requests instead: it tests for the wrong opcode.\<close>

theorem dec_prep_write_resp_wrong_opcode:
  "dec_prep_write_resp (Some (att_wire (Prep_Write_Rsp h off v))) (length (att_wire (Prep_Write_Rsp h off v)))
     (Some h0) (Some off0) (Some b) (Some n) = Some (0, Some h0, Some off0, Some b, Some n) \<and>
   dec_prep_write_resp (Some (att_wire (Prep_Write_Req h off []))) (length (att_wire (Prep_Write_Req h off [])))
     (Some h0) (Some off0) (Some b) (Some n) = Some (5, Some h, Some off, Some b, Some 0)"
  by (simp add: dec_prep_write_resp_def rd_def att_get_u16_def le16_def of_le16_bytes)

section \<open>Witnesses\<close>

theorem att_roundtrip_witness:
  "\<exists>n buf'. att_encode (Read_By_Group_Req 1 0xFFFF (BT_UUID16 0x2800)) (Some (replicate 23 0)) 23 =
     Some (n, Some buf') \<and> unat n \<le> 23 \<and>
     att_decode Dec_Read_By_Grp_Req (take (unat n) buf') = Some (Some (Read_By_Group_Req 1 0xFFFF (BT_UUID16 0x2800)))"
  using att_roundtrip [of "Read_By_Group_Req 1 0xFFFF (BT_UUID16 0x2800)" Dec_Read_By_Grp_Req 23 "replicate 23 0"]
  by (auto simp del: att_decode.simps att_encode.simps)

theorem att_encode_format_witness:
  "\<exists>n buf'. att_encode (Write_Cmd 0x0E [0x01, 0x16]) (Some (replicate 23 0)) 23 = Some (n, Some buf') \<and>
     take (unat n) buf' = [0x52, 0x0E, 0x00, 0x01, 0x16]"
  using att_encode_format [of "Write_Cmd 0x0E [0x01, 0x16]" 23 "replicate 23 0"] by (simp add: le16_def)

theorem encoders_stay_inside_witness:
  "\<exists>n buf'. att_encode (Read_Rsp (replicate 600 7)) (Some (replicate 30 0)) 23 = Some (n, Some buf') \<and>
     unat n \<le> 23 \<and> drop 23 buf' = replicate 7 0"
  using encoders_stay_inside [of "Read_Rsp (replicate 600 7)" 23 "replicate 30 0"] by auto

theorem write_encoders_truncate_witness:
  "att_encode (Write_Req 3 [1, 2, 3, 4]) (Some [9, 9, 9, 9, 9, 8, 7]) 5 = Some (5, Some [0x12, 3, 0, 1, 2, 8, 7])"
proof -
  have "take 2 [1 :: u8, 2, 3, 4] = [1, 2]" "drop 5 [9 :: u8, 9, 9, 9, 9, 8, 7] = [8, 7]" by simp_all
  then show ?thesis
    using write_encoders_truncate [of 5 "[9, 9, 9, 9, 9, 8, 7]" 3 "[1, 2, 3, 4]"]
    by (simp add: le16_def Let_def del: att_encode.simps)
qed

end
