(* ===== verification/Gattrib.thy ===== *)
theory Gattrib
  imports Att
begin

text \<open>
  The attribute channel of \<open>examples/vehicle-tool/gattrib.c\<close>: two queues of commands, the
  registered events, the watches on the connection and the handlers that GLib's main loop calls.

  The state is one record: the fields of \<open>struct _GAttrib\<close>, then what lies outside the struct
  (the static event counter, GLib's sources, whether allocation fails, the PDUs written to the
  connection) and the state of the client code. A callback with its \<open>user_data\<close> is a value of
  the type \<open>'c\<close>; calling one runs the parameter \<open>cl\<close>, the client, which may call back
  into this theory's operations and change the whole state. Loops that pop or walk a list across
  such calls are partial functions: \<open>None\<close> is a fault or a loop that never ends.
  A queue is \<open>None\<close> when its pointer is NULL; using the struct after \<open>attrib_destroy\<close> is a
  fault. The struct pointer itself is not NULL, so the checks for that have no counterpart.
\<close>

section \<open>State\<close>

abbreviation (input) GATT_TIMEOUT :: nat where "GATT_TIMEOUT \<equiv> 30"
abbreviation (input) GATTRIB_ALL_EVENTS :: u8 where "GATTRIB_ALL_EVENTS \<equiv> 0xFF"
abbreviation (input) GATTRIB_ALL_REQS :: u8 where "GATTRIB_ALL_REQS \<equiv> 0xFE"
abbreviation (input) GATTRIB_ALL_HANDLES :: u16 where "GATTRIB_ALL_HANDLES \<equiv> 0x0000"

record 'c command =
  cmd_id :: u32
  cmd_opcode :: u8
  cmd_pdu :: bytes
  cmd_len :: u16
  cmd_expected :: u8
  cmd_sent :: bool
  cmd_func :: "'c option"
  cmd_notify :: "'c option"

record 'c event =
  evt_id :: u32
  evt_expected :: u8
  evt_handle :: u16
  evt_func :: 'c
  evt_notify :: "'c option"

record ('c, 's) gattrib =
  refs :: int
  buf :: bytes
  buflen :: nat
  read_watch :: nat
  write_watch :: nat
  timeout_watch :: nat
  requests :: "'c command list option"
  responses :: "'c command list option"
  events :: "'c event list"
  next_cmd_id :: u32
  destroy :: "'c option"
  stale :: bool
  freed :: bool
  next_evt_id :: u32
  next_source :: nat
  sources :: "nat list"
  out_of_memory :: bool
  written :: "bytes list"
  client :: 's

text \<open>What client code can be called with: a result, an event, or the release of user data.\<close>

datatype 'c call =
    Result_Call 'c u8 ptr u16
  | Event_Call 'c bytes nat
  | Notify_Call 'c

type_synonym ('c, 's) client = "'c call \<Rightarrow> ('c, 's) gattrib \<Rightarrow> ('c, 's) gattrib option"

section \<open>Opcodes\<close>

definition opcode2expected :: "u8 \<Rightarrow> u8" where
  "opcode2expected opcode =
     (if opcode = ATT_OP_MTU_REQ then ATT_OP_MTU_RESP
      else if opcode = ATT_OP_FIND_INFO_REQ then ATT_OP_FIND_INFO_RESP
      else if opcode = ATT_OP_FIND_BY_TYPE_REQ then ATT_OP_FIND_BY_TYPE_RESP
      else if opcode = ATT_OP_READ_BY_TYPE_REQ then ATT_OP_READ_BY_TYPE_RESP
      else if opcode = ATT_OP_READ_REQ then ATT_OP_READ_RESP
      else if opcode = ATT_OP_READ_BLOB_REQ then ATT_OP_READ_BLOB_RESP
      else if opcode = ATT_OP_READ_MULTI_REQ then ATT_OP_READ_MULTI_RESP
      else if opcode = ATT_OP_READ_BY_GROUP_REQ then ATT_OP_READ_BY_GROUP_RESP
      else if opcode = ATT_OP_WRITE_REQ then ATT_OP_WRITE_RESP
      else if opcode = ATT_OP_PREP_WRITE_REQ then ATT_OP_PREP_WRITE_RESP
      else if opcode = ATT_OP_EXEC_WRITE_REQ then ATT_OP_EXEC_WRITE_RESP
      else if opcode = ATT_OP_HANDLE_IND then ATT_OP_HANDLE_CNF
      else 0)"

definition is_response :: "u8 \<Rightarrow> bool" where
  "is_response opcode \<longleftrightarrow> opcode \<in> set [ATT_OP_ERROR, ATT_OP_MTU_RESP, ATT_OP_FIND_INFO_RESP,
     ATT_OP_FIND_BY_TYPE_RESP, ATT_OP_READ_BY_TYPE_RESP, ATT_OP_READ_RESP, ATT_OP_READ_BLOB_RESP,
     ATT_OP_READ_MULTI_RESP, ATT_OP_READ_BY_GROUP_RESP, ATT_OP_WRITE_RESP, ATT_OP_PREP_WRITE_RESP,
     ATT_OP_EXEC_WRITE_RESP, ATT_OP_HANDLE_CNF]"

section \<open>References, queues and lists\<close>

definition alive :: "('c, 's) gattrib \<Rightarrow> ('c, 's) gattrib option" where
  "alive w = (if freed w then None else Some w)"

definition g_attrib_ref :: "('c, 's) gattrib \<Rightarrow> ('c, 's) gattrib" where
  "g_attrib_ref w = w\<lparr>refs := refs w + 1\<rparr>"

definition command_destroy :: "('c, 's) client \<Rightarrow> 'c command \<Rightarrow> ('c, 's) gattrib \<Rightarrow> ('c, 's) gattrib option" where
  "command_destroy cl cmd w = (case cmd_notify cmd of None \<Rightarrow> Some w | Some f \<Rightarrow> cl (Notify_Call f) w)"

definition event_destroy :: "('c, 's) client \<Rightarrow> 'c event \<Rightarrow> ('c, 's) gattrib \<Rightarrow> ('c, 's) gattrib option" where
  "event_destroy cl evt w = (case evt_notify evt of None \<Rightarrow> Some w | Some f \<Rightarrow> cl (Notify_Call f) w)"

text \<open>\<open>g_queue_pop_head\<close>; nothing comes from a queue that is NULL.\<close>

definition pop_request :: "('c, 's) gattrib \<Rightarrow> 'c command option \<times> ('c, 's) gattrib" where
  "pop_request w = (case requests w of
     Some (c # q) \<Rightarrow> (Some c, w\<lparr>requests := Some q\<rparr>)
   | _ \<Rightarrow> (None, w))"

definition pop_response :: "('c, 's) gattrib \<Rightarrow> 'c command option \<times> ('c, 's) gattrib" where
  "pop_response w = (case responses w of
     Some (c # q) \<Rightarrow> (Some c, w\<lparr>responses := Some q\<rparr>)
   | _ \<Rightarrow> (None, w))"

text \<open>\<open>while ((c = g_queue_pop_head (queue))) body (c)\<close>.\<close>

partial_function (option) drain ::
  "(('c, 's) gattrib \<Rightarrow> 'c command option \<times> ('c, 's) gattrib) \<Rightarrow>
   ('c command \<Rightarrow> ('c, 's) gattrib \<Rightarrow> ('c, 's) gattrib option) \<Rightarrow> ('c, 's) gattrib \<Rightarrow> ('c, 's) gattrib option"
where
  "drain pop body w = (case pop w of
     (None, w') \<Rightarrow> Some w'
   | (Some c, w') \<Rightarrow> do {
       w'' \<leftarrow> body c w';
       w'' \<leftarrow> alive w'';
       drain pop body w''
     })"

text \<open>\<open>for (l = attrib->events; l; l = l->next) body (l->data)\<close>, where \<open>l\<close> are the cells from the
  current one on. After the body the list may have changed: the next cell is found behind the
  current event, and it is a fault when the current event is no longer in the list.\<close>

definition cells_after :: "'c event \<Rightarrow> ('c, 's) gattrib \<Rightarrow> 'c event list option" where
  "cells_after e w = (if freed w then None
     else (case dropWhile (\<lambda>x. evt_id x \<noteq> evt_id e) (events w) of [] \<Rightarrow> None | _ # l \<Rightarrow> Some l))"

partial_function (option) walk_events ::
  "('c event \<Rightarrow> ('c, 's) gattrib \<Rightarrow> ('c, 's) gattrib option) \<Rightarrow> 'c event list \<Rightarrow> ('c, 's) gattrib \<Rightarrow> ('c, 's) gattrib option"
where
  "walk_events body l w = (case l of
     [] \<Rightarrow> Some w
   | e # _ \<Rightarrow> do {
       w' \<leftarrow> body e w;
       l' \<leftarrow> cells_after e w';
       walk_events body l' w'
     })"

section \<open>Life cycle\<close>

text \<open>\<open>g_source_remove\<close>; a source whose id is not live is ignored (GLib warns).\<close>

definition source_remove :: "nat \<Rightarrow> ('c, 's) gattrib \<Rightarrow> ('c, 's) gattrib" where
  "source_remove i w = w\<lparr>sources := removeAll i (sources w)\<rparr>"

definition source_add :: "('c, 's) gattrib \<Rightarrow> nat \<times> ('c, 's) gattrib" where
  "source_add w = (next_source w, w\<lparr>sources := next_source w # sources w, next_source := next_source w + 1\<rparr>)"

text \<open>The write watch holds a reference, so none is left when the struct is destroyed; its
  removal would call \<open>destroy_sender\<close> on a struct without references, a fault.\<close>

definition attrib_destroy :: "('c, 's) client \<Rightarrow> ('c, 's) gattrib \<Rightarrow> ('c, 's) gattrib option" where
  "attrib_destroy cl w = do {
     w \<leftarrow> drain pop_request (command_destroy cl) w;
     w \<leftarrow> drain pop_response (command_destroy cl) w;
     let w = w\<lparr>requests := None, responses := None\<rparr>;
     w \<leftarrow> walk_events (event_destroy cl) (events w) w;
     let w = w\<lparr>events := []\<rparr>;
     let w = (if timeout_watch w > 0 then source_remove (timeout_watch w) w else w);
     w \<leftarrow> (if write_watch w > 0 then None else Some w);
     let w = (if read_watch w > 0 then source_remove (read_watch w) w else w);
     w \<leftarrow> (case destroy w of None \<Rightarrow> Some w | Some f \<Rightarrow> cl (Notify_Call f) w);
     Some (w\<lparr>freed := True\<rparr>)
   }"

definition g_attrib_unref :: "('c, 's) client \<Rightarrow> ('c, 's) gattrib \<Rightarrow> ('c, 's) gattrib option" where
  "g_attrib_unref cl w = do {
     let w = w\<lparr>refs := refs w - 1\<rparr>;
     (if refs w > 0 then Some w else attrib_destroy cl w)
   }"

definition g_attrib_set_destroy_function :: "'c option \<Rightarrow> ('c, 's) gattrib \<Rightarrow> bool \<times> ('c, 's) gattrib" where
  "g_attrib_set_destroy_function f w = (True, w\<lparr>destroy := f\<rparr>)"

text \<open>\<open>io\<close> is what \<open>bt_io_get\<close> returns for the connection: the incoming MTU and the channel id,
  or nothing when it fails. The result \<open>None\<close> is NULL.\<close>

definition g_attrib_new :: "(u16 \<times> u16) option \<Rightarrow> bool \<Rightarrow> u32 \<Rightarrow> nat \<Rightarrow> 's \<Rightarrow> ('c, 's) gattrib option" where
  "g_attrib_new io alloc_ok evt_counter first_source s = (case io of
     None \<Rightarrow> None
   | Some (imtu, cid) \<Rightarrow>
       if \<not> alloc_ok then None
       else let att_mtu = (if cid = ATT_CID then ATT_DEFAULT_LE_MTU else unat imtu) in
         Some (g_attrib_ref
           \<lparr>refs = 0, buf = replicate att_mtu 0, buflen = att_mtu, read_watch = first_source,
            write_watch = 0, timeout_watch = 0, requests = Some [], responses = Some [], events = [],
            next_cmd_id = 0, destroy = None, stale = False, freed = False,
            next_evt_id = evt_counter, next_source = first_source + 1, sources = [first_source],
            out_of_memory = False, written = [], client = s\<rparr>))"

section \<open>Handlers of the main loop\<close>

definition result_call :: "('c, 's) client \<Rightarrow> 'c command \<Rightarrow> u8 \<Rightarrow> ptr \<Rightarrow> u16 \<Rightarrow> ('c, 's) gattrib \<Rightarrow> ('c, 's) gattrib option" where
  "result_call cl c status pdu len w =
     (case cmd_func c of None \<Rightarrow> Some w | Some f \<Rightarrow> cl (Result_Call f status pdu len) w)"

text \<open>The timer: the first pending request timed out, the others are aborted.\<close>

definition disconnect_timeout :: "('c, 's) client \<Rightarrow> ('c, 's) gattrib \<Rightarrow> (bool \<times> ('c, 's) gattrib) option" where
  "disconnect_timeout cl w = do {
     let w = g_attrib_ref w;
     w \<leftarrow> (case pop_request w of
       (None, w) \<Rightarrow> Some w
     | (Some c, w) \<Rightarrow> do {
         w \<leftarrow> result_call cl c ATT_ECODE_TIMEOUT None 0 w;
         w \<leftarrow> command_destroy cl c w;
         w \<leftarrow> alive w;
         drain pop_request (\<lambda>c w. do {
           w \<leftarrow> result_call cl c ATT_ECODE_ABORTED None 0 w;
           command_destroy cl c w
         }) w
       });
     let w = w\<lparr>stale := True\<rparr>;
     w \<leftarrow> g_attrib_unref cl w;
     Some (False, w)
   }"

text \<open>\<open>bad_cond\<close>: the condition is a hang-up or an error; \<open>ok\<close>: the write succeeds. The head of
  the responses goes first.\<close>

definition write_head :: "('c, 's) client \<Rightarrow> bool \<Rightarrow> 'c command \<Rightarrow>
    ('c command option \<Rightarrow> ('c, 's) gattrib \<Rightarrow> ('c, 's) gattrib) \<Rightarrow> ('c, 's) gattrib \<Rightarrow>
    (bool \<times> ('c, 's) gattrib) option" where
  "write_head cl ok cmd set_head w =
     (if cmd_sent cmd then Some (False, w)
      else if \<not> ok then Some (False, w)
      else let w = w\<lparr>written := written w @ [cmd_pdu cmd]\<rparr> in
        if cmd_expected cmd = 0 then do {
          w \<leftarrow> command_destroy cl cmd (set_head None w);
          Some (True, w)
        } else
          let w = set_head (Some (cmd\<lparr>cmd_sent := True\<rparr>)) w in
          if timeout_watch w = 0
          then let (t, w) = source_add w in Some (False, w\<lparr>timeout_watch := t\<rparr>)
          else Some (False, w))"

definition can_write_data :: "('c, 's) client \<Rightarrow> bool \<Rightarrow> bool \<Rightarrow> ('c, 's) gattrib \<Rightarrow> (bool \<times> ('c, 's) gattrib) option" where
  "can_write_data cl bad_cond ok w =
     (if stale w then Some (False, w)
      else if bad_cond then Some (False, w)
      else do {
        resps \<leftarrow> responses w;
        reqs \<leftarrow> requests w;
        (case resps of
           cmd # q \<Rightarrow> write_head cl ok cmd
             (\<lambda>h w. w\<lparr>responses := Some (case h of None \<Rightarrow> q | Some c \<Rightarrow> c # q)\<rparr>) w
         | [] \<Rightarrow>
            (case reqs of
               cmd # q \<Rightarrow> write_head cl ok cmd
                 (\<lambda>h w. w\<lparr>requests := Some (case h of None \<Rightarrow> q | Some c \<Rightarrow> c # q)\<rparr>) w
             | [] \<Rightarrow> Some (False, w)))
      })"

definition destroy_sender :: "('c, 's) client \<Rightarrow> ('c, 's) gattrib \<Rightarrow> ('c, 's) gattrib option" where
  "destroy_sender cl w = g_attrib_unref cl (w\<lparr>write_watch := 0\<rparr>)"

definition wake_up_sender :: "('c, 's) gattrib \<Rightarrow> ('c, 's) gattrib" where
  "wake_up_sender w =
     (if write_watch w > 0 then w
      else let w = g_attrib_ref w; (i, w) = source_add w in w\<lparr>write_watch := i\<rparr>)"

definition match_event :: "'c event \<Rightarrow> bytes \<Rightarrow> nat \<Rightarrow> bool option" where
  "match_event evt pdu len =
     (if evt_expected evt = GATTRIB_ALL_EVENTS then Some True
      else do {
        op \<leftarrow> rd pdu 0;
        (if \<not> is_response op \<and> evt_expected evt = GATTRIB_ALL_REQS then Some True
         else if evt_expected evt = op \<and> evt_handle evt = GATTRIB_ALL_HANDLES then Some True
         else if len < 3 then Some False
         else do {
           handle \<leftarrow> att_get_u16 pdu 1;
           Some (evt_expected evt = op \<and> evt_handle evt = handle)
         })
      })"

text \<open>The end of \<open>received_data\<close>, from the label \<open>done\<close> on.\<close>

definition received_done ::
  "('c, 's) client \<Rightarrow> u8 \<Rightarrow> bytes \<Rightarrow> nat \<Rightarrow> 'c command option \<Rightarrow> ('c, 's) gattrib \<Rightarrow> (bool \<times> ('c, 's) gattrib) option" where
  "received_done cl status data len cmd w = do {
     reqs \<leftarrow> requests w;
     resps \<leftarrow> responses w;
     let w = (if reqs \<noteq> [] \<or> resps \<noteq> [] then wake_up_sender w else w);
     (case cmd of
        None \<Rightarrow> Some (True, w)
      | Some c \<Rightarrow> do {
          w \<leftarrow> result_call cl c status (Some data) (of_nat len) w;
          w \<leftarrow> command_destroy cl c w;
          Some (True, w)
        })
   }"

text \<open>\<open>input\<close> is what the read returns: at most 512 bytes, or nothing when it fails.\<close>

definition received_data ::
  "('c, 's) client \<Rightarrow> bool \<Rightarrow> bytes option \<Rightarrow> ('c, 's) gattrib \<Rightarrow> (bool \<times> ('c, 's) gattrib) option" where
  "received_data cl bad_cond input w =
     (if stale w then Some (False, w)
      else if bad_cond then Some (False, w\<lparr>read_watch := 0\<rparr>)
      else (case input of
        None \<Rightarrow> received_done cl ATT_ECODE_IO (replicate 512 0) 0 None w
      | Some d \<Rightarrow> do {
          data \<leftarrow> wrn (replicate 512 0) 0 d;
          let len = length d;
          w \<leftarrow> walk_events (\<lambda>evt w. do {
                 m \<leftarrow> match_event evt data len;
                 (if m then cl (Event_Call (evt_func evt) data len) w else Some w)
               }) (events w) w;
          op \<leftarrow> rd data 0;
          (if \<not> is_response op then Some (True, w)
           else do {
             w \<leftarrow> alive w;
             let w = (if timeout_watch w > 0
                      then (source_remove (timeout_watch w) w)\<lparr>timeout_watch := 0\<rparr> else w);
             (case pop_request w of
                (None, w) \<Rightarrow> Some (events w \<noteq> [], w)
              | (Some cmd, w) \<Rightarrow>
                  if op = ATT_OP_ERROR then do {
                    status \<leftarrow> rd data 4;
                    received_done cl status data len (Some cmd) w
                  }
                  else if cmd_expected cmd \<noteq> op then received_done cl ATT_ECODE_IO data len (Some cmd) w
                  else received_done cl 0 data len (Some cmd) w)
           })
        }))"

text \<open>GLib removes a source whose handler returned FALSE; the write watch was added with
  \<open>destroy_sender\<close> to be called then.\<close>

definition dispatch_writable :: "('c, 's) client \<Rightarrow> bool \<Rightarrow> bool \<Rightarrow> ('c, 's) gattrib \<Rightarrow> ('c, 's) gattrib option" where
  "dispatch_writable cl bad_cond ok w = do {
     let i = write_watch w;
     (keep, w) \<leftarrow> can_write_data cl bad_cond ok w;
     (if keep then Some w else do { w \<leftarrow> alive w; destroy_sender cl (source_remove i w) })
   }"

definition dispatch_readable :: "('c, 's) client \<Rightarrow> bool \<Rightarrow> bytes option \<Rightarrow> ('c, 's) gattrib \<Rightarrow> ('c, 's) gattrib option" where
  "dispatch_readable cl bad_cond input w = do {
     let i = read_watch w;
     (keep, w) \<leftarrow> received_data cl bad_cond input w;
     Some (if keep then w else source_remove i w)
   }"

definition dispatch_timeout :: "('c, 's) client \<Rightarrow> ('c, 's) gattrib \<Rightarrow> ('c, 's) gattrib option" where
  "dispatch_timeout cl w = do {
     let i = timeout_watch w;
     (keep, w) \<leftarrow> disconnect_timeout cl w;
     Some (if keep then w else source_remove i w)
   }"

section \<open>Operations of the client\<close>

definition g_attrib_send ::
  "u32 \<Rightarrow> bytes \<Rightarrow> u16 \<Rightarrow> 'c option \<Rightarrow> 'c option \<Rightarrow> ('c, 's) gattrib \<Rightarrow> (u32 \<times> ('c, 's) gattrib) option" where
  "g_attrib_send id_arg pdu len func notify w =
     (if stale w then Some (0, w)
      else if out_of_memory w then Some (0, w)
      else do {
        opcode \<leftarrow> rd pdu 0;
        body \<leftarrow> rdn pdu 0 (unat len);
        let c = \<lparr>cmd_id = 0, cmd_opcode = opcode, cmd_pdu = body, cmd_len = len,
                 cmd_expected = opcode2expected opcode, cmd_sent = False,
                 cmd_func = func, cmd_notify = notify\<rparr>;
        queue \<leftarrow> (if is_response opcode then responses w else requests w);
        let (c, w, queue) =
          (if id_arg \<noteq> 0 then
             (let c = c\<lparr>cmd_id := id_arg\<rparr> in
              (c, w, if \<not> is_response opcode then c # queue else queue @ [c]))
           else
             (let w = w\<lparr>next_cmd_id := next_cmd_id w + 1\<rparr>; c = c\<lparr>cmd_id := next_cmd_id w\<rparr> in
              (c, w, queue @ [c])));
        let w = (if is_response opcode then w\<lparr>responses := Some queue\<rparr> else w\<lparr>requests := Some queue\<rparr>);
        let w = (if length queue = 1 then wake_up_sender w else w);
        Some (cmd_id c, w)
      })"

text \<open>Cancelling the command at position \<open>i\<close>: one that was sent stays, without its callback,
  until its response arrives.\<close>

definition cancel_at :: "nat \<Rightarrow> 'c command list \<Rightarrow> 'c command list \<times> 'c command option" where
  "cancel_at i q = (let c = q ! i in
     if i = 0 \<and> cmd_sent c then (q[0 := c\<lparr>cmd_func := None\<rparr>], None)
     else (take i q @ drop (Suc i) q, Some c))"

definition destroy_cancelled :: "('c, 's) client \<Rightarrow> 'c command option \<Rightarrow> ('c, 's) gattrib \<Rightarrow> ('c, 's) gattrib option" where
  "destroy_cancelled cl c w = (case c of None \<Rightarrow> Some w | Some cmd \<Rightarrow> command_destroy cl cmd w)"

definition g_attrib_cancel :: "('c, 's) client \<Rightarrow> u32 \<Rightarrow> ('c, 's) gattrib \<Rightarrow> (bool \<times> ('c, 's) gattrib) option" where
  "g_attrib_cancel cl i w =
     (case do { q \<leftarrow> requests w; n \<leftarrow> find_index (\<lambda>c. cmd_id c = i) q; Some (q, n) } of
        Some (q, n) \<Rightarrow>
          (case cancel_at n q of (q', c) \<Rightarrow> do {
             w \<leftarrow> destroy_cancelled cl c (w\<lparr>requests := Some q'\<rparr>);
             Some (True, w)
           })
      | None \<Rightarrow>
         (case responses w of
            None \<Rightarrow> Some (False, w)
          | Some q \<Rightarrow>
             (case find_index (\<lambda>c. cmd_id c = i) q of
                None \<Rightarrow> Some (False, w)
              | Some n \<Rightarrow>
                 (case cancel_at n q of (q', c) \<Rightarrow> do {
                    w \<leftarrow> destroy_cancelled cl c (w\<lparr>responses := Some q'\<rparr>);
                    Some (True, w)
                  }))))"

text \<open>The loop of \<open>cancel_all_per_queue\<close>: \<open>head\<close> is the command that was sent.\<close>

partial_function (option) cancel_loop ::
  "('c, 's) client \<Rightarrow> (('c, 's) gattrib \<Rightarrow> 'c command option \<times> ('c, 's) gattrib) \<Rightarrow> bool \<Rightarrow> 'c command option \<Rightarrow>
   ('c, 's) gattrib \<Rightarrow> ('c command option \<times> ('c, 's) gattrib) option"
where
  "cancel_loop cl pop first head w = (case pop w of
     (None, w') \<Rightarrow> Some (head, w')
   | (Some c, w') \<Rightarrow>
       if first \<and> cmd_sent c then cancel_loop cl pop first (Some (c\<lparr>cmd_func := None\<rparr>)) w'
       else do {
         w'' \<leftarrow> command_destroy cl c w';
         w'' \<leftarrow> alive w'';
         cancel_loop cl pop False head w''
       })"

definition cancel_all_requests :: "('c, 's) client \<Rightarrow> ('c, 's) gattrib \<Rightarrow> (bool \<times> ('c, 's) gattrib) option" where
  "cancel_all_requests cl w =
     (if requests w = None then Some (False, w)
      else do {
        (head, w) \<leftarrow> cancel_loop cl pop_request True None w;
        q \<leftarrow> requests w;
        Some (True, case head of None \<Rightarrow> w | Some c \<Rightarrow> w\<lparr>requests := Some (c # q)\<rparr>)
      })"

definition cancel_all_responses :: "('c, 's) client \<Rightarrow> ('c, 's) gattrib \<Rightarrow> (bool \<times> ('c, 's) gattrib) option" where
  "cancel_all_responses cl w =
     (if responses w = None then Some (False, w)
      else do {
        (head, w) \<leftarrow> cancel_loop cl pop_response True None w;
        q \<leftarrow> responses w;
        Some (True, case head of None \<Rightarrow> w | Some c \<Rightarrow> w\<lparr>responses := Some (c # q)\<rparr>)
      })"

definition g_attrib_cancel_all :: "('c, 's) client \<Rightarrow> ('c, 's) gattrib \<Rightarrow> (bool \<times> ('c, 's) gattrib) option" where
  "g_attrib_cancel_all cl w = do {
     (ret, w) \<leftarrow> cancel_all_requests cl w;
     w \<leftarrow> alive w;
     (ret', w) \<leftarrow> cancel_all_responses cl w;
     Some (ret' \<and> ret, w)
   }"

definition g_attrib_set_debug :: "('c, 's) gattrib \<Rightarrow> bool \<times> ('c, 's) gattrib" where
  "g_attrib_set_debug w = (True, w)"

text \<open>The buffer that PDUs are encoded into; the caller passes the address of a length.\<close>

definition g_attrib_get_buffer :: "('c, 's) gattrib \<Rightarrow> nat \<times> bytes" where
  "g_attrib_get_buffer w = (buflen w, buf w)"

text \<open>The bytes that \<open>g_realloc\<close> adds have no defined value; nothing reads them before they are
  written.\<close>

definition g_attrib_set_mtu :: "int \<Rightarrow> ('c, 's) gattrib \<Rightarrow> bool \<times> ('c, 's) gattrib" where
  "g_attrib_set_mtu mtu w =
     (if mtu < int ATT_DEFAULT_LE_MTU then (False, w)
      else (True, w\<lparr>buf := take (nat mtu) (buf w) @ replicate (nat mtu - length (buf w)) 0, buflen := nat mtu\<rparr>))"

definition g_attrib_register ::
  "u8 \<Rightarrow> u16 \<Rightarrow> 'c \<Rightarrow> 'c option \<Rightarrow> ('c, 's) gattrib \<Rightarrow> u32 \<times> ('c, 's) gattrib" where
  "g_attrib_register opcode handle func notify w =
     (if out_of_memory w then (0, w)
      else let i = next_evt_id w + 1 in
        (i, w\<lparr>next_evt_id := i,
              events := events w @ [\<lparr>evt_id = i, evt_expected = opcode, evt_handle = handle,
                                     evt_func = func, evt_notify = notify\<rparr>]\<rparr>))"

text \<open>\<open>sec\<close> is the security level of the connection, or nothing when \<open>bt_io_get\<close> fails;
  \<open>BT_IO_SEC_LOW\<close> is 1.\<close>

definition g_attrib_is_encrypted :: "nat option \<Rightarrow> bool" where
  "g_attrib_is_encrypted sec = (case sec of None \<Rightarrow> False | Some level \<Rightarrow> level > 1)"

definition g_attrib_unregister :: "('c, 's) client \<Rightarrow> u32 \<Rightarrow> ('c, 's) gattrib \<Rightarrow> (bool \<times> ('c, 's) gattrib) option" where
  "g_attrib_unregister cl i w =
     (if i = 0 then Some (False, w)
      else (case find_index (\<lambda>e. evt_id e = i) (events w) of
        None \<Rightarrow> Some (False, w)
      | Some n \<Rightarrow> do {
          let evt = events w ! n;
          w \<leftarrow> event_destroy cl evt (w\<lparr>events := take n (events w) @ drop (Suc n) (events w)\<rparr>);
          Some (True, w)
        }))"

definition g_attrib_unregister_all :: "('c, 's) client \<Rightarrow> ('c, 's) gattrib \<Rightarrow> (bool \<times> ('c, 's) gattrib) option" where
  "g_attrib_unregister_all cl w =
     (if events w = [] then Some (False, w)
      else do {
        w \<leftarrow> walk_events (event_destroy cl) (events w) w;
        Some (True, w\<lparr>events := []\<rparr>)
      })"

end
