(* ===== verification/Gatt.thy ===== *)
theory Gatt
  imports Gattrib
begin

text \<open>
  The GATT procedures of \<open>examples/vehicle-tool/gatt.c\<close>: discovery of services,
  included services and characteristics, long reads and writes, and the single requests.

  Each procedure keeps a heap object between its requests. The heap is part of the client state of the
  channel: one list of cells per kind of struct, an address is a position in its list, and a freed cell
  holds \<open>None\<close>; using a freed cell is a fault (\<open>None\<close>). The function pointers that this file passes to the
  channel are the constructors of \<open>gatt_fn\<close> with the address that is their user data, and
  \<open>User_Fn\<close> is a function of the program above. What that program does when it is called back is the
  parameter \<open>ucl\<close>; \<open>cl\<close> is the dispatcher of calls, needed where the last reference to the channel
  may be dropped. There is one channel, so the \<open>attrib\<close> fields have no counterpart.
\<close>

section \<open>Data\<close>

abbreviation (input) GATT_PRIM_SVC_UUID :: u16 where "GATT_PRIM_SVC_UUID \<equiv> 0x2800"
abbreviation (input) GATT_INCLUDE_UUID :: u16 where "GATT_INCLUDE_UUID \<equiv> 0x2802"
abbreviation (input) GATT_CHARAC_UUID :: u16 where "GATT_CHARAC_UUID \<equiv> 0x2803"

text \<open>The field \<open>uuid\<close> of the three structs is an array of 38 characters.\<close>

record gatt_primary =
  prim_uuid :: string
  prim_changed :: bool
  prim_range :: att_range

record gatt_included =
  incl_uuid :: string
  incl_handle :: u16
  incl_range :: att_range

record gatt_char =
  chr_uuid :: string
  chr_handle :: u16
  chr_properties :: u8
  chr_value_handle :: u16

text \<open>What the \<open>void\<close> pointers of a \<open>GSList\<close> given to a \<open>gatt_cb_t\<close> point to.\<close>

datatype gatt_item =
    Range att_range
  | Primary gatt_primary
  | Included gatt_included
  | Characteristic gatt_char

record 'u discover_primary =
  dp_uuid :: bt_uuid_t
  dp_primaries :: "gatt_item list"
  dp_cb :: 'u

record 'u included_discovery =
  isd_refs :: int
  isd_err :: int
  isd_end_handle :: u16
  isd_includes :: "gatt_item list"
  isd_cb :: 'u

record 'u discover_char =
  dc_uuid :: "bt_uuid_t option"
  dc_end :: u16
  dc_characteristics :: "gatt_item list"
  dc_cb :: 'u

record 'u read_long_data =
  rl_func :: 'u
  rl_buffer :: ptr
  rl_size :: u16
  rl_handle :: u16
  rl_id :: u32
  rl_ref :: int

record 'u write_long_data =
  wl_func :: "'u option"
  wl_handle :: u16
  wl_offset :: u16
  wl_value :: bytes
  wl_vlen :: nat

text \<open>The struct \<open>included_uuid_query\<close> is the pair of arguments of \<open>Resolve_Included_Uuid_Cb\<close>.\<close>

datatype 'u gatt_fn =
    Primary_By_Uuid_Cb nat
  | Primary_All_Cb nat
  | Resolve_Included_Uuid_Cb nat gatt_included
  | Find_Included_Cb nat
  | Isd_Unref nat
  | Char_Discovered_Cb nat
  | Read_Blob_Helper nat
  | Read_Char_Helper nat
  | Read_Long_Destroy nat
  | Prepare_Write_Cb nat
  | User_Fn 'u

record ('u, 's) gatt_state =
  dps :: "'u discover_primary option list"
  isds :: "'u included_discovery option list"
  dcs :: "'u discover_char option list"
  rls :: "'u read_long_data option list"
  wls :: "'u write_long_data option list"
  user :: 's

type_synonym ('u, 's) world = "('u gatt_fn, ('u, 's) gatt_state) gattrib"

text \<open>The callbacks into the program above: a \<open>gatt_cb_t\<close>, or a call of the channel itself.\<close>

datatype 'u gatt_call = Gatt_Cb 'u "gatt_item list" u8 | Att_Cb "'u call"

type_synonym ('u, 's) user_client = "'u gatt_call \<Rightarrow> ('u, 's) world \<Rightarrow> ('u, 's) world option"

section \<open>Cells\<close>

definition cell :: "'a option list \<Rightarrow> nat \<Rightarrow> 'a option" where
  "cell h a = (if a < length h then h ! a else None)"

definition on_client :: "('s \<Rightarrow> 's) \<Rightarrow> ('c, 's) gattrib \<Rightarrow> ('c, 's) gattrib" where
  "on_client f w = w\<lparr>client := f (client w)\<rparr>"

definition set_dp :: "nat \<Rightarrow> 'u discover_primary option \<Rightarrow> ('u, 's) world \<Rightarrow> ('u, 's) world" where
  "set_dp a x = on_client (\<lambda>s. s\<lparr>dps := (dps s)[a := x]\<rparr>)"

definition set_isd :: "nat \<Rightarrow> 'u included_discovery option \<Rightarrow> ('u, 's) world \<Rightarrow> ('u, 's) world" where
  "set_isd a x = on_client (\<lambda>s. s\<lparr>isds := (isds s)[a := x]\<rparr>)"

definition set_dc :: "nat \<Rightarrow> 'u discover_char option \<Rightarrow> ('u, 's) world \<Rightarrow> ('u, 's) world" where
  "set_dc a x = on_client (\<lambda>s. s\<lparr>dcs := (dcs s)[a := x]\<rparr>)"

definition set_rl :: "nat \<Rightarrow> 'u read_long_data option \<Rightarrow> ('u, 's) world \<Rightarrow> ('u, 's) world" where
  "set_rl a x = on_client (\<lambda>s. s\<lparr>rls := (rls s)[a := x]\<rparr>)"

definition set_wl :: "nat \<Rightarrow> 'u write_long_data option \<Rightarrow> ('u, 's) world \<Rightarrow> ('u, 's) world" where
  "set_wl a x = on_client (\<lambda>s. s\<lparr>wls := (wls s)[a := x]\<rparr>)"

text \<open>Encoding into the channel's buffer, and sending what is there.\<close>

definition encode_into :: "(ptr \<Rightarrow> nat \<Rightarrow> (u16 \<times> ptr) option) \<Rightarrow> ('c, 's) gattrib \<Rightarrow> (u16 \<times> ('c, 's) gattrib) option" where
  "encode_into enc w = do {
     let (len, b) = g_attrib_get_buffer w;
     (plen, p) \<leftarrow> enc (Some b) len;
     b \<leftarrow> p;
     Some (plen, w\<lparr>buf := b\<rparr>)
   }"

text \<open>The textual form of a UUID, in a field that was cleared.\<close>

definition uuid_field :: "bt_uuid_t \<Rightarrow> string option" where
  "uuid_field uuid = do {
     (_, s) \<leftarrow> bt_uuid_to_string (Some uuid) (replicate 38 (CHR 0x00)) 38;
     Some s
   }"

section \<open>Primary services\<close>

definition discover_primary_free :: "('u gatt_fn, ('u, 's) gatt_state) client \<Rightarrow> nat \<Rightarrow> ('u, 's) world \<Rightarrow> ('u, 's) world option" where
  "discover_primary_free cl a w = do {
     _ \<leftarrow> cell (dps (client w)) a;
     g_attrib_unref cl (set_dp a None w)
   }"

definition encode_discover_primary :: "u16 \<Rightarrow> u16 \<Rightarrow> bt_uuid_t option \<Rightarrow> ptr \<Rightarrow> nat \<Rightarrow> (u16 \<times> ptr) option" where
  "encode_discover_primary start end_h uuid pdu len = (
     let prim = snd (bt_uuid16_create GATT_PRIM_SVC_UUID)
     in (case uuid of
          None \<Rightarrow> enc_read_by_grp_req start end_h (Some prim) pdu len
        | Some u \<Rightarrow> do {
            (val, vlen) \<leftarrow> (case u of
               BT_UUID16 v \<Rightarrow> Some (le16 v, 2)
             | _ \<Rightarrow> do { v \<leftarrow> value_u128 u; Some (v, 16) });
            enc_find_by_type_req start end_h (Some prim) val vlen pdu len
          }))"

definition primary_done ::
  "('u gatt_fn, ('u, 's) gatt_state) client \<Rightarrow> ('u, 's) user_client \<Rightarrow> nat \<Rightarrow> u8 \<Rightarrow> ('u, 's) world \<Rightarrow> ('u, 's) world option" where
  "primary_done cl ucl a err w = do {
     dp \<leftarrow> cell (dps (client w)) a;
     w \<leftarrow> ucl (Gatt_Cb (dp_cb dp) (dp_primaries dp) err) w;
     discover_primary_free cl a w
   }"

definition primary_by_uuid_cb ::
  "('u gatt_fn, ('u, 's) gatt_state) client \<Rightarrow> ('u, 's) user_client \<Rightarrow> u8 \<Rightarrow> ptr \<Rightarrow> u16 \<Rightarrow> nat \<Rightarrow> ('u, 's) world \<Rightarrow> ('u, 's) world option" where
  "primary_by_uuid_cb cl ucl status ipdu iplen a w =
     (if status \<noteq> 0
      then primary_done cl ucl a (if status = ATT_ECODE_ATTR_NOT_FOUND then 0 else status) w
      else do {
        ranges \<leftarrow> dec_find_by_type_resp ipdu (unat iplen);
        (if ranges = [] then primary_done cl ucl a 0 w
         else do {
           dp \<leftarrow> cell (dps (client w)) a;
           let w = set_dp a (Some (dp\<lparr>dp_primaries := dp_primaries dp @ map Range ranges\<rparr>)) w;
           let range = last ranges;
           (if end_handle range = 0xffff then primary_done cl ucl a 0 w
            else do {
              (oplen, w) \<leftarrow> encode_into (encode_discover_primary (end_handle range + 1) 0xffff (Some (dp_uuid dp))) w;
              (if oplen = 0 then primary_done cl ucl a 0 w
               else do {
                 (_, w) \<leftarrow> g_attrib_send 0 (buf w) oplen (Some (Primary_By_Uuid_Cb a)) None w;
                 Some w
               })
            })
         })
      })"

text \<open>The loop of \<open>primary_all_cb\<close> over the attribute data: the last end handle, the services found and
  whether allocation failed.\<close>

fun primary_items :: "bool \<Rightarrow> nat \<Rightarrow> bytes list \<Rightarrow> u16 \<Rightarrow> gatt_item list \<Rightarrow> (bool \<times> u16 \<times> gatt_item list) option" where
  "primary_items oom n [] end_h acc = Some (False, end_h, acc)"
| "primary_items oom n (data # es) end_h acc = do {
     s \<leftarrow> att_get_u16 data 0;
     e \<leftarrow> att_get_u16 data 2;
     uuid \<leftarrow> (if n = 6 then do {
                 u \<leftarrow> att_get_uuid16 data 4;
                 u \<leftarrow> bt_uuid_to_uuid128 u BT_UUID_UNSPEC;
                 Some (Some u)
               }
               else if n = 20 then do { u \<leftarrow> att_get_uuid128 data 4; Some (Some u) }
               else Some None);
     (case uuid of
        None \<Rightarrow> primary_items oom n es e acc
      | Some u \<Rightarrow>
          if oom then Some (True, e, acc)
          else do {
            t \<leftarrow> uuid_field u;
            primary_items oom n es e
              (acc @ [Primary \<lparr>prim_uuid = t, prim_changed = False, prim_range = \<lparr>start_handle = s, end_handle = e\<rparr>\<rparr>])
          })
   }"

definition primary_all_cb ::
  "('u gatt_fn, ('u, 's) gatt_state) client \<Rightarrow> ('u, 's) user_client \<Rightarrow> u8 \<Rightarrow> ptr \<Rightarrow> u16 \<Rightarrow> nat \<Rightarrow> ('u, 's) world \<Rightarrow> ('u, 's) world option" where
  "primary_all_cb cl ucl status ipdu iplen a w =
     (if status \<noteq> 0
      then primary_done cl ucl a (if status = ATT_ECODE_ATTR_NOT_FOUND then 0 else status) w
      else do {
        lst \<leftarrow> dec_read_by_grp_resp ipdu (unat iplen);
        (case lst of
           None \<Rightarrow> primary_done cl ucl a ATT_ECODE_IO w
         | Some l \<Rightarrow> do {
             es \<leftarrow> rdn (elems l) 0 (num l);
             dp \<leftarrow> cell (dps (client w)) a;
             (failed, end_h, found) \<leftarrow> primary_items (out_of_memory w) (elem_len l) es 0 (dp_primaries dp);
             let w = set_dp a (Some (dp\<lparr>dp_primaries := found\<rparr>)) w;
             (if failed then primary_done cl ucl a ATT_ECODE_INSUFF_RESOURCES w
              else if end_h \<noteq> 0xffff then do {
                (oplen, w) \<leftarrow> encode_into (encode_discover_primary (end_h + 1) 0xffff None) w;
                (_, w) \<leftarrow> g_attrib_send 0 (buf w) oplen (Some (Primary_All_Cb a)) None w;
                Some w
              }
              else primary_done cl ucl a 0 w)
           })
      })"

definition gatt_discover_primary :: "bt_uuid_t option \<Rightarrow> 'u \<Rightarrow> ('u, 's) world \<Rightarrow> (u32 \<times> ('u, 's) world) option" where
  "gatt_discover_primary uuid func w = do {
     (plen, w) \<leftarrow> encode_into (encode_discover_primary 0x0001 0xffff uuid) w;
     (if plen = 0 then Some (0, w)
      else if out_of_memory w then Some (0, w)
      else do {
        let a = length (dps (client w));
        let w = g_attrib_ref w;
        let dp = \<lparr>dp_uuid = (case uuid of None \<Rightarrow> BT_UUID_UNSPEC | Some u \<Rightarrow> u), dp_primaries = [], dp_cb = func\<rparr>;
        let w = on_client (\<lambda>s. s\<lparr>dps := dps s @ [Some dp]\<rparr>) w;
        let cb = (case uuid of None \<Rightarrow> Primary_All_Cb a | Some _ \<Rightarrow> Primary_By_Uuid_Cb a);
        g_attrib_send 0 (buf w) plen (Some cb) None w
      })
   }"

section \<open>Included services\<close>

definition isd_ref :: "nat \<Rightarrow> ('u, 's) world \<Rightarrow> ('u, 's) world option" where
  "isd_ref a w = do {
     isd \<leftarrow> cell (isds (client w)) a;
     Some (set_isd a (Some (isd\<lparr>isd_refs := isd_refs isd + 1\<rparr>)) w)
   }"

text \<open>The list handed to the callback is freed, then the channel's reference, then the object.\<close>

definition isd_unref ::
  "('u gatt_fn, ('u, 's) gatt_state) client \<Rightarrow> ('u, 's) user_client \<Rightarrow> nat \<Rightarrow> ('u, 's) world \<Rightarrow> ('u, 's) world option" where
  "isd_unref cl ucl a w = do {
     isd \<leftarrow> cell (isds (client w)) a;
     let isd = isd\<lparr>isd_refs := isd_refs isd - 1\<rparr>;
     let w = set_isd a (Some isd) w;
     (if isd_refs isd > 0 then Some w
      else do {
        w \<leftarrow> (if isd_err isd \<noteq> 0 then ucl (Gatt_Cb (isd_cb isd) [] (word_of_int (isd_err isd))) w
              else ucl (Gatt_Cb (isd_cb isd) (isd_includes isd) 0) w);
        _ \<leftarrow> cell (isds (client w)) a;
        g_attrib_unref cl (set_isd a None w)
      })
   }"

definition set_err :: "nat \<Rightarrow> int \<Rightarrow> ('u, 's) world \<Rightarrow> ('u, 's) world option" where
  "set_err a err w = do {
     isd \<leftarrow> cell (isds (client w)) a;
     Some (if isd_err isd = 0 then set_isd a (Some (isd\<lparr>isd_err := err\<rparr>)) w else w)
   }"

text \<open>The callback of \<open>resolve_included_uuid\<close> up to its label \<open>done\<close>: the error, and the state.\<close>

definition resolved_uuid :: "u8 \<Rightarrow> ptr \<Rightarrow> u16 \<Rightarrow> nat \<Rightarrow> gatt_included \<Rightarrow> ('u, 's) world \<Rightarrow> (int \<times> ('u, 's) world) option" where
  "resolved_uuid status pdu len a incl w =
     (if status \<noteq> 0 then Some (uint status, w)
      else do {
        _ \<leftarrow> cell (isds (client w)) a;
        let (n, b) = g_attrib_get_buffer w;
        (r, p) \<leftarrow> dec_read_resp pdu (unat len) (Some b) n;
        b \<leftarrow> p;
        let w = w\<lparr>buf := b\<rparr>;
        (if r \<noteq> 16 then Some (uint ATT_ECODE_IO, w)
         else do {
           uuid \<leftarrow> att_get_uuid128 (buf w) 0;
           t \<leftarrow> uuid_field uuid;
           isd \<leftarrow> cell (isds (client w)) a;
           Some (0, set_isd a (Some (isd\<lparr>isd_includes := isd_includes isd @ [Included (incl\<lparr>incl_uuid := t\<rparr>)]\<rparr>)) w)
         })
      })"

definition resolve_included_uuid_cb ::
  "('u gatt_fn, ('u, 's) gatt_state) client \<Rightarrow> ('u, 's) user_client \<Rightarrow> u8 \<Rightarrow> ptr \<Rightarrow> u16 \<Rightarrow> nat \<Rightarrow> gatt_included \<Rightarrow> ('u, 's) world \<Rightarrow> ('u, 's) world option" where
  "resolve_included_uuid_cb cl ucl status pdu len a incl w = do {
     (err, w) \<leftarrow> resolved_uuid status pdu len a incl w;
     w \<leftarrow> set_err a err w;
     isd_unref cl ucl a w
   }"

text \<open>An allocation with \<open>g_new0\<close> or \<open>g_malloc\<close> that fails ends the program.\<close>

definition resolve_included_uuid :: "nat \<Rightarrow> gatt_included \<Rightarrow> ('u, 's) world \<Rightarrow> (u32 \<times> ('u, 's) world) option" where
  "resolve_included_uuid a incl w = do {
     _ \<leftarrow> cell (isds (client w)) a;
     (oplen, w) \<leftarrow> encode_into (enc_read_req (start_handle (incl_range incl))) w;
     w \<leftarrow> (if out_of_memory w then None else isd_ref a w);
     g_attrib_send 0 (buf w) oplen (Some (Resolve_Included_Uuid_Cb a incl)) None w
   }"

definition included_from_buf :: "bytes \<Rightarrow> nat \<Rightarrow> gatt_included option" where
  "included_from_buf b len = do {
     h \<leftarrow> att_get_u16 b 0;
     s \<leftarrow> att_get_u16 b 2;
     e \<leftarrow> att_get_u16 b 4;
     t \<leftarrow> (if len = 8 then do {
              u \<leftarrow> att_get_uuid16 b 6;
              u \<leftarrow> bt_uuid_to_uuid128 u BT_UUID_UNSPEC;
              uuid_field u
            } else Some (replicate 38 (CHR 0x00)));
     Some \<lparr>incl_uuid = t, incl_handle = h, incl_range = \<lparr>start_handle = s, end_handle = e\<rparr>\<rparr>
   }"

definition find_included :: "nat \<Rightarrow> u16 \<Rightarrow> ('u, 's) world \<Rightarrow> (u32 \<times> ('u, 's) world) option" where
  "find_included a start w = do {
     isd \<leftarrow> cell (isds (client w)) a;
     (oplen, w) \<leftarrow> encode_into (enc_read_by_type_req start (isd_end_handle isd) (Some (snd (bt_uuid16_create GATT_INCLUDE_UUID)))) w;
     w \<leftarrow> isd_ref a w;
     g_attrib_send 0 (buf w) oplen (Some (Find_Included_Cb a)) (Some (Isd_Unref a)) w
   }"

text \<open>The loop of \<open>find_included_cb\<close>: the last handle.\<close>

fun included_items :: "nat \<Rightarrow> nat \<Rightarrow> bytes list \<Rightarrow> u16 \<Rightarrow> ('u, 's) world \<Rightarrow> (u16 \<times> ('u, 's) world) option" where
  "included_items a n [] last_handle w = Some (last_handle, w)"
| "included_items a n (data # es) last_handle w = do {
     incl \<leftarrow> (if out_of_memory w then None else included_from_buf data n);
     w \<leftarrow> (if n = 6 then do { (_, w) \<leftarrow> resolve_included_uuid a incl w; Some w }
           else do {
             isd \<leftarrow> cell (isds (client w)) a;
             Some (set_isd a (Some (isd\<lparr>isd_includes := isd_includes isd @ [Included incl]\<rparr>)) w)
           });
     included_items a n es (incl_handle incl) w
   }"

text \<open>The part of \<open>find_included_cb\<close> for a response: the error, and the state.\<close>

definition included_found :: "ptr \<Rightarrow> u16 \<Rightarrow> nat \<Rightarrow> ('u, 's) world \<Rightarrow> (int \<times> ('u, 's) world) option" where
  "included_found pdu len a w = do {
     isd \<leftarrow> cell (isds (client w)) a;
     lst \<leftarrow> dec_read_by_type_resp pdu (unat len);
     (case lst of
        None \<Rightarrow> Some (uint ATT_ECODE_IO, w)
      | Some l \<Rightarrow>
          if elem_len l \<noteq> 6 \<and> elem_len l \<noteq> 8 then Some (uint ATT_ECODE_IO, w)
          else do {
            es \<leftarrow> rdn (elems l) 0 (num l);
            (last_handle, w) \<leftarrow> included_items a (elem_len l) es (isd_end_handle isd) w;
            isd \<leftarrow> cell (isds (client w)) a;
            (if last_handle < isd_end_handle isd
             then do { (_, w) \<leftarrow> find_included a (last_handle + 1) w; Some (0, w) }
             else Some (0, w))
          })
   }"

definition find_included_cb :: "u8 \<Rightarrow> ptr \<Rightarrow> u16 \<Rightarrow> nat \<Rightarrow> ('u, 's) world \<Rightarrow> ('u, 's) world option" where
  "find_included_cb status pdu len a w = do {
     (err, w) \<leftarrow>
       (if status \<noteq> 0 then Some (if status = ATT_ECODE_ATTR_NOT_FOUND then 0 else uint status, w)
        else included_found pdu len a w);
     set_err a err w
   }"

definition gatt_find_included :: "u16 \<Rightarrow> u16 \<Rightarrow> 'u \<Rightarrow> ('u, 's) world \<Rightarrow> (u32 \<times> ('u, 's) world) option" where
  "gatt_find_included start end_h func w =
     (if out_of_memory w then None
      else do {
        let a = length (isds (client w));
        let w = g_attrib_ref w;
        let isd = \<lparr>isd_refs = 0, isd_err = 0, isd_end_handle = end_h, isd_includes = [], isd_cb = func\<rparr>;
        find_included a start (on_client (\<lambda>s. s\<lparr>isds := isds s @ [Some isd]\<rparr>) w)
      })"

section \<open>Characteristics\<close>

definition discover_char_free :: "('u gatt_fn, ('u, 's) gatt_state) client \<Rightarrow> nat \<Rightarrow> ('u, 's) world \<Rightarrow> ('u, 's) world option" where
  "discover_char_free cl a w = do {
     _ \<leftarrow> cell (dcs (client w)) a;
     g_attrib_unref cl (set_dc a None w)
   }"

definition char_done :: "('u gatt_fn, ('u, 's) gatt_state) client \<Rightarrow> ('u, 's) user_client \<Rightarrow> nat \<Rightarrow> u8 \<Rightarrow> ('u, 's) world \<Rightarrow> ('u, 's) world option" where
  "char_done cl ucl a err w = do {
     dc \<leftarrow> cell (dcs (client w)) a;
     let err = (if dc_characteristics dc \<noteq> [] then 0 else err);
     w \<leftarrow> ucl (Gatt_Cb (dc_cb dc) (dc_characteristics dc) err) w;
     discover_char_free cl a w
   }"

text \<open>The loop of \<open>char_discovered_cb\<close>: whether allocation failed, the last handle and what was found.\<close>

fun char_items :: "bool \<Rightarrow> bt_uuid_t option \<Rightarrow> nat \<Rightarrow> bytes list \<Rightarrow> u16 \<Rightarrow> gatt_item list \<Rightarrow> (bool \<times> u16 \<times> gatt_item list) option" where
  "char_items oom wanted n [] last_h acc = Some (False, last_h, acc)"
| "char_items oom wanted n (val # es) last_h acc = do {
     h \<leftarrow> att_get_u16 val 0;
     uuid \<leftarrow> (if n = 7 then do { u \<leftarrow> att_get_uuid16 val 5; bt_uuid_to_uuid128 u BT_UUID_UNSPEC }
              else att_get_uuid128 val 5);
     skip \<leftarrow> (case wanted of None \<Rightarrow> Some False | Some u \<Rightarrow> do { r \<leftarrow> bt_uuid_cmp u uuid; Some (r \<noteq> 0) });
     (if skip then char_items oom wanted n es h acc
      else if oom then Some (True, h, acc)
      else do {
        p \<leftarrow> rd val 2;
        v \<leftarrow> att_get_u16 val 3;
        t \<leftarrow> uuid_field uuid;
        char_items oom wanted n es h
          (acc @ [Characteristic \<lparr>chr_uuid = t, chr_handle = h, chr_properties = p, chr_value_handle = v\<rparr>])
      })
   }"

definition char_discovered_cb :: "('u gatt_fn, ('u, 's) gatt_state) client \<Rightarrow> ('u, 's) user_client \<Rightarrow> u8 \<Rightarrow> ptr \<Rightarrow> u16 \<Rightarrow> nat \<Rightarrow> ('u, 's) world \<Rightarrow> ('u, 's) world option" where
  "char_discovered_cb cl ucl status ipdu iplen a w =
     (if status \<noteq> 0 then char_done cl ucl a status w
      else do {
        lst \<leftarrow> dec_read_by_type_resp ipdu (unat iplen);
        (case lst of
           None \<Rightarrow> char_done cl ucl a ATT_ECODE_IO w
         | Some l \<Rightarrow> do {
             es \<leftarrow> rdn (elems l) 0 (num l);
             dc \<leftarrow> cell (dcs (client w)) a;
             (failed, last_h, found) \<leftarrow> char_items (out_of_memory w) (dc_uuid dc) (elem_len l) es 0 (dc_characteristics dc);
             let w = set_dc a (Some (dc\<lparr>dc_characteristics := found\<rparr>)) w;
             (if failed then char_done cl ucl a ATT_ECODE_INSUFF_RESOURCES w
              else if last_h \<noteq> 0 \<and> unat last_h + 1 < unat (dc_end dc) then do {
                (oplen, w) \<leftarrow> encode_into (enc_read_by_type_req (last_h + 1) (dc_end dc) (Some (snd (bt_uuid16_create GATT_CHARAC_UUID)))) w;
                (if oplen = 0 then Some w
                 else do {
                   (_, w) \<leftarrow> g_attrib_send 0 (buf w) oplen (Some (Char_Discovered_Cb a)) None w;
                   Some w
                 })
              }
              else char_done cl ucl a ATT_ECODE_ATTR_NOT_FOUND w)
           })
      })"

definition gatt_discover_char :: "u16 \<Rightarrow> u16 \<Rightarrow> bt_uuid_t option \<Rightarrow> 'u \<Rightarrow> ('u, 's) world \<Rightarrow> (u32 \<times> ('u, 's) world) option" where
  "gatt_discover_char start end_h uuid func w = do {
     (plen, w) \<leftarrow> encode_into (enc_read_by_type_req start end_h (Some (snd (bt_uuid16_create GATT_CHARAC_UUID)))) w;
     (if plen = 0 then Some (0, w)
      else if out_of_memory w then Some (0, w)
      else do {
        let a = length (dcs (client w));
        let w = g_attrib_ref w;
        let dc = \<lparr>dc_uuid = uuid, dc_end = end_h, dc_characteristics = [], dc_cb = func\<rparr>;
        let w = on_client (\<lambda>s. s\<lparr>dcs := dcs s @ [Some dc]\<rparr>) w;
        g_attrib_send 0 (buf w) plen (Some (Char_Discovered_Cb a)) None w
      })
   }"

definition gatt_read_char_by_uuid :: "u16 \<Rightarrow> u16 \<Rightarrow> bt_uuid_t \<Rightarrow> 'u \<Rightarrow> ('u, 's) world \<Rightarrow> (u32 \<times> ('u, 's) world) option" where
  "gatt_read_char_by_uuid start end_h uuid func w = do {
     (plen, w) \<leftarrow> encode_into (enc_read_by_type_req start end_h (Some uuid)) w;
     (if plen = 0 then Some (0, w)
      else g_attrib_send 0 (buf w) plen (Some (User_Fn func)) None w)
   }"

section \<open>Long reads\<close>

definition read_long_destroy :: "nat \<Rightarrow> ('u, 's) world \<Rightarrow> ('u, 's) world option" where
  "read_long_destroy a w = do {
     rl \<leftarrow> cell (rls (client w)) a;
     let rl = rl\<lparr>rl_ref := rl_ref rl - 1\<rparr>;
     Some (if rl_ref rl > 0 then set_rl a (Some rl) w else set_rl a None w)
   }"

definition rl_addref :: "nat \<Rightarrow> ('u, 's) world \<Rightarrow> ('u, 's) world option" where
  "rl_addref a w = do {
     rl \<leftarrow> cell (rls (client w)) a;
     Some (set_rl a (Some (rl\<lparr>rl_ref := rl_ref rl + 1\<rparr>)) w)
   }"

definition blob_done :: "('u, 's) user_client \<Rightarrow> nat \<Rightarrow> u8 \<Rightarrow> ('u, 's) world \<Rightarrow> ('u, 's) world option" where
  "blob_done ucl a status w = do {
     rl \<leftarrow> cell (rls (client w)) a;
     ucl (Att_Cb (Result_Call (rl_func rl) status (rl_buffer rl) (rl_size rl))) w
   }"

text \<open>\<open>g_try_realloc\<close> to the sum of two 16-bit lengths less 1, an \<open>int\<close>: for 0 the buffer is freed,
  and the callback and the destruction that follow use it; a negative size is too big. The bytes it adds are written at once.\<close>

definition read_blob_helper :: "('u, 's) user_client \<Rightarrow> u8 \<Rightarrow> ptr \<Rightarrow> u16 \<Rightarrow> nat \<Rightarrow> ('u, 's) world \<Rightarrow> ('u, 's) world option" where
  "read_blob_helper ucl status rpdu rlen a w =
     (if status \<noteq> 0 \<or> rlen = 1 then blob_done ucl a 0 w
      else do {
        rl \<leftarrow> cell (rls (client w)) a;
        let n = uint (rl_size rl) + uint rlen - 1;
        (if n = 0 \<and> rl_buffer rl \<noteq> None then None
         else if out_of_memory w \<or> n \<le> 0 then blob_done ucl a ATT_ECODE_INSUFF_RESOURCES w
         else do {
           let old = (case rl_buffer rl of None \<Rightarrow> [] | Some b \<Rightarrow> b);
           let tmp = take (nat n) old @ replicate (nat n - length old) 0;
           p \<leftarrow> rpdu;
           d \<leftarrow> (if rlen = 0 then None else rdn p 1 (unat rlen - 1));
           tmp \<leftarrow> wrn tmp (unat (rl_size rl)) d;
           let rl = rl\<lparr>rl_buffer := Some tmp, rl_size := rl_size rl + (rlen - 1)\<rparr>;
           let w = set_rl a (Some rl) w;
           (if unat rlen < buflen w then blob_done ucl a 0 w
            else do {
              (plen, w) \<leftarrow> encode_into (enc_read_blob_req (rl_handle rl) (rl_size rl - 1)) w;
              (i, w) \<leftarrow> g_attrib_send (rl_id rl) (buf w) plen (Some (Read_Blob_Helper a)) (Some (Read_Long_Destroy a)) w;
              (if i \<noteq> 0 then rl_addref a w else blob_done ucl a ATT_ECODE_IO w)
            })
         })
      })"

definition char_read_done :: "('u, 's) user_client \<Rightarrow> nat \<Rightarrow> u8 \<Rightarrow> ptr \<Rightarrow> u16 \<Rightarrow> ('u, 's) world \<Rightarrow> ('u, 's) world option" where
  "char_read_done ucl a status rpdu rlen w = do {
     rl \<leftarrow> cell (rls (client w)) a;
     ucl (Att_Cb (Result_Call (rl_func rl) status rpdu rlen)) w
   }"

text \<open>\<open>g_malloc\<close> returns NULL only for a length of 0.\<close>

definition read_char_helper :: "('u, 's) user_client \<Rightarrow> u8 \<Rightarrow> ptr \<Rightarrow> u16 \<Rightarrow> nat \<Rightarrow> ('u, 's) world \<Rightarrow> ('u, 's) world option" where
  "read_char_helper ucl status rpdu rlen a w =
     (if status \<noteq> 0 \<or> unat rlen < buflen w then char_read_done ucl a status rpdu rlen w
      else if rlen = 0 then char_read_done ucl a ATT_ECODE_INSUFF_RESOURCES rpdu rlen w
      else if out_of_memory w then None
      else do {
        rl \<leftarrow> cell (rls (client w)) a;
        p \<leftarrow> rpdu;
        d \<leftarrow> rdn p 0 (unat rlen);
        let w = set_rl a (Some (rl\<lparr>rl_buffer := Some d, rl_size := rlen\<rparr>)) w;
        (plen, w) \<leftarrow> encode_into (enc_read_blob_req (rl_handle rl) (rlen - 1)) w;
        (i, w) \<leftarrow> g_attrib_send (rl_id rl) (buf w) plen (Some (Read_Blob_Helper a)) (Some (Read_Long_Destroy a)) w;
        (if i \<noteq> 0 then rl_addref a w else char_read_done ucl a ATT_ECODE_IO rpdu rlen w)
      })"

definition gatt_read_char :: "u16 \<Rightarrow> 'u \<Rightarrow> ('u, 's) world \<Rightarrow> (u32 \<times> ('u, 's) world) option" where
  "gatt_read_char handle func w =
     (if out_of_memory w then Some (0, w)
      else do {
        let a = length (rls (client w));
        let rl = \<lparr>rl_func = func, rl_buffer = None, rl_size = 0, rl_handle = handle, rl_id = 0, rl_ref = 0\<rparr>;
        let w = on_client (\<lambda>s. s\<lparr>rls := rls s @ [Some rl]\<rparr>) w;
        (plen, w) \<leftarrow> encode_into (enc_read_req handle) w;
        (i, w) \<leftarrow> g_attrib_send 0 (buf w) plen (Some (Read_Char_Helper a)) (Some (Read_Long_Destroy a)) w;
        (if i = 0 then Some (i, set_rl a None w)
         else do {
           w \<leftarrow> rl_addref a w;
           rl \<leftarrow> cell (rls (client w)) a;
           Some (i, set_rl a (Some (rl\<lparr>rl_id := i\<rparr>)) w)
         })
      })"

section \<open>Long writes\<close>

text \<open>The callback of a write may be NULL; calling it is then a fault.\<close>

definition execute_write :: "u8 \<Rightarrow> 'u option \<Rightarrow> ('u, 's) world \<Rightarrow> (u32 \<times> ('u, 's) world) option" where
  "execute_write flags func w = do {
     (plen, w) \<leftarrow> encode_into (enc_exec_write_req flags) w;
     (if plen = 0 then Some (0, w)
      else g_attrib_send 0 (buf w) plen (map_option User_Fn func) None w)
   }"

definition prepare_write :: "nat \<Rightarrow> ('u, 's) world \<Rightarrow> (u32 \<times> ('u, 's) world) option" where
  "prepare_write a w = do {
     wl \<leftarrow> cell (wls (client w)) a;
     let val = drop (unat (wl_offset wl)) (wl_value wl);
     let vlen = sz_sub (wl_vlen wl) (unat (wl_offset wl));
     (plen, w) \<leftarrow> encode_into (enc_prep_write_req (wl_handle wl) (wl_offset wl) val vlen) w;
     (if plen = 0 then Some (0, w)
      else g_attrib_send 0 (buf w) plen (Some (Prepare_Write_Cb a)) None w)
   }"

definition prepare_write_cb :: "('u, 's) user_client \<Rightarrow> u8 \<Rightarrow> ptr \<Rightarrow> u16 \<Rightarrow> nat \<Rightarrow> ('u, 's) world \<Rightarrow> ('u, 's) world option" where
  "prepare_write_cb ucl status rpdu rlen a w = do {
     wl \<leftarrow> cell (wls (client w)) a;
     (if status \<noteq> 0 then do { f \<leftarrow> wl_func wl; ucl (Att_Cb (Result_Call f status rpdu rlen)) w }
      else do {
        let wl = wl\<lparr>wl_offset := wl_offset wl + (rlen - 5)\<rparr>;
        let w = set_wl a (Some wl) w;
        (if unat (wl_offset wl) = wl_vlen wl then do {
           (_, w) \<leftarrow> execute_write ATT_WRITE_ALL_PREP_WRITES (wl_func wl) w;
           Some (set_wl a None w)
         }
         else do { (_, w) \<leftarrow> prepare_write a w; Some w })
      })
   }"

definition gatt_write_char :: "u16 \<Rightarrow> bytes \<Rightarrow> nat \<Rightarrow> 'u option \<Rightarrow> ('u, 's) world \<Rightarrow> (u32 \<times> ('u, 's) world) option" where
  "gatt_write_char handle val vlen func w =
     (if vlen \<le> sz_sub (buflen w) 3 then do {
        (plen, w) \<leftarrow> encode_into (enc_write_req handle val vlen) w;
        (if plen = 0 then Some (0, w)
         else g_attrib_send 0 (buf w) plen (map_option User_Fn func) None w)
      }
      else if out_of_memory w then Some (0, w)
      else do {
        let a = length (wls (client w));
        v \<leftarrow> rdn val 0 vlen;
        let wl = \<lparr>wl_func = func, wl_handle = handle, wl_offset = 0, wl_value = v, wl_vlen = vlen\<rparr>;
        prepare_write a (on_client (\<lambda>s. s\<lparr>wls := wls s @ [Some wl]\<rparr>) w)
      })"

section \<open>Single requests\<close>

definition gatt_exchange_mtu :: "u16 \<Rightarrow> 'u \<Rightarrow> ('u, 's) world \<Rightarrow> (u32 \<times> ('u, 's) world) option" where
  "gatt_exchange_mtu mtu func w = do {
     (plen, w) \<leftarrow> encode_into (enc_mtu_req mtu) w;
     g_attrib_send 0 (buf w) plen (Some (User_Fn func)) None w
   }"

definition gatt_discover_char_desc :: "u16 \<Rightarrow> u16 \<Rightarrow> 'u \<Rightarrow> ('u, 's) world \<Rightarrow> (u32 \<times> ('u, 's) world) option" where
  "gatt_discover_char_desc start end_h func w = do {
     (plen, w) \<leftarrow> encode_into (enc_find_info_req start end_h) w;
     (if plen = 0 then Some (0, w)
      else g_attrib_send 0 (buf w) plen (Some (User_Fn func)) None w)
   }"

text \<open>The length is an \<open>int\<close> that becomes a \<open>size_t\<close>.\<close>

definition gatt_write_cmd :: "u16 \<Rightarrow> bytes \<Rightarrow> int \<Rightarrow> 'u option \<Rightarrow> ('u, 's) world \<Rightarrow> (u32 \<times> ('u, 's) world) option" where
  "gatt_write_cmd handle val vlen notify w = do {
     (plen, w) \<leftarrow> encode_into (enc_write_cmd handle val (nat (vlen mod 2 ^ 64))) w;
     g_attrib_send 0 (buf w) plen None (map_option User_Fn notify) w
   }"

section \<open>The dispatcher\<close>

text \<open>A function pointer is called with the arguments of its type. \<open>gatt_dispatch\<close> is one call; \<open>cl\<close> makes the
  calls of a channel that this call destroys. \<open>gatt_client n\<close> lets such destructions nest up to \<open>n\<close> deep.\<close>

definition gatt_dispatch :: "('u gatt_fn, ('u, 's) gatt_state) client \<Rightarrow> ('u, 's) user_client \<Rightarrow> 'u gatt_fn call \<Rightarrow> ('u, 's) world \<Rightarrow> ('u, 's) world option" where
  "gatt_dispatch cl ucl c w = (case c of
     Result_Call f st pdu len \<Rightarrow> (case f of
         Primary_By_Uuid_Cb a \<Rightarrow> primary_by_uuid_cb cl ucl st pdu len a w
       | Primary_All_Cb a \<Rightarrow> primary_all_cb cl ucl st pdu len a w
       | Resolve_Included_Uuid_Cb a incl \<Rightarrow> resolve_included_uuid_cb cl ucl st pdu len a incl w
       | Find_Included_Cb a \<Rightarrow> find_included_cb st pdu len a w
       | Char_Discovered_Cb a \<Rightarrow> char_discovered_cb cl ucl st pdu len a w
       | Read_Blob_Helper a \<Rightarrow> read_blob_helper ucl st pdu len a w
       | Read_Char_Helper a \<Rightarrow> read_char_helper ucl st pdu len a w
       | Prepare_Write_Cb a \<Rightarrow> prepare_write_cb ucl st pdu len a w
       | User_Fn u \<Rightarrow> ucl (Att_Cb (Result_Call u st pdu len)) w
       | _ \<Rightarrow> None)
   | Event_Call f data len \<Rightarrow> (case f of
         User_Fn u \<Rightarrow> ucl (Att_Cb (Event_Call u data len)) w
       | _ \<Rightarrow> None)
   | Notify_Call f \<Rightarrow> (case f of
         Isd_Unref a \<Rightarrow> isd_unref cl ucl a w
       | Read_Long_Destroy a \<Rightarrow> read_long_destroy a w
       | User_Fn u \<Rightarrow> ucl (Att_Cb (Notify_Call u)) w
       | _ \<Rightarrow> None))"

fun gatt_client :: "nat \<Rightarrow> ('u, 's) user_client \<Rightarrow> ('u gatt_fn, ('u, 's) gatt_state) client" where
  "gatt_client 0 ucl c w = None"
| "gatt_client (Suc n) ucl c w = gatt_dispatch (gatt_client n ucl) ucl c w"

end
