(* ===== verification/Gattrib_Inv.thy ===== *)
theory Gattrib_Inv
  imports Gattrib
begin

text \<open>
  The correctness of the attribute channel: the invariant of its two queues and the rule for its
  write watch, kept by every operation and every handler for any client that itself keeps them,
  hence by every run of the main loop.
\<close>

section \<open>The invariant\<close>

definition request_wf :: "'c command \<Rightarrow> bool" where
  "request_wf c \<longleftrightarrow> \<not> is_response (cmd_opcode c) \<and> cmd_expected c = opcode2expected (cmd_opcode c) \<and>
     (cmd_sent c \<longrightarrow> cmd_expected c \<noteq> 0)"

definition response_wf :: "'c command \<Rightarrow> bool" where
  "response_wf c \<longleftrightarrow> is_response (cmd_opcode c) \<and> cmd_expected c = 0 \<and> \<not> cmd_sent c"

text \<open>Only the first request can have been sent.\<close>

definition unsent :: "'c command list \<Rightarrow> bool" where
  "unsent q \<longleftrightarrow> list_all (\<lambda>c. \<not> cmd_sent c) q"

definition outstanding :: "'c command list \<Rightarrow> bool" where
  "outstanding q \<longleftrightarrow> (case q of [] \<Rightarrow> False | c # _ \<Rightarrow> cmd_sent c)"

definition queues_ok :: "('c, 's) gattrib \<Rightarrow> 'c command list \<Rightarrow> 'c command list \<Rightarrow> bool" where
  "queues_ok w rq rs \<longleftrightarrow> requests w = Some rq \<and> responses w = Some rs \<and>
     list_all request_wf rq \<and> unsent (tl rq) \<and> list_all response_wf rs"

text \<open>The struct is live, a reference is held besides that of the write watch and the
  \<open>held\<close> ones of the client's objects, the buffer has the size the code believes, and a timer
  runs while a request is outstanding.\<close>

definition attrib_inv :: "('s \<Rightarrow> nat) \<Rightarrow> ('c, 's) gattrib \<Rightarrow> bool" where
  "attrib_inv held w \<longleftrightarrow> (\<exists>rq rs. queues_ok w rq rs \<and> (outstanding rq \<longrightarrow> timeout_watch w > 0)) \<and>
     \<not> freed w \<and> refs w \<ge> (if write_watch w > 0 then 2 else 1) + int (held (client w)) \<and>
     buflen w = length (buf w) \<and> next_source w > 0"

definition idle :: "('c, 's) gattrib \<Rightarrow> bool" where
  "idle w \<longleftrightarrow> (case requests w of None \<Rightarrow> True | Some q \<Rightarrow> unsent q)"

text \<open>Whoever has something to send has been woken up: the responses and the first request.\<close>

definition wake_resp :: "('c, 's) gattrib \<Rightarrow> bool" where
  "wake_resp w \<longleftrightarrow> (\<not> stale w \<longrightarrow> responses w \<noteq> Some [] \<longrightarrow> write_watch w > 0)"

definition wake_req :: "('c, 's) gattrib \<Rightarrow> bool" where
  "wake_req w \<longleftrightarrow> (\<not> stale w \<longrightarrow>
     (case requests w of Some q \<Rightarrow> q \<noteq> [] \<and> \<not> outstanding q | None \<Rightarrow> False) \<longrightarrow> write_watch w > 0)"

definition wake_ok :: "('c, 's) gattrib \<Rightarrow> bool" where
  "wake_ok w \<longleftrightarrow> wake_resp w \<and> wake_req w"

text \<open>The references other than that of the write watch and those of the client.\<close>

definition holders :: "('s \<Rightarrow> nat) \<Rightarrow> ('c, 's) gattrib \<Rightarrow> int" where
  "holders held w = refs w - (if write_watch w > 0 then 1 else 0) - int (held (client w))"

text \<open>What code that runs between two points of a handler may assume and must preserve.\<close>

definition keeps :: "('s \<Rightarrow> nat) \<Rightarrow> ('c, 's) gattrib \<Rightarrow> ('c, 's) gattrib \<Rightarrow> bool" where
  "keeps held w w' \<longleftrightarrow> attrib_inv held w' \<and> timeout_watch w' = timeout_watch w \<and> holders held w' \<ge> holders held w \<and>
     stale w' = stale w \<and> (wake_resp w \<longrightarrow> wake_resp w') \<and> (wake_req w \<longrightarrow> wake_req w') \<and>
     (write_watch w > 0 \<longrightarrow> write_watch w' > 0)"

lemma keeps_refl [simp]: "attrib_inv held w \<Longrightarrow> keeps held w w"
  by (simp add: keeps_def)

lemma keeps_trans [trans]: "keeps held w w' \<Longrightarrow> keeps held w' w'' \<Longrightarrow> keeps held w w''"
  by (auto simp: keeps_def)

lemma keeps_inv: "keeps held w w' \<Longrightarrow> attrib_inv held w'"
  by (simp add: keeps_def)

lemma is_response_expected [simp]: "is_response op \<Longrightarrow> opcode2expected op = 0"
  by (auto simp: is_response_def opcode2expected_def)

lemma unsent_simps [simp]:
  "unsent []" "unsent (c # q) \<longleftrightarrow> \<not> cmd_sent c \<and> unsent q" "unsent (q @ q') \<longleftrightarrow> unsent q \<and> unsent q'"
  by (auto simp: unsent_def)

lemma outstanding_simps [simp]: "\<not> outstanding []" "outstanding (c # q) \<longleftrightarrow> cmd_sent c"
  by (simp_all add: outstanding_def)

lemma unsent_tl [simp]: "unsent q \<Longrightarrow> unsent (tl q)"
  by (cases q) auto

lemma unsent_not_outstanding [simp]: "unsent q \<Longrightarrow> \<not> outstanding q"
  by (cases q) auto

lemma outstanding_append [simp]: "outstanding (q @ q') \<longleftrightarrow> (if q = [] then outstanding q' else outstanding q)"
  by (cases q) auto

lemma attrib_invI:
  assumes "requests w = Some rq" "responses w = Some rs" "list_all request_wf rq" "unsent (tl rq)"
    "list_all response_wf rs" "outstanding rq \<longrightarrow> timeout_watch w > 0" "\<not> freed w"
    "refs w \<ge> (if write_watch w > 0 then 2 else 1) + int (held (client w))" "buflen w = length (buf w)" "next_source w > 0"
  shows "attrib_inv held w"
  using assms by (auto simp: attrib_inv_def queues_ok_def)

lemma attrib_invE:
  assumes "attrib_inv held w"
  obtains rq rs where "requests w = Some rq" "responses w = Some rs" "list_all request_wf rq"
    "unsent (tl rq)" "list_all response_wf rs" "outstanding rq \<longrightarrow> timeout_watch w > 0" "\<not> freed w"
    "refs w \<ge> (if write_watch w > 0 then 2 else 1) + int (held (client w))" "refs w \<ge> 1" "holders held w \<ge> 1" "buflen w = length (buf w)" "next_source w > 0"
  using assms by (auto simp: attrib_inv_def queues_ok_def holders_def split: if_splits)

section \<open>Operations that run no client code\<close>

lemma wake_up_sender_inv: "attrib_inv held w \<Longrightarrow> attrib_inv held (wake_up_sender w)"
  by (auto simp: attrib_inv_def queues_ok_def wake_up_sender_def g_attrib_ref_def source_add_def)

lemma wake_up_sender_watch [simp]: "next_source w > 0 \<Longrightarrow> write_watch (wake_up_sender w) > 0"
  by (auto simp: wake_up_sender_def g_attrib_ref_def source_add_def)

lemma wake_up_sender_frame [simp]:
  "requests (wake_up_sender w) = requests w" "responses (wake_up_sender w) = responses w"
  "timeout_watch (wake_up_sender w) = timeout_watch w" "stale (wake_up_sender w) = stale w"
  "freed (wake_up_sender w) = freed w" "events (wake_up_sender w) = events w"
  "written (wake_up_sender w) = written w" "client (wake_up_sender w) = client w"
  "next_cmd_id (wake_up_sender w) = next_cmd_id w"
  by (auto simp: wake_up_sender_def g_attrib_ref_def source_add_def)

lemma wake_up_sender_holders [simp]: "next_source w > 0 \<Longrightarrow> holders held (wake_up_sender w) = holders held w"
  by (auto simp: wake_up_sender_def g_attrib_ref_def source_add_def holders_def)

lemma wake_watch: "write_watch w > 0 \<Longrightarrow> wake_resp w" "write_watch w > 0 \<Longrightarrow> wake_req w"
  by (simp_all add: wake_resp_def wake_req_def)

lemma wake_up_sender_keeps: "attrib_inv held w \<Longrightarrow> keeps held w (wake_up_sender w)"
  using wake_up_sender_inv [of held w] by (auto simp: keeps_def wake_watch elim!: attrib_invE)

text \<open>A request with an id of its own goes to the end of its queue; one that continues an
  earlier request may go to the front only while no request is outstanding.\<close>

definition may_send :: "u32 \<Rightarrow> bytes \<Rightarrow> ('c, 's) gattrib \<Rightarrow> bool" where
  "may_send i pdu w \<longleftrightarrow> i = 0 \<or> idle w \<or> pdu = [] \<or> is_response (hd pdu)"

lemma send_cases:
  assumes "g_attrib_send i pdu len f g w = Some (r, w')"
  obtains (refused) "w' = w" "r = 0" "stale w \<or> out_of_memory w"
  | (response) c q w1 where "\<not> stale w" "responses w = Some q" "response_wf c" "cmd_func c = f" "cmd_notify c = g"
      "cmd_pdu c = take (unat len) pdu" "r = cmd_id c" "w1 = w\<lparr>next_cmd_id := (if i = 0 then r else next_cmd_id w), responses := Some (q @ [c])\<rparr>"
      "w' = (if q = [] then wake_up_sender w1 else w1)" "pdu \<noteq> []" "is_response (hd pdu)"
  | (request) c q q' w1 where "\<not> stale w" "requests w = Some q" "request_wf c" "\<not> cmd_sent c" "cmd_func c = f" "cmd_notify c = g"
      "cmd_pdu c = take (unat len) pdu" "r = cmd_id c" "q' = (if i = 0 then q @ [c] else c # q)"
      "w1 = w\<lparr>next_cmd_id := (if i = 0 then r else next_cmd_id w), requests := Some q'\<rparr>"
      "w' = (if q = [] then wake_up_sender w1 else w1)" "pdu \<noteq> []" "\<not> is_response (hd pdu)"
proof (cases "stale w \<or> out_of_memory w")
  case True
  then have "w' = w" "r = 0" using assms by (auto simp: g_attrib_send_def split: if_splits)
  then show ?thesis using True by (rule refused)
next
  case False
  then obtain op where op: "rd pdu 0 = Some op" and n: "unat len \<le> length pdu"
    using assms by (auto simp: g_attrib_send_def rdn_def bind_eq_Some_conv split: if_splits)
  then have h: "pdu \<noteq> []" "op = hd pdu" by (auto simp: hd_conv_nth)
  define c where "c = \<lparr>cmd_id = (if i = 0 then next_cmd_id w + 1 else i), cmd_opcode = op,
    cmd_pdu = take (unat len) pdu, cmd_len = len, cmd_expected = opcode2expected op, cmd_sent = False,
    cmd_func = f, cmd_notify = g\<rparr>"
  show ?thesis
  proof (cases "is_response op")
    case True
    then obtain q where q: "responses w = Some q"
      using assms False op n
      by (cases "responses w") (auto simp: g_attrib_send_def rdn_def rd_Some Let_def split: if_splits)
    show ?thesis
      using assms False op n True q h
      by (intro response [of q c "w\<lparr>next_cmd_id := (if i = 0 then r else next_cmd_id w), responses := Some (q @ [c])\<rparr>"])
        (auto simp: g_attrib_send_def rdn_def rd_Some c_def Let_def response_wf_def request_wf_def split: if_splits)
  next
    case nr: False
    then obtain q where q: "requests w = Some q"
      using assms False op n
      by (cases "requests w") (auto simp: g_attrib_send_def rdn_def rd_Some Let_def split: if_splits)
    show ?thesis
      using assms False op n nr q h
      by (intro request [of q c "if i = 0 then q @ [c] else c # q"
            "w\<lparr>next_cmd_id := (if i = 0 then r else next_cmd_id w), requests := Some (if i = 0 then q @ [c] else c # q)\<rparr>"])
        (auto simp: g_attrib_send_def rdn_def rd_Some c_def Let_def response_wf_def request_wf_def split: if_splits)
  qed
qed

lemma send_keeps:
  assumes "attrib_inv held w" "may_send i pdu w" "g_attrib_send i pdu len f g w = Some (r, w')"
  shows "keeps held w w'"
proof -
  obtain rq rs where inv: "requests w = Some rq" "responses w = Some rs" "list_all request_wf rq"
    "unsent (tl rq)" "list_all response_wf rs" "outstanding rq \<longrightarrow> timeout_watch w > 0" "\<not> freed w"
    "refs w \<ge> (if write_watch w > 0 then 2 else 1) + int (held (client w))" "buflen w = length (buf w)" "next_source w > 0"
    using assms(1) by (rule attrib_invE)
  show ?thesis
    using assms(3)
  proof (cases rule: send_cases)
    case refused
    then show ?thesis using assms(1) by simp
  next
    case (response c q w1)
    then have i: "attrib_inv held w1" using inv by (intro attrib_invI [of _ rq "rs @ [c]"]) auto
    have "keeps held w w1" if "q \<noteq> []"
      using response i inv that by (auto simp: keeps_def wake_resp_def wake_req_def holders_def)
    moreover have "keeps held w (wake_up_sender w1)"
      using wake_up_sender_inv [OF i] response inv
      by (auto simp: keeps_def wake_watch) (auto simp: holders_def)
    ultimately show ?thesis unfolding response(9) by simp
  next
    case (request c q q' w1)
    have q: "q = rq" using request inv by simp
    have u: "i \<noteq> 0 \<longrightarrow> unsent rq" using assms(2) request inv by (auto simp: may_send_def idle_def)
    have i: "attrib_inv held w1"
      using request inv q u by (intro attrib_invI [of _ q' rs]) (auto simp: tl_append split: list.split)
    have "keeps held w w1" if nq: "q \<noteq> []"
    proof -
      obtain d t where d: "rq = d # t" using q nq by (cases rq) auto
      have "\<not> cmd_sent d" if "i \<noteq> 0" using u that d by simp
      then show ?thesis
        using request i inv d q by (auto simp: keeps_def wake_resp_def wake_req_def holders_def split: if_splits)
    qed
    moreover have "keeps held w (wake_up_sender w1)"
      using wake_up_sender_inv [OF i] request inv
      by (auto simp: keeps_def wake_watch) (auto simp: holders_def)
    ultimately show ?thesis unfolding request(11) by simp
  qed
qed

section \<open>Loops that run client code\<close>

lemma drain_induct:
  assumes step: "\<And>w c w1 w2. I w \<Longrightarrow> pop w = (Some c, w1) \<Longrightarrow> body c w1 = Some w2 \<Longrightarrow> I w2"
    and stop: "\<And>w w1. I w \<Longrightarrow> pop w = (None, w1) \<Longrightarrow> Q w1"
    and run: "drain pop body w = Some w'" and start: "I w"
  shows "Q w'"
proof -
  have "pop = pop \<longrightarrow> body = body \<longrightarrow> I w \<longrightarrow> Q w'"
  proof (rule drain.raw_induct [where P = "\<lambda>p b w w'. p = pop \<longrightarrow> b = body \<longrightarrow> I w \<longrightarrow> Q w'", OF _ run], intro impI)
    fix f p b w w'
    assume IH: "\<And>p b w y. f p b w = Some y \<Longrightarrow> p = pop \<longrightarrow> b = body \<longrightarrow> I w \<longrightarrow> Q y"
      and eq: "(case p w of (None, w') \<Rightarrow> Some w'
        | (Some c, w') \<Rightarrow> b c w' \<bind> (\<lambda>w''. alive w'' \<bind> f p b)) = Some w'"
      and pb: "p = pop" "b = body" and I: "I w"
    obtain c w1 where p: "pop w = (c, w1)" by (cases "pop w")
    show "Q w'"
    proof (cases c)
      case None
      then have "pop w = (None, w')" using eq p pb by simp
      then show ?thesis by (rule stop [OF I])
    next
      case (Some x)
      then have "body x w1 \<bind> (\<lambda>w''. alive w'' \<bind> f pop body) = Some w'" using eq p pb by simp
      then obtain w2 where w2: "body x w1 = Some w2" "f pop body w2 = Some w'"
        by (auto simp: bind_eq_Some_conv alive_def split: if_splits)
      have "I w2" using step [OF I _ w2(1)] p Some by simp
      then show ?thesis using IH [OF w2(2)] by simp
    qed
  qed
  then show ?thesis using start by simp
qed

lemma walk_events_induct:
  assumes step: "\<And>e w w1. I w \<Longrightarrow> body e w = Some w1 \<Longrightarrow> I w1"
    and run: "walk_events body l w = Some w'" and start: "I w"
  shows "I w'"
proof -
  have "body = body \<longrightarrow> I w \<longrightarrow> I w'"
  proof (rule walk_events.raw_induct [where P = "\<lambda>b l w w'. b = body \<longrightarrow> I w \<longrightarrow> I w'", OF _ run], intro impI)
    fix f b l w w'
    assume IH: "\<And>b l w y. f b l w = Some y \<Longrightarrow> b = body \<longrightarrow> I w \<longrightarrow> I y"
      and eq: "(case l of [] \<Rightarrow> Some w
        | e # x \<Rightarrow> b e w \<bind> (\<lambda>w'. cells_after e w' \<bind> (\<lambda>l'. f b l' w'))) = Some w'"
      and b: "b = body" and I: "I w"
    show "I w'"
    proof (cases l)
      case Nil
      then show ?thesis using eq I by simp
    next
      case (Cons e t)
      then have "body e w \<bind> (\<lambda>w'. cells_after e w' \<bind> (\<lambda>l'. f body l' w')) = Some w'"
        using eq b by simp
      then obtain w1 l' where w1: "body e w = Some w1" "f body l' w1 = Some w'"
        by (auto simp: bind_eq_Some_conv)
      show ?thesis using IH [OF w1(2)] step [OF I w1(1)] by simp
    qed
  qed
  then show ?thesis using start by simp
qed

section \<open>Queue lemmas\<close>

lemma pop_request_cases:
  assumes "attrib_inv held w" "pop_request w = (Some c, w')"
  obtains q where "requests w = Some (c # q)" "w' = w\<lparr>requests := Some q\<rparr>" "request_wf c" "unsent q"
    "attrib_inv held w'" "idle w'"
proof -
  obtain rq rs where inv: "requests w = Some rq" "responses w = Some rs" "list_all request_wf rq"
    "unsent (tl rq)" "list_all response_wf rs" "outstanding rq \<longrightarrow> timeout_watch w > 0" "\<not> freed w"
    "refs w \<ge> (if write_watch w > 0 then 2 else 1) + int (held (client w))" "buflen w = length (buf w)" "next_source w > 0"
    using assms(1) by (rule attrib_invE)
  obtain q where q: "rq = c # q" "w' = w\<lparr>requests := Some q\<rparr>"
    using assms(2) inv(1) by (auto simp: pop_request_def split: list.splits)
  have "attrib_inv held w'" using inv q by (intro attrib_invI [of _ q rs]) auto
  then show ?thesis using that [of q] inv q by (auto simp: idle_def)
qed

lemma pop_request_None:
  "attrib_inv held w \<Longrightarrow> pop_request w = (None, w') \<Longrightarrow> requests w = Some [] \<and> w' = w"
  by (auto simp: pop_request_def elim!: attrib_invE split: list.splits)

lemma pop_response_cases:
  assumes "attrib_inv held w" "pop_response w = (Some c, w')"
  obtains q where "responses w = Some (c # q)" "w' = w\<lparr>responses := Some q\<rparr>" "response_wf c" "attrib_inv held w'"
proof -
  obtain rq rs where inv: "requests w = Some rq" "responses w = Some rs" "list_all request_wf rq"
    "unsent (tl rq)" "list_all response_wf rs" "outstanding rq \<longrightarrow> timeout_watch w > 0" "\<not> freed w"
    "refs w \<ge> (if write_watch w > 0 then 2 else 1) + int (held (client w))" "buflen w = length (buf w)" "next_source w > 0"
    using assms(1) by (rule attrib_invE)
  obtain q where q: "rs = c # q" "w' = w\<lparr>responses := Some q\<rparr>"
    using assms(2) inv(2) by (auto simp: pop_response_def split: list.splits)
  have "attrib_inv held w'" using inv q by (intro attrib_invI [of _ rq q]) auto
  then show ?thesis using that [of q] inv q by auto
qed

lemma pop_response_None:
  "attrib_inv held w \<Longrightarrow> pop_response w = (None, w') \<Longrightarrow> responses w = Some [] \<and> w' = w"
  by (auto simp: pop_response_def elim!: attrib_invE split: list.splits)

lemma cancel_at_requests:
  assumes "list_all request_wf q" "unsent (tl q)" "n < length q" "cancel_at n q = (q', c)"
  shows "list_all request_wf q'" "unsent (tl q')" "outstanding q' \<Longrightarrow> outstanding q"
    "q' \<noteq> [] \<Longrightarrow> \<not> outstanding q' \<Longrightarrow> q \<noteq> [] \<and> \<not> outstanding q"
proof -
  obtain d t where q: "q = d # t" using assms(3) by (cases q) auto
  have all: "list_all request_wf q' \<and> unsent (tl q') \<and> (outstanding q' \<longrightarrow> outstanding q) \<and>
    (q' \<noteq> [] \<longrightarrow> \<not> outstanding q' \<longrightarrow> q \<noteq> [] \<and> \<not> outstanding q)"
  proof (cases n)
    case 0
    then show ?thesis using assms q
      by (cases "cmd_sent d") (auto simp: cancel_at_def Let_def request_wf_def)
  next
    case (Suc m)
    have "q' = d # take m t @ drop (Suc m) t" using assms(4) Suc q by (auto simp: cancel_at_def Let_def)
    then show ?thesis using assms(1,2) q
      by (auto simp: unsent_def list_all_iff dest: in_set_takeD in_set_dropD)
  qed
  then show "list_all request_wf q'" "unsent (tl q')" "outstanding q' \<Longrightarrow> outstanding q"
    "q' \<noteq> [] \<Longrightarrow> \<not> outstanding q' \<Longrightarrow> q \<noteq> [] \<and> \<not> outstanding q" by auto
qed

lemma cancel_at_responses:
  assumes "list_all response_wf q" "n < length q" "cancel_at n q = (q', c)"
  shows "list_all response_wf q'"
proof -
  have "\<not> cmd_sent (q ! n)" using assms(1,2) by (auto simp: list_all_length response_wf_def)
  then have "q' = take n q @ drop (Suc n) q" using assms(3) by (auto simp: cancel_at_def Let_def)
  then show ?thesis using assms(1) by (auto simp: list_all_iff dest: in_set_takeD in_set_dropD)
qed

lemma source_remove_frame [simp]:
  "requests (source_remove i w) = requests w" "responses (source_remove i w) = responses w"
  "timeout_watch (source_remove i w) = timeout_watch w" "stale (source_remove i w) = stale w"
  "freed (source_remove i w) = freed w" "events (source_remove i w) = events w"
  "refs (source_remove i w) = refs w" "write_watch (source_remove i w) = write_watch w"
  "read_watch (source_remove i w) = read_watch w" "buf (source_remove i w) = buf w"
  "buflen (source_remove i w) = buflen w" "out_of_memory (source_remove i w) = out_of_memory w" "next_source (source_remove i w) = next_source w"
  "written (source_remove i w) = written w" "client (source_remove i w) = client w"
  by (simp_all add: source_remove_def)

lemma attrib_inv_cong:
  assumes "attrib_inv held w" "requests w' = requests w" "responses w' = responses w"
    "timeout_watch w' = timeout_watch w" "freed w' = freed w" "refs w' = refs w"
    "write_watch w' = write_watch w" "client w' = client w" "buf w' = buf w" "buflen w' = buflen w" "next_source w' = next_source w"
  shows "attrib_inv held w'"
  using assms by (simp add: attrib_inv_def queues_ok_def)

lemma attrib_inv_source_remove [simp]: "attrib_inv held (source_remove i w) \<longleftrightarrow> attrib_inv held w"
  by (auto elim: attrib_inv_cong)

lemma wake_source_remove [simp]:
  "wake_resp (source_remove i w) \<longleftrightarrow> wake_resp w" "wake_req (source_remove i w) \<longleftrightarrow> wake_req w"
  "holders held (source_remove i w) = holders held w"
  by (simp_all add: wake_resp_def wake_req_def holders_def)

definition stop_timer :: "('c, 's) gattrib \<Rightarrow> ('c, 's) gattrib" where
  "stop_timer w = (if timeout_watch w > 0 then (source_remove (timeout_watch w) w)\<lparr>timeout_watch := 0\<rparr> else w)"

lemma stop_timer_frame [simp]:
  "requests (stop_timer w) = requests w" "responses (stop_timer w) = responses w"
  "stale (stop_timer w) = stale w" "write_watch (stop_timer w) = write_watch w"
  "freed (stop_timer w) = freed w" "refs (stop_timer w) = refs w" "buf (stop_timer w) = buf w"
  "buflen (stop_timer w) = buflen w" "next_source (stop_timer w) = next_source w"
  "holders held (stop_timer w) = holders held w" "client (stop_timer w) = client w"
  "out_of_memory (stop_timer w) = out_of_memory w"
  "events (stop_timer w) = events w" "written (stop_timer w) = written w" "timeout_watch (stop_timer w) = 0"
  by (simp_all add: stop_timer_def holders_def)

lemma timer_stopped:
  assumes "attrib_inv held w"
  shows "requests w = Some [] \<Longrightarrow> attrib_inv held (stop_timer w)"
    "requests w = Some (c # t) \<Longrightarrow> attrib_inv held ((stop_timer w)\<lparr>requests := Some t\<rparr>) \<and> idle ((stop_timer w)\<lparr>requests := Some t\<rparr>)"
proof -
  obtain rq rs where q: "requests w = Some rq" "responses w = Some rs" "list_all request_wf rq"
    "unsent (tl rq)" "list_all response_wf rs" "outstanding rq \<longrightarrow> timeout_watch w > 0" "\<not> freed w"
    "refs w \<ge> (if write_watch w > 0 then 2 else 1) + int (held (client w))" "buflen w = length (buf w)" "next_source w > 0"
    using assms(1) by (rule attrib_invE)
  show "attrib_inv held (stop_timer w)" if "requests w = Some []"
    using q(2-) that by (intro attrib_invI [of _ "[]" rs]) simp_all
  show "attrib_inv held ((stop_timer w)\<lparr>requests := Some t\<rparr>) \<and> idle ((stop_timer w)\<lparr>requests := Some t\<rparr>)"
    if "requests w = Some (c # t)"
    using q that by (auto simp: idle_def intro!: attrib_invI [of _ t rs])
qed

text \<open>The loop of \<open>g_attrib_cancel_all\<close>: every pop and every destruction keeps the invariant,
  except that the first request in the queue may have become one nobody was woken up for.\<close>

definition queue_kept :: "('s \<Rightarrow> nat) \<Rightarrow> ('c, 's) gattrib \<Rightarrow> ('c, 's) gattrib \<Rightarrow> bool" where
  "queue_kept held w w' \<longleftrightarrow> attrib_inv held w' \<and> timeout_watch w' = timeout_watch w \<and> holders held w' \<ge> holders held w \<and>
     stale w' = stale w \<and> (wake_resp w \<longrightarrow> wake_resp w') \<and> (write_watch w > 0 \<longrightarrow> write_watch w' > 0)"

lemma queue_kept_trans: "queue_kept held w w' \<Longrightarrow> queue_kept held w' w'' \<Longrightarrow> queue_kept held w w''"
  by (auto simp: queue_kept_def)

lemma keeps_queue_kept: "keeps held w w' \<Longrightarrow> queue_kept held w w'"
  by (simp add: keeps_def queue_kept_def)

section \<open>Handlers and operations that run client code\<close>

fun is_result :: "'c call \<Rightarrow> bool" where
  "is_result (Result_Call _ _ _ _) = True"
| "is_result _ = False"

text \<open>The contract between the channel and its client: the client may do anything when it is
  called that keeps the invariant; when it is called with a result no request is outstanding.\<close>

locale attrib_client =
  fixes cl :: "('c, 's) client"
    and held :: "'s \<Rightarrow> nat"
  assumes call_keeps: "attrib_inv held w \<Longrightarrow> (is_result c \<Longrightarrow> idle w) \<Longrightarrow> cl c w = Some w' \<Longrightarrow> keeps held w w'"
begin

lemma notify_keeps: "attrib_inv held w \<Longrightarrow> cl (Notify_Call f) w = Some w' \<Longrightarrow> keeps held w w'"
  by (rule call_keeps [of w "Notify_Call f"]) simp_all

lemma event_keeps: "attrib_inv held w \<Longrightarrow> cl (Event_Call f d n) w = Some w' \<Longrightarrow> keeps held w w'"
  by (rule call_keeps [of w "Event_Call f d n"]) simp_all

lemma command_destroy_keeps: "attrib_inv held w \<Longrightarrow> command_destroy cl c w = Some w' \<Longrightarrow> keeps held w w'"
  by (auto simp: command_destroy_def split: option.splits intro: notify_keeps)

lemma event_destroy_keeps: "attrib_inv held w \<Longrightarrow> event_destroy cl e w = Some w' \<Longrightarrow> keeps held w w'"
  by (auto simp: event_destroy_def split: option.splits intro: notify_keeps)

lemma result_call_keeps:
  "attrib_inv held w \<Longrightarrow> idle w \<Longrightarrow> result_call cl c st pdu len w = Some w' \<Longrightarrow> keeps held w w'"
  by (auto simp: result_call_def split: option.splits intro: call_keeps)

lemma complete_keeps:
  assumes "attrib_inv held w" "idle w" "result_call cl c st pdu len w = Some w1" "command_destroy cl c w1 = Some w2"
  shows "keeps held w w2"
  using result_call_keeps [OF assms(1-3)] command_destroy_keeps [OF _ assms(4)] keeps_trans keeps_inv by blast

lemma abort_requests:
  assumes "attrib_inv held w" "holders held w \<ge> h"
    "drain pop_request (\<lambda>c w. do { w \<leftarrow> result_call cl c ATT_ECODE_ABORTED None 0 w; command_destroy cl c w }) w = Some w'"
  shows "attrib_inv held w' \<and> holders held w' \<ge> h \<and> requests w' = Some []"
proof (rule drain_induct [where I = "\<lambda>w. attrib_inv held w \<and> holders held w \<ge> h", OF _ _ assms(3)])
  fix w c w1 w2
  assume i: "attrib_inv held w \<and> holders held w \<ge> h" and p: "pop_request w = (Some c, w1)"
    and r: "result_call cl c ATT_ECODE_ABORTED None 0 w1 \<bind> command_destroy cl c = Some w2"
  obtain q where "w1 = w\<lparr>requests := Some q\<rparr>" "attrib_inv held w1" "idle w1"
    using pop_request_cases [OF conjunct1 [OF i] p] by metis
  moreover from this have "keeps held w1 w2" using r complete_keeps by (auto simp: bind_eq_Some_conv)
  ultimately show "attrib_inv held w2 \<and> holders held w2 \<ge> h" using i by (auto simp: keeps_def holders_def)
next
  fix w w1 assume "attrib_inv held w \<and> holders held w \<ge> h" "pop_request w = (None, w1)"
  then show "attrib_inv held w1 \<and> holders held w1 \<ge> h \<and> requests w1 = Some []"
    using pop_request_None by blast
qed (use assms in simp)

lemma unref_holds:
  assumes "attrib_inv held w" "holders held w \<ge> 2"
  shows "g_attrib_unref cl w = Some (w\<lparr>refs := refs w - 1\<rparr>)" "attrib_inv held (w\<lparr>refs := refs w - 1\<rparr>)"
  using assms by (auto simp: g_attrib_unref_def holders_def attrib_inv_def queues_ok_def split: if_splits)

lemma disconnect_timeout_inv:
  assumes "attrib_inv held w" "disconnect_timeout cl w = Some (b, w')"
  shows "attrib_inv held w' \<and> holders held w' \<ge> holders held w \<and> requests w' = Some [] \<and> stale w' \<and> \<not> b"
proof -
  define w0 where "w0 = g_attrib_ref w"
  have i0: "attrib_inv held w0" "holders held w0 = holders held w + 1" "holders held w \<ge> 1"
    using assms(1) by (auto simp: w0_def g_attrib_ref_def attrib_inv_def queues_ok_def holders_def split: if_splits)
  obtain w3 where w3: "attrib_inv held w3" "holders held w3 \<ge> holders held w + 1" "requests w3 = Some []"
    "g_attrib_unref cl (w3\<lparr>stale := True\<rparr>) = Some w'" "\<not> b"
  proof (cases "pop_request w0")
    case (Pair c w1)
    show ?thesis
    proof (cases c)
      case None
      then have "requests w0 = Some []" "w1 = w0" using pop_request_None i0(1) Pair by blast+
      then show ?thesis using that [of w0] assms(2) i0 None Pair
        by (auto simp: disconnect_timeout_def bind_eq_Some_conv simp flip: w0_def)
    next
      case (Some x)
      then obtain q where q: "w1 = w0\<lparr>requests := Some q\<rparr>" "attrib_inv held w1" "idle w1"
        using pop_request_cases [OF i0(1)] Pair by metis
      obtain w2 w2' w3 where r: "result_call cl x ATT_ECODE_TIMEOUT None 0 w1 = Some w2"
        "command_destroy cl x w2 = Some w2'"
        "drain pop_request (\<lambda>c w. do { w \<leftarrow> result_call cl c ATT_ECODE_ABORTED None 0 w; command_destroy cl c w }) w2' = Some w3"
        "g_attrib_unref cl (w3\<lparr>stale := True\<rparr>) = Some w'" "\<not> b"
        using assms(2) Pair Some
        by (auto simp: disconnect_timeout_def bind_eq_Some_conv alive_def simp flip: w0_def split: if_splits)
      have "keeps held w1 w2'" using complete_keeps [OF q(2,3) r(1,2)] .
      then have "attrib_inv held w2'" "holders held w2' \<ge> holders held w + 1"
        using q(1) i0(2) by (auto simp: keeps_def holders_def)
      then show ?thesis using that [of w3] abort_requests [OF _ _ r(3)] r(4,5) by blast
    qed
  qed
  have i3: "attrib_inv held (w3\<lparr>stale := True\<rparr>)" using w3(1) by (rule attrib_inv_cong) simp_all
  have h3: "holders held (w3\<lparr>stale := True\<rparr>) \<ge> 2" using w3(2) i0(3) by (simp add: holders_def)
  show ?thesis
    using unref_holds [OF i3 h3] w3 by (auto simp: holders_def)
qed

text \<open>The sender: after it was run, the write watch is gone or still wanted.\<close>

lemma sender_removed:
  assumes "attrib_inv held w" "write_watch w > 0" "destroy_sender cl (source_remove i w) = Some w'"
  shows "attrib_inv held w' \<and> holders held w' = holders held w \<and> write_watch w' = 0 \<and> requests w' = requests w \<and>
    responses w' = responses w \<and> stale w' = stale w"
proof -
  have "refs w \<ge> 2" using assms(1,2) by (auto simp: attrib_inv_def)
  then show ?thesis
    using assms by (auto simp: destroy_sender_def g_attrib_unref_def attrib_inv_def queues_ok_def holders_def)
qed

text \<open>One run of \<open>can_write_data\<close>: either a PDU that expects no answer was taken off its queue
  and the watch stays, or the state is as needed for the watch to go.\<close>

lemma can_write_data_inv:
  assumes inv: "attrib_inv held w" and watch: "write_watch w > 0" and run: "can_write_data cl bad ok w = Some (b, w')"
  shows "attrib_inv held w' \<and> holders held w' \<ge> holders held w \<and> stale w' = stale w \<and> write_watch w' > 0 \<and>
    (\<not> b \<longrightarrow> \<not> bad \<longrightarrow> ok \<longrightarrow> \<not> stale w \<longrightarrow> responses w' = Some [] \<and> (\<exists>q. requests w' = Some q \<and> (q = [] \<or> outstanding q)))"
proof -
  obtain rq rs where q: "requests w = Some rq" "responses w = Some rs" "list_all request_wf rq"
    "unsent (tl rq)" "list_all response_wf rs" "outstanding rq \<longrightarrow> timeout_watch w > 0" "\<not> freed w"
    "refs w \<ge> (if write_watch w > 0 then 2 else 1) + int (held (client w))" "buflen w = length (buf w)" "next_source w > 0"
    using inv by (rule attrib_invE)
  show ?thesis
  proof (cases "stale w \<or> bad")
    case True
    then have "w' = w" using run by (auto simp: can_write_data_def split: if_splits)
    then show ?thesis using inv watch True run by auto
  next
    case False
    show ?thesis
    proof (cases rs)
      case (Cons c t)
      have c: "cmd_expected c = 0" "\<not> cmd_sent c" using q(5) Cons by (auto simp: response_wf_def)
      show ?thesis
      proof (cases ok)
        case True
        let ?w1 = "w\<lparr>written := written w @ [cmd_pdu c], responses := Some t\<rparr>"
        have r: "command_destroy cl c ?w1 = Some w'" "b"
          using run False q(1,2) Cons c True by (auto simp: can_write_data_def write_head_def bind_eq_Some_conv)
        have "attrib_inv held ?w1" using q Cons by (intro attrib_invI [of _ rq t]) auto
        then have "keeps held ?w1 w'" using command_destroy_keeps r(1) by blast
        then show ?thesis using r(2) watch by (auto simp: keeps_def holders_def)
      next
        case no: False
        then have "w' = w" using run False q(1,2) Cons c by (auto simp: can_write_data_def write_head_def)
        then show ?thesis using inv watch no by auto
      qed
    next
      case Nil
      show ?thesis
      proof (cases rq)
        case Nil': Nil
        then have "w' = w" "\<not> b" using run False q(1,2) Nil by (auto simp: can_write_data_def)
        then show ?thesis using inv watch q Nil Nil' by auto
      next
        case (Cons c t)
        consider (sent) "cmd_sent c" | (fail) "\<not> cmd_sent c" "\<not> ok" | (free) "\<not> cmd_sent c" "ok" "cmd_expected c = 0"
          | (req) "\<not> cmd_sent c" "ok" "cmd_expected c \<noteq> 0" by blast
        then show ?thesis
        proof cases
          case sent
          then have "w' = w" using run False q(1,2) Nil Cons by (auto simp: can_write_data_def write_head_def)
          then show ?thesis using inv watch q Nil Cons sent by auto
        next
          case fail
          then have "w' = w" using run False q(1,2) Nil Cons by (auto simp: can_write_data_def write_head_def)
          then show ?thesis using inv watch fail by auto
        next
          case free
          let ?w1 = "w\<lparr>written := written w @ [cmd_pdu c], requests := Some t\<rparr>"
          have r: "command_destroy cl c ?w1 = Some w'" "b"
            using run False q(1,2) Nil Cons free by (auto simp: can_write_data_def write_head_def bind_eq_Some_conv)
          have "attrib_inv held ?w1" using q Nil Cons by (intro attrib_invI [of _ t rs]) auto
          then have "keeps held ?w1 w'" using command_destroy_keeps r(1) by blast
          then show ?thesis using r(2) watch by (auto simp: keeps_def holders_def)
        next
          case req
          then have w': "requests w' = Some (c\<lparr>cmd_sent := True\<rparr> # t)" "responses w' = Some []" "timeout_watch w' > 0"
            "freed w' = freed w" "refs w' = refs w" "write_watch w' = write_watch w" "client w' = client w" "buf w' = buf w"
            "buflen w' = buflen w" "next_source w' > 0" "stale w' = stale w" "\<not> b"
            using run False q Nil Cons by (auto simp: can_write_data_def write_head_def source_add_def Let_def split: if_splits)
          have "attrib_inv held w'"
            using w' q Cons req by (intro attrib_invI [of _ "c\<lparr>cmd_sent := True\<rparr> # t" "[]"]) (auto simp: request_wf_def)
          then show ?thesis using w' watch by (auto simp: holders_def)
        qed
      qed
    qed
  qed
qed

lemma dispatch_writable_inv:
  assumes inv: "attrib_inv held w" and watch: "write_watch w > 0" and run: "dispatch_writable cl bad ok w = Some w'"
  shows "attrib_inv held w' \<and> holders held w' \<ge> holders held w" "\<not> bad \<Longrightarrow> ok \<Longrightarrow> wake_ok w'"
proof -
  obtain b w1 where c: "can_write_data cl bad ok w = Some (b, w1)"
    and d: "if b then w' = w1 else destroy_sender cl (source_remove (write_watch w) w1) = Some w'"
    using run by (auto simp: dispatch_writable_def bind_eq_Some_conv alive_def split: if_splits)
  note i = can_write_data_inv [OF inv watch c]
  show "attrib_inv held w' \<and> holders held w' \<ge> holders held w"
    using i d sender_removed [of w1] by (auto split: if_splits)
  show "wake_ok w'" if "\<not> bad" "ok"
  proof (cases b)
    case True
    then show ?thesis using i d by (auto simp: wake_ok_def wake_watch)
  next
    case False
    then have s: "requests w' = requests w1" "responses w' = responses w1" "stale w' = stale w1"
      using d i sender_removed [of w1] by auto
    show ?thesis
      using i False that s by (cases "stale w") (auto simp: wake_ok_def wake_resp_def wake_req_def)
  qed
qed

lemma received_done_inv:
  assumes inv: "attrib_inv held w" and id: "cmd \<noteq> None \<longrightarrow> idle w"
    and run: "received_done cl st d n cmd w = Some (b, w')"
  shows "attrib_inv held w' \<and> holders held w' \<ge> holders held w \<and> b \<and>
    (wake_req w \<or> idle w \<longrightarrow> wake_resp w \<longrightarrow> wake_ok w')"
proof -
  obtain rq rs where q: "requests w = Some rq" "responses w = Some rs" and ns: "next_source w > 0"
    using inv by (rule attrib_invE)
  define w1 where "w1 = (if rq \<noteq> [] \<or> rs \<noteq> [] then wake_up_sender w else w)"
  have eq: "received_done cl st d n cmd w = (case cmd of
        None \<Rightarrow> Some (True, w1)
      | Some c \<Rightarrow> do {
          w \<leftarrow> result_call cl c st (Some d) (of_nat n) w1;
          w \<leftarrow> command_destroy cl c w;
          Some (True, w)
        })"
    unfolding received_done_def w1_def by (simp add: q Let_def) blast
  have k: "keeps held w w1" using inv wake_up_sender_keeps [OF inv] by (simp add: w1_def)
  have wk: "wake_resp w1" "wake_req w1"
    using ns q by (simp_all add: w1_def wake_watch) (simp_all add: wake_resp_def wake_req_def)
  have id1: "cmd \<noteq> None \<longrightarrow> idle w1" using id by (simp add: w1_def idle_def)
  have "b \<and> keeps held w1 w'"
  proof (cases cmd)
    case None
    then have "b" "w' = w1" using run eq by simp_all
    then show ?thesis using keeps_inv [OF k] by simp
  next
    case (Some c)
    then have "(do {
          w \<leftarrow> result_call cl c st (Some d) (of_nat n) w1;
          w \<leftarrow> command_destroy cl c w;
          Some (True, w)
        }) = Some (b, w')"
      using run eq by simp
    then obtain w2 where r: "result_call cl c st (Some d) (of_nat n) w1 = Some w2" "command_destroy cl c w2 = Some w'" "b"
      by (auto simp: bind_eq_Some_conv)
    then show ?thesis using complete_keeps [OF keeps_inv [OF k] _ r(1,2)] id1 Some by simp
  qed
  moreover from this have "keeps held w w'" using k keeps_trans by blast
  ultimately show ?thesis using wk by (simp add: keeps_def wake_ok_def)
qed

text \<open>\<open>received_data\<close> from the response on: the events have been reported.\<close>

lemma received_response_inv:
  assumes inv: "attrib_inv held w1" and run: "(do {
       w \<leftarrow> alive w1;
       let w = (if timeout_watch w > 0
                then (source_remove (timeout_watch w) w)\<lparr>timeout_watch := 0\<rparr> else w);
       (case pop_request w of
          (None, w) \<Rightarrow> Some (events w \<noteq> [], w)
        | (Some cmd, w) \<Rightarrow>
            if op = ATT_OP_ERROR then do {
              status \<leftarrow> rd data 4;
              received_done cl status data n (Some cmd) w
            }
            else if cmd_expected cmd \<noteq> op then received_done cl ATT_ECODE_IO data n (Some cmd) w
            else received_done cl 0 data n (Some cmd) w)
     }) = Some (b, w')"
  shows "attrib_inv held w' \<and> holders held w' \<ge> holders held w1 \<and> (wake_ok w1 \<longrightarrow> wake_ok w')"
proof -
  obtain rq rs where q: "requests w1 = Some rq" "\<not> freed w1" using inv by (rule attrib_invE)
  have run2: "(case pop_request (stop_timer w1) of
          (None, w) \<Rightarrow> Some (events w \<noteq> [], w)
        | (Some cmd, w) \<Rightarrow>
            if op = ATT_OP_ERROR then do {
              status \<leftarrow> rd data 4;
              received_done cl status data n (Some cmd) w
            }
            else if cmd_expected cmd \<noteq> op then received_done cl ATT_ECODE_IO data n (Some cmd) w
            else received_done cl 0 data n (Some cmd) w) = Some (b, w')"
    using run q(2) by (simp add: alive_def Let_def stop_timer_def)
  show ?thesis
  proof (cases rq)
    case Nil
    then have "w' = stop_timer w1" using run2 q by (simp add: pop_request_def)
    then show ?thesis
      using timer_stopped(1) [OF inv] q Nil by (simp add: wake_ok_def wake_resp_def wake_req_def)
  next
    case (Cons c t)
    define w3 where "w3 = (stop_timer w1)\<lparr>requests := Some t\<rparr>"
    have p: "pop_request (stop_timer w1) = (Some c, w3)" using q Cons by (simp add: pop_request_def w3_def)
    have i3: "attrib_inv held w3" "idle w3" using timer_stopped(2) [OF inv, of c t] q Cons by (simp_all add: w3_def)
    have h: "holders held w3 = holders held w1" "wake_resp w1 \<longrightarrow> wake_resp w3"
      by (simp_all add: w3_def wake_resp_def) (simp add: holders_def)
    obtain st where "received_done cl st data n (Some c) w3 = Some (b, w')"
      using run2 by (auto simp: p bind_eq_Some_conv split: if_splits)
    from received_done_inv [OF i3(1) _ this] show ?thesis
      using i3 h by (auto simp: wake_ok_def)
  qed
qed

lemma report_events_keeps:
  assumes "attrib_inv held w" "walk_events (\<lambda>evt w. do { m \<leftarrow> match_event evt data n;
      (if m then cl (Event_Call (evt_func evt) data n) w else Some w) }) l w = Some w1"
  shows "keeps held w w1"
proof (rule walk_events_induct [where I = "keeps held w", OF _ assms(2)])
  fix e v v1
  assume k: "keeps held w v"
    and b: "match_event e data n \<bind> (\<lambda>m. if m then cl (Event_Call (evt_func e) data n) v else Some v) = Some v1"
  have "keeps held v v1"
    using b keeps_inv [OF k] event_keeps by (auto simp: bind_eq_Some_conv split: if_splits)
  then show "keeps held w v1" using k keeps_trans by blast
qed (use assms in simp)

lemma received_data_inv:
  assumes inv: "attrib_inv held w" and run: "received_data cl bad input w = Some (b, w')"
  shows "attrib_inv held w' \<and> holders held w' \<ge> holders held w \<and> (wake_ok w \<longrightarrow> wake_ok w')"
proof (cases "stale w \<or> bad")
  case True
  then consider "w' = w" | "w' = w\<lparr>read_watch := 0\<rparr>" using run by (auto simp: received_data_def split: if_splits)
  then show ?thesis
  proof cases
    case 2
    then have "attrib_inv held w'" using attrib_inv_cong [OF inv, of w'] by simp
    then show ?thesis using 2 by (simp add: holders_def wake_ok_def wake_resp_def wake_req_def)
  qed (use inv in simp)
next
  case False
  show ?thesis
  proof (cases input)
    case None
    then have "received_done cl ATT_ECODE_IO (replicate 512 0) 0 None w = Some (b, w')"
      using run False by (simp add: received_data_def)
    from received_done_inv [OF inv _ this] show ?thesis by (auto simp: wake_ok_def)
  next
    case (Some d)
    then obtain data where data: "wrn (replicate 512 0) 0 d = Some data"
      using run False by (cases "wrn (replicate 512 0) 0 d :: bytes option") (simp_all add: received_data_def)
    define report where "report = (\<lambda>evt w. do { m \<leftarrow> match_event evt data (length d);
           (if m then cl (Event_Call (evt_func evt) data (length d)) w else Some w) })"
    obtain w1 where w1: "walk_events report (events w) w = Some w1"
      using run False Some data
      by (cases "walk_events report (events w) w") (simp_all add: received_data_def Let_def flip: report_def)
    have k: "keeps held w w1" by (rule report_events_keeps [OF inv w1 [unfolded report_def]])
    obtain op where op: "rd data 0 = Some op" using wrn_length [OF data] by simp
    show ?thesis
    proof (cases "is_response op")
      case False
      then have "w' = w1" using run \<open>\<not> (stale w \<or> bad)\<close> Some data w1 op
        by (simp add: received_data_def Let_def del: rd_eq_Some flip: report_def)
      then show ?thesis using k by (auto simp: keeps_def wake_ok_def)
    next
      case True
      have "attrib_inv held w' \<and> holders held w' \<ge> holders held w1 \<and> (wake_ok w1 \<longrightarrow> wake_ok w')"
        using run \<open>\<not> (stale w \<or> bad)\<close> Some data w1 op True
        by (intro received_response_inv [of w1 op data "length d"] keeps_inv [OF k])
          (simp add: received_data_def Let_def del: rd_eq_Some flip: report_def)
      then show ?thesis using k by (auto simp: keeps_def wake_ok_def)
    qed
  qed
qed

lemma dispatch_readable_inv:
  assumes "attrib_inv held w" "dispatch_readable cl bad input w = Some w'"
  shows "attrib_inv held w' \<and> holders held w' \<ge> holders held w \<and> (wake_ok w \<longrightarrow> wake_ok w')"
proof -
  obtain b w1 where "received_data cl bad input w = Some (b, w1)"
    "w' = (if b then w1 else source_remove (read_watch w) w1)"
    using assms(2) by (auto simp: dispatch_readable_def bind_eq_Some_conv)
  then show ?thesis
    using received_data_inv [OF assms(1)] by (auto simp: wake_ok_def)
qed

lemma dispatch_timeout_inv:
  assumes "attrib_inv held w" "dispatch_timeout cl w = Some w'"
  shows "attrib_inv held w' \<and> holders held w' \<ge> holders held w \<and> wake_ok w' \<and> stale w' \<and> requests w' = Some []"
proof -
  obtain b w1 where r: "disconnect_timeout cl w = Some (b, w1)" "w' = (if b then w1 else source_remove (timeout_watch w) w1)"
    using assms(2) by (auto simp: dispatch_timeout_def bind_eq_Some_conv)
  then show ?thesis
    using disconnect_timeout_inv [OF assms(1) r(1)] by (auto simp: wake_ok_def wake_resp_def wake_req_def)
qed

text \<open>Cancelling.\<close>

lemma cancelled_keeps:
  "attrib_inv held w \<Longrightarrow> destroy_cancelled cl c w = Some w' \<Longrightarrow> keeps held w w'"
  by (auto simp: destroy_cancelled_def command_destroy_keeps split: option.splits)

lemma cancel_keeps:
  assumes inv: "attrib_inv held w" and run: "g_attrib_cancel cl i w = Some (b, w')"
  shows "keeps held w w'"
proof -
  obtain rq rs where q: "requests w = Some rq" "responses w = Some rs" "list_all request_wf rq"
    "unsent (tl rq)" "list_all response_wf rs" "outstanding rq \<longrightarrow> timeout_watch w > 0" "\<not> freed w"
    "refs w \<ge> (if write_watch w > 0 then 2 else 1) + int (held (client w))" "buflen w = length (buf w)" "next_source w > 0"
    using inv by (rule attrib_invE)
  show ?thesis
  proof (cases "find_index (\<lambda>c. cmd_id c = i) rq")
    case (Some n)
    obtain q' c where c: "cancel_at n rq = (q', c)" by (cases "cancel_at n rq")
    have n: "n < length rq" using find_index_Some [OF Some] by simp
    note k = cancel_at_requests [OF q(3,4) n c]
    have r: "destroy_cancelled cl c (w\<lparr>requests := Some q'\<rparr>) = Some w'"
      using run q(1) Some c by (auto simp: g_attrib_cancel_def bind_eq_Some_conv)
    have i1: "attrib_inv held (w\<lparr>requests := Some q'\<rparr>)" using q k by (intro attrib_invI [of _ q' rs]) auto
    have "keeps held w (w\<lparr>requests := Some q'\<rparr>)"
      using i1 k(4) q(1) by (auto simp: keeps_def holders_def wake_resp_def wake_req_def)
    then show ?thesis using cancelled_keeps [OF i1 r] keeps_trans by blast
  next
    case None
    show ?thesis
    proof (cases "find_index (\<lambda>c. cmd_id c = i) rs")
      case (Some n)
      obtain q' c where c: "cancel_at n rs = (q', c)" by (cases "cancel_at n rs")
      have n: "n < length rs" using find_index_Some [OF Some] by simp
      have r: "destroy_cancelled cl c (w\<lparr>responses := Some q'\<rparr>) = Some w'"
        using run q(1,2) None Some c by (auto simp: g_attrib_cancel_def bind_eq_Some_conv)
      have i1: "attrib_inv held (w\<lparr>responses := Some q'\<rparr>)"
        using q cancel_at_responses [OF q(5) n c] by (intro attrib_invI [of _ rq q']) auto
      have "rs \<noteq> []" using n by auto
      then have "keeps held w (w\<lparr>responses := Some q'\<rparr>)"
        using i1 q(2) by (auto simp: keeps_def holders_def wake_resp_def wake_req_def)
      then show ?thesis using cancelled_keeps [OF i1 r] keeps_trans by blast
    next
      case None': None
      then have "w' = w" using run q(1,2) None by (simp add: g_attrib_cancel_def del: find_index_None)
      then show ?thesis using inv by simp
    qed
  qed
qed

lemma cancel_requests_loop:
  assumes run: "cancel_loop cl pop_request True None w0 = Some (h, w')" and inv: "attrib_inv held w0"
  shows "requests w' = Some [] \<and> queue_kept held w0 w' \<and>
    (\<forall>c. h = Some c \<longrightarrow> request_wf c \<and> cmd_sent c \<and> timeout_watch w0 > 0)"
proof -
  define J :: "bool \<Rightarrow> 'c command option \<Rightarrow> ('c, 's) gattrib \<Rightarrow> bool"
    where "J = (\<lambda>first head w. queue_kept held w0 w \<and> (first \<and> head \<noteq> None \<longrightarrow> idle w) \<and>
    (\<forall>c. head = Some c \<longrightarrow> request_wf c \<and> cmd_sent c \<and> timeout_watch w0 > 0))"
  have "cl = cl \<longrightarrow> pop_request = (pop_request :: ('c, 's) gattrib \<Rightarrow> _) \<longrightarrow> J True None w0 \<longrightarrow>
    requests (snd (h, w')) = Some [] \<and> J False (fst (h, w')) (snd (h, w'))"
  proof (rule cancel_loop.raw_induct [where P = "\<lambda>c' p first head w r. c' = cl \<longrightarrow> p = pop_request \<longrightarrow>
      J first head w \<longrightarrow> requests (snd r) = Some [] \<and> J False (fst r) (snd r)", OF _ run], intro impI)
    fix f :: "('c, 's) client \<Rightarrow> (('c, 's) gattrib \<Rightarrow> 'c command option \<times> ('c, 's) gattrib) \<Rightarrow> bool \<Rightarrow>
      'c command option \<Rightarrow> ('c, 's) gattrib \<Rightarrow> ('c command option \<times> ('c, 's) gattrib) option"
      and c' p first head w r
    assume IH: "\<And>c' p first head w r. f c' p first head w = Some r \<Longrightarrow> c' = cl \<longrightarrow> p = pop_request \<longrightarrow>
        J first head w \<longrightarrow> requests (snd r) = Some [] \<and> J False (fst r) (snd r)"
      and eq: "(case p w of (None, w') \<Rightarrow> Some (head, w')
        | (Some c, w') \<Rightarrow>
            if first \<and> cmd_sent c then f c' p first (Some (c\<lparr>cmd_func := None\<rparr>)) w'
            else command_destroy c' c w' \<bind> (\<lambda>w''. alive w'' \<bind> f c' p False head)) = Some r"
      and cp: "c' = cl" "p = pop_request" and J: "J first head w"
    have i: "attrib_inv held w" using J by (simp add: J_def queue_kept_def)
    obtain c w1 where pop: "pop_request w = (c, w1)" by (cases "pop_request w")
    show "requests (snd r) = Some [] \<and> J False (fst r) (snd r)"
    proof (cases c)
      case None
      then have "requests w = Some []" "w1 = w" using pop_request_None i pop by blast+
      then show ?thesis using eq pop None cp J by (auto simp: J_def)
    next
      case (Some x)
      then obtain q where q: "requests w = Some (x # q)" "w1 = w\<lparr>requests := Some q\<rparr>" "request_wf x" "unsent q"
        "attrib_inv held w1" "idle w1" using pop_request_cases [OF i] pop by metis
      have k: "queue_kept held w0 w1" using J q by (auto simp: J_def queue_kept_def holders_def wake_resp_def)
      have t: "cmd_sent x \<Longrightarrow> timeout_watch w0 > 0"
        using i J q(1) by (auto simp: attrib_inv_def queues_ok_def J_def queue_kept_def)
      show ?thesis
      proof (cases "first \<and> cmd_sent x")
        case True
        then have "head = None" using J q(1) by (auto simp: J_def idle_def)
        then have "J first (Some (x\<lparr>cmd_func := None\<rparr>)) w1"
          using k q t True by (auto simp: J_def request_wf_def)
        moreover have "f cl pop_request first (Some (x\<lparr>cmd_func := None\<rparr>)) w1 = Some r"
          using eq pop Some cp True by simp
        ultimately show ?thesis using IH by blast
      next
        case False
        then obtain w2 where w2: "command_destroy cl x w1 = Some w2" "f cl pop_request False head w2 = Some r"
          using eq pop Some cp by (auto simp: bind_eq_Some_conv alive_def split: if_splits)
        have "queue_kept held w0 w2"
          using k keeps_queue_kept [OF command_destroy_keeps [OF q(5) w2(1)]] queue_kept_trans by blast
        then have "J False head w2" using J by (auto simp: J_def)
        then show ?thesis using IH [OF w2(2)] by simp
      qed
    qed
  qed
  moreover have "J True None w0" using inv by (simp add: J_def queue_kept_def)
  ultimately show ?thesis by (simp add: J_def)
qed

lemma cancel_all_requests_keeps:
  assumes inv: "attrib_inv held w" and run: "cancel_all_requests cl w = Some (b, w')"
  shows "keeps held w w'"
proof -
  obtain h w1 where r: "cancel_loop cl pop_request True None w = Some (h, w1)"
    "w' = (case h of None \<Rightarrow> w1 | Some c \<Rightarrow> w1\<lparr>requests := Some [c]\<rparr>)"
    using run inv cancel_requests_loop [OF _ inv]
    by (fastforce simp: cancel_all_requests_def bind_eq_Some_conv elim!: attrib_invE split: if_splits)
  note k = cancel_requests_loop [OF r(1) inv]
  then have i1: "attrib_inv held w1" by (simp add: queue_kept_def)
  obtain rs where rs: "responses w1 = Some rs" "list_all response_wf rs" "\<not> freed w1"
    "refs w1 \<ge> (if write_watch w1 > 0 then 2 else 1) + int (held (client w1))" "buflen w1 = length (buf w1)" "next_source w1 > 0"
    using i1 by (rule attrib_invE)
  show ?thesis
  proof (cases h)
    case None
    then show ?thesis using k r(2) by (auto simp: keeps_def queue_kept_def wake_req_def)
  next
    case (Some c)
    then have "attrib_inv held w'"
      using r(2) k rs by (intro attrib_invI [of _ "[c]" rs]) (auto simp: queue_kept_def)
    then show ?thesis using Some r(2) k
      by (auto simp: keeps_def queue_kept_def wake_req_def wake_resp_def holders_def)
  qed
qed

lemma cancel_responses_loop:
  assumes run: "cancel_loop cl pop_response True None w0 = Some (h, w')" and inv: "attrib_inv held w0"
  shows "h = None \<and> keeps held w0 w' \<and> responses w' = Some []"
proof -
  define J :: "'c command option \<Rightarrow> ('c, 's) gattrib \<Rightarrow> bool"
    where "J = (\<lambda>head w. keeps held w0 w \<and> head = None)"
  have "cl = cl \<longrightarrow> pop_response = (pop_response :: ('c, 's) gattrib \<Rightarrow> _) \<longrightarrow> J None w0 \<longrightarrow>
    responses (snd (h, w')) = Some [] \<and> J (fst (h, w')) (snd (h, w'))"
  proof (rule cancel_loop.raw_induct [where P = "\<lambda>c' p first head w r. c' = cl \<longrightarrow> p = pop_response \<longrightarrow>
      J head w \<longrightarrow> responses (snd r) = Some [] \<and> J (fst r) (snd r)", OF _ run], intro impI)
    fix f :: "('c, 's) client \<Rightarrow> (('c, 's) gattrib \<Rightarrow> 'c command option \<times> ('c, 's) gattrib) \<Rightarrow> bool \<Rightarrow>
      'c command option \<Rightarrow> ('c, 's) gattrib \<Rightarrow> ('c command option \<times> ('c, 's) gattrib) option"
      and c' p first head w r
    assume IH: "\<And>c' p first head w r. f c' p first head w = Some r \<Longrightarrow> c' = cl \<longrightarrow> p = pop_response \<longrightarrow>
        J head w \<longrightarrow> responses (snd r) = Some [] \<and> J (fst r) (snd r)"
      and eq: "(case p w of (None, w') \<Rightarrow> Some (head, w')
        | (Some c, w') \<Rightarrow>
            if first \<and> cmd_sent c then f c' p first (Some (c\<lparr>cmd_func := None\<rparr>)) w'
            else command_destroy c' c w' \<bind> (\<lambda>w''. alive w'' \<bind> f c' p False head)) = Some r"
      and cp: "c' = cl" "p = pop_response" and J: "J head w"
    have i: "attrib_inv held w" using J by (simp add: J_def keeps_def)
    obtain c w1 where pop: "pop_response w = (c, w1)" by (cases "pop_response w")
    show "responses (snd r) = Some [] \<and> J (fst r) (snd r)"
    proof (cases c)
      case None
      then have "responses w = Some []" "w1 = w" using pop_response_None i pop by blast+
      then show ?thesis using eq pop None cp J by (auto simp: J_def)
    next
      case (Some x)
      then obtain q where q: "responses w = Some (x # q)" "w1 = w\<lparr>responses := Some q\<rparr>" "response_wf x"
        "attrib_inv held w1" using pop_response_cases [OF i] pop by metis
      have k: "keeps held w w1"
        using q by (auto simp: keeps_def holders_def wake_resp_def wake_req_def)
      obtain w2 where w2: "command_destroy cl x w1 = Some w2" "f cl pop_response False head w2 = Some r"
        using eq pop Some cp q(3) by (auto simp: response_wf_def bind_eq_Some_conv alive_def split: if_splits)
      have "keeps held w0 w2"
        using J keeps_trans [OF keeps_trans [OF _ k] command_destroy_keeps [OF q(4) w2(1)]] by (simp add: J_def)
      then show ?thesis using IH [OF w2(2)] J by (simp add: J_def)
    qed
  qed
  then show ?thesis using inv by (simp add: J_def)
qed

lemma cancel_all_keeps:
  assumes inv: "attrib_inv held w" and run: "g_attrib_cancel_all cl w = Some (b, w')"
  shows "keeps held w w'"
proof -
  obtain b1 w1 b2 where r: "cancel_all_requests cl w = Some (b1, w1)" "cancel_all_responses cl w1 = Some (b2, w')"
    using run by (auto simp: g_attrib_cancel_all_def bind_eq_Some_conv alive_def split: if_splits)
  have k: "keeps held w w1" by (rule cancel_all_requests_keeps [OF inv r(1)])
  obtain rs where rs: "responses w1 = Some rs" using keeps_inv [OF k] by (rule attrib_invE)
  then obtain h w2 where l: "cancel_loop cl pop_response True None w1 = Some (h, w2)"
    using r(2) by (auto simp: cancel_all_responses_def bind_eq_Some_conv)
  note m = cancel_responses_loop [OF l keeps_inv [OF k]]
  have "w' = w2" using r(2) rs l m by (auto simp: cancel_all_responses_def)
  then show ?thesis using m k keeps_trans by blast
qed

lemma unregister_keeps:
  assumes "attrib_inv held w" "g_attrib_unregister cl i w = Some (b, w')"
  shows "keeps held w w'"
proof -
  have *: "keeps held w v'" if "event_destroy cl e (w\<lparr>events := l\<rparr>) = Some v'" for e l v'
  proof -
    have i: "attrib_inv held (w\<lparr>events := l\<rparr>)" by (rule attrib_inv_cong [OF assms(1)]) simp_all
    have "keeps held w (w\<lparr>events := l\<rparr>)" using i by (simp add: keeps_def holders_def wake_resp_def wake_req_def)
    then show ?thesis using event_destroy_keeps [OF i that] keeps_trans by blast
  qed
  show ?thesis
    using assms by (auto simp: g_attrib_unregister_def bind_eq_Some_conv Let_def simp del: find_index_None
        split: if_splits option.splits dest: *)
qed

lemma unregister_all_keeps:
  assumes inv: "attrib_inv held w" and run: "g_attrib_unregister_all cl w = Some (b, w')"
  shows "keeps held w w'"
proof (cases "events w = []")
  case True
  then show ?thesis using run inv by (simp add: g_attrib_unregister_all_def)
next
  case False
  then obtain w1 where w1: "walk_events (event_destroy cl) (events w) w = Some w1" "w' = w1\<lparr>events := []\<rparr>"
    using run by (auto simp: g_attrib_unregister_all_def bind_eq_Some_conv)
  have k: "keeps held w w1"
    by (rule walk_events_induct [where I = "keeps held w", OF _ w1(1)])
      (use inv event_destroy_keeps keeps_inv keeps_trans keeps_refl in blast)+
  have "keeps held w1 w'"
    using attrib_inv_cong [OF keeps_inv [OF k], of w'] w1(2)
    by (simp add: keeps_def holders_def wake_resp_def wake_req_def)
  then show ?thesis using k keeps_trans by blast
qed

end

end
