(* ===== verification/Gattrib_Run.thy ===== *)
theory Gattrib_Run
  imports Gattrib_Inv
begin

text \<open>
  The runs of the attribute channel: a step for every operation of the client and every handler
  that the main loop dispatches, the invariant and the wake-up rule of every reachable state, and
  what the handlers do step by step, observed by a client that records its calls.
\<close>

section \<open>Steps\<close>

datatype 'c label =
    Send u32 bytes u16 "'c option" "'c option"
  | Cancel u32
  | Cancel_All
  | Register u8 u16 'c "'c option"
  | Unregister u32
  | Unregister_All
  | Set_Mtu int
  | Ref
  | Unref
  | Memory bool
  | Writable bool bool
  | Readable bool "bytes option"
  | Timer

text \<open>A client drops only references it holds. A handler runs while its source is attached;
  \<open>Memory\<close> is the environment deciding whether allocation fails.\<close>

inductive attrib_step :: "('c, 's) client \<Rightarrow> ('s \<Rightarrow> nat) \<Rightarrow> 'c label \<Rightarrow> ('c, 's) gattrib \<Rightarrow> ('c, 's) gattrib \<Rightarrow> bool"
  for cl held
where
  send: "may_send i pdu w \<Longrightarrow> g_attrib_send i pdu len f g w = Some (r, w') \<Longrightarrow> attrib_step cl held (Send i pdu len f g) w w'"
| cancel: "g_attrib_cancel cl i w = Some (b, w') \<Longrightarrow> attrib_step cl held (Cancel i) w w'"
| cancel_all: "g_attrib_cancel_all cl w = Some (b, w') \<Longrightarrow> attrib_step cl held Cancel_All w w'"
| register: "g_attrib_register op h f g w = (i, w') \<Longrightarrow> attrib_step cl held (Register op h f g) w w'"
| unregister: "g_attrib_unregister cl i w = Some (b, w') \<Longrightarrow> attrib_step cl held (Unregister i) w w'"
| unregister_all: "g_attrib_unregister_all cl w = Some (b, w') \<Longrightarrow> attrib_step cl held Unregister_All w w'"
| set_mtu: "g_attrib_set_mtu mtu w = (b, w') \<Longrightarrow> attrib_step cl held (Set_Mtu mtu) w w'"
| ref: "attrib_step cl held Ref w (g_attrib_ref w)"
| unref: "holders held w \<ge> 2 \<Longrightarrow> g_attrib_unref cl w = Some w' \<Longrightarrow> attrib_step cl held Unref w w'"
| memory: "attrib_step cl held (Memory b) w (w\<lparr>out_of_memory := b\<rparr>)"
| writable: "write_watch w > 0 \<Longrightarrow> dispatch_writable cl bad ok w = Some w' \<Longrightarrow> attrib_step cl held (Writable bad ok) w w'"
| readable: "read_watch w > 0 \<Longrightarrow> dispatch_readable cl bad input w = Some w' \<Longrightarrow> attrib_step cl held (Readable bad input) w w'"
| timer: "timeout_watch w > 0 \<Longrightarrow> dispatch_timeout cl w = Some w' \<Longrightarrow> attrib_step cl held Timer w w'"

inductive_cases writableE: "attrib_step cl held (Writable bad ok) w w'"
inductive_simps unref_step: "attrib_step cl held Unref w w'"
inductive_simps send_step: "attrib_step cl held (Send i pdu len f g) w w'"

text \<open>The states reached from a new channel by steps whose labels are in \<open>A\<close>.\<close>

inductive reachable :: "('c, 's) client \<Rightarrow> ('s \<Rightarrow> nat) \<Rightarrow> ('c label \<Rightarrow> bool) \<Rightarrow> ('c, 's) gattrib \<Rightarrow> bool"
  for cl held A
where
  new: "g_attrib_new io True ctr src s = Some w \<Longrightarrow> src > 0 \<Longrightarrow> held s = 0 \<Longrightarrow> reachable cl held A w"
| step: "reachable cl held A w \<Longrightarrow> A l \<Longrightarrow> attrib_step cl held l w w' \<Longrightarrow> reachable cl held A w'"

fun write_succeeds :: "'c label \<Rightarrow> bool" where
  "write_succeeds (Writable bad ok) = (\<not> bad \<and> ok)"
| "write_succeeds _ = True"

lemma new_inv:
  assumes "g_attrib_new io True ctr src s = Some w" "src > 0" "held s = 0"
  shows "attrib_inv held w \<and> wake_ok w"
  using assms
  by (auto simp: g_attrib_new_def g_attrib_ref_def Let_def wake_ok_def wake_resp_def wake_req_def
      intro!: attrib_invI [of _ "[]" "[]"] split: option.splits)

lemma set_mtu_keeps: "attrib_inv held w \<Longrightarrow> g_attrib_set_mtu mtu w = (b, w') \<Longrightarrow> keeps held w w'"
  by (auto simp: g_attrib_set_mtu_def keeps_def attrib_inv_def queues_ok_def holders_def wake_resp_def
      wake_req_def split: if_splits)

lemma register_keeps: "attrib_inv held w \<Longrightarrow> g_attrib_register op h f g w = (i, w') \<Longrightarrow> keeps held w w'"
  by (auto simp: g_attrib_register_def keeps_def attrib_inv_def queues_ok_def holders_def wake_resp_def
      wake_req_def Let_def split: if_splits)

lemma ref_keeps: "attrib_inv held w \<Longrightarrow> keeps held w (g_attrib_ref w)"
  by (auto simp: g_attrib_ref_def keeps_def attrib_inv_def queues_ok_def holders_def wake_resp_def wake_req_def)

lemma memory_keeps: "attrib_inv held w \<Longrightarrow> keeps held w (w\<lparr>out_of_memory := b\<rparr>)"
  by (auto simp: keeps_def attrib_inv_def queues_ok_def holders_def wake_resp_def wake_req_def)

context attrib_client begin

lemma step_inv:
  assumes "attrib_step cl held l w w'" "attrib_inv held w"
  shows "attrib_inv held w' \<and> (write_succeeds l \<longrightarrow> wake_ok w \<longrightarrow> wake_ok w')"
proof -
  have k: "keeps held w w' \<Longrightarrow> ?thesis" by (simp add: keeps_def wake_ok_def)
  show ?thesis
    using assms(1)
  proof cases
    case (send i pdu len f g r)
    then show ?thesis using send_keeps [OF assms(2)] k by blast
  next
    case (cancel i b)
    then show ?thesis using cancel_keeps [OF assms(2)] k by blast
  next
    case (cancel_all b)
    then show ?thesis using cancel_all_keeps [OF assms(2)] k by blast
  next
    case (register op h f g i)
    then show ?thesis using register_keeps [OF assms(2)] k by blast
  next
    case (unregister i b)
    then show ?thesis using unregister_keeps [OF assms(2)] k by blast
  next
    case (unregister_all b)
    then show ?thesis using unregister_all_keeps [OF assms(2)] k by blast
  next
    case (set_mtu mtu b)
    then show ?thesis using set_mtu_keeps [OF assms(2)] k by blast
  next
    case ref
    then show ?thesis using ref_keeps [OF assms(2)] k by simp
  next
    case unref
    then show ?thesis
      using unref_holds [OF assms(2)] by (auto simp: wake_ok_def wake_resp_def wake_req_def)
  next
    case (memory b)
    then show ?thesis using memory_keeps [OF assms(2)] k by simp
  next
    case (writable bad ok)
    then show ?thesis using dispatch_writable_inv [OF assms(2), of bad ok w'] by (cases bad; cases ok) auto
  next
    case (readable bad input)
    then show ?thesis using dispatch_readable_inv [OF assms(2)] by blast
  next
    case timer
    then show ?thesis using dispatch_timeout_inv [OF assms(2)] by blast
  qed
qed

lemma reachable_inv:
  assumes "reachable cl held A w"
  shows "attrib_inv held w \<and> ((\<forall>l. A l \<longrightarrow> write_succeeds l) \<longrightarrow> wake_ok w)"
  using assms
proof (induction rule: reachable.induct)
  case (new io ctr src s w)
  from new_inv [of io ctr src s w held, OF this] show ?case by simp
next
  case (step w l w')
  from step.IH step_inv [OF step.hyps(3)] step.hyps(2) show ?case by blast
qed

end

section \<open>A client that records its calls\<close>

definition recorder :: "('c, 'c call list) client" where
  "recorder c w = Some (w\<lparr>client := client w @ [c]\<rparr>)"

abbreviation (input) nothing_held :: "'c call list \<Rightarrow> nat" where "nothing_held \<equiv> \<lambda>_. 0"

interpretation recorder: attrib_client recorder nothing_held
proof
  fix w :: "('c, 'c call list) gattrib" and c w'
  assume "attrib_inv nothing_held w" "recorder c w = Some w'"
  then show "keeps nothing_held w w'"
    by (auto simp: recorder_def keeps_def attrib_inv_def queues_ok_def holders_def wake_resp_def wake_req_def)
qed

definition notify_calls :: "'c option \<Rightarrow> 'c call list" where
  "notify_calls f = (case f of None \<Rightarrow> [] | Some f \<Rightarrow> [Notify_Call f])"

text \<open>The calls that complete a command: its result, then the release of its user data.\<close>

definition completion :: "'c command \<Rightarrow> u8 \<Rightarrow> ptr \<Rightarrow> u16 \<Rightarrow> 'c call list" where
  "completion c status pdu len =
     (case cmd_func c of None \<Rightarrow> [] | Some f \<Rightarrow> [Result_Call f status pdu len]) @ notify_calls (cmd_notify c)"

definition logged :: "'c call list \<Rightarrow> ('c, 'c call list) gattrib \<Rightarrow> ('c, 'c call list) gattrib" where
  "logged l w = w\<lparr>client := client w @ l\<rparr>"

lemma logged_simps [simp]:
  "logged [] w = w" "logged l (logged k w) = logged (k @ l) w"
  "requests (logged l w) = requests w" "responses (logged l w) = responses w" "events (logged l w) = events w"
  "timeout_watch (logged l w) = timeout_watch w" "write_watch (logged l w) = write_watch w"
  "read_watch (logged l w) = read_watch w" "refs (logged l w) = refs w" "stale (logged l w) = stale w"
  "freed (logged l w) = freed w" "written (logged l w) = written w" "client (logged l w) = client w @ l"
  "out_of_memory (logged l w) = out_of_memory w" "buf (logged l w) = buf w" "buflen (logged l w) = buflen w"
  "next_source (logged l w) = next_source w" "sources (logged l w) = sources w"
  by (simp_all add: logged_def)

lemma recorder_logged: "recorder c w = Some (logged [c] w)"
  by (simp add: recorder_def logged_def)

lemma command_destroy_recorder [simp]:
  "command_destroy recorder c w = Some (logged (notify_calls (cmd_notify c)) w)"
  by (simp add: command_destroy_def notify_calls_def recorder_logged split: option.split)

lemma event_destroy_recorder [simp]:
  "event_destroy recorder e w = Some (logged (notify_calls (evt_notify e)) w)"
  by (simp add: event_destroy_def notify_calls_def recorder_logged split: option.split)

lemma complete_recorder:
  "do { w \<leftarrow> result_call recorder c st pdu len w; command_destroy recorder c w } = Some (logged (completion c st pdu len) w)"
  by (simp add: result_call_def completion_def recorder_logged split: option.split)

lemma pop_request_simps [simp]:
  "requests w = Some (c # q) \<Longrightarrow> pop_request w = (Some c, w\<lparr>requests := Some q\<rparr>)"
  "requests w = Some [] \<Longrightarrow> pop_request w = (None, w)"
  by (simp_all add: pop_request_def)

lemma drain_recorder:
  assumes "requests w = Some q" "\<not> freed w"
  shows "drain pop_request (\<lambda>c w. do { w \<leftarrow> result_call recorder c st pdu len w; command_destroy recorder c w }) w
    = Some (logged (concat (map (\<lambda>c. completion c st pdu len) q)) (w\<lparr>requests := Some []\<rparr>))"
  unfolding complete_recorder
  using assms
proof (induction q arbitrary: w)
  case Nil
  then show ?case by (subst drain.simps) simp
next
  case (Cons c q)
  have "(logged l (w\<lparr>requests := Some q\<rparr>))\<lparr>requests := Some []\<rparr> = logged l (w\<lparr>requests := Some []\<rparr>)" for l
    by (simp add: logged_def)
  then show ?case
    using Cons.prems Cons.IH [of "logged (completion c st pdu len) (w\<lparr>requests := Some q\<rparr>)"]
    by (subst drain.simps) (simp add: alive_def)
qed

end
