(* ===== verification/Gatt_Inv.thy ===== *)
theory Gatt_Inv
  imports Gatt Gattrib_Run
begin

text \<open>
  The GATT procedures are a client of the channel: they meet its contract, for any program above them that
  does. Every live discovery object holds one reference to the channel.
\<close>

section \<open>Encoders keep the size of the buffer\<close>

definition same_length :: "(ptr \<Rightarrow> nat \<Rightarrow> ('r \<times> ptr) option) \<Rightarrow> bool" where
  "same_length enc \<longleftrightarrow> (\<forall>b n r b'. enc (Some b) n = Some (r, Some b') \<longrightarrow> length b' = length b)"

lemma same_lengthI: "(\<And>b n r b'. enc (Some b) n = Some (r, Some b') \<Longrightarrow> length b' = length b) \<Longrightarrow> same_length enc"
  by (simp add: same_length_def)

lemmas write_lengths = wr_length wrn_length

lemma put_lengths:
  "att_put_u16 v p i = Some p' \<Longrightarrow> length p' = length p"
  "att_put_uuid16 u p i = Some p' \<Longrightarrow> length p' = length p"
  "att_put_uuid u p i = Some p' \<Longrightarrow> length p' = length p"
  by (auto simp: att_put_u16_def att_put_uuid16_def att_put_uuid128_def att_put_u128_def att_put_uuid_def
      bind_eq_Some_conv dest: write_lengths split: bt_uuid_t.splits)

lemma encoders_same_length:
  "same_length (enc_read_req h)" "same_length (enc_read_blob_req h off)"
  "same_length (enc_write_req h v l)" "same_length (enc_write_cmd h v l)" "same_length (enc_prep_write_req h off v l)"
  "same_length (enc_exec_write_req f)" "same_length (enc_mtu_req m)" "same_length (enc_find_info_req s e)"
  "same_length (enc_read_by_type_req s e u)" "same_length (enc_read_by_grp_req s e u)"
  "same_length (enc_find_by_type_req s e u v l)"
  by (auto intro!: same_lengthI simp: enc_read_req_def enc_read_blob_req_def enc_write_req_def enc_write_cmd_def
      enc_prep_write_req_def enc_exec_write_req_def enc_mtu_req_def enc_find_info_req_def enc_read_by_type_req_def
      enc_read_by_grp_req_def enc_find_by_type_req_def bind_eq_Some_conv Let_def
      dest!: write_lengths put_lengths split: if_splits option.splits bt_uuid_t.splits)

lemma encode_discover_primary_length: "same_length (encode_discover_primary s e u)"
proof (rule same_lengthI)
  fix b n r b'
  assume e: "encode_discover_primary s e u (Some b) n = Some (r, Some b')"
  consider v where "enc_read_by_grp_req s e v (Some b) n = Some (r, Some b')"
    | v val vlen where "enc_find_by_type_req s e v val vlen (Some b) n = Some (r, Some b')"
    using e unfolding encode_discover_primary_def Let_def
    by (cases u) (auto simp: bind_eq_Some_conv)
  then show "length b' = length b"
    using encoders_same_length(10,11) unfolding same_length_def by cases blast+
qed

lemma dec_read_resp_length: "dec_read_resp pdu len (Some b) n = Some (r, Some b') \<Longrightarrow> length b' = length b"
  by (auto simp: dec_read_resp_def bind_eq_Some_conv dest!: write_lengths split: if_splits option.splits)

section \<open>References held by the discovery objects\<close>

definition live :: "'a option list \<Rightarrow> nat" where
  "live h = length (filter (\<lambda>x. x \<noteq> None) h)"

definition gatt_held :: "('u, 's) gatt_state \<Rightarrow> nat" where
  "gatt_held s = live (dps s) + live (isds s) + live (dcs s)"

lemma live_append [simp]: "live (h @ [Some x]) = Suc (live h)"
  by (simp add: live_def)

lemma live_simps [simp]: "live [] = 0" "live (x # h) = (if x = None then live h else Suc (live h))"
  by (simp_all add: live_def)

lemma live_update:
  "cell h a = Some y \<Longrightarrow> live (h[a := Some x]) = live h"
  "cell h a = Some y \<Longrightarrow> Suc (live (h[a := None])) = live h"
proof -
  have "live (h[a := Some x]) = live h \<and> Suc (live (h[a := None])) = live h" if "cell h a = Some y"
    using that
  proof (induction h arbitrary: a)
    case (Cons z h)
    then show ?case by (cases a) (auto simp: cell_def split: if_splits)
  qed (simp add: cell_def)
  then show "cell h a = Some y \<Longrightarrow> live (h[a := Some x]) = live h"
    "cell h a = Some y \<Longrightarrow> Suc (live (h[a := None])) = live h" by auto
qed

section \<open>What keeps the contract of the channel\<close>

abbreviation (input) gkeeps :: "('u, 's) world \<Rightarrow> ('u, 's) world \<Rightarrow> bool" where
  "gkeeps \<equiv> keeps gatt_held"

lemma on_client_simps [simp]:
  "requests (on_client f w) = requests w" "responses (on_client f w) = responses w" "events (on_client f w) = events w"
  "timeout_watch (on_client f w) = timeout_watch w" "write_watch (on_client f w) = write_watch w"
  "read_watch (on_client f w) = read_watch w" "refs (on_client f w) = refs w" "stale (on_client f w) = stale w"
  "freed (on_client f w) = freed w" "written (on_client f w) = written w" "client (on_client f w) = f (client w)"
  "out_of_memory (on_client f w) = out_of_memory w" "buf (on_client f w) = buf w" "buflen (on_client f w) = buflen w"
  "next_source (on_client f w) = next_source w" "sources (on_client f w) = sources w"
  "next_cmd_id (on_client f w) = next_cmd_id w"
  by (simp_all add: on_client_def)

lemma on_client_keeps:
  assumes "keeps h w0 w" "h (f (client w)) = h (client w)"
  shows "keeps h w0 (on_client f w)"
  using assms by (auto simp: keeps_def attrib_inv_def queues_ok_def holders_def wake_resp_def wake_req_def)

lemma take_ref_keeps:
  assumes "keeps h w0 w" "h (f (client w)) = Suc (h (client w))"
  shows "keeps h w0 (on_client f (g_attrib_ref w))"
  using assms
  by (auto simp: keeps_def attrib_inv_def queues_ok_def holders_def wake_resp_def wake_req_def g_attrib_ref_def)

lemma drop_ref_keeps:
  assumes "keeps h w0 w" "Suc (h (f (client w))) = h (client w)" "g_attrib_unref cl (on_client f w) = Some w'"
  shows "keeps h w0 w'"
proof -
  have "refs w \<ge> 2" using assms(1,2) by (auto simp: keeps_def attrib_inv_def split: if_splits)
  then have "w' = (on_client f w)\<lparr>refs := refs w - 1\<rparr>" using assms(3) by (simp add: g_attrib_unref_def)
  then show ?thesis using assms
    by (auto simp: keeps_def attrib_inv_def queues_ok_def holders_def wake_resp_def wake_req_def)
qed

lemma buf_keeps:
  assumes "keeps h w0 w" "length b = length (buf w)"
  shows "keeps h w0 (w\<lparr>buf := b\<rparr>)"
  using assms by (auto simp: keeps_def attrib_inv_def queues_ok_def holders_def wake_resp_def wake_req_def)

lemma encode_keeps:
  assumes "keeps h w0 w" "same_length enc" "encode_into enc w = Some (n, w')"
  shows "keeps h w0 w'"
  using assms by (auto simp: encode_into_def g_attrib_get_buffer_def bind_eq_Some_conv same_length_def intro!: buf_keeps)

lemma send_keeps_from:
  assumes "keeps h w0 w" "g_attrib_send 0 pdu len f g w = Some (r, w')"
  shows "keeps h w0 w'"
  using keeps_trans [OF assms(1) send_keeps [OF keeps_inv [OF assms(1)] _ assms(2)]] by (simp add: may_send_def)

lemma set_dp_keeps: "keeps gatt_held w0 w \<Longrightarrow> cell (dps (client w)) a = Some y \<Longrightarrow> keeps gatt_held w0 (set_dp a (Some x) w)"
  by (auto simp: set_dp_def gatt_held_def live_update intro: on_client_keeps)

lemma set_isd_keeps: "keeps gatt_held w0 w \<Longrightarrow> cell (isds (client w)) a = Some y \<Longrightarrow> keeps gatt_held w0 (set_isd a (Some x) w)"
  by (auto simp: set_isd_def gatt_held_def live_update intro: on_client_keeps)

lemma set_dc_keeps: "keeps gatt_held w0 w \<Longrightarrow> cell (dcs (client w)) a = Some y \<Longrightarrow> keeps gatt_held w0 (set_dc a (Some x) w)"
  by (auto simp: set_dc_def gatt_held_def live_update intro: on_client_keeps)

lemma set_rl_keeps: "keeps gatt_held w0 w \<Longrightarrow> keeps gatt_held w0 (set_rl a x w)"
  by (auto simp: set_rl_def gatt_held_def intro: on_client_keeps)

lemma set_wl_keeps: "keeps gatt_held w0 w \<Longrightarrow> keeps gatt_held w0 (set_wl a x w)"
  by (auto simp: set_wl_def gatt_held_def intro: on_client_keeps)

lemma dp_free_keeps:
  assumes "keeps gatt_held w0 w" "discover_primary_free cl a w = Some w'"
  shows "keeps gatt_held w0 w'"
proof -
  obtain y where y: "cell (dps (client w)) a = Some y" "g_attrib_unref cl (set_dp a None w) = Some w'"
    using assms(2) by (auto simp: discover_primary_free_def bind_eq_Some_conv)
  show ?thesis
    by (rule drop_ref_keeps [OF assms(1) _ y(2) [unfolded set_dp_def]])
      (use live_update(2) [OF y(1)] in \<open>simp add: gatt_held_def\<close>)
qed

lemma dc_free_keeps:
  assumes "keeps gatt_held w0 w" "discover_char_free cl a w = Some w'"
  shows "keeps gatt_held w0 w'"
proof -
  obtain y where y: "cell (dcs (client w)) a = Some y" "g_attrib_unref cl (set_dc a None w) = Some w'"
    using assms(2) by (auto simp: discover_char_free_def bind_eq_Some_conv)
  show ?thesis
    by (rule drop_ref_keeps [OF assms(1) _ y(2) [unfolded set_dc_def]])
      (use live_update(2) [OF y(1)] in \<open>simp add: gatt_held_def\<close>)
qed

lemma isd_free_keeps:
  assumes "keeps gatt_held w0 w" "cell (isds (client w)) a = Some y" "g_attrib_unref cl (set_isd a None w) = Some w'"
  shows "keeps gatt_held w0 w'"
  by (rule drop_ref_keeps [OF assms(1) _ assms(3) [unfolded set_isd_def]])
    (use live_update(2) [OF assms(2)] in \<open>simp add: gatt_held_def\<close>)

lemma isd_ref_keeps: "keeps gatt_held w0 w \<Longrightarrow> isd_ref a w = Some w' \<Longrightarrow> keeps gatt_held w0 w'"
  by (auto simp: isd_ref_def bind_eq_Some_conv intro: set_isd_keeps)

lemma set_err_keeps: "keeps gatt_held w0 w \<Longrightarrow> set_err a e w = Some w' \<Longrightarrow> keeps gatt_held w0 w'"
  by (auto simp: set_err_def bind_eq_Some_conv intro: set_isd_keeps)

lemma rl_addref_keeps: "keeps gatt_held w0 w \<Longrightarrow> rl_addref a w = Some w' \<Longrightarrow> keeps gatt_held w0 w'"
  by (auto simp: rl_addref_def bind_eq_Some_conv intro: set_rl_keeps)

lemma read_long_destroy_keeps: "keeps gatt_held w0 w \<Longrightarrow> read_long_destroy a w = Some w' \<Longrightarrow> keeps gatt_held w0 w'"
  by (auto simp: read_long_destroy_def bind_eq_Some_conv Let_def intro: set_rl_keeps)

section \<open>The operations\<close>

lemma gatt_discover_primary_keeps:
  assumes "keeps gatt_held w0 w" "gatt_discover_primary uuid func w = Some (r, w')"
  shows "keeps gatt_held w0 w'"
proof -
  obtain n w1 where w1: "encode_into (encode_discover_primary 1 0xffff uuid) w = Some (n, w1)"
    using assms(2) by (auto simp: gatt_discover_primary_def bind_eq_Some_conv)
  have k: "keeps gatt_held w0 w1" by (rule encode_keeps [OF assms(1) encode_discover_primary_length w1])
  have "keeps gatt_held w0 (on_client (\<lambda>s. s\<lparr>dps := dps s @ [Some x]\<rparr>) (g_attrib_ref w1))" for x
    by (rule take_ref_keeps [OF k]) (simp add: gatt_held_def)
  then show ?thesis
    using assms(2) w1 k by (auto simp: gatt_discover_primary_def Let_def split: if_splits)
    (blast intro: send_keeps_from [rotated])+
qed

lemma gatt_discover_char_keeps:
  assumes "keeps gatt_held w0 w" "gatt_discover_char st en uuid func w = Some (r, w')"
  shows "keeps gatt_held w0 w'"
proof -
  obtain n w1 where w1: "encode_into (enc_read_by_type_req st en (Some (snd (bt_uuid16_create GATT_CHARAC_UUID)))) w = Some (n, w1)"
    using assms(2) by (auto simp: gatt_discover_char_def bind_eq_Some_conv)
  have k: "keeps gatt_held w0 w1" by (rule encode_keeps [OF assms(1) encoders_same_length(9) w1])
  have "keeps gatt_held w0 (on_client (\<lambda>s. s\<lparr>dcs := dcs s @ [Some x]\<rparr>) (g_attrib_ref w1))" for x
    by (rule take_ref_keeps [OF k]) (simp add: gatt_held_def)
  then show ?thesis
    using assms(2) w1 k by (auto simp: gatt_discover_char_def Let_def split: if_splits)
    (blast intro: send_keeps_from [rotated])+
qed

lemma find_included_keeps:
  "keeps gatt_held w0 w \<Longrightarrow> find_included a st w = Some (r, w') \<Longrightarrow> keeps gatt_held w0 w'"
  by (auto simp: find_included_def bind_eq_Some_conv)
    (blast intro: send_keeps_from [rotated] isd_ref_keeps [rotated] encode_keeps [OF _ encoders_same_length(9), rotated])+

lemma gatt_find_included_keeps:
  assumes "keeps gatt_held w0 w" "gatt_find_included st en func w = Some (r, w')"
  shows "keeps gatt_held w0 w'"
proof -
  have "keeps gatt_held w0 (on_client (\<lambda>s. s\<lparr>isds := isds s @ [Some x]\<rparr>) (g_attrib_ref w))" for x
    by (rule take_ref_keeps [OF assms(1)]) (simp add: gatt_held_def)
  then show ?thesis
    using assms(2) by (auto simp: gatt_find_included_def Let_def split: if_splits)
    (blast intro: find_included_keeps [rotated])+
qed

lemma simple_request_keeps:
  assumes "keeps h w0 w" "same_length enc"
    "do { (plen, w) \<leftarrow> encode_into enc w;
          (if P plen then Some (0, w) else g_attrib_send 0 (buf w) plen f g w) } = Some (r, w')"
  shows "keeps h w0 w'"
  using assms by (auto simp: bind_eq_Some_conv split: if_splits)
    (blast intro: send_keeps_from [rotated] encode_keeps [rotated 2])+

lemma simple_requests_keep:
  assumes "keeps gatt_held w0 w"
  shows "gatt_read_char_by_uuid st en u func w = Some (r, w') \<Longrightarrow> keeps gatt_held w0 w'"
    "execute_write flags func' w = Some (r, w') \<Longrightarrow> keeps gatt_held w0 w'"
    "gatt_exchange_mtu mtu func w = Some (r, w') \<Longrightarrow> keeps gatt_held w0 w'"
    "gatt_discover_char_desc st en func w = Some (r, w') \<Longrightarrow> keeps gatt_held w0 w'"
    "gatt_write_cmd hdl val vlen notify w = Some (r, w') \<Longrightarrow> keeps gatt_held w0 w'"
  using simple_request_keeps [OF assms encoders_same_length(9), where P = "\<lambda>n. n = 0"]
    simple_request_keeps [OF assms encoders_same_length(6), where P = "\<lambda>n. n = 0"]
    simple_request_keeps [OF assms encoders_same_length(7), where P = "\<lambda>n. False"]
    simple_request_keeps [OF assms encoders_same_length(8), where P = "\<lambda>n. n = 0"]
    simple_request_keeps [OF assms encoders_same_length(4), where P = "\<lambda>n. False"]
  by (simp_all add: gatt_read_char_by_uuid_def execute_write_def gatt_exchange_mtu_def gatt_discover_char_desc_def
      gatt_write_cmd_def)

lemma prepare_write_keeps:
  "keeps gatt_held w0 w \<Longrightarrow> prepare_write a w = Some (r, w') \<Longrightarrow> keeps gatt_held w0 w'"
  by (auto simp: prepare_write_def bind_eq_Some_conv Let_def split: if_splits)
    (blast intro: send_keeps_from [rotated] encode_keeps [OF _ encoders_same_length(5), rotated])+

lemma new_wl_keeps: "keeps gatt_held w0 w \<Longrightarrow> keeps gatt_held w0 (on_client (\<lambda>s. s\<lparr>wls := wls s @ [x]\<rparr>) w)"
  by (rule on_client_keeps) (simp_all add: gatt_held_def)

lemma new_rl_keeps: "keeps gatt_held w0 w \<Longrightarrow> keeps gatt_held w0 (on_client (\<lambda>s. s\<lparr>rls := rls s @ [x]\<rparr>) w)"
  by (rule on_client_keeps) (simp_all add: gatt_held_def)

lemma gatt_write_char_keeps:
  "keeps gatt_held w0 w \<Longrightarrow> gatt_write_char hdl val vlen func w = Some (r, w') \<Longrightarrow> keeps gatt_held w0 w'"
  by (auto simp: gatt_write_char_def bind_eq_Some_conv Let_def split: if_splits)
    (blast intro: send_keeps_from [rotated] prepare_write_keeps [rotated] new_wl_keeps encode_keeps [OF _ encoders_same_length(3), rotated])+

lemma gatt_read_char_keeps:
  assumes "keeps gatt_held w0 w" "gatt_read_char hdl func w = Some (r, w')"
  shows "keeps gatt_held w0 w'"
  using assms
  by (auto simp: gatt_read_char_def bind_eq_Some_conv Let_def split: if_splits intro!: set_rl_keeps)
    (blast intro: send_keeps_from [rotated] rl_addref_keeps [rotated] new_rl_keeps encode_keeps [OF _ encoders_same_length(1), rotated])+

section \<open>The callbacks\<close>

text \<open>The contract between the GATT procedures and the program above them.\<close>

locale gatt_user =
  fixes ucl :: "('u, 's) user_client"
  assumes user_keeps: "attrib_inv gatt_held w \<Longrightarrow> ucl c w = Some w' \<Longrightarrow> keeps gatt_held w w'"
begin

lemma ucl_keeps: "keeps gatt_held w0 w \<Longrightarrow> ucl c w = Some w' \<Longrightarrow> keeps gatt_held w0 w'"
  using user_keeps keeps_inv keeps_trans by blast

lemma primary_done_keeps:
  "keeps gatt_held w0 w \<Longrightarrow> primary_done cl ucl a err w = Some w' \<Longrightarrow> keeps gatt_held w0 w'"
  by (auto simp: primary_done_def bind_eq_Some_conv)
    (blast intro: dp_free_keeps [rotated] ucl_keeps [rotated])+

lemma char_done_keeps:
  "keeps gatt_held w0 w \<Longrightarrow> char_done cl ucl a err w = Some w' \<Longrightarrow> keeps gatt_held w0 w'"
  by (auto simp: char_done_def bind_eq_Some_conv Let_def)
    (blast intro: dc_free_keeps [rotated] ucl_keeps [rotated])+

lemma blob_done_keeps: "keeps gatt_held w0 w \<Longrightarrow> blob_done ucl a st w = Some w' \<Longrightarrow> keeps gatt_held w0 w'"
  by (auto simp: blob_done_def bind_eq_Some_conv)
    (blast intro: ucl_keeps [rotated])+

lemma char_read_done_keeps:
  "keeps gatt_held w0 w \<Longrightarrow> char_read_done ucl a st p n w = Some w' \<Longrightarrow> keeps gatt_held w0 w'"
  by (auto simp: char_read_done_def bind_eq_Some_conv)
    (blast intro: ucl_keeps [rotated])+

lemma primary_by_uuid_cb_keeps:
  assumes "keeps gatt_held w0 w" "primary_by_uuid_cb cl ucl st pdu len a w = Some w'"
  shows "keeps gatt_held w0 w'"
  using assms
  by (auto simp: primary_by_uuid_cb_def bind_eq_Some_conv Let_def split: if_splits)
    (blast intro: primary_done_keeps [rotated] send_keeps_from [rotated] set_dp_keeps [rotated] encode_keeps [OF _ encode_discover_primary_length, rotated])+

lemma primary_all_cb_keeps:
  assumes "keeps gatt_held w0 w" "primary_all_cb cl ucl st pdu len a w = Some w'"
  shows "keeps gatt_held w0 w'"
  using assms
  by (auto simp: primary_all_cb_def bind_eq_Some_conv Let_def split: if_splits option.splits)
    (blast intro: primary_done_keeps [rotated] send_keeps_from [rotated] set_dp_keeps [rotated] encode_keeps [OF _ encode_discover_primary_length, rotated])+

lemma char_discovered_cb_keeps:
  assumes "keeps gatt_held w0 w" "char_discovered_cb cl ucl st pdu len a w = Some w'"
  shows "keeps gatt_held w0 w'"
  using assms
  by (auto simp: char_discovered_cb_def bind_eq_Some_conv Let_def split: if_splits option.splits)
    (blast intro: char_done_keeps [rotated] send_keeps_from [rotated] set_dc_keeps [rotated] encode_keeps [OF _ encoders_same_length(9), rotated])+

lemma prepare_write_cb_keeps:
  assumes "keeps gatt_held w0 w" "prepare_write_cb ucl st pdu len a w = Some w'"
  shows "keeps gatt_held w0 w'"
  using assms
  by (auto simp: prepare_write_cb_def bind_eq_Some_conv Let_def split: if_splits)
    (blast intro: ucl_keeps [rotated] set_wl_keeps prepare_write_keeps [rotated] simple_requests_keep(2) [rotated])+

lemma isd_unref_keeps:
  assumes "keeps gatt_held w0 w" "isd_unref cl ucl a w = Some w'"
  shows "keeps gatt_held w0 w'"
  using assms
  by (auto simp: isd_unref_def bind_eq_Some_conv Let_def split: if_splits)
    (blast intro: ucl_keeps [rotated] set_isd_keeps [rotated] isd_free_keeps [rotated])+

lemma resolved_uuid_keeps:
  assumes "keeps gatt_held w0 w" "resolved_uuid st pdu len a incl w = Some (e, w')"
  shows "keeps gatt_held w0 w'"
proof -
  have b: "keeps gatt_held w0 (w\<lparr>buf := b\<rparr>)" if "dec_read_resp pdu (unat len) (Some (buf w)) n = Some (r, Some b)" for b n r
    by (rule buf_keeps [OF assms(1) dec_read_resp_length [OF that]])
  show ?thesis
    using assms
    by (auto simp: resolved_uuid_def g_attrib_get_buffer_def bind_eq_Some_conv Let_def split: if_splits intro: set_isd_keeps b)
qed

lemma resolve_included_uuid_cb_keeps:
  "keeps gatt_held w0 w \<Longrightarrow> resolve_included_uuid_cb cl ucl st pdu len a incl w = Some w' \<Longrightarrow> keeps gatt_held w0 w'"
  by (auto simp: resolve_included_uuid_cb_def bind_eq_Some_conv)
    (blast intro: isd_unref_keeps [rotated] set_err_keeps [rotated] resolved_uuid_keeps [rotated])

lemma resolve_included_uuid_keeps:
  "keeps gatt_held w0 w \<Longrightarrow> resolve_included_uuid a incl w = Some (r, w') \<Longrightarrow> keeps gatt_held w0 w'"
  by (auto simp: resolve_included_uuid_def bind_eq_Some_conv split: if_splits)
    (blast intro: send_keeps_from [rotated] isd_ref_keeps [rotated] encode_keeps [OF _ encoders_same_length(1), rotated])+

lemma included_items_keeps:
  "keeps gatt_held w0 w \<Longrightarrow> included_items a n es h w = Some (r, w') \<Longrightarrow> keeps gatt_held w0 w'"
proof (induction es arbitrary: h w)
  case (Cons d es)
  obtain incl w1 where i: "included_from_buf d n = Some incl"
    "(if n = 6 then do { (_, w) \<leftarrow> resolve_included_uuid a incl w; Some w }
      else do { isd \<leftarrow> cell (isds (client w)) a;
        Some (set_isd a (Some (isd\<lparr>isd_includes := isd_includes isd @ [Included incl]\<rparr>)) w) }) = Some w1"
    "included_items a n es (incl_handle incl) w1 = Some (r, w')"
    using Cons.prems(2)
    by (cases "out_of_memory w") (simp, simp only: included_items.simps bind_eq_Some_conv if_False, blast)
  have "keeps gatt_held w0 w1"
    using i(2) Cons.prems(1) by (auto simp: bind_eq_Some_conv split: if_splits
        intro: resolve_included_uuid_keeps set_isd_keeps)
  then show ?case using Cons.IH i(3) by blast
qed simp

lemma included_found_keeps:
  assumes "keeps gatt_held w0 w" "included_found pdu len a w = Some (e, w')"
  shows "keeps gatt_held w0 w'"
  using assms
  by (auto simp: included_found_def bind_eq_Some_conv split: if_splits option.splits)
    (blast intro: find_included_keeps [rotated] included_items_keeps [rotated])+

lemma find_included_cb_keeps:
  assumes "keeps gatt_held w0 w" "find_included_cb st pdu len a w = Some w'"
  shows "keeps gatt_held w0 w'"
  using assms
  by (auto simp: find_included_cb_def bind_eq_Some_conv split: if_splits)
    (blast intro: set_err_keeps [rotated] included_found_keeps [rotated])+

text \<open>The continuation of a long read goes to the front of the queue: no request is outstanding then.\<close>

lemma blob_request_keeps:
  assumes "keeps gatt_held w0 w" "idle w" "encode_into (enc_read_blob_req h off) w = Some (n, w1)"
    "g_attrib_send i (buf w1) n f g w1 = Some (r, w')"
  shows "keeps gatt_held w0 w'"
proof -
  have k: "keeps gatt_held w0 w1" by (rule encode_keeps [OF assms(1) encoders_same_length(2) assms(3)])
  have "idle w1" using assms(2,3) by (auto simp: encode_into_def bind_eq_Some_conv g_attrib_get_buffer_def idle_def)
  then have "keeps gatt_held w1 w'" using send_keeps [OF keeps_inv [OF k] _ assms(4)] by (simp add: may_send_def)
  then show ?thesis using k keeps_trans by blast
qed

lemma idle_set_rl [simp]: "idle (set_rl a x w) = idle w"
  by (simp add: idle_def set_rl_def)

lemma read_blob_helper_keeps:
  assumes "keeps gatt_held w0 w" "idle w" "read_blob_helper ucl st pdu len a w = Some w'"
  shows "keeps gatt_held w0 w'"
proof -
  have b: "keeps gatt_held w0 w2" if "encode_into (enc_read_blob_req h off) (set_rl a x w) = Some (n, w1)"
    "g_attrib_send i (buf w1) n f g w1 = Some (r, w2)" for w2 w1 h off x n i f g r
    using blob_request_keeps [OF set_rl_keeps [OF assms(1)] _ that] assms(2) by simp
  show ?thesis
    using assms(1,3)
    by (auto simp: read_blob_helper_def bind_eq_Some_conv Let_def split: if_splits)
      (blast intro: b set_rl_keeps rl_addref_keeps [rotated] blob_done_keeps [rotated])+
qed

lemma read_char_helper_keeps:
  assumes "keeps gatt_held w0 w" "idle w" "read_char_helper ucl st pdu len a w = Some w'"
  shows "keeps gatt_held w0 w'"
proof -
  have b: "keeps gatt_held w0 w2" if "encode_into (enc_read_blob_req h off) (set_rl a x w) = Some (n, w1)"
    "g_attrib_send i (buf w1) n f g w1 = Some (r, w2)" for w2 w1 h off x n i f g r
    using blob_request_keeps [OF set_rl_keeps [OF assms(1)] _ that] assms(2) by simp
  show ?thesis
    using assms(1,3)
    by (auto simp: read_char_helper_def bind_eq_Some_conv Let_def split: if_splits)
      (blast intro: b set_rl_keeps rl_addref_keeps [rotated] char_read_done_keeps [rotated])+
qed

lemma gatt_dispatch_keeps:
  assumes i: "attrib_inv gatt_held w" and idle: "is_result c \<Longrightarrow> idle w" and run: "gatt_dispatch cl ucl c w = Some w'"
  shows "keeps gatt_held w w'"
proof -
  have k: "keeps gatt_held w w" using i by simp
  show ?thesis
  proof (cases c)
    case (Result_Call f st pdu len)
    then show ?thesis
      using run idle by (auto simp: gatt_dispatch_def split: gatt_fn.splits)
        (blast intro: primary_by_uuid_cb_keeps [OF k] primary_all_cb_keeps [OF k] resolve_included_uuid_cb_keeps [OF k]
          find_included_cb_keeps [OF k] char_discovered_cb_keeps [OF k] read_blob_helper_keeps [OF k]
          read_char_helper_keeps [OF k] prepare_write_cb_keeps [OF k] ucl_keeps [OF k])+
  next
    case (Event_Call f data len)
    then show ?thesis
      using run by (auto simp: gatt_dispatch_def split: gatt_fn.splits intro: ucl_keeps [OF k])
  next
    case (Notify_Call f)
    then show ?thesis
      using run by (auto simp: gatt_dispatch_def split: gatt_fn.splits
          intro: isd_unref_keeps [OF k] read_long_destroy_keeps [OF k] ucl_keeps [OF k])
  qed
qed

lemma gatt_client_keeps:
  assumes "attrib_inv gatt_held w" "is_result c \<Longrightarrow> idle w" "gatt_client n ucl c w = Some w'"
  shows "keeps gatt_held w w'"
  using assms by (cases n) (auto intro: gatt_dispatch_keeps)

end

sublocale gatt_user < channel: attrib_client "gatt_client n ucl" gatt_held for n
  by unfold_locales (rule gatt_client_keeps)

end
