(* ===== verification/Gattrib_Props.thy ===== *)
theory Gattrib_Props
  imports Gattrib_Run
begin

text \<open>
  What the attribute channel promises: the invariant of its reachable states, the wake-up rule, the
  order of results, the end of a channel by timeout, cancelling and the dispatch of events.
\<close>

section \<open>Sample states\<close>

definition sample_new :: "(nat, nat call list) gattrib" where
  "sample_new = \<lparr>refs = 1, buf = replicate 23 0, buflen = 23, read_watch = 1, write_watch = 0,
     timeout_watch = 0, requests = Some [], responses = Some [], events = [], next_cmd_id = 0,
     destroy = None, stale = False, freed = False, next_evt_id = 0, next_source = 2, sources = [1],
     out_of_memory = False, written = [], client = []\<rparr>"

definition sample_command :: "u32 \<Rightarrow> nat \<Rightarrow> nat command" where
  "sample_command i f = \<lparr>cmd_id = i, cmd_opcode = 0x0A, cmd_pdu = [0x0A, 0x11, 0], cmd_len = 3,
     cmd_expected = 0x0B, cmd_sent = False, cmd_func = Some f, cmd_notify = Some 9\<rparr>"

definition sample_sent :: "(nat, nat call list) gattrib" where
  "sample_sent = sample_new\<lparr>requests := Some [sample_command 1 7], refs := 2, write_watch := 2, next_source := 3,
     sources := [2, 1], next_cmd_id := 1\<rparr>"

lemma sample_new_reachable: "reachable recorder nothing_held A sample_new"
  by (rule reachable.new [of "Some (23, 4)" 0 1 "[]"])
    (simp_all add: sample_new_def g_attrib_new_def g_attrib_ref_def)

lemma sample_send:
  "g_attrib_send 0 [0x0A, 0x11, 0] 3 (Some 7) (Some 9) sample_new = Some (1, sample_sent)"
  by (simp add: sample_new_def sample_sent_def sample_command_def g_attrib_send_def is_response_def
      opcode2expected_def rdn_def rd_def wake_up_sender_def g_attrib_ref_def source_add_def Let_def)

lemma sample_sent_reachable: "reachable recorder nothing_held write_succeeds sample_sent"
  by (rule reachable.step [OF sample_new_reachable _ attrib_step.send [OF _ sample_send]])
    (simp_all add: may_send_def)

text \<open>A write command on the queue.\<close>

definition sample_write_command :: "nat command" where
  "sample_write_command = \<lparr>cmd_id = 1, cmd_opcode = 0x52, cmd_pdu = [0x52, 0x11, 0], cmd_len = 3,
     cmd_expected = 0, cmd_sent = False, cmd_func = None, cmd_notify = None\<rparr>"

definition sample_pushed :: "(nat, nat call list) gattrib" where
  "sample_pushed = sample_sent\<lparr>requests := Some [sample_write_command]\<rparr>"

lemma sample_push:
  "g_attrib_send 0 [0x52, 0x11, 0] 3 None None sample_new = Some (1, sample_pushed)"
  by (simp add: sample_new_def sample_sent_def sample_pushed_def sample_write_command_def g_attrib_send_def is_response_def
      opcode2expected_def rdn_def rd_def wake_up_sender_def g_attrib_ref_def source_add_def Let_def)

lemma sample_pushed_reachable: "reachable recorder nothing_held write_succeeds sample_pushed"
  by (rule reachable.step [OF sample_new_reachable _ attrib_step.send [OF _ sample_push]])
    (simp_all add: may_send_def)

lemma sample_sent_inv: "attrib_inv nothing_held sample_sent"
  using recorder.reachable_inv [OF sample_sent_reachable] by simp

section \<open>Every reachable state\<close>

text \<open>C8: Whatever a client does within its contract (it drops only references it holds, and
  continues a request only when none is outstanding), and whatever the connection does: the
  struct is never freed under it, both queues stay, only the first request can be waiting for its
  response, and while it does the timer is running; no response expects an answer.\<close>

theorem channel_invariant:
  assumes "attrib_client cl held" "reachable cl held A w"
  shows "\<not> freed w \<and> refs w > int (held (client w)) \<and>
    (\<exists>rq rs. requests w = Some rq \<and> responses w = Some rs \<and> list_all (\<lambda>c. \<not> cmd_sent c) (tl rq) \<and>
      (\<forall>c t. rq = c # t \<longrightarrow> cmd_sent c \<longrightarrow> timeout_watch w > 0) \<and>
      list_all (\<lambda>c. cmd_expected c = 0 \<and> \<not> cmd_sent c) rs)"
  using attrib_client.reachable_inv [OF assms]
  by (auto simp: attrib_inv_def queues_ok_def unsent_def response_wf_def list_all_iff split: if_splits)

lemma channel_invariant_witness: "\<not> freed sample_sent \<and> refs sample_sent > 0"
  using channel_invariant [OF recorder.attrib_client_axioms sample_sent_reachable] by simp

text \<open>C19: As long as no write fails, whoever has something to send gets to send it: in every
  reachable state of a live channel in which a response, or a request while none is outstanding, is
  queued, the write watch is attached. Running it writes the first response, if there is one, and otherwise the first
  request. A PDU that expects no answer (a response, a confirmation or a write command) is written, leaves its queue and
  is destroyed, and the watch stays for the next one; a request that expects an answer is written, stays at the head of its queue as
  the outstanding one, has a timer running, and the watch is told to go.\<close>

theorem sender_awake:
  assumes "attrib_client cl held" "reachable cl held write_succeeds w" "\<not> stale w"
    "requests w = Some rq" "responses w = Some rs" "rs \<noteq> [] \<or> rq \<noteq> [] \<and> \<not> cmd_sent (hd rq)"
  shows "write_watch w > 0 \<and>
    (rs = [] \<longrightarrow> cmd_expected (hd rq) \<noteq> 0 \<longrightarrow> (\<exists>w'. can_write_data cl False True w = Some (False, w') \<and>
       written w' = written w @ [cmd_pdu (hd rq)] \<and> timeout_watch w' > 0 \<and> client w' = client w \<and>
       requests w' = Some ((hd rq)\<lparr>cmd_sent := True\<rparr> # tl rq))) \<and>
    (rs = [] \<longrightarrow> cmd_expected (hd rq) = 0 \<longrightarrow> can_write_data cl False True w = do {
       w' \<leftarrow> command_destroy cl (hd rq) (w\<lparr>written := written w @ [cmd_pdu (hd rq)], requests := Some (tl rq)\<rparr>);
       Some (True, w') }) \<and>
    (rs \<noteq> [] \<longrightarrow> can_write_data cl False True w = do {
       w' \<leftarrow> command_destroy cl (hd rs) (w\<lparr>written := written w @ [cmd_pdu (hd rs)], responses := Some (tl rs)\<rparr>);
       Some (True, w') })"
proof -
  have inv: "attrib_inv held w" and wake: "wake_ok w"
    using attrib_client.reachable_inv [OF assms(1,2)] by simp_all
  have n: "next_source w > 0" and rf: "list_all response_wf rs"
    using inv assms(5) by (auto elim: attrib_invE)
  have "\<not> outstanding rq" if "rs = []" using assms(6) that by (cases rq) auto
  then have "write_watch w > 0" using wake assms(3-6) by (auto simp: wake_ok_def wake_resp_def wake_req_def)
  moreover have "\<exists>w'. can_write_data cl False True w = Some (False, w') \<and>
       written w' = written w @ [cmd_pdu (hd rq)] \<and> timeout_watch w' > 0 \<and> client w' = client w \<and>
       requests w' = Some ((hd rq)\<lparr>cmd_sent := True\<rparr> # tl rq)" if t: "rs = []" "cmd_expected (hd rq) \<noteq> 0"
  proof -
    obtain c t where "rq = c # t" "\<not> cmd_sent c" using assms(6) t(1) by (cases rq) auto
    then show ?thesis using assms(3-5) t n
      by (simp add: can_write_data_def write_head_def source_add_def Let_def)
  qed
  moreover have "can_write_data cl False True w = do {
       w' \<leftarrow> command_destroy cl (hd rq) (w\<lparr>written := written w @ [cmd_pdu (hd rq)], requests := Some (tl rq)\<rparr>);
       Some (True, w') }" if t: "rs = []" "cmd_expected (hd rq) = 0"
  proof -
    obtain c t where "rq = c # t" "\<not> cmd_sent c" using assms(6) t(1) by (cases rq) auto
    then show ?thesis using assms(3-5) t by (simp add: can_write_data_def write_head_def Let_def)
  qed
  moreover have "can_write_data cl False True w = do {
       w' \<leftarrow> command_destroy cl (hd rs) (w\<lparr>written := written w @ [cmd_pdu (hd rs)], responses := Some (tl rs)\<rparr>);
       Some (True, w') }" if t: "rs \<noteq> []"
  proof -
    obtain c t where "rs = c # t" "response_wf c" using rf t by (cases rs) auto
    then show ?thesis using assms(3-5) by (simp add: can_write_data_def write_head_def response_wf_def Let_def)
  qed
  ultimately show ?thesis by blast
qed

lemma sender_awake_witness:
  "(\<exists>w'. can_write_data recorder False True sample_sent = Some (False, w') \<and> written w' = [[0x0A, 0x11, 0]]) \<and>
   (\<exists>w'. can_write_data recorder False True sample_pushed = Some (True, w') \<and> written w' = [[0x52, 0x11, 0]] \<and>
     requests w' = Some [])"
  using sender_awake [OF recorder.attrib_client_axioms sample_sent_reachable, of "[sample_command 1 7]" "[]"]
    sender_awake [OF recorder.attrib_client_axioms sample_pushed_reachable, of "[sample_write_command]" "[]"]
  by (simp add: sample_sent_def sample_pushed_def sample_new_def sample_command_def sample_write_command_def
      command_destroy_def) blast

section \<open>The end of a channel\<close>

text \<open>C24: When the timer of the outstanding request expires, its callback is told so, every
  other pending request is aborted in the order of the queue, each one's user data is released
  after its callback, and the channel is dead: it takes no command any more and writes nothing.\<close>

theorem timeout_aborts:
  assumes "attrib_inv nothing_held w" "requests w = Some (c # q)"
  shows "\<exists>w'. dispatch_timeout recorder w = Some w' \<and> requests w' = Some [] \<and> written w' = written w \<and>
    client w' = client w @ completion c ATT_ECODE_TIMEOUT None 0 @
      concat (map (\<lambda>c. completion c ATT_ECODE_ABORTED None 0) q) \<and>
    g_attrib_send i pdu len f g w' = Some (0, w') \<and> can_write_data recorder bad ok w' = Some (False, w')"
proof -
  have r: "refs w \<ge> 1" "\<not> freed w" using assms(1) by (auto elim!: attrib_invE)
  define w1 :: "('a, 'a call list) gattrib" where "w1 = (g_attrib_ref w)\<lparr>requests := Some q\<rparr>"
  define l where "l = completion c ATT_ECODE_TIMEOUT None 0 @ concat (map (\<lambda>c. completion c ATT_ECODE_ABORTED None 0) q)"
  define w2 where "w2 = logged l (w1\<lparr>requests := Some []\<rparr>)"
  have p: "pop_request (g_attrib_ref w) = (Some c, w1)"
    using assms(2) by (simp add: w1_def g_attrib_ref_def)
  have d: "drain pop_request (\<lambda>c w. do { w \<leftarrow> result_call recorder c ATT_ECODE_ABORTED None 0 w; command_destroy recorder c w })
      (logged (completion c ATT_ECODE_TIMEOUT None 0) w1) = Some w2"
    using r by (subst drain_recorder [of _ q]) (simp_all add: w1_def w2_def l_def g_attrib_ref_def logged_def)
  have f: "\<not> freed w1" "refs w2 = refs w + 1" "\<not> freed w2"
    using r by (simp_all add: w1_def w2_def g_attrib_ref_def)
  obtain v where v: "result_call recorder c ATT_ECODE_TIMEOUT None 0 w1 = Some v"
    "command_destroy recorder c v = Some (logged (completion c ATT_ECODE_TIMEOUT None 0) w1)"
    using complete_recorder [of c ATT_ECODE_TIMEOUT None 0 w1] unfolding bind_eq_Some_conv by blast
  have "disconnect_timeout recorder w = Some (False, w2\<lparr>stale := True, refs := refs w\<rparr>)"
    using r unfolding disconnect_timeout_def Let_def p
    by (simp add: v f d alive_def g_attrib_unref_def del: command_destroy_recorder)
  then show ?thesis
    by (simp add: dispatch_timeout_def g_attrib_send_def can_write_data_def source_remove_def w2_def w1_def
        l_def g_attrib_ref_def)
qed

lemma timeout_aborts_witness:
  "\<exists>w'. dispatch_timeout recorder sample_sent = Some w' \<and>
     client w' = [Result_Call 7 ATT_ECODE_TIMEOUT None 0, Notify_Call 9]"
  using timeout_aborts [OF sample_sent_inv, of "sample_command 1 7" "[]" 0 "[]" 0 None None False False]
  by (auto simp: sample_sent_def sample_new_def sample_command_def completion_def notify_calls_def)

section \<open>Results and events\<close>

text \<open>What the event loop calls, for the events of the list that match.\<close>

definition event_calls :: "bytes \<Rightarrow> nat \<Rightarrow> 'c event list \<Rightarrow> 'c call list" where
  "event_calls data len es =
     map (\<lambda>e. Event_Call (evt_func e) data len) (filter (\<lambda>e. match_event e data len = Some True) es)"

lemma event_calls_simps [simp]:
  "event_calls data len [] = []"
  "event_calls data len (e # es) =
     (if match_event e data len = Some True then [Event_Call (evt_func e) data len] else []) @ event_calls data len es"
  by (simp_all add: event_calls_def)

lemma match_event_total: "3 \<le> length data \<Longrightarrow> \<exists>b. match_event e data len = Some b"
proof -
  assume l: "3 \<le> length data"
  have r: "rd data 0 = Some (data ! 0)" using l by (intro rd_Some) linarith
  obtain h where h: "att_get_u16 data (Suc 0) = Some h" using l by (simp add: att_get_u16_def rd_Some del: rd_eq_Some)
  show ?thesis by (auto simp: match_event_def r h cong: if_cong simp del: rd_eq_Some)
qed

lemma dropWhile_at:
  "distinct (map evt_id (p @ e # l)) \<Longrightarrow> dropWhile (\<lambda>x. evt_id x \<noteq> evt_id e) (p @ e # l) = e # l"
  by (subst dropWhile_append2) (simp_all, metis image_eqI)

lemma walk_events_recorder:
  assumes "events w = p @ l" "distinct (map evt_id (events w))" "\<not> freed w" "3 \<le> length data"
  shows "walk_events (\<lambda>evt w. do { m \<leftarrow> match_event evt data len;
      (if m then recorder (Event_Call (evt_func evt) data len) w else Some w) }) l w
    = Some (logged (event_calls data len l) w)"
  using assms
proof (induction l arbitrary: p w)
  case Nil
  then show ?case by (subst walk_events.simps) simp
next
  case (Cons e l)
  obtain b where b: "match_event e data len = Some b" using match_event_total [OF Cons.prems(4)] by blast
  have d: "dropWhile (\<lambda>x. evt_id x \<noteq> evt_id e) (p @ e # l) = e # l"
    using Cons.prems by (intro dropWhile_at) simp
  define v where "v = logged (if b then [Event_Call (evt_func e) data len] else []) w"
  have v: "(if b then recorder (Event_Call (evt_func e) data len) w else Some w) = Some v"
    by (simp add: v_def recorder_logged)
  have c: "cells_after e v = Some l"
    using Cons.prems d by (simp add: cells_after_def v_def)
  have i: "walk_events (\<lambda>evt w. do { m \<leftarrow> match_event evt data len;
      (if m then recorder (Event_Call (evt_func evt) data len) w else Some w) }) l v
    = Some (logged (event_calls data len l) v)"
    using Cons.prems by (intro Cons.IH [of _ "p @ [e]"]) (simp_all add: v_def)
  show ?case
    by (subst walk_events.simps) (simp add: b v c i, simp add: v_def b)
qed

text \<open>Events that no response matches: those for requests of the peer, such as notifications.\<close>

definition deaf :: "('c, 's) gattrib \<Rightarrow> bool" where
  "deaf w \<longleftrightarrow> distinct (map evt_id (events w)) \<and>
     list_all (\<lambda>e. evt_expected e \<noteq> GATTRIB_ALL_EVENTS \<and> \<not> is_response (evt_expected e)) (events w)"

lemma deaf_none [simp]: "events w = [] \<Longrightarrow> deaf w"
  by (simp add: deaf_def)

lemma match_event_deaf:
  assumes "3 \<le> length data" "is_response (data ! 0)" "evt_expected e \<noteq> GATTRIB_ALL_EVENTS" "\<not> is_response (evt_expected e)"
  shows "match_event e data len = Some False"
proof -
  have r: "rd data 0 = Some (data ! 0)" using assms(1) by (intro rd_Some) linarith
  obtain h where h: "att_get_u16 data (Suc 0) = Some h" using assms(1) by (simp add: att_get_u16_def rd_Some del: rd_eq_Some)
  have "evt_expected e \<noteq> data ! 0" using assms(2,4) by auto
  then show ?thesis using assms(2,3) by (simp add: match_event_def r h del: rd_eq_Some)
qed

lemma event_calls_deaf: "3 \<le> length data \<Longrightarrow> is_response (data ! 0) \<Longrightarrow> deaf w \<Longrightarrow> event_calls data len (events w) = []"
  by (auto simp: event_calls_def deaf_def list_all_iff match_event_deaf filter_empty_conv)

lemma walk_events_deaf:
  assumes "deaf w" "\<not> freed w" "3 \<le> length data" "is_response (data ! 0)"
  shows "walk_events (\<lambda>evt w. do { m \<leftarrow> match_event evt data len;
      (if m then cl (Event_Call (evt_func evt) data len) w else Some w) }) (events w) w = Some w"
proof -
  have "walk_events (\<lambda>evt w. do { m \<leftarrow> match_event evt data len;
      (if m then cl (Event_Call (evt_func evt) data len) w else Some w) }) l w = Some w" if "events w = p @ l" for p l
    using that
  proof (induction l arbitrary: p)
    case Nil
    then show ?case by (subst walk_events.simps) simp
  next
    case (Cons e l)
    have m: "match_event e data len = Some False"
      using assms Cons.prems by (intro match_event_deaf) (simp_all add: deaf_def)
    have c: "cells_after e w = Some l"
      using assms(1,2) Cons.prems dropWhile_at [of p e l] by (simp add: cells_after_def deaf_def)
    show ?case
      using Cons.IH [of "p @ [e]"] Cons.prems by (subst walk_events.simps) (simp add: m c)
  qed
  from this [of "[]"] show ?thesis by simp
qed

text \<open>The bytes of an incoming PDU as callbacks see them: the front of a buffer of 512 bytes.\<close>

definition padded :: "bytes \<Rightarrow> bytes" where
  "padded d = d @ replicate (512 - length d) 0"

lemma padded_buffer: "length d \<le> 512 \<Longrightarrow> wrn (replicate 512 0) 0 d = Some (padded d)"
  by (simp add: wrn_def overlay_def padded_def)

lemma length_padded [simp]: "length d \<le> 512 \<Longrightarrow> length (padded d) = 512"
  by (simp add: padded_def)

definition response_status :: "'c command \<Rightarrow> bytes \<Rightarrow> u8" where
  "response_status c data =
     (if data ! 0 = ATT_OP_ERROR then data ! 4
      else if cmd_expected c \<noteq> data ! 0 then ATT_ECODE_IO else 0)"

lemma received_done_recorder:
  assumes "requests w = Some q" "responses w = Some rs"
  shows "received_done recorder st data len (Some c) w =
    Some (True, logged (completion c st (Some data) (of_nat len)) (if q = [] \<and> rs = [] then w else wake_up_sender w))"
proof -
  define v where "v = (if q = [] \<and> rs = [] then w else wake_up_sender w)"
  obtain u where "result_call recorder c st (Some data) (of_nat len) v = Some u"
    "command_destroy recorder c u = Some (logged (completion c st (Some data) (of_nat len)) v)"
    using complete_recorder [of c st "Some data" "of_nat len" v] unfolding bind_eq_Some_conv by blast
  moreover have "(if q \<noteq> [] \<or> rs \<noteq> [] then wake_up_sender w else w) = v" by (simp add: v_def)
  ultimately show ?thesis
    using assms by (simp add: received_done_def del: command_destroy_recorder flip: v_def)
qed

text \<open>A response, seen by a recording client: the events it matches, then the completion of the
  first request.\<close>

lemma received_response_recorder:
  assumes "\<not> stale w" "\<not> freed w" "distinct (map evt_id (events w))"
    "requests w = Some (c # q)" "responses w = Some rs" "length d \<le> 512" "is_response (padded d ! 0)"
  shows "dispatch_readable recorder False (Some d) w = Some
    (logged (event_calls (padded d) (length d) (events w) @
        completion c (response_status c (padded d)) (Some (padded d)) (of_nat (length d)))
      (let w = (stop_timer w)\<lparr>requests := Some q\<rparr> in if q = [] \<and> rs = [] then w else wake_up_sender w))"
proof -
  define l where "l = event_calls (padded d) (length d) (events w)"
  have "3 \<le> length (padded d)" using assms(6) by simp
  then have e: "walk_events (\<lambda>evt w. do { m \<leftarrow> match_event evt (padded d) (length d);
      (if m then recorder (Event_Call (evt_func evt) (padded d) (length d)) w else Some w) }) (events w) w = Some (logged l w)"
    using assms(2,3) unfolding l_def by (intro walk_events_recorder [of _ "[]"]) simp_all
  have s: "(if 0 < timeout_watch (logged l w) then (source_remove (timeout_watch (logged l w)) (logged l w))\<lparr>timeout_watch := 0\<rparr>
      else logged l w) = logged l (stop_timer w)"
    by (simp add: stop_timer_def logged_def source_remove_def)
  define v where "v = logged l ((stop_timer w)\<lparr>requests := Some q\<rparr>)"
  have p: "pop_request (logged l (stop_timer w)) = (Some c, v)"
    using assms(4) by (simp add: v_def) (simp add: logged_def)
  have v: "requests v = Some q" "responses v = Some rs" using assms(5) by (simp_all add: v_def)
  have r: "rd (padded d) 0 = Some (padded d ! 0)" "rd (padded d) 4 = Some (padded d ! 4)"
    using assms(6) by (simp_all add: rd_def)
  have fin: "received_data recorder False (Some d) w =
    received_done recorder (response_status c (padded d)) (padded d) (length d) (Some c) v"
    using assms(1,2,6,7) unfolding received_data_def Let_def
    by (simp add: padded_buffer e r alive_def s [unfolded logged_simps] p response_status_def cong: if_cong)
  have "logged k (if b then v else wake_up_sender v) =
    logged (l @ k) (let w = (stop_timer w)\<lparr>requests := Some q\<rparr> in if b then w else wake_up_sender w)" for k b
    by (simp add: v_def wake_up_sender_def g_attrib_ref_def source_add_def logged_def Let_def)
  then show ?thesis
    using fin v by (simp add: dispatch_readable_def received_done_recorder l_def)
qed

text \<open>C22: A response that arrives completes the first request in the queue and no other: the
  events it matches are reported first, in the order of their registration, then the request's callback is
  called with the status, which is the code inside an error response, an I/O error if the response
  does not answer the request, and 0 otherwise. The timer is stopped, and the sender is woken up if
  more is queued.\<close>

theorem response_completes_first:
  assumes "\<not> stale w" "\<not> freed w" "next_source w > 0" "distinct (map evt_id (events w))"
    "requests w = Some (c # q)" "responses w = Some rs" "length d \<le> 512" "is_response (padded d ! 0)"
  shows "\<exists>w'. dispatch_readable recorder False (Some d) w = Some w' \<and>
    client w' = client w @ event_calls (padded d) (length d) (events w) @
      completion c (response_status c (padded d)) (Some (padded d)) (of_nat (length d)) \<and>
    requests w' = Some q \<and> responses w' = Some rs \<and> events w' = events w \<and> timeout_watch w' = 0 \<and>
    (q \<noteq> [] \<or> rs \<noteq> [] \<longrightarrow> write_watch w' > 0)"
  using received_response_recorder [OF assms(1,2,4-8)] assms(3,6)
  by (simp add: Let_def)

lemma response_completes_first_witness:
  "\<exists>w'. dispatch_readable recorder False (Some [0x0B, 0x55]) (sample_sent\<lparr>requests := Some [sample_command 1 7]\<rparr>) = Some w' \<and>
    requests w' = Some [] \<and> client w' = completion (sample_command 1 7) 0 (Some (padded [0x0B, 0x55])) 2"
  using response_completes_first [of "sample_sent\<lparr>requests := Some [sample_command 1 7]\<rparr>" "sample_command 1 7" "[]" "[]" "[0x0B, 0x55]"]
  by (auto simp: sample_sent_def sample_new_def padded_def is_response_def response_status_def sample_command_def)

text \<open>One exchange: the channel can write, then a response arrives. \<open>exchanges\<close> is a sequence of them.\<close>

definition exchange :: "('c, 's) client \<Rightarrow> bytes \<Rightarrow> ('c, 's) gattrib \<Rightarrow> ('c, 's) gattrib option" where
  "exchange cl d w = do { w \<leftarrow> dispatch_writable cl False True w; dispatch_readable cl False (Some d) w }"

fun exchanges :: "('c, 's) client \<Rightarrow> bytes list \<Rightarrow> ('c, 's) gattrib \<Rightarrow> ('c, 's) gattrib option" where
  "exchanges cl [] w = Some w"
| "exchanges cl (d # ds) w = do { w \<leftarrow> exchange cl d w; exchanges cl ds w }"

text \<open>A channel whose events match no response, without responses of its own, and whose requests wait to be sent.\<close>

definition ready :: "('c, 's) gattrib \<Rightarrow> 'c command list \<Rightarrow> bool" where
  "ready w q \<longleftrightarrow> \<not> stale w \<and> \<not> freed w \<and> next_source w > 0 \<and> deaf w \<and> responses w = Some [] \<and>
     requests w = Some q \<and> list_all (\<lambda>c. \<not> cmd_sent c \<and> cmd_expected c \<noteq> 0) q \<and>
     (q \<noteq> [] \<longrightarrow> write_watch w > 0) \<and> refs w \<ge> (if write_watch w > 0 then 2 else 1)"

definition answers :: "'c command \<Rightarrow> bytes \<Rightarrow> bool" where
  "answers c d \<longleftrightarrow> 0 < length d \<and> length d \<le> 512 \<and> (d ! 0 = cmd_expected c \<or> d ! 0 = ATT_OP_ERROR)"

lemma expected_is_response: "opcode2expected op \<noteq> 0 \<Longrightarrow> is_response (opcode2expected op)"
  by (auto simp: opcode2expected_def is_response_def split: if_splits)

lemma ready_write:
  assumes "ready w (c # q)"
  shows "\<exists>w1. dispatch_writable cl False True w = Some w1 \<and> written w1 = written w @ [cmd_pdu c] \<and>
    requests w1 = Some (c\<lparr>cmd_sent := True\<rparr> # q) \<and> responses w1 = Some [] \<and> events w1 = events w \<and> \<not> stale w1 \<and>
    \<not> freed w1 \<and> client w1 = client w \<and> write_watch w1 = 0 \<and> refs w1 \<ge> 1 \<and> next_source w1 > 0 \<and>
    out_of_memory w1 = out_of_memory w \<and> buflen w1 = buflen w"
proof -
  have r: "refs w \<ge> 2" "\<not> stale w" "\<not> freed w" "responses w = Some []" "requests w = Some (c # q)"
    "\<not> cmd_sent c" "cmd_expected c \<noteq> 0" "next_source w > 0"
    using assms by (auto simp: ready_def)
  have "\<exists>w1. can_write_data cl False True w = Some (False, w1) \<and> written w1 = written w @ [cmd_pdu c] \<and>
    requests w1 = Some (c\<lparr>cmd_sent := True\<rparr> # q) \<and> responses w1 = Some [] \<and> events w1 = events w \<and> \<not> stale w1 \<and>
    \<not> freed w1 \<and> client w1 = client w \<and> refs w1 = refs w \<and> next_source w1 > 0 \<and>
    out_of_memory w1 = out_of_memory w \<and> buflen w1 = buflen w"
    using r by (cases "timeout_watch w = 0") (simp_all add: can_write_data_def write_head_def Let_def source_add_def)
  then obtain w1 where w1: "can_write_data cl False True w = Some (False, w1)" "written w1 = written w @ [cmd_pdu c]"
    "requests w1 = Some (c\<lparr>cmd_sent := True\<rparr> # q)" "responses w1 = Some []" "events w1 = events w" "\<not> stale w1"
    "\<not> freed w1" "client w1 = client w" "refs w1 = refs w" "next_source w1 > 0"
    "out_of_memory w1 = out_of_memory w" "buflen w1 = buflen w" by blast
  have "dispatch_writable cl False True w = Some ((source_remove (write_watch w) w1)\<lparr>write_watch := 0, refs := refs w - 1\<rparr>)"
    using w1 r by (simp add: dispatch_writable_def alive_def destroy_sender_def g_attrib_unref_def)
  then show ?thesis using w1 r by (simp add: source_remove_def)
qed

lemma ready_exchange:
  assumes r: "ready w (c # q)" and a: "answers c d" "is_response (cmd_expected c)"
  shows "\<exists>w'. exchange recorder d w = Some w' \<and> ready w' q \<and> written w' = written w @ [cmd_pdu c] \<and>
    client w' = client w @ completion c (response_status c (padded d)) (Some (padded d)) (of_nat (length d))"
proof -
  obtain w1 where w1: "dispatch_writable recorder False True w = Some w1" "written w1 = written w @ [cmd_pdu c]"
    "requests w1 = Some (c\<lparr>cmd_sent := True\<rparr> # q)" "responses w1 = Some []" "events w1 = events w" "\<not> stale w1"
    "\<not> freed w1" "client w1 = client w" "write_watch w1 = 0" "refs w1 \<ge> 1" "next_source w1 > 0"
    using ready_write [OF r] by blast
  have p: "padded d ! 0 = d ! 0" using a by (auto simp: answers_def padded_def nth_append)
  have ir: "is_response (padded d ! 0)" using a unfolding p by (auto simp: answers_def is_response_def)
  have dw: "deaf w" using r by (simp add: ready_def)
  have ec: "event_calls (padded d) (length d) (events w) = []"
    using a ir by (intro event_calls_deaf [OF _ _ dw]) (simp_all add: answers_def)
  define k where "k = completion c (response_status c (padded d)) (Some (padded d)) (of_nat (length d))"
  define v where "v = (stop_timer w1)\<lparr>requests := Some q\<rparr>"
  have k: "completion (c\<lparr>cmd_sent := True\<rparr>) (response_status (c\<lparr>cmd_sent := True\<rparr>) (padded d)) (Some (padded d)) (of_nat (length d)) = k"
    by (simp add: k_def completion_def response_status_def)
  have w2: "dispatch_readable recorder False (Some d) w1 = Some (logged k (if q = [] then v else wake_up_sender v))"
    using w1 a ir dw ec by (subst received_response_recorder [of _ "c\<lparr>cmd_sent := True\<rparr>" q "[]"])
      (simp_all add: answers_def k v_def Let_def deaf_def)
  have "list_all (\<lambda>c. \<not> cmd_sent c \<and> cmd_expected c \<noteq> 0) q" using r by (simp add: ready_def)
  moreover have "refs (wake_up_sender v) \<ge> 2" "next_source (wake_up_sender v) > 0" "write_watch (wake_up_sender v) > 0"
    using w1 by (simp_all add: v_def wake_up_sender_def g_attrib_ref_def source_add_def)
  ultimately have "ready (logged k (if q = [] then v else wake_up_sender v)) q"
    using w1 dw by (simp add: ready_def deaf_def) (simp add: v_def)
  then show ?thesis
    using w1 w2 by (simp add: exchange_def flip: k_def) (simp add: v_def)
qed

text \<open>C10: Requests are written in the order of their queue, one at a time, and every callback gets the
  response to its own request: from a channel whose requests wait to be sent, as many exchanges as there are
  requests, each with a response that answers its request or reports an error, write exactly the requests' PDUs
  in order, complete the requests in order, each with its response and status, and leave no request.\<close>

theorem requests_in_order:
  assumes "ready w q" "list_all2 answers q ds" "list_all (\<lambda>c. cmd_expected c = opcode2expected (cmd_opcode c)) q"
  shows "\<exists>w'. exchanges recorder ds w = Some w' \<and> written w' = written w @ map cmd_pdu q \<and> requests w' = Some [] \<and>
    client w' = client w @ concat (map2 (\<lambda>c d. completion c (if d ! 0 = ATT_OP_ERROR then padded d ! 4 else 0)
      (Some (padded d)) (of_nat (length d))) q ds)"
  using assms(2,1,3)
proof (induction q ds arbitrary: w rule: list_all2_induct)
  case Nil
  then show ?case by (simp add: ready_def)
next
  case (Cons c q d ds)
  have "cmd_expected c \<noteq> 0" using Cons.prems by (simp add: ready_def)
  then have "is_response (cmd_expected c)" using Cons.prems expected_is_response by simp
  then obtain w1 where w1: "exchange recorder d w = Some w1" "ready w1 q" "written w1 = written w @ [cmd_pdu c]"
    "client w1 = client w @ completion c (response_status c (padded d)) (Some (padded d)) (of_nat (length d))"
    using ready_exchange [OF Cons.prems(1) Cons.hyps(1)] by blast
  have p: "padded d ! 0 = d ! 0" using Cons.hyps(1) by (auto simp: answers_def padded_def nth_append)
  have "response_status c (padded d) = (if d ! 0 = ATT_OP_ERROR then padded d ! 4 else 0)"
    using Cons.hyps(1) by (auto simp: response_status_def p answers_def)
  then show ?case
    using Cons.IH [OF w1(2)] Cons.prems w1 by auto
qed

lemma requests_in_order_witness:
  "\<exists>w'. exchanges recorder [[0x0B, 0x55], [0x01, 0x0A, 0x11, 0, 0x0A]]
      (sample_sent\<lparr>requests := Some [sample_command 1 7, sample_command 2 8]\<rparr>) = Some w' \<and>
    written w' = [[0x0A, 0x11, 0], [0x0A, 0x11, 0]] \<and> requests w' = Some []"
  using requests_in_order [of "sample_sent\<lparr>requests := Some [sample_command 1 7, sample_command 2 8]\<rparr>"
    "[sample_command 1 7, sample_command 2 8]" "[[0x0B, 0x55], [0x01, 0x0A, 0x11, 0, 0x0A]]"]
  by (auto simp: ready_def sample_sent_def sample_new_def sample_command_def answers_def opcode2expected_def)

section \<open>A failed write\<close>

fun send_all :: "(bytes \<times> u16 \<times> 'c option \<times> 'c option) list \<Rightarrow> ('c, 's) gattrib \<Rightarrow> ('c, 's) gattrib option" where
  "send_all [] w = Some w"
| "send_all ((pdu, len, f, g) # l) w = do { (i, w) \<leftarrow> g_attrib_send 0 pdu len f g w; send_all l w }"

lemma send_asleep:
  assumes "g_attrib_send 0 pdu len f g w = Some (r, w')" "\<not> is_response (hd pdu)"
    "requests w = Some (c # q)" "write_watch w = 0"
  shows "\<exists>q'. requests w' = Some (c # q') \<and> write_watch w' = 0 \<and> written w' = written w"
  using assms(1)
proof (cases rule: send_cases)
  case (request d q0 q' w1)
  then show ?thesis using assms by auto
qed (use assms in auto)

text \<open>C37: After a write that failed, the request stays in its queue but nobody is left to send it: the
  write watch is gone, and requests that are sent later do not bring it back, since the queue is not empty.\<close>

theorem failed_write_stalls:
  assumes "attrib_inv held w" "\<not> stale w" "write_watch w > 0" "responses w = Some []"
    "requests w = Some (c # q)" "\<not> cmd_sent c" "bad_cond \<or> \<not> ok"
    "list_all (\<lambda>(pdu, len, f, g). \<not> is_response (hd pdu)) l"
  shows "\<exists>w'. dispatch_writable cl bad_cond ok w = Some w' \<and> requests w' = requests w \<and> write_watch w' = 0 \<and>
    (\<forall>w''. send_all l w' = Some w'' \<longrightarrow> write_watch w'' = 0 \<and> written w'' = written w)"
proof -
  have r: "refs w \<ge> 2" "\<not> freed w" using assms(1,3) by (auto elim!: attrib_invE split: if_splits)
  define w' where "w' = (source_remove (write_watch w) w)\<lparr>write_watch := 0, refs := refs w - 1\<rparr>"
  have "can_write_data cl bad_cond ok w = Some (False, w)"
    using assms by (auto simp: can_write_data_def write_head_def)
  then have d: "dispatch_writable cl bad_cond ok w = Some w'"
    using r by (simp add: dispatch_writable_def alive_def destroy_sender_def g_attrib_unref_def w'_def)
  have stall: "write_watch v'' = 0 \<and> written v'' = written v"
    if "send_all l v = Some v''" "requests v = Some (c # p)" "write_watch v = 0" for v v'' p
    using assms(8) that
  proof (induction l arbitrary: v p)
    case (Cons x l)
    obtain pdu len f g where x: "x = (pdu, len, f, g)" by (cases x)
    obtain i u where u: "g_attrib_send 0 pdu len f g v = Some (i, u)" "send_all l u = Some v''"
      using Cons.prems x by (auto simp: bind_eq_Some_conv)
    obtain p' where "requests u = Some (c # p')" "write_watch u = 0" "written u = written v"
      using send_asleep [OF u(1)] Cons.prems x by auto
    then show ?case using Cons.IH [OF _ u(2)] Cons.prems by auto
  qed simp
  have f: "requests w' = Some (c # q)" "write_watch w' = 0" "written w' = written w" "requests w' = requests w"
    using assms(5) by (simp_all add: w'_def)
  then have "\<forall>w''. send_all l w' = Some w'' \<longrightarrow> write_watch w'' = 0 \<and> written w'' = written w"
    using stall [OF _ f(1,2)] by simp
  then show ?thesis using d f by blast
qed

lemma failed_write_stalls_witness:
  "\<exists>w'. dispatch_writable recorder False False sample_sent = Some w' \<and> requests w' = Some [sample_command 1 7] \<and>
    (\<forall>w''. send_all [([0x0A, 0x12, 0], 3, None, None)] w' = Some w'' \<longrightarrow> write_watch w'' = 0 \<and> written w'' = [])"
  using failed_write_stalls [OF sample_sent_inv, of "sample_command 1 7" "[]" False False "[([0x0A, 0x12, 0], 3, None, None)]" recorder]
  by (auto simp: sample_sent_def sample_new_def sample_command_def is_response_def)

section \<open>Cancelling\<close>

lemma find_index_at: "P c \<Longrightarrow> list_all (\<lambda>x. \<not> P x) p \<Longrightarrow> find_index P (p @ c # s) = Some (length p)"
  by (induction p) auto

text \<open>C38: Cancelling finds the first pending request with the id. One that is outstanding stays in the queue, so that
  its response is still matched to it, but its callback is forgotten; any other is removed and its user
  data released, and its callback is never called.\<close>

theorem cancel_request:
  assumes "requests w = Some (p @ c # s)" "list_all (\<lambda>x. cmd_id x \<noteq> cmd_id c) p"
  shows "\<exists>w'. g_attrib_cancel recorder (cmd_id c) w = Some (True, w') \<and> written w' = written w \<and> responses w' = responses w \<and>
    (if p = [] \<and> cmd_sent c
     then requests w' = Some (c\<lparr>cmd_func := None\<rparr> # s) \<and> client w' = client w
     else requests w' = Some (p @ s) \<and> client w' = client w @ notify_calls (cmd_notify c))"
proof -
  have i: "find_index (\<lambda>x. cmd_id x = cmd_id c) (p @ c # s) = Some (length p)"
    using assms(2) by (intro find_index_at) (simp_all add: list_all_iff)
  show ?thesis
    using assms(1) by (auto simp: g_attrib_cancel_def i cancel_at_def Let_def destroy_cancelled_def)
qed

lemma cancel_request_witness:
  "\<exists>w'. g_attrib_cancel recorder 1 (sample_sent\<lparr>requests := Some [(sample_command 1 7)\<lparr>cmd_sent := True\<rparr>, sample_command 2 8]\<rparr>)
      = Some (True, w') \<and> requests w' = Some [(sample_command 1 7)\<lparr>cmd_sent := True, cmd_func := None\<rparr>, sample_command 2 8]"
  using cancel_request [of "sample_sent\<lparr>requests := Some [(sample_command 1 7)\<lparr>cmd_sent := True\<rparr>, sample_command 2 8]\<rparr>"
    "[]" "(sample_command 1 7)\<lparr>cmd_sent := True\<rparr>" "[sample_command 2 8]"]
  by (auto simp: sample_command_def)

section \<open>Events\<close>

lemma register_fresh:
  assumes "\<not> out_of_memory w"
  shows "g_attrib_register op h f g w = (next_evt_id w + 1, w\<lparr>next_evt_id := next_evt_id w + 1,
    events := events w @ [\<lparr>evt_id = next_evt_id w + 1, evt_expected = op, evt_handle = h, evt_func = f, evt_notify = g\<rparr>]\<rparr>)"
  using assms by (simp add: g_attrib_register_def Let_def)

text \<open>An event that was registered is found by the id that was returned, as long as no older event has that id
  and the counter has not wrapped to 0: unregistering it leaves the other events in place and order and
  releases its user data.\<close>

theorem register_unregister:
  assumes "\<not> out_of_memory w" "next_evt_id w + 1 \<noteq> 0" "list_all (\<lambda>e. evt_id e \<noteq> next_evt_id w + 1) (events w)"
    "g_attrib_register op h f g w = (i, w1)"
  shows "i \<noteq> 0 \<and> length (events w1) = length (events w) + 1 \<and>
    g_attrib_unregister recorder i w1 = Some (True, logged (notify_calls g) (w1\<lparr>events := events w\<rparr>))"
proof -
  define e where "e = \<lparr>evt_id = next_evt_id w + 1, evt_expected = op, evt_handle = h, evt_func = f, evt_notify = g\<rparr>"
  have i: "i = next_evt_id w + 1" "w1 = w\<lparr>next_evt_id := next_evt_id w + 1, events := events w @ [e]\<rparr>"
    using assms(4) by (auto simp: register_fresh [OF assms(1)] e_def)
  have "find_index (\<lambda>x. evt_id x = i) (events w @ e # []) = Some (length (events w))"
    using assms(3) i by (intro find_index_at) (simp_all add: e_def list_all_iff)
  then show ?thesis
    using assms(2) i by (simp add: g_attrib_unregister_def Let_def) (simp add: e_def)
qed

lemma register_unregister_witness:
  "g_attrib_unregister recorder 1 (snd (g_attrib_register 0x1B 0 3 (Some 4) sample_new)) =
    Some (True, logged [Notify_Call 4] ((snd (g_attrib_register 0x1B 0 3 (Some 4) sample_new))\<lparr>events := []\<rparr>))"
  using register_unregister [of sample_new "0x1B" 0 3 "Some 4" 1 "snd (g_attrib_register 0x1B 0 3 (Some 4) sample_new)"]
  by (simp add: sample_new_def g_attrib_register_def Let_def notify_calls_def)

end
