(* ===== verification/Gatt_Talk.thy ===== *)
theory Gatt_Talk
  imports Gatt_Inv Gattrib_Props Att_Codec
begin

text \<open>
  Conversations: a client that has one request pending at a time, and the peer's answer to each. The lemmas
  reduce an exchange on the channel to the call of the callback, for any client that keeps the contract.
\<close>

section \<open>One question and its answer\<close>

text \<open>A channel with nothing to send and room for every request of fixed size.\<close>

definition quiet :: "('s \<Rightarrow> nat) \<Rightarrow> ('c, 's) gattrib \<Rightarrow> bool" where
  "quiet held w \<longleftrightarrow> ready w [] \<and> attrib_inv held w \<and> \<not> out_of_memory w \<and> 23 \<le> buflen w \<and> buflen w < 65536"

definition question :: "att_pdu \<Rightarrow> 'c \<Rightarrow> 'c option \<Rightarrow> u32 \<Rightarrow> 'c command" where
  "question m f g i = \<lparr>cmd_id = i, cmd_opcode = hd (att_wire m), cmd_pdu = att_wire m,
     cmd_len = of_nat (length (att_wire m)), cmd_expected = opcode2expected (hd (att_wire m)),
     cmd_sent = False, cmd_func = Some f, cmd_notify = g\<rparr>"

definition asking :: "('s \<Rightarrow> nat) \<Rightarrow> att_pdu \<Rightarrow> 'c \<Rightarrow> 'c option \<Rightarrow> u32 \<Rightarrow> ('c, 's) gattrib \<Rightarrow> bool" where
  "asking held m f g i w \<longleftrightarrow> ready w [question m f g i] \<and> attrib_inv held w \<and> \<not> out_of_memory w \<and>
     23 \<le> buflen w \<and> buflen w < 65536"

lemma quiet_buf: "quiet held w \<Longrightarrow> length (buf w) = buflen w"
  by (auto simp: quiet_def elim: attrib_invE)

text \<open>The fields that a conversation leaves to its callbacks.\<close>

definition same_client :: "('c, 's) gattrib \<Rightarrow> ('c, 's) gattrib \<Rightarrow> bool" where
  "same_client w w' \<longleftrightarrow> client w' = client w \<and> buflen w' = buflen w"

lemma encode_quiet:
  assumes "quiet held w" "att_wf m" "length (att_wire m) \<le> buflen w"
  shows "encode_into (att_encode m) w =
    Some (of_nat (length (att_wire m)), w\<lparr>buf := overlay (att_wire m) (buf w)\<rparr>)"
proof -
  have "buflen w < 65536" using assms(1) by (simp add: quiet_def)
  then show ?thesis
    using assms quiet_buf [OF assms(1)] att_encode_fits [of m "buflen w" "buf w"]
    by (simp add: encode_into_def g_attrib_get_buffer_def)
qed

lemma ask:
  assumes q: "quiet held w" and m: "att_wf m" "length (att_wire m) \<le> buflen w"
    and op: "opcode2expected (hd (att_wire m)) \<noteq> 0"
  shows "\<exists>w'. g_attrib_send i (overlay (att_wire m) (buf w)) (of_nat (length (att_wire m))) (Some f) g
      (w\<lparr>buf := overlay (att_wire m) (buf w)\<rparr>) = Some (if i = 0 then next_cmd_id w + 1 else i, w') \<and>
    asking held m f g (if i = 0 then next_cmd_id w + 1 else i) w' \<and> same_client w w' \<and> written w' = written w"
proof -
  define b where "b = overlay (att_wire m) (buf w)"
  define v where "v = w\<lparr>buf := b\<rparr>"
  have l: "length b = buflen w" "length (att_wire m) < 65536" "unat (of_nat (length (att_wire m)) :: u16) = length (att_wire m)"
    using m q quiet_buf [OF q] by (auto simp: b_def quiet_def unat_of_nat16)
  have ne: "att_wire m \<noteq> []" by simp
  have hd: "rd b 0 = Some (hd (att_wire m))" using ne by (cases "att_wire m") (simp_all add: b_def overlay_def)
  have body: "rdn b 0 (length (att_wire m)) = Some (att_wire m)"
    using l m by (simp add: rdn_Some b_def)
  have nr: "\<not> is_response (hd (att_wire m))" using op by auto
  have r: "\<not> stale w" "requests w = Some []" "\<not> out_of_memory w" using q by (auto simp: quiet_def ready_def deaf_def)
  define j where "j = (if i = 0 then next_cmd_id w + 1 else i)"
  define u where "u = v\<lparr>next_cmd_id := (if i = 0 then j else next_cmd_id w), requests := Some [question m f g j]\<rparr>"
  have s: "g_attrib_send i b (of_nat (length (att_wire m))) (Some f) g v = Some (j, wake_up_sender u)"
    using r nr by (simp add: g_attrib_send_def v_def u_def j_def question_def hd l(3) body Let_def del: rd_eq_Some)
  have k: "attrib_inv held v" using q l quiet_buf [OF q]
    by (auto simp: quiet_def v_def attrib_inv_def queues_ok_def)
  have ms: "may_send i b v" using r by (simp add: may_send_def idle_def v_def)
  have "attrib_inv held (wake_up_sender u)" using send_keeps [OF k ms s] by (rule keeps_inv)
  moreover have "ready (wake_up_sender u) [question m f g j]"
    using q op by (auto simp: quiet_def ready_def deaf_def u_def v_def question_def wake_up_sender_def g_attrib_ref_def source_add_def)
  ultimately have "asking held m f g j (wake_up_sender u)"
    using q by (auto simp: asking_def quiet_def u_def v_def wake_up_sender_def g_attrib_ref_def source_add_def)
  moreover have "same_client w (wake_up_sender u)" "written (wake_up_sender u) = written w"
    by (auto simp: same_client_def u_def v_def wake_up_sender_def g_attrib_ref_def source_add_def)
  ultimately show ?thesis using s by (auto simp: b_def v_def j_def)
qed

text \<open>A response that matches no event.\<close>

lemma received_response:
  assumes "\<not> stale w" "\<not> freed w" "deaf w" "requests w = Some (c # q)"
    "length d \<le> 512" "is_response (padded d ! 0)"
  shows "received_data cl False (Some d) w =
    received_done cl (response_status c (padded d)) (padded d) (length d) (Some c) ((stop_timer w)\<lparr>requests := Some q\<rparr>)"
proof -
  have e: "walk_events (\<lambda>evt w. do { m \<leftarrow> match_event evt (padded d) (length d);
      (if m then cl (Event_Call (evt_func evt) (padded d) (length d)) w else Some w) }) (events w) w = Some w"
    using assms by (intro walk_events_deaf) simp_all
  have r: "rd (padded d) 0 = Some (padded d ! 0)" "rd (padded d) 4 = Some (padded d ! 4)"
    using assms(5) by (simp_all add: rd_def)
  have p: "pop_request (stop_timer w) = (Some c, (stop_timer w)\<lparr>requests := Some q\<rparr>)"
    using assms(4) by simp
  show ?thesis
    using assms unfolding received_data_def Let_def
    by (simp add: padded_buffer e r alive_def p response_status_def stop_timer_def [symmetric] cong: if_cong)
qed

context attrib_client begin

lemma answer:
  assumes a: "asking held m f g i w" and op: "opcode2expected (hd (att_wire m)) \<noteq> 0"
    and d: "d \<noteq> []" "length d \<le> 512" "hd d = opcode2expected (hd (att_wire m)) \<or> hd d = ATT_OP_ERROR"
  shows "\<exists>v. exchange cl d w = do {
      w1 \<leftarrow> cl (Result_Call f (if hd d = ATT_OP_ERROR then padded d ! 4 else 0) (Some (padded d)) (of_nat (length d))) v;
      (case g of None \<Rightarrow> Some w1 | Some g \<Rightarrow> cl (Notify_Call g) w1) } \<and>
    quiet held v \<and> same_client w v \<and> written v = written w @ [att_wire m]"
proof -
  let ?c = "question m f g i"
  have rd: "ready w [?c]" and inv: "attrib_inv held w" and rest: "\<not> out_of_memory w" "23 \<le> buflen w" "buflen w < 65536"
    using a by (auto simp: asking_def)
  obtain w1 where w1: "dispatch_writable cl False True w = Some w1" "written w1 = written w @ [att_wire m]"
    "requests w1 = Some [?c\<lparr>cmd_sent := True\<rparr>]" "responses w1 = Some []" "events w1 = events w" "\<not> stale w1"
    "\<not> freed w1" "client w1 = client w" "write_watch w1 = 0" "refs w1 \<ge> 1" "next_source w1 > 0"
    "out_of_memory w1 = out_of_memory w" "buflen w1 = buflen w"
    using ready_write [OF rd, of cl] by (auto simp: question_def)
  have "write_watch w > 0" using rd by (simp add: ready_def)
  then have inv1: "attrib_inv held w1" using dispatch_writable_inv(1) [OF inv _ w1(1)] by blast
  define v where "v = (stop_timer w1)\<lparr>requests := Some []\<rparr>"
  have invv: "attrib_inv held v" using timer_stopped(2) [OF inv1 w1(3)] by (simp add: v_def)
  have p: "padded d ! 0 = hd d" using d by (auto simp: padded_def nth_append hd_conv_nth)
  have r: "is_response (padded d ! 0)" unfolding p
    using d(3) expected_is_response [OF op] by (auto simp: is_response_def)
  have st: "response_status (?c\<lparr>cmd_sent := True\<rparr>) (padded d) = (if hd d = ATT_OP_ERROR then padded d ! 4 else 0)"
    using d(3) by (auto simp: response_status_def p question_def)
  have "received_data cl False (Some d) w1 =
    received_done cl (if hd d = ATT_OP_ERROR then padded d ! 4 else 0) (padded d) (length d) (Some (?c\<lparr>cmd_sent := True\<rparr>)) v"
    using received_response [of w1 "?c\<lparr>cmd_sent := True\<rparr>" "[]" d cl] w1 rd d(2) r st by (simp add: v_def ready_def deaf_def)
  also have "\<dots> = do {
      w1 \<leftarrow> cl (Result_Call f (if hd d = ATT_OP_ERROR then padded d ! 4 else 0) (Some (padded d)) (of_nat (length d))) v;
      w2 \<leftarrow> (case g of None \<Rightarrow> Some w1 | Some g \<Rightarrow> cl (Notify_Call g) w1);
      Some (True, w2) }"
    using w1(4) by (simp add: received_done_def v_def result_call_def command_destroy_def question_def)
  finally have "exchange cl d w = do {
      w1 \<leftarrow> cl (Result_Call f (if hd d = ATT_OP_ERROR then padded d ! 4 else 0) (Some (padded d)) (of_nat (length d))) v;
      (case g of None \<Rightarrow> Some w1 | Some g \<Rightarrow> cl (Notify_Call g) w1) }"
    by (simp add: exchange_def w1(1) dispatch_readable_def bind_assoc)
  moreover have "quiet held v"
    using w1 rd rest invv by (simp add: quiet_def ready_def deaf_def) (simp add: v_def)
  moreover have "same_client w v" "written v = written w @ [att_wire m]" using w1 by (simp_all add: same_client_def v_def)
  ultimately show ?thesis by blast
qed

end

end
