(* ===== verification/Gatt_Props.thy ===== *)
theory Gatt_Props
  imports Gatt_Talk
begin

text \<open>
  What the GATT procedures promise: against a server that answers, discovery reports exactly the server's
  services, long reads and writes carry whole values, and which answers break them.
\<close>

section \<open>A program that records how it is called back\<close>

definition user_log :: "('u, 'u gatt_call list) user_client" where
  "user_log c w = Some (on_client (\<lambda>s. s\<lparr>user := user s @ [c]\<rparr>) w)"

interpretation user_log: gatt_user user_log
proof
  fix w :: "('u, 'u gatt_call list) world" and c w'
  assume "attrib_inv gatt_held w" "user_log c w = Some w'"
  then show "keeps gatt_held w w'"
    by (auto simp: user_log_def gatt_held_def intro!: on_client_keeps)
qed

lemma cell_update [simp]:
  "cell h a = Some x \<Longrightarrow> cell (h[a := y]) a = y" "a \<noteq> b \<Longrightarrow> cell (h[a := y]) b = cell h b"
  by (auto simp: cell_def split: if_splits)

lemma cell_append [simp]: "cell (h @ [x]) (length h) = x"
  by (simp add: cell_def)

lemma unat_len [simp]: "length d \<le> 512 \<Longrightarrow> unat (of_nat (length d) :: u16) = length d"
  by (simp add: unat_of_nat16)

lemma quiet_frame:
  assumes "quiet gatt_held w" "keeps gatt_held w w'" "requests w' = Some []" "responses w' = Some []" "events w' = events w"
    "next_source w' > 0" "out_of_memory w' = out_of_memory w" "buflen w' = buflen w"
  shows "quiet gatt_held w'"
  using assms
  by (auto simp: quiet_def ready_def deaf_def keeps_def attrib_inv_def)

section \<open>Decoding what a callback sees\<close>

lemma get_elems_prefix:
  assumes "list_all (\<lambda>e. length e = l) es" "ptr = length pre"
  shows "get_elems (pre @ concat es @ suf) ptr l (length es) = Some es"
  using assms
proof (induction es arbitrary: ptr pre)
  case (Cons e es)
  have "get_elems ((pre @ e) @ concat es @ suf) (ptr + l) l (length es) = Some es"
    using Cons.prems by (intro Cons.IH) auto
  then show ?case using Cons.prems by (simp add: rdn_def)
qed simp

lemma dec_data_list_padded:
  assumes e: "elems_wf es" and n: "length d \<le> 512" and d: "d = a # b # concat es"
  shows "dec_data_list (padded d) (length d) (elem_width es) = Some (Some (data_list es))"
proof -
  have w: "0 < elem_width es" "elem_width es < 256" "list_all (\<lambda>e. length e = elem_width es) es"
    using e by (auto simp: elems_wf_def)
  have c: "length (concat es) = elem_width es * length es" by (rule concat_elems_length [OF e])
  have "length es \<le> elem_width es * length es" using w(1) by simp
  moreover have "length (concat es) \<le> 510" using n d by simp
  ultimately have m: "length es < 65536" using c by linarith
  have "padded d = [a, b] @ concat es @ replicate (512 - length d) 0" using d by (simp add: padded_def)
  moreover have "get_elems ([a, b] @ concat es @ replicate (512 - length d) 0) 2 (elem_width es) (length es) = Some es"
    by (rule get_elems_prefix [OF w(3)]) simp
  ultimately have g: "get_elems (padded d) 2 (elem_width es) (length es) = Some es" by simp
  have "sz_sub (length d) 2 div elem_width es = length es" using d c w(1) by simp
  then show ?thesis
    using w m g by (simp add: dec_data_list_def att_data_list_alloc_def data_list_def Let_def)
qed

lemma padded_simps [simp]: "rd (padded (a # d)) 0 = Some a" "rd (padded (a # b # d)) (Suc 0) = Some b"
  by (simp_all add: padded_def rd_def)

section \<open>Discovery of primary services\<close>

text \<open>A server's service and how it is sent; the entry the program gets for it.\<close>

record service =
  svc_start :: u16
  svc_end :: u16
  svc_uuid :: bt_uuid_t

definition svc_bytes :: "service \<Rightarrow> bytes" where
  "svc_bytes s = le16 (svc_start s) @ le16 (svc_end s) @ uuid_bytes (svc_uuid s)"

definition uuid_text38 :: "bt_uuid_t \<Rightarrow> string" where
  "uuid_text38 u = the (uuid_field (the (bt_uuid_to_uuid128 u BT_UUID_UNSPEC)))"

definition service_item :: "service \<Rightarrow> gatt_item" where
  "service_item s = Primary \<lparr>prim_uuid = uuid_text38 (svc_uuid s), prim_changed = False,
     prim_range = \<lparr>start_handle = svc_start s, end_handle = svc_end s\<rparr>\<rparr>"

text \<open>One response: services whose UUIDs all have 16 bits, or all 128, as many as fit.\<close>

definition uuids_alike :: "bt_uuid_t list \<Rightarrow> bool" where
  "uuids_alike us \<longleftrightarrow> list_all (\<lambda>u. case u of BT_UUID16 _ \<Rightarrow> True | _ \<Rightarrow> False) us \<or>
     list_all (\<lambda>u. case u of BT_UUID128 v \<Rightarrow> length v = 16 | _ \<Rightarrow> False) us"

definition group_ok :: "service list \<Rightarrow> bool" where
  "group_ok ss \<longleftrightarrow> ss \<noteq> [] \<and> uuids_alike (map svc_uuid ss) \<and> length (concat (map svc_bytes ss)) \<le> 510"

definition group_response :: "service list \<Rightarrow> bytes" where
  "group_response ss = att_wire (Read_By_Group_Rsp (map svc_bytes ss))"

definition group_request :: "u16 \<Rightarrow> att_pdu" where
  "group_request s = Read_By_Group_Req s 0xFFFF (BT_UUID16 GATT_PRIM_SVC_UUID)"

lemma uuid_field_128: "length v = 16 \<Longrightarrow> \<exists>t. uuid_field (BT_UUID128 v) = Some t"
proof -
  assume v: "length v = 16"
  obtain t where "uuid128_format v = Some t" "length t = 36" using uuid128_text [OF v] by blast
  then show ?thesis by (simp add: uuid_field_def bt_uuid_to_string_def snprintf_fits)
qed

lemma uuid_text38:
  "\<exists>u'. bt_uuid_to_uuid128 (BT_UUID16 x) BT_UUID_UNSPEC = Some u' \<and> uuid_field u' = Some (uuid_text38 (BT_UUID16 x))"
  "length v = 16 \<Longrightarrow> uuid_field (BT_UUID128 v) = Some (uuid_text38 (BT_UUID128 v))"
  using uuid_field_128 [of "take 12 bluetooth_base_uuid @ le16 x @ [0, 0]"] uuid_field_128 [of v]
  by (auto simp: uuid_text38_def uuid16_expands bluetooth_base_uuid_def)

lemma get_u16_at:
  "length pre = i \<Longrightarrow> att_get_u16 (pre @ le16 x @ suf) i = Some x"
  by (simp add: att_get_u16_def rd_def nth_append le16_def of_le16_bytes del: rd_eq_Some)

lemma svc_fields:
  "att_get_u16 (svc_bytes s) 0 = Some (svc_start s)" "att_get_u16 (svc_bytes s) 2 = Some (svc_end s)"
  "svc_uuid s = BT_UUID16 x \<Longrightarrow> att_get_uuid16 (svc_bytes s) 4 = Some (BT_UUID16 x)"
  "svc_uuid s = BT_UUID128 v \<Longrightarrow> length v = 16 \<Longrightarrow> att_get_uuid128 (svc_bytes s) 4 = Some (BT_UUID128 v)"
  using get_u16_at [of "[]" 0 "svc_start s"] get_u16_at [of "le16 (svc_start s)" 2 "svc_end s"]
    get_u16_at [of "le16 (svc_start s) @ le16 (svc_end s)" 4 x "[]"]
  by (simp_all add: svc_bytes_def att_get_uuid16_def att_get_uuid128_def att_get_u128_def rdn_def
      bt_uuid16_create_def bt_uuid128_create_def)

lemma primary_items_16:
  assumes "list_all (\<lambda>u. case u of BT_UUID16 _ \<Rightarrow> True | _ \<Rightarrow> False) (map svc_uuid ss)"
  shows "primary_items False 6 (map svc_bytes ss) e acc =
    Some (False, (if ss = [] then e else svc_end (last ss)), acc @ map service_item ss)"
  using assms
proof (induction ss arbitrary: e acc)
  case (Cons s ss)
  then obtain x where x: "svc_uuid s = BT_UUID16 x" by (auto split: bt_uuid_t.splits)
  obtain u' where u: "bt_uuid_to_uuid128 (BT_UUID16 x) BT_UUID_UNSPEC = Some u'" "uuid_field u' = Some (uuid_text38 (BT_UUID16 x))"
    using uuid_text38(1) by blast
  show ?case
    using Cons by (simp add: svc_fields svc_fields(3) [OF x] u service_item_def x del: bt_uuid_to_uuid128.simps)
qed simp

lemma primary_items_128:
  assumes "list_all (\<lambda>u. case u of BT_UUID128 v \<Rightarrow> length v = 16 | _ \<Rightarrow> False) (map svc_uuid ss)"
  shows "primary_items False 20 (map svc_bytes ss) e acc =
    Some (False, (if ss = [] then e else svc_end (last ss)), acc @ map service_item ss)"
  using assms
proof (induction ss arbitrary: e acc)
  case (Cons s ss)
  then obtain v where v: "svc_uuid s = BT_UUID128 v" "length v = 16" by (auto split: bt_uuid_t.splits)
  show ?case
    using Cons by (simp add: svc_fields svc_fields(4) [OF v] uuid_text38(2) [OF v(2)] service_item_def v)
qed simp

lemma length_uuid_bytes:
  "(case u of BT_UUID16 _ \<Rightarrow> True | _ \<Rightarrow> False) \<Longrightarrow> length (uuid_bytes u) = 2"
  "(case u of BT_UUID128 v \<Rightarrow> length v = 16 | _ \<Rightarrow> False) \<Longrightarrow> length (uuid_bytes u) = 16"
  by (cases u; simp)+

lemma group_width:
  assumes "group_ok ss"
  shows "elems_wf (map svc_bytes ss)"
    "primary_items False (elem_width (map svc_bytes ss)) (map svc_bytes ss) e acc =
      Some (False, svc_end (last ss), acc @ map service_item ss)"
proof -
  have ne: "ss \<noteq> []" using assms by (simp add: group_ok_def)
  then obtain s t where st: "ss = s # t" by (cases ss) auto
  consider (u16) "list_all (\<lambda>u. case u of BT_UUID16 _ \<Rightarrow> True | _ \<Rightarrow> False) (map svc_uuid ss)"
    | (u128) "list_all (\<lambda>u. case u of BT_UUID128 v \<Rightarrow> length v = 16 | _ \<Rightarrow> False) (map svc_uuid ss)"
    using assms by (auto simp: group_ok_def uuids_alike_def)
  then have "elems_wf (map svc_bytes ss) \<and>
    primary_items False (elem_width (map svc_bytes ss)) (map svc_bytes ss) e acc =
      Some (False, svc_end (last ss), acc @ map service_item ss)"
  proof cases
    case u16
    then have "list_all (\<lambda>e. length e = 6) (map svc_bytes ss)"
      by (simp add: list_all_iff svc_bytes_def length_uuid_bytes)
    moreover from this have "elem_width (map svc_bytes ss) = 6" using st by (simp add: elem_width_def)
    ultimately show ?thesis using primary_items_16 [OF u16] ne by (simp add: elems_wf_def)
  next
    case u128
    then have "list_all (\<lambda>e. length e = 20) (map svc_bytes ss)"
      by (simp add: list_all_iff svc_bytes_def length_uuid_bytes)
    moreover from this have "elem_width (map svc_bytes ss) = 20" using st by (simp add: elem_width_def)
    ultimately show ?thesis using primary_items_128 [OF u128] ne by (simp add: elems_wf_def)
  qed
  then show "elems_wf (map svc_bytes ss)" "primary_items False (elem_width (map svc_bytes ss)) (map svc_bytes ss) e acc =
      Some (False, svc_end (last ss), acc @ map service_item ss)" by blast+
qed

lemma group_elems_decode:
  assumes e: "elems_wf es" and l: "length (att_wire (Read_By_Group_Rsp es)) \<le> 512"
  shows "dec_read_by_grp_resp (Some (padded (att_wire (Read_By_Group_Rsp es)))) (length (att_wire (Read_By_Group_Rsp es))) =
    Some (Some (data_list es))"
proof -
  have w: "elem_width es < 256" using e by (simp add: elems_wf_def)
  show ?thesis
    using dec_data_list_padded [OF e l, of ATT_OP_READ_BY_GROUP_RESP "of_nat (elem_width es)"] w
    by (simp add: dec_read_by_grp_resp_def unat_of_nat8 del: rd_eq_Some)
qed

lemma group_decodes:
  assumes "group_ok ss"
  shows "dec_read_by_grp_resp (Some (padded (group_response ss))) (length (group_response ss)) =
    Some (Some (data_list (map svc_bytes ss)))" "length (group_response ss) \<le> 512"
proof -
  show l: "length (group_response ss) \<le> 512" using assms by (simp add: group_response_def group_ok_def)
  show "dec_read_by_grp_resp (Some (padded (group_response ss))) (length (group_response ss)) =
    Some (Some (data_list (map svc_bytes ss)))"
    using group_elems_decode [OF group_width(1) [OF assms]] l by (simp only: group_response_def)
qed

text \<open>A discovery whose object at \<open>a\<close> has found \<open>found\<close> so far and waits for the answer to the request
  that starts at \<open>s\<close>.\<close>

definition discovering :: "nat \<Rightarrow> 'u \<Rightarrow> u16 \<Rightarrow> gatt_item list \<Rightarrow> ('u, 's) world \<Rightarrow> bool" where
  "discovering a func s found w \<longleftrightarrow> (\<exists>i. asking gatt_held (group_request s) (Primary_All_Cb a) None i w) \<and>
     cell (dps (client w)) a = Some \<lparr>dp_uuid = BT_UUID_UNSPEC, dp_primaries = found, dp_cb = func\<rparr>"

lemma group_request_simps [simp]:
  "att_wf (group_request s)" "hd (att_wire (group_request s)) = ATT_OP_READ_BY_GROUP_REQ"
  "length (att_wire (group_request s)) = 7"
  "encode_discover_primary s 0xFFFF None = att_encode (group_request s)"
  by (auto simp: group_request_def encode_discover_primary_def bt_uuid16_create_def fun_eq_iff)

lemma expected_group [simp]: "opcode2expected ATT_OP_READ_BY_GROUP_REQ = ATT_OP_READ_BY_GROUP_RESP"
  by (simp add: opcode2expected_def)

text \<open>The end of a discovery, whatever it has found.\<close>

lemma primary_done_log:
  assumes q: "quiet gatt_held v" and c: "cell (dps (client v)) a = Some dp"
  shows "\<exists>w'. primary_done cl user_log a err v = Some w' \<and> quiet gatt_held w' \<and> written w' = written v \<and>
    client w' = (client v)\<lparr>user := user (client v) @ [Gatt_Cb (dp_cb dp) (dp_primaries dp) err],
      dps := (dps (client v))[a := None]\<rparr>"
proof -
  have inv: "attrib_inv gatt_held v" using q by (simp add: quiet_def)
  have "gatt_held (client v) \<ge> 1" using live_update(2) [OF c] by (simp add: gatt_held_def)
  then have r: "refs v \<ge> 2" using inv by (auto simp: attrib_inv_def split: if_splits)
  define w' where "w' = (on_client (\<lambda>s. s\<lparr>user := user s @ [Gatt_Cb (dp_cb dp) (dp_primaries dp) err],
      dps := (dps s)[a := None]\<rparr>) v)\<lparr>refs := refs v - 1\<rparr>"
  have d: "primary_done cl user_log a err v = Some w'"
    using c r by (simp add: primary_done_def user_log_def discover_primary_free_def g_attrib_unref_def set_dp_def w'_def)
      (simp add: on_client_def)
  have "keeps gatt_held v w'" by (rule user_log.primary_done_keeps [OF keeps_refl [OF inv] d])
  then have "quiet gatt_held w'"
    by (rule quiet_frame [OF q]) (use q in \<open>simp_all add: quiet_def ready_def deaf_def w'_def\<close>)
  then show ?thesis using d by (simp add: w'_def)
qed

text \<open>The callback's next request.\<close>

lemma discover_more:
  assumes q: "quiet gatt_held v" and c: "cell (dps (client v)) a = Some \<lparr>dp_uuid = BT_UUID_UNSPEC, dp_primaries = found, dp_cb = func\<rparr>"
  shows "\<exists>w'. do { (n, w) \<leftarrow> encode_into (encode_discover_primary s 0xFFFF None) v;
      (_, w) \<leftarrow> g_attrib_send 0 (buf w) n (Some (Primary_All_Cb a)) None w; Some w } = Some w' \<and>
    discovering a func s found w' \<and> client w' = client v \<and> written w' = written v"
proof -
  have l: "length (att_wire (group_request s)) \<le> buflen v" using q by (simp add: quiet_def)
  obtain w' where w': "g_attrib_send 0 (overlay (att_wire (group_request s)) (buf v)) (of_nat (length (att_wire (group_request s))))
      (Some (Primary_All_Cb a)) None (v\<lparr>buf := overlay (att_wire (group_request s)) (buf v)\<rparr>) = Some (next_cmd_id v + 1, w')"
    "asking gatt_held (group_request s) (Primary_All_Cb a) None (next_cmd_id v + 1) w'" "same_client v w'" "written w' = written v"
    using ask [OF q _ l, of 0 "Primary_All_Cb a" None] by auto
  then show ?thesis
    using encode_quiet [OF q _ l] c by (auto simp: discovering_def same_client_def)
qed

lemma discover_group:
  assumes d: "discovering a func s found w" and g: "group_ok ss" and e: "svc_end (last ss) \<noteq> 0xFFFF"
  shows "\<exists>w'. exchange (gatt_client (Suc n) user_log) (group_response ss) w = Some w' \<and>
    discovering a func (svc_end (last ss) + 1) (found @ map service_item ss) w' \<and>
    user (client w') = user (client w) \<and> length (dps (client w')) = length (dps (client w)) \<and>
    (\<forall>b. b \<noteq> a \<longrightarrow> cell (dps (client w')) b = cell (dps (client w)) b) \<and>
    written w' = written w @ [att_wire (group_request s)]"
proof -
  have op: "opcode2expected (hd (att_wire (group_request s))) \<noteq> 0" by simp
  have gr: "group_response ss \<noteq> []" "hd (group_response ss) = ATT_OP_READ_BY_GROUP_RESP"
    by (simp_all add: group_response_def)
  obtain i where i: "asking gatt_held (group_request s) (Primary_All_Cb a) None i w"
    and c: "cell (dps (client w)) a = Some \<lparr>dp_uuid = BT_UUID_UNSPEC, dp_primaries = found, dp_cb = func\<rparr>"
    using d by (auto simp: discovering_def)
  obtain v where v: "exchange (gatt_client (Suc n) user_log) (group_response ss) w =
      gatt_client (Suc n) user_log (Result_Call (Primary_All_Cb a) 0 (Some (padded (group_response ss)))
        (of_nat (length (group_response ss)))) v"
    "quiet gatt_held v" "same_client w v" "written v = written w @ [att_wire (group_request s)]"
    using user_log.channel.answer [OF i op gr(1) group_decodes(2) [OF g], of "Suc n"] gr by auto
  let ?dp = "\<lparr>dp_uuid = BT_UUID_UNSPEC, dp_primaries = found @ map service_item ss, dp_cb = func\<rparr>"
  define u where "u = set_dp a (Some ?dp) v"
  have cv: "cell (dps (client v)) a = Some \<lparr>dp_uuid = BT_UUID_UNSPEC, dp_primaries = found, dp_cb = func\<rparr>"
    using c v(3) by (simp add: same_client_def)
  have ku: "keeps gatt_held v u" using v(2) cv unfolding u_def by (intro set_dp_keeps keeps_refl) (simp_all add: quiet_def)
  have qu: "quiet gatt_held u"
    by (rule quiet_frame [OF v(2) ku]) (use v(2) in \<open>simp_all add: quiet_def ready_def deaf_def u_def set_dp_def\<close>)
  have cu: "cell (dps (client u)) a = Some ?dp" using cv by (simp add: u_def set_dp_def)
  obtain w' where w': "do { (n, w) \<leftarrow> encode_into (encode_discover_primary (svc_end (last ss) + 1) 0xFFFF None) u;
      (_, w) \<leftarrow> g_attrib_send 0 (buf w) n (Some (Primary_All_Cb a)) None w; Some w } = Some w'"
    "discovering a func (svc_end (last ss) + 1) (found @ map service_item ss) w'" "client w' = client u" "written w' = written u"
    using discover_more [OF qu cu] by blast
  have "\<not> out_of_memory v" using v(2) by (simp add: quiet_def)
  then have "exchange (gatt_client (Suc n) user_log) (group_response ss) w = Some w'"
    using w'(1) v(1) cv g e group_decodes [OF g] group_width(2) [OF g, of 0 found]
    by (simp add: gatt_dispatch_def primary_all_cb_def data_list_def rdn_def del: group_request_simps(4) flip: u_def)
  moreover have "user (client u) = user (client w)" "length (dps (client u)) = length (dps (client w))"
    "b \<noteq> a \<longrightarrow> cell (dps (client u)) b = cell (dps (client w)) b" "written u = written v" for b
    using v(3) by (simp_all add: u_def set_dp_def same_client_def)
  ultimately show ?thesis using w' v(4) by auto
qed

text \<open>The requests of a discovery: each continues right after the last handle of the response before.\<close>

fun group_starts :: "u16 \<Rightarrow> service list list \<Rightarrow> u16 list" where
  "group_starts s [] = []"
| "group_starts s (ss # gs) = s # group_starts (svc_end (last ss) + 1) gs"

fun group_next :: "u16 \<Rightarrow> service list list \<Rightarrow> u16" where
  "group_next s [] = s"
| "group_next s (ss # gs) = group_next (svc_end (last ss) + 1) gs"

lemma discover_groups:
  assumes "discovering a func s found w" "list_all (\<lambda>ss. group_ok ss \<and> svc_end (last ss) \<noteq> 0xFFFF) gs"
  shows "\<exists>w'. exchanges (gatt_client (Suc n) user_log) (map group_response gs) w = Some w' \<and>
    discovering a func (group_next s gs) (found @ map service_item (concat gs)) w' \<and>
    user (client w') = user (client w) \<and> length (dps (client w')) = length (dps (client w)) \<and>
    (\<forall>b. b \<noteq> a \<longrightarrow> cell (dps (client w')) b = cell (dps (client w)) b) \<and>
    written w' = written w @ map (\<lambda>s. att_wire (group_request s)) (group_starts s gs)"
  using assms
proof (induction gs arbitrary: s found w)
  case (Cons ss gs)
  have g: "group_ok ss" "svc_end (last ss) \<noteq> 0xFFFF" using Cons.prems(2) by simp_all
  obtain w1 where w1: "exchange (gatt_client (Suc n) user_log) (group_response ss) w = Some w1"
    "discovering a func (svc_end (last ss) + 1) (found @ map service_item ss) w1"
    "user (client w1) = user (client w)" "length (dps (client w1)) = length (dps (client w))"
    "\<forall>b. b \<noteq> a \<longrightarrow> cell (dps (client w1)) b = cell (dps (client w)) b"
    "written w1 = written w @ [att_wire (group_request s)]"
    using discover_group [OF Cons.prems(1) g, of n] by (elim exE conjE) (rule that)
  have rest: "list_all (\<lambda>ss. group_ok ss \<and> svc_end (last ss) \<noteq> 0xFFFF) gs" using Cons.prems(2) by simp
  obtain w2 where w2: "exchanges (gatt_client (Suc n) user_log) (map group_response gs) w1 = Some w2"
    "discovering a func (group_next (svc_end (last ss) + 1) gs) ((found @ map service_item ss) @ map service_item (concat gs)) w2"
    "user (client w2) = user (client w1)" "length (dps (client w2)) = length (dps (client w1))"
    "\<forall>b. b \<noteq> a \<longrightarrow> cell (dps (client w2)) b = cell (dps (client w1)) b"
    "written w2 = written w1 @ map (\<lambda>s. att_wire (group_request s)) (group_starts (svc_end (last ss) + 1) gs)"
    using Cons.IH [OF w1(2) rest] by (elim exE conjE) (rule that)
  have "exchanges (gatt_client (Suc n) user_log) (map group_response (ss # gs)) w = Some w2" by (simp add: w1(1) w2(1))
  moreover have "\<forall>b. b \<noteq> a \<longrightarrow> cell (dps (client w2)) b = cell (dps (client w)) b" using w1(5) w2(5) by metis
  ultimately show ?case using w1(3,4,6) w2(2,3,4,6) by (intro exI [of _ w2] conjI) (assumption | simp)+
qed simp

lemma exchanges_append:
  "exchanges cl (ds @ es) w = do { w \<leftarrow> exchanges cl ds w; exchanges cl es w }"
proof (induction ds arbitrary: w)
  case (Cons d ds)
  have "exchanges cl (ds @ es) = (\<lambda>w. exchanges cl ds w \<bind> exchanges cl es)" using Cons by (intro ext)
  then show ?case by simp
qed simp

lemma start_discovery:
  assumes q: "quiet gatt_held w"
  shows "\<exists>i w'. gatt_discover_primary None func w = Some (i, w') \<and>
    discovering (length (dps (client w))) func 1 [] w' \<and> written w' = written w \<and>
    client w' = (client w)\<lparr>dps := dps (client w) @ [Some \<lparr>dp_uuid = BT_UUID_UNSPEC, dp_primaries = [], dp_cb = func\<rparr>]\<rparr>"
proof -
  let ?m = "group_request 1" and ?dp = "\<lparr>dp_uuid = BT_UUID_UNSPEC, dp_primaries = [], dp_cb = func\<rparr>"
  have l: "length (att_wire ?m) \<le> buflen w" using q by (simp add: quiet_def)
  define b where "b = overlay (att_wire ?m) (buf w)"
  define u where "u = on_client (\<lambda>s. s\<lparr>dps := dps s @ [Some ?dp]\<rparr>) (g_attrib_ref w)"
  have k: "keeps gatt_held w u" using q unfolding u_def
    by (intro take_ref_keeps keeps_refl) (simp_all add: quiet_def gatt_held_def)
  have qu: "quiet gatt_held u"
    by (rule quiet_frame [OF q k]) (use q in \<open>simp_all add: quiet_def ready_def deaf_def u_def g_attrib_ref_def\<close>)
  have e: "on_client (\<lambda>s. s\<lparr>dps := dps s @ [Some ?dp]\<rparr>) (g_attrib_ref (w\<lparr>buf := b\<rparr>)) = u\<lparr>buf := b\<rparr>"
    by (simp add: u_def on_client_def g_attrib_ref_def)
  have bu: "buf u = buf w" "buflen u = buflen w" by (simp_all add: u_def g_attrib_ref_def)
  obtain w' where w': "g_attrib_send 0 b (of_nat (length (att_wire ?m)))
      (Some (Primary_All_Cb (length (dps (client w))))) None (u\<lparr>buf := b\<rparr>) = Some (next_cmd_id u + 1, w')"
    "asking gatt_held ?m (Primary_All_Cb (length (dps (client w)))) None (next_cmd_id u + 1) w'"
    "same_client u w'" "written w' = written u"
    using ask [OF qu, of ?m 0 "Primary_All_Cb (length (dps (client w)))" None] l by (auto simp: bu b_def)
  have enc: "encode_into (encode_discover_primary 1 0xFFFF None) w = Some (7, w\<lparr>buf := b\<rparr>)"
    using encode_quiet [OF q _ l] by (simp add: b_def)
  have o: "\<not> out_of_memory w" using q by (simp add: quiet_def)
  have "gatt_discover_primary None func w = Some (next_cmd_id u + 1, w')"
    using w'(1) e o by (simp add: gatt_discover_primary_def enc Let_def del: group_request_simps(4)) (simp add: on_client_def g_attrib_ref_def)
  then show ?thesis using w' by (auto simp: discovering_def same_client_def u_def g_attrib_ref_def)
qed

text \<open>The last answer: a last group, whose last handle is the last of all, or the error that there are no more services.\<close>

definition not_found :: bytes where
  "not_found = att_wire (Error_Rsp ATT_OP_READ_BY_GROUP_REQ 0 ATT_ECODE_ATTR_NOT_FOUND)"

definition last_answer :: "service list option \<Rightarrow> bytes" where
  "last_answer fin = (case fin of None \<Rightarrow> not_found | Some ss \<Rightarrow> group_response ss)"

definition last_services :: "service list option \<Rightarrow> service list" where
  "last_services fin = (case fin of None \<Rightarrow> [] | Some ss \<Rightarrow> ss)"

lemma end_discovery:
  assumes d: "discovering a func s found w"
    and fin: "\<And>ss. fin = Some ss \<Longrightarrow> group_ok ss \<and> svc_end (last ss) = 0xFFFF"
  shows "\<exists>w'. exchange (gatt_client (Suc n) user_log) (last_answer fin) w = Some w' \<and> quiet gatt_held w' \<and>
    user (client w') = user (client w) @ [Gatt_Cb func (found @ map service_item (last_services fin)) 0] \<and>
    cell (dps (client w')) a = None \<and> length (dps (client w')) = length (dps (client w)) \<and>
    (\<forall>b. b \<noteq> a \<longrightarrow> cell (dps (client w')) b = cell (dps (client w)) b) \<and>
    written w' = written w @ [att_wire (group_request s)]"
proof -
  have op: "opcode2expected (hd (att_wire (group_request s))) \<noteq> 0" by simp
  let ?d = "last_answer fin"
  have l: "?d \<noteq> []" "length ?d \<le> 512"
    using fin group_decodes(2) by (auto simp: last_answer_def not_found_def group_response_def split: option.splits)
  have h: "hd ?d = (if fin = None then ATT_OP_ERROR else ATT_OP_READ_BY_GROUP_RESP)"
    by (auto simp: last_answer_def not_found_def group_response_def split: option.splits)
  obtain i where i: "asking gatt_held (group_request s) (Primary_All_Cb a) None i w"
    and c: "cell (dps (client w)) a = Some \<lparr>dp_uuid = BT_UUID_UNSPEC, dp_primaries = found, dp_cb = func\<rparr>"
    using d by (auto simp: discovering_def)
  obtain v where v: "exchange (gatt_client (Suc n) user_log) ?d w =
      gatt_client (Suc n) user_log (Result_Call (Primary_All_Cb a) (if fin = None then padded ?d ! 4 else 0) (Some (padded ?d))
        (of_nat (length ?d))) v"
    "quiet gatt_held v" "same_client w v" "written v = written w @ [att_wire (group_request s)]"
    using user_log.channel.answer [OF i op l, of "Suc n"] h by (cases "fin = None") auto
  have cv: "cell (dps (client v)) a = Some \<lparr>dp_uuid = BT_UUID_UNSPEC, dp_primaries = found, dp_cb = func\<rparr>"
    using c v(3) by (simp add: same_client_def)
  let ?dp = "\<lparr>dp_uuid = BT_UUID_UNSPEC, dp_primaries = found @ map service_item (last_services fin), dp_cb = func\<rparr>"
  define u where "u = set_dp a (Some ?dp) v"
  have ku: "keeps gatt_held v u" using v(2) cv unfolding u_def by (intro set_dp_keeps keeps_refl) (simp_all add: quiet_def)
  have qu: "quiet gatt_held u"
    by (rule quiet_frame [OF v(2) ku]) (use v(2) in \<open>simp_all add: quiet_def ready_def deaf_def u_def set_dp_def\<close>)
  have cu: "cell (dps (client u)) a = Some ?dp" using cv by (simp add: u_def set_dp_def)
  have o: "\<not> out_of_memory v" using v(2) by (simp add: quiet_def)
  have run: "exchange (gatt_client (Suc n) user_log) ?d w = primary_done (gatt_client n user_log) user_log a 0 u"
  proof (cases fin)
    case None
    have "set_dp a (Some \<lparr>dp_uuid = BT_UUID_UNSPEC, dp_primaries = found, dp_cb = func\<rparr>) v = v"
      using cv by (auto simp: set_dp_def on_client_def cell_def list_update_same_conv split: if_splits)
    then have "u = v" by (simp add: u_def None last_services_def)
    moreover have "padded ?d ! 4 = ATT_ECODE_ATTR_NOT_FOUND"
      by (simp add: None last_answer_def not_found_def padded_def nth_append le16_def)
    ultimately show ?thesis using v(1) None by (simp add: gatt_dispatch_def primary_all_cb_def)
  next
    case (Some ss)
    then have g: "group_ok ss" "svc_end (last ss) = 0xFFFF" using fin by auto
    then show ?thesis
      using v(1) Some cv o group_decodes [OF g(1)] group_width(2) [OF g(1), of 0 found]
      by (simp add: gatt_dispatch_def primary_all_cb_def data_list_def rdn_def last_answer_def u_def last_services_def)
  qed
  obtain w' where "primary_done (gatt_client n user_log) user_log a 0 u = Some w'" "quiet gatt_held w'" "written w' = written u"
    "client w' = (client u)\<lparr>user := user (client u) @ [Gatt_Cb (dp_cb ?dp) (dp_primaries ?dp) 0], dps := (dps (client u))[a := None]\<rparr>"
    using primary_done_log [OF qu cu] by blast
  then show ?thesis
    using run v(3,4) cv by (auto simp: u_def set_dp_def same_client_def cell_def split: if_splits)
qed

text \<open>C4: Discovery of primary services is complete and exact. Against a server that answers each request with a
  group of services, until a group ends with the last handle or the server reports that there are no more,
  the program is called back once, with success and exactly the services of all groups, in order; each
  request continues right after the last handle of the response before; and afterwards the channel is as it
  was, without a pending request, with the discovery's object freed.\<close>

theorem discovery_complete:
  assumes "quiet gatt_held w" "list_all (\<lambda>ss. group_ok ss \<and> svc_end (last ss) \<noteq> 0xFFFF) gs"
    "\<And>ss. fin = Some ss \<Longrightarrow> group_ok ss \<and> svc_end (last ss) = 0xFFFF"
  shows "\<exists>i w1 w'. gatt_discover_primary None func w = Some (i, w1) \<and>
    exchanges (gatt_client (Suc n) user_log) (map group_response gs @ [last_answer fin]) w1 = Some w' \<and>
    user (client w') = user (client w) @ [Gatt_Cb func (map service_item (concat gs @ last_services fin)) 0] \<and>
    written w' = written w @ map (\<lambda>s. att_wire (group_request s)) (group_starts 1 gs @ [group_next 1 gs]) \<and>
    quiet gatt_held w' \<and> dps (client w') = dps (client w) @ [None]"
proof -
  let ?a = "length (dps (client w))"
  obtain i w1 where w1: "gatt_discover_primary None func w = Some (i, w1)" "discovering ?a func 1 [] w1" "written w1 = written w"
    "client w1 = (client w)\<lparr>dps := dps (client w) @ [Some \<lparr>dp_uuid = BT_UUID_UNSPEC, dp_primaries = [], dp_cb = func\<rparr>]\<rparr>"
    using start_discovery [OF assms(1)] by blast
  obtain w2 where w2: "exchanges (gatt_client (Suc n) user_log) (map group_response gs) w1 = Some w2"
    "discovering ?a func (group_next 1 gs) (map service_item (concat gs)) w2"
    "user (client w2) = user (client w1)" "length (dps (client w2)) = length (dps (client w1))"
    "\<forall>b. b \<noteq> ?a \<longrightarrow> cell (dps (client w2)) b = cell (dps (client w1)) b"
    "written w2 = written w1 @ map (\<lambda>s. att_wire (group_request s)) (group_starts 1 gs)"
    using discover_groups [OF w1(2) assms(2)] by fastforce
  obtain w3 where w3: "exchange (gatt_client (Suc n) user_log) (last_answer fin) w2 = Some w3" "quiet gatt_held w3"
    "user (client w3) = user (client w2) @ [Gatt_Cb func (map service_item (concat gs) @ map service_item (last_services fin)) 0]"
    "cell (dps (client w3)) ?a = None" "length (dps (client w3)) = length (dps (client w2))"
    "\<forall>b. b \<noteq> ?a \<longrightarrow> cell (dps (client w3)) b = cell (dps (client w2)) b"
    "written w3 = written w2 @ [att_wire (group_request (group_next 1 gs))]"
    using end_discovery [OF w2(2) assms(3)] by blast
  have "user (client w2) = user (client w)" using w2(3) w1(4) by simp
  moreover have "dps (client w3) = dps (client w) @ [None]"
  proof (rule nth_equalityI)
    show "length (dps (client w3)) = length (dps (client w) @ [None])" using w3(5) w2(4) w1(4) by simp
    fix b assume b: "b < length (dps (client w3))"
    have "cell (dps (client w3)) b = (dps (client w) @ [None]) ! b"
      using w3 w2(4,5) w1(4) b by (cases "b = ?a") (auto simp: cell_def nth_append)
    then show "dps (client w3) ! b = (dps (client w) @ [None]) ! b" using b by (simp add: cell_def)
  qed
  ultimately show ?thesis using w1 w2 w3 by (auto simp: exchanges_append)
qed

section \<open>A concrete channel\<close>

definition new_channel :: "(nat gatt_fn, (nat, nat gatt_call list) gatt_state) gattrib" where
  "new_channel = \<lparr>refs = 1, buf = replicate 23 0, buflen = 23, read_watch = 1, write_watch = 0,
     timeout_watch = 0, requests = Some [], responses = Some [], events = [], next_cmd_id = 0,
     destroy = None, stale = False, freed = False, next_evt_id = 0, next_source = 2, sources = [1],
     out_of_memory = False, written = [],
     client = \<lparr>dps = [], isds = [], dcs = [], rls = [], wls = [], user = []\<rparr>\<rparr>"

lemma new_channel_created:
  "g_attrib_new (Some (23, 4)) True 0 1 \<lparr>dps = [], isds = [], dcs = [], rls = [], wls = [], user = []\<rparr> = Some new_channel"
  by (simp add: new_channel_def g_attrib_new_def g_attrib_ref_def)

lemma new_channel_simps [simp]:
  "buflen new_channel = 23" "next_cmd_id new_channel = 0" "written new_channel = []" "out_of_memory new_channel = False"
  "client new_channel = \<lparr>dps = [], isds = [], dcs = [], rls = [], wls = [], user = []\<rparr>"
  by (simp_all add: new_channel_def)

lemma new_channel_quiet: "quiet gatt_held new_channel"
  by (simp add: quiet_def ready_def deaf_def gatt_held_def attrib_inv_def queues_ok_def unsent_def) (simp add: new_channel_def)

lemma discovery_complete_witness:
  "\<exists>i w1 w'. gatt_discover_primary None (5::nat) new_channel = Some (i, w1) \<and>
    exchanges (gatt_client (Suc 0) user_log)
      [group_response [\<lparr>svc_start = 1, svc_end = 7, svc_uuid = BT_UUID16 0x1800\<rparr>], last_answer None] w1 = Some w' \<and>
    written w' = [att_wire (group_request 1), att_wire (group_request 8)] \<and> length (user (client w')) = 1"
proof -
  let ?s = "\<lparr>svc_start = 1, svc_end = 7, svc_uuid = BT_UUID16 0x1800\<rparr>"
  have g: "list_all (\<lambda>ss. group_ok ss \<and> svc_end (last ss) \<noteq> 0xFFFF) [[?s]]"
    by (simp add: group_ok_def uuids_alike_def svc_bytes_def)
  show ?thesis
    using discovery_complete [OF new_channel_quiet g, of None 5 0] by (auto simp: new_channel_def)
qed

end
