(* ===== verification/Gatt_Long.thy ===== *)
theory Gatt_Long
  imports Gatt_Props
begin

text \<open>
  Long values: a read collects the whole value from the blobs of the server, a write sends the whole value in
  prepared pieces, each against a server that answers as the protocol prescribes.
\<close>

section \<open>Pieces of a value\<close>

text \<open>The value in pieces of \<open>k\<close> bytes; the last piece is shorter, and may be empty.\<close>

function blobs :: "nat \<Rightarrow> bytes \<Rightarrow> bytes list" where
  "blobs k v = (if k = 0 \<or> length v < k then [v] else take k v # blobs k (drop k v))"
  by auto
termination by (relation "measure (\<lambda>(k, v). length v)") auto

declare blobs.simps [simp del] gatt_client.simps [simp del]

lemma quiet_on_client:
  assumes "quiet gatt_held w" "gatt_held (f (client w)) = gatt_held (client w)"
  shows "quiet gatt_held (on_client f w)"
proof -
  have k: "keeps gatt_held w (on_client f w)" using assms by (intro on_client_keeps keeps_refl) (simp_all add: quiet_def)
  show ?thesis by (rule quiet_frame [OF assms(1) k]) (use assms(1) in \<open>simp_all add: quiet_def ready_def deaf_def\<close>)
qed

lemma quiet_set_rl [simp]: "quiet gatt_held w \<Longrightarrow> quiet gatt_held (set_rl a x w)"
  unfolding set_rl_def by (rule quiet_on_client) (simp_all add: gatt_held_def)

lemma quiet_set_wl [simp]: "quiet gatt_held w \<Longrightarrow> quiet gatt_held (set_wl a x w)"
  unfolding set_wl_def by (rule quiet_on_client) (simp_all add: gatt_held_def)

lemma quiet_user_log:
  assumes "quiet gatt_held w"
  shows "\<exists>w'. user_log c w = Some w' \<and> quiet gatt_held w' \<and> written w' = written w \<and>
    client w' = (client w)\<lparr>user := user (client w) @ [c]\<rparr>"
  using quiet_on_client [OF assms, of "\<lambda>s. s\<lparr>user := user s @ [c]\<rparr>"]
  by (simp add: user_log_def gatt_held_def)

lemma asking_on_client:
  assumes "asking gatt_held m f g i w" "gatt_held (h (client w)) = gatt_held (client w)"
  shows "asking gatt_held m f g i (on_client h w)"
proof -
  have "keeps gatt_held w (on_client h w)" using assms by (intro on_client_keeps keeps_refl) (simp_all add: asking_def)
  then show ?thesis using assms by (auto simp: asking_def ready_def deaf_def dest: keeps_inv)
qed

lemma set_rl_simps [simp]:
  "cell (rls (client w)) a = Some y \<Longrightarrow> cell (rls (client (set_rl a x w))) a = x"
  "buf (set_rl a x w) = buf w" "buflen (set_rl a x w) = buflen w" "written (set_rl a x w) = written w"
  "next_cmd_id (set_rl a x w) = next_cmd_id w" "client (set_rl a x w) = (client w)\<lparr>rls := (rls (client w))[a := x]\<rparr>"
  "out_of_memory (set_rl a x w) = out_of_memory w"
  by (simp_all add: set_rl_def)

lemma blob_request [simp]:
  "att_wf (Read_Blob_Req h off)" "hd (att_wire (Read_Blob_Req h off)) = ATT_OP_READ_BLOB_REQ"
  "length (att_wire (Read_Blob_Req h off)) = 5"
  "opcode2expected ATT_OP_READ_BLOB_REQ = ATT_OP_READ_BLOB_RESP" "opcode2expected ATT_OP_READ_REQ = ATT_OP_READ_RESP"
  by (simp_all add: opcode2expected_def)

text \<open>The requests for the pieces of a value that follow its first \<open>off\<close> bytes, each with the offset of its piece.\<close>

fun blob_requests :: "u16 \<Rightarrow> nat \<Rightarrow> bytes list \<Rightarrow> bytes list" where
  "blob_requests h off [] = []"
| "blob_requests h off (p # ps) = att_wire (Read_Blob_Req h (of_nat off)) # blob_requests h (off + length p) ps"

text \<open>The answer of a server that holds the value \<open>v\<close> at \<open>handle\<close>, in responses of at most \<open>k\<close> bytes, to the bytes of a request.\<close>

fun value_server :: "nat \<Rightarrow> u16 \<Rightarrow> bytes \<Rightarrow> bytes \<Rightarrow> bytes option" where
  "value_server k handle v [op, h0, h1] =
     (if op = ATT_OP_READ_REQ \<and> of_le16 h0 h1 = handle then Some (ATT_OP_READ_RESP # take k v) else None)"
| "value_server k handle v [op, h0, h1, o0, o1] =
     (let off = unat (of_le16 o0 o1)
      in if op = ATT_OP_READ_BLOB_REQ \<and> of_le16 h0 h1 = handle \<and> off \<le> length v
         then Some (ATT_OP_READ_BLOB_RESP # take k (drop off v)) else None)"
| "value_server _ _ _ _ = None"

lemma value_server_read: "value_server k h v (att_wire (Read_Req h)) = Some (ATT_OP_READ_RESP # take k v)"
  by (simp add: le16_def of_le16_bytes)

lemma value_server_blob:
  "off \<le> length v \<Longrightarrow> off < 65536 \<Longrightarrow>
   value_server k h v (att_wire (Read_Blob_Req h (of_nat off))) = Some (ATT_OP_READ_BLOB_RESP # take k (drop off v))"
  by (simp add: le16_def of_le16_bytes unat_of_nat16)

lemma value_server_blobs:
  assumes "0 < k" "off \<le> length v" "length v < 65536"
  shows "map (value_server k h v) (blob_requests h off (blobs k (drop off v))) =
    map (\<lambda>b. Some (att_wire (Read_Blob_Rsp b 0))) (blobs k (drop off v))"
  using assms(2)
proof (induction "length v - off" arbitrary: off rule: less_induct)
  case less
  have off: "off < 65536" using less.prems assms(3) by linarith
  show ?case
  proof (cases "length (drop off v) < k")
    case True
    then have "blobs k (drop off v) = [drop off v]" by (subst blobs.simps) simp
    then show ?thesis using True less.prems off by (simp add: value_server_blob del: att_wire.simps(12))
  next
    case False
    then have bl: "blobs k (drop off v) = take k (drop off v) # blobs k (drop (off + k) v)"
      using assms(1) by (subst blobs.simps) (simp add: add.commute)
    have l: "off + length (take k (drop off v)) = off + k" "off + k \<le> length v" using False less.prems assms(1) by simp_all
    have "length v - (off + k) < length v - off" using l assms(1) by linarith
    from less.hyps [OF this l(2)] show ?thesis
      using less.prems off unfolding bl blob_requests.simps l(1) by (simp add: value_server_blob del: att_wire.simps(12))
  qed
qed

section \<open>Reading\<close>

text \<open>A long read that has \<open>got\<close> a part of the value and waits for the next blob.\<close>

definition reading :: "nat \<Rightarrow> 'u \<Rightarrow> u16 \<Rightarrow> u32 \<Rightarrow> bytes \<Rightarrow> ('u, 's) world \<Rightarrow> bool" where
  "reading a func h i got w \<longleftrightarrow>
     asking gatt_held (Read_Blob_Req h (of_nat (length got))) (Read_Blob_Helper a) (Some (Read_Long_Destroy a)) i w \<and>
     cell (rls (client w)) a = Some \<lparr>rl_func = func, rl_buffer = Some (ATT_OP_READ_RESP # got),
       rl_size = of_nat (Suc (length got)), rl_handle = h, rl_id = i, rl_ref = 1\<rparr> \<and> i \<noteq> 0"

text \<open>Sending the request for the next blob, and the release of the command before.\<close>

lemma next_blob:
  assumes q: "quiet gatt_held v" and i: "i \<noteq> 0"
    and c: "cell (rls (client v)) a = Some \<lparr>rl_func = func, rl_buffer = Some (ATT_OP_READ_RESP # got),
       rl_size = of_nat (Suc (length got)), rl_handle = h, rl_id = i, rl_ref = 1\<rparr>"
  shows "\<exists>w'. do { (plen, w) \<leftarrow> encode_into (enc_read_blob_req h (of_nat (length got))) v;
        (j, w) \<leftarrow> g_attrib_send i (buf w) plen (Some (Read_Blob_Helper a)) (Some (Read_Long_Destroy a)) w;
        w \<leftarrow> (if j \<noteq> 0 then rl_addref a w else X j w);
        read_long_destroy a w } = Some w' \<and>
      reading a func h i got w' \<and> client w' = client v \<and> written w' = written v \<and> buflen w' = buflen v"
proof -
  let ?m = "Read_Blob_Req h (of_nat (length got))"
  have l: "length (att_wire ?m) \<le> buflen v" using q by (simp add: quiet_def)
  obtain w1 where w1: "g_attrib_send i (overlay (att_wire ?m) (buf v)) (of_nat (length (att_wire ?m)))
      (Some (Read_Blob_Helper a)) (Some (Read_Long_Destroy a)) (v\<lparr>buf := overlay (att_wire ?m) (buf v)\<rparr>) = Some (i, w1)"
    "asking gatt_held ?m (Read_Blob_Helper a) (Some (Read_Long_Destroy a)) i w1" "same_client v w1" "written w1 = written v"
    using ask [OF q _ l, of i "Read_Blob_Helper a" "Some (Read_Long_Destroy a)"] i by auto
  have e: "encode_into (enc_read_blob_req h (of_nat (length got))) v = Some (5, v\<lparr>buf := overlay (att_wire ?m) (buf v)\<rparr>)"
    using encode_quiet [OF q _ l] by simp
  have c1: "client w1 = client v" "buflen w1 = buflen v" using w1(3) by (simp_all add: same_client_def)
  have restore: "on_client (\<lambda>s. s\<lparr>rls := (rls s)[a := cell (rls (client w1)) a]\<rparr>) w1 = w1"
    using c c1 by (auto simp: on_client_def cell_def list_update_same_conv split: if_splits)
  have "do { w \<leftarrow> rl_addref a w1; read_long_destroy a w } = Some w1"
    using c c1 restore by (simp add: rl_addref_def read_long_destroy_def Let_def) (simp add: set_rl_def on_client_def)
  then have "do { (plen, w) \<leftarrow> encode_into (enc_read_blob_req h (of_nat (length got))) v;
        (j, w) \<leftarrow> g_attrib_send i (buf w) plen (Some (Read_Blob_Helper a)) (Some (Read_Long_Destroy a)) w;
        w \<leftarrow> (if j \<noteq> 0 then rl_addref a w else X j w);
        read_long_destroy a w } = Some w1"
    using w1(1) i by (simp add: e)
  then show ?thesis using w1 c c1 i by (auto simp: reading_def)
qed

lemma blob_response:
  assumes "length b \<le> 511"
  shows "att_wire (Read_Blob_Rsp b 0) \<noteq> []" "length (att_wire (Read_Blob_Rsp b 0)) \<le> 512"
    "hd (att_wire (Read_Blob_Rsp b 0)) = ATT_OP_READ_BLOB_RESP"
    "take (length b) (drop 1 (padded (att_wire (Read_Blob_Rsp b 0)))) = b"
  using assms by (simp_all add: padded_def)

lemma answer_blob:
  assumes r: "reading a func h i got w" and b: "length b \<le> 511"
  shows "\<exists>v. exchange (gatt_client (Suc n) user_log) (att_wire (Read_Blob_Rsp b 0)) w = do {
       w1 \<leftarrow> read_blob_helper user_log 0 (Some (padded (att_wire (Read_Blob_Rsp b 0)))) (of_nat (Suc (length b))) a v;
       read_long_destroy a w1 } \<and>
     quiet gatt_held v \<and> same_client w v \<and> written v = written w @ [att_wire (Read_Blob_Req h (of_nat (length got)))]"
proof -
  have ask: "asking gatt_held (Read_Blob_Req h (of_nat (length got))) (Read_Blob_Helper a) (Some (Read_Long_Destroy a)) i w"
    using r by (simp add: reading_def)
  have op: "opcode2expected (hd (att_wire (Read_Blob_Req h (of_nat (length got))))) \<noteq> 0" by simp
  show ?thesis
    using user_log.channel.answer [OF ask op blob_response(1,2) [OF b], of "Suc n"] blob_response(3) [OF b]
    by (simp add: gatt_dispatch_def gatt_client.simps)
qed

text \<open>A blob of 1 to 511 bytes is appended.\<close>

lemma append_blob:
  assumes q: "quiet gatt_held v" and b: "b \<noteq> []" "length b \<le> 511" and s: "length got + length b < 65535"
    and c: "cell (rls (client v)) a = Some \<lparr>rl_func = func, rl_buffer = Some (ATT_OP_READ_RESP # got),
       rl_size = of_nat (Suc (length got)), rl_handle = h, rl_id = i, rl_ref = 1\<rparr>"
  shows "read_blob_helper user_log 0 (Some (padded (att_wire (Read_Blob_Rsp b 0)))) (of_nat (Suc (length b))) a v =
    (let w = set_rl a (Some \<lparr>rl_func = func, rl_buffer = Some (ATT_OP_READ_RESP # got @ b),
       rl_size = of_nat (Suc (length (got @ b))), rl_handle = h, rl_id = i, rl_ref = 1\<rparr>) v
     in if Suc (length b) < buflen w then blob_done user_log a 0 w
        else do {
          (plen, w) \<leftarrow> encode_into (enc_read_blob_req h (of_nat (length (got @ b)))) w;
          (j, w) \<leftarrow> g_attrib_send i (buf w) plen (Some (Read_Blob_Helper a)) (Some (Read_Long_Destroy a)) w;
          (if j \<noteq> 0 then rl_addref a w else blob_done user_log a ATT_ECODE_IO w)
        })"
proof -
  define S :: u16 where "S = of_nat (Suc (length got))"
  define L :: u16 where "L = of_nat (Suc (length b))"
  define N where "N = Suc (length got + length b)"
  have u: "unat S = Suc (length got)" "unat L = Suc (length b)"
    using s b by (simp_all add: S_def L_def unat_of_nat16 del: of_nat_Suc)
  have n: "uint S + uint L - 1 = int N" by (simp add: uint_nat u N_def)
  have ne: "L \<noteq> 1" "L \<noteq> 0" using b u(2) by (auto simp: word_unat_eq_iff)
  have d: "rdn (padded (att_wire (Read_Blob_Rsp b 0))) 1 (unat L - 1) = Some b"
    using blob_response [OF b(2)] b(2) unfolding u by (subst rdn_Some) (simp_all add: padded_def)
  have t: "wrn (take N (ATT_OP_READ_RESP # got) @ replicate (N - length (ATT_OP_READ_RESP # got)) 0) (Suc (length got)) b =
    Some (ATT_OP_READ_RESP # got @ b)"
    using b by (simp add: wrn_def N_def)
  have sz: "S + (L - 1) = of_nat (Suc (length (got @ b)))"
    "of_nat (Suc (length (got @ b))) - 1 = (of_nat (length (got @ b)) :: u16)"
    "S + L - 2 = of_nat (length got) + of_nat (length b)"
    by (simp_all add: S_def L_def)
  have o: "\<not> out_of_memory v" using q by (simp add: quiet_def)
  have pos: "\<not> int N \<le> 0" by (simp add: N_def)
  show ?thesis
    using ne o pos c n d t
    unfolding read_blob_helper_def Let_def L_def [symmetric] S_def [symmetric]
    by (simp add: u sz del: of_nat_Suc att_wire.simps cong: if_cong)
qed

lemma read_blob_step:
  assumes r: "reading a func h i got w" and b: "Suc (length b) = buflen w" "length b \<le> 511"
    and s: "length got + length b < 65535"
  shows "\<exists>w'. exchange (gatt_client (Suc n) user_log) (att_wire (Read_Blob_Rsp b 0)) w = Some w' \<and>
    reading a func h i (got @ b) w' \<and> user (client w') = user (client w) \<and> buflen w' = buflen w \<and>
    (\<exists>x. rls (client w') = (rls (client w))[a := x]) \<and>
    written w' = written w @ [att_wire (Read_Blob_Req h (of_nat (length got)))]"
proof -
  obtain v where v: "exchange (gatt_client (Suc n) user_log) (att_wire (Read_Blob_Rsp b 0)) w = do {
       w1 \<leftarrow> read_blob_helper user_log 0 (Some (padded (att_wire (Read_Blob_Rsp b 0)))) (of_nat (Suc (length b))) a v;
       read_long_destroy a w1 }"
    "quiet gatt_held v" "same_client w v" "written v = written w @ [att_wire (Read_Blob_Req h (of_nat (length got)))]"
    using answer_blob [OF r b(2)] by blast
  have sc: "client v = client w" "buflen v = buflen w" using v(3) by (simp_all add: same_client_def)
  have c: "cell (rls (client v)) a = Some \<lparr>rl_func = func, rl_buffer = Some (ATT_OP_READ_RESP # got),
       rl_size = of_nat (Suc (length got)), rl_handle = h, rl_id = i, rl_ref = 1\<rparr>" and i: "i \<noteq> 0"
    using r by (simp_all add: reading_def sc)
  have ne: "b \<noteq> []" using b(1) v(2) by (auto simp: quiet_def sc)
  let ?rl = "\<lparr>rl_func = func, rl_buffer = Some (ATT_OP_READ_RESP # got @ b),
       rl_size = of_nat (Suc (length (got @ b))), rl_handle = h, rl_id = i, rl_ref = 1\<rparr>"
  define u where "u = set_rl a (Some ?rl) v"
  have qu: "quiet gatt_held u" using v(2) by (simp add: u_def)
  have cu: "cell (rls (client u)) a = Some ?rl" using c unfolding u_def by (rule set_rl_simps)
  obtain w' where w': "do { (plen, w) \<leftarrow> encode_into (enc_read_blob_req h (of_nat (length (got @ b)))) u;
        (j, w) \<leftarrow> g_attrib_send i (buf w) plen (Some (Read_Blob_Helper a)) (Some (Read_Long_Destroy a)) w;
        w \<leftarrow> (if j \<noteq> 0 then rl_addref a w else blob_done user_log a ATT_ECODE_IO w);
        read_long_destroy a w } = Some w'"
    "reading a func h i (got @ b) w'" "client w' = client u" "written w' = written u" "buflen w' = buflen u"
    using next_blob [OF qu i cu, of "\<lambda>j w. blob_done user_log a ATT_ECODE_IO w"] by blast
  have "\<not> Suc (length b) < buflen u" using b(1) by (simp add: u_def sc)
  then have "read_blob_helper user_log 0 (Some (padded (att_wire (Read_Blob_Rsp b 0)))) (of_nat (Suc (length b))) a v =
      do { (plen, w) \<leftarrow> encode_into (enc_read_blob_req h (of_nat (length (got @ b)))) u;
        (j, w) \<leftarrow> g_attrib_send i (buf w) plen (Some (Read_Blob_Helper a)) (Some (Read_Long_Destroy a)) w;
        (if j \<noteq> 0 then rl_addref a w else blob_done user_log a ATT_ECODE_IO w) }"
    using append_blob [OF v(2) ne b(2) s c] unfolding Let_def u_def [symmetric] by simp
  then have "exchange (gatt_client (Suc n) user_log) (att_wire (Read_Blob_Rsp b 0)) w = Some w'"
    using v(1) w'(1) by (auto simp: bind_eq_Some_conv split: if_splits)
  moreover have "rls (client w') = (rls (client w))[a := Some ?rl]" using w'(3) sc by (simp add: u_def)
  ultimately show ?thesis using w' v(4) sc by (auto simp: u_def)
qed

lemma finish_read:
  assumes q: "quiet gatt_held v"
    and c: "cell (rls (client v)) a = Some \<lparr>rl_func = func, rl_buffer = Some p, rl_size = n, rl_handle = h, rl_id = i, rl_ref = 1\<rparr>"
  shows "\<exists>w'. do { w1 \<leftarrow> blob_done user_log a st v; read_long_destroy a w1 } = Some w' \<and> quiet gatt_held w' \<and>
    written w' = written v \<and> rls (client w') = (rls (client v))[a := None] \<and>
    user (client w') = user (client v) @ [Att_Cb (Result_Call func st (Some p) n)]"
proof -
  obtain u where u: "user_log (Att_Cb (Result_Call func st (Some p) n)) v = Some u" "quiet gatt_held u" "written u = written v"
    "client u = (client v)\<lparr>user := user (client v) @ [Att_Cb (Result_Call func st (Some p) n)]\<rparr>"
    using quiet_user_log [OF q] by blast
  show ?thesis
    using u c by (simp add: blob_done_def read_long_destroy_def)
qed

lemma read_blob_end:
  assumes r: "reading a func h i got w" and b: "Suc (length b) < buflen w" "length b \<le> 511"
    and s: "length got + length b < 65535"
  shows "\<exists>w'. exchange (gatt_client (Suc n) user_log) (att_wire (Read_Blob_Rsp b 0)) w = Some w' \<and> quiet gatt_held w' \<and>
    user (client w') = user (client w) @
      [Att_Cb (Result_Call func 0 (Some (ATT_OP_READ_RESP # got @ b)) (of_nat (Suc (length (got @ b)))))] \<and>
    rls (client w') = (rls (client w))[a := None] \<and>
    written w' = written w @ [att_wire (Read_Blob_Req h (of_nat (length got)))]"
proof -
  obtain v where v: "exchange (gatt_client (Suc n) user_log) (att_wire (Read_Blob_Rsp b 0)) w = do {
       w1 \<leftarrow> read_blob_helper user_log 0 (Some (padded (att_wire (Read_Blob_Rsp b 0)))) (of_nat (Suc (length b))) a v;
       read_long_destroy a w1 }"
    "quiet gatt_held v" "same_client w v" "written v = written w @ [att_wire (Read_Blob_Req h (of_nat (length got)))]"
    using answer_blob [OF r b(2)] by blast
  have sc: "client v = client w" "buflen v = buflen w" using v(3) by (simp_all add: same_client_def)
  have c: "cell (rls (client v)) a = Some \<lparr>rl_func = func, rl_buffer = Some (ATT_OP_READ_RESP # got),
       rl_size = of_nat (Suc (length got)), rl_handle = h, rl_id = i, rl_ref = 1\<rparr>"
    using r by (simp add: reading_def sc)
  show ?thesis
  proof (cases "b = []")
    case True
    have "read_blob_helper user_log 0 (Some (padded (att_wire (Read_Blob_Rsp b 0)))) (of_nat (Suc (length b))) a v =
      blob_done user_log a 0 v" using True by (simp add: read_blob_helper_def)
    then show ?thesis using finish_read [OF v(2) c, of 0] v sc True by auto
  next
    case False
    let ?rl = "\<lparr>rl_func = func, rl_buffer = Some (ATT_OP_READ_RESP # got @ b),
       rl_size = of_nat (Suc (length (got @ b))), rl_handle = h, rl_id = i, rl_ref = 1\<rparr>"
    define u where "u = set_rl a (Some ?rl) v"
    have qu: "quiet gatt_held u" using v(2) by (simp add: u_def)
    have cu: "cell (rls (client u)) a = Some ?rl" using c unfolding u_def by (rule set_rl_simps)
    have "Suc (length b) < buflen u" using b(1) by (simp add: u_def sc)
    then have "read_blob_helper user_log 0 (Some (padded (att_wire (Read_Blob_Rsp b 0)))) (of_nat (Suc (length b))) a v =
        blob_done user_log a 0 u"
      using append_blob [OF v(2) False b(2) s c] unfolding Let_def u_def [symmetric] by simp
    moreover have "rls (client u) = (rls (client w))[a := Some ?rl]" "user (client u) = user (client w)" "written u = written v"
      using sc by (simp_all add: u_def)
    ultimately show ?thesis using finish_read [OF qu cu, of 0] v(1,4) by auto
  qed
qed

lemma exchanges_Nil: "exchanges cl [] = Some"
  by (simp add: fun_eq_iff)

text \<open>The blobs that follow what was \<open>got\<close>, each of \<open>k\<close> bytes until the last.\<close>

lemma read_blobs:
  assumes "reading a func h i got w" "Suc k = buflen w" "k \<le> 511" "length got + length v < 65535"
  shows "\<exists>w'. exchanges (gatt_client (Suc n) user_log) (map (\<lambda>b. att_wire (Read_Blob_Rsp b 0)) (blobs k v)) w = Some w' \<and>
    quiet gatt_held w' \<and> rls (client w') = (rls (client w))[a := None] \<and>
    user (client w') = user (client w) @
      [Att_Cb (Result_Call func 0 (Some (ATT_OP_READ_RESP # got @ v)) (of_nat (Suc (length (got @ v)))))] \<and>
    written w' = written w @ blob_requests h (length got) (blobs k v)"
  using assms
proof (induction k v arbitrary: got w rule: blobs.induct)
  case (1 k v)
  have "23 \<le> buflen w" using 1(2) by (simp add: reading_def asking_def)
  then have k: "k \<noteq> 0" using 1(3) by simp
  show ?case
  proof (cases "length v < k")
    case True
    then have bl: "blobs k v = [v]" by (simp add: blobs.simps [of k v])
    obtain w' where "exchange (gatt_client (Suc n) user_log) (att_wire (Read_Blob_Rsp v 0)) w = Some w'" "quiet gatt_held w'"
      "user (client w') = user (client w) @
        [Att_Cb (Result_Call func 0 (Some (ATT_OP_READ_RESP # got @ v)) (of_nat (Suc (length (got @ v)))))]"
      "rls (client w') = (rls (client w))[a := None]"
      "written w' = written w @ [att_wire (Read_Blob_Req h (of_nat (length got)))]"
      using read_blob_end [OF 1(2), of v n] 1(3-5) True by auto
    then show ?thesis by (simp add: bl exchanges_Nil del: att_wire.simps of_nat_Suc)
  next
    case False
    then have bl: "blobs k v = take k v # blobs k (drop k v)" using k by (simp add: blobs.simps [of k v])
    have l: "length (take k v) = k" using False by simp
    have b: "Suc (length (take k v)) = buflen w" "length (take k v) \<le> 511" "length got + length (take k v) < 65535"
      using 1(3-5) False l by linarith+
    obtain w1 x where w1: "exchange (gatt_client (Suc n) user_log) (att_wire (Read_Blob_Rsp (take k v) 0)) w = Some w1"
      "reading a func h i (got @ take k v) w1" "user (client w1) = user (client w)" "buflen w1 = buflen w"
      "rls (client w1) = (rls (client w))[a := x]" "written w1 = written w @ [att_wire (Read_Blob_Req h (of_nat (length got)))]"
      using read_blob_step [OF 1(2) b] by blast
    have s: "length (got @ take k v) + length (drop k v) < 65535" using 1(5) False by simp
    have "\<not> (k = 0 \<or> length v < k)" using False k by simp
    from 1(1) [OF this w1(2) _ 1(4) s] 1(3) w1(4)
    obtain w2 where w2: "exchanges (gatt_client (Suc n) user_log) (map (\<lambda>b. att_wire (Read_Blob_Rsp b 0)) (blobs k (drop k v))) w1 = Some w2"
      "quiet gatt_held w2" "rls (client w2) = (rls (client w1))[a := None]"
      "user (client w2) = user (client w1) @ [Att_Cb (Result_Call func 0 (Some (ATT_OP_READ_RESP # (got @ take k v) @ drop k v))
        (of_nat (Suc (length ((got @ take k v) @ drop k v)))))]"
      "written w2 = written w1 @ blob_requests h (length (got @ take k v)) (blobs k (drop k v))"
      by auto
    have "(got @ take k v) @ drop k v = got @ v" "length (got @ take k v) = length got + length (take k v)" by simp_all
    with w1 w2 show ?thesis unfolding bl by (simp del: att_wire.simps of_nat_Suc length_take)
  qed
qed

section \<open>The first response of a read\<close>

lemma read_request [simp]:
  "att_wf (Read_Req h)" "hd (att_wire (Read_Req h)) = ATT_OP_READ_REQ" "length (att_wire (Read_Req h)) = 3"
  by simp_all

definition read_started :: "nat \<Rightarrow> 'u \<Rightarrow> u16 \<Rightarrow> u32 \<Rightarrow> ('u, 's) world \<Rightarrow> bool" where
  "read_started a func h i w \<longleftrightarrow>
     asking gatt_held (Read_Req h) (Read_Char_Helper a) (Some (Read_Long_Destroy a)) i w \<and>
     cell (rls (client w)) a = Some \<lparr>rl_func = func, rl_buffer = None, rl_size = 0, rl_handle = h, rl_id = i, rl_ref = 1\<rparr> \<and> i \<noteq> 0"

lemma start_read:
  assumes q: "quiet gatt_held w" and i: "next_cmd_id w + 1 \<noteq> 0"
  shows "\<exists>i w'. gatt_read_char h func w = Some (i, w') \<and> read_started (length (rls (client w))) func h i w' \<and>
    user (client w') = user (client w) \<and> length (rls (client w')) = Suc (length (rls (client w))) \<and>
    take (length (rls (client w))) (rls (client w')) = rls (client w) \<and> buflen w' = buflen w \<and> written w' = written w"
proof -
  let ?a = "length (rls (client w))"
  let ?rl = "\<lparr>rl_func = func, rl_buffer = None, rl_size = 0, rl_handle = h, rl_id = 0, rl_ref = 0\<rparr>"
  define u where "u = on_client (\<lambda>s. s\<lparr>rls := rls s @ [Some ?rl]\<rparr>) w"
  have qu: "quiet gatt_held u" unfolding u_def by (rule quiet_on_client [OF q]) (simp add: gatt_held_def)
  have bu: "buflen u = buflen w" "next_cmd_id u = next_cmd_id w" by (simp_all add: u_def)
  have l: "length (att_wire (Read_Req h)) \<le> buflen u" using qu by (simp add: quiet_def)
  define b where "b = overlay (att_wire (Read_Req h)) (buf u)"
  obtain w1 where w1: "g_attrib_send 0 b 3 (Some (Read_Char_Helper ?a)) (Some (Read_Long_Destroy ?a)) (u\<lparr>buf := b\<rparr>)
      = Some (next_cmd_id w + 1, w1)"
    "asking gatt_held (Read_Req h) (Read_Char_Helper ?a) (Some (Read_Long_Destroy ?a)) (next_cmd_id w + 1) w1" "same_client u w1" "written w1 = written u"
    using ask [OF qu _ l, of 0 "Read_Char_Helper ?a" "Some (Read_Long_Destroy ?a)"] by (auto simp: b_def bu)
  have e: "encode_into (enc_read_req h) u = Some (3, u\<lparr>buf := b\<rparr>)"
    using encode_quiet [OF qu _ l] by (simp add: b_def)
  have c1: "client w1 = (client w)\<lparr>rls := rls (client w) @ [Some ?rl]\<rparr>" "buflen w1 = buflen w"
    using w1(3) by (simp_all add: same_client_def u_def)
  define w2 where "w2 = on_client (\<lambda>s. s\<lparr>rls := (rls s)[?a := Some (?rl\<lparr>rl_ref := 1, rl_id := next_cmd_id w + 1\<rparr>)]\<rparr>) w1"
  have o: "\<not> out_of_memory w" using q by (simp add: quiet_def)
  have "gatt_read_char h func w = Some (next_cmd_id w + 1, w2)"
    using o i w1(1) by (simp add: gatt_read_char_def Let_def e rl_addref_def c1 flip: u_def)
      (simp add: w2_def set_rl_def on_client_def c1)
  moreover have "asking gatt_held (Read_Req h) (Read_Char_Helper ?a) (Some (Read_Long_Destroy ?a)) (next_cmd_id w + 1) w2"
    unfolding w2_def by (rule asking_on_client [OF w1(2)]) (simp add: gatt_held_def)
  moreover have "client w2 = (client w)\<lparr>rls := rls (client w) @ [Some (?rl\<lparr>rl_ref := 1, rl_id := next_cmd_id w + 1\<rparr>)]\<rparr>" "buflen w2 = buflen w"
    "written w2 = written w"
    using w1(4) by (simp_all add: w2_def c1 u_def)
  ultimately show ?thesis using i by (auto simp: read_started_def)
qed

lemma first_response:
  assumes "length b \<le> 511"
  shows "att_wire (Read_Rsp b) \<noteq> []" "length (att_wire (Read_Rsp b)) \<le> 512"
    "hd (att_wire (Read_Rsp b)) = ATT_OP_READ_RESP" "take (Suc (length b)) (padded (att_wire (Read_Rsp b))) = ATT_OP_READ_RESP # b"
  using assms by (simp_all add: padded_def)

lemma answer_read:
  assumes r: "read_started a func h i w" and b: "length b \<le> 511"
  shows "\<exists>v. exchange (gatt_client (Suc n) user_log) (att_wire (Read_Rsp b)) w = do {
       w1 \<leftarrow> read_char_helper user_log 0 (Some (padded (att_wire (Read_Rsp b)))) (of_nat (Suc (length b))) a v;
       read_long_destroy a w1 } \<and>
     quiet gatt_held v \<and> same_client w v \<and> written v = written w @ [att_wire (Read_Req h)]"
proof -
  have ask: "asking gatt_held (Read_Req h) (Read_Char_Helper a) (Some (Read_Long_Destroy a)) i w"
    using r by (simp add: read_started_def)
  have op: "opcode2expected (hd (att_wire (Read_Req h))) \<noteq> 0" by simp
  show ?thesis
    using user_log.channel.answer [OF ask op first_response(1,2) [OF b], of "Suc n"] first_response(3) [OF b]
    by (simp add: gatt_dispatch_def gatt_client.simps)
qed

lemma short_read:
  assumes r: "read_started a func h i w" and b: "Suc (length b) < buflen w" "length b \<le> 511"
  shows "\<exists>w'. exchange (gatt_client (Suc n) user_log) (att_wire (Read_Rsp b)) w = Some w' \<and> quiet gatt_held w' \<and>
    rls (client w') = (rls (client w))[a := None] \<and>
    user (client w') = user (client w) @ [Att_Cb (Result_Call func 0 (Some (padded (att_wire (Read_Rsp b)))) (of_nat (Suc (length b))))] \<and>
    written w' = written w @ [att_wire (Read_Req h)]"
proof -
  obtain v where v: "exchange (gatt_client (Suc n) user_log) (att_wire (Read_Rsp b)) w = do {
       w1 \<leftarrow> read_char_helper user_log 0 (Some (padded (att_wire (Read_Rsp b)))) (of_nat (Suc (length b))) a v;
       read_long_destroy a w1 }" "quiet gatt_held v" "same_client w v" "written v = written w @ [att_wire (Read_Req h)]"
    using answer_read [OF r b(2)] by blast
  have sc: "client v = client w" "buflen v = buflen w" using v(3) by (simp_all add: same_client_def)
  have c: "cell (rls (client v)) a = Some \<lparr>rl_func = func, rl_buffer = None, rl_size = 0, rl_handle = h, rl_id = i, rl_ref = 1\<rparr>"
    using r by (simp add: read_started_def sc)
  have l: "unat (of_nat (Suc (length b)) :: u16) < buflen v" using b sc by (simp add: unat_of_nat16 del: of_nat_Suc)
  let ?c = "Att_Cb (Result_Call func 0 (Some (padded (att_wire (Read_Rsp b)))) (of_nat (Suc (length b))))"
  obtain u where "user_log ?c v = Some u" "quiet gatt_held u" "written u = written v" "client u = (client v)\<lparr>user := user (client v) @ [?c]\<rparr>"
    using quiet_user_log [OF v(2)] by blast
  then show ?thesis
    using v(1,4) c l sc by (simp add: read_char_helper_def char_read_done_def read_long_destroy_def del: of_nat_Suc att_wire.simps)
qed

lemma first_part:
  assumes r: "read_started a func h i w" and b: "Suc (length b) = buflen w" "length b \<le> 511"
  shows "\<exists>w' x. exchange (gatt_client (Suc n) user_log) (att_wire (Read_Rsp b)) w = Some w' \<and>
    reading a func h i b w' \<and> rls (client w') = (rls (client w))[a := x] \<and> user (client w') = user (client w) \<and> buflen w' = buflen w \<and>
    written w' = written w @ [att_wire (Read_Req h)]"
proof -
  obtain v where v: "exchange (gatt_client (Suc n) user_log) (att_wire (Read_Rsp b)) w = do {
       w1 \<leftarrow> read_char_helper user_log 0 (Some (padded (att_wire (Read_Rsp b)))) (of_nat (Suc (length b))) a v;
       read_long_destroy a w1 }" "quiet gatt_held v" "same_client w v" "written v = written w @ [att_wire (Read_Req h)]"
    using answer_read [OF r b(2)] by blast
  have sc: "client v = client w" "buflen v = buflen w" using v(3) by (simp_all add: same_client_def)
  have c: "cell (rls (client v)) a = Some \<lparr>rl_func = func, rl_buffer = None, rl_size = 0, rl_handle = h, rl_id = i, rl_ref = 1\<rparr>"
    and i: "i \<noteq> 0" using r by (simp_all add: read_started_def sc)
  define L :: u16 where "L = of_nat (Suc (length b))"
  have L: "unat L = Suc (length b)" "L - 1 = of_nat (length b)"
    using b(2) by (simp add: L_def unat_of_nat16 del: of_nat_Suc) (simp add: L_def)
  then have l: "\<not> unat L < buflen v" "L \<noteq> 0" using b sc by auto
  have d: "rdn (padded (att_wire (Read_Rsp b))) 0 (unat L) = Some (ATT_OP_READ_RESP # b)"
    using first_response(4) [OF b(2)] b(2) by (subst rdn_Some) (simp_all add: L(1) first_response(2) [OF b(2)] del: att_wire.simps)
  let ?rl = "\<lparr>rl_func = func, rl_buffer = Some (ATT_OP_READ_RESP # b), rl_size = of_nat (Suc (length b)), rl_handle = h, rl_id = i, rl_ref = 1\<rparr>"
  define u where "u = set_rl a (Some ?rl) v"
  have qu: "quiet gatt_held u" using v(2) by (simp add: u_def)
  have cu: "cell (rls (client u)) a = Some ?rl" using c unfolding u_def by (rule set_rl_simps)
  obtain w' where w': "do { (plen, w) \<leftarrow> encode_into (enc_read_blob_req h (of_nat (length b))) u;
        (j, w) \<leftarrow> g_attrib_send i (buf w) plen (Some (Read_Blob_Helper a)) (Some (Read_Long_Destroy a)) w;
        w \<leftarrow> (if j \<noteq> 0 then rl_addref a w else char_read_done user_log a ATT_ECODE_IO (Some (padded (att_wire (Read_Rsp b)))) L w);
        read_long_destroy a w } = Some w'"
    "reading a func h i b w'" "client w' = client u" "buflen w' = buflen u" "written w' = written u"
    using next_blob [OF qu i cu, of "\<lambda>j w. char_read_done user_log a ATT_ECODE_IO (Some (padded (att_wire (Read_Rsp b)))) L w"] by blast
  have o: "\<not> out_of_memory v" using v(2) by (simp add: quiet_def)
  have "read_char_helper user_log 0 (Some (padded (att_wire (Read_Rsp b)))) L a v =
      do { (plen, w) \<leftarrow> encode_into (enc_read_blob_req h (of_nat (length b))) u;
        (j, w) \<leftarrow> g_attrib_send i (buf w) plen (Some (Read_Blob_Helper a)) (Some (Read_Long_Destroy a)) w;
        (if j \<noteq> 0 then rl_addref a w else char_read_done user_log a ATT_ECODE_IO (Some (padded (att_wire (Read_Rsp b)))) L w) }"
    using l o c d by (simp add: read_char_helper_def L(2) u_def L_def [symmetric] del: of_nat_Suc att_wire.simps cong: if_cong)
  then have "exchange (gatt_client (Suc n) user_log) (att_wire (Read_Rsp b)) w = Some w'"
    using v(1) w'(1) unfolding L_def [symmetric] by (auto simp: bind_eq_Some_conv simp del: att_wire.simps split: if_splits)
  then show ?thesis using w' v(4) sc by (auto simp: u_def simp del: att_wire.simps)
qed

text \<open>C6: Reading is complete for values of any length. Nothing is sent before the conversation; then the channel carries the
  read request and, for each further piece, a blob request for the same handle with the offset of that piece, and these are exactly the
  requests that a server holding the value answers with the responses of the conversation. The program is called back once, with
  success and the opcode of the response before exactly the server's value; afterwards the channel is as it was and the object
  of the read is freed.\<close>

theorem long_read:
  fixes h :: u16
  assumes "quiet gatt_held w" "next_cmd_id w + 1 \<noteq> 0" "buflen w \<le> 512" "length v < 65535"
    "blobs (buflen w - 1) v = b # bs"
  defines "reqs \<equiv> att_wire (Read_Req h) # blob_requests h (length b) bs"
    and "rsps \<equiv> att_wire (Read_Rsp b) # map (\<lambda>b. att_wire (Read_Blob_Rsp b 0)) bs"
  shows "map (value_server (buflen w - 1) h v) reqs = map Some rsps \<and>
    (\<exists>i w1 w' p n. gatt_read_char h func w = Some (i, w1) \<and> written w1 = written w \<and>
      exchanges (gatt_client (Suc k) user_log) rsps w1 = Some w' \<and> written w' = written w @ reqs \<and>
      user (client w') = user (client w) @ [Att_Cb (Result_Call func 0 (Some p) n)] \<and>
      take (unat n) p = ATT_OP_READ_RESP # v \<and> unat n = length v + 1 \<and>
      quiet gatt_held w' \<and> rls (client w') = rls (client w) @ [None])"
proof -
  let ?a = "length (rls (client w))" and ?k = "buflen w - 1"
  have bl: "23 \<le> buflen w" using assms(1) by (simp add: quiet_def)
  obtain i w1 where w1: "gatt_read_char h func w = Some (i, w1)" "read_started ?a func h i w1"
    "user (client w1) = user (client w)" "length (rls (client w1)) = Suc ?a" "take ?a (rls (client w1)) = rls (client w)"
    "buflen w1 = buflen w" "written w1 = written w"
    using start_read [OF assms(1,2)] by blast
  have rl: "(rls (client w1))[?a := None] = rls (client w) @ [None]"
    using w1(4,5) by (metis length_0_conv length_drop diff_Suc_Suc drop_update_cancel id_take_nth_drop lessI
        list_update_id nth_list_update_eq take_update_cancel upd_conv_take_nth_drop Suc_diff_Suc append_Nil2 drop_all le_refl)
  show ?thesis
  proof (cases "length v < ?k")
    case True
    then have "blobs ?k v = [v]" by (subst blobs.simps) simp
    then have b: "b = v" "bs = []" using assms(5) by simp_all
    have server: "map (value_server ?k h v) reqs = map Some rsps"
      using True b by (simp add: reqs_def rsps_def value_server_read del: att_wire.simps(10))
    have s: "Suc (length v) < buflen w1" "length v \<le> 511" using True assms(3) w1(6) by simp_all
    obtain w' where w': "exchange (gatt_client (Suc k) user_log) (att_wire (Read_Rsp v)) w1 = Some w'" "quiet gatt_held w'"
      "rls (client w') = (rls (client w1))[?a := None]"
      "user (client w') = user (client w1) @ [Att_Cb (Result_Call func 0 (Some (padded (att_wire (Read_Rsp v)))) (of_nat (Suc (length v))))]"
      "written w' = written w1 @ [att_wire (Read_Req h)]"
      using short_read [OF w1(2) s] by blast
    have "unat (of_nat (Suc (length v)) :: u16) = Suc (length v)" using s by (simp add: unat_of_nat16 del: of_nat_Suc)
    then show ?thesis
      using w1(1,3,7) w' rl b first_response(4) [OF s(2)] server
      by (auto simp: exchanges_Nil reqs_def rsps_def simp del: att_wire.simps of_nat_Suc)
  next
    case False
    then have "blobs ?k v = take ?k v # blobs ?k (drop ?k v)" using bl by (subst blobs.simps) simp
    then have b: "b = take ?k v" "bs = blobs ?k (drop ?k v)" using assms(5) by simp_all
    have k: "0 < ?k" "?k \<le> length v" "length b = ?k" using False bl by (simp_all add: b)
    have server: "map (value_server ?k h v) reqs = map Some rsps"
      using value_server_blobs [OF k(1,2), of h] assms(4)
      by (simp add: reqs_def rsps_def value_server_read k(3) b(2) comp_def del: att_wire.simps(10)) (simp add: b(1))
    have s: "Suc (length b) = buflen w1" "length b \<le> 511" using False assms(3) w1(6) bl by (simp_all add: b)
    obtain w2 x where w2: "exchange (gatt_client (Suc k) user_log) (att_wire (Read_Rsp b)) w1 = Some w2" "reading ?a func h i b w2"
      "rls (client w2) = (rls (client w1))[?a := x]" "user (client w2) = user (client w1)" "buflen w2 = buflen w1"
      "written w2 = written w1 @ [att_wire (Read_Req h)]"
      using first_part [OF w1(2) s] by blast
    have l: "Suc ?k = buflen w2" "?k \<le> 511" "length b + length (drop ?k v) < 65535"
      using w2(5) w1(6) bl assms(3,4) False by (simp_all add: b)
    obtain w' where w': "exchanges (gatt_client (Suc k) user_log) (map (\<lambda>b. att_wire (Read_Blob_Rsp b 0)) bs) w2 = Some w'"
      "quiet gatt_held w'" "rls (client w') = (rls (client w2))[?a := None]"
      "user (client w') = user (client w2) @
        [Att_Cb (Result_Call func 0 (Some (ATT_OP_READ_RESP # b @ drop ?k v)) (of_nat (Suc (length (b @ drop ?k v)))))]"
      "written w' = written w2 @ blob_requests h (length b) bs"
      using read_blobs [OF w2(2) l] unfolding b(2) by blast
    have e: "b @ drop ?k v = v" by (simp add: b)
    have "unat (of_nat (Suc (length v)) :: u16) = Suc (length v)" using assms(4) by (simp add: unat_of_nat16 del: of_nat_Suc)
    moreover have "rls (client w') = rls (client w) @ [None]" using w'(3) w2(3) rl by simp
    ultimately show ?thesis
      using w1(1,3,7) w2(1,4,6) w'(1,2,5) w'(4) [unfolded e] server
      by (auto simp: reqs_def rsps_def simp del: att_wire.simps of_nat_Suc)
  qed
qed

lemma long_read_witness:
  "\<exists>i w1 w' p n. gatt_read_char 0x12 5 new_channel = Some (i, w1) \<and>
    exchanges (gatt_client (Suc 0) user_log) [0x0B # replicate 22 7, 0x0D # replicate 18 7] w1 = Some w' \<and>
    written w' = [[0x0A, 0x12, 0], [0x0C, 0x12, 0, 22, 0]] \<and>
    user (client w') = [Att_Cb (Result_Call 5 0 (Some p) n)] \<and> take (unat n) p = 0x0B # replicate 40 7"
  using long_read [OF new_channel_quiet, of "replicate 40 7" "replicate 22 7" "[replicate 18 7]" "0x12" 5 0]
  by (auto simp: blobs.simps [of 22] le16_def)

end
