(* ===== verification/Gatt_Write.thy ===== *)
theory Gatt_Write
  imports Gatt_Long
begin

text \<open>
  Long writes: the value goes out in prepared pieces and an execute request, and what the callbacks of the
  GATT procedures do with errors and malformed responses.
\<close>

section \<open>Pieces of a value\<close>

function pieces :: "nat \<Rightarrow> bytes \<Rightarrow> bytes list" where
  "pieces k v = (if k = 0 \<or> v = [] then [] else take k v # pieces k (drop k v))"
  by auto
termination by (relation "measure (\<lambda>(k, v). length v)") auto

declare pieces.simps [simp del]

lemma prepare_clips:
  "5 \<le> n \<Longrightarrow> enc_prep_write_req h off x (length x) (Some b) n = att_encode (Prep_Write_Req h off (take (n - 5) x)) (Some b) n"
proof (cases "n - 5 < length x")
  case True
  then have "rdn (take (n - 5) x) 0 (n - 5) = rdn x 0 (n - 5)" by (simp add: rdn_def)
  then show "5 \<le> n \<Longrightarrow> ?thesis" using True by (simp add: enc_prep_write_req_def Let_def min_def cong: if_cong)
qed (simp add: enc_prep_write_req_def Let_def)

lemma set_wl_simps [simp]:
  "cell (wls (client w)) a = Some y \<Longrightarrow> cell (wls (client (set_wl a x w))) a = x"
  "buf (set_wl a x w) = buf w" "buflen (set_wl a x w) = buflen w" "written (set_wl a x w) = written w"
  "next_cmd_id (set_wl a x w) = next_cmd_id w" "client (set_wl a x w) = (client w)\<lparr>wls := (wls (client w))[a := x]\<rparr>"
  "out_of_memory (set_wl a x w) = out_of_memory w"
  by (simp_all add: set_wl_def)

definition write_state :: "'u \<Rightarrow> u16 \<Rightarrow> nat \<Rightarrow> bytes \<Rightarrow> 'u write_long_data" where
  "write_state func h off v = \<lparr>wl_func = Some func, wl_handle = h, wl_offset = of_nat off, wl_value = v, wl_vlen = length v\<rparr>"

text \<open>A long write that waits for the answer to the piece at \<open>off\<close>.\<close>

definition preparing :: "nat \<Rightarrow> 'u \<Rightarrow> u16 \<Rightarrow> nat \<Rightarrow> bytes \<Rightarrow> ('u, 's) world \<Rightarrow> bool" where
  "preparing a func h off v w \<longleftrightarrow>
     (\<exists>i. asking gatt_held (Prep_Write_Req h (of_nat off) (take (buflen w - 5) (drop off v))) (Prepare_Write_Cb a) None i w) \<and>
     cell (wls (client w)) a = Some (write_state func h off v)"

lemma prepare_piece:
  assumes q: "quiet gatt_held w" and c: "cell (wls (client w)) a = Some (write_state func h off v)"
    and l: "off < length v" "length v < 65536"
  shows "\<exists>i w'. prepare_write a w = Some (i, w') \<and> preparing a func h off v w' \<and> client w' = client w \<and>
    written w' = written w \<and> buflen w' = buflen w"
proof -
  have bl: "23 \<le> buflen w" "buflen w < 65536" using q by (simp_all add: quiet_def)
  let ?p = "take (buflen w - 5) (drop off v)"
  let ?m = "Prep_Write_Req h (of_nat off) ?p"
  have o: "unat (of_nat off :: u16) = off" using l by (simp add: unat_of_nat16)
  have sub: "sz_sub (length v) off = length (drop off v)" using l by simp
  have wf: "att_wf ?m" "length (att_wire ?m) \<le> buflen w" using bl by simp_all
  have op: "opcode2expected (hd (att_wire ?m)) \<noteq> 0" by (simp add: opcode2expected_def)
  have e: "encode_into (enc_prep_write_req h (of_nat off) (drop off v) (length (drop off v))) w =
      Some (of_nat (length (att_wire ?m)), w\<lparr>buf := overlay (att_wire ?m) (buf w)\<rparr>)"
    using encode_quiet [OF q wf] bl by (simp add: encode_into_def g_attrib_get_buffer_def prepare_clips del: att_wire.simps length_drop)
  have nz: "(of_nat (length (att_wire ?m)) :: u16) \<noteq> 0"
    using wf(2) bl(2) by (simp add: word_unat_eq_iff unat_of_nat16 del: att_wire.simps)
  obtain w' where "g_attrib_send 0 (overlay (att_wire ?m) (buf w)) (of_nat (length (att_wire ?m))) (Some (Prepare_Write_Cb a)) None
      (w\<lparr>buf := overlay (att_wire ?m) (buf w)\<rparr>) = Some (next_cmd_id w + 1, w')"
    "asking gatt_held ?m (Prepare_Write_Cb a) None (next_cmd_id w + 1) w'" "same_client w w'" "written w' = written w"
    using ask [OF q wf op, of 0 "Prepare_Write_Cb a" None] by auto
  moreover from this have "prepare_write a w = Some (next_cmd_id w + 1, w')"
    using c nz by (simp add: prepare_write_def write_state_def o sub e Let_def del: att_wire.simps length_drop)
  ultimately show ?thesis using c by (auto simp: preparing_def same_client_def)
qed

text \<open>The answer repeats the request; the callback counts its bytes.\<close>

lemma answer_piece:
  assumes p: "preparing a func h off v w" and l: "off < length v" "buflen w \<le> 512"
  shows "\<exists>x. exchange (gatt_client (Suc n) user_log) (att_wire (Prep_Write_Rsp h (of_nat off) (take (buflen w - 5) (drop off v)))) w =
      (let off' = off + length (take (buflen w - 5) (drop off v));
           w = set_wl a (Some (write_state func h off' v)) x
       in if unat (of_nat off' :: u16) = length v
          then do { (_, w) \<leftarrow> execute_write ATT_WRITE_ALL_PREP_WRITES (Some func) w; Some (set_wl a None w) }
          else do { (_, w) \<leftarrow> prepare_write a w; Some w }) \<and>
    quiet gatt_held x \<and> same_client w x \<and>
    written x = written w @ [att_wire (Prep_Write_Req h (of_nat off) (take (buflen w - 5) (drop off v)))]"
proof -
  let ?p = "take (buflen w - 5) (drop off v)"
  let ?m = "Prep_Write_Req h (of_nat off) ?p" and ?d = "att_wire (Prep_Write_Rsp h (of_nat off) ?p)"
  obtain i where i: "asking gatt_held ?m (Prepare_Write_Cb a) None i w" and c: "cell (wls (client w)) a = Some (write_state func h off v)"
    using p by (auto simp: preparing_def)
  have bl: "23 \<le> buflen w" using i by (simp add: asking_def)
  have op: "opcode2expected (hd (att_wire ?m)) = ATT_OP_PREP_WRITE_RESP" by (simp add: opcode2expected_def)
  have d: "?d \<noteq> []" "length ?d \<le> 512" "hd ?d = ATT_OP_PREP_WRITE_RESP" using bl l by simp_all
  obtain x where x: "exchange (gatt_client (Suc n) user_log) ?d w =
      prepare_write_cb user_log 0 (Some (padded ?d)) (of_nat (length ?d)) a x" "quiet gatt_held x" "same_client w x"
    "written x = written w @ [att_wire ?m]"
    using user_log.channel.answer [OF i _ d(1,2), of "Suc n"] op d(3)
    by (auto simp: gatt_dispatch_def gatt_client.simps simp del: att_wire.simps)
  have cx: "cell (wls (client x)) a = Some (write_state func h off v)" using c x(3) by (simp add: same_client_def)
  have "of_nat off + (of_nat (length ?d) - 5) = (of_nat (off + length ?p) :: u16)" by simp
  then show ?thesis
    using x cx by (intro exI [of _ x]) (simp add: prepare_write_cb_def write_state_def Let_def del: att_wire.simps length_take cong: if_cong)
qed

lemma prepare_step:
  assumes p: "preparing a func h off v w" and l: "off + (buflen w - 5) < length v" "buflen w \<le> 512" "length v < 65536"
  shows "\<exists>w'. exchange (gatt_client (Suc n) user_log) (att_wire (Prep_Write_Rsp h (of_nat off) (take (buflen w - 5) (drop off v)))) w = Some w' \<and>
    preparing a func h (off + (buflen w - 5)) v w' \<and> user (client w') = user (client w) \<and> buflen w' = buflen w \<and>
    (\<exists>x. wls (client w') = (wls (client w))[a := x]) \<and>
    written w' = written w @ [att_wire (Prep_Write_Req h (of_nat off) (take (buflen w - 5) (drop off v)))]"
proof -
  let ?o = "off + (buflen w - 5)"
  have bl: "23 \<le> buflen w" using p by (auto simp: preparing_def asking_def)
  have pl: "length (take (buflen w - 5) (drop off v)) = buflen w - 5" using l by simp
  obtain x where x: "exchange (gatt_client (Suc n) user_log) (att_wire (Prep_Write_Rsp h (of_nat off) (take (buflen w - 5) (drop off v)))) w =
      (let w = set_wl a (Some (write_state func h ?o v)) x
       in if unat (of_nat ?o :: u16) = length v
          then do { (_, w) \<leftarrow> execute_write ATT_WRITE_ALL_PREP_WRITES (Some func) w; Some (set_wl a None w) }
          else do { (_, w) \<leftarrow> prepare_write a w; Some w })"
    "quiet gatt_held x" "same_client w x"
    "written x = written w @ [att_wire (Prep_Write_Req h (of_nat off) (take (buflen w - 5) (drop off v)))]"
    using answer_piece [OF p _ l(2), of n] l(1) unfolding Let_def pl by (auto simp del: att_wire.simps)
  define u where "u = set_wl a (Some (write_state func h ?o v)) x"
  have sc: "client x = client w" "buflen x = buflen w" using x(3) by (simp_all add: same_client_def)
  have qu: "quiet gatt_held u" using x(2) by (simp add: u_def)
  have "cell (wls (client x)) a = Some (write_state func h off v)" using p sc by (simp add: preparing_def)
  then have cu: "cell (wls (client u)) a = Some (write_state func h ?o v)" unfolding u_def by (rule set_wl_simps)
  obtain i w' where w': "prepare_write a u = Some (i, w')" "preparing a func h ?o v w'" "client w' = client u"
    "written w' = written u" "buflen w' = buflen u"
    using prepare_piece [OF qu cu l(1) l(3)] by blast
  have "unat (of_nat ?o :: u16) \<noteq> length v" using l by (simp add: unat_of_nat16 del: of_nat_add)
  then have "exchange (gatt_client (Suc n) user_log) (att_wire (Prep_Write_Rsp h (of_nat off) (take (buflen w - 5) (drop off v)))) w = Some w'"
    using x(1) w'(1) by (simp add: u_def del: att_wire.simps of_nat_add)
  then show ?thesis using w' x(4) sc by (auto simp: u_def simp del: att_wire.simps)
qed

lemma execute_piece:
  assumes q: "quiet gatt_held w"
  shows "\<exists>i w'. execute_write ATT_WRITE_ALL_PREP_WRITES (Some func) w = Some (i, w') \<and>
    asking gatt_held (Exec_Write_Req 1) (User_Fn func) None i w' \<and> same_client w w' \<and> written w' = written w"
proof -
  have l: "length (att_wire (Exec_Write_Req 1)) \<le> buflen w" using q by (simp add: quiet_def)
  have e: "encode_into (enc_exec_write_req 1) w = Some (2, w\<lparr>buf := overlay (att_wire (Exec_Write_Req 1)) (buf w)\<rparr>)"
    using encode_quiet [OF q _ l] by simp
  show ?thesis
    using ask [OF q _ l, of 0 "User_Fn func" None] by (auto simp: execute_write_def e opcode2expected_def)
qed

lemma prepare_end:
  assumes p: "preparing a func h off v w" and l: "off < length v" "length v \<le> off + (buflen w - 5)" "buflen w \<le> 512" "length v < 65536"
  shows "\<exists>i w'. exchange (gatt_client (Suc n) user_log) (att_wire (Prep_Write_Rsp h (of_nat off) (drop off v))) w = Some w' \<and>
    asking gatt_held (Exec_Write_Req 1) (User_Fn func) None i w' \<and> user (client w') = user (client w) \<and> buflen w' = buflen w \<and>
    wls (client w') = (wls (client w))[a := None] \<and>
    written w' = written w @ [att_wire (Prep_Write_Req h (of_nat off) (drop off v))]"
proof -
  have t: "take (buflen w - 5) (drop off v) = drop off v" "off + length (drop off v) = length v" using l by simp_all
  have e: "unat (of_nat (length v) :: u16) = length v" using l(4) by (simp add: unat_of_nat16)
  obtain x where x: "exchange (gatt_client (Suc n) user_log) (att_wire (Prep_Write_Rsp h (of_nat off) (drop off v))) w =
      do { (_, w) \<leftarrow> execute_write ATT_WRITE_ALL_PREP_WRITES (Some func) (set_wl a (Some (write_state func h (length v) v)) x);
           Some (set_wl a None w) }"
    "quiet gatt_held x" "same_client w x" "written x = written w @ [att_wire (Prep_Write_Req h (of_nat off) (drop off v))]"
    using answer_piece [OF p l(1,3), of n] unfolding t Let_def by (auto simp: e simp del: att_wire.simps)
  define u where "u = set_wl a (Some (write_state func h (length v) v)) x"
  have sc: "client x = client w" "buflen x = buflen w" using x(3) by (simp_all add: same_client_def)
  have qu: "quiet gatt_held u" using x(2) by (simp add: u_def)
  obtain i w1 where w1: "execute_write ATT_WRITE_ALL_PREP_WRITES (Some func) u = Some (i, w1)"
    "asking gatt_held (Exec_Write_Req 1) (User_Fn func) None i w1" "same_client u w1" "written w1 = written u"
    using execute_piece [OF qu] by blast
  have ask: "asking gatt_held (Exec_Write_Req 1) (User_Fn func) None i (set_wl a None w1)"
    unfolding set_wl_def by (rule asking_on_client [OF w1(2)]) (simp add: gatt_held_def)
  have "client (set_wl a None w1) = (client w)\<lparr>wls := (wls (client w))[a := None]\<rparr>"
    using w1(3) sc by (simp add: u_def same_client_def)
  then show ?thesis
    using x(1,4) w1 ask sc unfolding u_def [symmetric]
    by (intro exI [of _ i] exI [of _ "set_wl a None w1"]) (simp add: same_client_def u_def del: att_wire.simps)
qed

lemma execute_answer:
  assumes "asking gatt_held (Exec_Write_Req 1) (User_Fn func) None i w"
  shows "\<exists>w'. exchange (gatt_client (Suc n) user_log) (att_wire Exec_Write_Rsp) w = Some w' \<and> quiet gatt_held w' \<and>
    wls (client w') = wls (client w) \<and> written w' = written w @ [att_wire (Exec_Write_Req 1)] \<and>
    user (client w') = user (client w) @ [Att_Cb (Result_Call func 0 (Some (padded [ATT_OP_EXEC_WRITE_RESP])) 1)]"
proof -
  obtain x where x: "exchange (gatt_client (Suc n) user_log) (att_wire Exec_Write_Rsp) w =
      user_log (Att_Cb (Result_Call func 0 (Some (padded [ATT_OP_EXEC_WRITE_RESP])) 1)) x" "quiet gatt_held x" "same_client w x"
    "written x = written w @ [att_wire (Exec_Write_Req 1)]"
    using user_log.channel.answer [OF assms, of "att_wire Exec_Write_Rsp" "Suc n"]
    by (auto simp: gatt_dispatch_def gatt_client.simps opcode2expected_def)
  show ?thesis
    using quiet_user_log [OF x(2), of "Att_Cb (Result_Call func 0 (Some (padded [ATT_OP_EXEC_WRITE_RESP])) 1)"] x
    by (auto simp: same_client_def)
qed

text \<open>The PDUs of a prepared write, given by their constructor.\<close>

fun piece_pdus :: "(u16 \<Rightarrow> u16 \<Rightarrow> bytes \<Rightarrow> att_pdu) \<Rightarrow> u16 \<Rightarrow> nat \<Rightarrow> bytes list \<Rightarrow> bytes list" where
  "piece_pdus c h off [] = []"
| "piece_pdus c h off (p # ps) = att_wire (c h (of_nat off) p) # piece_pdus c h (off + length p) ps"

lemma write_pieces:
  assumes "preparing a func h off v w" "off < length v" "buflen w \<le> 512" "length v < 65536" "k = buflen w - 5"
  shows "\<exists>w'. exchanges (gatt_client (Suc n) user_log)
      (piece_pdus Prep_Write_Rsp h off (pieces k (drop off v)) @ [att_wire Exec_Write_Rsp]) w = Some w' \<and>
    quiet gatt_held w' \<and> wls (client w') = (wls (client w))[a := None] \<and>
    written w' = written w @ piece_pdus Prep_Write_Req h off (pieces k (drop off v)) @ [att_wire (Exec_Write_Req 1)] \<and>
    user (client w') = user (client w) @ [Att_Cb (Result_Call func 0 (Some (padded [ATT_OP_EXEC_WRITE_RESP])) 1)]"
  using assms
proof (induction "length v - off" arbitrary: off w rule: less_induct)
  case less
  have k: "18 \<le> k" using less.prems by (auto simp: preparing_def asking_def)
  have ps: "pieces k (drop off v) = take k (drop off v) # pieces k (drop (off + k) v)"
    using k less.prems(2) by (subst pieces.simps) (simp add: add.commute)
  show ?case
  proof (cases "off + k < length v")
    case True
    then have s: "off + (buflen w - 5) < length v" "off + length (take k (drop off v)) = off + k" by (simp_all add: less.prems(5))
    obtain w1 x where w1: "exchange (gatt_client (Suc n) user_log) (att_wire (Prep_Write_Rsp h (of_nat off) (take k (drop off v)))) w = Some w1"
      "preparing a func h (off + k) v w1" "user (client w1) = user (client w)" "buflen w1 = buflen w"
      "wls (client w1) = (wls (client w))[a := x]"
      "written w1 = written w @ [att_wire (Prep_Write_Req h (of_nat off) (take k (drop off v)))]"
      using prepare_step [OF less.prems(1) s(1) less.prems(3,4)] unfolding less.prems(5) [symmetric] by blast
    have "length v - (off + k) < length v - off" using True k by simp
    from less.hyps [OF this w1(2) True] less.prems(3,4,5) w1(4)
    show ?thesis using w1 unfolding ps piece_pdus.simps s(2) by (auto simp del: att_wire.simps)
  next
    case False
    then have s: "length v \<le> off + (buflen w - 5)" "take k (drop off v) = drop off v" "drop (off + k) v = []"
      by (simp_all add: less.prems(5))
    obtain i w1 where w1: "exchange (gatt_client (Suc n) user_log) (att_wire (Prep_Write_Rsp h (of_nat off) (drop off v))) w = Some w1"
      "asking gatt_held (Exec_Write_Req 1) (User_Fn func) None i w1" "user (client w1) = user (client w)"
      "wls (client w1) = (wls (client w))[a := None]"
      "written w1 = written w @ [att_wire (Prep_Write_Req h (of_nat off) (drop off v))]"
      using prepare_end [OF less.prems(1,2) s(1) less.prems(3,4)] by blast
    have "pieces k [] = []" by (simp add: pieces.simps)
    then show ?thesis using w1 execute_answer [OF w1(2), of n] unfolding ps s(2,3) by (auto simp del: att_wire.simps)
  qed
qed

lemma concat_pieces: "0 < k \<Longrightarrow> concat (pieces k v) = v \<and> (\<forall>p \<in> set (pieces k v). p \<noteq> [] \<and> length p \<le> k)"
proof (induction k v rule: pieces.induct)
  case (1 k v)
  show ?case
  proof (cases "v = []")
    case True
    then show ?thesis by (simp add: pieces.simps)
  next
    case False
    then have "pieces k v = take k v # pieces k (drop k v)" using 1(2) by (subst pieces.simps) simp
    then show ?thesis using 1 False by auto
  qed
qed

lemma start_write:
  assumes q: "quiet gatt_held w" and l: "buflen w - 3 < length v" "length v < 65536"
  shows "\<exists>i w1. gatt_write_char h v (length v) (Some func) w = Some (i, w1) \<and> preparing (length (wls (client w))) func h 0 v w1 \<and>
    client w1 = (client w)\<lparr>wls := wls (client w) @ [Some (write_state func h 0 v)]\<rparr> \<and> written w1 = written w \<and> buflen w1 = buflen w"
proof -
  have bl: "23 \<le> buflen w" "\<not> out_of_memory w" using q by (simp_all add: quiet_def)
  let ?a = "length (wls (client w))"
  define u where "u = on_client (\<lambda>s. s\<lparr>wls := wls s @ [Some (write_state func h 0 v)]\<rparr>) w"
  have qu: "quiet gatt_held u" unfolding u_def by (rule quiet_on_client [OF q]) (simp add: gatt_held_def)
  have cu: "client u = (client w)\<lparr>wls := wls (client w) @ [Some (write_state func h 0 v)]\<rparr>" "buflen u = buflen w" "written u = written w"
    by (simp_all add: u_def)
  have c: "cell (wls (client u)) ?a = Some (write_state func h 0 v)" by (simp add: cu)
  have p: "0 < length v" using l(1) by auto
  obtain i w1 where w1: "prepare_write ?a u = Some (i, w1)" "preparing ?a func h 0 v w1" "client w1 = client u"
    "written w1 = written u" "buflen w1 = buflen u"
    using prepare_piece [OF qu c p l(2)] by blast
  have "gatt_write_char h v (length v) (Some func) w = Some (i, w1)"
    using bl l(1) w1(1) by (simp add: gatt_write_char_def rdn_def Let_def u_def write_state_def)
  then show ?thesis using w1 cu by simp
qed

text \<open>C7: A value too long for one request is written completely: against a server that acknowledges every
  prepared piece, the channel carries one prepare request for each piece, at the piece's offset, and then the
  request to execute them; the pieces are the value; the program is called back once, when the server has executed
  them, and the object of the write is freed.\<close>

theorem long_write:
  assumes "quiet gatt_held w" "buflen w \<le> 512" "buflen w - 3 < length v" "length v < 65536"
  defines "ps \<equiv> pieces (buflen w - 5) v"
  shows "concat ps = v \<and> (\<forall>p \<in> set ps. length p \<le> buflen w - 5) \<and>
    (\<exists>i w1 w'. gatt_write_char h v (length v) (Some func) w = Some (i, w1) \<and> written w1 = written w \<and>
      exchanges (gatt_client (Suc n) user_log) (piece_pdus Prep_Write_Rsp h 0 ps @ [att_wire Exec_Write_Rsp]) w1 = Some w' \<and>
      written w' = written w @ piece_pdus Prep_Write_Req h 0 ps @ [att_wire (Exec_Write_Req 1)] \<and>
      user (client w') = user (client w) @ [Att_Cb (Result_Call func 0 (Some (padded [ATT_OP_EXEC_WRITE_RESP])) 1)] \<and>
      quiet gatt_held w' \<and> wls (client w') = wls (client w) @ [None])"
proof -
  obtain i w1 where w1: "gatt_write_char h v (length v) (Some func) w = Some (i, w1)" "preparing (length (wls (client w))) func h 0 v w1"
    "client w1 = (client w)\<lparr>wls := wls (client w) @ [Some (write_state func h 0 v)]\<rparr>" "written w1 = written w" "buflen w1 = buflen w"
    using start_write [OF assms(1,3,4)] by blast
  have l: "0 < length v" using assms(3) by auto
  have p: "0 < buflen w - 5" "buflen w1 \<le> 512" "buflen w - 5 = buflen w1 - 5" using assms(1,2) w1(5) by (simp_all add: quiet_def)
  show ?thesis
    using write_pieces [OF w1(2) l p(2) assms(4) p(3), of n] concat_pieces [OF p(1), of v] w1
    by (auto simp: ps_def simp del: att_wire.simps)
qed

lemma long_write_witness:
  "\<exists>i w1 w'. gatt_write_char 0x12 (replicate 40 7) 40 (Some 5) new_channel = Some (i, w1) \<and>
    exchanges (gatt_client (Suc 0) user_log) [[0x17, 0x12, 0, 0, 0] @ replicate 18 7, [0x17, 0x12, 0, 18, 0] @ replicate 18 7,
      [0x17, 0x12, 0, 36, 0] @ replicate 4 7, [0x19]] w1 = Some w' \<and>
    written w' = [[0x16, 0x12, 0, 0, 0] @ replicate 18 7, [0x16, 0x12, 0, 18, 0] @ replicate 18 7,
      [0x16, 0x12, 0, 36, 0] @ replicate 4 7, [0x18, 1]]"
  using long_write [OF new_channel_quiet, of "replicate 40 7" "0x12" 5 0]
  by (auto simp: pieces.simps [of 18] le16_def)

end
