(* ===== verification/Gatt_Errors.thy ===== *)
theory Gatt_Errors
  imports Gatt_Write
begin

text \<open>
  What the callbacks of the GATT procedures do with errors and with responses that no correct server sends.
\<close>

lemma error_response [simp]:
  "att_wire (Error_Rsp op h e) \<noteq> []" "length (att_wire (Error_Rsp op h e)) = 5" "hd (att_wire (Error_Rsp op h e)) = ATT_OP_ERROR"
  "padded (att_wire (Error_Rsp op h e)) ! 4 = e"
  by (simp_all add: padded_def nth_append le16_def)

text \<open>C34: An error in the middle of a long read is reported as success: when the server answers the read with
  a full response and the request for the next blob with any error, the program is called back with status 0
  and the part of the value that has arrived, and nothing tells it that the rest is missing.\<close>

theorem read_error_masked:
  assumes "quiet gatt_held w" "next_cmd_id w + 1 \<noteq> 0" "buflen w \<le> 512" "Suc (length b) = buflen w" "e \<noteq> 0"
  shows "\<exists>i w1 w'. gatt_read_char h func w = Some (i, w1) \<and>
    exchanges (gatt_client (Suc n) user_log) [att_wire (Read_Rsp b), att_wire (Error_Rsp ATT_OP_READ_BLOB_REQ h e)] w1 = Some w' \<and>
    user (client w') = user (client w) @ [Att_Cb (Result_Call func 0 (Some (ATT_OP_READ_RESP # b)) (of_nat (Suc (length b))))] \<and>
    quiet gatt_held w'"
proof -
  let ?a = "length (rls (client w))" and ?e = "att_wire (Error_Rsp ATT_OP_READ_BLOB_REQ h e)"
  obtain i w1 where w1: "gatt_read_char h func w = Some (i, w1)" "read_started ?a func h i w1"
    "user (client w1) = user (client w)" "buflen w1 = buflen w"
    using start_read [OF assms(1,2)] by blast
  have b: "Suc (length b) = buflen w1" "length b \<le> 511" using assms(3,4) w1(4) by simp_all
  obtain w2 where w2: "exchange (gatt_client (Suc n) user_log) (att_wire (Read_Rsp b)) w1 = Some w2"
    "reading ?a func h i b w2" "user (client w2) = user (client w1)"
    using first_part [OF w1(2) b] by blast
  have ask: "asking gatt_held (Read_Blob_Req h (of_nat (length b))) (Read_Blob_Helper ?a) (Some (Read_Long_Destroy ?a)) i w2"
    and c: "cell (rls (client w2)) ?a = Some \<lparr>rl_func = func, rl_buffer = Some (ATT_OP_READ_RESP # b),
       rl_size = of_nat (Suc (length b)), rl_handle = h, rl_id = i, rl_ref = 1\<rparr>"
    using w2(2) by (simp_all add: reading_def)
  obtain v where v: "exchange (gatt_client (Suc n) user_log) ?e w2 =
      do { w1 \<leftarrow> read_blob_helper user_log e (Some (padded ?e)) 5 ?a v; read_long_destroy ?a w1 }"
    "quiet gatt_held v" "same_client w2 v"
    using user_log.channel.answer [OF ask, of ?e "Suc n"]
    by (auto simp: gatt_dispatch_def gatt_client.simps simp del: att_wire.simps)
  have "read_blob_helper user_log e (Some (padded ?e)) 5 ?a v = blob_done user_log ?a 0 v"
    if "e \<noteq> 0" using that by (simp add: read_blob_helper_def)
  then show ?thesis
    using finish_read [OF v(2), of ?a func "ATT_OP_READ_RESP # b" "of_nat (Suc (length b))" h i 0] c v(1,3) w1 w2 assms(5)
    by (auto simp: same_client_def exchanges_Nil simp del: att_wire.simps of_nat_Suc)
qed

text \<open>C35: An error in the middle of a long write is passed on, but the object of the write stays allocated, with
  its copy of the value, and nothing refers to it any more.\<close>

theorem write_error_leaks:
  assumes "quiet gatt_held w" "buflen w \<le> 512" "buflen w - 3 < length v" "length v < 65536" "e \<noteq> 0"
  shows "\<exists>i w1 w'. gatt_write_char h v (length v) (Some func) w = Some (i, w1) \<and>
    exchange (gatt_client (Suc n) user_log) (att_wire (Error_Rsp ATT_OP_PREP_WRITE_REQ h e)) w1 = Some w' \<and>
    user (client w') = user (client w) @
      [Att_Cb (Result_Call func e (Some (padded (att_wire (Error_Rsp ATT_OP_PREP_WRITE_REQ h e)))) 5)] \<and>
    quiet gatt_held w' \<and> wls (client w') = wls (client w) @ [Some (write_state func h 0 v)]"
proof -
  let ?a = "length (wls (client w))" and ?e = "att_wire (Error_Rsp ATT_OP_PREP_WRITE_REQ h e)"
  obtain i w1 where w1: "gatt_write_char h v (length v) (Some func) w = Some (i, w1)" "preparing ?a func h 0 v w1"
    "client w1 = (client w)\<lparr>wls := wls (client w) @ [Some (write_state func h 0 v)]\<rparr>"
    using start_write [OF assms(1,3,4)] by blast
  obtain j where ask: "asking gatt_held (Prep_Write_Req h (of_nat 0) (take (buflen w1 - 5) (drop 0 v))) (Prepare_Write_Cb ?a) None j w1"
    using w1(2) by (auto simp: preparing_def)
  obtain x where x: "exchange (gatt_client (Suc n) user_log) ?e w1 = prepare_write_cb user_log e (Some (padded ?e)) 5 ?a x"
    "quiet gatt_held x" "same_client w1 x"
    using user_log.channel.answer [OF ask, of ?e "Suc n"]
    by (auto simp: gatt_dispatch_def gatt_client.simps opcode2expected_def simp del: att_wire.simps(1))
  have "cell (wls (client x)) ?a = Some (write_state func h 0 v)" using x(3) w1(3) by (simp add: same_client_def)
  then have "prepare_write_cb user_log e (Some (padded ?e)) 5 ?a x = user_log (Att_Cb (Result_Call func e (Some (padded ?e)) 5)) x"
    using assms(5) by (simp add: prepare_write_cb_def write_state_def)
  then show ?thesis
    using quiet_user_log [OF x(2), of "Att_Cb (Result_Call func e (Some (padded ?e)) 5)"] x w1
    by (auto simp: same_client_def simp del: att_wire.simps)
qed

text \<open>A response whose entries are shorter than the two handles every entry must have makes the client
  read past the entry: the callback takes the handles before it looks at the length of the entries.\<close>

theorem short_group_faults:
  assumes "quiet gatt_held w" "length d = l" "0 < l" "l < 4"
  shows "\<exists>i w1. gatt_discover_primary None func w = Some (i, w1) \<and>
    exchange (gatt_client (Suc n) user_log) (att_wire (Read_By_Group_Rsp [d])) w1 = None"
proof -
  let ?a = "length (dps (client w))" and ?d = "att_wire (Read_By_Group_Rsp [d])"
  obtain i w1 where w1: "gatt_discover_primary None func w = Some (i, w1)" "discovering ?a func 1 [] w1"
    using start_discovery [OF assms(1)] by blast
  obtain j where ask: "asking gatt_held (group_request 1) (Primary_All_Cb ?a) None j w1"
    and c: "cell (dps (client w1)) ?a = Some \<lparr>dp_uuid = BT_UUID_UNSPEC, dp_primaries = [], dp_cb = func\<rparr>"
    using w1(2) by (auto simp: discovering_def)
  have e: "elems_wf [d]" using assms by (auto simp: elems_wf_def elem_width_def)
  have l: "?d \<noteq> []" "length ?d \<le> 512" "hd ?d = ATT_OP_READ_BY_GROUP_RESP" using assms by simp_all
  obtain x where x: "exchange (gatt_client (Suc n) user_log) ?d w1 =
      primary_all_cb (gatt_client n user_log) user_log 0 (Some (padded ?d)) (of_nat (length ?d)) ?a x"
    "quiet gatt_held x" "same_client w1 x"
    using user_log.channel.answer [OF ask, of ?d "Suc n"] l
    by (auto simp: gatt_dispatch_def gatt_client.simps simp del: att_wire.simps)
  have "cell (dps (client x)) ?a = Some \<lparr>dp_uuid = BT_UUID_UNSPEC, dp_primaries = [], dp_cb = func\<rparr>"
    using c x(3) by (simp add: same_client_def)
  moreover have "att_get_u16 d 2 = None"
    using assms by (auto simp: att_get_u16_def rd_def bind_eq_None_conv)
  then have "primary_items b m [d] s acc = None" for b m s acc
    by (cases "att_get_u16 d 0") simp_all
  ultimately have "primary_all_cb (gatt_client n user_log) user_log 0 (Some (padded ?d)) (of_nat (length ?d)) ?a x = None"
    using group_elems_decode [OF e l(2)] l(2) by (simp add: primary_all_cb_def data_list_def rdn_def del: att_wire.simps)
  then show ?thesis using w1(1) x(1) by simp
qed

text \<open>C30: Discovery need not end: nothing checks that the handles of the responses grow. A server that answers
  every request with a group that ends with the handle 0 gets the request for the first handle again and again;
  after any number of responses the program has not been called, and the list of services has grown with each.\<close>

theorem discovery_loops:
  assumes "quiet gatt_held w" "group_ok ss" "svc_end (last ss) = 0"
  shows "\<exists>i w1 w'. gatt_discover_primary None func w = Some (i, w1) \<and>
    exchanges (gatt_client (Suc n) user_log) (replicate m (group_response ss)) w1 = Some w' \<and>
    written w' = written w @ replicate m (att_wire (group_request 1)) \<and> user (client w') = user (client w) \<and>
    (\<exists>j. asking gatt_held (group_request 1) (Primary_All_Cb (length (dps (client w)))) None j w') \<and>
    map_option dp_primaries (cell (dps (client w')) (length (dps (client w)))) =
      Some (map service_item (concat (replicate m ss)))"
proof -
  have g: "list_all (\<lambda>ss. group_ok ss \<and> svc_end (last ss) \<noteq> 0xFFFF) (replicate m ss)"
    using assms by (simp add: list_all_iff)
  have "group_next 1 (replicate m ss) = 1 \<and> group_starts 1 (replicate m ss) = replicate m 1"
    using assms(3) by (induction m) simp_all
  then show ?thesis
    using start_discovery [OF assms(1), of func] discover_groups [OF _ g, of _ _ 1 "[]" _ n]
    by (fastforce simp: discovering_def map_replicate)
qed

section \<open>The properties at a concrete channel\<close>

lemma read_error_masked_witness:
  "\<exists>i w1 w'. gatt_read_char 0x12 5 new_channel = Some (i, w1) \<and>
    exchanges (gatt_client (Suc 0) user_log) [0x0B # replicate 22 7, [0x01, 0x0C, 0x12, 0, 0x0E]] w1 = Some w' \<and>
    user (client w') = [Att_Cb (Result_Call 5 0 (Some (0x0B # replicate 22 7)) 23)]"
  using read_error_masked [OF new_channel_quiet, of "replicate 22 7" "0x0E" "0x12" 5 0]
  by (auto simp: le16_def)

lemma write_error_leaks_witness:
  "\<exists>i w1 w'. gatt_write_char 0x12 (replicate 40 7) 40 (Some 5) new_channel = Some (i, w1) \<and>
    exchange (gatt_client (Suc 0) user_log) [0x01, 0x16, 0x12, 0, 0x0D] w1 = Some w' \<and>
    wls (client w') = [Some (write_state 5 0x12 0 (replicate 40 7))]"
  using write_error_leaks [OF new_channel_quiet, of "replicate 40 7" "0x0D" "0x12" 5 0]
  by (auto simp: le16_def)

lemma short_group_faults_witness:
  "\<exists>i w1. gatt_discover_primary None (5::nat) new_channel = Some (i, w1) \<and>
    exchange (gatt_client (Suc 0) user_log) [0x11, 3, 1, 0, 7] w1 = None"
  using short_group_faults [OF new_channel_quiet, of "[1, 0, 7]" 3 5 0] by (simp add: elem_width_def)

lemma discovery_loops_witness:
  "\<exists>i w1 w'. gatt_discover_primary None (5::nat) new_channel = Some (i, w1) \<and>
    exchanges (gatt_client (Suc 0) user_log)
      (replicate 1000 (group_response [\<lparr>svc_start = 1, svc_end = 0, svc_uuid = BT_UUID16 0x1800\<rparr>])) w1 = Some w' \<and>
    written w' = replicate 1000 (att_wire (group_request 1)) \<and> user (client w') = []"
proof -
  have "group_ok [\<lparr>svc_start = 1, svc_end = 0, svc_uuid = BT_UUID16 0x1800\<rparr>]"
    by (simp add: group_ok_def uuids_alike_def svc_bytes_def)
  from discovery_loops [OF new_channel_quiet this, of 5 0 1000] show ?thesis by auto
qed

end
