(* ===== verification/C_Number.thy ===== *)
theory C_Number
  imports C_String
begin

text \<open>
  The numbers of the command line: \<open>atoi\<close>, \<open>strtoll\<close>, \<open>strtof\<close> and the arithmetic on \<open>float\<close> that the
  sources do with its result. A \<open>float\<close> is the 32 bits of its IEEE 754 format; rounding is to the nearest,
  ties to even.
\<close>

section \<open>Integers\<close>

definition digits_to_nat :: "nat \<Rightarrow> string \<Rightarrow> nat" where
  "digits_to_nat b s = foldl (\<lambda>a c. a * b + the (hex_val c)) 0 s"

definition is_digit :: "nat \<Rightarrow> char \<Rightarrow> bool" where
  "is_digit b c = (case hex_val c of None \<Rightarrow> False | Some d \<Rightarrow> d < b)"

definition has_hex_prefix :: "string \<Rightarrow> bool" where
  "has_hex_prefix s = (case s of a # b # c # r \<Rightarrow> a = CHR ''0'' \<and> (b = CHR ''x'' \<or> b = CHR ''X'') \<and> is_hex c | _ \<Rightarrow> False)"

text \<open>\<open>strtoll (s, &endptr, base)\<close> for the bases 0, 10 and 16: whether \<open>errno\<close> is set, the value and the rest.\<close>

definition strtoll :: "nat \<Rightarrow> string \<Rightarrow> bool \<times> int \<times> string" where
  "strtoll base s = (
     let (neg, s2) = sign_split (dropWhile is_space s);
         b = (if base \<noteq> 0 then base else if has_hex_prefix s2 then 16 else if take 1 s2 = ''0'' then 8 else 10);
         s3 = (if b = 16 \<and> has_hex_prefix s2 then drop 2 s2 else s2);
         ds = takeWhile (is_digit b) s3;
         v = (if neg then - int (digits_to_nat b ds) else int (digits_to_nat b ds))
     in if ds = [] then (False, 0, s)
        else (v < - (2 ^ 63) \<or> v \<ge> 2 ^ 63, max (- (2 ^ 63)) (min (2 ^ 63 - 1) v), drop (length ds) s3))"

text \<open>\<open>atoi\<close> is undefined when the value is no \<open>int\<close>.\<close>

definition atoi :: "string \<Rightarrow> int option" where
  "atoi s = (let (_, v, _) = strtoll 10 s in if - (2 ^ 31) \<le> v \<and> v < 2 ^ 31 then Some v else None)"

text \<open>A \<open>long long\<close> assigned to an \<open>int\<close>.\<close>

definition to_int :: "int \<Rightarrow> int" where
  "to_int v = sint (word_of_int v :: 32 word)"

section \<open>Floats\<close>

type_synonym f32 = u32

fun bit_length :: "nat \<Rightarrow> nat" where
  "bit_length n = (if n = 0 then 0 else Suc (bit_length (n div 2)))"

declare bit_length.simps [simp del]

text \<open>The nearest integer to \<open>p / q\<close>.\<close>

definition round_half_even :: "nat \<Rightarrow> nat \<Rightarrow> nat" where
  "round_half_even p q = (let m = p div q; r = p mod q in
     if 2 * r < q \<or> (2 * r = q \<and> even m) then m else m + 1)"

text \<open>The bits of the positive \<open>float\<close> nearest to \<open>p / q\<close>: a significand of 24 bits, less for numbers near 0, times a
  power of 2 that is at least -149. What rounds to \<open>2 ^ 128\<close> is infinite.\<close>

definition scaled :: "nat \<Rightarrow> nat \<Rightarrow> int \<Rightarrow> nat \<times> nat" where
  "scaled p q e = (if 0 \<le> e then (p, q * 2 ^ nat e) else (p * 2 ^ nat (- e), q))"

definition float_exponent :: "nat \<Rightarrow> nat \<Rightarrow> int" where
  "float_exponent p q = (
     let e = int (bit_length p) - int (bit_length q) - 24;
         (p', q') = scaled p q e
     in max (- 149) (if 2 ^ 24 * q' \<le> p' then e + 1 else e))"

definition f32_of_ratio :: "nat \<Rightarrow> nat \<Rightarrow> f32" where
  "f32_of_ratio p q =
     (if p = 0 then 0
      else let e = float_exponent p q;
               (p', q') = scaled p q e;
               m = round_half_even p' q';
               bits = nat (e + 149) * 2 ^ 23 + m
           in of_nat (min bits 0x7F800000))"

definition f32_neg :: "f32 \<Rightarrow> f32" where
  "f32_neg x = x + 0x80000000"

definition decimal_exponent :: "string \<Rightarrow> int" where
  "decimal_exponent s = (let (neg, t) = sign_split s; n = int (digits_to_nat 10 (takeWhile (is_digit 10) t))
     in if neg then - n else n)"

text \<open>\<open>strtof\<close>: digits with an optional point and exponent, in base 10, or in base 16 with a power of 2 as exponent;
  infinity and not a number. Nothing is read without a digit.\<close>

definition float_digits :: "nat \<Rightarrow> string \<Rightarrow> nat \<times> nat \<times> string" where
  "float_digits b s = (
     let ds = takeWhile (is_digit b) s; r = drop (length ds) s;
         fs = (case r of c # r' \<Rightarrow> if c = CHR ''.'' then takeWhile (is_digit b) r' else [] | [] \<Rightarrow> []);
         rest = (if take 1 r = ''.'' then drop (Suc (length fs)) r else r)
     in (digits_to_nat b (ds @ fs), length fs, if ds = [] \<and> fs = [] then [] else rest))"

definition strtof :: "string \<Rightarrow> f32" where
  "strtof s = (
     let (neg, t) = sign_split (dropWhile is_space s);
         x = (if map tolower (take 3 t) = ''inf'' then 0x7F800000
              else if map tolower (take 3 t) = ''nan'' then 0x7FC00000
              else if has_hex_prefix t \<or> (map tolower (take 3 t) = ''0x.'' \<and> is_digit 16 (t ! 3)) then
                let (n, k, r) = float_digits 16 (drop 2 t);
                    e = (if map tolower (take 1 r) = ''p'' then decimal_exponent (drop 1 r) else 0)
                in if 0 \<le> e then f32_of_ratio (n * 2 ^ nat e) (16 ^ k) else f32_of_ratio n (16 ^ k * 2 ^ nat (- e))
              else
                let (n, k, r) = float_digits 10 t;
                    e = (if map tolower (take 1 r) = ''e'' then decimal_exponent (drop 1 r) else 0)
                in if 0 \<le> e then f32_of_ratio (n * 10 ^ nat e) (10 ^ k) else f32_of_ratio n (10 ^ k * 10 ^ nat (- e)))
     in if neg then f32_neg x else x)"

text \<open>The magnitude of a finite \<open>float\<close> is \<open>m * 2 ^ e\<close>.\<close>

definition f32_finite :: "f32 \<Rightarrow> bool" where
  "f32_finite x \<longleftrightarrow> unat x mod 2 ^ 31 < 0x7F800000"

definition f32_negative :: "f32 \<Rightarrow> bool" where
  "f32_negative x \<longleftrightarrow> 2 ^ 31 \<le> unat x"

definition f32_parts :: "f32 \<Rightarrow> nat \<times> int" where
  "f32_parts x = (let n = unat x mod 2 ^ 31; b = n div 2 ^ 23; f = n mod 2 ^ 23 in
     if b = 0 then (f, - 149) else (2 ^ 23 + f, int b - 150))"

text \<open>\<open>n * x\<close> for an \<open>int\<close> constant \<open>n > 0\<close>, and the conversion to \<open>uint8_t\<close>, which is undefined when the integral part does not fit.\<close>

definition f32_times :: "nat \<Rightarrow> f32 \<Rightarrow> f32" where
  "f32_times n x =
     (if \<not> f32_finite x then x
      else let (m, e) = f32_parts x;
               y = (if 0 \<le> e then f32_of_ratio (n * m * 2 ^ nat e) 1 else f32_of_ratio (n * m) (2 ^ nat (- e)))
           in if f32_negative x then f32_neg y else y)"

definition f32_to_u8 :: "f32 \<Rightarrow> u8 option" where
  "f32_to_u8 x =
     (if \<not> f32_finite x then None
      else let (m, e) = f32_parts x; n = (if 0 \<le> e then m * 2 ^ nat e else m div 2 ^ nat (- e))
           in if f32_negative x then (if n = 0 then Some 0 else None)
              else if n < 256 then Some (of_nat n) else None)"

end
