(* ===== verification/Vehicle_Cmd.thy ===== *)
theory Vehicle_Cmd
  imports Gatt Protocol Anki_Util Anki_Uuid C_Number
begin

text \<open>
  The command line of \<open>examples/vehicle-tool/vehicle_cmd.c\<close>: connecting to a vehicle, discovering its
  characteristics, the commands and the callbacks.

  The static variables are the record \<open>prog\<close>. While the program has no channel (\<open>attrib\<close> is NULL) the
  state is \<open>Offline\<close>; otherwise it is the channel, whose client state holds the variables. What is printed
  is recorded as the format and the arguments of each \<open>rl_printf\<close>. A channel that outlives its disconnection,
  because something still holds a reference, is not followed further.
\<close>

section \<open>State\<close>

datatype conn_state = STATE_DISCONNECTED | STATE_CONNECTING | STATE_CONNECTED

text \<open>The callbacks; the \<open>user_data\<close> that they get is not used.\<close>

datatype vehicle_fn =
    Events_Handler | Discover_Services_Cb | Discover_Char_Cb | Char_Read_Cb | Char_Write_Req_Cb | Exchange_Mtu_Cb

datatype printed = Str string | Num int | Flt f32

record anki_vehicle =
  read_char :: gatt_char
  write_char :: gatt_char

record prog =
  iochannel :: "nat option"
  opt_src :: "string option"
  opt_dst :: "string option"
  opt_dst_type :: "string option"
  opt_sec_level :: "string option"
  opt_psm :: int
  opt_mtu :: int
  vehicle :: anki_vehicle
  conn_state :: conn_state
  prompt :: string
  screen :: "(string \<times> printed list) list"
  quit :: bool

type_synonym vworld = "(vehicle_fn, prog) world"

datatype session = Offline prog | Online vworld

definition prog_of :: "session \<Rightarrow> prog" where
  "prog_of s = (case s of Offline p \<Rightarrow> p | Online w \<Rightarrow> user (client w))"

definition on_user :: "(prog \<Rightarrow> prog) \<Rightarrow> vworld \<Rightarrow> vworld" where
  "on_user f = on_client (\<lambda>s. s\<lparr>user := f (user s)\<rparr>)"

definition on_prog :: "(prog \<Rightarrow> prog) \<Rightarrow> session \<Rightarrow> session" where
  "on_prog f s = (case s of Offline p \<Rightarrow> Offline (f p) | Online w \<Rightarrow> Online (on_user f w))"

section \<open>Output\<close>

definition ESC :: "string \<Rightarrow> string" where "ESC s = CHR 0x1B # s"
definition nl :: "string \<Rightarrow> string" where "nl s = s @ [CHR 0x0A]"

abbreviation (input) COLOR_OFF :: string where "COLOR_OFF \<equiv> ESC ''[0m''"
abbreviation (input) COLOR_RED :: string where "COLOR_RED \<equiv> ESC ''[0;91m''"
abbreviation (input) COLOR_BLUE :: string where "COLOR_BLUE \<equiv> ESC ''[0;94m''"

definition rl_printf :: "string \<Rightarrow> printed list \<Rightarrow> prog \<Rightarrow> prog" where
  "rl_printf fmt args p = p\<lparr>screen := screen p @ [(fmt, args)]\<rparr>"

definition error :: "string \<Rightarrow> printed list \<Rightarrow> prog \<Rightarrow> prog" where
  "error fmt = rl_printf (COLOR_RED @ ''Error: '' @ COLOR_OFF @ fmt)"

definition failed :: "string \<Rightarrow> printed list \<Rightarrow> prog \<Rightarrow> prog" where
  "failed fmt = rl_printf (COLOR_RED @ ''Command Failed: '' @ COLOR_OFF @ fmt)"

definition get_prompt :: "prog \<Rightarrow> string" where
  "get_prompt p = (let dst = (case opt_dst p of None \<Rightarrow> [] | Some d \<Rightarrow> d) in
     (if conn_state p = STATE_CONNECTED then COLOR_BLUE else []) @
     ''['' @ replicate (17 - length dst) CHR '' '' @ dst @ '']'' @
     (if conn_state p = STATE_CONNECTED then COLOR_OFF else []) @
     (if opt_psm p \<noteq> 0 then ''[BR]'' else ''[LE]'') @ ''> '')"

definition set_state :: "conn_state \<Rightarrow> prog \<Rightarrow> prog" where
  "set_state st p = (let p = p\<lparr>conn_state := st\<rparr> in p\<lparr>prompt := get_prompt p\<rparr>)"

section \<open>Messages of the vehicle\<close>

text \<open>\<open>data\<close> holds the bytes that may be read from the pointer on.\<close>

definition handle_vehicle_msg_response :: "bytes \<Rightarrow> u16 \<Rightarrow> prog \<Rightarrow> prog option" where
  "handle_vehicle_msg_response data len p =
     (if unat len > ANKI_VEHICLE_MSG_MAX_SIZE then Some (error (nl ''Invalid vehicle response'') [] p)
      else do {
        m \<leftarrow> rd data 1;
        (if m = id_code V2C_PING_RESPONSE then Some (rl_printf (nl ''[read] PING_RESPONSE'') [] p)
         else if m = id_code V2C_VERSION_RESPONSE then do {
           v \<leftarrow> att_get_u16 data 2;
           Some (rl_printf (nl ''[read] VERSION_RESPONSE: 0x%04x'') [Num (uint v)] p)
         }
         else Some p)
      })"

definition events_handler :: "bytes \<Rightarrow> u16 \<Rightarrow> prog \<Rightarrow> prog option" where
  "events_handler pdu len p = do {
     _ \<leftarrow> att_get_u16 pdu 1;
     op \<leftarrow> rd pdu 0;
     (if op = ATT_OP_HANDLE_NOTIFY then do {
        h \<leftarrow> att_get_u16 pdu 1;
        (if h \<noteq> chr_value_handle (read_char (vehicle p))
         then Some (error (nl ''Invalid vehicle read handle: 0x%04x'') [Num (uint h)] p)
         else handle_vehicle_msg_response (drop 3 pdu) (len - 3) p)
      }
      else Some p)
   }"

text \<open>The buffer has the length of the PDU; what the decoder does not fill has no defined value.\<close>

definition char_read_cb :: "u8 \<Rightarrow> ptr \<Rightarrow> u16 \<Rightarrow> prog \<Rightarrow> prog option" where
  "char_read_cb status pdu plen p =
     (if status \<noteq> 0
      then Some (error (nl ''Characteristic value/descriptor read failed: %s'') [Str (att_ecode2str status)] p)
      else do {
        (vlen, val) \<leftarrow> dec_read_resp pdu (unat plen) (Some (replicate (unat plen) 0)) (unat plen);
        (if vlen < 0 then Some (error (nl ''Protocol error'') [] p)
         else do { v \<leftarrow> val; handle_vehicle_msg_response (take (nat vlen) v) (word_of_int vlen) p })
      })"

definition char_write_req_cb :: "u8 \<Rightarrow> ptr \<Rightarrow> u16 \<Rightarrow> prog \<Rightarrow> prog option" where
  "char_write_req_cb status pdu plen p =
     (if status \<noteq> 0
      then Some (error (nl ''Characteristic Write Request failed: %s'') [Str (att_ecode2str status)] p)
      else do {
        r \<leftarrow> dec_write_resp pdu (unat plen);
        ok \<leftarrow> (if r \<noteq> 0 then Some True else do { r \<leftarrow> dec_exec_write_resp pdu (unat plen); Some (r \<noteq> 0) });
        Some (if \<not> ok then error (nl ''Protocol error'') [] p
              else rl_printf (nl ''Characteristic value was written successfully'') [] p)
      })"

section \<open>Discovery\<close>

definition discover_services :: "vworld \<Rightarrow> vworld option" where
  "discover_services w =
     (if conn_state (user (client w)) \<noteq> STATE_CONNECTED then Some (on_user (failed (nl ''Disconnected'') []) w)
      else let (r, uuid) = bt_string_to_uuid BT_UUID_UNSPEC ANKI_STR_SERVICE_UUID in
        if r < 0
        then Some (on_user (error (nl ''Error attempting to discover service for UUID: %s'') [Str ANKI_STR_SERVICE_UUID]) w)
        else do { (_, w) \<leftarrow> gatt_discover_primary (Some uuid) Discover_Services_Cb w; Some w })"

fun print_ranges :: "gatt_item list \<Rightarrow> prog \<Rightarrow> prog option" where
  "print_ranges [] p = Some p"
| "print_ranges (Range r # l) p =
     print_ranges l (rl_printf (nl ''Starting handle: 0x%04x Ending handle: 0x%04x'')
       [Num (uint (start_handle r)), Num (uint (end_handle r))] p)"
| "print_ranges (_ # l) p = None"

definition discover_services_cb :: "gatt_item list \<Rightarrow> u8 \<Rightarrow> vworld \<Rightarrow> vworld option" where
  "discover_services_cb ranges status w =
     (if status \<noteq> 0
      then Some (on_user (error (nl ''Discover primary services by UUID failed: %s'') [Str (att_ecode2str status)]) w)
      else if ranges = [] then Some (on_user (error (nl ''No service UUID found'') []) w)
      else do {
        p \<leftarrow> print_ranges ranges (user (client w));
        (_, w) \<leftarrow> gatt_discover_char 0x1 0xffff None Discover_Char_Cb (on_user (\<lambda>_. p) w);
        Some w
      })"

definition print_char :: "string \<Rightarrow> gatt_char \<Rightarrow> prog \<Rightarrow> prog" where
  "print_char title c p =
     rl_printf (nl ''[handle: 0x%04x, char properties: 0x%02x, char value handle: 0x%04x]'')
       [Num (uint (chr_handle c)), Num (uint (chr_properties c)), Num (uint (chr_value_handle c))]
       (rl_printf title [Str (c_str (chr_uuid c))] p)"

definition is_char :: "string \<Rightarrow> gatt_char \<Rightarrow> bool" where
  "is_char uuid c \<longleftrightarrow> strncasecmp (c_str (chr_uuid c)) uuid (length uuid) = 0"

definition take_char :: "gatt_char \<Rightarrow> prog \<Rightarrow> prog" where
  "take_char c p =
     (let p = (if is_char ANKI_STR_CHR_READ_UUID c
               then print_char ''Anki Read Characteristic: %s '' c (p\<lparr>vehicle := (vehicle p)\<lparr>read_char := c\<rparr>\<rparr>) else p)
      in if is_char ANKI_STR_CHR_WRITE_UUID c
         then print_char ''Anki Write Characteristic: %s '' c (p\<lparr>vehicle := (vehicle p)\<lparr>write_char := c\<rparr>\<rparr>) else p)"

fun take_chars :: "gatt_item list \<Rightarrow> prog \<Rightarrow> prog option" where
  "take_chars [] p = Some p"
| "take_chars (Characteristic c # l) p = take_chars l (take_char c p)"
| "take_chars (_ # l) p = None"

definition discover_char_cb :: "gatt_item list \<Rightarrow> u8 \<Rightarrow> vworld \<Rightarrow> vworld option" where
  "discover_char_cb characteristics status w =
     (if status \<noteq> 0
      then Some (on_user (error (nl ''Discover all characteristics failed: %s'') [Str (att_ecode2str status)]) w)
      else do {
        p \<leftarrow> take_chars characteristics (user (client w));
        let w = on_user (\<lambda>_. p) w;
        (if chr_handle (read_char (vehicle p)) > 0 \<and> chr_handle (write_char (vehicle p)) > 0
         then do {
           (_, w) \<leftarrow> gatt_write_cmd (ucast (chr_properties (write_char (vehicle p)))) [0x01, 0x00] 2 None w;
           Some w
         }
         else Some w)
      })"

section \<open>The exchange of the MTU\<close>

definition exchange_mtu_cb :: "u8 \<Rightarrow> ptr \<Rightarrow> u16 \<Rightarrow> vworld \<Rightarrow> vworld option" where
  "exchange_mtu_cb status pdu plen w =
     (if status \<noteq> 0 then Some (on_user (error (nl ''Exchange MTU Request failed: %s'') [Str (att_ecode2str status)]) w)
      else do {
        (r, mtu) \<leftarrow> dec_mtu_resp pdu (unat plen) (Some 0);
        (if r = 0 then Some (on_user (error (nl ''Protocol error'') []) w)
         else do {
           m \<leftarrow> mtu;
           let mtu = (word_of_int (min (uint m) (opt_mtu (user (client w)))) :: u16);
           let (ok, w) = g_attrib_set_mtu (uint mtu) w;
           Some (on_user (if ok then rl_printf (nl ''MTU was exchanged successfully: %d'') [Num (uint mtu)]
                          else error (nl ''Error exchanging MTU'') []) w)
         })
      })"

section \<open>The callbacks\<close>

definition run_user :: "(prog \<Rightarrow> prog option) \<Rightarrow> vworld \<Rightarrow> vworld option" where
  "run_user f w = do { p \<leftarrow> f (user (client w)); Some (on_user (\<lambda>_. p) w) }"

text \<open>A call through a function pointer; the types of the C functions allow no other calls.\<close>

definition vehicle_client :: "(vehicle_fn, prog) user_client" where
  "vehicle_client c w = (case c of
     Gatt_Cb f items status \<Rightarrow> (case f of
         Discover_Services_Cb \<Rightarrow> discover_services_cb items status w
       | Discover_Char_Cb \<Rightarrow> discover_char_cb items status w
       | _ \<Rightarrow> None)
   | Att_Cb (Result_Call f status pdu len) \<Rightarrow> (case f of
         Char_Read_Cb \<Rightarrow> run_user (char_read_cb status pdu len) w
       | Char_Write_Req_Cb \<Rightarrow> run_user (char_write_req_cb status pdu len) w
       | Exchange_Mtu_Cb \<Rightarrow> exchange_mtu_cb status pdu len w
       | _ \<Rightarrow> None)
   | Att_Cb (Event_Call f data len) \<Rightarrow> (case f of
         Events_Handler \<Rightarrow> run_user (events_handler data (of_nat len)) w
       | _ \<Rightarrow> None)
   | Att_Cb (Notify_Call f) \<Rightarrow> None)"

section \<open>Connecting (with gatt_connect of utils.c)\<close>

datatype bt_sec_level = BT_IO_SEC_LOW | BT_IO_SEC_MEDIUM | BT_IO_SEC_HIGH
datatype bdaddr_type = BDADDR_LE_PUBLIC | BDADDR_LE_RANDOM

text \<open>The options of the call of \<open>bt_io_connect\<close>: an LE channel with the fixed channel id of ATT, or a PSM.\<close>

datatype bt_io_target = LE_Channel bdaddr_type u16 | PSM int int

record bt_io_options =
  source_bdaddr :: bytes
  dest_bdaddr :: bytes
  target :: bt_io_target
  sec_level :: bt_sec_level

text \<open>What lies outside the program: the Bluetooth library's \<open>str2ba\<close> and \<open>hci_devba\<close> (\<open>None\<close> when it fails),
  \<open>bt_io_connect\<close> with its error message or channel, GLib's \<open>g_strstrip\<close> and \<open>g_shell_parse_argv\<close>, whether an
  allocation succeeds, and how deep destructions of a channel may nest.\<close>

record env =
  str2ba :: "string \<Rightarrow> bytes"
  hci_devba :: "int \<Rightarrow> bytes option"
  bt_io_connect :: "bt_io_options \<Rightarrow> string + nat"
  g_strstrip :: "string \<Rightarrow> string"
  g_shell_parse_argv :: "string \<Rightarrow> string list option"
  nesting :: nat

definition gatt_connect ::
  "env \<Rightarrow> string option \<Rightarrow> string \<Rightarrow> string \<Rightarrow> string \<Rightarrow> int \<Rightarrow> int \<Rightarrow> (string + nat) option" where
  "gatt_connect env src dst dst_type level psm mtu = do {
     let dba = str2ba env dst;
     sba \<leftarrow> (case src of
        None \<Rightarrow> Some (replicate 6 0)
      | Some s \<Rightarrow> if strncmp s ''hci'' 3 = 0 then do { i \<leftarrow> atoi (drop 3 s); hci_devba env i }
                  else Some (str2ba env s));
     let dest_type = (if strcmp dst_type ''random'' = 0 then BDADDR_LE_RANDOM else BDADDR_LE_PUBLIC);
     let sec = (if strcmp level ''medium'' = 0 then BT_IO_SEC_MEDIUM
                else if strcmp level ''high'' = 0 then BT_IO_SEC_HIGH else BT_IO_SEC_LOW);
     let tgt = (if psm = 0 then LE_Channel dest_type ATT_CID else PSM psm mtu);
     Some (bt_io_connect env \<lparr>source_bdaddr = sba, dest_bdaddr = dba, target = tgt, sec_level = sec\<rparr>)
   }"

text \<open>\<open>io\<close> is what \<open>bt_io_get\<close> returns for the channel, \<open>evt\<close> the counter of events, \<open>src\<close> the id of the next source.\<close>

definition connect_cb :: "string option \<Rightarrow> (u16 \<times> u16) option \<Rightarrow> u32 \<Rightarrow> nat \<Rightarrow> session \<Rightarrow> session option" where
  "connect_cb err io evt src s = (case err of
     Some m \<Rightarrow> Some (on_prog (error (nl ''%s'') [Str m] \<circ> set_state STATE_DISCONNECTED) s)
   | None \<Rightarrow> do {
       _ \<leftarrow> iochannel (prog_of s);
       w \<leftarrow> g_attrib_new io True evt src \<lparr>dps = [], isds = [], dcs = [], rls = [], wls = [], user = prog_of s\<rparr>;
       let (_, w) = g_attrib_register ATT_OP_HANDLE_NOTIFY GATTRIB_ALL_HANDLES (User_Fn Events_Handler) None w;
       let (_, w) = g_attrib_register ATT_OP_HANDLE_IND GATTRIB_ALL_HANDLES (User_Fn Events_Handler) None w;
       let w = on_user (rl_printf (nl ''Connection successful'') [] \<circ> set_state STATE_CONNECTED) w;
       w \<leftarrow> discover_services w;
       Some (Online w)
     })"

definition disconnect_io :: "env \<Rightarrow> session \<Rightarrow> session option" where
  "disconnect_io env s =
     (if conn_state (prog_of s) = STATE_DISCONNECTED then Some s
      else do {
        p \<leftarrow> (case s of
           Offline p \<Rightarrow> Some p
         | Online w \<Rightarrow> do { w \<leftarrow> g_attrib_unref (gatt_client (nesting env) vehicle_client) w; Some (user (client w)) });
        Some (Offline (set_state STATE_DISCONNECTED (p\<lparr>opt_mtu := 0, iochannel := None\<rparr>)))
      })"

definition channel_watcher :: "env \<Rightarrow> session \<Rightarrow> (bool \<times> session) option" where
  "channel_watcher env s = do { s \<leftarrow> disconnect_io env s; Some (False, s) }"

section \<open>Commands\<close>

text \<open>The words of the line are \<open>argv\<close>; the one behind the last is NULL. A command of the tool gets them and the state.\<close>

type_synonym command_run = "string list \<Rightarrow> session \<Rightarrow> session option"

definition arg :: "string list \<Rightarrow> nat \<Rightarrow> string option" where
  "arg argv i = (if i < length argv then Some (argv ! i) else None)"

text \<open>The check that starts every command of the vehicle. A channel is needed from there on.\<close>

definition when_connected :: "(vworld \<Rightarrow> vworld option) \<Rightarrow> session \<Rightarrow> session option" where
  "when_connected f s =
     (if conn_state (prog_of s) \<noteq> STATE_CONNECTED then Some (on_prog (failed (nl ''Disconnected'') []) s)
      else (case s of Offline p \<Rightarrow> None | Online w \<Rightarrow> map_option Online (f w)))"

definition usage :: "string \<Rightarrow> string list \<Rightarrow> vworld \<Rightarrow> vworld option" where
  "usage params argv w = do { a \<leftarrow> arg argv 0; Some (on_user (rl_printf (nl (''Usage: %s'' @ params)) [Str a]) w) }"

definition write_handle :: "vworld \<Rightarrow> u16" where
  "write_handle w = chr_value_handle (write_char (vehicle (user (client w))))"

text \<open>The object of a message before its builder fills it.\<close>

definition new_msg :: ptr where
  "new_msg = Some (replicate ANKI_VEHICLE_MSG_MAX_SIZE 0)"

definition send_msg :: "(u8 \<times> bytes) option \<Rightarrow> vworld \<Rightarrow> vworld option" where
  "send_msg built w = do {
     (plen, msg) \<leftarrow> built;
     (_, w) \<leftarrow> gatt_write_char (write_handle w) msg (unat plen) None w;
     Some w
   }"

definition cmd_exit :: command_run where
  "cmd_exit argv s = Some (on_prog (\<lambda>p. p\<lparr>quit := True\<rparr>) s)"

definition cmd_connect :: "env \<Rightarrow> command_run" where
  "cmd_connect env argv s =
     (if conn_state (prog_of s) \<noteq> STATE_DISCONNECTED then Some s
      else let s = (if length argv > 1
                    then on_prog (\<lambda>p. p\<lparr>opt_dst := arg argv 1,
                      opt_dst_type := (if length argv > 2 then arg argv 2 else Some ''public'')\<rparr>) s
                    else s)
           in case opt_dst (prog_of s) of
             None \<Rightarrow> Some (on_prog (error (nl ''Remote Bluetooth address required'') []) s)
           | Some dst \<Rightarrow> do {
               let s = on_prog (set_state STATE_CONNECTING \<circ> rl_printf (nl ''Attempting to connect to %s'') [Str dst]) s;
               let p = prog_of s;
               dst_type \<leftarrow> opt_dst_type p;
               level \<leftarrow> opt_sec_level p;
               r \<leftarrow> gatt_connect env (opt_src p) dst dst_type level (opt_psm p) (opt_mtu p);
               Some (case r of
                 Inl m \<Rightarrow> on_prog (error (nl ''%s'') [Str m] \<circ> set_state STATE_DISCONNECTED \<circ> (\<lambda>p. p\<lparr>iochannel := None\<rparr>)) s
               | Inr io \<Rightarrow> on_prog (\<lambda>p. p\<lparr>iochannel := Some io\<rparr>) s)
             })"

definition cmd_disconnect :: "env \<Rightarrow> command_run" where
  "cmd_disconnect env argv s = disconnect_io env s"

definition cmd_anki_vehicle_read :: command_run where
  "cmd_anki_vehicle_read argv = when_connected (\<lambda>w.
     if length argv < 1 then Some (on_user (error (nl ''Missing argument: handle'') []) w)
     else do {
       (_, w) \<leftarrow> gatt_read_char (chr_value_handle (read_char (vehicle (user (client w))))) Char_Read_Cb w;
       Some w
     })"

definition cmd_anki_vehicle_write :: command_run where
  "cmd_anki_vehicle_write argv = when_connected (\<lambda>w.
     if length argv < 2 then usage '' <handle> <new value>'' argv w
     else do {
       a \<leftarrow> arg argv 1;
       let (plen, val) = gatt_attr_data_from_string (\<lambda>_. \<not> out_of_memory w) a;
       (if plen = 0 then Some (on_user (error (nl ''Invalid value'') []) w)
        else do {
          v \<leftarrow> val;
          name \<leftarrow> arg argv 0;
          (if name = ''send-data-req''
           then do { (_, w) \<leftarrow> gatt_write_char (write_handle w) v plen (Some Char_Write_Req_Cb) w; Some w }
           else do { (_, w) \<leftarrow> gatt_write_cmd (write_handle w) v (int plen) None w; Some w })
        })
     })"

definition cmd_anki_vehicle_disconnect :: command_run where
  "cmd_anki_vehicle_disconnect argv = when_connected (\<lambda>w.
     if length argv < 1 then usage [] argv w
     else send_msg (anki_vehicle_msg_disconnect new_msg) w)"

definition cmd_anki_vehicle_sdk_mode :: command_run where
  "cmd_anki_vehicle_sdk_mode argv = when_connected (\<lambda>w.
     if length argv < 2 then usage '' <new value>'' argv w
     else do {
       v \<leftarrow> arg argv 1 \<bind> atoi;
       send_msg (anki_vehicle_msg_set_sdk_mode new_msg (word_of_int v)) w
     })"

definition cmd_anki_vehicle_ping :: command_run where
  "cmd_anki_vehicle_ping argv = when_connected (\<lambda>w.
     if length argv < 1 then usage [] argv w
     else send_msg (anki_vehicle_msg_ping new_msg) w)"

definition cmd_anki_vehicle_get_version :: command_run where
  "cmd_anki_vehicle_get_version argv = when_connected (\<lambda>w.
     if length argv < 1 then usage [] argv w
     else send_msg (anki_vehicle_msg_get_version new_msg) w)"

definition cmd_anki_vehicle_set_speed :: command_run where
  "cmd_anki_vehicle_set_speed argv = when_connected (\<lambda>w.
     if length argv < 2 then usage '' <new value>'' argv w
     else do {
       v \<leftarrow> arg argv 1 \<bind> atoi;
       let speed = (word_of_int v :: u16);
       a \<leftarrow> (if length argv > 2 then arg argv 2 \<bind> atoi else Some 25000);
       let accel = (word_of_int a :: u16);
       let w = on_user (rl_printf (nl ''setting speed to %d (accel = %d)'') [Num (sint speed), Num (sint accel)]) w;
       send_msg (anki_vehicle_msg_set_speed new_msg speed accel) w
     })"

text \<open>The bits of \<open>1.0\<close> and \<open>0.0\<close>.\<close>

definition cmd_anki_vehicle_change_lane :: command_run where
  "cmd_anki_vehicle_change_lane argv = when_connected (\<lambda>w.
     if length argv < 2 then usage '' <horizontal speed (mm/sec)> <offset (mm)>'' argv w
     else do {
       v \<leftarrow> arg argv 1 \<bind> atoi;
       let hspeed = (word_of_int v :: u16);
       offset \<leftarrow> (if length argv > 2 then do { a \<leftarrow> arg argv 2; Some (strtof a) } else Some 0x3F800000);
       let w = on_user (rl_printf (nl ''changing lane at %d (offset = %1.2f)'') [Num (sint hspeed), Flt offset]) w;
       w \<leftarrow> send_msg (anki_vehicle_msg_set_offset_from_road_center new_msg 0) w;
       send_msg (anki_vehicle_msg_change_lane new_msg hspeed offset) w
     })"

section \<open>Lights\<close>

definition effects_by_name :: "string option list" where
  "effects_by_name = map Some [''STEADY'', ''FADE'', ''THROB'', ''FLASH'', ''RANDOM''] @ [None]"

definition channels_by_name :: "string option list" where
  "channels_by_name = map Some [''RED'', ''TAIL'', ''BLUE'', ''GREEN'', ''FRONTL'', ''FRONTR''] @ [None]"

abbreviation (input) effect_invalid :: u8 where "effect_invalid \<equiv> 0xff"
abbreviation (input) channel_invalid :: u8 where "channel_invalid \<equiv> 0xff"
abbreviation (input) ANKI_VEHICLE_MAX_LIGHT_INTENSITY :: nat where "ANKI_VEHICLE_MAX_LIGHT_INTENSITY \<equiv> 14"

text \<open>Both loops also visit the NULL that ends the table, and use it as a string. The length is a \<open>uint8_t\<close>.\<close>

fun channel_loop :: "string \<Rightarrow> string option list \<Rightarrow> u8 \<Rightarrow> u8 option" where
  "channel_loop name [] i = Some channel_invalid"
| "channel_loop name (None # l) i = None"
| "channel_loop name (Some c # l) i =
     (let len = (of_nat (max (length name) (length c)) :: u8)
      in if strncmp name c (unat len) = 0 then Some i else channel_loop name l (i + 1))"

definition get_channel_by_name :: "string option \<Rightarrow> u8 option" where
  "get_channel_by_name name = (case name of
     None \<Rightarrow> Some channel_invalid
   | Some n \<Rightarrow> channel_loop n channels_by_name 0)"

text \<open>The size of a pointer is 8.\<close>

fun effect_loop :: "string \<Rightarrow> string option list \<Rightarrow> u8 \<Rightarrow> u8 option" where
  "effect_loop name [] i = Some channel_invalid"
| "effect_loop name (None # l) i = None"
| "effect_loop name (Some e # l) i = (if strncmp name e 8 = 0 then Some i else effect_loop name l (i + 1))"

definition get_effect_by_name :: "string option \<Rightarrow> u8 option" where
  "get_effect_by_name name = (case name of
     None \<Rightarrow> Some channel_invalid
   | Some n \<Rightarrow> effect_loop n effects_by_name 0)"

definition cmd_anki_vehicle_lights_pattern :: command_run where
  "cmd_anki_vehicle_lights_pattern argv = when_connected (\<lambda>w.
     if length argv < 6 then do {
       w \<leftarrow> usage '' <channel> <effect> <start> <end> <cycles_per_min>'' argv w;
       Some (on_user (rl_printf (nl ''   effects: STEADY, FADE, THROB, FLASH, RANDOM'') [] \<circ>
         rl_printf (nl ''  channels: RED, TAIL, BLUE, GREEN, FRONTL, FRONTR'') []) w)
     }
     else do {
       chan \<leftarrow> get_channel_by_name (arg argv 1);
       (if chan = channel_invalid then do {
          a \<leftarrow> arg argv 1;
          Some (on_user (rl_printf (nl ''Unrecognized channel: %s'') [Str a]) w)
        }
        else do {
          eff \<leftarrow> get_effect_by_name (arg argv 2);
          (if eff = effect_invalid then do {
             a \<leftarrow> arg argv 2;
             Some (on_user (rl_printf (nl ''Unrecognized channel: %s'') [Str a]) w)
           }
           else do {
             st \<leftarrow> arg argv 3 \<bind> atoi;
             en \<leftarrow> arg argv 4 \<bind> atoi;
             cyc \<leftarrow> arg argv 5 \<bind> atoi;
             send_msg (anki_vehicle_msg_lights_pattern new_msg chan eff (word_of_int st) (word_of_int en) (word_of_int cyc)) w
           })
        })
     })"

definition vehicle_set_rgb_lights ::
  "u16 \<Rightarrow> u8 \<Rightarrow> u8 \<Rightarrow> u8 \<Rightarrow> u8 \<Rightarrow> u8 \<Rightarrow> u8 \<Rightarrow> u8 \<Rightarrow> u16 \<Rightarrow> vworld \<Rightarrow> vworld option" where
  "vehicle_set_rgb_lights handle eff start_red end_red start_green end_green start_blue end_blue cyc w = do {
     (plen_red, msg_red) \<leftarrow> anki_vehicle_msg_lights_pattern new_msg (channel_code LIGHT_RED) eff start_red end_red cyc;
     (plen_green, msg_green) \<leftarrow> anki_vehicle_msg_lights_pattern new_msg (channel_code LIGHT_GREEN) eff start_green end_green cyc;
     (plen_blue, msg_blue) \<leftarrow> anki_vehicle_msg_lights_pattern new_msg (channel_code LIGHT_BLUE) eff start_blue end_blue cyc;
     (_, w) \<leftarrow> gatt_write_char handle msg_red (unat plen_red) None w;
     (_, w) \<leftarrow> gatt_write_char handle msg_green (unat plen_green) None w;
     (_, w) \<leftarrow> gatt_write_char handle msg_blue (unat plen_blue) None w;
     Some w
   }"

definition light_level :: "string option \<Rightarrow> u8 option" where
  "light_level a = do { s \<leftarrow> a; f32_to_u8 (f32_times ANKI_VEHICLE_MAX_LIGHT_INTENSITY (strtof s)) }"

definition cmd_anki_vehicle_engine_lights :: command_run where
  "cmd_anki_vehicle_engine_lights argv = when_connected (\<lambda>w.
     if length argv < 5 then do {
       w \<leftarrow> usage '' <red> <green> <blue> <effect> <cycles per min>'' argv w;
       Some (on_user (rl_printf (nl ''   effects: STEADY, FADE, THROB, FLASH, RANDOM'') []) w)
     }
     else do {
       r \<leftarrow> light_level (arg argv 1);
       g \<leftarrow> light_level (arg argv 2);
       b \<leftarrow> light_level (arg argv 3);
       eff \<leftarrow> get_effect_by_name (arg argv 4);
       cyc \<leftarrow> arg argv 5 \<bind> atoi;
       let cycles = (word_of_int cyc :: u16);
       (if eff = effect_code EFFECT_STEADY
        then vehicle_set_rgb_lights (write_handle w) eff r r g g b b 0 w
        else vehicle_set_rgb_lights (write_handle w) eff 0 r 0 g b 0 cycles w)
     })"

definition cmd_mtu :: command_run where
  "cmd_mtu argv = when_connected (\<lambda>w.
     let p = user (client w) in
     if opt_psm p \<noteq> 0 then Some (on_user (failed (nl ''Operation is only available for LE transport.'') []) w)
     else if length argv < 2 then Some (on_user (rl_printf (nl ''Usage: mtu <value>'') []) w)
     else if opt_mtu p \<noteq> 0 then Some (on_user (failed (nl ''MTU exchange can only occur once per connection.'') []) w)
     else do {
       a \<leftarrow> arg argv 1;
       let (errno, v, _) = strtoll 0 a;
       let w = on_user (\<lambda>p. p\<lparr>opt_mtu := to_int v\<rparr>) w;
       (if errno \<or> to_int v < int ATT_DEFAULT_LE_MTU
        then Some (on_user (error (nl ''Invalid value. Minimum MTU size is %d'') [Num (int ATT_DEFAULT_LE_MTU)]) w)
        else do { (_, w) \<leftarrow> gatt_exchange_mtu (word_of_int (to_int v)) Exchange_Mtu_Cb w; Some w })
     })"

definition strtohandle :: "string \<Rightarrow> int" where
  "strtohandle src = (let (errno, v, e) = strtoll 16 src in if errno \<or> e \<noteq> [] then - EINVAL else to_int v)"

section \<open>The command table\<close>

datatype command_fn =
    Cmd_Help | Cmd_Exit | Cmd_Connect | Cmd_Disconnect | Cmd_Mtu | Cmd_Sdk_Mode | Cmd_Ping | Cmd_Get_Version
  | Cmd_Set_Speed | Cmd_Change_Lane | Cmd_Lights_Pattern | Cmd_Engine_Lights | Cmd_Vehicle_Disconnect
  | Cmd_Write | Cmd_Read

definition commands :: "(string \<times> command_fn \<times> string \<times> string) list" where
  "commands = [
     (''help'', Cmd_Help, [], ''Show this help''),
     (''exit'', Cmd_Exit, [], ''Exit interactive mode''),
     (''quit'', Cmd_Exit, [], ''Exit interactive mode''),
     (''connect'', Cmd_Connect, ''[address [address type]]'', ''Connect to a remote device''),
     (''disconnect'', Cmd_Disconnect, [], ''Disconnect from a remote device''),
     (''mtu'', Cmd_Mtu, ''<value>'', ''Exchange MTU for GATT/ATT''),
     (''sdk-mode'', Cmd_Sdk_Mode, ''[on]'', ''Set SDK Mode''),
     (''ping'', Cmd_Ping, [], ''Send ping message to vehicle.''),
     (''get-version'', Cmd_Get_Version, [], ''Request vehicle software version.''),
     (''set-speed'', Cmd_Set_Speed, ''<speed> <accel>'', ''Set vehicle Speed (mm/sec) with acceleration (mm/sec^2)''),
     (''change-lane'', Cmd_Change_Lane, ''<horizontal speed> <relative offset> (right(+), left(-))'',
        ''Change lanes at speed (mm/sec) in the specified direction (offset)''),
     (''set-lights-pattern'', Cmd_Lights_Pattern, ''<channel> <effect> <start> <end> <cycles_per_min>'',
        ''Set lights pattern for vehicle LEDs.''),
     (''set-engine-lights'', Cmd_Engine_Lights, ''<red> <green> <blue> <effect> <cycles_per_min>'',
        ''Set the pattern for the engine lights.''),
     (''vehicle-disconnect'', Cmd_Vehicle_Disconnect, [],
        ''Request that the vehicle disconnect (often more reliable than disconnect)''),
     (''send-data-req'', Cmd_Write, ''<new value>'', ''Write data to vehicle (Request response)''),
     (''send-data'', Cmd_Write, ''<new value>'', ''Write data to vehicle (No response)''),
     (''read-data'', Cmd_Read, [], ''Read last message from vehicle'')]"

definition cmd_help :: command_run where
  "cmd_help argv s = Some (on_prog (fold (\<lambda>(cmd, _, params, desc).
     rl_printf (nl ''%-15s %-30s %s'') [Str cmd, Str params, Str desc]) commands) s)"

definition run_command :: "env \<Rightarrow> command_fn \<Rightarrow> command_run" where
  "run_command env f = (case f of
     Cmd_Help \<Rightarrow> cmd_help | Cmd_Exit \<Rightarrow> cmd_exit
   | Cmd_Connect \<Rightarrow> cmd_connect env | Cmd_Disconnect \<Rightarrow> cmd_disconnect env | Cmd_Mtu \<Rightarrow> cmd_mtu
   | Cmd_Sdk_Mode \<Rightarrow> cmd_anki_vehicle_sdk_mode | Cmd_Ping \<Rightarrow> cmd_anki_vehicle_ping
   | Cmd_Get_Version \<Rightarrow> cmd_anki_vehicle_get_version | Cmd_Set_Speed \<Rightarrow> cmd_anki_vehicle_set_speed
   | Cmd_Change_Lane \<Rightarrow> cmd_anki_vehicle_change_lane | Cmd_Lights_Pattern \<Rightarrow> cmd_anki_vehicle_lights_pattern
   | Cmd_Engine_Lights \<Rightarrow> cmd_anki_vehicle_engine_lights | Cmd_Vehicle_Disconnect \<Rightarrow> cmd_anki_vehicle_disconnect
   | Cmd_Write \<Rightarrow> cmd_anki_vehicle_write | Cmd_Read \<Rightarrow> cmd_anki_vehicle_read)"

text \<open>A line of input, or nothing at the end of the input. \<open>g_shell_parse_argv\<close> returns at least one word.\<close>

definition parse_line :: "env \<Rightarrow> string option \<Rightarrow> session \<Rightarrow> session option" where
  "parse_line env line_read s = (case line_read of
     None \<Rightarrow> cmd_exit [] (on_prog (rl_printf (nl []) []) s)
   | Some l \<Rightarrow>
       let l = g_strstrip env l in
       if l = [] then Some s
       else (case g_shell_parse_argv env l of
         None \<Rightarrow> Some s
       | Some argv \<Rightarrow> do {
           a \<leftarrow> arg argv 0;
           (case find (\<lambda>(cmd, _). strcasecmp cmd a = 0) commands of
              Some (_, f, _) \<Rightarrow> run_command env f argv s
            | None \<Rightarrow> Some (on_prog (error (nl ''%s: command not found'') [Str a]) s))
         }))"

text \<open>The generator of completions keeps the position in the table and the length of the text between calls.\<close>

definition completion_generator :: "string \<Rightarrow> bool \<Rightarrow> nat \<times> nat \<Rightarrow> string option \<times> nat \<times> nat" where
  "completion_generator text first st = (
     let (i, len) = (if first then (0, length text) else st);
         skipped = takeWhile (\<lambda>(cmd, _). strncmp cmd text len \<noteq> 0) (drop i commands);
         j = i + length skipped
     in if j < length commands then (Some (fst (commands ! j)), Suc j, len) else (None, j, len))"

text \<open>The start of \<open>interactive\<close> up to its main loop, and what it does to the connection behind it.\<close>

definition no_char :: gatt_char where
  "no_char = \<lparr>chr_uuid = replicate 38 NUL, chr_handle = 0, chr_properties = 0, chr_value_handle = 0\<rparr>"

definition interactive :: "string option \<Rightarrow> string option \<Rightarrow> string option \<Rightarrow> int \<Rightarrow> session" where
  "interactive src dst dst_type psm = (
     let p = \<lparr>iochannel = None, opt_src = src, opt_dst = dst, opt_dst_type = dst_type, opt_sec_level = Some ''low'',
              opt_psm = psm, opt_mtu = 0, vehicle = \<lparr>read_char = no_char, write_char = no_char\<rparr>,
              conn_state = STATE_DISCONNECTED, prompt = [], screen = [], quit = False\<rparr>
     in Offline (p\<lparr>prompt := get_prompt p\<rparr>))"

definition interactive_end :: "env \<Rightarrow> session \<Rightarrow> session option" where
  "interactive_end env s = cmd_disconnect env [] s"

section \<open>The sources of the main loop\<close>

text \<open>\<open>rl_completion_matches\<close> is readline's; \<open>st\<close> are the static variables of the generator.\<close>

definition commands_completion ::
  "(string \<Rightarrow> (string \<Rightarrow> bool \<Rightarrow> nat \<times> nat \<Rightarrow> string option \<times> nat \<times> nat) \<Rightarrow> nat \<times> nat \<Rightarrow> 'm) \<Rightarrow>
   string \<Rightarrow> int \<Rightarrow> int \<Rightarrow> nat \<times> nat \<Rightarrow> 'm option" where
  "commands_completion rl_completion_matches text start end_pos st =
     (if start = 0 then Some (rl_completion_matches text completion_generator st) else None)"

text \<open>The terminal is ready: \<open>bad\<close> when the condition has one of HUP, ERR and NVAL; \<open>line_read\<close> is the line that
  readline completes with the character that it reads, if it does. The result says whether the source stays.\<close>

definition prompt_read :: "env \<Rightarrow> bool \<Rightarrow> string option option \<Rightarrow> session \<Rightarrow> (bool \<times> session) option" where
  "prompt_read env bad line_read s =
     (if bad then Some (False, s)
      else (case line_read of
        None \<Rightarrow> Some (True, s)
      | Some l \<Rightarrow> do { s \<leftarrow> parse_line env l s; Some (True, s) }))"

abbreviation (input) SIGINT :: u32 where "SIGINT \<equiv> 2"
abbreviation (input) SIGTERM :: u32 where "SIGTERM \<equiv> 15"

text \<open>\<open>si\<close> is the number of the signal that was read, or nothing when the read is short; \<open>terminated\<close> is the static
  variable. What readline redraws is not part of the state.\<close>

definition signal_handler :: "bool \<Rightarrow> u32 option \<Rightarrow> u32 \<Rightarrow> session \<Rightarrow> bool \<times> u32 \<times> session" where
  "signal_handler bad si terminated s =
     (if bad then (False, terminated, on_prog (\<lambda>p. p\<lparr>quit := True\<rparr>) s)
      else (case si of
        None \<Rightarrow> (False, terminated, s)
      | Some signo \<Rightarrow>
          if signo = SIGINT then (True, terminated, s)
          else if signo = SIGTERM
          then (True, 1, if terminated = 0 then on_prog (\<lambda>p. p\<lparr>quit := True\<rparr>) s else s)
          else (True, terminated, s)))"

end
