(* ===== verification/Gatt_Chars.thy ===== *)
theory Gatt_Chars
  imports Gatt_Long
begin

text \<open>
  Discovery of characteristics (\<open>gatt_discover_char\<close> and its callback), for every program above that keeps the
  contract of the GATT procedures: which requests a conversation makes and what the program is called with.
\<close>

section \<open>Asking\<close>

lemma send_question:
  assumes "quiet held w" "att_wf m" "length (att_wire m) \<le> buflen w" "opcode2expected (hd (att_wire m)) \<noteq> 0"
  shows "\<exists>i w'. do { (n, w) \<leftarrow> encode_into (att_encode m) w; g_attrib_send 0 (buf w) n (Some f) g w } = Some (i, w') \<and>
    asking held m f g i w' \<and> same_client w w' \<and> written w' = written w"
  using encode_quiet [OF assms(1-3)] ask [OF assms, of 0 f g] by auto

text \<open>A procedure that starts: it encodes its request, takes a reference and allocates its object, then sends.\<close>

lemma start_question:
  assumes q: "quiet gatt_held w" and m: "att_wf m" "length (att_wire m) \<le> buflen w" "opcode2expected (hd (att_wire m)) \<noteq> 0"
    and h: "gatt_held (h (client w)) = Suc (gatt_held (client w))"
  shows "\<exists>i w1 w'. encode_into (att_encode m) w = Some (of_nat (length (att_wire m)), w1) \<and> client w1 = client w \<and>
    out_of_memory w1 = out_of_memory w \<and>
    g_attrib_send 0 (buf w1) (of_nat (length (att_wire m))) (Some f) None (on_client h (g_attrib_ref w1)) = Some (i, w') \<and>
    asking gatt_held m f None i w' \<and> client w' = h (client w) \<and> buflen w' = buflen w \<and> written w' = written w"
proof -
  define b where "b = overlay (att_wire m) (buf w)"
  define u where "u = on_client h (g_attrib_ref w)"
  have k: "keeps gatt_held w u" using q h unfolding u_def by (intro take_ref_keeps keeps_refl) (simp_all add: quiet_def)
  have qu: "quiet gatt_held u"
    by (rule quiet_frame [OF q k]) (use q in \<open>simp_all add: quiet_def ready_def deaf_def u_def g_attrib_ref_def\<close>)
  have bu: "buf u = buf w" "buflen u = buflen w" by (simp_all add: u_def g_attrib_ref_def)
  have e: "on_client h (g_attrib_ref (w\<lparr>buf := b\<rparr>)) = u\<lparr>buf := b\<rparr>"
    by (simp add: u_def on_client_def g_attrib_ref_def)
  obtain w' where w': "g_attrib_send 0 b (of_nat (length (att_wire m))) (Some f) None (u\<lparr>buf := b\<rparr>) = Some (next_cmd_id u + 1, w')"
    "asking gatt_held m f None (next_cmd_id u + 1) w'" "same_client u w'" "written w' = written u"
    using ask [OF qu m(1), of 0 f None] m(2,3) by (auto simp: bu b_def)
  have "encode_into (att_encode m) w = Some (of_nat (length (att_wire m)), w\<lparr>buf := b\<rparr>)"
    using encode_quiet [OF q m(1,2)] by (simp add: b_def)
  moreover have "written u = written w" "client u = h (client w)" by (simp_all add: u_def g_attrib_ref_def)
  ultimately show ?thesis using w' bu by (auto simp: e same_client_def)
qed

section \<open>Characteristics of a server\<close>

record charac =
  cha_handle :: u16
  cha_properties :: u8
  cha_value_handle :: u16
  cha_uuid :: bt_uuid_t

definition char_bytes :: "charac \<Rightarrow> bytes" where
  "char_bytes c = le16 (cha_handle c) @ [cha_properties c] @ le16 (cha_value_handle c) @ uuid_bytes (cha_uuid c)"

text \<open>What the program gets for a characteristic.\<close>

definition found_char :: "charac \<Rightarrow> gatt_char" where
  "found_char c = \<lparr>chr_uuid = uuid_text38 (cha_uuid c), chr_handle = cha_handle c, chr_properties = cha_properties c,
     chr_value_handle = cha_value_handle c\<rparr>"

abbreviation char_item :: "charac \<Rightarrow> gatt_item" where
  "char_item c \<equiv> Characteristic (found_char c)"

definition chars_ok :: "charac list \<Rightarrow> bool" where
  "chars_ok cs \<longleftrightarrow> cs \<noteq> [] \<and> uuids_alike (map cha_uuid cs) \<and> length (concat (map char_bytes cs)) \<le> 510"

definition chars_response :: "charac list \<Rightarrow> bytes" where
  "chars_response cs = att_wire (Read_By_Type_Rsp (map char_bytes cs))"

definition chars_request :: "u16 \<Rightarrow> u16 \<Rightarrow> att_pdu" where
  "chars_request s e = Read_By_Type_Req s e (BT_UUID16 GATT_CHARAC_UUID)"

lemma char_fields:
  "att_get_u16 (char_bytes c) 0 = Some (cha_handle c)" "rd (char_bytes c) 2 = Some (cha_properties c)"
  "att_get_u16 (char_bytes c) 3 = Some (cha_value_handle c)"
  "cha_uuid c = BT_UUID16 x \<Longrightarrow> att_get_uuid16 (char_bytes c) 5 = Some (BT_UUID16 x)"
  "cha_uuid c = BT_UUID128 v \<Longrightarrow> length v = 16 \<Longrightarrow> att_get_uuid128 (char_bytes c) 5 = Some (BT_UUID128 v)"
proof -
  show "rd (char_bytes c) 2 = Some (cha_properties c)"
    unfolding char_bytes_def by (subst rd_Some) (simp_all add: nth_append)
qed (use get_u16_at [of "[]" 0 "cha_handle c"] get_u16_at [of "le16 (cha_handle c) @ [cha_properties c]" 3 "cha_value_handle c"]
      get_u16_at [of "le16 (cha_handle c) @ [cha_properties c] @ le16 (cha_value_handle c)" 5 x "[]"] in
    \<open>simp_all add: char_bytes_def att_get_uuid16_def att_get_uuid128_def att_get_u128_def rdn_def
      bt_uuid16_create_def bt_uuid128_create_def\<close>)

lemma char_items_16:
  assumes "list_all (\<lambda>u. case u of BT_UUID16 _ \<Rightarrow> True | _ \<Rightarrow> False) (map cha_uuid cs)"
  shows "char_items False None 7 (map char_bytes cs) h acc =
    Some (False, (if cs = [] then h else cha_handle (last cs)), acc @ map char_item cs)"
  using assms
proof (induction cs arbitrary: h acc)
  case (Cons c cs)
  then obtain x where x: "cha_uuid c = BT_UUID16 x" by (auto split: bt_uuid_t.splits)
  obtain u' where u: "bt_uuid_to_uuid128 (BT_UUID16 x) BT_UUID_UNSPEC = Some u'" "uuid_field u' = Some (uuid_text38 (BT_UUID16 x))"
    using uuid_text38(1) by blast
  show ?case
    using Cons by (simp add: char_fields char_fields(4) [OF x] u found_char_def x del: bt_uuid_to_uuid128.simps rd_eq_Some)
qed simp

lemma char_items_128:
  assumes "list_all (\<lambda>u. case u of BT_UUID128 v \<Rightarrow> length v = 16 | _ \<Rightarrow> False) (map cha_uuid cs)"
  shows "char_items False None 21 (map char_bytes cs) h acc =
    Some (False, (if cs = [] then h else cha_handle (last cs)), acc @ map char_item cs)"
  using assms
proof (induction cs arbitrary: h acc)
  case (Cons c cs)
  then obtain v where v: "cha_uuid c = BT_UUID128 v" "length v = 16" by (auto split: bt_uuid_t.splits)
  show ?case
    using Cons by (simp add: char_fields char_fields(5) [OF v] uuid_text38(2) [OF v(2)] found_char_def v del: rd_eq_Some)
qed simp

lemma uuids_alike_cases:
  assumes "uuids_alike us"
  obtains (u16) "list_all (\<lambda>u. case u of BT_UUID16 _ \<Rightarrow> True | _ \<Rightarrow> False) us"
    | (u128) "list_all (\<lambda>u. case u of BT_UUID128 v \<Rightarrow> length v = 16 | _ \<Rightarrow> False) us"
  using assms by (auto simp: uuids_alike_def)

lemma chars_width:
  assumes "chars_ok cs"
  shows "elems_wf (map char_bytes cs) \<and>
    char_items False None (elem_width (map char_bytes cs)) (map char_bytes cs) h acc =
      Some (False, cha_handle (last cs), acc @ map char_item cs)"
proof -
  have ne: "cs \<noteq> []" and a: "uuids_alike (map cha_uuid cs)" using assms by (simp_all add: chars_ok_def)
  from a show ?thesis
  proof (cases rule: uuids_alike_cases)
    case u16
    then have l: "list_all (\<lambda>e. length e = 7) (map char_bytes cs)"
      by (simp add: list_all_iff char_bytes_def length_uuid_bytes)
    then have "elem_width (map char_bytes cs) = 7" using ne by (cases cs) (simp_all add: elem_width_def)
    then show ?thesis using l char_items_16 [OF u16] ne by (simp add: elems_wf_def)
  next
    case u128
    then have l: "list_all (\<lambda>e. length e = 21) (map char_bytes cs)"
      by (simp add: list_all_iff char_bytes_def length_uuid_bytes)
    then have "elem_width (map char_bytes cs) = 21" using ne by (cases cs) (simp_all add: elem_width_def)
    then show ?thesis using l char_items_128 [OF u128] ne by (simp add: elems_wf_def)
  qed
qed

lemma chars_decode:
  assumes "chars_ok cs"
  shows "dec_read_by_type_resp (Some (padded (chars_response cs))) (length (chars_response cs)) =
    Some (Some (data_list (map char_bytes cs)))" "length (chars_response cs) \<le> 512"
proof -
  show l: "length (chars_response cs) \<le> 512" using assms by (simp add: chars_response_def chars_ok_def)
  have e: "elems_wf (map char_bytes cs)" using chars_width [OF assms] by blast
  then have "elem_width (map char_bytes cs) < 256" by (simp add: elems_wf_def)
  then show "dec_read_by_type_resp (Some (padded (chars_response cs))) (length (chars_response cs)) =
    Some (Some (data_list (map char_bytes cs)))"
    using dec_data_list_padded [OF e, of _ ATT_OP_READ_BY_TYPE_RESP "of_nat (elem_width (map char_bytes cs))"] l
    by (simp add: chars_response_def dec_read_by_type_resp_def unat_of_nat8 del: rd_eq_Some)
qed

lemma chars_request_simps [simp]:
  "att_wf (chars_request s e)" "hd (att_wire (chars_request s e)) = ATT_OP_READ_BY_TYPE_REQ"
  "length (att_wire (chars_request s e)) = 7" "opcode2expected ATT_OP_READ_BY_TYPE_REQ = ATT_OP_READ_BY_TYPE_RESP"
  by (simp_all add: chars_request_def opcode2expected_def)

lemma encode_chars_request [simp]:
  "enc_read_by_type_req s e (Some (snd (bt_uuid16_create GATT_CHARAC_UUID))) = att_encode (chars_request s e)"
  by (simp add: chars_request_def bt_uuid16_create_def)

section \<open>The conversation\<close>

text \<open>A discovery of all characteristics up to handle \<open>e\<close> that has found \<open>found\<close> and waits for the answer to the
  request that starts at \<open>s\<close>.\<close>

abbreviation chars_object :: "'u \<Rightarrow> u16 \<Rightarrow> gatt_item list \<Rightarrow> 'u discover_char" where
  "chars_object func e found \<equiv> \<lparr>dc_uuid = None, dc_end = e, dc_characteristics = found, dc_cb = func\<rparr>"

definition charting :: "nat \<Rightarrow> 'u \<Rightarrow> u16 \<Rightarrow> u16 \<Rightarrow> gatt_item list \<Rightarrow> ('u, 's) world \<Rightarrow> bool" where
  "charting a func e s found w \<longleftrightarrow> (\<exists>i. asking gatt_held (chars_request s e) (Char_Discovered_Cb a) None i w) \<and>
     cell (dcs (client w)) a = Some (chars_object func e found)"

text \<open>The client state with another object at \<open>a\<close>.\<close>

definition put_dc :: "nat \<Rightarrow> 'u discover_char option \<Rightarrow> ('u, 's) gatt_state \<Rightarrow> ('u, 's) gatt_state" where
  "put_dc a x s = s\<lparr>dcs := (dcs s)[a := x]\<rparr>"

lemma put_dc_simps [simp]:
  "put_dc a x (put_dc a y s) = put_dc a x s" "user (put_dc a x s) = user s" "dps (put_dc a x s) = dps s"
  "dcs (put_dc a x s) = (dcs s)[a := x]" "cell (dcs s) a = Some dc \<Longrightarrow> put_dc a (Some dc) s = s"
  by (auto simp: put_dc_def cell_def list_update_same_conv split: if_splits)

lemma client_set_dc [simp]: "client (set_dc a x w) = put_dc a x (client w)"
  by (simp add: set_dc_def put_dc_def)

lemma start_chars:
  assumes q: "quiet gatt_held w"
  shows "\<exists>i w'. gatt_discover_char s e None func w = Some (i, w') \<and> charting (length (dcs (client w))) func e s [] w' \<and>
    written w' = written w \<and> client w' = (client w)\<lparr>dcs := dcs (client w) @ [Some (chars_object func e [])]\<rparr>"
proof -
  have l: "length (att_wire (chars_request s e)) \<le> buflen w" "\<not> out_of_memory w" using q by (simp_all add: quiet_def)
  have h: "gatt_held ((client w)\<lparr>dcs := dcs (client w) @ [Some (chars_object func e [])]\<rparr>) = Suc (gatt_held (client w))"
    by (simp add: gatt_held_def)
  obtain i w1 w' where w': "encode_into (att_encode (chars_request s e)) w = Some (7, w1)" "client w1 = client w"
    "out_of_memory w1 = out_of_memory w"
    "g_attrib_send 0 (buf w1) 7 (Some (Char_Discovered_Cb (length (dcs (client w))))) None
      (on_client (\<lambda>s. s\<lparr>dcs := dcs s @ [Some (chars_object func e [])]\<rparr>) (g_attrib_ref w1)) = Some (i, w')"
    "asking gatt_held (chars_request s e) (Char_Discovered_Cb (length (dcs (client w)))) None i w'"
    "client w' = (client w)\<lparr>dcs := dcs (client w) @ [Some (chars_object func e [])]\<rparr>" "written w' = written w"
    using start_question [OF q _ l(1), of "\<lambda>s. s\<lparr>dcs := dcs s @ [Some (chars_object func e [])]\<rparr>"
        "Char_Discovered_Cb (length (dcs (client w)))"] h by auto
  moreover have "buf (g_attrib_ref w1) = buf w1" by (simp add: g_attrib_ref_def)
  ultimately show ?thesis
    using l(2) by (auto simp: gatt_discover_char_def charting_def Let_def)
qed

text \<open>The last answer: characteristics up to the end of the range, or the error that there are no more.\<close>

definition last_chars_answer :: "charac list option \<Rightarrow> bytes" where
  "last_chars_answer fin = (case fin of
     None \<Rightarrow> att_wire (Error_Rsp ATT_OP_READ_BY_TYPE_REQ 0 ATT_ECODE_ATTR_NOT_FOUND)
   | Some cs \<Rightarrow> chars_response cs)"

definition last_chars :: "charac list option \<Rightarrow> charac list" where
  "last_chars fin = (case fin of None \<Rightarrow> [] | Some cs \<Rightarrow> cs)"

definition last_chars_ok :: "u16 \<Rightarrow> charac list option \<Rightarrow> bool" where
  "last_chars_ok e fin \<longleftrightarrow> (case fin of None \<Rightarrow> True
   | Some cs \<Rightarrow> chars_ok cs \<and> (cha_handle (last cs) = 0 \<or> unat e \<le> unat (cha_handle (last cs)) + 1))"

text \<open>The status that the program gets: an error only when nothing was found.\<close>

definition chars_status :: "gatt_item list \<Rightarrow> u8" where
  "chars_status items = (if items = [] then ATT_ECODE_ATTR_NOT_FOUND else 0)"

lemma last_chars_answer_simps:
  assumes "last_chars_ok e fin"
  shows "last_chars_answer fin \<noteq> []" "length (last_chars_answer fin) \<le> 512"
    "hd (last_chars_answer fin) = (if fin = None then ATT_OP_ERROR else ATT_OP_READ_BY_TYPE_RESP)"
    "fin = None \<Longrightarrow> padded (last_chars_answer fin) ! 4 = ATT_ECODE_ATTR_NOT_FOUND"
  using assms chars_decode(2)
  by (auto simp: last_chars_answer_def last_chars_ok_def chars_response_def padded_def nth_append le16_def split: option.splits)

lemma char_free:
  assumes "attrib_inv gatt_held u" "cell (dcs (client u)) a = Some dc"
  shows "discover_char_free cl a u = Some ((set_dc a None u)\<lparr>refs := refs u - 1\<rparr>)"
proof -
  have "gatt_held (client u) \<ge> 1" using live_update(2) [OF assms(2)] by (simp add: gatt_held_def)
  then have "refs u \<ge> 2" using assms(1) by (auto simp: attrib_inv_def split: if_splits)
  then show ?thesis using assms(2) by (simp add: discover_char_free_def g_attrib_unref_def set_dc_def)
qed

context gatt_user begin

lemma chars_more:
  assumes d: "charting a func e s found w" and g: "chars_ok cs"
    and h: "cha_handle (last cs) \<noteq> 0" "unat (cha_handle (last cs)) + 1 < unat e"
  shows "\<exists>w'. exchange (gatt_client (Suc n) ucl) (chars_response cs) w = Some w' \<and>
    charting a func e (cha_handle (last cs) + 1) (found @ map char_item cs) w' \<and>
    client w' = put_dc a (Some (chars_object func e (found @ map char_item cs))) (client w) \<and>
    written w' = written w @ [att_wire (chars_request s e)]"
proof -
  have op: "opcode2expected (hd (att_wire (chars_request s e))) \<noteq> 0" by simp
  have gr: "chars_response cs \<noteq> []" "hd (chars_response cs) = ATT_OP_READ_BY_TYPE_RESP"
    by (simp_all add: chars_response_def)
  obtain i where i: "asking gatt_held (chars_request s e) (Char_Discovered_Cb a) None i w"
    and c: "cell (dcs (client w)) a = Some (chars_object func e found)"
    using d by (auto simp: charting_def)
  obtain v where v: "exchange (gatt_client (Suc n) ucl) (chars_response cs) w =
      gatt_client (Suc n) ucl (Result_Call (Char_Discovered_Cb a) 0 (Some (padded (chars_response cs)))
        (of_nat (length (chars_response cs)))) v"
    "quiet gatt_held v" "same_client w v" "written v = written w @ [att_wire (chars_request s e)]"
    using channel.answer [OF i op gr(1) chars_decode(2) [OF g], of "Suc n"] gr by auto
  define u where "u = set_dc a (Some (chars_object func e (found @ map char_item cs))) v"
  have cv: "cell (dcs (client v)) a = Some (chars_object func e found)" "client v = client w"
    using c v(3) by (simp_all add: same_client_def)
  have qu: "quiet gatt_held u"
    using v(2) cv(1) unfolding u_def set_dc_def by (intro quiet_on_client) (simp_all add: gatt_held_def live_update)
  have "7 \<le> buflen u" using qu by (simp add: quiet_def)
  then obtain j w' where w': "do { (n, w) \<leftarrow> encode_into (att_encode (chars_request (cha_handle (last cs) + 1) e)) u;
      g_attrib_send 0 (buf w) n (Some (Char_Discovered_Cb a)) None w } = Some (j, w')"
    "asking gatt_held (chars_request (cha_handle (last cs) + 1) e) (Char_Discovered_Cb a) None j w'" "same_client u w'"
    "written w' = written u"
    using send_question [OF qu, of "chars_request (cha_handle (last cs) + 1) e" "Char_Discovered_Cb a" None] by auto
  have o: "\<not> out_of_memory v" using v(2) by (simp add: quiet_def)
  have enc: "encode_into (att_encode (chars_request (cha_handle (last cs) + 1) e)) u =
      Some (7, u\<lparr>buf := overlay (att_wire (chars_request (cha_handle (last cs) + 1) e)) (buf u)\<rparr>)"
    using encode_quiet [OF qu, of "chars_request (cha_handle (last cs) + 1) e"] \<open>7 \<le> buflen u\<close> by simp
  have "exchange (gatt_client (Suc n) ucl) (chars_response cs) w = Some w'"
    using w'(1) v(1) cv o h chars_decode [OF g] chars_width [OF g, of 0 found]
    by (simp add: gatt_client.simps gatt_dispatch_def char_discovered_cb_def data_list_def rdn_def enc flip: u_def)
  moreover have "client u = put_dc a (Some (chars_object func e (found @ map char_item cs))) (client w)" "written u = written v"
    using cv by (simp_all add: u_def) (simp add: set_dc_def)
  ultimately show ?thesis
    using w' v(4) cv by (auto simp: charting_def same_client_def u_def)
qed

lemma chars_end:
  assumes d: "charting a func e s found w" and fin: "last_chars_ok e fin"
  shows "\<exists>v. exchange (gatt_client (Suc n) ucl) (last_chars_answer fin) w = do {
      u \<leftarrow> ucl (Gatt_Cb func (found @ map char_item (last_chars fin)) (chars_status (found @ map char_item (last_chars fin)))) v;
      discover_char_free (gatt_client n ucl) a u } \<and>
    quiet gatt_held v \<and> client v = put_dc a (Some (chars_object func e (found @ map char_item (last_chars fin)))) (client w) \<and>
    written v = written w @ [att_wire (chars_request s e)]"
proof -
  have op: "opcode2expected (hd (att_wire (chars_request s e))) \<noteq> 0" by simp
  note l = last_chars_answer_simps [OF fin]
  let ?d = "last_chars_answer fin"
  obtain i where i: "asking gatt_held (chars_request s e) (Char_Discovered_Cb a) None i w"
    and c: "cell (dcs (client w)) a = Some (chars_object func e found)"
    using d by (auto simp: charting_def)
  obtain v where v: "exchange (gatt_client (Suc n) ucl) ?d w =
      gatt_client (Suc n) ucl (Result_Call (Char_Discovered_Cb a) (if fin = None then ATT_ECODE_ATTR_NOT_FOUND else 0)
        (Some (padded ?d)) (of_nat (length ?d))) v"
    "quiet gatt_held v" "same_client w v" "written v = written w @ [att_wire (chars_request s e)]"
    using channel.answer [OF i op l(1,2), of "Suc n"] l(3,4) by (cases "fin = None") auto
  have cv: "cell (dcs (client v)) a = Some (chars_object func e found)" "client v = client w"
    using c v(3) by (simp_all add: same_client_def)
  define u where "u = set_dc a (Some (chars_object func e (found @ map char_item (last_chars fin)))) v"
  have qu: "quiet gatt_held u"
    using v(2) cv(1) unfolding u_def set_dc_def by (intro quiet_on_client) (simp_all add: gatt_held_def live_update)
  have cu: "cell (dcs (client u)) a = Some (chars_object func e (found @ map char_item (last_chars fin)))"
    "client u = put_dc a (Some (chars_object func e (found @ map char_item (last_chars fin)))) (client w)" "written u = written v"
    using cv by (simp_all add: u_def) (simp add: set_dc_def)
  have "exchange (gatt_client (Suc n) ucl) ?d w = char_done (gatt_client n ucl) ucl a ATT_ECODE_ATTR_NOT_FOUND u"
  proof (cases fin)
    case None
    have "u = v" using cv by (simp add: u_def None last_chars_def set_dc_def on_client_def cell_def list_update_same_conv split: if_splits)
    then show ?thesis using v(1) None by (simp add: gatt_client.simps gatt_dispatch_def char_discovered_cb_def)
  next
    case (Some cs)
    have g: "chars_ok cs" "\<not> (cha_handle (last cs) \<noteq> 0 \<and> unat (cha_handle (last cs)) + 1 < unat e)"
      using fin Some by (auto simp: last_chars_ok_def)
    have "\<not> out_of_memory v" using v(2) by (simp add: quiet_def)
    then show ?thesis
      using v(1) Some cv g(2) chars_decode [OF g(1)] chars_width [OF g(1), of 0 found]
      by (cases "cha_handle (last cs) = 0") (simp_all add: gatt_client.simps gatt_dispatch_def char_discovered_cb_def
          data_list_def rdn_def last_chars_answer_def last_chars_def u_def)
  qed
  then show ?thesis
    using qu cu v(4) by (intro exI [of _ u]) (simp add: char_done_def chars_status_def Let_def)
qed

end

text \<open>The requests of a discovery: each continues right after the last handle of the response before.\<close>

fun chars_starts :: "u16 \<Rightarrow> charac list list \<Rightarrow> u16 list" where
  "chars_starts s [] = [s]"
| "chars_starts s (cs # gs) = s # chars_starts (cha_handle (last cs) + 1) gs"

definition chars_between :: "u16 \<Rightarrow> charac list \<Rightarrow> bool" where
  "chars_between e cs \<longleftrightarrow> chars_ok cs \<and> cha_handle (last cs) \<noteq> 0 \<and> unat (cha_handle (last cs)) + 1 < unat e"

context gatt_user begin

text \<open>A whole conversation ends with the one call of the program.\<close>

lemma chars_conversation:
  assumes "charting a func e s found w" "list_all (chars_between e) gs" "last_chars_ok e fin"
    "items = found @ map char_item (concat gs @ last_chars fin)"
  shows "\<exists>v. exchanges (gatt_client (Suc n) ucl) (map chars_response gs @ [last_chars_answer fin]) w = do {
      u \<leftarrow> ucl (Gatt_Cb func items (chars_status items)) v; discover_char_free (gatt_client n ucl) a u } \<and>
    quiet gatt_held v \<and> client v = put_dc a (Some (chars_object func e items)) (client w) \<and>
    written v = written w @ map (\<lambda>s. att_wire (chars_request s e)) (chars_starts s gs)"
  using assms
proof (induction gs arbitrary: s found w)
  case Nil
  have "exchanges (gatt_client (Suc n) ucl) [] = Some" by (rule ext) simp
  then show ?case using chars_end [of a func e s found w fin n] Nil by simp
next
  case (Cons cs gs)
  have g: "chars_ok cs" "cha_handle (last cs) \<noteq> 0" "unat (cha_handle (last cs)) + 1 < unat e"
    using Cons.prems(2) by (simp_all add: chars_between_def)
  obtain w1 where w1: "exchange (gatt_client (Suc n) ucl) (chars_response cs) w = Some w1"
    "charting a func e (cha_handle (last cs) + 1) (found @ map char_item cs) w1"
    "client w1 = put_dc a (Some (chars_object func e (found @ map char_item cs))) (client w)"
    "written w1 = written w @ [att_wire (chars_request s e)]"
    using chars_more [OF Cons.prems(1) g, of n] by blast
  obtain v where v: "exchanges (gatt_client (Suc n) ucl) (map chars_response gs @ [last_chars_answer fin]) w1 = do {
      u \<leftarrow> ucl (Gatt_Cb func items (chars_status items)) v; discover_char_free (gatt_client n ucl) a u }"
    "quiet gatt_held v" "client v = put_dc a (Some (chars_object func e items)) (client w1)"
    "written v = written w1 @ map (\<lambda>s. att_wire (chars_request s e)) (chars_starts (cha_handle (last cs) + 1) gs)"
    using Cons.IH [OF w1(2)] Cons.prems(2-4) by auto
  show ?case using v w1 by (intro exI [of _ v]) simp
qed

end

end
