(* ===== verification/Gatt_Search.thy ===== *)
theory Gatt_Search
  imports Gatt_Chars
begin

text \<open>
  The search for primary services with a given UUID (\<open>gatt_discover_primary\<close> with a UUID and its callback), for every
  program above that keeps the contract of the GATT procedures.
\<close>

section \<open>Requests and answers\<close>

definition uuid_wanted :: "bt_uuid_t \<Rightarrow> bool" where
  "uuid_wanted u \<longleftrightarrow> (case u of BT_UUID16 _ \<Rightarrow> True | BT_UUID128 v \<Rightarrow> length v = 16 | _ \<Rightarrow> False)"

definition find_request :: "u16 \<Rightarrow> bt_uuid_t \<Rightarrow> att_pdu" where
  "find_request s u = Find_By_Type_Req s 0xFFFF GATT_PRIM_SVC_UUID (uuid_bytes u)"

definition ranges_ok :: "att_range list \<Rightarrow> bool" where
  "ranges_ok rs \<longleftrightarrow> rs \<noteq> [] \<and> length rs \<le> 127"

definition ranges_response :: "att_range list \<Rightarrow> bytes" where
  "ranges_response rs = att_wire (Find_By_Type_Rsp rs)"

lemma find_request_simps [simp]:
  "att_wf (find_request s u)" "hd (att_wire (find_request s u)) = ATT_OP_FIND_BY_TYPE_REQ"
  "uuid_wanted u \<Longrightarrow> length (att_wire (find_request s u)) \<le> 23"
  "opcode2expected ATT_OP_FIND_BY_TYPE_REQ = ATT_OP_FIND_BY_TYPE_RESP"
  by (auto simp: find_request_def opcode2expected_def uuid_wanted_def split: bt_uuid_t.splits)

lemma encode_find_request:
  assumes "uuid_wanted u"
  shows "encode_discover_primary s 0xFFFF (Some u) = att_encode (find_request s u)"
  using assms
  by (cases u) (simp_all add: encode_discover_primary_def find_request_def uuid_wanted_def bt_uuid16_create_def fun_eq_iff)

lemma find_request_room: "uuid_wanted u \<Longrightarrow> 23 \<le> n \<Longrightarrow> length (att_wire (find_request s u)) \<le> n"
  using find_request_simps(3) [of u s] by linarith

lemma range_list_length [simp]: "length (concat (map range_bytes rs)) = 4 * length rs"
  by (induction rs) (simp_all add: range_bytes_def)

lemma ranges_decode:
  assumes "ranges_ok rs"
  shows "dec_find_by_type_resp (Some (padded (ranges_response rs))) (length (ranges_response rs)) = Some rs"
    "length (ranges_response rs) \<le> 512" "hd (ranges_response rs) = ATT_OP_FIND_BY_TYPE_RESP" "ranges_response rs \<noteq> []"
proof -
  have l: "length (ranges_response rs) = 1 + 4 * length rs" "\<not> length (ranges_response rs) < 5"
    using assms by (cases rs; simp add: ranges_response_def ranges_ok_def)+
  have "get_ranges ([7] @ concat (map range_bytes rs) @ replicate (512 - length (ranges_response rs)) 0)
      (length (ranges_response rs)) 1 = Some rs"
    by (rule get_ranges_concat) (simp_all add: l)
  then show "dec_find_by_type_resp (Some (padded (ranges_response rs))) (length (ranges_response rs)) = Some rs"
    using l(2) by (simp add: dec_find_by_type_resp_def padded_def rd_def ranges_response_def)
  show "length (ranges_response rs) \<le> 512" using l(1) assms by (simp add: ranges_ok_def)
qed (simp_all add: ranges_response_def)

section \<open>The conversation\<close>

abbreviation search_object :: "'u \<Rightarrow> bt_uuid_t \<Rightarrow> att_range list \<Rightarrow> 'u discover_primary" where
  "search_object func u found \<equiv> \<lparr>dp_uuid = u, dp_primaries = map Range found, dp_cb = func\<rparr>"

definition searching :: "nat \<Rightarrow> 'u \<Rightarrow> bt_uuid_t \<Rightarrow> u16 \<Rightarrow> att_range list \<Rightarrow> ('u, 's) world \<Rightarrow> bool" where
  "searching a func u s found w \<longleftrightarrow> uuid_wanted u \<and> (\<exists>i. asking gatt_held (find_request s u) (Primary_By_Uuid_Cb a) None i w) \<and>
     cell (dps (client w)) a = Some (search_object func u found)"

definition put_dp :: "nat \<Rightarrow> 'u discover_primary option \<Rightarrow> ('u, 's) gatt_state \<Rightarrow> ('u, 's) gatt_state" where
  "put_dp a x s = s\<lparr>dps := (dps s)[a := x]\<rparr>"

lemma put_dp_simps [simp]:
  "put_dp a x (put_dp a y s) = put_dp a x s" "user (put_dp a x s) = user s" "dcs (put_dp a x s) = dcs s"
  "dps (put_dp a x s) = (dps s)[a := x]" "cell (dps s) a = Some dp \<Longrightarrow> put_dp a (Some dp) s = s"
  by (auto simp: put_dp_def cell_def list_update_same_conv split: if_splits)

lemma client_set_dp [simp]: "client (set_dp a x w) = put_dp a x (client w)"
  by (simp add: set_dp_def put_dp_def)

lemma start_search:
  assumes q: "quiet gatt_held w" and u: "uuid_wanted u"
  shows "\<exists>i w'. gatt_discover_primary (Some u) func w = Some (i, w') \<and> searching (length (dps (client w))) func u 1 [] w' \<and>
    written w' = written w \<and> client w' = (client w)\<lparr>dps := dps (client w) @ [Some (search_object func u [])]\<rparr>"
proof -
  have l: "length (att_wire (find_request 1 u)) \<le> buflen w" "\<not> out_of_memory w"
    using q find_request_room [OF u] by (simp_all add: quiet_def)
  let ?n = "of_nat (length (att_wire (find_request 1 u))) :: u16"
  have nz: "?n \<noteq> 0" using find_request_simps(3) [OF u, of 1] by (simp add: word_unat_eq_iff unat_of_nat16)
  have h: "gatt_held ((client w)\<lparr>dps := dps (client w) @ [Some (search_object func u [])]\<rparr>) = Suc (gatt_held (client w))"
    by (simp add: gatt_held_def)
  obtain i w1 w' where w': "encode_into (att_encode (find_request 1 u)) w = Some (?n, w1)" "client w1 = client w"
    "out_of_memory w1 = out_of_memory w"
    "g_attrib_send 0 (buf w1) ?n (Some (Primary_By_Uuid_Cb (length (dps (client w))))) None
      (on_client (\<lambda>s. s\<lparr>dps := dps s @ [Some (search_object func u [])]\<rparr>) (g_attrib_ref w1)) = Some (i, w')"
    "asking gatt_held (find_request 1 u) (Primary_By_Uuid_Cb (length (dps (client w)))) None i w'"
    "client w' = (client w)\<lparr>dps := dps (client w) @ [Some (search_object func u [])]\<rparr>" "written w' = written w"
    using start_question [OF q _ l(1), of "\<lambda>s. s\<lparr>dps := dps s @ [Some (search_object func u [])]\<rparr>"
        "Primary_By_Uuid_Cb (length (dps (client w)))"] h by auto
  moreover have "buf (g_attrib_ref w1) = buf w1" by (simp add: g_attrib_ref_def)
  ultimately show ?thesis
    using l(2) nz u by (auto simp: gatt_discover_primary_def searching_def Let_def encode_find_request)
qed

text \<open>The last answer: ranges up to the last handle of all, or the error that there are no more.\<close>

definition last_ranges_answer :: "att_range list option \<Rightarrow> bytes" where
  "last_ranges_answer fin = (case fin of
     None \<Rightarrow> att_wire (Error_Rsp ATT_OP_FIND_BY_TYPE_REQ 0 ATT_ECODE_ATTR_NOT_FOUND)
   | Some rs \<Rightarrow> ranges_response rs)"

definition last_ranges :: "att_range list option \<Rightarrow> att_range list" where
  "last_ranges fin = (case fin of None \<Rightarrow> [] | Some rs \<Rightarrow> rs)"

definition last_ranges_ok :: "att_range list option \<Rightarrow> bool" where
  "last_ranges_ok fin \<longleftrightarrow> (case fin of None \<Rightarrow> True | Some rs \<Rightarrow> ranges_ok rs \<and> end_handle (last rs) = 0xFFFF)"

definition ranges_between :: "att_range list \<Rightarrow> bool" where
  "ranges_between rs \<longleftrightarrow> ranges_ok rs \<and> end_handle (last rs) \<noteq> 0xFFFF"

lemma last_ranges_answer_simps:
  assumes "last_ranges_ok fin"
  shows "last_ranges_answer fin \<noteq> []" "length (last_ranges_answer fin) \<le> 512"
    "hd (last_ranges_answer fin) = (if fin = None then ATT_OP_ERROR else ATT_OP_FIND_BY_TYPE_RESP)"
    "fin = None \<Longrightarrow> padded (last_ranges_answer fin) ! 4 = ATT_ECODE_ATTR_NOT_FOUND"
  using assms ranges_decode
  by (auto simp: last_ranges_answer_def last_ranges_ok_def padded_def nth_append le16_def split: option.splits)

text \<open>The starts of the requests: each continues right after the last handle of the response before.\<close>

fun ranges_starts :: "u16 \<Rightarrow> att_range list list \<Rightarrow> u16 list" where
  "ranges_starts s [] = [s]"
| "ranges_starts s (rs # gs) = s # ranges_starts (end_handle (last rs) + 1) gs"

lemma primary_free:
  assumes "attrib_inv gatt_held u" "cell (dps (client u)) a = Some dp"
  shows "discover_primary_free cl a u = Some ((set_dp a None u)\<lparr>refs := refs u - 1\<rparr>)"
proof -
  have "gatt_held (client u) \<ge> 1" using live_update(2) [OF assms(2)] by (simp add: gatt_held_def)
  then have "refs u \<ge> 2" using assms(1) by (auto simp: attrib_inv_def split: if_splits)
  then show ?thesis using assms(2) by (simp add: discover_primary_free_def g_attrib_unref_def set_dp_def)
qed

context gatt_user begin

lemma search_answer:
  assumes d: "searching a func u s found w"
    and l: "ans \<noteq> []" "length ans \<le> 512" "hd ans = (if err then ATT_OP_ERROR else ATT_OP_FIND_BY_TYPE_RESP)"
  shows "\<exists>v. exchange (gatt_client (Suc n) ucl) ans w =
      gatt_client (Suc n) ucl (Result_Call (Primary_By_Uuid_Cb a) (if err then padded ans ! 4 else 0) (Some (padded ans)) (of_nat (length ans))) v \<and>
    quiet gatt_held v \<and> client v = client w \<and> written v = written w @ [att_wire (find_request s u)] \<and>
    cell (dps (client w)) a = Some (search_object func u found) \<and> uuid_wanted u \<and> \<not> out_of_memory v"
proof -
  have op: "opcode2expected (hd (att_wire (find_request s u))) \<noteq> 0" by simp
  obtain i where i: "asking gatt_held (find_request s u) (Primary_By_Uuid_Cb a) None i w"
    and c: "cell (dps (client w)) a = Some (search_object func u found)" and u: "uuid_wanted u"
    using d by (auto simp: searching_def)
  show ?thesis
    using channel.answer [OF i op l(1,2), of "Suc n"] l(3) c u by (cases err) (auto simp: same_client_def quiet_def)
qed

lemma search_more:
  assumes d: "searching a func u s found w" and g: "ranges_between rs"
  shows "\<exists>w'. exchange (gatt_client (Suc n) ucl) (ranges_response rs) w = Some w' \<and>
    searching a func u (end_handle (last rs) + 1) (found @ rs) w' \<and>
    client w' = put_dp a (Some (search_object func u (found @ rs))) (client w) \<and>
    written w' = written w @ [att_wire (find_request s u)]"
proof -
  let ?s = "end_handle (last rs) + 1"
  have r: "ranges_ok rs" "end_handle (last rs) \<noteq> 0xFFFF" "rs \<noteq> []" using g by (simp_all add: ranges_between_def ranges_ok_def)
  obtain v where v: "exchange (gatt_client (Suc n) ucl) (ranges_response rs) w =
      gatt_client (Suc n) ucl (Result_Call (Primary_By_Uuid_Cb a) 0 (Some (padded (ranges_response rs)))
        (of_nat (length (ranges_response rs)))) v"
    "quiet gatt_held v" "client v = client w" "written v = written w @ [att_wire (find_request s u)]"
    "cell (dps (client w)) a = Some (search_object func u found)" "uuid_wanted u"
    using search_answer [OF d ranges_decode(4,2) [OF r(1)], of False n] ranges_decode(3) [OF r(1)] by auto
  define x where "x = set_dp a (Some (search_object func u (found @ rs))) v"
  have qx: "quiet gatt_held x"
    using v(2,3,5) unfolding x_def set_dp_def by (intro quiet_on_client) (simp_all add: gatt_held_def live_update)
  have room: "length (att_wire (find_request ?s u)) \<le> buflen x"
    using qx find_request_room [OF v(6)] by (simp add: quiet_def)
  have nz: "(of_nat (length (att_wire (find_request ?s u))) :: u16) \<noteq> 0"
    using find_request_simps(3) [OF v(6), of ?s] by (simp add: word_unat_eq_iff unat_of_nat16)
  obtain j w' where w': "do { (n, w) \<leftarrow> encode_into (att_encode (find_request ?s u)) x;
      g_attrib_send 0 (buf w) n (Some (Primary_By_Uuid_Cb a)) None w } = Some (j, w')"
    "asking gatt_held (find_request ?s u) (Primary_By_Uuid_Cb a) None j w'" "same_client x w'" "written w' = written x"
    using send_question [OF qx _ room, of "Primary_By_Uuid_Cb a" None] by auto
  have "exchange (gatt_client (Suc n) ucl) (ranges_response rs) w = Some w'"
    using w'(1) v(1,3,5) r ranges_decode(1,2) [OF r(1)] encode_quiet [OF qx _ room] nz
    by (simp add: gatt_client.simps gatt_dispatch_def primary_by_uuid_cb_def encode_find_request [OF v(6)] flip: x_def map_append)
  moreover have "client x = put_dp a (Some (search_object func u (found @ rs))) (client w)" "written x = written v"
    using v(3) by (simp_all add: x_def) (simp add: set_dp_def)
  ultimately show ?thesis
    using w' v by (auto simp: searching_def same_client_def x_def)
qed

lemma search_end:
  assumes d: "searching a func u s found w" and fin: "last_ranges_ok fin"
  shows "\<exists>v. exchange (gatt_client (Suc n) ucl) (last_ranges_answer fin) w = do {
      x \<leftarrow> ucl (Gatt_Cb func (map Range (found @ last_ranges fin)) 0) v; discover_primary_free (gatt_client n ucl) a x } \<and>
    quiet gatt_held v \<and> client v = put_dp a (Some (search_object func u (found @ last_ranges fin))) (client w) \<and>
    written v = written w @ [att_wire (find_request s u)]"
proof -
  note l = last_ranges_answer_simps [OF fin]
  let ?d = "last_ranges_answer fin"
  obtain v where v: "exchange (gatt_client (Suc n) ucl) ?d w =
      gatt_client (Suc n) ucl (Result_Call (Primary_By_Uuid_Cb a) (if fin = None then padded ?d ! 4 else 0) (Some (padded ?d)) (of_nat (length ?d))) v"
    "quiet gatt_held v" "client v = client w" "written v = written w @ [att_wire (find_request s u)]"
    "cell (dps (client w)) a = Some (search_object func u found)"
    using search_answer [OF d l(1,2), of "fin = None" n] l(3) by auto
  define x where "x = set_dp a (Some (search_object func u (found @ last_ranges fin))) v"
  have qx: "quiet gatt_held x"
    using v(2,3,5) unfolding x_def set_dp_def by (intro quiet_on_client) (simp_all add: gatt_held_def live_update)
  have cx: "cell (dps (client x)) a = Some (search_object func u (found @ last_ranges fin))"
    "client x = put_dp a (Some (search_object func u (found @ last_ranges fin))) (client w)" "written x = written v"
    using v(3,5) by (simp_all add: x_def) (simp add: set_dp_def)
  have "exchange (gatt_client (Suc n) ucl) ?d w = primary_done (gatt_client n ucl) ucl a 0 x"
  proof (cases fin)
    case None
    have "x = v" using v(3,5) by (simp add: x_def None last_ranges_def set_dp_def on_client_def cell_def list_update_same_conv split: if_splits)
    then show ?thesis using v(1) None l(4) by (simp add: gatt_client.simps gatt_dispatch_def primary_by_uuid_cb_def)
  next
    case (Some rs)
    then have g: "ranges_ok rs" "end_handle (last rs) = 0xFFFF" "rs \<noteq> []" using fin by (auto simp: last_ranges_ok_def ranges_ok_def)
    then show ?thesis
      using v(1,3,5) Some ranges_decode(1,2) [OF g(1)]
      by (simp add: gatt_client.simps gatt_dispatch_def primary_by_uuid_cb_def last_ranges_answer_def last_ranges_def x_def)
  qed
  then show ?thesis
    using qx cx v(4) by (intro exI [of _ x]) (simp add: primary_done_def)
qed

text \<open>A whole conversation ends with the one call of the program.\<close>

lemma search_conversation:
  assumes "searching a func u s found w" "list_all ranges_between gs" "last_ranges_ok fin"
    "rs = found @ concat gs @ last_ranges fin"
  shows "\<exists>v. exchanges (gatt_client (Suc n) ucl) (map ranges_response gs @ [last_ranges_answer fin]) w = do {
      x \<leftarrow> ucl (Gatt_Cb func (map Range rs) 0) v; discover_primary_free (gatt_client n ucl) a x } \<and>
    quiet gatt_held v \<and> client v = put_dp a (Some (search_object func u rs)) (client w) \<and>
    written v = written w @ map (\<lambda>s. att_wire (find_request s u)) (ranges_starts s gs)"
  using assms
proof (induction gs arbitrary: s found w)
  case Nil
  have "exchanges (gatt_client (Suc n) ucl) [] = Some" by (rule ext) simp
  then show ?case using search_end [of a func u s found w fin n] Nil by simp
next
  case (Cons g gs)
  have b: "ranges_between g" using Cons.prems(2) by simp
  obtain w1 where w1: "exchange (gatt_client (Suc n) ucl) (ranges_response g) w = Some w1"
    "searching a func u (end_handle (last g) + 1) (found @ g) w1"
    "client w1 = put_dp a (Some (search_object func u (found @ g))) (client w)"
    "written w1 = written w @ [att_wire (find_request s u)]"
    using search_more [OF Cons.prems(1) b, of n] by blast
  obtain v where v: "exchanges (gatt_client (Suc n) ucl) (map ranges_response gs @ [last_ranges_answer fin]) w1 = do {
      x \<leftarrow> ucl (Gatt_Cb func (map Range rs) 0) v; discover_primary_free (gatt_client n ucl) a x }"
    "quiet gatt_held v" "client v = put_dp a (Some (search_object func u rs)) (client w1)"
    "written v = written w1 @ map (\<lambda>s. att_wire (find_request s u)) (ranges_starts (end_handle (last g) + 1) gs)"
    using Cons.IH [OF w1(2)] Cons.prems(2-4) by auto
  show ?case using v w1 by (intro exI [of _ v]) simp
qed

end

end
