(* ===== verification/Vehicle_Run.thy ===== *)
theory Vehicle_Run
  imports Vehicle_Cmd Gatt_Search Gattrib_Run
begin

text \<open>
  The runs of the tool: its callbacks keep the contract of the GATT procedures, so every session, whatever is
  typed and whatever arrives, keeps the channel's invariant while there is a channel.
\<close>

section \<open>The callbacks keep the contract\<close>

lemma on_user_keeps [simp]: "keeps gatt_held w0 w \<Longrightarrow> keeps gatt_held w0 (on_user f w)"
  unfolding on_user_def by (rule on_client_keeps) (simp_all add: gatt_held_def)

lemma run_user_keeps: "keeps gatt_held w0 w \<Longrightarrow> run_user f w = Some w' \<Longrightarrow> keeps gatt_held w0 w'"
  by (auto simp: run_user_def bind_eq_Some_conv)

lemma set_mtu_keeps_from: "keeps gatt_held w0 w \<Longrightarrow> g_attrib_set_mtu m w = (b, w') \<Longrightarrow> keeps gatt_held w0 w'"
  using set_mtu_keeps keeps_inv keeps_trans by blast

lemma discover_services_cb_keeps:
  "keeps gatt_held w0 w \<Longrightarrow> discover_services_cb items st w = Some w' \<Longrightarrow> keeps gatt_held w0 w'"
  by (auto simp: discover_services_cb_def bind_eq_Some_conv split: if_splits dest: gatt_discover_char_keeps [OF on_user_keeps])

lemma discover_char_cb_keeps:
  assumes k: "keeps gatt_held w0 w" and run: "discover_char_cb items st w = Some w'"
  shows "keeps gatt_held w0 w'"
proof -
  have "keeps gatt_held w0 v" if "gatt_write_cmd h d n g (on_user f w) = Some (r, v)" for h d n g f r v
    using simple_requests_keep(5) [OF on_user_keeps [OF k] that] .
  then show ?thesis
    using run k by (auto simp: discover_char_cb_def Let_def bind_eq_Some_conv split: if_splits)
qed

lemma exchange_mtu_cb_keeps:
  assumes k: "keeps gatt_held w0 w" and run: "exchange_mtu_cb st pdu len w = Some w'"
  shows "keeps gatt_held w0 w'"
proof -
  have "keeps gatt_held w0 (snd (g_attrib_set_mtu m w))" for m
    by (rule set_mtu_keeps_from [OF k, of m "fst (g_attrib_set_mtu m w)"]) simp
  then show ?thesis
    using run k by (auto simp: exchange_mtu_cb_def bind_eq_Some_conv Let_def case_prod_beta split: if_splits)
qed

lemma discover_services_keeps:
  "keeps gatt_held w0 w \<Longrightarrow> discover_services w = Some w' \<Longrightarrow> keeps gatt_held w0 w'"
  by (auto simp: discover_services_def bind_eq_Some_conv Let_def split: if_splits prod.splits dest: gatt_discover_primary_keeps)

interpretation tool: gatt_user vehicle_client
proof
  fix w :: vworld and c w'
  assume "attrib_inv gatt_held w" "vehicle_client c w = Some w'"
  then show "keeps gatt_held w w'"
    using run_user_keeps [OF keeps_refl] discover_services_cb_keeps [OF keeps_refl] discover_char_cb_keeps [OF keeps_refl]
      exchange_mtu_cb_keeps [OF keeps_refl]
    by (auto simp: vehicle_client_def split: gatt_call.splits call.splits vehicle_fn.splits)
qed

section \<open>The commands\<close>

text \<open>What every session keeps: without a channel it is not connected; a channel has the invariant.\<close>

definition session_inv :: "session \<Rightarrow> bool" where
  "session_inv s \<longleftrightarrow> (case s of Offline p \<Rightarrow> conn_state p \<noteq> STATE_CONNECTED | Online w \<Rightarrow> attrib_inv gatt_held w)"

lemma send_msg_keeps: "keeps gatt_held w0 w \<Longrightarrow> send_msg b w = Some w' \<Longrightarrow> keeps gatt_held w0 w'"
  by (auto simp: send_msg_def bind_eq_Some_conv) (blast intro: gatt_write_char_keeps [rotated])

lemma rgb_lights_keep:
  "keeps gatt_held w0 w \<Longrightarrow> vehicle_set_rgb_lights h e a b c d i j k w = Some w' \<Longrightarrow> keeps gatt_held w0 w'"
  by (auto simp: vehicle_set_rgb_lights_def bind_eq_Some_conv) (blast intro: gatt_write_char_keeps [rotated])

lemma usage_keeps: "keeps gatt_held w0 w \<Longrightarrow> usage s argv w = Some w' \<Longrightarrow> keeps gatt_held w0 w'"
  by (auto simp: usage_def bind_eq_Some_conv)

lemma when_connected_inv:
  assumes "session_inv s" "when_connected f s = Some s'"
    "\<And>w w'. keeps gatt_held w w \<Longrightarrow> f w = Some w' \<Longrightarrow> keeps gatt_held w w'"
  shows "session_inv s'"
  using assms(1,2) assms(3) [OF keeps_refl]
  by (auto simp: when_connected_def session_inv_def on_prog_def prog_of_def failed_def rl_printf_def
      split: session.splits if_splits dest: keeps_inv keeps_inv [OF on_user_keeps [OF keeps_refl]])

lemmas command_defs = cmd_anki_vehicle_read_def cmd_anki_vehicle_write_def cmd_anki_vehicle_disconnect_def
  cmd_anki_vehicle_sdk_mode_def cmd_anki_vehicle_ping_def cmd_anki_vehicle_get_version_def cmd_anki_vehicle_set_speed_def
  cmd_anki_vehicle_change_lane_def cmd_anki_vehicle_lights_pattern_def cmd_anki_vehicle_engine_lights_def

lemma read_inv: "session_inv s \<Longrightarrow> cmd_anki_vehicle_read argv s = Some s' \<Longrightarrow> session_inv s'"
  unfolding cmd_anki_vehicle_read_def
  by (erule (1) when_connected_inv) (auto simp: bind_eq_Some_conv split: if_splits intro: gatt_read_char_keeps)

lemma write_inv: "session_inv s \<Longrightarrow> cmd_anki_vehicle_write argv s = Some s' \<Longrightarrow> session_inv s'"
  unfolding cmd_anki_vehicle_write_def
  by (erule (1) when_connected_inv) (auto simp: bind_eq_Some_conv case_prod_beta Let_def split: if_splits
      intro: usage_keeps gatt_write_char_keeps simple_requests_keep(5))

lemma message_inv:
  assumes "session_inv s"
  shows "cmd_anki_vehicle_disconnect argv s = Some s' \<Longrightarrow> session_inv s'"
    "cmd_anki_vehicle_sdk_mode argv s = Some s' \<Longrightarrow> session_inv s'"
    "cmd_anki_vehicle_ping argv s = Some s' \<Longrightarrow> session_inv s'"
    "cmd_anki_vehicle_get_version argv s = Some s' \<Longrightarrow> session_inv s'"
    "cmd_anki_vehicle_set_speed argv s = Some s' \<Longrightarrow> session_inv s'"
    "cmd_anki_vehicle_lights_pattern argv s = Some s' \<Longrightarrow> session_inv s'"
  unfolding command_defs
  by (erule when_connected_inv [OF assms], (auto simp: bind_eq_Some_conv Let_def split: if_splits
      intro: on_user_keeps [OF usage_keeps] usage_keeps send_msg_keeps send_msg_keeps [OF on_user_keeps])[1])+

lemma change_lane_inv: "session_inv s \<Longrightarrow> cmd_anki_vehicle_change_lane argv s = Some s' \<Longrightarrow> session_inv s'"
  unfolding cmd_anki_vehicle_change_lane_def
  by (erule (1) when_connected_inv) (auto simp: bind_eq_Some_conv Let_def split: if_splits
      intro: usage_keeps send_msg_keeps [OF send_msg_keeps [OF on_user_keeps]])

lemma engine_lights_inv: "session_inv s \<Longrightarrow> cmd_anki_vehicle_engine_lights argv s = Some s' \<Longrightarrow> session_inv s'"
  unfolding cmd_anki_vehicle_engine_lights_def
  by (erule (1) when_connected_inv) (auto simp: bind_eq_Some_conv Let_def split: if_splits
      intro: on_user_keeps [OF usage_keeps] rgb_lights_keep)

lemma mtu_inv: "session_inv s \<Longrightarrow> cmd_mtu argv s = Some s' \<Longrightarrow> session_inv s'"
  unfolding cmd_mtu_def
  by (erule (1) when_connected_inv) (auto simp: bind_eq_Some_conv Let_def case_prod_beta split: if_splits
      intro: simple_requests_keep(3) [OF on_user_keeps])

section \<open>Sessions\<close>

lemma on_prog_inv: "session_inv s \<Longrightarrow> (\<And>p. conn_state (f p) = STATE_CONNECTED \<Longrightarrow> conn_state p = STATE_CONNECTED) \<Longrightarrow> session_inv (on_prog f s)"
  by (auto simp: session_inv_def on_prog_def split: session.splits dest: keeps_inv [OF on_user_keeps [OF keeps_refl]])

lemma print_conn_state [simp]:
  "conn_state (rl_printf fmt args p) = conn_state p" "conn_state (error fmt args p) = conn_state p"
  "conn_state (failed fmt args p) = conn_state p" "conn_state (set_state st p) = st"
  by (simp_all add: rl_printf_def error_def failed_def set_state_def Let_def)

lemma fold_help_conn_state [simp]:
  "conn_state (fold (\<lambda>(cmd, _, params, desc). rl_printf fmt [Str cmd, Str params, Str desc]) l p) = conn_state p"
  by (induction l arbitrary: p) auto

lemma disconnect_inv: "session_inv s \<Longrightarrow> disconnect_io env s = Some s' \<Longrightarrow> session_inv s'"
  by (auto simp: disconnect_io_def bind_eq_Some_conv session_inv_def split: if_splits)

lemma connect_inv:
  assumes "session_inv s" "cmd_connect env argv s = Some s'"
  shows "session_inv s'"
proof -
  have result: "session_inv (case r of Inl m \<Rightarrow> on_prog (error x [Str m] \<circ> set_state STATE_DISCONNECTED \<circ> (\<lambda>p. p\<lparr>iochannel := None\<rparr>)) t
      | Inr io \<Rightarrow> on_prog (\<lambda>p. p\<lparr>iochannel := Some io\<rparr>) t)" if "session_inv t" for r x and t :: session
    using that by (auto intro: on_prog_inv split: sum.split)
  show ?thesis
    using assms by (auto simp: cmd_connect_def bind_eq_Some_conv Let_def split: if_splits option.splits
      intro!: on_prog_inv result)
qed

lemma discover_services_inv:
  "attrib_inv gatt_held w \<Longrightarrow> discover_services (on_user f w) = Some w' \<Longrightarrow> attrib_inv gatt_held w'"
  by (rule keeps_inv [OF discover_services_keeps [OF on_user_keeps [OF keeps_refl]]])

lemma connect_cb_inv:
  assumes "session_inv s" "0 < src" "connect_cb err io evt src s = Some s'"
  shows "session_inv s'"
proof (cases err)
  case None
  obtain w0 :: vworld where w0: "g_attrib_new io True evt src \<lparr>dps = [], isds = [], dcs = [], rls = [], wls = [], user = prog_of s\<rparr> = Some w0"
    using assms(3) None by (auto simp: connect_cb_def bind_eq_Some_conv case_prod_beta)
  have "attrib_inv gatt_held w0" using new_inv [OF w0 assms(2), of gatt_held] by (simp add: gatt_held_def)
  moreover have "attrib_inv gatt_held (snd (g_attrib_register op h f g w))" if "attrib_inv gatt_held w" for op h f g and w :: vworld
    using keeps_inv [OF register_keeps [OF that]] by (cases "g_attrib_register op h f g w") auto
  ultimately have reg: "attrib_inv gatt_held (snd (g_attrib_register op h f g (snd (g_attrib_register op' h' f' g' w0))))"
    for op h f g op' h' f' g' by blast
  show ?thesis
    using assms(3) None w0 discover_services_inv [OF reg]
    by (auto simp: connect_cb_def bind_eq_Some_conv Let_def case_prod_beta session_inv_def)
next
  case (Some m)
  then show ?thesis using assms by (auto simp: connect_cb_def intro: on_prog_inv)
qed

lemma run_command_inv:
  assumes "session_inv s" "run_command env f argv s = Some s'"
  shows "session_inv s'"
proof -
  note keep = connect_inv [OF assms(1)] disconnect_inv [OF assms(1)] mtu_inv [OF assms(1)] message_inv [OF assms(1)]
    change_lane_inv [OF assms(1)] engine_lights_inv [OF assms(1)] read_inv [OF assms(1)] write_inv [OF assms(1)]
  show ?thesis
  proof (cases "f = Cmd_Help \<or> f = Cmd_Exit")
    case True
    then show ?thesis
      using assms by (auto simp: run_command_def cmd_help_def cmd_exit_def simp del: fold_simps intro!: on_prog_inv)
  next
    case False
    then show ?thesis
      using assms(2) by (cases f) (auto simp: run_command_def cmd_disconnect_def dest: keep)
  qed
qed

lemma parse_line_inv: "session_inv s \<Longrightarrow> parse_line env l s = Some s' \<Longrightarrow> session_inv s'"
  by (auto simp: parse_line_def cmd_exit_def bind_eq_Some_conv Let_def split: option.splits if_splits
      intro!: on_prog_inv intro: run_command_inv)

text \<open>What the main loop does: a line is typed, a signal arrives, the loop ends, the connection is made or fails, it
  hangs up, or one of the channel's sources is dispatched.\<close>

inductive session_step :: "env \<Rightarrow> session \<Rightarrow> session \<Rightarrow> bool" for env where
  line: "prompt_read env bad l s = Some (stay, s') \<Longrightarrow> session_step env s s'"
| signal: "signal_handler bad si t s = (stay, t', s') \<Longrightarrow> session_step env s s'"
| leave: "quit (prog_of s) \<Longrightarrow> interactive_end env s = Some s' \<Longrightarrow> session_step env s s'"
| connected: "conn_state (prog_of s) = STATE_CONNECTING \<Longrightarrow> 0 < src \<Longrightarrow> connect_cb err io evt src s = Some s' \<Longrightarrow> session_step env s s'"
| hangup: "channel_watcher env s = Some (b, s') \<Longrightarrow> session_step env s s'"
| channel: "attrib_step (gatt_client (nesting env) vehicle_client) gatt_held l w w' \<Longrightarrow>
    l \<in> {Writable bad ok, Readable bad input, Timer, Memory b} \<Longrightarrow> session_step env (Online w) (Online w')"

inductive session_reachable :: "env \<Rightarrow> session \<Rightarrow> bool" for env where
  start: "session_reachable env (interactive src dst dst_type psm)"
| step: "session_reachable env s \<Longrightarrow> session_step env s s' \<Longrightarrow> session_reachable env s'"

lemma prompt_read_inv: "session_inv s \<Longrightarrow> prompt_read env bad l s = Some (stay, s') \<Longrightarrow> session_inv s'"
  by (auto simp: prompt_read_def bind_eq_Some_conv split: if_splits option.splits intro: parse_line_inv)

lemma signal_inv: "session_inv s \<Longrightarrow> signal_handler bad si t s = (stay, t', s') \<Longrightarrow> session_inv s'"
  by (auto simp: signal_handler_def split: if_splits option.splits intro!: on_prog_inv)

lemma session_step_inv: "session_step env s s' \<Longrightarrow> session_inv s \<Longrightarrow> session_inv s'"
proof (induction rule: session_step.induct)
  case (channel l w w' bad ok input b)
  have "attrib_inv gatt_held w" using channel.prems by (simp add: session_inv_def)
  then show ?case using tool.channel.step_inv [OF channel.hyps(1)] by (simp add: session_inv_def)
qed (auto simp: channel_watcher_def interactive_end_def cmd_disconnect_def bind_eq_Some_conv
  intro: prompt_read_inv signal_inv connect_cb_inv disconnect_inv)

lemma interactive_inv: "session_inv (interactive src dst dst_type psm)"
  by (simp add: interactive_def session_inv_def Let_def)

lemma session_reachable_inv: "session_reachable env s \<Longrightarrow> session_inv s"
  by (induction rule: session_reachable.induct) (auto intro: interactive_inv session_step_inv)

text \<open>C5: In every reachable state of the tool, whatever is typed, whatever the vehicle sends and whenever the connection
  fails: the tool counts as connected only while it has a channel, so no command uses the channel before it exists or after
  it is gone; and a channel is alive, has both its queues and holds at most one outstanding request, the first,
  whose timer runs.\<close>

theorem session_invariant:
  assumes "session_reachable env s"
  shows "(conn_state (prog_of s) = STATE_CONNECTED \<longrightarrow> (\<exists>w. s = Online w)) \<and>
    (\<forall>w. s = Online w \<longrightarrow> \<not> freed w \<and> refs w > 0 \<and> responses w \<noteq> None \<and>
      (\<exists>q. requests w = Some q \<and> list_all (\<lambda>c. \<not> cmd_sent c) (tl q) \<and>
        (q \<noteq> [] \<longrightarrow> cmd_sent (hd q) \<longrightarrow> timeout_watch w > 0)))"
proof -
  have "session_inv s" by (rule session_reachable_inv [OF assms])
  then show ?thesis
    by (cases s) (auto simp: session_inv_def prog_of_def unsent_def outstanding_def elim!: attrib_invE split: list.splits)
qed

end
