(* ===== verification/Vehicle_Props.thy ===== *)
theory Vehicle_Props
  imports Vehicle_Run
begin

text \<open>
  What the tool promises: a command sends the messages it stands for to the vehicle's write characteristic,
  responses of the vehicle are reported, completions are exact, and the inputs that crash it.
\<close>

section \<open>Sending\<close>

text \<open>A channel that can send, with the requests \<open>q\<close> in its queue.\<close>

definition linked :: "('c, 's) gattrib \<Rightarrow> 'c command list \<Rightarrow> bool" where
  "linked w q \<longleftrightarrow> \<not> stale w \<and> \<not> out_of_memory w \<and> requests w = Some q \<and> length (buf w) = buflen w \<and>
     23 \<le> buflen w \<and> buflen w < 65536"

lemma wake_up_sender_memory [simp]:
  "out_of_memory (wake_up_sender w) = out_of_memory w" "buf (wake_up_sender w) = buf w" "buflen (wake_up_sender w) = buflen w"
  by (auto simp: wake_up_sender_def g_attrib_ref_def source_add_def)

lemma queue_request:
  assumes l: "linked w q" and m: "att_wf m" "length (att_wire m) \<le> buflen w" "\<not> is_response (hd (att_wire m))"
  shows "encode_into (att_encode m) w = Some (of_nat (length (att_wire m)), w\<lparr>buf := overlay (att_wire m) (buf w)\<rparr>)"
    "\<exists>c w'. g_attrib_send 0 (overlay (att_wire m) (buf w)) (of_nat (length (att_wire m))) f g (w\<lparr>buf := overlay (att_wire m) (buf w)\<rparr>)
        = Some (cmd_id c, w') \<and> linked w' (q @ [c]) \<and> client w' = client w \<and> written w' = written w \<and>
      cmd_pdu c = att_wire m \<and> cmd_func c = f \<and> cmd_notify c = g \<and> \<not> cmd_sent c"
proof -
  show "encode_into (att_encode m) w = Some (of_nat (length (att_wire m)), w\<lparr>buf := overlay (att_wire m) (buf w)\<rparr>)"
    using l m att_encode_fits [of m "buflen w" "buf w"] by (simp add: linked_def encode_into_def g_attrib_get_buffer_def)
  define b where "b = overlay (att_wire m) (buf w)"
  have len: "length b = buflen w" "unat (of_nat (length (att_wire m)) :: u16) = length (att_wire m)"
    using l m by (auto simp: b_def linked_def unat_of_nat16)
  have ne: "att_wire m \<noteq> []" by simp
  have hd: "rd b 0 = Some (hd (att_wire m))" using ne by (cases "att_wire m") (simp_all add: b_def overlay_def)
  have body: "rdn b 0 (length (att_wire m)) = Some (att_wire m)"
    using len m by (simp add: rdn_Some b_def)
  show "\<exists>c w'. g_attrib_send 0 (overlay (att_wire m) (buf w)) (of_nat (length (att_wire m))) f g (w\<lparr>buf := overlay (att_wire m) (buf w)\<rparr>)
        = Some (cmd_id c, w') \<and> linked w' (q @ [c]) \<and> client w' = client w \<and> written w' = written w \<and>
      cmd_pdu c = att_wire m \<and> cmd_func c = f \<and> cmd_notify c = g \<and> \<not> cmd_sent c"
    using l m len hd body unfolding b_def [symmetric]
    by (simp add: g_attrib_send_def linked_def Let_def del: rd_eq_Some)
qed

lemma write_request:
  assumes l: "linked w q" and n: "length v \<le> 20"
  shows "\<exists>c w'. gatt_write_char h (v @ r) (length v) f w = Some (cmd_id c, w') \<and> linked w' (q @ [c]) \<and> client w' = client w \<and>
    written w' = written w \<and> cmd_pdu c = att_wire (Write_Req h v) \<and> cmd_func c = map_option User_Fn f \<and> \<not> cmd_sent c"
proof -
  let ?m = "Write_Req h v"
  have m: "att_wf ?m" "length (att_wire ?m) \<le> buflen w" "\<not> is_response (hd (att_wire ?m))"
    using l n by (simp_all add: linked_def is_response_def)
  have "rdn (v @ r) 0 (length v) = rdn v 0 (length v)" by (simp add: rdn_def)
  then have e: "enc_write_req h (v @ r) (length v) = att_encode ?m"
    using n by (auto simp: enc_write_req_def fun_eq_iff Let_def rdn_def split: option.split cong: if_cong)
  have nz: "(of_nat (length (att_wire ?m)) :: u16) \<noteq> 0"
    using n by (simp add: word_unat_eq_iff unat_of_nat16 del: of_nat_add of_nat_Suc)
  show ?thesis
    using queue_request(1) [OF l m] queue_request(2) [OF l m, of "map_option User_Fn f" None] l n nz
    by (auto simp: gatt_write_char_def e linked_def simp del: att_wire.simps)
qed

section \<open>What a command asks for\<close>

text \<open>The messages that a command with its arguments stands for; nothing when an argument is missing or is no number
  or name.\<close>

definition channel_names :: "(string \<times> anki_vehicle_light_channel_t) list" where
  "channel_names = [(''RED'', LIGHT_RED), (''TAIL'', LIGHT_TAIL), (''BLUE'', LIGHT_BLUE), (''GREEN'', LIGHT_GREEN),
     (''FRONTL'', LIGHT_FRONTL), (''FRONTR'', LIGHT_FRONTR)]"

definition effect_names :: "(string \<times> anki_vehicle_light_effect_t) list" where
  "effect_names = [(''STEADY'', EFFECT_STEADY), (''FADE'', EFFECT_FADE), (''THROB'', EFFECT_THROB), (''FLASH'', EFFECT_FLASH),
     (''RANDOM'', EFFECT_RANDOM)]"

definition number :: "string list \<Rightarrow> nat \<Rightarrow> int option" where
  "number argv i = (if i < length argv then atoi (argv ! i) else None)"

definition named :: "(string \<times> 'a) list \<Rightarrow> string list \<Rightarrow> nat \<Rightarrow> 'a option" where
  "named names argv i = (if i < length argv then map_of names (argv ! i) else None)"

definition engine_messages :: "u8 \<Rightarrow> u8 \<Rightarrow> u8 \<Rightarrow> anki_vehicle_light_effect_t \<Rightarrow> u16 \<Rightarrow> vehicle_msg list" where
  "engine_messages r g b e cyc =
     (if e = EFFECT_STEADY
      then [LightsPattern (channel_code LIGHT_RED) (effect_code e) r r 0, LightsPattern (channel_code LIGHT_GREEN) (effect_code e) g g 0,
            LightsPattern (channel_code LIGHT_BLUE) (effect_code e) b b 0]
      else [LightsPattern (channel_code LIGHT_RED) (effect_code e) 0 r cyc, LightsPattern (channel_code LIGHT_GREEN) (effect_code e) 0 g cyc,
            LightsPattern (channel_code LIGHT_BLUE) (effect_code e) b 0 cyc])"

definition ordered :: "command_fn \<Rightarrow> string list \<Rightarrow> vehicle_msg list option" where
  "ordered f argv = (case f of
     Cmd_Ping \<Rightarrow> Some [Ping]
   | Cmd_Get_Version \<Rightarrow> Some [GetVersion]
   | Cmd_Vehicle_Disconnect \<Rightarrow> Some [Disconnect]
   | Cmd_Sdk_Mode \<Rightarrow> do { v \<leftarrow> number argv 1; Some [SdkMode (word_of_int v)] }
   | Cmd_Set_Speed \<Rightarrow> do {
       v \<leftarrow> number argv 1;
       a \<leftarrow> (if length argv > 2 then number argv 2 else Some 25000);
       Some [SetSpeed (word_of_int v) (word_of_int a)] }
   | Cmd_Change_Lane \<Rightarrow> do {
       v \<leftarrow> number argv 1;
       Some [SetOffset 0, ChangeLane (word_of_int v) (if length argv > 2 then strtof (argv ! 2) else 0x3F800000)] }
   | Cmd_Lights_Pattern \<Rightarrow> do {
       c \<leftarrow> named channel_names argv 1; e \<leftarrow> named effect_names argv 2;
       s \<leftarrow> number argv 3; t \<leftarrow> number argv 4; r \<leftarrow> number argv 5;
       Some [LightsPattern (channel_code c) (effect_code e) (word_of_int s) (word_of_int t) (word_of_int r)] }
   | Cmd_Engine_Lights \<Rightarrow> do {
       r \<leftarrow> light_level (arg argv 1); g \<leftarrow> light_level (arg argv 2); b \<leftarrow> light_level (arg argv 3);
       e \<leftarrow> named effect_names argv 4; cyc \<leftarrow> number argv 5;
       Some (engine_messages r g b e (word_of_int cyc)) }
   | _ \<Rightarrow> None)"

lemma channel_by_name: "named channel_names argv i = Some c \<Longrightarrow> get_channel_by_name (arg argv i) = Some (channel_code c)"
  by (auto simp: named_def arg_def channel_names_def get_channel_by_name_def channels_by_name_def strncmp_def split: if_splits)

lemma effect_by_name: "named effect_names argv i = Some e \<Longrightarrow> get_effect_by_name (arg argv i) = Some (effect_code e)"
  by (auto simp: named_def arg_def effect_names_def get_effect_by_name_def effects_by_name_def strncmp_def split: if_splits)

lemma code_valid [simp]: "channel_code c \<noteq> 0xff" "effect_code e \<noteq> 0xff" "effect_code e = 0 \<longleftrightarrow> e = EFFECT_STEADY"
  by (cases c; simp) (cases e; simp)+

lemma number_arg [simp]: "arg argv i \<bind> atoi = number argv i"
  by (simp add: arg_def number_def)

section \<open>Sending messages\<close>

definition sends :: "u16 \<Rightarrow> vehicle_msg list \<Rightarrow> vworld \<Rightarrow> vworld \<Rightarrow> bool" where
  "sends h ms w w' \<longleftrightarrow> (\<exists>q cs. linked w q \<and> linked w' (q @ cs) \<and> written w' = written w \<and>
     map cmd_pdu cs = map (\<lambda>m. att_wire (Write_Req h (wire m))) ms \<and> list_all (\<lambda>c. cmd_func c = None \<and> \<not> cmd_sent c) cs \<and>
     conn_state (user (client w')) = conn_state (user (client w)) \<and> vehicle (user (client w')) = vehicle (user (client w)))"

lemma sends_trans: "sends h ms w w1 \<Longrightarrow> sends h ns w1 w2 \<Longrightarrow> sends h (ms @ ns) w w2"
proof -
  have u: "linked w q \<Longrightarrow> linked w q' \<Longrightarrow> q = q'" for w :: vworld and q q' by (simp add: linked_def)
  assume "sends h ms w w1" "sends h ns w1 w2"
  then obtain q cs q' cs' where s: "linked w q" "linked w1 (q @ cs)" "linked w1 q'" "linked w2 (q' @ cs')"
    "map cmd_pdu cs = map (\<lambda>m. att_wire (Write_Req h (wire m))) ms" "map cmd_pdu cs' = map (\<lambda>m. att_wire (Write_Req h (wire m))) ns"
    "list_all (\<lambda>c. cmd_func c = None \<and> \<not> cmd_sent c) (cs @ cs')"
    "written w2 = written w" "conn_state (user (client w2)) = conn_state (user (client w))" "vehicle (user (client w2)) = vehicle (user (client w))"
    by (auto simp: sends_def)
  have "linked w2 (q @ cs @ cs')" using s(4) u [OF s(3,2)] by simp
  with s show ?thesis unfolding sends_def
    by (intro exI [of _ q] exI [of _ "cs @ cs'"]) simp
qed

lemma linked_on_user [simp]: "linked (on_user f w) q \<longleftrightarrow> linked w q"
  by (simp add: linked_def on_user_def)

lemma user_on_user [simp]: "user (client (on_user f w)) = f (user (client w))" "written (on_user f w) = written w"
  by (simp_all add: on_user_def)

lemma print_vehicle [simp]: "vehicle (rl_printf fmt args p) = vehicle p"
  by (simp add: rl_printf_def)

lemma sends_print: "linked w q \<Longrightarrow> sends h [] w (on_user (rl_printf fmt args) w)"
  unfolding sends_def by (intro exI [of _ q] exI [of _ "[]"]) simp

lemma sends_linked: "sends h ms w w' \<Longrightarrow> \<exists>q. linked w' q"
  by (auto simp: sends_def)

lemma write_msg:
  assumes "linked w q"
  shows "\<exists>n bs i w'. build m new_msg = Some (n, bs) \<and> gatt_write_char h bs (unat n) None w = Some (i, w') \<and> sends h [m] w w'"
proof -
  obtain bs where b: "build m new_msg = Some (of_nat (length (wire m)), bs)" "take (length (wire m)) bs = wire m"
    using build_wire [of "replicate 20 0" m] by (auto simp: new_msg_def)
  have n: "unat (of_nat (length (wire m)) :: u8) = length (wire m)" using wire_length(2) [of m] by (simp add: unat_of_nat8)
  have "bs = wire m @ drop (length (wire m)) bs" using b(2) by (metis append_take_drop_id)
  moreover have "length (wire m) \<le> 20" using wire_length(2) [of m] by simp
  ultimately show ?thesis
    using write_request [OF assms, of "wire m" h "drop (length (wire m)) bs" None] b(1) n assms
    by (fastforce simp: sends_def simp del: att_wire.simps)
qed

lemma send_msg_ok:
  assumes "linked w q"
  shows "\<exists>w'. send_msg (build m new_msg) w = Some w' \<and> sends (write_handle w) [m] w w'"
  using write_msg [OF assms, of m "write_handle w"] by (auto simp: send_msg_def)

lemma write_handle_sends: "sends h ms w w' \<Longrightarrow> write_handle w' = write_handle w"
  by (auto simp: sends_def write_handle_def)

text \<open>A print, then one message after another.\<close>

lemma send_after_print:
  assumes "linked w q"
  shows "\<exists>w'. send_msg (build m new_msg) (on_user (rl_printf fmt args) w) = Some w' \<and> sends (write_handle w) [m] w w'"
proof -
  have p: "linked (on_user (rl_printf fmt args) w) q" using assms by simp
  show ?thesis
    using send_msg_ok [OF p, of m] sends_trans [OF sends_print [OF assms]] write_handle_sends [OF sends_print [OF assms]] by fastforce
qed

lemma send_two:
  assumes "sends h [m] w w1" "h = write_handle w"
  shows "\<exists>w'. send_msg (build m' new_msg) w1 = Some w' \<and> sends h [m, m'] w w'"
proof -
  obtain q where q: "linked w1 q" using sends_linked [OF assms(1)] by blast
  show ?thesis
    using send_msg_ok [OF q, of m'] sends_trans [OF assms(1)] write_handle_sends [OF assms(1)] assms(2) by fastforce
qed

lemma rgb_lights:
  assumes "linked w q"
  shows "\<exists>w'. vehicle_set_rgb_lights h e sr er sg eg sb eb cyc w = Some w' \<and>
    sends h [LightsPattern (channel_code LIGHT_RED) e sr er cyc, LightsPattern (channel_code LIGHT_GREEN) e sg eg cyc,
      LightsPattern (channel_code LIGHT_BLUE) e sb eb cyc] w w'"
proof -
  obtain n1 b1 i1 w1 where w1: "anki_vehicle_msg_lights_pattern new_msg (channel_code LIGHT_RED) e sr er cyc = Some (n1, b1)"
    "gatt_write_char h b1 (unat n1) None w = Some (i1, w1)" "sends h [LightsPattern (channel_code LIGHT_RED) e sr er cyc] w w1"
    using write_msg [OF assms, of "LightsPattern (channel_code LIGHT_RED) e sr er cyc" h] unfolding build.simps by blast
  obtain q1 where "linked w1 q1" using sends_linked [OF w1(3)] by blast
  then obtain n2 b2 i2 w2 where w2: "anki_vehicle_msg_lights_pattern new_msg (channel_code LIGHT_GREEN) e sg eg cyc = Some (n2, b2)"
    "gatt_write_char h b2 (unat n2) None w1 = Some (i2, w2)" "sends h [LightsPattern (channel_code LIGHT_GREEN) e sg eg cyc] w1 w2"
    using write_msg [of w1 q1 "LightsPattern (channel_code LIGHT_GREEN) e sg eg cyc" h] unfolding build.simps by blast
  obtain q2 where "linked w2 q2" using sends_linked [OF w2(3)] by blast
  then obtain n3 b3 i3 w3 where w3: "anki_vehicle_msg_lights_pattern new_msg (channel_code LIGHT_BLUE) e sb eb cyc = Some (n3, b3)"
    "gatt_write_char h b3 (unat n3) None w2 = Some (i3, w3)" "sends h [LightsPattern (channel_code LIGHT_BLUE) e sb eb cyc] w2 w3"
    using write_msg [of w2 q2 "LightsPattern (channel_code LIGHT_BLUE) e sb eb cyc" h] unfolding build.simps by blast
  have "sends h [LightsPattern (channel_code LIGHT_RED) e sr er cyc, LightsPattern (channel_code LIGHT_GREEN) e sg eg cyc,
      LightsPattern (channel_code LIGHT_BLUE) e sb eb cyc] w w3"
    using sends_trans [OF sends_trans [OF w1(3) w2(3)] w3(3)] by simp
  moreover have "vehicle_set_rgb_lights h e sr er sg eg sb eb cyc w = Some w3"
    unfolding vehicle_set_rgb_lights_def using w1(1,2) w2(1,2) w3(1,2) by (simp del: channel_code.simps)
  ultimately show ?thesis by blast
qed

section \<open>The commands\<close>

text \<open>The words of the line include the command itself.\<close>

lemma command_sends:
  assumes l: "linked w q" "conn_state (user (client w)) = STATE_CONNECTED" and a: "argv \<noteq> []" "ordered f argv = Some ms"
  shows "\<exists>w'. run_command env f argv (Online w) = Some (Online w') \<and> sends (write_handle w) ms w w'"
proof -
  have c: "when_connected g (Online w) = map_option Online (g w)" for g using l(2) by (simp add: when_connected_def prog_of_def)
  have n: "\<not> length argv < Suc 0" using a(1) by (cases argv) auto
  show ?thesis
  proof (cases f)
    case Cmd_Ping
    then show ?thesis using a n send_msg_ok [OF l(1), of Ping] by (auto simp: ordered_def run_command_def cmd_anki_vehicle_ping_def c)
  next
    case Cmd_Get_Version
    then show ?thesis using a n send_msg_ok [OF l(1), of GetVersion] by (auto simp: ordered_def run_command_def cmd_anki_vehicle_get_version_def c)
  next
    case Cmd_Vehicle_Disconnect
    then show ?thesis using a n send_msg_ok [OF l(1), of Disconnect] by (auto simp: ordered_def run_command_def cmd_anki_vehicle_disconnect_def c)
  next
    case Cmd_Sdk_Mode
    then obtain v where v: "number argv 1 = Some v" "ms = [SdkMode (word_of_int v)]"
      using a(2) by (auto simp: ordered_def bind_eq_Some_conv)
    have "\<not> length argv < 2" using v(1) by (simp add: number_def split: if_splits)
    then show ?thesis
      using v send_msg_ok [OF l(1), of "SdkMode (word_of_int v)"] Cmd_Sdk_Mode
      by (auto simp: run_command_def cmd_anki_vehicle_sdk_mode_def c)
  next
    case Cmd_Set_Speed
    then obtain v acc where v: "number argv 1 = Some v" "(if length argv > 2 then number argv 2 else Some 25000) = Some acc"
      "ms = [SetSpeed (word_of_int v) (word_of_int acc)]"
      using a(2) by (auto simp: ordered_def bind_eq_Some_conv simp del: One_nat_def)
    have "\<not> length argv < 2" using v(1) by (simp add: number_def split: if_splits)
    then show ?thesis
      using v send_after_print [OF l(1), of "SetSpeed (word_of_int v) (word_of_int acc)"] Cmd_Set_Speed
      by (auto simp: run_command_def cmd_anki_vehicle_set_speed_def c Let_def simp del: One_nat_def)
  next
    case Cmd_Lights_Pattern
    then obtain ch e s t r where v: "named channel_names argv 1 = Some ch" "named effect_names argv 2 = Some e" "number argv 3 = Some s"
      "number argv 4 = Some t" "number argv 5 = Some r"
      "ms = [LightsPattern (channel_code ch) (effect_code e) (word_of_int s) (word_of_int t) (word_of_int r)]"
      using a(2) by (auto simp: ordered_def bind_eq_Some_conv simp del: One_nat_def)
    have "\<not> length argv < 6" using v(5) by (simp add: number_def split: if_splits)
    then show ?thesis
      using v send_msg_ok [OF l(1), of "hd ms"] Cmd_Lights_Pattern
      by (simp add: run_command_def cmd_anki_vehicle_lights_pattern_def c channel_by_name [OF v(1)] effect_by_name [OF v(2)] del: One_nat_def)
  next
    case Cmd_Change_Lane
    then obtain v where v: "number argv 1 = Some v"
      "ms = [SetOffset 0, ChangeLane (word_of_int v) (if length argv > 2 then strtof (argv ! 2) else 0x3F800000)]"
      using a(2) by (auto simp: ordered_def bind_eq_Some_conv)
    define off where "off = (if length argv > 2 then strtof (argv ! 2) else 0x3F800000)"
    have o: "(if length argv > 2 then do { a \<leftarrow> arg argv 2; Some (strtof a) } else Some 0x3F800000) = Some off"
      by (simp add: off_def arg_def)
    have "\<not> length argv < 2" using v(1) by (simp add: number_def split: if_splits)
    moreover obtain w1 where w1: "send_msg (build (SetOffset 0) new_msg) (on_user (rl_printf (nl ''changing lane at %d (offset = %1.2f)'')
        [Num (sint (word_of_int v :: u16)), Flt off]) w) = Some w1" "sends (write_handle w) [SetOffset 0] w w1"
      using send_after_print [OF l(1)] by blast
    moreover obtain w2 where "send_msg (build (ChangeLane (word_of_int v) off) new_msg) w1 = Some w2"
      "sends (write_handle w) [SetOffset 0, ChangeLane (word_of_int v) off] w w2"
      using send_two [OF w1(2) refl] by blast
    ultimately show ?thesis
      using v o Cmd_Change_Lane unfolding off_def [symmetric]
      by (simp add: run_command_def cmd_anki_vehicle_change_lane_def c Let_def del: One_nat_def)
  next
    case Cmd_Engine_Lights
    then obtain r g b e cyc where v: "light_level (arg argv 1) = Some r" "light_level (arg argv 2) = Some g"
      "light_level (arg argv 3) = Some b" "named effect_names argv 4 = Some e" "number argv 5 = Some cyc"
      "ms = engine_messages r g b e (word_of_int cyc)"
      using a(2) by (auto simp: ordered_def bind_eq_Some_conv simp del: One_nat_def)
    have len: "\<not> length argv < 5" using v(5) by (simp add: number_def split: if_splits)
    show ?thesis
    proof (cases "e = EFFECT_STEADY")
      case True
      then show ?thesis
        using v Cmd_Engine_Lights len effect_by_name [OF v(4)] rgb_lights [OF l(1), of "write_handle w" "effect_code e" r r g g b b 0]
        by (auto simp: run_command_def cmd_anki_vehicle_engine_lights_def c Let_def engine_messages_def simp del: One_nat_def channel_code.simps)
    next
      case False
      then show ?thesis
        using v Cmd_Engine_Lights len effect_by_name [OF v(4)]
          rgb_lights [OF l(1), of "write_handle w" "effect_code e" 0 r 0 g b 0 "word_of_int cyc"]
        by (auto simp: run_command_def cmd_anki_vehicle_engine_lights_def c Let_def engine_messages_def simp del: One_nat_def channel_code.simps)
    qed
  qed (use a(2) in \<open>simp_all add: ordered_def\<close>)
qed

text \<open>C1: A line typed at the prompt while the vehicle is connected sends exactly the messages it stands for: the
  word selects the command, its arguments are read as numbers, names and floats, and the channel's queue gets one
  write request to the vehicle's write characteristic for each message, in order, without a callback; the
  vehicle can read each message back from its request.\<close>

theorem commands_send:
  assumes "linked w q" "conn_state (user (client w)) = STATE_CONNECTED"
    and "g_strstrip env l \<noteq> []" "g_shell_parse_argv env (g_strstrip env l) = Some argv" "argv \<noteq> []"
    and "find (\<lambda>(cmd, _). strcasecmp cmd (argv ! 0) = 0) commands = Some (n, f, d)" "ordered f argv = Some ms"
  shows "\<exists>w' cs. parse_line env (Some l) (Online w) = Some (Online w') \<and> linked w' (q @ cs) \<and> written w' = written w \<and>
    map cmd_pdu cs = map (\<lambda>m. att_wire (Write_Req (write_handle w) (wire m))) ms \<and>
    list_all (\<lambda>c. cmd_func c = None \<and> \<not> cmd_sent c) cs \<and> map (\<lambda>c. read_msg (drop 3 (cmd_pdu c))) cs = map Some ms"
proof -
  obtain w' where w': "run_command env f argv (Online w) = Some (Online w')" "sends (write_handle w) ms w w'"
    using command_sends [OF assms(1,2,5,7)] by blast
  then obtain q' cs where cs: "linked w q'" "linked w' (q' @ cs)" "written w' = written w"
    "map cmd_pdu cs = map (\<lambda>m. att_wire (Write_Req (write_handle w) (wire m))) ms" "list_all (\<lambda>c. cmd_func c = None \<and> \<not> cmd_sent c) cs"
    unfolding sends_def by blast
  have "map (\<lambda>c. read_msg (drop 3 (cmd_pdu c))) cs = map (\<lambda>p. read_msg (drop 3 p)) (map cmd_pdu cs)" by simp
  also have "\<dots> = map Some ms" unfolding cs(4) by (simp add: read_msg_wire)
  finally have "map (\<lambda>c. read_msg (drop 3 (cmd_pdu c))) cs = map Some ms" .
  moreover have "parse_line env (Some l) (Online w) = Some (Online w')"
    using assms(3-6) w'(1) by (simp add: parse_line_def arg_def)
  moreover have "q' = q" using assms(1) cs(1) by (simp add: linked_def)
  ultimately show ?thesis using cs by blast
qed

section \<open>Notifications\<close>

text \<open>C23: What the vehicle notifies is reported faithfully: a version response that arrives on the vehicle's read
  characteristic is printed with its version and a ping response as such; a notification of another handle, or one
  longer than any message, is reported as an error; nothing else of the program changes.\<close>

theorem notification_reported:
  assumes "2 \<le> length d" "length d \<le> 509" "d ! 1 = id_code V2C_VERSION_RESPONSE \<longrightarrow> 4 \<le> length d"
    and "pdu = att_wire (Notification h d)"
  shows "vehicle_client (Att_Cb (Event_Call Events_Handler (padded pdu) (length pdu))) w = Some (on_user
    (if h \<noteq> chr_value_handle (read_char (vehicle (user (client w))))
     then error (nl ''Invalid vehicle read handle: 0x%04x'') [Num (uint h)]
     else if 20 < length d then error (nl ''Invalid vehicle response'') []
     else if d ! 1 = id_code V2C_PING_RESPONSE then rl_printf (nl ''[read] PING_RESPONSE'') []
     else if d ! 1 = id_code V2C_VERSION_RESPONSE
     then rl_printf (nl ''[read] VERSION_RESPONSE: 0x%04x'') [Num (uint (of_le16 (d ! 2) (d ! 3)))]
     else id) w)"
proof -
  have p: "padded pdu = 0x1b # le16 h @ d @ replicate (509 - length d) 0" using assms by (simp add: padded_def)
  then have h: "att_get_u16 (padded pdu) 1 = Some h" "rd (padded pdu) 0 = Some 0x1b"
    by (simp_all add: att_get_u16_def le16_def rd_def of_le16_bytes)
  have dr: "drop 3 (padded pdu) = d @ replicate (509 - length d) 0" using p by (simp add: le16_def)
  have u: "unat (of_nat (length pdu) - 3 :: u16) = length d" using assms by (simp add: unat_of_nat16)
  have r: "rd (drop 3 (padded pdu)) 1 = Some (d ! 1)" using assms(1) unfolding dr by (simp add: rd_def nth_append)
  have v: "d ! 1 = id_code V2C_VERSION_RESPONSE \<Longrightarrow> att_get_u16 (drop 3 (padded pdu)) 2 = Some (of_le16 (d ! 2) (d ! 3))"
    using assms(3) unfolding dr by (simp add: rd_def att_get_u16_def nth_append)
  have "handle_vehicle_msg_response (drop 3 (padded pdu)) (of_nat (length pdu) - 3) p = Some
    ((if 20 < length d then error (nl ''Invalid vehicle response'') []
      else if d ! 1 = id_code V2C_PING_RESPONSE then rl_printf (nl ''[read] PING_RESPONSE'') []
      else if d ! 1 = id_code V2C_VERSION_RESPONSE
      then rl_printf (nl ''[read] VERSION_RESPONSE: 0x%04x'') [Num (uint (of_le16 (d ! 2) (d ! 3)))]
      else id) p)" for p
    using r v unfolding handle_vehicle_msg_response_def u by (auto simp del: rd_eq_Some One_nat_def)
  then show ?thesis
    using h by (simp add: vehicle_client_def run_user_def events_handler_def on_user_def on_client_def del: rd_eq_Some One_nat_def)
qed

section \<open>Connecting\<close>

lemma service_uuid_text: "bt_string_to_uuid u ANKI_STR_SERVICE_UUID = (0, BT_UUID128 ANKI_SERVICE_UUID_LE)"
  by (simp add: ANKI_STR_SERVICE_UUID_def ANKI_SERVICE_UUID_LE_def uuid_text_eval)

lemma discover_service_request:
  assumes l: "linked w q" and s: "conn_state (user (client w)) = STATE_CONNECTED"
  shows "\<exists>c w'. discover_services w = Some w' \<and> linked w' (q @ [c]) \<and> user (client w') = user (client w) \<and> written w' = written w \<and>
    cmd_pdu c = att_wire (Find_By_Type_Req 1 0xFFFF GATT_PRIM_SVC_UUID ANKI_SERVICE_UUID_LE) \<and> events w' = events w \<and>
    cmd_func c = Some (Primary_By_Uuid_Cb (length (dps (client w)))) \<and>
    dps (client w') = dps (client w) @ [Some \<lparr>dp_uuid = BT_UUID128 ANKI_SERVICE_UUID_LE, dp_primaries = [], dp_cb = Discover_Services_Cb\<rparr>]"
proof -
  let ?m = "Find_By_Type_Req 1 0xFFFF GATT_PRIM_SVC_UUID ANKI_SERVICE_UUID_LE"
  let ?dp = "\<lparr>dp_uuid = BT_UUID128 ANKI_SERVICE_UUID_LE, dp_primaries = [], dp_cb = Discover_Services_Cb\<rparr>"
  define b where "b = overlay (att_wire ?m) (buf w)"
  define u where "u = on_client (\<lambda>s. s\<lparr>dps := dps s @ [Some ?dp]\<rparr>) (g_attrib_ref w)"
  have lu: "linked u q" using l by (simp add: u_def linked_def g_attrib_ref_def)
  have m: "att_wf ?m" "length (att_wire ?m) \<le> buflen w" "\<not> is_response (hd (att_wire ?m))"
    using l by (simp_all add: linked_def is_response_def)
  have e: "encode_into (encode_discover_primary 1 0xFFFF (Some (BT_UUID128 ANKI_SERVICE_UUID_LE))) w =
      Some (of_nat (length (att_wire ?m)), w\<lparr>buf := b\<rparr>)"
    using queue_request(1) [OF l m] by (simp add: encode_discover_primary_def bt_uuid16_create_def b_def encode_into_def del: att_wire.simps)
  have f: "on_client (\<lambda>s. s\<lparr>dps := dps s @ [Some ?dp]\<rparr>) (g_attrib_ref (w\<lparr>buf := b\<rparr>)) = u\<lparr>buf := b\<rparr>"
    by (simp add: u_def on_client_def g_attrib_ref_def)
  have bu: "buf u = buf w" "buflen u = buflen w" "events u = events w" by (simp_all add: u_def g_attrib_ref_def)
  obtain c w' where c: "g_attrib_send 0 b (of_nat (length (att_wire ?m))) (Some (Primary_By_Uuid_Cb (length (dps (client w))))) None (u\<lparr>buf := b\<rparr>)
      = Some (cmd_id c, w')" "linked w' (q @ [c])" "client w' = client u" "written w' = written u" "cmd_pdu c = att_wire ?m"
      "cmd_func c = Some (Primary_By_Uuid_Cb (length (dps (client w))))"
    using queue_request(2) [OF lu, of ?m "Some (Primary_By_Uuid_Cb (length (dps (client w))))" None] m unfolding bu b_def by auto
  have ev: "events w' = events u"
    using c(1) by (auto elim!: send_cases split: if_splits)
  have "\<not> out_of_memory w" using l by (simp add: linked_def)
  then have "discover_services w = Some w'"
    using s c(1) f by (simp add: discover_services_def service_uuid_text gatt_discover_primary_def e Let_def is_response_def
        del: att_wire.simps) (simp add: on_client_def g_attrib_ref_def)
  then show ?thesis using c ev bu by (auto simp: u_def g_attrib_ref_def simp del: att_wire.simps)
qed

lemma quiet_on_user:
  assumes "quiet gatt_held w"
  shows "quiet gatt_held (on_user f w)"
proof -
  have "attrib_inv gatt_held (on_user f w)"
    using assms keeps_inv [OF on_user_keeps [OF keeps_refl]] by (simp add: quiet_def)
  then show ?thesis using assms by (simp add: quiet_def ready_def deaf_def on_user_def)
qed

lemma connected_world:
  assumes "iochannel (prog_of s) = Some ch" "cid = ATT_CID \<or> 23 \<le> imtu"
  shows "\<exists>w. connect_cb None (Some (imtu, cid)) evt src s = map_option Online (discover_services w) \<and> linked w [] \<and>
    quiet gatt_held w \<and> written w = [] \<and> dcs (client w) = [] \<and>
    conn_state (user (client w)) = STATE_CONNECTED \<and> vehicle (user (client w)) = vehicle (prog_of s) \<and> dps (client w) = [] \<and>
    map (\<lambda>e. (evt_expected e, evt_handle e, evt_func e)) (events w) =
      [(ATT_OP_HANDLE_NOTIFY, 0, User_Fn Events_Handler), (ATT_OP_HANDLE_IND, 0, User_Fn Events_Handler)]"
proof -
  define n where "n = (if cid = ATT_CID then ATT_DEFAULT_LE_MTU else unat imtu)"
  have n: "23 \<le> n" "n < 65536" using assms(2) by (auto simp: n_def word_le_nat_alt)
  obtain w0 :: vworld where w0: "g_attrib_new (Some (imtu, cid)) True evt src
      \<lparr>dps = [], isds = [], dcs = [], rls = [], wls = [], user = prog_of s\<rparr> = Some w0"
    "linked w0 []" "events w0 = []" "client w0 = \<lparr>dps = [], isds = [], dcs = [], rls = [], wls = [], user = prog_of s\<rparr>"
    "quiet gatt_held w0" "written w0 = []"
    using n by (simp add: g_attrib_new_def n_def [symmetric] Let_def linked_def g_attrib_ref_def quiet_def ready_def
      attrib_inv_def queues_ok_def gatt_held_def unsent_def)
  define w1 where "w1 = snd (g_attrib_register ATT_OP_HANDLE_IND 0 (User_Fn Events_Handler) None
      (snd (g_attrib_register ATT_OP_HANDLE_NOTIFY 0 (User_Fn Events_Handler) None w0)))"
  have w1: "linked w1 []" "client w1 = client w0" "map (\<lambda>e. (evt_expected e, evt_handle e, evt_func e)) (events w1) =
      [(ATT_OP_HANDLE_NOTIFY, 0, User_Fn Events_Handler), (ATT_OP_HANDLE_IND, 0, User_Fn Events_Handler)]"
    "quiet gatt_held w1" "written w1 = []"
    using w0 by (simp_all add: w1_def g_attrib_register_def linked_def Let_def quiet_def ready_def deaf_def is_response_def
      attrib_inv_def queues_ok_def)
  define w2 where "w2 = on_user (rl_printf (nl ''Connection successful'') [] \<circ> set_state STATE_CONNECTED) w1"
  have w2: "linked w2 []" "conn_state (user (client w2)) = STATE_CONNECTED" "vehicle (user (client w2)) = vehicle (prog_of s)"
    "events w2 = events w1" "dps (client w2) = []" "dcs (client w2) = []" "quiet gatt_held w2" "written w2 = []"
    using w1 w0 by (simp_all add: w2_def quiet_on_user) (simp_all add: on_user_def set_state_def Let_def)
  have "connect_cb None (Some (imtu, cid)) evt src s = map_option Online (discover_services w2)"
    using assms(1) w0(1) by (simp add: connect_cb_def w2_def w1_def case_prod_beta Let_def map_option_bind bind_map_option)
      (cases "discover_services w2"; simp add: w2_def w1_def)
  then show ?thesis using w2 w1(3) by auto
qed

text \<open>When the connection is made the tool has a channel with the handler for notifications and indications registered, and its
  first request asks the vehicle for its service: a search by type and value for the service UUID of the text constant,
  over all handles, whose answer goes to the discovery that continues with the characteristics.\<close>

theorem connection_starts_discovery:
  assumes "iochannel (prog_of s) = Some ch" "cid = ATT_CID \<or> 23 \<le> imtu"
  shows "\<exists>w c. connect_cb None (Some (imtu, cid)) evt src s = Some (Online w) \<and> linked w [c] \<and>
    cmd_pdu c = att_wire (Find_By_Type_Req 1 0xFFFF GATT_PRIM_SVC_UUID ANKI_SERVICE_UUID_LE) \<and>
    cmd_func c = Some (Primary_By_Uuid_Cb 0) \<and> map_option dp_cb (cell (dps (client w)) 0) = Some Discover_Services_Cb \<and>
    map (\<lambda>e. (evt_expected e, evt_handle e, evt_func e)) (events w) =
      [(ATT_OP_HANDLE_NOTIFY, 0, User_Fn Events_Handler), (ATT_OP_HANDLE_IND, 0, User_Fn Events_Handler)] \<and>
    conn_state (user (client w)) = STATE_CONNECTED \<and> vehicle (user (client w)) = vehicle (prog_of s)"
proof -
  obtain w where w: "connect_cb None (Some (imtu, cid)) evt src s = map_option Online (discover_services w)" "linked w []"
    "conn_state (user (client w)) = STATE_CONNECTED" "vehicle (user (client w)) = vehicle (prog_of s)" "dps (client w) = []"
    "map (\<lambda>e. (evt_expected e, evt_handle e, evt_func e)) (events w) =
      [(ATT_OP_HANDLE_NOTIFY, 0, User_Fn Events_Handler), (ATT_OP_HANDLE_IND, 0, User_Fn Events_Handler)]"
    using connected_world [OF assms, of evt src] by (elim exE conjE) (rule that)
  obtain c w' where c: "discover_services w = Some w'" "linked w' ([] @ [c])" "user (client w') = user (client w)"
    "cmd_pdu c = att_wire (Find_By_Type_Req 1 0xFFFF GATT_PRIM_SVC_UUID ANKI_SERVICE_UUID_LE)" "events w' = events w"
    "cmd_func c = Some (Primary_By_Uuid_Cb (length (dps (client w))))"
    "dps (client w') = dps (client w) @ [Some \<lparr>dp_uuid = BT_UUID128 ANKI_SERVICE_UUID_LE, dp_primaries = [], dp_cb = Discover_Services_Cb\<rparr>]"
    using discover_service_request [OF w(2,3)] by blast
  show ?thesis
    by (rule exI [of _ w'], rule exI [of _ c]) (use w c in \<open>simp add: cell_def del: att_wire.simps\<close>)
qed

end
