(* ===== verification/Vehicle_Faults.thy ===== *)
theory Vehicle_Faults
  imports Vehicle_Props
begin

text \<open>
  The completion of command names, and what the tool does with input that nobody checked: names of lights that do not
  exist, a missing argument, an MTU that is too small, the handle that switches notifications on.
\<close>

section \<open>Completion\<close>

text \<open>What readline gets that calls the generator until it returns NULL, at most \<open>n\<close> times.\<close>

fun completions :: "nat \<Rightarrow> string \<Rightarrow> bool \<Rightarrow> nat \<times> nat \<Rightarrow> string list" where
  "completions 0 text first st = []"
| "completions (Suc n) text first st = (case completion_generator text first st of
     (None, _) \<Rightarrow> []
   | (Some c, st) \<Rightarrow> c # completions n text False st)"

definition command_names :: "string list" where
  "command_names = map fst commands"

lemma strncmp_prefix: "strncmp c text (length text) = 0 \<longleftrightarrow> take (length text) c = text"
  by (simp add: strncmp_def)

lemma filter_dropWhile: "filter P xs = filter P (dropWhile (\<lambda>x. \<not> P x) xs)"
  by (induction xs) auto

lemma filter_next:
  fixes P :: "'a \<Rightarrow> bool"
  defines "j \<equiv> \<lambda>i xs. i + length (takeWhile (\<lambda>x. \<not> P x) (drop i xs))"
  shows "filter P (drop i xs) = (if j i xs < length xs then xs ! j i xs # filter P (drop (Suc (j i xs)) xs) else [])"
proof -
  have d: "dropWhile (\<lambda>x. \<not> P x) (drop i xs) = drop (j i xs) xs"
    by (simp add: dropWhile_eq_drop j_def add.commute)
  have f: "filter P (drop i xs) = filter P (drop (j i xs) xs)"
    using filter_dropWhile [of P "drop i xs"] unfolding d .
  show ?thesis
  proof (cases "j i xs < length xs")
    case True
    then have "P (xs ! j i xs)"
      using hd_dropWhile [of "\<lambda>x. \<not> P x" "drop i xs"] unfolding d by (simp add: hd_drop_conv_nth)
    then show ?thesis using True f by (simp add: Cons_nth_drop_Suc [symmetric])
  qed (simp add: f)
qed

lemma completions_from:
  assumes "length commands - i < n" "if first then i = 0 else st = (i, length text)"
  shows "completions n text first st = filter (\<lambda>c. take (length text) c = text) (map fst (drop i commands))"
  using assms
proof (induction n arbitrary: i first st)
  case (Suc n)
  define j where "j = i + length (takeWhile (\<lambda>c. \<not> take (length text) (fst c) = text) (drop i commands))"
  have i: "(if first then (0, length text) else st) = (i, length text)" using Suc.prems(2) by auto
  have g: "completion_generator text first st =
      (if j < length commands then (Some (fst (commands ! j)), Suc j, length text) else (None, j, length text))"
    unfolding completion_generator_def i j_def by (simp add: strncmp_prefix case_prod_unfold Let_def)
  have f: "filter (\<lambda>c. take (length text) (fst c) = text) (drop i commands) =
      (if j < length commands then commands ! j # filter (\<lambda>c. take (length text) (fst c) = text) (drop (Suc j) commands) else [])"
    using filter_next [of "\<lambda>c. take (length text) (fst c) = text" i commands] by (simp add: j_def)
  show ?case
  proof (cases "j < length commands")
    case True
    then have "length commands - Suc j < n" using Suc.prems(1) by (simp add: j_def)
    then show ?thesis using True g f Suc.IH [of "Suc j" False "(Suc j, length text)"] by (simp add: filter_map comp_def)
  qed (use g f in \<open>simp add: filter_map comp_def\<close>)
qed simp

text \<open>C25: Completion is exact: the calls of the generator, from the first until it returns NULL, give exactly the names of the
  table that start with the text, each once, in the order of the table.\<close>

theorem completion_exact:
  "completions (Suc (length commands)) text True st = filter (\<lambda>c. take (length text) c = text) command_names"
  using completions_from [of 0 "Suc (length commands)" True st "text"] by (simp add: command_names_def)

section \<open>Names of lights\<close>

lemma strncmp_short: "length a < n \<Longrightarrow> length b < n \<Longrightarrow> strncmp a b n = 0 \<longleftrightarrow> a = b"
  by (simp add: strncmp_def)

lemma channel_loop_end:
  "length name < 256 \<Longrightarrow> list_all (\<lambda>c. length c < 256 \<and> c \<noteq> name) cs \<Longrightarrow> channel_loop name (map Some cs @ [None]) i = None"
  by (induction cs arbitrary: i) (auto simp: strncmp_def unat_of_nat8 max_def)

lemma effect_loop_end:
  "list_all (\<lambda>e. length e < 8 \<and> e \<noteq> name) es \<Longrightarrow> effect_loop name (map Some es @ [None]) i = None"
proof (induction es arbitrary: i)
  case (Cons e es)
  then have "take 8 name \<noteq> e" by (cases "length name < 8") auto
  then show ?case using Cons by (auto simp: strncmp_def)
qed simp

lemma tables: "channels_by_name = map Some (map fst channel_names) @ [None]" "effects_by_name = map Some (map fst effect_names) @ [None]"
  by (simp_all add: channels_by_name_def channel_names_def effects_by_name_def effect_names_def)

lemma name_lengths: "list_all (\<lambda>c. length c < 8) (map fst channel_names)" "list_all (\<lambda>c. length c < 8) (map fst effect_names)"
  by (simp_all add: channel_names_def effect_names_def)

lemma not_named: "named names argv i = None \<Longrightarrow> i < length argv \<Longrightarrow> list_all (\<lambda>c. c \<noteq> argv ! i) (map fst names)"
  by (force simp: named_def map_of_eq_None_iff list_all_iff)

lemma unknown_channel:
  assumes "named channel_names argv i = None" "i < length argv" "length (argv ! i) < 256"
  shows "get_channel_by_name (arg argv i) = None"
proof -
  have "list_all (\<lambda>c. length c < 256 \<and> c \<noteq> argv ! i) (map fst channel_names)"
    using name_lengths(1) not_named [OF assms(1,2)] by (fastforce simp: list_all_iff)
  then show ?thesis
    using channel_loop_end [OF assms(3)] assms(2) by (simp add: arg_def get_channel_by_name_def tables del: map_map)
qed

lemma unknown_effect:
  assumes "named effect_names argv i = None" "i < length argv"
  shows "get_effect_by_name (arg argv i) = None"
proof -
  have "list_all (\<lambda>c. length c < 8 \<and> c \<noteq> argv ! i) (map fst effect_names)"
    using name_lengths(2) not_named [OF assms] by (auto simp: list_all_iff)
  then show ?thesis
    using effect_loop_end assms(2) by (simp add: arg_def get_effect_by_name_def tables del: map_map)
qed

text \<open>C33: A misspelt light crashes the tool instead of being reported: both loops that look a name up run into the NULL that
  ends their table, so the command that sets a light pattern faults for every channel or effect that is not in
  the table, and the messages for unknown names are never printed. The command for the engine lights accepts
  five words although it needs six, and faults on the missing one.\<close>

theorem light_commands_fault:
  assumes "conn_state (user (client w)) = STATE_CONNECTED"
  shows "(6 \<le> length argv \<and> length (argv ! 1) < 256 \<and> (named channel_names argv 1 = None \<or> named effect_names argv 2 = None) \<longrightarrow>
      run_command env Cmd_Lights_Pattern argv (Online w) = None) \<and>
    (length argv = 5 \<longrightarrow> run_command env Cmd_Engine_Lights argv (Online w) = None)"
proof -
  have c: "when_connected g (Online w) = map_option Online (g w)" for g using assms by (simp add: when_connected_def prog_of_def)
  have "run_command env Cmd_Engine_Lights argv (Online w) = None" if "length argv = 5"
    using that by (auto simp: run_command_def cmd_anki_vehicle_engine_lights_def c number_def Option.bind_eq_None_conv)
  moreover have "run_command env Cmd_Lights_Pattern argv (Online w) = None"
    if l: "6 \<le> length argv" "length (argv ! 1) < 256" and n: "named channel_names argv 1 = None \<or> named effect_names argv 2 = None"
  proof (cases "named channel_names argv 1")
    case None
    then have "get_channel_by_name (arg argv 1) = None" using l by (intro unknown_channel) simp_all
    then show ?thesis using l(1) by (simp add: run_command_def cmd_anki_vehicle_lights_pattern_def c)
  next
    case (Some ch)
    then have "get_effect_by_name (arg argv 2) = None" using n l(1) by (intro unknown_effect) simp_all
    then show ?thesis
      using l(1) channel_by_name [OF Some] by (simp add: run_command_def cmd_anki_vehicle_lights_pattern_def c)
  qed
  ultimately show ?thesis by blast
qed

section \<open>The exchange of the MTU\<close>

text \<open>A rejected MTU cannot be corrected: after a value below the minimum the tool reports the error but keeps the value
  as the one in use, so that every later attempt on this connection, with any argument, is refused as a second
  exchange, and nothing is ever sent.\<close>

theorem mtu_stuck:
  assumes "conn_state (user (client w)) = STATE_CONNECTED" "opt_psm (user (client w)) = 0" "opt_mtu (user (client w)) = 0"
    and "2 \<le> length argv" "strtoll 0 (argv ! 1) = (False, v, r)" "to_int v \<noteq> 0" "to_int v < 23" "2 \<le> length argv'"
  shows "\<exists>w'. run_command env Cmd_Mtu argv (Online w) = Some (Online w') \<and> requests w' = requests w \<and>
    screen (user (client w')) = screen (user (client w)) @
      [(COLOR_RED @ ''Error: '' @ COLOR_OFF @ nl ''Invalid value. Minimum MTU size is %d'', [Num 23])] \<and>
    run_command env Cmd_Mtu argv' (Online w') =
      Some (Online (on_user (failed (nl ''MTU exchange can only occur once per connection.'') []) w'))"
proof -
  define w' where "w' = on_user (error (nl ''Invalid value. Minimum MTU size is %d'') [Num 23] \<circ> (\<lambda>p. p\<lparr>opt_mtu := to_int v\<rparr>)) w"
  have a: "arg argv 1 = Some (argv ! 1)" using assms(4) by (simp add: arg_def)
  have "run_command env Cmd_Mtu argv (Online w) = Some (Online w')"
    using assms a by (simp add: run_command_def cmd_mtu_def when_connected_def prog_of_def w'_def Let_def on_user_def on_client_def)
  moreover have "run_command env Cmd_Mtu argv' (Online w') =
      Some (Online (on_user (failed (nl ''MTU exchange can only occur once per connection.'') []) w'))"
    using assms by (simp add: run_command_def cmd_mtu_def when_connected_def prog_of_def w'_def Let_def error_def rl_printf_def)
  moreover have "requests w' = requests w" by (simp add: w'_def on_user_def)
  moreover have "screen (user (client w')) = screen (user (client w)) @
      [(COLOR_RED @ ''Error: '' @ COLOR_OFF @ nl ''Invalid value. Minimum MTU size is %d'', [Num 23])]"
    by (simp add: w'_def error_def rl_printf_def)
  ultimately show ?thesis by blast
qed

section \<open>Switching the notifications on\<close>

lemma queue_write_cmd:
  assumes "linked w q" "length v \<le> 20"
  shows "\<exists>c w'. gatt_write_cmd h v (int (length v)) None w = Some (cmd_id c, w') \<and> linked w' (q @ [c]) \<and> client w' = client w \<and>
    written w' = written w \<and>
    cmd_pdu c = att_wire (Write_Cmd h v)"
proof -
  have m: "att_wf (Write_Cmd h v)" "length (att_wire (Write_Cmd h v)) \<le> buflen w" "\<not> is_response (hd (att_wire (Write_Cmd h v)))"
    using assms by (simp_all add: linked_def is_response_def)
  have "nat (int (length v) mod 2 ^ 64) = length v" using assms(2) by simp
  then have e: "encode_into (enc_write_cmd h v (nat (int (length v) mod 2 ^ 64))) w =
      Some (of_nat (length (att_wire (Write_Cmd h v))), w\<lparr>buf := overlay (att_wire (Write_Cmd h v)) (buf w)\<rparr>)"
    using queue_request(1) [OF assms(1) m] by simp
  show ?thesis
    using queue_request(2) [OF assms(1) m, of None None] e by (auto simp: gatt_write_cmd_def simp del: att_wire.simps)
qed

text \<open>The tool switches notifications on with the wrong handle: when discovery has found both characteristics, the
  request that should write to the configuration descriptor of the vehicle's characteristic is addressed to the
  handle whose number is the property bits of the write characteristic.\<close>

theorem notifications_wrong_handle:
  assumes "linked w q" "take_chars items (user (client w)) = Some p"
    "chr_handle (read_char (vehicle p)) > 0" "chr_handle (write_char (vehicle p)) > 0"
  shows "\<exists>c w'. discover_char_cb items 0 w = Some w' \<and> user (client w') = p \<and> linked w' (q @ [c]) \<and>
    cmd_pdu c = att_wire (Write_Cmd (ucast (chr_properties (write_char (vehicle p)))) [0x01, 0x00])"
proof -
  have l: "linked (on_user (\<lambda>_. p) w) q" using assms(1) by simp
  show ?thesis
    using queue_write_cmd [OF l, of "[0x01, 0x00]" "ucast (chr_properties (write_char (vehicle p)))"] assms
    by (auto simp: discover_char_cb_def Let_def simp del: att_wire.simps)
qed

end
