(* ===== verification/Vehicle_Examples.thy ===== *)
theory Vehicle_Examples
  imports Vehicle_Faults
begin

text \<open>
  A concrete session, from the start of the tool to a connected vehicle, and the properties of the tool at it.
\<close>

text \<open>The words of a line between blanks, as \<open>g_shell_parse_argv\<close> returns them for lines without quotes.\<close>

fun split_words :: "string \<Rightarrow> string \<Rightarrow> string list" where
  "split_words [] acc = (if acc = [] then [] else [acc])"
| "split_words (c # s) acc = (if c = CHR '' '' then (if acc = [] then [] else [acc]) @ split_words s [] else split_words s (acc @ [c]))"

definition sample_env :: env where
  "sample_env = \<lparr>str2ba = (\<lambda>s. replicate 6 0), hci_devba = (\<lambda>i. Some (replicate 6 0)), bt_io_connect = (\<lambda>opts. Inr 7),
     g_strstrip = (\<lambda>s. s), g_shell_parse_argv = (\<lambda>l. Some (split_words l [])), nesting = 3\<rparr>"

definition sample_chars :: anki_vehicle where
  "sample_chars = \<lparr>read_char = no_char\<lparr>chr_handle := 0x0D, chr_properties := 0x12, chr_value_handle := 0x0E\<rparr>,
     write_char = no_char\<lparr>chr_handle := 0x10, chr_properties := 0x0C, chr_value_handle := 0x11\<rparr>\<rparr>"

definition sample_prog :: prog where
  "sample_prog = set_state STATE_CONNECTED ((prog_of (interactive None (Some ''vehicle'') None 0))\<lparr>vehicle := sample_chars, iochannel := Some 7\<rparr>)"

definition sample_link :: vworld where
  "sample_link = the (g_attrib_new (Some (23, 4)) True 0 1 \<lparr>dps = [], isds = [], dcs = [], rls = [], wls = [], user = sample_prog\<rparr>)"

lemma sample_link_simps [simp]:
  "user (client sample_link) = sample_prog" "linked sample_link []" "written sample_link = []"
  by (simp_all add: sample_link_def g_attrib_new_def g_attrib_ref_def linked_def)

lemma sample_prog_simps [simp]:
  "conn_state sample_prog = STATE_CONNECTED" "opt_psm sample_prog = 0" "opt_mtu sample_prog = 0" "vehicle sample_prog = sample_chars"
  by (simp_all add: sample_prog_def interactive_def prog_of_def Let_def set_state_def)

lemma sample_words [simp]: "g_shell_parse_argv sample_env l = Some (split_words l [])" "g_strstrip sample_env l = l"
  by (simp_all add: sample_env_def)

lemma sample_line: "split_words ''set-speed 300 -5'' [] = [''set-speed'', ''300'', ''-5'']"
  by simp

lemma sample_find: "find (\<lambda>(cmd, _). strcasecmp cmd ([''set-speed'', ''300'', ''-5''] ! 0) = 0) commands =
  Some (''set-speed'', Cmd_Set_Speed, ''<speed> <accel>'', ''Set vehicle Speed (mm/sec) with acceleration (mm/sec^2)'')"
  by code_simp

lemma sample_order: "ordered Cmd_Set_Speed [''set-speed'', ''300'', ''-5''] = Some [SetSpeed 300 0xFFFB]"
  by (simp add: ordered_def number_def atoi_def strtoll_def sign_split_def is_space_def is_digit_def hex_val_def digits_to_nat_def Let_def)

lemma sample_le16 [simp]: "le16 0x11 = [0x11, 0]" "le16 300 = [0x2C, 1]" "le16 0xFFFB = [0xFB, 0xFF]" "le16 0x0C = [0x0C, 0]"
  "le16 0x0E = [0x0E, 0]" "le16 0x2000 = [0, 0x20]" "le16 1 = [1, 0]" "le16 0xFFFF = [0xFF, 0xFF]" "le16 0x2800 = [0, 0x28]"
  by (simp_all add: le16_def)

lemma commands_send_witness:
  "\<exists>w' cs. parse_line sample_env (Some ''set-speed 300 -5'') (Online sample_link) = Some (Online w') \<and> linked w' cs \<and>
    map cmd_pdu cs = [[0x12, 0x11, 0, 6, 0x24, 0x2C, 1, 0xFB, 0xFF, 0]]"
  using commands_send [of sample_link "[]" sample_env "''set-speed 300 -5''", OF _ _ _ _ _ sample_find sample_order]
  by (auto simp: sample_line write_handle_def sample_chars_def layouts intro!: exI [of _ "[_]"])

lemma notification_reported_witness:
  "vehicle_client (Att_Cb (Event_Call Events_Handler (padded [0x1B, 0x0E, 0, 3, 0x19, 0, 0x20]) 7)) sample_link =
    Some (on_user (rl_printf (nl ''[read] VERSION_RESPONSE: 0x%04x'') [Num 0x2000]) sample_link)"
  using notification_reported [of "[3, 0x19, 0, 0x20]" "[0x1B, 0x0E, 0, 3, 0x19, 0, 0x20]" "0x0E" sample_link]
  by (simp add: sample_chars_def of_le16_def) (simp add: eval_nat_numeral)

lemma light_commands_fault_witness:
  "run_command sample_env Cmd_Lights_Pattern (split_words ''set-lights-pattern PINK FADE 0 10 30'' []) (Online sample_link) = None \<and>
   run_command sample_env Cmd_Engine_Lights (split_words ''set-engine-lights 1 0 0.5 THROB'' []) (Online sample_link) = None"
  using light_commands_fault [of sample_link "split_words ''set-lights-pattern PINK FADE 0 10 30'' []" sample_env]
    light_commands_fault [of sample_link "split_words ''set-engine-lights 1 0 0.5 THROB'' []" sample_env]
  by (simp add: named_def channel_names_def)

lemma mtu_stuck_witness:
  "\<exists>w'. run_command sample_env Cmd_Mtu [''mtu'', ''10''] (Online sample_link) = Some (Online w') \<and>
    run_command sample_env Cmd_Mtu [''mtu'', ''100''] (Online w') =
      Some (Online (on_user (failed (nl ''MTU exchange can only occur once per connection.'') []) w'))"
proof -
  have n: "strtoll 0 ([''mtu'', ''10''] ! 1) = (False, 10, [])"
    by (simp add: strtoll_def sign_split_def is_space_def is_digit_def hex_val_def digits_to_nat_def has_hex_prefix_def Let_def)
  have "to_int 10 = 10" by (simp add: to_int_def)
  then show ?thesis
    using mtu_stuck [of sample_link "[''mtu'', ''10'']" 10 "[]" "[''mtu'', ''100'']" sample_env] n by auto
qed

lemma notifications_wrong_handle_witness:
  "\<exists>c w'. discover_char_cb [Characteristic (no_char\<lparr>chr_handle := 0x20\<rparr>)] 0 sample_link = Some w' \<and> linked w' [c] \<and>
    cmd_pdu c = [0x52, 0x0C, 0, 1, 0]"
proof -
  have "take_char (no_char\<lparr>chr_handle := 0x20\<rparr>) sample_prog = sample_prog"
    by (simp add: take_char_def is_char_def no_char_def c_str_def strncasecmp_def strcasecmp_def Anki_Uuid.ANKI_STR_CHR_READ_UUID_def
        ANKI_STR_CHR_WRITE_UUID_def)
  then show ?thesis
    using notifications_wrong_handle [of sample_link "[]" "[Characteristic (no_char\<lparr>chr_handle := 0x20\<rparr>)]" sample_prog]
    by (auto simp: sample_chars_def)
qed

text \<open>Typing an address brings the tool to a connection in progress.\<close>

definition sample_connecting :: session where
  "sample_connecting = the (parse_line sample_env (Some ''connect vehicle'') (interactive None None None 0))"

lemma sample_connecting:
  "iochannel (prog_of sample_connecting) = Some 7" "conn_state (prog_of sample_connecting) = STATE_CONNECTING"
  "session_reachable sample_env sample_connecting"
proof -
  have f: "find (\<lambda>(cmd, _). strcasecmp cmd ''connect'' = 0) commands =
      Some (''connect'', Cmd_Connect, ''[address [address type]]'', ''Connect to a remote device'')" by code_simp
  have g: "gatt_connect sample_env None d t l 0 m = Some (Inr 7)" for d t l m
    by (simp add: gatt_connect_def sample_env_def)
  obtain s where s: "parse_line sample_env (Some ''connect vehicle'') (interactive None None None 0) = Some s"
    "iochannel (prog_of s) = Some 7" "conn_state (prog_of s) = STATE_CONNECTING"
    by (simp add: parse_line_def arg_def f run_command_def cmd_connect_def interactive_def prog_of_def on_prog_def g
        set_state_def rl_printf_def Let_def)
  then have e: "sample_connecting = s" by (simp add: sample_connecting_def)
  have "prompt_read sample_env False (Some (Some ''connect vehicle'')) (interactive None None None 0) = Some (True, s)"
    using s by (simp add: prompt_read_def)
  then show "session_reachable sample_env sample_connecting" unfolding e
    by (rule session_reachable.step [OF session_reachable.start session_step.line])
  show "iochannel (prog_of sample_connecting) = Some 7" "conn_state (prog_of sample_connecting) = STATE_CONNECTING"
    using s e by simp_all
qed

lemma connection_starts_discovery_witness:
  "\<exists>w c. connect_cb None (Some (23, 4)) 0 1 sample_connecting = Some (Online w) \<and> linked w [c] \<and>
    cmd_pdu c = [6, 1, 0, 0xFF, 0xFF, 0, 0x28] @ ANKI_SERVICE_UUID_LE"
  using connection_starts_discovery [OF sample_connecting(1), of 4 23 0 1]
  by auto

lemma session_invariant_witness:
  "\<exists>w. session_reachable sample_env (Online w) \<and> \<not> freed w \<and> refs w > 0 \<and> (\<exists>q. requests w = Some q \<and> list_all (\<lambda>c. \<not> cmd_sent c) (tl q))"
proof -
  obtain w where w: "connect_cb None (Some (23, 4)) 0 1 sample_connecting = Some (Online w)"
    using connected_world [OF sample_connecting(1), of 4 23 0 1] discover_service_request by fastforce
  have "session_reachable sample_env (Online w)"
    using session_reachable.step [OF sample_connecting(3) session_step.connected [OF sample_connecting(2) _ w]]
    by simp
  then show ?thesis using session_invariant [of sample_env "Online w"] by auto
qed

end
