(* ===== verification/Vehicle_Discovery.thy ===== *)
theory Vehicle_Discovery
  imports Vehicle_Examples
begin

text \<open>
  The whole way from the connection to a vehicle that can be driven: the answers of a server to the requests of the
  tool, from the search for the service to the characteristics that the commands use.
\<close>

section \<open>UUIDs by their text\<close>

lemma tolower_hex: "n < 16 \<Longrightarrow> tolower (hexc n) = hexc n"
proof -
  assume "n < 16"
  then have "n \<in> set [0..<16]" by simp
  moreover have "list_all (\<lambda>n. tolower (hexc n) = hexc n) [0..<16]" by (simp add: upt_rec hexc_def tolower_def)
  ultimately show ?thesis by (simp only: list_all_iff)
qed

lemma tolower_hexn [simp]: "map tolower (hexn p v) = hexn p v"
  by (induction p arbitrary: v) (simp_all add: tolower_hex)

lemma tolower_dash [simp]: "tolower CHR ''-'' = CHR ''-''"
  by (simp add: tolower_def)

lemma hexn_numeral: "hexn (numeral k) v = hexn (pred_numeral k) (v div 16) @ [hexc (v mod 16)]"
  by (subst numeral_eq_Suc) (rule hexn.simps)

lemma uuid128_text_lower: "uuid128_format v = Some t \<Longrightarrow> map tolower t = t"
  by (auto simp: uuid128_format_def bind_eq_Some_conv Let_def simp del: hexn.simps)

text \<open>The text of a UUID in its long form decides whether two are equal.\<close>

definition has_uuid128 :: "bt_uuid_t \<Rightarrow> bytes \<Rightarrow> bool" where
  "has_uuid128 u v \<longleftrightarrow> bt_uuid_to_uuid128 u BT_UUID_UNSPEC = Some (BT_UUID128 v)"

lemma text_in_field:
  assumes "length v = 16" "uuid128_format v = Some t"
  shows "uuid_field (BT_UUID128 v) = Some (t @ replicate 2 (CHR 0x00))" "c_str (t @ replicate 2 (CHR 0x00)) = t" "length t = 36"
proof -
  obtain t' where "uuid128_format v = Some t'" "length t' = 36" "NUL \<notin> set t'"
    using uuid128_text [OF assms(1)] by blast
  then have t: "length t = 36" "NUL \<notin> set t" using assms(2) by auto
  then show "uuid_field (BT_UUID128 v) = Some (t @ replicate 2 (CHR 0x00))"
    using assms(2) by (simp add: uuid_field_def bt_uuid_to_string_def snprintf_fits overlay_def numeral_2_eq_2)
  show "c_str (t @ replicate 2 (CHR 0x00)) = t" using t by (simp add: c_str_def takeWhile_append)
  show "length t = 36" by (fact t(1))
qed

lemma is_char_uuid:
  assumes u: "has_uuid128 (cha_uuid c) v" "length v = 16"
    and s: "uuid128_format v' = Some (map tolower s)" "length v' = 16"
  shows "is_char s (found_char c) \<longleftrightarrow> v = v'"
proof -
  obtain t where t: "uuid128_format v = Some t" "bt_string_to_uuid128 BT_UUID_UNSPEC t = (0, BT_UUID128 v)"
    using uuid128_text [OF u(2)] by blast
  have s': "length (map tolower s) = 36" "bt_string_to_uuid128 BT_UUID_UNSPEC (map tolower s) = (0, BT_UUID128 v')"
    using uuid128_text [OF s(2), of BT_UUID_UNSPEC] s(1) by auto
  have "c_str (chr_uuid (found_char c)) = t" "length t = 36"
    using text_in_field [OF u(2) t(1)] u(1) by (simp_all add: found_char_def uuid_text38_def has_uuid128_def)
  then have "is_char s (found_char c) \<longleftrightarrow> t = map tolower s"
    using s'(1) uuid128_text_lower [OF t(1)] by (simp add: is_char_def strncasecmp_def strcasecmp_def)
  also have "\<dots> \<longleftrightarrow> v = v'" using t s s' by auto
  finally show ?thesis .
qed

definition READ_UUID_LE :: bytes where
  "READ_UUID_LE = [0xf4, 0x8d, 0x4d, 0x9c, 0xd8, 0x0b, 0x81, 0x83, 0x7e, 0x40, 0x86, 0x61, 0xe0, 0xbe, 0x15, 0xbe]"

definition WRITE_UUID_LE :: bytes where
  "WRITE_UUID_LE = [0xf4, 0x8d, 0x4d, 0x9c, 0xd8, 0x0b, 0x81, 0x83, 0x7e, 0x40, 0x86, 0x61, 0xe1, 0xbe, 0x15, 0xbe]"

lemma vehicle_uuid_texts:
  "uuid128_format READ_UUID_LE = Some (map tolower ANKI_STR_CHR_READ_UUID)" "length READ_UUID_LE = 16"
  "uuid128_format WRITE_UUID_LE = Some (map tolower ANKI_STR_CHR_WRITE_UUID)" "length WRITE_UUID_LE = 16"
  by (simp_all add: READ_UUID_LE_def WRITE_UUID_LE_def uuid128_format_def hton128_def get32_def get16_def c_mem Let_def
      ANKI_STR_CHR_READ_UUID_def ANKI_STR_CHR_WRITE_UUID_def tolower_def)
    (simp_all add: of_le32_def of_le16_def hexc_def hexn_numeral)

text \<open>Every UUID that a server can send has a long form.\<close>

lemma sent_uuid:
  assumes "uuids_alike us" "u \<in> set us"
  shows "\<exists>v. has_uuid128 u v \<and> length v = 16"
proof (cases u)
  case (BT_UUID16 x)
  then show ?thesis using uuid16_expands [of x] by (simp add: has_uuid128_def bluetooth_base_uuid_def)
next
  case (BT_UUID128 v)
  then have "length v = 16" using assms by (auto simp: uuids_alike_def list_all_iff)
  then show ?thesis using BT_UUID128 by (simp add: has_uuid128_def)
qed (use assms in \<open>auto simp: uuids_alike_def list_all_iff\<close>)

section \<open>The characteristics that the tool takes\<close>

text \<open>The last characteristic with the UUID, or the one known before.\<close>

definition chosen :: "bytes \<Rightarrow> charac list \<Rightarrow> gatt_char \<Rightarrow> gatt_char" where
  "chosen v cs old = fold (\<lambda>c r. if has_uuid128 (cha_uuid c) v then found_char c else r) cs old"

lemma take_chars_chosen:
  assumes "list_all (\<lambda>c. \<exists>v. has_uuid128 (cha_uuid c) v \<and> length v = 16) cs"
  shows "\<exists>p'. take_chars (map char_item cs) p = Some p' \<and> conn_state p' = conn_state p \<and>
    vehicle p' = \<lparr>read_char = chosen READ_UUID_LE cs (read_char (vehicle p)), write_char = chosen WRITE_UUID_LE cs (write_char (vehicle p))\<rparr>"
  using assms
proof (induction cs arbitrary: p)
  case (Cons c cs)
  obtain v where v: "has_uuid128 (cha_uuid c) v" "length v = 16" using Cons.prems by auto
  have same: "has_uuid128 (cha_uuid c) v' \<longleftrightarrow> v = v'" for v' using v(1) by (auto simp: has_uuid128_def)
  have "is_char ANKI_STR_CHR_READ_UUID (found_char c) \<longleftrightarrow> v = READ_UUID_LE"
    "is_char ANKI_STR_CHR_WRITE_UUID (found_char c) \<longleftrightarrow> v = WRITE_UUID_LE"
    by (rule is_char_uuid [OF v vehicle_uuid_texts(1,2)], rule is_char_uuid [OF v vehicle_uuid_texts(3,4)])
  then have t: "conn_state (take_char (found_char c) p) = conn_state p"
    "vehicle (take_char (found_char c) p) = \<lparr>read_char = (if v = READ_UUID_LE then found_char c else read_char (vehicle p)),
       write_char = (if v = WRITE_UUID_LE then found_char c else write_char (vehicle p))\<rparr>"
    by (simp_all add: take_char_def print_char_def rl_printf_def Let_def)
  show ?case
    using Cons.IH [of "take_char (found_char c) p"] Cons.prems t by (auto simp: chosen_def same)
qed (simp add: chosen_def)

section \<open>From the service to the characteristics\<close>

lemma quiet_linked: "quiet held w \<Longrightarrow> linked w []"
  using quiet_buf [of held w] by (auto simp: quiet_def ready_def linked_def)

lemma asking_frame:
  assumes "asking gatt_held m f g i w" "keeps gatt_held w w'" "requests w' = requests w" "responses w' = responses w"
    "events w' = events w" "write_watch w' = write_watch w" "stale w' = stale w" "next_source w' = next_source w"
    "out_of_memory w' = out_of_memory w" "buflen w' = buflen w"
  shows "asking gatt_held m f g i w'"
  using assms by (auto simp: asking_def ready_def deaf_def keeps_def attrib_inv_def split: if_splits)

lemma print_ranges_frame:
  "\<exists>p'. print_ranges (map Range rs) p = Some p' \<and> conn_state p' = conn_state p \<and> vehicle p' = vehicle p"
proof (induction rs arbitrary: p)
  case (Cons r rs)
  show ?case
    using Cons.IH [of "rl_printf (nl ''Starting handle: 0x%04x Ending handle: 0x%04x'')
       [Num (uint (start_handle r)), Num (uint (end_handle r))] p"] by (simp add: rl_printf_def)
qed simp

text \<open>When the search has found the service, the tool asks for the characteristics, and the search is over.\<close>

lemma services_found:
  assumes q: "quiet gatt_held v" and c: "cell (dps (client v)) a = Some dp" and rs: "rs \<noteq> []"
  shows "\<exists>w. do { x \<leftarrow> vehicle_client (Gatt_Cb Discover_Services_Cb (map Range rs) 0) v; discover_primary_free cl a x } = Some w \<and>
    charting (length (dcs (client v))) Discover_Char_Cb 0xFFFF 1 [] w \<and> written w = written v \<and>
    conn_state (user (client w)) = conn_state (user (client v)) \<and> vehicle (user (client w)) = vehicle (user (client v))"
proof -
  obtain p where p: "print_ranges (map Range rs) (user (client v)) = Some p" "conn_state p = conn_state (user (client v))"
    "vehicle p = vehicle (user (client v))" using print_ranges_frame by blast
  obtain i x where x: "gatt_discover_char 1 0xFFFF None Discover_Char_Cb (on_user (\<lambda>_. p) v) = Some (i, x)"
    "charting (length (dcs (client v))) Discover_Char_Cb 0xFFFF 1 [] x" "written x = written v" "user (client x) = p"
    "dps (client x) = dps (client v)"
    using start_chars [OF quiet_on_user [OF q, of "\<lambda>_. p"], of 1 "0xFFFF" Discover_Char_Cb] by (auto simp: on_user_def)
  have run: "vehicle_client (Gatt_Cb Discover_Services_Cb (map Range rs) 0) v = Some x"
    using p(1) x(1) rs by (simp add: vehicle_client_def discover_services_cb_def)
  obtain j where j: "asking gatt_held (chars_request 1 0xFFFF) (Char_Discovered_Cb (length (dcs (client v)))) None j x"
    using x(2) by (auto simp: charting_def)
  have inv: "attrib_inv gatt_held x" using j by (simp add: asking_def)
  have cx: "cell (dps (client x)) a = Some dp" using c x(5) by simp
  define w where "w = (set_dp a None x)\<lparr>refs := refs x - 1\<rparr>"
  have f: "discover_primary_free cl a x = Some w" unfolding w_def by (rule primary_free [OF inv cx])
  have k: "keeps gatt_held x w" by (rule dp_free_keeps [OF keeps_refl [OF inv] f])
  have "asking gatt_held (chars_request 1 0xFFFF) (Char_Discovered_Cb (length (dcs (client v)))) None j w"
    by (rule asking_frame [OF j k]) (simp_all add: w_def set_dp_def)
  then have "charting (length (dcs (client v))) Discover_Char_Cb 0xFFFF 1 [] w"
    using x(2) by (auto simp: charting_def w_def)
  then show ?thesis using run f x p by (simp add: w_def) (simp add: set_dp_def)
qed

text \<open>When the characteristics have arrived, the tool keeps those of the vehicle.\<close>

definition notify_command :: "anki_vehicle \<Rightarrow> bytes list" where
  "notify_command v = (if chr_handle (read_char v) > 0 \<and> chr_handle (write_char v) > 0
     then [att_wire (Write_Cmd (ucast (chr_properties (write_char v))) [0x01, 0x00])] else [])"

lemma characteristics_found:
  assumes q: "quiet gatt_held v" and c: "cell (dcs (client v)) a = Some dc"
    and u: "list_all (\<lambda>c. \<exists>v. has_uuid128 (cha_uuid c) v \<and> length v = 16) cs"
  shows "\<exists>w q. do { x \<leftarrow> vehicle_client (Gatt_Cb Discover_Char_Cb (map char_item cs) 0) v; discover_char_free cl a x } = Some w \<and>
    linked w q \<and> written w = written v \<and> conn_state (user (client w)) = conn_state (user (client v)) \<and>
    vehicle (user (client w)) = \<lparr>read_char = chosen READ_UUID_LE cs (read_char (vehicle (user (client v)))),
      write_char = chosen WRITE_UUID_LE cs (write_char (vehicle (user (client v))))\<rparr> \<and>
    map cmd_pdu q = notify_command (vehicle (user (client w)))"
proof -
  obtain p where p: "take_chars (map char_item cs) (user (client v)) = Some p" "conn_state p = conn_state (user (client v))"
    "vehicle p = \<lparr>read_char = chosen READ_UUID_LE cs (read_char (vehicle (user (client v)))),
      write_char = chosen WRITE_UUID_LE cs (write_char (vehicle (user (client v))))\<rparr>"
    using take_chars_chosen [OF u, of "user (client v)"] by (elim exE conjE) (rule that)
  define y where "y = on_user (\<lambda>_. p) v"
  have y: "linked y []" "client y = (client v)\<lparr>user := p\<rparr>" "written y = written v"
    using quiet_linked [OF quiet_on_user [OF q]] by (simp_all add: y_def on_user_def)
  have "\<exists>x q. vehicle_client (Gatt_Cb Discover_Char_Cb (map char_item cs) 0) v = Some x \<and> linked x q \<and> client x = client y \<and>
      written x = written y \<and> map cmd_pdu q = notify_command (vehicle p)"
  proof (cases "chr_handle (read_char (vehicle p)) > 0 \<and> chr_handle (write_char (vehicle p)) > 0")
    case True
    obtain b x where b: "gatt_write_cmd (ucast (chr_properties (write_char (vehicle p)))) [0x01, 0x00] 2 None y = Some (cmd_id b, x)"
      "linked x [b]" "client x = client y" "written x = written y"
      "cmd_pdu b = att_wire (Write_Cmd (ucast (chr_properties (write_char (vehicle p)))) [0x01, 0x00])"
      using queue_write_cmd [OF y(1), of "[0x01, 0x00]" "ucast (chr_properties (write_char (vehicle p)))"] by auto
    have "vehicle_client (Gatt_Cb Discover_Char_Cb (map char_item cs) 0) v = Some x"
      using p(1) True b(1) by (simp add: vehicle_client_def discover_char_cb_def Let_def y_def)
    then show ?thesis using b True by (intro exI [of _ x] exI [of _ "[b]"]) (simp add: notify_command_def)
  next
    case False
    then have "vehicle_client (Gatt_Cb Discover_Char_Cb (map char_item cs) 0) v = Some y"
      using p(1) by (auto simp: vehicle_client_def discover_char_cb_def Let_def y_def)
    then show ?thesis using y False by (intro exI [of _ y] exI [of _ "[]"]) (auto simp: notify_command_def)
  qed
  then obtain x l where x: "vehicle_client (Gatt_Cb Discover_Char_Cb (map char_item cs) 0) v = Some x" "linked x l" "client x = client y"
    "written x = written y" "map cmd_pdu l = notify_command (vehicle p)" by blast
  have "keeps gatt_held v x" using q tool.ucl_keeps [OF keeps_refl x(1)] by (simp add: quiet_def)
  moreover have "cell (dcs (client x)) a = Some dc" using c x(3) y(2) by simp
  ultimately have "discover_char_free cl a x = Some ((set_dc a None x)\<lparr>refs := refs x - 1\<rparr>)"
    by (intro char_free keeps_inv)
  moreover have "linked ((set_dc a None x)\<lparr>refs := refs x - 1\<rparr>) l" "written ((set_dc a None x)\<lparr>refs := refs x - 1\<rparr>) = written v"
    using x y by (simp_all add: linked_def set_dc_def)
  ultimately show ?thesis
    using x y p by (intro exI [of _ "(set_dc a None x)\<lparr>refs := refs x - 1\<rparr>"] exI [of _ l]) simp
qed

text \<open>What the vehicle answers: the ranges of its service, then its characteristics.\<close>

definition answers_service :: "att_range list list \<Rightarrow> att_range list option \<Rightarrow> bytes list" where
  "answers_service gs fin = map ranges_response gs @ [last_ranges_answer fin]"

definition answers_chars :: "charac list list \<Rightarrow> charac list option \<Rightarrow> bytes list" where
  "answers_chars gs fin = map chars_response gs @ [last_chars_answer fin]"

lemma all_sent_uuids:
  assumes "list_all (chars_between e) gs" "last_chars_ok e fin"
  shows "list_all (\<lambda>c. \<exists>v. has_uuid128 (cha_uuid c) v \<and> length v = 16) (concat gs @ last_chars fin)"
proof -
  have "\<exists>v. has_uuid128 (cha_uuid c) v \<and> length v = 16" if "chars_ok cs" "c \<in> set cs" for cs c
    using that by (intro sent_uuid [of "map cha_uuid cs"]) (auto simp: chars_ok_def)
  then show ?thesis
    using assms by (auto simp: list_all_iff chars_between_def last_chars_ok_def last_chars_def split: option.splits)
qed

lemma search_started:
  assumes "iochannel (prog_of s) = Some ch" "cid = ATT_CID \<or> 23 \<le> imtu"
  shows "\<exists>w. connect_cb None (Some (imtu, cid)) evt src s = Some (Online w) \<and>
    searching 0 Discover_Services_Cb (BT_UUID128 ANKI_SERVICE_UUID_LE) 1 [] w \<and> written w = [] \<and> dcs (client w) = [] \<and>
    conn_state (user (client w)) = STATE_CONNECTED \<and> vehicle (user (client w)) = vehicle (prog_of s)"
proof -
  obtain w where w: "connect_cb None (Some (imtu, cid)) evt src s = map_option Online (discover_services w)" "quiet gatt_held w"
    "written w = []" "dcs (client w) = []" "conn_state (user (client w)) = STATE_CONNECTED"
    "vehicle (user (client w)) = vehicle (prog_of s)" "dps (client w) = []"
    using connected_world [OF assms, of evt src] by (elim exE conjE) (rule that)
  obtain i x where "gatt_discover_primary (Some (BT_UUID128 ANKI_SERVICE_UUID_LE)) Discover_Services_Cb w = Some (i, x)"
    "searching 0 Discover_Services_Cb (BT_UUID128 ANKI_SERVICE_UUID_LE) 1 [] x" "written x = []"
    "client x = (client w)\<lparr>dps := dps (client w) @ [Some (search_object Discover_Services_Cb (BT_UUID128 ANKI_SERVICE_UUID_LE) [])]\<rparr>"
    using start_search [OF w(2), of "BT_UUID128 ANKI_SERVICE_UUID_LE" Discover_Services_Cb] w(3,7) by (auto simp: uuid_wanted_def)
  then show ?thesis
    using w by (intro exI [of _ x]) (simp add: discover_services_def service_uuid_text)
qed

text \<open>C2: From the connection to a vehicle that can be driven: when the vehicle answers the search for its service with
  ranges of handles and the search for characteristics with characteristics, in as many responses as it likes,
  the tool stays connected, asks exactly the requests that continue where the last response ended, and ends with the
  last characteristics that have the UUIDs for reading and for writing as those that all commands use; its only other
  request is the one that should switch the notifications on.\<close>

theorem vehicle_found:
  assumes "iochannel (prog_of s) = Some ch" "cid = ATT_CID \<or> 23 \<le> imtu"
    and "list_all ranges_between rgs" "last_ranges_ok rfin" "concat rgs @ last_ranges rfin \<noteq> []"
    and "list_all (chars_between 0xFFFF) cgs" "last_chars_ok 0xFFFF cfin" "cs = concat cgs @ last_chars cfin" "cs \<noteq> []"
  shows "\<exists>w0 w q. connect_cb None (Some (imtu, cid)) evt src s = Some (Online w0) \<and>
    exchanges (gatt_client (Suc n) vehicle_client) (answers_service rgs rfin @ answers_chars cgs cfin) w0 = Some w \<and>
    conn_state (user (client w)) = STATE_CONNECTED \<and>
    vehicle (user (client w)) = \<lparr>read_char = chosen READ_UUID_LE cs (read_char (vehicle (prog_of s))),
      write_char = chosen WRITE_UUID_LE cs (write_char (vehicle (prog_of s)))\<rparr> \<and>
    written w = map (\<lambda>s. att_wire (find_request s (BT_UUID128 ANKI_SERVICE_UUID_LE))) (ranges_starts 1 rgs) @
      map (\<lambda>s. att_wire (chars_request s 0xFFFF)) (chars_starts 1 cgs) \<and>
    linked w q \<and> map cmd_pdu q = notify_command (vehicle (user (client w)))"
proof -
  let ?cl = "gatt_client (Suc n) vehicle_client" and ?u = "BT_UUID128 ANKI_SERVICE_UUID_LE"
  define rs where "rs = concat rgs @ last_ranges rfin"
  obtain w0 where w0: "connect_cb None (Some (imtu, cid)) evt src s = Some (Online w0)"
    "searching 0 Discover_Services_Cb ?u 1 [] w0" "written w0 = []" "dcs (client w0) = []"
    "conn_state (user (client w0)) = STATE_CONNECTED" "vehicle (user (client w0)) = vehicle (prog_of s)"
    using search_started [OF assms(1,2), of evt src] by (elim exE conjE) (rule that)
  obtain v where v: "exchanges ?cl (answers_service rgs rfin) w0 = do {
      x \<leftarrow> vehicle_client (Gatt_Cb Discover_Services_Cb (map Range rs) 0) v; discover_primary_free (gatt_client n vehicle_client) 0 x }"
    "quiet gatt_held v" "client v = put_dp 0 (Some (search_object Discover_Services_Cb ?u rs)) (client w0)"
    "written v = map (\<lambda>s. att_wire (find_request s ?u)) (ranges_starts 1 rgs)"
    using tool.search_conversation [OF w0(2) assms(3,4), of rs n] w0(3) by (auto simp: rs_def answers_service_def)
  have cv: "cell (dps (client v)) 0 = Some (search_object Discover_Services_Cb ?u rs)"
    using w0(2) by (auto simp: v(3) searching_def)
  obtain w1 where w1: "exchanges ?cl (answers_service rgs rfin) w0 = Some w1" "charting 0 Discover_Char_Cb 0xFFFF 1 [] w1"
    "written w1 = written v" "conn_state (user (client w1)) = STATE_CONNECTED" "vehicle (user (client w1)) = vehicle (prog_of s)"
    using services_found [OF v(2) cv, of rs "gatt_client n vehicle_client"] assms(5) v(1,3) w0 by (auto simp: rs_def)
  have st: "chars_status (map char_item cs) = 0" using assms(9) by (simp add: chars_status_def)
  obtain x where x: "exchanges ?cl (answers_chars cgs cfin) w1 = do {
      y \<leftarrow> vehicle_client (Gatt_Cb Discover_Char_Cb (map char_item cs) 0) x; discover_char_free (gatt_client n vehicle_client) 0 y }"
    "quiet gatt_held x" "client x = put_dc 0 (Some (chars_object Discover_Char_Cb 0xFFFF (map char_item cs))) (client w1)"
    "written x = written w1 @ map (\<lambda>s. att_wire (chars_request s 0xFFFF)) (chars_starts 1 cgs)"
    using tool.chars_conversation [OF w1(2) assms(6,7), of "map char_item cs" n] st assms(8) by (auto simp: answers_chars_def)
  have cx: "cell (dcs (client x)) 0 = Some (chars_object Discover_Char_Cb 0xFFFF (map char_item cs))"
    using w1(2) by (auto simp: x(3) charting_def)
  obtain w q where w: "do { y \<leftarrow> vehicle_client (Gatt_Cb Discover_Char_Cb (map char_item cs) 0) x;
      discover_char_free (gatt_client n vehicle_client) 0 y } = Some w" "linked w q" "written w = written x"
    "conn_state (user (client w)) = conn_state (user (client x))"
    "vehicle (user (client w)) = \<lparr>read_char = chosen READ_UUID_LE cs (read_char (vehicle (user (client x)))),
      write_char = chosen WRITE_UUID_LE cs (write_char (vehicle (user (client x))))\<rparr>"
    "map cmd_pdu q = notify_command (vehicle (user (client w)))"
    using characteristics_found [OF x(2) cx all_sent_uuids [OF assms(6,7), folded assms(8)], of "gatt_client n vehicle_client"]
    by (elim exE conjE) (rule that)
  have "exchanges ?cl (answers_service rgs rfin @ answers_chars cgs cfin) w0 = Some w"
    using w1(1) w(1) x(1) by (simp add: exchanges_append)
  then show ?thesis
    using w0(1) w w1 v(4) x(3,4) by (intro exI [of _ w0] exI [of _ w] exI [of _ q]) simp
qed

text \<open>A vehicle with its two characteristics, each in a response of its own, and one of another service.\<close>

definition sample_table :: "charac list list" where
  "sample_table =
     [[\<lparr>cha_handle = 2, cha_properties = 2, cha_value_handle = 3, cha_uuid = BT_UUID16 0x2A00\<rparr>],
      [\<lparr>cha_handle = 0x0D, cha_properties = 0x12, cha_value_handle = 0x0E, cha_uuid = BT_UUID128 READ_UUID_LE\<rparr>],
      [\<lparr>cha_handle = 0x10, cha_properties = 0x0C, cha_value_handle = 0x11, cha_uuid = BT_UUID128 WRITE_UUID_LE\<rparr>]]"

lemma vehicle_found_witness:
  "\<exists>w0 w c. connect_cb None (Some (23, 4)) 0 1 sample_connecting = Some (Online w0) \<and>
    exchanges (gatt_client (Suc 2) vehicle_client)
      (answers_service [] (Some [\<lparr>start_handle = 9, end_handle = 0xFFFF\<rparr>]) @ answers_chars sample_table None) w0 = Some w \<and>
    chr_value_handle (read_char (vehicle (user (client w)))) = 0x0E \<and> write_handle w = 0x11 \<and> length (written w) = 5 \<and>
    linked w [c] \<and> cmd_pdu c = [0x52, 0x0C, 0, 1, 0]"
proof -
  have ne: "READ_UUID_LE \<noteq> WRITE_UUID_LE" by (simp add: READ_UUID_LE_def WRITE_UUID_LE_def)
  have t: "list_all (chars_between 0xFFFF) sample_table"
    by (simp add: sample_table_def chars_between_def chars_ok_def uuids_alike_def char_bytes_def vehicle_uuid_texts)
  have b: "\<not> has_uuid128 (BT_UUID16 0x2A00) READ_UUID_LE" "\<not> has_uuid128 (BT_UUID16 0x2A00) WRITE_UUID_LE"
    by (simp_all add: has_uuid128_def uuid16_expands READ_UUID_LE_def WRITE_UUID_LE_def bluetooth_base_uuid_def)
  show ?thesis
    using vehicle_found [OF sample_connecting(1), of 4 23 "[]" "Some [\<lparr>start_handle = 9, end_handle = 0xFFFF\<rparr>]" sample_table None
        "concat sample_table" 0 1 2] t b ne
    by (auto simp: last_ranges_ok_def ranges_ok_def last_ranges_def last_chars_ok_def last_chars_def sample_table_def chosen_def
        has_uuid128_def found_char_def write_handle_def notify_command_def)
qed

end
