(* ===== verification/Btio.thy ===== *)
theory Btio
  imports Prelude "HOL-Library.State_Monad"
begin

text \<open>
  The Bluetooth sockets of the tool: \<open>examples/vehicle-tool/btio/btio.c\<close>.

  The system calls are a parameter: a record of functions on the state \<open>'k\<close> of the kernel, each with the value of
  \<open>errno\<close> when it fails. The code runs in the state monad over that state and a trace of the calls, which also
  records the sources that are added to the main loop. A channel of GLib is its file descriptor; releasing its last
  reference closes it. A \<open>GError\<close> is the failed call with its \<open>errno\<close>, or the text of an invalid argument.
\<close>

section \<open>System calls\<close>

abbreviation (input) AF_BLUETOOTH :: int where "AF_BLUETOOTH \<equiv> 31"
abbreviation (input) BTPROTO_L2CAP :: int where "BTPROTO_L2CAP \<equiv> 0"
abbreviation (input) BTPROTO_SCO :: int where "BTPROTO_SCO \<equiv> 2"
abbreviation (input) BTPROTO_RFCOMM :: int where "BTPROTO_RFCOMM \<equiv> 3"
abbreviation (input) BDADDR_BREDR :: u8 where "BDADDR_BREDR \<equiv> 0"
abbreviation (input) BT_SECURITY_LOW :: int where "BT_SECURITY_LOW \<equiv> 1"
abbreviation (input) BT_SECURITY_MEDIUM :: int where "BT_SECURITY_MEDIUM \<equiv> 2"
abbreviation (input) BT_SECURITY_HIGH :: int where "BT_SECURITY_HIGH \<equiv> 3"
abbreviation (input) LM_MASTER :: u32 where "LM_MASTER \<equiv> 0x0001"
abbreviation (input) LM_AUTH :: u32 where "LM_AUTH \<equiv> 0x0002"
abbreviation (input) LM_ENCRYPT :: u32 where "LM_ENCRYPT \<equiv> 0x0004"
abbreviation (input) LM_SECURE :: u32 where "LM_SECURE \<equiv> 0x0020"
abbreviation (input) EAGAIN :: int where "EAGAIN \<equiv> 11"
abbreviation (input) ENOPROTOOPT :: int where "ENOPROTOOPT \<equiv> 92"
abbreviation (input) EINPROGRESS :: int where "EINPROGRESS \<equiv> 115"

text \<open>The integer options of sockets, with their levels. The flags of a link (LM) have the same bits for L2CAP and RFCOMM.\<close>

datatype int_option = SO_DOMAIN | SO_PROTOCOL | SO_ERROR | SO_PRIORITY | BT_FLUSHABLE | BT_DEFER_SETUP

datatype link = L2CAP_Link | RFCOMM_Link | SCO_Link

record l2cap_options =
  l2o_omtu :: u16
  l2o_imtu :: u16
  l2o_mode :: u8

record sockaddr =
  sa_bdaddr :: bytes
  sa_psm :: u16
  sa_cid :: u16
  sa_type :: u8
  sa_channel :: u8

datatype syscall =
    Socket link "int + int" | Bind int link sockaddr | Connect int link sockaddr | Listen int | Accept int "int + int" | Close int
  | Get_Int int int_option | Set_Int int int_option u32 | Get_LM int link | Set_LM int link u32
  | Get_Security int | Set_Security int int | Get_L2cap int | Set_L2cap int l2cap_options
  | Get_Sco int | Set_Sco int u16 | Set_Voice int u16 | Get_Conninfo int link | Get_Name int link | Get_Peer int link
  | Poll_Nval int | Poll_Out int | Read_Byte int
  | Watch_Connect int | Watch_Accept int | Watch_Server int

text \<open>A call returns \<open>Inl\<close> of an \<open>errno\<close>, or its result; \<open>Some\<close> of an \<open>errno\<close> where it has no result.\<close>

record 'k kernel =
  k_socket :: "link \<Rightarrow> 'k \<Rightarrow> (int + int) \<times> 'k"
  k_bind :: "int \<Rightarrow> link \<Rightarrow> sockaddr \<Rightarrow> 'k \<Rightarrow> int option \<times> 'k"
  k_connect :: "int \<Rightarrow> link \<Rightarrow> sockaddr \<Rightarrow> 'k \<Rightarrow> int option \<times> 'k"
  k_listen :: "int \<Rightarrow> 'k \<Rightarrow> int option \<times> 'k"
  k_accept :: "int \<Rightarrow> 'k \<Rightarrow> (int + int) \<times> 'k"
  k_close :: "int \<Rightarrow> 'k \<Rightarrow> unit \<times> 'k"
  k_get_int :: "int \<Rightarrow> int_option \<Rightarrow> 'k \<Rightarrow> (int + u32) \<times> 'k"
  k_set_int :: "int \<Rightarrow> int_option \<Rightarrow> u32 \<Rightarrow> 'k \<Rightarrow> int option \<times> 'k"
  k_get_lm :: "int \<Rightarrow> link \<Rightarrow> 'k \<Rightarrow> (int + u32) \<times> 'k"
  k_set_lm :: "int \<Rightarrow> link \<Rightarrow> u32 \<Rightarrow> 'k \<Rightarrow> int option \<times> 'k"
  k_get_security :: "int \<Rightarrow> 'k \<Rightarrow> (int + u8 \<times> u8) \<times> 'k"
  k_set_security :: "int \<Rightarrow> int \<Rightarrow> 'k \<Rightarrow> int option \<times> 'k"
  k_get_l2cap :: "int \<Rightarrow> 'k \<Rightarrow> (int + l2cap_options) \<times> 'k"
  k_set_l2cap :: "int \<Rightarrow> l2cap_options \<Rightarrow> 'k \<Rightarrow> int option \<times> 'k"
  k_get_sco :: "int \<Rightarrow> 'k \<Rightarrow> (int + u16) \<times> 'k"
  k_set_sco :: "int \<Rightarrow> u16 \<Rightarrow> 'k \<Rightarrow> int option \<times> 'k"
  k_set_voice :: "int \<Rightarrow> u16 \<Rightarrow> 'k \<Rightarrow> int option \<times> 'k"
  k_get_conninfo :: "int \<Rightarrow> link \<Rightarrow> 'k \<Rightarrow> (int + u16 \<times> bytes) \<times> 'k"
  k_get_name :: "int \<Rightarrow> link \<Rightarrow> 'k \<Rightarrow> (int + sockaddr) \<times> 'k"
  k_get_peer :: "int \<Rightarrow> link \<Rightarrow> 'k \<Rightarrow> (int + sockaddr) \<times> 'k"
  k_poll_nval :: "int \<Rightarrow> 'k \<Rightarrow> bool \<times> 'k"
  k_poll_out :: "int \<Rightarrow> 'k \<Rightarrow> (int + bool) \<times> 'k"
  k_read_byte :: "int \<Rightarrow> 'k \<Rightarrow> int option \<times> 'k"
  k_str2ba :: "string \<Rightarrow> bytes"
  k_ba2str :: "bytes \<Rightarrow> string"

type_synonym ('k, 'a) io = "('k \<times> syscall list, 'a) state"

definition call :: "('k \<Rightarrow> 'a \<times> 'k) \<Rightarrow> ('a \<Rightarrow> syscall) \<Rightarrow> ('k, 'a) io" where
  "call f c = State (\<lambda>(k, trace). let (a, k') = f k in (a, (k', trace @ [c a])))"

definition note_watch :: "syscall \<Rightarrow> ('k, unit) io" where
  "note_watch c = State (\<lambda>(k, trace). ((), (k, trace @ [c])))"

datatype gerror = Failed_Call string int | Invalid_Argument string

text \<open>The result of a call without a result as the functions below return it: 0 or the negative \<open>errno\<close>.\<close>

definition neg_errno :: "int option \<Rightarrow> int" where
  "neg_errno e = (case e of None \<Rightarrow> 0 | Some n \<Rightarrow> - n)"

datatype BtIOType = BT_IO_L2CAP | BT_IO_RFCOMM | BT_IO_SCO | BT_IO_INVALID

definition bt_io_get_type :: "'k kernel \<Rightarrow> int \<Rightarrow> ('k, gerror + BtIOType) io" where
  "bt_io_get_type kn sk = do {
     d \<leftarrow> call (k_get_int kn sk SO_DOMAIN) (\<lambda>_. Get_Int sk SO_DOMAIN);
     (case d of
        Inl e \<Rightarrow> State_Monad.return (Inl (Failed_Call ''getsockopt(SO_DOMAIN)'' e))
      | Inr domain \<Rightarrow>
          if sint domain \<noteq> AF_BLUETOOTH
          then State_Monad.return (Inl (Invalid_Argument ''BtIO socket domain not AF_BLUETOOTH''))
          else do {
            p \<leftarrow> call (k_get_int kn sk SO_PROTOCOL) (\<lambda>_. Get_Int sk SO_PROTOCOL);
            State_Monad.return (case p of
              Inl e \<Rightarrow> Inl (Failed_Call ''getsockopt(SO_PROTOCOL)'' e)
            | Inr proto \<Rightarrow>
                if sint proto = BTPROTO_RFCOMM then Inr BT_IO_RFCOMM
                else if sint proto = BTPROTO_SCO then Inr BT_IO_SCO
                else if sint proto = BTPROTO_L2CAP then Inr BT_IO_L2CAP
                else Inl (Invalid_Argument ''Unknown BtIO socket type''))
          })
   }"

section \<open>Addresses and connections\<close>

definition no_addr :: sockaddr where
  "no_addr = \<lparr>sa_bdaddr = replicate 6 0, sa_psm = 0, sa_cid = 0, sa_type = 0, sa_channel = 0\<rparr>"

definition l2cap_addr :: "bytes \<Rightarrow> u8 \<Rightarrow> u16 \<Rightarrow> u16 \<Rightarrow> sockaddr" where
  "l2cap_addr ba ba_type psm cid =
     (let addr = no_addr\<lparr>sa_bdaddr := ba\<rparr>;
          addr = (if cid \<noteq> 0 then addr\<lparr>sa_cid := cid\<rparr> else addr\<lparr>sa_psm := psm\<rparr>)
      in addr\<lparr>sa_type := ba_type\<rparr>)"

text \<open>The result of a bind: the error, if it fails.\<close>

definition bind_failed :: "string \<Rightarrow> int option \<Rightarrow> gerror option" where
  "bind_failed what e = map_option (Failed_Call what) e"

definition l2cap_bind :: "'k kernel \<Rightarrow> int \<Rightarrow> bytes \<Rightarrow> u8 \<Rightarrow> u16 \<Rightarrow> u16 \<Rightarrow> ('k, gerror option) io" where
  "l2cap_bind kn sock src src_type psm cid = do {
     let addr = l2cap_addr src src_type psm cid;
     r \<leftarrow> call (k_bind kn sock L2CAP_Link addr) (\<lambda>_. Bind sock L2CAP_Link addr);
     State_Monad.return (bind_failed ''l2cap_bind'' r)
   }"

definition rfcomm_bind :: "'k kernel \<Rightarrow> int \<Rightarrow> bytes \<Rightarrow> u8 \<Rightarrow> ('k, gerror option) io" where
  "rfcomm_bind kn sock src channel = do {
     let addr = no_addr\<lparr>sa_bdaddr := src, sa_channel := channel\<rparr>;
     r \<leftarrow> call (k_bind kn sock RFCOMM_Link addr) (\<lambda>_. Bind sock RFCOMM_Link addr);
     State_Monad.return (bind_failed ''rfcomm_bind'' r)
   }"

definition sco_bind :: "'k kernel \<Rightarrow> int \<Rightarrow> bytes \<Rightarrow> ('k, gerror option) io" where
  "sco_bind kn sock src = do {
     let addr = no_addr\<lparr>sa_bdaddr := src\<rparr>;
     r \<leftarrow> call (k_bind kn sock SCO_Link addr) (\<lambda>_. Bind sock SCO_Link addr);
     State_Monad.return (bind_failed ''sco_bind'' r)
   }"

text \<open>A connection in progress is no failure.\<close>

definition start_connect :: "'k kernel \<Rightarrow> int \<Rightarrow> link \<Rightarrow> sockaddr \<Rightarrow> ('k, int) io" where
  "start_connect kn sock l addr = do {
     r \<leftarrow> call (k_connect kn sock l addr) (\<lambda>_. Connect sock l addr);
     State_Monad.return (case r of None \<Rightarrow> 0 | Some e \<Rightarrow> if e = EAGAIN \<or> e = EINPROGRESS then 0 else - e)
   }"

definition l2cap_connect :: "'k kernel \<Rightarrow> int \<Rightarrow> bytes \<Rightarrow> u8 \<Rightarrow> u16 \<Rightarrow> u16 \<Rightarrow> ('k, int) io" where
  "l2cap_connect kn sock dst dst_type psm cid = start_connect kn sock L2CAP_Link (l2cap_addr dst dst_type psm cid)"

definition rfcomm_connect :: "'k kernel \<Rightarrow> int \<Rightarrow> bytes \<Rightarrow> u8 \<Rightarrow> ('k, int) io" where
  "rfcomm_connect kn sock dst channel =
     start_connect kn sock RFCOMM_Link (no_addr\<lparr>sa_bdaddr := dst, sa_channel := channel\<rparr>)"

definition sco_connect :: "'k kernel \<Rightarrow> int \<Rightarrow> bytes \<Rightarrow> ('k, int) io" where
  "sco_connect kn sock dst = start_connect kn sock SCO_Link (no_addr\<lparr>sa_bdaddr := dst\<rparr>)"

section \<open>Options of a socket\<close>

text \<open>\<open>l2cap_set_master\<close> and \<open>rfcomm_set_master\<close> differ in the link.\<close>

definition set_master :: "'k kernel \<Rightarrow> link \<Rightarrow> int \<Rightarrow> int \<Rightarrow> ('k, int) io" where
  "set_master kn l sock master = do {
     r \<leftarrow> call (k_get_lm kn sock l) (\<lambda>_. Get_LM sock l);
     (case r of
        Inl e \<Rightarrow> State_Monad.return (- e)
      | Inr flags \<Rightarrow>
          if master \<noteq> 0 \<and> (flags AND LM_MASTER) \<noteq> 0 then State_Monad.return 0
          else if master = 0 \<and> (flags AND LM_MASTER) = 0 then State_Monad.return 0
          else do {
            let flags = (if master \<noteq> 0 then flags OR LM_MASTER else flags AND NOT LM_MASTER);
            e \<leftarrow> call (k_set_lm kn sock l flags) (\<lambda>_. Set_LM sock l flags);
            State_Monad.return (neg_errno e)
          })
   }"

definition l2cap_set_master :: "'k kernel \<Rightarrow> int \<Rightarrow> int \<Rightarrow> ('k, int) io" where
  "l2cap_set_master kn = set_master kn L2CAP_Link"

definition rfcomm_set_master :: "'k kernel \<Rightarrow> int \<Rightarrow> int \<Rightarrow> ('k, int) io" where
  "rfcomm_set_master kn = set_master kn RFCOMM_Link"

definition lm_map :: "u32 list" where
  "lm_map = [0, LM_AUTH, LM_AUTH OR LM_ENCRYPT, LM_AUTH OR LM_ENCRYPT OR LM_SECURE]"

definition set_lm :: "'k kernel \<Rightarrow> link \<Rightarrow> int \<Rightarrow> int \<Rightarrow> ('k, int) io" where
  "set_lm kn l sock level = do {
     let opt = lm_map ! nat level;
     e \<leftarrow> call (k_set_lm kn sock l opt) (\<lambda>_. Set_LM sock l opt);
     State_Monad.return (neg_errno e)
   }"

definition l2cap_set_lm :: "'k kernel \<Rightarrow> int \<Rightarrow> int \<Rightarrow> ('k, int) io" where
  "l2cap_set_lm kn = set_lm kn L2CAP_Link"

definition rfcomm_set_lm :: "'k kernel \<Rightarrow> int \<Rightarrow> int \<Rightarrow> ('k, int) io" where
  "rfcomm_set_lm kn = set_lm kn RFCOMM_Link"

text \<open>The error, if the function returns FALSE.\<close>

definition set_sec_level :: "'k kernel \<Rightarrow> int \<Rightarrow> BtIOType \<Rightarrow> int \<Rightarrow> ('k, gerror option) io" where
  "set_sec_level kn sock type level =
     (if level < BT_SECURITY_LOW \<or> level > BT_SECURITY_HIGH
      then State_Monad.return (Some (Invalid_Argument ''Valid security level range is 1-3''))
      else do {
        e \<leftarrow> call (k_set_security kn sock level) (\<lambda>_. Set_Security sock level);
        (case e of
           None \<Rightarrow> State_Monad.return None
         | Some e \<Rightarrow>
             if e \<noteq> ENOPROTOOPT then State_Monad.return (Some (Failed_Call ''setsockopt(BT_SECURITY)'' e))
             else do {
               ret \<leftarrow> (if type = BT_IO_L2CAP then l2cap_set_lm kn sock level else rfcomm_set_lm kn sock level);
               State_Monad.return (if ret < 0 then Some (Failed_Call ''setsockopt(LM)'' (- ret)) else None)
             })
      })"

text \<open>The levels that the flags stand for; a later assignment wins.\<close>

definition lm_level :: "u32 \<Rightarrow> int" where
  "lm_level opt =
     (let l = 0;
          l = (if (opt AND LM_AUTH) \<noteq> 0 then BT_SECURITY_LOW else l);
          l = (if (opt AND LM_ENCRYPT) \<noteq> 0 then BT_SECURITY_MEDIUM else l)
      in if (opt AND LM_SECURE) \<noteq> 0 then BT_SECURITY_HIGH else l)"

definition get_lm :: "'k kernel \<Rightarrow> link \<Rightarrow> int \<Rightarrow> ('k, int + int) io" where
  "get_lm kn l sock = do {
     r \<leftarrow> call (k_get_lm kn sock l) (\<lambda>_. Get_LM sock l);
     State_Monad.return (map_sum (\<lambda>e. - e) lm_level r)
   }"

definition l2cap_get_lm :: "'k kernel \<Rightarrow> int \<Rightarrow> ('k, int + int) io" where
  "l2cap_get_lm kn = get_lm kn L2CAP_Link"

definition rfcomm_get_lm :: "'k kernel \<Rightarrow> int \<Rightarrow> ('k, int + int) io" where
  "rfcomm_get_lm kn = get_lm kn RFCOMM_Link"

definition get_sec_level :: "'k kernel \<Rightarrow> int \<Rightarrow> BtIOType \<Rightarrow> ('k, gerror + int) io" where
  "get_sec_level kn sock type = do {
     r \<leftarrow> call (k_get_security kn sock) (\<lambda>_. Get_Security sock);
     (case r of
        Inr (level, _) \<Rightarrow> State_Monad.return (Inr (uint level))
      | Inl e \<Rightarrow>
          if e \<noteq> ENOPROTOOPT then State_Monad.return (Inl (Failed_Call ''getsockopt(BT_SECURITY)'' e))
          else do {
            ret \<leftarrow> (if type = BT_IO_L2CAP then l2cap_get_lm kn sock else rfcomm_get_lm kn sock);
            State_Monad.return (case ret of Inl n \<Rightarrow> Inl (Failed_Call ''getsockopt(LM)'' (- n)) | Inr level \<Rightarrow> Inr level)
          })
   }"

definition l2cap_set_flushable :: "'k kernel \<Rightarrow> int \<Rightarrow> int \<Rightarrow> ('k, int) io" where
  "l2cap_set_flushable kn sock flushable = do {
     e \<leftarrow> call (k_set_int kn sock BT_FLUSHABLE (word_of_int flushable)) (\<lambda>_. Set_Int sock BT_FLUSHABLE (word_of_int flushable));
     State_Monad.return (neg_errno e)
   }"

definition set_priority :: "'k kernel \<Rightarrow> int \<Rightarrow> u32 \<Rightarrow> ('k, int) io" where
  "set_priority kn sock prio = do {
     e \<leftarrow> call (k_set_int kn sock SO_PRIORITY prio) (\<lambda>_. Set_Int sock SO_PRIORITY prio);
     State_Monad.return (neg_errno e)
   }"

text \<open>It fails without an error.\<close>

definition get_key_size :: "'k kernel \<Rightarrow> int \<Rightarrow> ('k, int option) io" where
  "get_key_size kn sock = do {
     r \<leftarrow> call (k_get_security kn sock) (\<lambda>_. Get_Security sock);
     State_Monad.return (case r of Inr (_, key_size) \<Rightarrow> Some (uint key_size) | Inl _ \<Rightarrow> None)
   }"

text \<open>The steps of the three functions that set options: each runs only if the one before did not fail.\<close>

definition and_then :: "('k, gerror option) io \<Rightarrow> ('k, gerror option) io \<Rightarrow> ('k, gerror option) io" where
  "and_then a b = do { r \<leftarrow> a; (case r of Some e \<Rightarrow> State_Monad.return (Some e) | None \<Rightarrow> b) }"

definition set_step :: "bool \<Rightarrow> string \<Rightarrow> ('k, int) io \<Rightarrow> ('k, gerror option) io" where
  "set_step wanted what a =
     (if wanted then do { r \<leftarrow> a; State_Monad.return (if r < 0 then Some (Failed_Call what (- r)) else None) }
      else State_Monad.return None)"

definition l2cap_set_options :: "'k kernel \<Rightarrow> int \<Rightarrow> u16 \<Rightarrow> u16 \<Rightarrow> u8 \<Rightarrow> ('k, gerror option) io" where
  "l2cap_set_options kn sock imtu omtu mode =
     (if imtu \<noteq> 0 \<or> omtu \<noteq> 0 \<or> mode \<noteq> 0 then do {
        r \<leftarrow> call (k_get_l2cap kn sock) (\<lambda>_. Get_L2cap sock);
        (case r of
           Inl e \<Rightarrow> State_Monad.return (Some (Failed_Call ''getsockopt(L2CAP_OPTIONS)'' e))
         | Inr l2o \<Rightarrow> do {
             let l2o = (if imtu \<noteq> 0 then l2o\<lparr>l2o_imtu := imtu\<rparr> else l2o);
             let l2o = (if omtu \<noteq> 0 then l2o\<lparr>l2o_omtu := omtu\<rparr> else l2o);
             let l2o = (if mode \<noteq> 0 then l2o\<lparr>l2o_mode := mode\<rparr> else l2o);
             e \<leftarrow> call (k_set_l2cap kn sock l2o) (\<lambda>_. Set_L2cap sock l2o);
             State_Monad.return (map_option (Failed_Call ''setsockopt(L2CAP_OPTIONS)'') e)
           })
      }
      else State_Monad.return None)"

definition l2cap_set ::
  "'k kernel \<Rightarrow> int \<Rightarrow> int \<Rightarrow> u16 \<Rightarrow> u16 \<Rightarrow> u8 \<Rightarrow> int \<Rightarrow> int \<Rightarrow> u32 \<Rightarrow> ('k, gerror option) io" where
  "l2cap_set kn sock sec_level imtu omtu mode master flushable priority =
     and_then (l2cap_set_options kn sock imtu omtu mode)
     (and_then (set_step (master \<ge> 0) ''l2cap_set_master'' (l2cap_set_master kn sock master))
     (and_then (set_step (flushable \<ge> 0) ''l2cap_set_flushable'' (l2cap_set_flushable kn sock flushable))
     (and_then (set_step (priority > 0) ''set_priority'' (set_priority kn sock priority))
     (if sec_level \<noteq> 0 then set_sec_level kn sock BT_IO_L2CAP sec_level else State_Monad.return None))))"

definition rfcomm_set :: "'k kernel \<Rightarrow> int \<Rightarrow> int \<Rightarrow> int \<Rightarrow> ('k, gerror option) io" where
  "rfcomm_set kn sock sec_level master =
     and_then (if sec_level \<noteq> 0 then set_sec_level kn sock BT_IO_RFCOMM sec_level else State_Monad.return None)
     (set_step (master \<ge> 0) ''rfcomm_set_master'' (rfcomm_set_master kn sock master))"

definition sco_set :: "'k kernel \<Rightarrow> int \<Rightarrow> u16 \<Rightarrow> u16 \<Rightarrow> ('k, gerror option) io" where
  "sco_set kn sock mtu voice =
     and_then
       (if mtu = 0 then State_Monad.return None
        else do {
          r \<leftarrow> call (k_get_sco kn sock) (\<lambda>_. Get_Sco sock);
          (case r of
             Inl e \<Rightarrow> State_Monad.return (Some (Failed_Call ''getsockopt(SCO_OPTIONS)'' e))
           | Inr _ \<Rightarrow> do {
               e \<leftarrow> call (k_set_sco kn sock mtu) (\<lambda>_. Set_Sco sock mtu);
               State_Monad.return (map_option (Failed_Call ''setsockopt(SCO_OPTIONS)'') e)
             })
        })
       (if voice = 0 then State_Monad.return None
        else do {
          e \<leftarrow> call (k_set_voice kn sock voice) (\<lambda>_. Set_Voice sock voice);
          State_Monad.return (map_option (Failed_Call ''setsockopt(BT_VOICE)'') e)
        })"

section \<open>The list of options\<close>

datatype BtIOOption =
    BT_IO_OPT_SOURCE | BT_IO_OPT_SOURCE_BDADDR | BT_IO_OPT_SOURCE_TYPE | BT_IO_OPT_DEST | BT_IO_OPT_DEST_BDADDR
  | BT_IO_OPT_DEST_TYPE | BT_IO_OPT_DEFER_TIMEOUT | BT_IO_OPT_SEC_LEVEL | BT_IO_OPT_KEY_SIZE | BT_IO_OPT_CHANNEL
  | BT_IO_OPT_SOURCE_CHANNEL | BT_IO_OPT_DEST_CHANNEL | BT_IO_OPT_PSM | BT_IO_OPT_CID | BT_IO_OPT_MTU | BT_IO_OPT_OMTU
  | BT_IO_OPT_IMTU | BT_IO_OPT_MASTER | BT_IO_OPT_HANDLE | BT_IO_OPT_CLASS | BT_IO_OPT_MODE | BT_IO_OPT_FLUSHABLE
  | BT_IO_OPT_PRIORITY | BT_IO_OPT_VOICE

text \<open>The variable arguments up to \<open>BT_IO_OPT_INVALID\<close>; reading one as another type is a fault.\<close>

datatype va_arg = Arg_Int int | Arg_Str string | Arg_Bdaddr bytes

record set_opts =
  so_src :: bytes
  so_dst :: bytes
  so_type :: BtIOType
  so_src_type :: u8
  so_dst_type :: u8
  so_defer :: int
  so_sec_level :: int
  so_channel :: u8
  so_psm :: u16
  so_cid :: u16
  so_mtu :: u16
  so_imtu :: u16
  so_omtu :: u16
  so_master :: int
  so_mode :: u8
  so_flushable :: int
  so_priority :: u32
  so_voice :: u16

abbreviation (input) DEFAULT_DEFER_TIMEOUT :: int where "DEFAULT_DEFER_TIMEOUT \<equiv> 30"
abbreviation (input) L2CAP_MODE_BASIC :: u8 where "L2CAP_MODE_BASIC \<equiv> 0"

definition default_opts :: set_opts where
  "default_opts = \<lparr>so_src = replicate 6 0, so_dst = replicate 6 0, so_type = BT_IO_SCO, so_src_type = BDADDR_BREDR,
     so_dst_type = BDADDR_BREDR, so_defer = DEFAULT_DEFER_TIMEOUT, so_sec_level = 0, so_channel = 0, so_psm = 0, so_cid = 0,
     so_mtu = 0, so_imtu = 0, so_omtu = 0, so_master = - 1, so_mode = L2CAP_MODE_BASIC, so_flushable = - 1, so_priority = 0,
     so_voice = 0\<rparr>"

definition set_int_opt :: "BtIOOption \<Rightarrow> int \<Rightarrow> set_opts \<Rightarrow> gerror + set_opts" where
  "set_int_opt opt n o1 = (case opt of
     BT_IO_OPT_SOURCE_TYPE \<Rightarrow> Inr (o1\<lparr>so_src_type := word_of_int n\<rparr>)
   | BT_IO_OPT_DEST_TYPE \<Rightarrow> Inr (o1\<lparr>so_dst_type := word_of_int n\<rparr>)
   | BT_IO_OPT_DEFER_TIMEOUT \<Rightarrow> Inr (o1\<lparr>so_defer := n\<rparr>)
   | BT_IO_OPT_SEC_LEVEL \<Rightarrow> Inr (o1\<lparr>so_sec_level := n\<rparr>)
   | BT_IO_OPT_CHANNEL \<Rightarrow> Inr (o1\<lparr>so_type := BT_IO_RFCOMM, so_channel := word_of_int n\<rparr>)
   | BT_IO_OPT_PSM \<Rightarrow> Inr (o1\<lparr>so_type := BT_IO_L2CAP, so_psm := word_of_int n\<rparr>)
   | BT_IO_OPT_CID \<Rightarrow> Inr (o1\<lparr>so_type := BT_IO_L2CAP, so_cid := word_of_int n\<rparr>)
   | BT_IO_OPT_MTU \<Rightarrow> Inr (o1\<lparr>so_mtu := word_of_int n, so_imtu := word_of_int n, so_omtu := word_of_int n\<rparr>)
   | BT_IO_OPT_OMTU \<Rightarrow>
       Inr (let o1 = o1\<lparr>so_omtu := word_of_int n\<rparr> in if so_mtu o1 = 0 then o1\<lparr>so_mtu := so_omtu o1\<rparr> else o1)
   | BT_IO_OPT_IMTU \<Rightarrow>
       Inr (let o1 = o1\<lparr>so_imtu := word_of_int n\<rparr> in if so_mtu o1 = 0 then o1\<lparr>so_mtu := so_imtu o1\<rparr> else o1)
   | BT_IO_OPT_MASTER \<Rightarrow> Inr (o1\<lparr>so_master := n\<rparr>)
   | BT_IO_OPT_MODE \<Rightarrow> Inr (o1\<lparr>so_mode := word_of_int n\<rparr>)
   | BT_IO_OPT_FLUSHABLE \<Rightarrow> Inr (o1\<lparr>so_flushable := n\<rparr>)
   | BT_IO_OPT_PRIORITY \<Rightarrow> Inr (o1\<lparr>so_priority := word_of_int n\<rparr>)
   | BT_IO_OPT_VOICE \<Rightarrow> Inr (o1\<lparr>so_voice := word_of_int n\<rparr>)
   | _ \<Rightarrow> Inl (Invalid_Argument ''Unknown option''))"

text \<open>The options that have no case in the loop.\<close>

definition unknown_set_opt :: "BtIOOption \<Rightarrow> bool" where
  "unknown_set_opt opt \<longleftrightarrow> opt \<in> {BT_IO_OPT_KEY_SIZE, BT_IO_OPT_SOURCE_CHANNEL, BT_IO_OPT_DEST_CHANNEL, BT_IO_OPT_HANDLE,
     BT_IO_OPT_CLASS}"

definition parse_set_opt :: "'k kernel \<Rightarrow> BtIOOption \<Rightarrow> va_arg \<Rightarrow> set_opts \<Rightarrow> (gerror + set_opts) option" where
  "parse_set_opt kn opt arg o1 =
     (if unknown_set_opt opt then Some (Inl (Invalid_Argument ''Unknown option''))
      else if opt = BT_IO_OPT_SOURCE
      then (case arg of Arg_Str s \<Rightarrow> Some (Inr (o1\<lparr>so_src := k_str2ba kn s\<rparr>)) | _ \<Rightarrow> None)
      else if opt = BT_IO_OPT_DEST
      then (case arg of Arg_Str s \<Rightarrow> Some (Inr (o1\<lparr>so_dst := k_str2ba kn s\<rparr>)) | _ \<Rightarrow> None)
      else if opt = BT_IO_OPT_SOURCE_BDADDR
      then (case arg of Arg_Bdaddr b \<Rightarrow> Some (Inr (o1\<lparr>so_src := b\<rparr>)) | _ \<Rightarrow> None)
      else if opt = BT_IO_OPT_DEST_BDADDR
      then (case arg of Arg_Bdaddr b \<Rightarrow> Some (Inr (o1\<lparr>so_dst := b\<rparr>)) | _ \<Rightarrow> None)
      else (case arg of Arg_Int n \<Rightarrow> Some (set_int_opt opt n o1) | _ \<Rightarrow> None))"

fun parse_set_loop :: "'k kernel \<Rightarrow> (BtIOOption \<times> va_arg) list \<Rightarrow> set_opts \<Rightarrow> (gerror + set_opts) option" where
  "parse_set_loop kn [] o1 = Some (Inr o1)"
| "parse_set_loop kn ((opt, arg) # args) o1 = do {
     r \<leftarrow> parse_set_opt kn opt arg o1;
     (case r of Inl e \<Rightarrow> Some (Inl e) | Inr o1 \<Rightarrow> parse_set_loop kn args o1)
   }"

definition parse_set_opts :: "'k kernel \<Rightarrow> (BtIOOption \<times> va_arg) list \<Rightarrow> (gerror + set_opts) option" where
  "parse_set_opts kn args = parse_set_loop kn args default_opts"

section \<open>Reading options\<close>

text \<open>What is written through the pointers that follow the options.\<close>

datatype out_value = Out_Str string | Out_Bdaddr bytes | Out_Int int | Out_Class bytes

text \<open>The end of such a function: TRUE, or FALSE with or without an error.\<close>

datatype get_end = Got_All | Get_Failed "gerror option"

definition get_peers :: "'k kernel \<Rightarrow> int \<Rightarrow> link \<Rightarrow> ('k, gerror + sockaddr \<times> sockaddr) io" where
  "get_peers kn sock l = do {
     s \<leftarrow> call (k_get_name kn sock l) (\<lambda>_. Get_Name sock l);
     (case s of
        Inl e \<Rightarrow> State_Monad.return (Inl (Failed_Call ''getsockname'' e))
      | Inr src \<Rightarrow> do {
          d \<leftarrow> call (k_get_peer kn sock l) (\<lambda>_. Get_Peer sock l);
          State_Monad.return (case d of Inl e \<Rightarrow> Inl (Failed_Call ''getpeername'' e) | Inr dst \<Rightarrow> Inr (src, dst))
        })
   }"

text \<open>The connection's handle and class: \<open>l2cap_get_info\<close>, \<open>rfcomm_get_info\<close> and \<open>sco_get_info\<close>.\<close>

definition get_info :: "'k kernel \<Rightarrow> int \<Rightarrow> link \<Rightarrow> ('k, int + u16 \<times> bytes) io" where
  "get_info kn sock l = do {
     r \<leftarrow> call (k_get_conninfo kn sock l) (\<lambda>_. Get_Conninfo sock l);
     State_Monad.return (map_sum (\<lambda>e. - e) (\<lambda>(handle, dev_class). (handle, take 3 dev_class)) r)
   }"

definition l2cap_get_flushable :: "'k kernel \<Rightarrow> int \<Rightarrow> ('k, int + bool) io" where
  "l2cap_get_flushable kn sock = do {
     r \<leftarrow> call (k_get_int kn sock BT_FLUSHABLE) (\<lambda>_. Get_Int sock BT_FLUSHABLE);
     State_Monad.return (map_sum (\<lambda>e. - e) (\<lambda>f. f \<noteq> 0) r)
   }"

definition get_priority :: "'k kernel \<Rightarrow> int \<Rightarrow> ('k, int + u32) io" where
  "get_priority kn sock = do {
     r \<leftarrow> call (k_get_int kn sock SO_PRIORITY) (\<lambda>_. Get_Int sock SO_PRIORITY);
     State_Monad.return (map_sum (\<lambda>e. - e) id r)
   }"

text \<open>One option: what it writes, or how the function fails. The options of the connection are shared by the links.\<close>

definition from_call :: "string \<Rightarrow> ('v \<Rightarrow> out_value) \<Rightarrow> int + 'v \<Rightarrow> gerror option + out_value" where
  "from_call what f r = (case r of Inl e \<Rightarrow> Inl (Some (Failed_Call what e)) | Inr v \<Rightarrow> Inr (f v))"

definition get_defer :: "'k kernel \<Rightarrow> int \<Rightarrow> ('k, gerror option + out_value) io" where
  "get_defer kn sock = do {
     r \<leftarrow> call (k_get_int kn sock BT_DEFER_SETUP) (\<lambda>_. Get_Int sock BT_DEFER_SETUP);
     State_Monad.return (from_call ''getsockopt(DEFER_SETUP)'' (\<lambda>n. Out_Int (sint n)) r)
   }"

definition get_level :: "'k kernel \<Rightarrow> int \<Rightarrow> BtIOType \<Rightarrow> ('k, gerror option + out_value) io" where
  "get_level kn sock type = do {
     r \<leftarrow> get_sec_level kn sock type;
     State_Monad.return (map_sum Some Out_Int r)
   }"

definition get_master :: "'k kernel \<Rightarrow> int \<Rightarrow> link \<Rightarrow> string \<Rightarrow> ('k, gerror option + out_value) io" where
  "get_master kn sock l what = do {
     r \<leftarrow> call (k_get_lm kn sock l) (\<lambda>_. Get_LM sock l);
     State_Monad.return (from_call what (\<lambda>flags. Out_Int (if (flags AND LM_MASTER) \<noteq> 0 then 1 else 0)) r)
   }"

definition get_handle :: "'k kernel \<Rightarrow> int \<Rightarrow> link \<Rightarrow> string \<Rightarrow> ('k, gerror option + out_value) io" where
  "get_handle kn sock l what = do {
     r \<leftarrow> get_info kn sock l;
     State_Monad.return (from_call what (\<lambda>(handle, _). Out_Int (uint handle)) (map_sum uminus id r))
   }"

definition get_class :: "'k kernel \<Rightarrow> int \<Rightarrow> link \<Rightarrow> string \<Rightarrow> ('k, gerror option + out_value) io" where
  "get_class kn sock l what = do {
     r \<leftarrow> get_info kn sock l;
     State_Monad.return (from_call what (\<lambda>(_, dev_class). Out_Class dev_class) (map_sum uminus id r))
   }"

abbreviation (input) written_out :: "out_value \<Rightarrow> ('k, gerror option + out_value) io" where
  "written_out v \<equiv> State_Monad.return (Inr v)"

abbreviation (input) unknown_get :: "('k, gerror option + out_value) io" where
  "unknown_get \<equiv> State_Monad.return (Inl (Some (Invalid_Argument ''Unknown option'')))"

definition l2cap_get_opt ::
  "'k kernel \<Rightarrow> int \<Rightarrow> l2cap_options \<Rightarrow> sockaddr \<Rightarrow> sockaddr \<Rightarrow> BtIOOption \<Rightarrow> ('k, gerror option + out_value) io" where
  "l2cap_get_opt kn sock l2o src dst opt = (case opt of
     BT_IO_OPT_SOURCE \<Rightarrow> written_out (Out_Str (k_ba2str kn (sa_bdaddr src)))
   | BT_IO_OPT_SOURCE_BDADDR \<Rightarrow> written_out (Out_Bdaddr (sa_bdaddr src))
   | BT_IO_OPT_DEST \<Rightarrow> written_out (Out_Str (k_ba2str kn (sa_bdaddr dst)))
   | BT_IO_OPT_DEST_BDADDR \<Rightarrow> written_out (Out_Bdaddr (sa_bdaddr dst))
   | BT_IO_OPT_DEST_TYPE \<Rightarrow> State_Monad.return (Inl (Some (Failed_Call ''Not implemented'' 22)))
   | BT_IO_OPT_DEFER_TIMEOUT \<Rightarrow> get_defer kn sock
   | BT_IO_OPT_SEC_LEVEL \<Rightarrow> get_level kn sock BT_IO_L2CAP
   | BT_IO_OPT_KEY_SIZE \<Rightarrow> do {
       r \<leftarrow> get_key_size kn sock;
       State_Monad.return (case r of None \<Rightarrow> Inl None | Some n \<Rightarrow> Inr (Out_Int n))
     }
   | BT_IO_OPT_PSM \<Rightarrow> written_out (Out_Int (uint (if sa_psm src \<noteq> 0 then sa_psm src else sa_psm dst)))
   | BT_IO_OPT_CID \<Rightarrow> written_out (Out_Int (uint (if sa_cid src \<noteq> 0 then sa_cid src else sa_cid dst)))
   | BT_IO_OPT_OMTU \<Rightarrow> written_out (Out_Int (uint (l2o_omtu l2o)))
   | BT_IO_OPT_IMTU \<Rightarrow> written_out (Out_Int (uint (l2o_imtu l2o)))
   | BT_IO_OPT_MASTER \<Rightarrow> get_master kn sock L2CAP_Link ''getsockopt(L2CAP_LM)''
   | BT_IO_OPT_HANDLE \<Rightarrow> get_handle kn sock L2CAP_Link ''L2CAP_CONNINFO''
   | BT_IO_OPT_CLASS \<Rightarrow> get_class kn sock L2CAP_Link ''L2CAP_CONNINFO''
   | BT_IO_OPT_MODE \<Rightarrow> written_out (Out_Int (uint (l2o_mode l2o)))
   | BT_IO_OPT_FLUSHABLE \<Rightarrow> do {
       r \<leftarrow> l2cap_get_flushable kn sock;
       State_Monad.return (from_call ''get_flushable'' (\<lambda>b. Out_Int (if b then 1 else 0)) (map_sum uminus id r))
     }
   | BT_IO_OPT_PRIORITY \<Rightarrow> do {
       r \<leftarrow> get_priority kn sock;
       State_Monad.return (from_call ''get_priority'' (\<lambda>n. Out_Int (uint n)) (map_sum uminus id r))
     }
   | _ \<Rightarrow> unknown_get)"

definition rfcomm_get_opt ::
  "'k kernel \<Rightarrow> int \<Rightarrow> sockaddr \<Rightarrow> sockaddr \<Rightarrow> BtIOOption \<Rightarrow> ('k, gerror option + out_value) io" where
  "rfcomm_get_opt kn sock src dst opt = (case opt of
     BT_IO_OPT_SOURCE \<Rightarrow> written_out (Out_Str (k_ba2str kn (sa_bdaddr src)))
   | BT_IO_OPT_SOURCE_BDADDR \<Rightarrow> written_out (Out_Bdaddr (sa_bdaddr src))
   | BT_IO_OPT_DEST \<Rightarrow> written_out (Out_Str (k_ba2str kn (sa_bdaddr dst)))
   | BT_IO_OPT_DEST_BDADDR \<Rightarrow> written_out (Out_Bdaddr (sa_bdaddr dst))
   | BT_IO_OPT_DEFER_TIMEOUT \<Rightarrow> get_defer kn sock
   | BT_IO_OPT_SEC_LEVEL \<Rightarrow> get_level kn sock BT_IO_RFCOMM
   | BT_IO_OPT_CHANNEL \<Rightarrow> written_out (Out_Int (uint (if sa_channel src \<noteq> 0 then sa_channel src else sa_channel dst)))
   | BT_IO_OPT_SOURCE_CHANNEL \<Rightarrow> written_out (Out_Int (uint (sa_channel src)))
   | BT_IO_OPT_DEST_CHANNEL \<Rightarrow> written_out (Out_Int (uint (sa_channel dst)))
   | BT_IO_OPT_MASTER \<Rightarrow> get_master kn sock RFCOMM_Link ''getsockopt(RFCOMM_LM)''
   | BT_IO_OPT_HANDLE \<Rightarrow> get_handle kn sock RFCOMM_Link ''RFCOMM_CONNINFO''
   | BT_IO_OPT_CLASS \<Rightarrow> get_class kn sock RFCOMM_Link ''RFCOMM_CONNINFO''
   | _ \<Rightarrow> unknown_get)"

definition sco_get_opt ::
  "'k kernel \<Rightarrow> int \<Rightarrow> u16 \<Rightarrow> sockaddr \<Rightarrow> sockaddr \<Rightarrow> BtIOOption \<Rightarrow> ('k, gerror option + out_value) io" where
  "sco_get_opt kn sock mtu src dst opt = (case opt of
     BT_IO_OPT_SOURCE \<Rightarrow> written_out (Out_Str (k_ba2str kn (sa_bdaddr src)))
   | BT_IO_OPT_SOURCE_BDADDR \<Rightarrow> written_out (Out_Bdaddr (sa_bdaddr src))
   | BT_IO_OPT_DEST \<Rightarrow> written_out (Out_Str (k_ba2str kn (sa_bdaddr dst)))
   | BT_IO_OPT_DEST_BDADDR \<Rightarrow> written_out (Out_Bdaddr (sa_bdaddr dst))
   | BT_IO_OPT_MTU \<Rightarrow> written_out (Out_Int (uint mtu))
   | BT_IO_OPT_IMTU \<Rightarrow> written_out (Out_Int (uint mtu))
   | BT_IO_OPT_OMTU \<Rightarrow> written_out (Out_Int (uint mtu))
   | BT_IO_OPT_HANDLE \<Rightarrow> get_handle kn sock SCO_Link ''SCO_CONNINFO''
   | BT_IO_OPT_CLASS \<Rightarrow> get_class kn sock SCO_Link ''SCO_CONNINFO''
   | _ \<Rightarrow> unknown_get)"

text \<open>The loop over the options: what was written before it ends, and how it ends.\<close>

fun get_loop ::
  "(BtIOOption \<Rightarrow> ('k, gerror option + out_value) io) \<Rightarrow> BtIOOption list \<Rightarrow> ('k, out_value list \<times> get_end) io" where
  "get_loop get [] = State_Monad.return ([], Got_All)"
| "get_loop get (opt # opts) = do {
     r \<leftarrow> get opt;
     (case r of
        Inl e \<Rightarrow> State_Monad.return ([], Get_Failed e)
      | Inr v \<Rightarrow> do { (outs, e) \<leftarrow> get_loop get opts; State_Monad.return (v # outs, e) })
   }"

definition l2cap_get :: "'k kernel \<Rightarrow> int \<Rightarrow> BtIOOption list \<Rightarrow> ('k, out_value list \<times> get_end) io" where
  "l2cap_get kn sock opts = do {
     r \<leftarrow> call (k_get_l2cap kn sock) (\<lambda>_. Get_L2cap sock);
     (case r of
        Inl e \<Rightarrow> State_Monad.return ([], Get_Failed (Some (Failed_Call ''getsockopt(L2CAP_OPTIONS)'' e)))
      | Inr l2o \<Rightarrow> do {
          p \<leftarrow> get_peers kn sock L2CAP_Link;
          (case p of
             Inl e \<Rightarrow> State_Monad.return ([], Get_Failed (Some e))
           | Inr (src, dst) \<Rightarrow> get_loop (l2cap_get_opt kn sock l2o src dst) opts)
        })
   }"

definition rfcomm_get :: "'k kernel \<Rightarrow> int \<Rightarrow> BtIOOption list \<Rightarrow> ('k, out_value list \<times> get_end) io" where
  "rfcomm_get kn sock opts = do {
     p \<leftarrow> get_peers kn sock RFCOMM_Link;
     (case p of
        Inl e \<Rightarrow> State_Monad.return ([], Get_Failed (Some e))
      | Inr (src, dst) \<Rightarrow> get_loop (rfcomm_get_opt kn sock src dst) opts)
   }"

definition sco_get :: "'k kernel \<Rightarrow> int \<Rightarrow> BtIOOption list \<Rightarrow> ('k, out_value list \<times> get_end) io" where
  "sco_get kn sock opts = do {
     r \<leftarrow> call (k_get_sco kn sock) (\<lambda>_. Get_Sco sock);
     (case r of
        Inl e \<Rightarrow> State_Monad.return ([], Get_Failed (Some (Failed_Call ''getsockopt(SCO_OPTIONS)'' e)))
      | Inr mtu \<Rightarrow> do {
          p \<leftarrow> get_peers kn sock SCO_Link;
          (case p of
             Inl e \<Rightarrow> State_Monad.return ([], Get_Failed (Some e))
           | Inr (src, dst) \<Rightarrow> get_loop (sco_get_opt kn sock mtu src dst) opts)
        })
   }"

definition get_valist :: "'k kernel \<Rightarrow> int \<Rightarrow> BtIOType \<Rightarrow> BtIOOption list \<Rightarrow> ('k, out_value list \<times> get_end) io" where
  "get_valist kn sock type opts = (case type of
     BT_IO_L2CAP \<Rightarrow> l2cap_get kn sock opts
   | BT_IO_RFCOMM \<Rightarrow> rfcomm_get kn sock opts
   | BT_IO_SCO \<Rightarrow> sco_get kn sock opts
   | BT_IO_INVALID \<Rightarrow> State_Monad.return ([], Get_Failed (Some (Invalid_Argument ''Unknown BtIO type''))))"

definition bt_io_get :: "'k kernel \<Rightarrow> int \<Rightarrow> BtIOOption list \<Rightarrow> ('k, out_value list \<times> get_end) io" where
  "bt_io_get kn sock opts = do {
     t \<leftarrow> bt_io_get_type kn sock;
     (case t of
        Inl e \<Rightarrow> State_Monad.return ([], Get_Failed (Some e))
      | Inr type \<Rightarrow> get_valist kn sock type opts)
   }"

section \<open>Setting options\<close>

text \<open>The result is the error, if the function returns FALSE.\<close>

definition bt_io_set :: "'k kernel \<Rightarrow> int \<Rightarrow> (BtIOOption \<times> va_arg) list \<Rightarrow> ('k, gerror option) io option" where
  "bt_io_set kn sock args = do {
     p \<leftarrow> parse_set_opts kn args;
     Some (case p of
       Inl e \<Rightarrow> State_Monad.return (Some e)
     | Inr o1 \<Rightarrow> do {
         t \<leftarrow> bt_io_get_type kn sock;
         (case t of
            Inl e \<Rightarrow> State_Monad.return (Some e)
          | Inr BT_IO_L2CAP \<Rightarrow> l2cap_set kn sock (so_sec_level o1) (so_imtu o1) (so_omtu o1) (so_mode o1) (so_master o1)
              (so_flushable o1) (so_priority o1)
          | Inr BT_IO_RFCOMM \<Rightarrow> rfcomm_set kn sock (so_sec_level o1) (so_master o1)
          | Inr BT_IO_SCO \<Rightarrow> sco_set kn sock (so_mtu o1) (so_voice o1)
          | Inr BT_IO_INVALID \<Rightarrow> State_Monad.return (Some (Invalid_Argument ''Unknown BtIO type'')))
       })
   }"

section \<open>Opening channels\<close>

text \<open>A socket that cannot be set up is closed.\<close>

definition or_close :: "'k kernel \<Rightarrow> int \<Rightarrow> ('k, gerror option) io \<Rightarrow> ('k, gerror + int) io" where
  "or_close kn sock a = do {
     r \<leftarrow> a;
     (case r of
        None \<Rightarrow> State_Monad.return (Inr sock)
      | Some e \<Rightarrow> do { _ \<leftarrow> call (k_close kn sock) (\<lambda>_. Close sock); State_Monad.return (Inl e) })
   }"

definition open_socket :: "'k kernel \<Rightarrow> link \<Rightarrow> string \<Rightarrow> (int \<Rightarrow> ('k, gerror option) io) \<Rightarrow> ('k, gerror + int) io" where
  "open_socket kn l what setup = do {
     s \<leftarrow> call (k_socket kn l) (Socket l);
     (case s of
        Inl e \<Rightarrow> State_Monad.return (Inl (Failed_Call what e))
      | Inr sock \<Rightarrow> or_close kn sock (setup sock))
   }"

definition create_io :: "'k kernel \<Rightarrow> bool \<Rightarrow> set_opts \<Rightarrow> ('k, gerror + int) io" where
  "create_io kn server o1 = (case so_type o1 of
     BT_IO_L2CAP \<Rightarrow> open_socket kn L2CAP_Link ''socket(SEQPACKET, L2CAP)'' (\<lambda>sock.
       and_then (l2cap_bind kn sock (so_src o1) (so_src_type o1) (if server then so_psm o1 else 0) (so_cid o1))
         (l2cap_set kn sock (so_sec_level o1) (so_imtu o1) (so_omtu o1) (so_mode o1) (so_master o1) (so_flushable o1) (so_priority o1)))
   | BT_IO_RFCOMM \<Rightarrow> open_socket kn RFCOMM_Link ''socket(STREAM, RFCOMM)'' (\<lambda>sock.
       and_then (rfcomm_bind kn sock (so_src o1) (if server then so_channel o1 else 0))
         (rfcomm_set kn sock (so_sec_level o1) (so_master o1)))
   | BT_IO_SCO \<Rightarrow> open_socket kn SCO_Link ''socket(SEQPACKET, SCO)'' (\<lambda>sock.
       and_then (sco_bind kn sock (so_src o1)) (sco_set kn sock (so_mtu o1) (so_voice o1)))
   | BT_IO_INVALID \<Rightarrow> State_Monad.return (Inl (Invalid_Argument ''Unknown BtIO type'')))"

text \<open>The connection is started; the caller learns of its end through the source that is added to the main loop.\<close>

definition bt_io_connect :: "'k kernel \<Rightarrow> (BtIOOption \<times> va_arg) list \<Rightarrow> ('k, gerror + int) io option" where
  "bt_io_connect kn args = do {
     p \<leftarrow> parse_set_opts kn args;
     Some (case p of
       Inl e \<Rightarrow> State_Monad.return (Inl e)
     | Inr o1 \<Rightarrow> do {
         io \<leftarrow> create_io kn False o1;
         (case io of
            Inl e \<Rightarrow> State_Monad.return (Inl e)
          | Inr sock \<Rightarrow> do {
              err \<leftarrow> (case so_type o1 of
                 BT_IO_L2CAP \<Rightarrow> l2cap_connect kn sock (so_dst o1) (so_dst_type o1) (so_psm o1) (so_cid o1)
               | BT_IO_RFCOMM \<Rightarrow> rfcomm_connect kn sock (so_dst o1) (so_channel o1)
               | _ \<Rightarrow> sco_connect kn sock (so_dst o1));
              (if err < 0 then do {
                 _ \<leftarrow> call (k_close kn sock) (\<lambda>_. Close sock);
                 State_Monad.return (Inl (Failed_Call ''connect'' (- err)))
               }
               else do { note_watch (Watch_Connect sock); State_Monad.return (Inr sock) })
            })
       })
   }"

text \<open>\<open>confirm\<close> says whether the caller has a callback for it.\<close>

definition bt_io_listen :: "'k kernel \<Rightarrow> bool \<Rightarrow> (BtIOOption \<times> va_arg) list \<Rightarrow> ('k, gerror + int) io option" where
  "bt_io_listen kn confirm args = do {
     p \<leftarrow> parse_set_opts kn args;
     Some (case p of
       Inl e \<Rightarrow> State_Monad.return (Inl e)
     | Inr o1 \<Rightarrow> do {
         io \<leftarrow> create_io kn True o1;
         (case io of
            Inl e \<Rightarrow> State_Monad.return (Inl e)
          | Inr sock \<Rightarrow> do {
              _ \<leftarrow> (if confirm
                   then call (k_set_int kn sock BT_DEFER_SETUP (word_of_int (so_defer o1)))
                     (\<lambda>_. Set_Int sock BT_DEFER_SETUP (word_of_int (so_defer o1)))
                   else State_Monad.return None);
              r \<leftarrow> call (k_listen kn sock) (\<lambda>_. Listen sock);
              (case r of
                 Some e \<Rightarrow> do {
                   _ \<leftarrow> call (k_close kn sock) (\<lambda>_. Close sock);
                   State_Monad.return (Inl (Failed_Call ''listen'' e))
                 }
               | None \<Rightarrow> do { note_watch (Watch_Server sock); State_Monad.return (Inr sock) })
            })
       })
   }"

definition bt_io_accept :: "'k kernel \<Rightarrow> int \<Rightarrow> ('k, gerror option) io" where
  "bt_io_accept kn sock = do {
     p \<leftarrow> call (k_poll_out kn sock) (\<lambda>_. Poll_Out sock);
     (case p of
        Inl e \<Rightarrow> State_Monad.return (Some (Failed_Call ''poll'' e))
      | Inr ready \<Rightarrow> do {
          r \<leftarrow> (if ready then State_Monad.return None else call (k_read_byte kn sock) (\<lambda>_. Read_Byte sock));
          (case r of
             Some e \<Rightarrow> State_Monad.return (Some (Failed_Call ''read'' e))
           | None \<Rightarrow> do { note_watch (Watch_Accept sock); State_Monad.return None })
        })
   }"

section \<open>The sources of the main loop\<close>

text \<open>What a handler does: whether its source stays, and the callback of the client that it runs.\<close>

datatype client_call = No_Call | Connect_Call int "gerror option" | Confirm_Call int

definition check_nval :: "'k kernel \<Rightarrow> int \<Rightarrow> ('k, bool) io" where
  "check_nval kn sock = call (k_poll_nval kn sock) (\<lambda>_. Poll_Nval sock)"

definition socket_error :: "'k kernel \<Rightarrow> int \<Rightarrow> string \<Rightarrow> ('k, gerror option) io" where
  "socket_error kn sock what = do {
     r \<leftarrow> call (k_get_int kn sock SO_ERROR) (\<lambda>_. Get_Int sock SO_ERROR);
     let err = (case r of Inl e \<Rightarrow> - e | Inr sk_err \<Rightarrow> - sint sk_err);
     State_Monad.return (if err < 0 then Some (Failed_Call what (- err)) else None)
   }"

text \<open>\<open>nval\<close> and \<open>hup\<close>: the condition has NVAL, or one of HUP and ERR.\<close>

definition bt_accept_cb :: "'k kernel \<Rightarrow> bool \<Rightarrow> bool \<Rightarrow> int \<Rightarrow> ('k, bool \<times> client_call) io" where
  "bt_accept_cb kn nval hup sock = do {
     n \<leftarrow> (if nval then State_Monad.return True else check_nval kn sock);
     (if n then State_Monad.return (False, No_Call)
      else do {
        gerr \<leftarrow> (if hup then socket_error kn sock ''HUP or ERR on socket'' else State_Monad.return None);
        State_Monad.return (False, Connect_Call sock gerr)
      })
   }"

definition bt_connect_cb :: "'k kernel \<Rightarrow> bool \<Rightarrow> int \<Rightarrow> ('k, bool \<times> client_call) io" where
  "bt_connect_cb kn nval sock = do {
     n \<leftarrow> (if nval then State_Monad.return True else check_nval kn sock);
     (if n then State_Monad.return (False, No_Call)
      else do {
        gerr \<leftarrow> socket_error kn sock ''connect error'';
        State_Monad.return (False, Connect_Call sock gerr)
      })
   }"

definition bt_server_cb :: "'k kernel \<Rightarrow> bool \<Rightarrow> bool \<Rightarrow> int \<Rightarrow> ('k, bool \<times> client_call) io" where
  "bt_server_cb kn confirm nval sock = do {
     n \<leftarrow> (if nval then State_Monad.return True else check_nval kn sock);
     (if n then State_Monad.return (False, No_Call)
      else do {
        r \<leftarrow> call (k_accept kn sock) (Accept sock);
        State_Monad.return (case r of
          Inl _ \<Rightarrow> (True, No_Call)
        | Inr cli \<Rightarrow> (True, if confirm then Confirm_Call cli else Connect_Call cli None))
      })
   }"

end
