(* ===== verification/Btio_Props.thy ===== *)
theory Btio_Props
  imports Btio "HOL-Library.Multiset"
begin

text \<open>
  What the socket functions promise: no socket is lost on any path, whatever the kernel answers; the security level
  survives kernels without the option for it, the role of the link does not.
\<close>

section \<open>Running the monad\<close>

lemma run_return [simp]: "run_state (State_Monad.return x) s = (x, s)"
  by (simp add: State_Monad.return_def)

lemma run_bind [simp]: "run_state (State_Monad.bind m f) s = (case run_state m s of (a, t) \<Rightarrow> run_state (f a) t)"
  by (simp add: State_Monad.bind_def)

lemma run_call [simp]: "run_state (call f c) (k, t) = (fst (f k), (snd (f k), t @ [c (fst (f k))]))"
  by (simp add: call_def case_prod_beta)

lemma run_watch [simp]: "run_state (note_watch c) (k, t) = ((), (k, t @ [c]))"
  by (simp add: note_watch_def)

section \<open>Open sockets\<close>

text \<open>The descriptors that are open after a trace, as often as they were opened.\<close>

fun after_call :: "int multiset \<Rightarrow> syscall \<Rightarrow> int multiset" where
  "after_call fds (Socket l (Inr fd)) = add_mset fd fds"
| "after_call fds (Accept s (Inr fd)) = add_mset fd fds"
| "after_call fds (Close fd) = fds - {#fd#}"
| "after_call fds _ = fds"

definition open_fds :: "syscall list \<Rightarrow> int multiset" where
  "open_fds trace = foldl after_call {#} trace"

lemma open_fds_snoc: "open_fds (t @ [c]) = after_call (open_fds t) c"
  by (simp add: open_fds_def)

text \<open>An action adds the descriptors \<open>f\<close> of its result.\<close>

definition adds :: "('a \<Rightarrow> int multiset) \<Rightarrow> ('k, 'a) io \<Rightarrow> bool" where
  "adds f m \<longleftrightarrow> (\<forall>k t. open_fds (snd (snd (run_state m (k, t)))) = open_fds t + f (fst (run_state m (k, t))))"

abbreviation keeps_fds :: "('k, 'a) io \<Rightarrow> bool" where
  "keeps_fds \<equiv> adds (\<lambda>_. {#})"

named_theorems fds_intro \<open>actions that open no socket\<close>

lemma addsD: "adds f m \<Longrightarrow> run_state m (k, t) = (r, k', t') \<Longrightarrow> open_fds t' = open_fds t + f r"
  by (metis adds_def fst_conv snd_conv)

lemma adds_return: "f x = {#} \<Longrightarrow> adds f (State_Monad.return x)"
  by (simp add: adds_def)

lemma keeps_bind [fds_intro]:
  assumes "keeps_fds m" "\<And>a. adds f (n a)"
  shows "adds f (State_Monad.bind m n)"
proof -
  have "open_fds t2 = open_fds t + f b" if "run_state m (k, t) = (a, k1, t1)" "run_state (n a) (k1, t1) = (b, k2, t2)" for k t a k1 t1 b k2 t2
    using addsD [OF assms(1) that(1)] addsD [OF assms(2) that(2)] by simp
  then show ?thesis
    unfolding adds_def by (auto split: prod.split) (metis prod.collapse)
qed

lemma keeps_return [fds_intro]: "keeps_fds (State_Monad.return x)"
  by (simp add: adds_def)

text \<open>The calls that neither open nor close.\<close>

definition plain_call :: "syscall \<Rightarrow> bool" where
  "plain_call c \<longleftrightarrow> (\<forall>fds. after_call fds c = fds)"

lemma plain_calls [simp]:
  "plain_call (Bind s l a)" "plain_call (Connect s l a)" "plain_call (Listen s)" "plain_call (Get_Int s i)" "plain_call (Set_Int s i v)"
  "plain_call (Get_LM s l)" "plain_call (Set_LM s l v)" "plain_call (Get_Security s)" "plain_call (Set_Security s n)"
  "plain_call (Get_L2cap s)" "plain_call (Set_L2cap s l2)" "plain_call (Get_Sco s)" "plain_call (Set_Sco s m)" "plain_call (Set_Voice s m)"
  "plain_call (Watch_Connect s)" "plain_call (Watch_Server s)" "plain_call (Watch_Accept s)" "plain_call (Socket l (Inl e))"
  by (simp_all add: plain_call_def)

lemma keeps_call [fds_intro]: "(\<And>a. plain_call (c a)) \<Longrightarrow> keeps_fds (call f c)"
  by (simp add: adds_def open_fds_snoc plain_call_def)

lemma keeps_watch [fds_intro]: "plain_call c \<Longrightarrow> keeps_fds (note_watch c)"
  by (simp add: adds_def open_fds_snoc plain_call_def)

lemma keeps_if [fds_intro]: "adds f a \<Longrightarrow> adds f b \<Longrightarrow> adds f (if c then a else b)"
  by simp

lemma keeps_sum [fds_intro]: "(\<And>e. adds f (a e)) \<Longrightarrow> (\<And>v. adds f (b v)) \<Longrightarrow> adds f (case r of Inl e \<Rightarrow> a e | Inr v \<Rightarrow> b v)"
  by (simp split: sum.split)

lemma keeps_option [fds_intro]: "adds f a \<Longrightarrow> (\<And>v. adds f (b v)) \<Longrightarrow> adds f (case r of None \<Rightarrow> a | Some v \<Rightarrow> b v)"
  by (simp split: option.split)

lemma keeps_let [fds_intro]: "adds f (g x) \<Longrightarrow> adds f (Let x g)"
  by simp

lemma keeps_and_then [fds_intro]: "keeps_fds a \<Longrightarrow> keeps_fds b \<Longrightarrow> keeps_fds (and_then a b)"
  unfolding and_then_def by (intro fds_intro)

lemma keeps_set_step [fds_intro]: "keeps_fds a \<Longrightarrow> keeps_fds (set_step w what a)"
  unfolding set_step_def by (intro fds_intro)

lemma setters_keep [fds_intro]:
  "keeps_fds (set_master kn l s m)" "keeps_fds (set_lm kn l s n)" "keeps_fds (l2cap_set_flushable kn s i)" "keeps_fds (set_priority kn s p)"
  "keeps_fds (l2cap_set_options kn s im om mo)"
  unfolding set_master_def set_lm_def l2cap_set_flushable_def set_priority_def l2cap_set_options_def
  by (intro fds_intro; simp)+

lemma set_sec_level_keeps [fds_intro]: "keeps_fds (set_sec_level kn s t n)"
  unfolding set_sec_level_def l2cap_set_lm_def rfcomm_set_lm_def by (intro fds_intro) simp_all

lemma sets_keep [fds_intro]:
  "keeps_fds (l2cap_set kn s sec im om mo ma fl pr)" "keeps_fds (rfcomm_set kn s sec ma)" "keeps_fds (sco_set kn s mtu v)"
  "keeps_fds (l2cap_bind kn s a t p c)" "keeps_fds (rfcomm_bind kn s a ch)" "keeps_fds (sco_bind kn s a)"
  "keeps_fds (l2cap_connect kn s a t p c)" "keeps_fds (rfcomm_connect kn s a ch)" "keeps_fds (sco_connect kn s a)"
  unfolding l2cap_set_def l2cap_set_master_def rfcomm_set_def rfcomm_set_master_def sco_set_def l2cap_bind_def rfcomm_bind_def sco_bind_def
    l2cap_connect_def rfcomm_connect_def sco_connect_def start_connect_def
  by (intro fds_intro; simp)+

section \<open>Every socket is handed out or closed\<close>

text \<open>The descriptor that a function returns.\<close>

definition handed_out :: "gerror + int \<Rightarrow> int multiset" where
  "handed_out r = (case r of Inl _ \<Rightarrow> {#} | Inr fd \<Rightarrow> {#fd#})"

lemma adds_fail: "adds handed_out (State_Monad.return (Inl e))"
  by (simp add: adds_return handed_out_def)

text \<open>What follows a successful open either keeps the socket or closes it.\<close>

definition settles :: "int \<Rightarrow> ('k, gerror + int) io \<Rightarrow> bool" where
  "settles fd m \<longleftrightarrow> (\<forall>k t r k' t'. run_state m (k, t) = (r, k', t') \<longrightarrow> fd \<in># open_fds t \<longrightarrow>
     open_fds t' = open_fds t - {#fd#} + handed_out r)"

lemma settles_bind:
  assumes "keeps_fds m" "\<And>a. settles fd (n a)"
  shows "settles fd (State_Monad.bind m n)"
  unfolding settles_def
proof (intro allI impI)
  fix k t r k' t' assume run: "run_state (State_Monad.bind m n) (k, t) = (r, k', t')" and fd: "fd \<in># open_fds t"
  obtain a k1 t1 where a: "run_state m (k, t) = (a, k1, t1)" by (metis prod.collapse)
  then have "open_fds t1 = open_fds t" "run_state (n a) (k1, t1) = (r, k', t')" using addsD [OF assms(1) a] run by simp_all
  then show "open_fds t' = open_fds t - {#fd#} + handed_out r" using assms(2) [of a] fd unfolding settles_def by metis
qed

lemma settles_keep: "settles fd (State_Monad.return (Inr fd))"
  by (simp add: settles_def handed_out_def)

lemma settles_close: "settles fd (State_Monad.bind (call f (\<lambda>_. Close fd)) (\<lambda>_. State_Monad.return (Inl e)))"
  by (simp add: settles_def handed_out_def open_fds_snoc)

lemma or_close_settles: "keeps_fds a \<Longrightarrow> settles fd (or_close kn fd a)"
  unfolding or_close_def by (rule settles_bind) (simp_all add: settles_keep settles_close split: option.split)

lemma open_socket_adds:
  assumes "\<And>fd. keeps_fds (setup fd)"
  shows "adds handed_out (open_socket kn l what setup)"
proof -
  have "open_fds t' = open_fds t + handed_out r" if "run_state (open_socket kn l what setup) (k, t) = (r, k', t')" for k t r k' t'
  proof (cases "fst (k_socket kn l k)")
    case (Inl e)
    then show ?thesis using that by (auto simp: open_socket_def open_fds_snoc handed_out_def)
  next
    case (Inr fd)
    then have "run_state (or_close kn fd (setup fd)) (snd (k_socket kn l k), t @ [Socket l (Inr fd)]) = (r, k', t')"
      using that by (simp add: open_socket_def)
    then show ?thesis
      using or_close_settles [OF assms, of fd kn] unfolding settles_def by (fastforce simp: open_fds_snoc)
  qed
  then show ?thesis unfolding adds_def by (metis prod.collapse)
qed

lemma create_io_adds: "adds handed_out (create_io kn server o1)"
proof -
  note intros = open_socket_adds [OF keeps_and_then [OF sets_keep(4) sets_keep(1)]] open_socket_adds [OF keeps_and_then [OF sets_keep(5) sets_keep(2)]]
    open_socket_adds [OF keeps_and_then [OF sets_keep(6) sets_keep(3)]]
  show ?thesis unfolding create_io_def by (cases "so_type o1") (simp_all only: BtIOType.case intros adds_fail)
qed

lemma adds_settles:
  assumes "adds handed_out m" "\<And>e. n (Inl e) = State_Monad.return (Inl e)" "\<And>fd. settles fd (n (Inr fd))"
  shows "adds handed_out (State_Monad.bind m n)"
proof -
  have "open_fds t' = open_fds t + handed_out r" if "run_state (State_Monad.bind m n) (k, t) = (r, k', t')" for k t r k' t'
  proof -
    obtain a k1 t1 where a: "run_state m (k, t) = (a, k1, t1)" by (metis prod.collapse)
    then have o: "open_fds t1 = open_fds t + handed_out a" "run_state (n a) (k1, t1) = (r, k', t')" using addsD [OF assms(1) a] that by simp_all
    show ?thesis
    proof (cases a)
      case (Inl e)
      then show ?thesis using o assms(2) [of e] by (auto simp: handed_out_def)
    next
      case (Inr fd)
      then have "open_fds t1 = add_mset fd (open_fds t)" using o(1) by (simp add: handed_out_def)
      then show ?thesis using assms(3) [of fd] o(2) Inr unfolding settles_def by fastforce
    qed
  qed
  then show ?thesis unfolding adds_def by (metis prod.collapse)
qed

lemma watch_settles: "plain_call c \<Longrightarrow> settles fd (State_Monad.bind (note_watch c) (\<lambda>_. State_Monad.return (Inr fd)))"
  by (rule settles_bind [OF keeps_watch]) (simp_all add: settles_keep)

lemma connect_settles:
  "keeps_fds m \<Longrightarrow> settles fd (State_Monad.bind m (\<lambda>err. if err < 0
     then State_Monad.bind (call f (\<lambda>_. Close fd)) (\<lambda>_. State_Monad.return (Inl (e err)))
     else State_Monad.bind (note_watch (Watch_Connect fd)) (\<lambda>_. State_Monad.return (Inr fd))))"
  by (rule settles_bind) (simp_all add: settles_close watch_settles)

lemma listen_settles:
  "keeps_fds m \<Longrightarrow> keeps_fds m2 \<Longrightarrow> settles fd (State_Monad.bind m (\<lambda>_. State_Monad.bind m2 (\<lambda>r. case r of
     Some e \<Rightarrow> State_Monad.bind (call f (\<lambda>_. Close fd)) (\<lambda>_. State_Monad.return (Inl (g e)))
   | None \<Rightarrow> State_Monad.bind (note_watch (Watch_Server fd)) (\<lambda>_. State_Monad.return (Inr fd)))))"
  by (intro settles_bind) (simp_all add: settles_close watch_settles split: option.split)

lemma connect_adds:
  assumes "bt_io_connect kn args = Some m"
  shows "adds handed_out m"
proof -
  obtain p where p: "parse_set_opts kn args = Some p" using assms by (auto simp: bt_io_connect_def bind_eq_Some_conv)
  have k: "keeps_fds (case so_type o1 of BT_IO_L2CAP \<Rightarrow> l2cap_connect kn fd (so_dst o1) (so_dst_type o1) (so_psm o1) (so_cid o1)
      | BT_IO_RFCOMM \<Rightarrow> rfcomm_connect kn fd (so_dst o1) (so_channel o1) | _ \<Rightarrow> sco_connect kn fd (so_dst o1))" for o1 fd
    by (cases "so_type o1") (simp_all add: sets_keep)
  show ?thesis
  proof (cases p)
    case (Inl e)
    then show ?thesis using assms p by (auto simp: bt_io_connect_def adds_fail)
  next
    case (Inr o1)
    show ?thesis
      using assms p Inr by (auto simp: bt_io_connect_def intro!: adds_settles [OF create_io_adds] connect_settles [OF k])
  qed
qed

lemma listen_adds:
  assumes "bt_io_listen kn confirm args = Some m"
  shows "adds handed_out m"
proof -
  obtain p where p: "parse_set_opts kn args = Some p" using assms by (auto simp: bt_io_listen_def bind_eq_Some_conv)
  have k: "keeps_fds (if confirm then call (k_set_int kn fd BT_DEFER_SETUP v) (\<lambda>_. Set_Int fd BT_DEFER_SETUP v)
      else State_Monad.return None)" "keeps_fds (call (k_listen kn fd) (\<lambda>_. Listen fd))" for fd v
    by (intro fds_intro; simp)+
  show ?thesis
  proof (cases p)
    case (Inl e)
    then show ?thesis using assms p by (auto simp: bt_io_listen_def adds_fail)
  next
    case (Inr o1)
    show ?thesis
      using assms p Inr by (auto simp only: bt_io_listen_def Option.bind.simps sum.case option.sel option.inject
        intro!: adds_settles [OF create_io_adds] listen_settles [OF k])
  qed
qed

text \<open>C15: No socket is lost: whatever the kernel answers to each call, a connecting or listening call that fails has closed
  every socket it opened, and one that succeeds leaves exactly one more socket open, the one of the channel that it returns.\<close>

theorem sockets_not_lost:
  assumes "bt_io_connect kn args = Some m \<or> bt_io_listen kn confirm args = Some m" "run_state m (k, t) = (r, k', t')"
  shows "open_fds t' = open_fds t + (case r of Inl _ \<Rightarrow> {#} | Inr fd \<Rightarrow> {#fd#})"
  using addsD [OF _ assms(2), of handed_out] connect_adds listen_adds assms(1) unfolding handed_out_def by metis

section \<open>Kernels without security levels\<close>

text \<open>A kernel that does not know the option for the security level and keeps the flags of the link, which \<open>lm\<close> reads.\<close>

definition legacy_kernel :: "('k \<Rightarrow> u32) \<Rightarrow> 'k kernel \<Rightarrow> bool" where
  "legacy_kernel lm kn \<longleftrightarrow> (\<forall>s n k. k_set_security kn s n k = (Some ENOPROTOOPT, k)) \<and> (\<forall>s k. k_get_security kn s k = (Inl ENOPROTOOPT, k)) \<and>
     (\<forall>s l k. k_get_lm kn s l k = (Inr (lm k), k)) \<and> (\<forall>s l v k. fst (k_set_lm kn s l v k) = None \<and> lm (snd (k_set_lm kn s l v k)) = v)"

lemma lm_map_level:
  assumes "level \<in> {1, 2, 3}"
  shows "lm_level (lm_map ! nat level) = level" "lm_map ! nat level AND LM_MASTER = 0" "(lm_map ! nat level OR LM_MASTER) AND LM_MASTER = LM_MASTER"
  using assms by (auto simp: lm_map_def lm_level_def)

lemma set_sec_level_legacy:
  assumes "legacy_kernel lm kn" "level \<in> {1, 2, 3}"
  shows "\<exists>k' t'. run_state (set_sec_level kn s type level) (k, t) = (None, (k', t')) \<and> lm k' = lm_map ! nat level"
  using assms by (auto simp: set_sec_level_def legacy_kernel_def l2cap_set_lm_def rfcomm_set_lm_def set_lm_def neg_errno_def Let_def)

lemma set_master_legacy:
  assumes "legacy_kernel lm kn"
  shows "\<exists>k' t'. run_state (set_master kn l s 1) (k, t) = (0, (k', t')) \<and> lm k' = lm k OR LM_MASTER"
proof (cases "lm k AND LM_MASTER = 0")
  case True
  then show ?thesis using assms by (auto simp: set_master_def legacy_kernel_def neg_errno_def Let_def)
next
  case False
  then have "bit (lm k) 0" by (auto simp: bit_eq_iff [where ?'a = u32] bit_simps)
  then have "lm k OR LM_MASTER = lm k" by (auto simp: bit_eq_iff [where ?'a = u32] bit_simps)
  then show ?thesis using False assms by (auto simp: set_master_def legacy_kernel_def)
qed

text \<open>On a kernel without the option for security levels, the level that is set is the level that is read back, for either
  kind of link: it is carried by the flags of the link.\<close>

theorem security_level_roundtrip:
  assumes "legacy_kernel lm kn" "level \<in> {1, 2, 3}"
  shows "fst (run_state (do { e \<leftarrow> set_sec_level kn s type level; r \<leftarrow> get_sec_level kn s type; State_Monad.return (e, r) }) (k, t)) =
    (None, Inr level)"
proof -
  obtain k' t' where s: "run_state (set_sec_level kn s type level) (k, t) = (None, (k', t'))" "lm k' = lm_map ! nat level"
    using set_sec_level_legacy [OF assms] by blast
  then show ?thesis
    using assms lm_map_level(1) [OF assms(2)]
    by (simp add: get_sec_level_def legacy_kernel_def l2cap_get_lm_def rfcomm_get_lm_def get_lm_def)
qed

text \<open>On such a kernel, asking for the role of master together with a security level loses the role on an L2CAP socket:
  the role is set first and the flags of the level then overwrite it, yet success is reported; on an RFCOMM
  socket, where the order is the other way round, both hold.\<close>

theorem master_overwritten:
  assumes "legacy_kernel lm kn" "level \<in> {1, 2, 3}"
  shows "\<exists>k1 t1 k2 t2. run_state (l2cap_set kn s level 0 0 0 1 (- 1) 0) (k, t) = (None, (k1, t1)) \<and> lm k1 AND LM_MASTER = 0 \<and>
    run_state (rfcomm_set kn s level 1) (k, t) = (None, (k2, t2)) \<and> lm k2 AND LM_MASTER = LM_MASTER \<and> lm_level (lm k2) = level"
proof -
  obtain ka ta where a: "run_state (set_master kn L2CAP_Link s 1) (k, t) = (0, (ka, ta))"
    using set_master_legacy [OF assms(1)] by blast
  obtain k1 t1 where 1: "run_state (set_sec_level kn s BT_IO_L2CAP level) (ka, ta) = (None, (k1, t1))" "lm k1 = lm_map ! nat level"
    using set_sec_level_legacy [OF assms] by blast
  obtain kb tb where b: "run_state (set_sec_level kn s BT_IO_RFCOMM level) (k, t) = (None, (kb, tb))" "lm kb = lm_map ! nat level"
    using set_sec_level_legacy [OF assms] by blast
  obtain k2 t2 where 2: "run_state (set_master kn RFCOMM_Link s 1) (kb, tb) = (0, (k2, t2))" "lm k2 = lm kb OR LM_MASTER"
    using set_master_legacy [OF assms(1)] by blast
  have "run_state (l2cap_set kn s level 0 0 0 1 (- 1) 0) (k, t) = (None, (k1, t1))"
    using a 1(1) assms(2) by (auto simp: l2cap_set_def and_then_def l2cap_set_options_def set_step_def l2cap_set_master_def)
  moreover have "run_state (rfcomm_set kn s level 1) (k, t) = (None, (k2, t2))"
    using b(1) 2(1) assms(2) by (auto simp: rfcomm_set_def and_then_def set_step_def rfcomm_set_master_def)
  moreover have "lm_level (lm_map ! nat level OR LM_MASTER) = level" using assms(2) by (auto simp: lm_map_def lm_level_def)
  ultimately show ?thesis using 1(2) b(2) 2(2) lm_map_level(2,3) [OF assms(2)] by auto
qed

section \<open>A small kernel\<close>

text \<open>One socket at a time, with the next descriptor and the flags of its link; every call succeeds but those for security levels.\<close>

definition small_kernel :: "(int \<times> u32) kernel" where
  "small_kernel = \<lparr>k_socket = (\<lambda>l (n, f). (Inr n, (n + 1, 0))), k_bind = (\<lambda>s l a k. (None, k)), k_connect = (\<lambda>s l a k. (Some 115, k)),
     k_listen = (\<lambda>s k. (None, k)), k_accept = (\<lambda>s (n, f). (Inr n, (n + 1, f))), k_close = (\<lambda>s k. ((), k)),
     k_get_int = (\<lambda>s i k. (Inr 0, k)), k_set_int = (\<lambda>s i v k. (None, k)), k_get_lm = (\<lambda>s l (n, f). (Inr f, (n, f))),
     k_set_lm = (\<lambda>s l v (n, f). (None, (n, v))), k_get_security = (\<lambda>s k. (Inl 92, k)), k_set_security = (\<lambda>s n k. (Some 92, k)),
     k_get_l2cap = (\<lambda>s k. (Inr \<lparr>l2o_omtu = 672, l2o_imtu = 672, l2o_mode = 0\<rparr>, k)), k_set_l2cap = (\<lambda>s v k. (None, k)),
     k_get_sco = (\<lambda>s k. (Inr 64, k)), k_set_sco = (\<lambda>s v k. (None, k)), k_set_voice = (\<lambda>s v k. (None, k)),
     k_get_conninfo = (\<lambda>s l k. (Inr (1, [0, 0, 0]), k)), k_get_name = (\<lambda>s l k. (Inr no_addr, k)), k_get_peer = (\<lambda>s l k. (Inr no_addr, k)),
     k_poll_nval = (\<lambda>s k. (False, k)), k_poll_out = (\<lambda>s k. (Inr True, k)), k_read_byte = (\<lambda>s k. (None, k)),
     k_str2ba = (\<lambda>s. replicate 6 0), k_ba2str = (\<lambda>b. ''00:00:00:00:00:00'')\<rparr>"

lemma small_legacy: "legacy_kernel snd small_kernel"
  by (simp add: legacy_kernel_def small_kernel_def case_prod_beta)

lemma security_level_roundtrip_witness:
  "fst (run_state (do { e \<leftarrow> set_sec_level small_kernel 3 BT_IO_L2CAP 2; r \<leftarrow> get_sec_level small_kernel 3 BT_IO_L2CAP;
     State_Monad.return (e, r) }) ((4, 0), [])) = (None, Inr 2)"
  using security_level_roundtrip [OF small_legacy, of 2 3 BT_IO_L2CAP "(4, 0)" "[]"] by simp

lemma master_overwritten_witness:
  "\<exists>k1 t1. run_state (l2cap_set small_kernel 3 1 0 0 0 1 (- 1) 0) ((4, 0), []) = (None, (k1, t1)) \<and> snd k1 AND LM_MASTER = 0"
  using master_overwritten [OF small_legacy, of 1 3 "(4, 0)" "[]"] by auto

lemma sockets_not_lost_witness:
  "\<exists>m k' t'. bt_io_connect small_kernel [(BT_IO_OPT_CID, Arg_Int 4), (BT_IO_OPT_SEC_LEVEL, Arg_Int 9)] = Some m \<and>
    run_state m ((3, 0), []) = (Inl (Invalid_Argument ''Valid security level range is 1-3''), k', t') \<and>
    t' = [Socket L2CAP_Link (Inr 3), Bind 3 L2CAP_Link (l2cap_addr (replicate 6 0) 0 0 4), Close 3] \<and> open_fds t' = {#}"
proof -
  obtain m where m: "bt_io_connect small_kernel [(BT_IO_OPT_CID, Arg_Int 4), (BT_IO_OPT_SEC_LEVEL, Arg_Int 9)] = Some m"
    by (simp add: bt_io_connect_def parse_set_opts_def parse_set_opt_def unknown_set_opt_def set_int_opt_def)
  have r: "run_state m ((3, 0), []) = (Inl (Invalid_Argument ''Valid security level range is 1-3''),
      ((4, 0), [Socket L2CAP_Link (Inr 3), Bind 3 L2CAP_Link (l2cap_addr (replicate 6 0) 0 0 4), Close 3]))"
    using m by (auto simp: bt_io_connect_def parse_set_opts_def parse_set_opt_def unknown_set_opt_def set_int_opt_def default_opts_def
        create_io_def open_socket_def or_close_def and_then_def l2cap_bind_def bind_failed_def l2cap_set_def l2cap_set_options_def
        set_step_def set_sec_level_def small_kernel_def Let_def)
  show ?thesis using m r sockets_not_lost [of small_kernel _ m, OF disjI1 [OF m] r] by (auto simp: open_fds_def)
qed

end
