(* ===== verification/Vehicle_Btio.thy ===== *)
theory Vehicle_Btio
  imports Vehicle_Cmd Btio_Props
begin

text \<open>
  The tool on top of the sockets: the arguments that \<open>gatt_connect\<close> hands to \<open>bt_io_connect\<close>, and the system
  calls that a connection to a vehicle consists of.
\<close>

fun bdaddr_code :: "bdaddr_type \<Rightarrow> int" where
  "bdaddr_code BDADDR_LE_PUBLIC = 1"
| "bdaddr_code BDADDR_LE_RANDOM = 2"

fun sec_code :: "bt_sec_level \<Rightarrow> int" where
  "sec_code BT_IO_SEC_LOW = 1"
| "sec_code BT_IO_SEC_MEDIUM = 2"
| "sec_code BT_IO_SEC_HIGH = 3"

text \<open>The variable arguments of the two calls in \<open>gatt_connect\<close>.\<close>

definition connect_args :: "bt_io_options \<Rightarrow> (BtIOOption \<times> va_arg) list" where
  "connect_args opts = (case target opts of
     LE_Channel dest_type cid \<Rightarrow>
       [(BT_IO_OPT_SOURCE_BDADDR, Arg_Bdaddr (source_bdaddr opts)), (BT_IO_OPT_SOURCE_TYPE, Arg_Int (bdaddr_code BDADDR_LE_PUBLIC)),
        (BT_IO_OPT_DEST_BDADDR, Arg_Bdaddr (dest_bdaddr opts)), (BT_IO_OPT_DEST_TYPE, Arg_Int (bdaddr_code dest_type)),
        (BT_IO_OPT_CID, Arg_Int (uint cid)), (BT_IO_OPT_SEC_LEVEL, Arg_Int (sec_code (sec_level opts)))]
   | PSM psm mtu \<Rightarrow>
       [(BT_IO_OPT_SOURCE_BDADDR, Arg_Bdaddr (source_bdaddr opts)), (BT_IO_OPT_DEST_BDADDR, Arg_Bdaddr (dest_bdaddr opts)),
        (BT_IO_OPT_PSM, Arg_Int psm), (BT_IO_OPT_IMTU, Arg_Int mtu), (BT_IO_OPT_SEC_LEVEL, Arg_Int (sec_code (sec_level opts)))])"

text \<open>What the options of the tool amount to.\<close>

definition le_opts :: "bytes \<Rightarrow> bytes \<Rightarrow> bdaddr_type \<Rightarrow> bt_sec_level \<Rightarrow> set_opts" where
  "le_opts sba dba t sec = default_opts\<lparr>so_src := sba, so_src_type := 1, so_dst := dba, so_dst_type := word_of_int (bdaddr_code t),
     so_type := BT_IO_L2CAP, so_cid := 4, so_sec_level := sec_code sec\<rparr>"

lemma parse_le_opts:
  "parse_set_opts kn (connect_args \<lparr>source_bdaddr = sba, dest_bdaddr = dba, target = LE_Channel t ATT_CID, sec_level = sec\<rparr>) =
    Some (Inr (le_opts sba dba t sec))"
  by (simp add: connect_args_def parse_set_opts_def parse_set_opt_def unknown_set_opt_def set_int_opt_def le_opts_def default_opts_def)

definition le_addr :: "bytes \<Rightarrow> u8 \<Rightarrow> sockaddr" where
  "le_addr ba t = \<lparr>sa_bdaddr = ba, sa_psm = 0, sa_cid = 4, sa_type = t, sa_channel = 0\<rparr>"

text \<open>C14: A connection to a vehicle consists of exactly these system calls when they succeed: a socket for L2CAP, bound to the
  local adapter with a public address and the fixed channel of the attribute protocol, the security level that was asked
  for, and the connection to the vehicle's address, of the type that was asked for, on the same channel; its end is
  awaited in the main loop, and the channel is returned.\<close>

theorem le_connection_calls:
  assumes "fst (k_socket kn L2CAP_Link k) = Inr fd" "\<And>a k. fst (k_bind kn fd L2CAP_Link a k) = None"
    "\<And>n k. fst (k_set_security kn fd n k) = None" "\<And>a k. fst (k_connect kn fd L2CAP_Link a k) = Some EINPROGRESS"
    and "t = (if dst_type = ''random'' then BDADDR_LE_RANDOM else BDADDR_LE_PUBLIC)"
    and "sec = (if level = ''medium'' then BT_IO_SEC_MEDIUM else if level = ''high'' then BT_IO_SEC_HIGH else BT_IO_SEC_LOW)"
    and "opts = \<lparr>source_bdaddr = replicate 6 0, dest_bdaddr = str2ba env dst, target = LE_Channel t ATT_CID, sec_level = sec\<rparr>"
  shows "\<exists>m k'. gatt_connect env None dst dst_type level 0 mtu = Some (Vehicle_Cmd.bt_io_connect env opts) \<and>
    Btio.bt_io_connect kn (connect_args opts) = Some m \<and>
    run_state m (k, trace) = (Inr fd, (k', trace @ [Socket L2CAP_Link (Inr fd), Bind fd L2CAP_Link (le_addr (replicate 6 0) 1),
      Set_Security fd (sec_code sec), Connect fd L2CAP_Link (le_addr (str2ba env dst) (word_of_int (bdaddr_code t))), Watch_Connect fd]))"
proof -
  note opts_def = assms(7)
  have g: "gatt_connect env None dst dst_type level 0 mtu = Some (Vehicle_Cmd.bt_io_connect env opts)"
    by (simp add: gatt_connect_def opts_def assms(5,6) Let_def)
  obtain m where m: "Btio.bt_io_connect kn (connect_args opts) = Some m"
    by (simp add: Btio.bt_io_connect_def opts_def parse_le_opts)
  have c: "1 \<le> sec_code sec" "sec_code sec \<le> 3" by (cases sec; simp)+
  have "\<exists>k'. run_state m (k, trace) = (Inr fd, (k', trace @ [Socket L2CAP_Link (Inr fd), Bind fd L2CAP_Link (le_addr (replicate 6 0) 1),
      Set_Security fd (sec_code sec), Connect fd L2CAP_Link (le_addr (str2ba env dst) (word_of_int (bdaddr_code t))), Watch_Connect fd]))"
    using m assms(1-4) c
    by (auto simp: Btio.bt_io_connect_def opts_def parse_le_opts le_opts_def default_opts_def create_io_def open_socket_def or_close_def
        and_then_def l2cap_bind_def bind_failed_def l2cap_set_def l2cap_set_options_def set_step_def set_sec_level_def
        l2cap_connect_def start_connect_def l2cap_addr_def no_addr_def le_addr_def Let_def)
  then show ?thesis using g m by blast
qed

lemma le_connection_calls_witness:
  "\<exists>m k'. Btio.bt_io_connect (small_kernel\<lparr>k_set_security := \<lambda>s n k. (None, k)\<rparr>)
      (connect_args \<lparr>source_bdaddr = replicate 6 0, dest_bdaddr = [1, 2, 3, 4, 5, 6], target = LE_Channel BDADDR_LE_RANDOM ATT_CID, sec_level = BT_IO_SEC_LOW\<rparr>) = Some m \<and>
    run_state m ((3, 0), []) = (Inr 3, (k', [Socket L2CAP_Link (Inr 3), Bind 3 L2CAP_Link (le_addr (replicate 6 0) 1), Set_Security 3 1,
      Connect 3 L2CAP_Link (le_addr [1, 2, 3, 4, 5, 6] 2), Watch_Connect 3]))"
proof -
  define env :: env where "env = \<lparr>str2ba = (\<lambda>s. [1, 2, 3, 4, 5, 6]), hci_devba = (\<lambda>i. None),
    bt_io_connect = (\<lambda>opts. Inr 1), g_strstrip = id, g_shell_parse_argv = (\<lambda>l. None), nesting = 0\<rparr>"
  define kn where "kn = small_kernel\<lparr>k_set_security := \<lambda>s n k. (None, k)\<rparr>"
  have "fst (k_socket kn L2CAP_Link (3, 0)) = Inr 3" "\<And>a k. fst (k_bind kn 3 L2CAP_Link a k) = None"
    "\<And>n k. fst (k_set_security kn 3 n k) = None" "\<And>a k. fst (k_connect kn 3 L2CAP_Link a k) = Some EINPROGRESS"
    by (simp_all add: kn_def small_kernel_def)
  from le_connection_calls [OF this refl refl refl, of env "''vehicle''" "''random''" "''low''" 0 "[]"]
  show ?thesis unfolding kn_def by (simp add: env_def)
qed

end
