(* ===== verification/Vehicle_Main.thy ===== *)
theory Vehicle_Main
  imports Vehicle_Cmd
begin

text \<open>
  The main program of the tool, \<open>vehicle_tool.c\<close>: its options, the session that it starts and its exit status; and the
  handler of events that the file defines and never registers. GLib's option parser is a parameter: from the arguments and the values
  before it makes the values behind it, and a message when it fails.
\<close>

section \<open>The program\<close>

record main_options =
  main_src :: "string option"
  main_dst :: "string option"
  main_dst_type :: "string option"
  main_mtu :: int
  main_psm :: int
  main_sec_level :: "string option"

type_synonym option_parser = "string list \<Rightarrow> main_options \<Rightarrow> string option \<times> main_options"

definition default_options :: main_options where
  "default_options = \<lparr>main_src = None, main_dst = None, main_dst_type = Some ''random'', main_mtu = 0, main_psm = 0,
     main_sec_level = Some ''low''\<rparr>"

text \<open>The start of \<open>main\<close>: what it prints to standard error, and the session of \<open>interactive\<close>.\<close>

definition main_start :: "option_parser \<Rightarrow> string list \<Rightarrow> string list \<times> session" where
  "main_start parse argv = (
     let (failed, opts) = parse argv default_options
     in (case failed of None \<Rightarrow> [] | Some msg \<Rightarrow> [nl msg],
         interactive (main_src opts) (main_dst opts) (main_dst_type opts) (main_psm opts)))"

text \<open>Its end, behind the main loop: the exit status, for \<open>got_error\<close> is never set.\<close>

definition got_error :: bool where "got_error = False"

definition main_end :: "env \<Rightarrow> session \<Rightarrow> (session \<times> int) option" where
  "main_end env s = do {
     s \<leftarrow> interactive_end env s;
     Some (s, if got_error then 1 else 0)
   }"

section \<open>The handler of events\<close>

text \<open>The bytes of the value, from \<open>i\<close> on for \<open>n\<close> bytes.\<close>

fun print_bytes :: "bytes \<Rightarrow> nat \<Rightarrow> nat \<Rightarrow> (string \<times> printed list) list option" where
  "print_bytes pdu i 0 = Some []"
| "print_bytes pdu i (Suc n) = do { b \<leftarrow> rd pdu i; r \<leftarrow> print_bytes pdu (Suc i) n; Some ((''%02x '', [Num (uint b)]) # r) }"

definition event_title :: "u8 \<Rightarrow> string option" where
  "event_title op =
     (if op = ATT_OP_HANDLE_NOTIFY then Some ''Notification handle = 0x%04x value: ''
      else if op = ATT_OP_HANDLE_IND then Some ''Indication   handle = 0x%04x value: ''
      else None)"

definition print_event :: "bytes \<Rightarrow> u16 \<Rightarrow> ('c, 's) gattrib \<Rightarrow> ((string \<times> printed list) list \<times> ('c, 's) gattrib) option" where
  "print_event pdu len w = do {
     handle \<leftarrow> att_get_u16 pdu 1;
     op \<leftarrow> rd pdu 0;
     (case event_title op of
        None \<Rightarrow> Some ([(nl ''Invalid opcode'', [])], w)
      | Some t \<Rightarrow> do {
          v \<leftarrow> print_bytes pdu 3 (unat len - 3);
          let out = (t, [Num (uint handle)]) # v @ [(nl [], [])];
          (if op = ATT_OP_HANDLE_NOTIFY then Some (out, w)
           else do {
             let (plen, opdu) = g_attrib_get_buffer w;
             (olen, p) \<leftarrow> enc_confirmation (Some opdu) plen;
             p \<leftarrow> p;
             (if olen > 0 then do { (_, w) \<leftarrow> g_attrib_send 0 p olen None None (w\<lparr>buf := p\<rparr>); Some (out, w) }
              else Some (out, w\<lparr>buf := p\<rparr>))
           })
        })
   }"

section \<open>What the options do\<close>

text \<open>The options for the MTU and the security level are read and then have no effect: sessions that differ in them alone are the same, at low
  security and with the default MTU.\<close>

theorem mtu_and_security_ignored:
  assumes "snd (parse argv default_options) = o1" and "snd (parse argv' default_options) = o2"
    and "main_src o1 = main_src o2" and "main_dst o1 = main_dst o2" and "main_dst_type o1 = main_dst_type o2" and "main_psm o1 = main_psm o2"
  shows "snd (main_start parse argv) = snd (main_start parse argv')"
    and "opt_sec_level (prog_of (snd (main_start parse argv))) = Some ''low''" and "opt_mtu (prog_of (snd (main_start parse argv))) = 0"
  using assms by (auto simp: main_start_def interactive_def prog_of_def Let_def split: prod.splits)

text \<open>The tool always reports success.\<close>

lemma exit_status: "main_end env s = Some (s', st) \<Longrightarrow> st = 0"
  by (auto simp: main_end_def got_error_def bind_eq_Some_conv)

end
