(* ===== verification/Log.thy ===== *)
theory Log
  imports Prelude
begin

text \<open>
  The log of the tool, \<open>log.c\<close> and \<open>log.h\<close>: messages to the system log, and which places of the program log their debug messages.
  \<open>g_pattern_match_simple\<close> and \<open>g_strsplit_set\<close> are GLib's and parameters. A vector of strings that GLib allocates has an
  address, so that the pointer \<open>enabled\<close> can outlive it. A message is recorded as its priority and format.
\<close>

section \<open>State\<close>

record btd_debug_desc =
  desc_file :: "string option"
  desc_flags :: u32

datatype priority = LOG_ERR | LOG_WARNING | LOG_INFO | LOG_DEBUG

datatype log_event = Openlog string bool | Syslog priority string | Closelog

text \<open>The section \<open>__debug\<close>, from \<open>__start___debug\<close> to \<open>__stop___debug\<close>, is the list \<open>descs\<close>. \<open>Openlog\<close> tells whether
  \<open>LOG_PERROR\<close> is set beside \<open>LOG_NDELAY\<close> and \<open>LOG_PID\<close>.\<close>

record log_state =
  enabled :: "nat option"
  vectors :: "nat \<rightharpoonup> string list"
  descs :: "btd_debug_desc list"
  syslog :: "log_event list"

abbreviation (input) BTD_DEBUG_FLAG_DEFAULT :: u32 where "BTD_DEBUG_FLAG_DEFAULT \<equiv> 0"
abbreviation (input) BTD_DEBUG_FLAG_PRINT :: u32 where "BTD_DEBUG_FLAG_PRINT \<equiv> 1"

section \<open>Messages\<close>

definition vsyslog :: "priority \<Rightarrow> string \<Rightarrow> log_state \<Rightarrow> log_state" where
  "vsyslog prio fmt l = l\<lparr>syslog := syslog l @ [Syslog prio fmt]\<rparr>"

definition info :: "string \<Rightarrow> log_state \<Rightarrow> log_state" where "info = vsyslog LOG_INFO"
definition warn :: "string \<Rightarrow> log_state \<Rightarrow> log_state" where "warn = vsyslog LOG_WARNING"
definition log_error :: "string \<Rightarrow> log_state \<Rightarrow> log_state" where "log_error = vsyslog LOG_ERR"
definition btd_debug :: "string \<Rightarrow> log_state \<Rightarrow> log_state" where "btd_debug = vsyslog LOG_DEBUG"

text \<open>The macro \<open>DBG\<close> at the place whose descriptor has the number \<open>i\<close>.\<close>

definition DBG :: "nat \<Rightarrow> string \<Rightarrow> log_state \<Rightarrow> log_state option" where
  "DBG i fmt l = do {
     d \<leftarrow> rd (descs l) i;
     Some (if desc_flags d AND BTD_DEBUG_FLAG_PRINT \<noteq> 0 then btd_debug (''%s:%s() '' @ fmt) l else l)
   }"

section \<open>Debug messages\<close>

fun enabled_loop :: "(string \<Rightarrow> string \<Rightarrow> bool) \<Rightarrow> string list \<Rightarrow> btd_debug_desc \<Rightarrow> bool" where
  "enabled_loop match [] d = False"
| "enabled_loop match (e # es) d =
     (case desc_file d of
        Some f \<Rightarrow> if match e f then True else enabled_loop match es d
      | None \<Rightarrow> enabled_loop match es d)"

definition is_enabled :: "(string \<Rightarrow> string \<Rightarrow> bool) \<Rightarrow> log_state \<Rightarrow> btd_debug_desc \<Rightarrow> bool option" where
  "is_enabled match l d = (case enabled l of
     None \<Rightarrow> Some False
   | Some v \<Rightarrow> do { es \<leftarrow> vectors l v; Some (enabled_loop match es d) })"

definition set_print :: "nat \<Rightarrow> log_state \<Rightarrow> log_state option" where
  "set_print i l = do {
     d \<leftarrow> rd (descs l) i;
     ds \<leftarrow> wr (descs l) i (d\<lparr>desc_flags := desc_flags d OR BTD_DEBUG_FLAG_PRINT\<rparr>);
     Some (l\<lparr>descs := ds\<rparr>)
   }"

text \<open>The loop from \<open>i\<close> over \<open>n\<close> descriptors.\<close>

fun enable_loop :: "(string \<Rightarrow> string \<Rightarrow> bool) \<Rightarrow> nat \<Rightarrow> nat \<Rightarrow> log_state \<Rightarrow> log_state option" where
  "enable_loop match i 0 l = Some l"
| "enable_loop match i (Suc n) l = do {
     d \<leftarrow> rd (descs l) i;
     e \<leftarrow> is_enabled match l d;
     l \<leftarrow> (if e then set_print i l else Some l);
     enable_loop match (Suc i) n l
   }"

definition btd_enable_debug :: "(string \<Rightarrow> string \<Rightarrow> bool) \<Rightarrow> nat option \<Rightarrow> nat option \<Rightarrow> log_state \<Rightarrow> log_state option" where
  "btd_enable_debug match start stop l = (case (start, stop) of
     (Some a, Some b) \<Rightarrow> enable_loop match a (b - a) l
   | _ \<Rightarrow> Some l)"

fun toggle_loop :: "nat \<Rightarrow> nat \<Rightarrow> log_state \<Rightarrow> log_state option" where
  "toggle_loop i 0 l = Some l"
| "toggle_loop i (Suc n) l = do { l \<leftarrow> set_print i l; toggle_loop (Suc i) n l }"

definition btd_toggle_debug :: "log_state \<Rightarrow> log_state option" where
  "btd_toggle_debug l = toggle_loop 0 (length (descs l)) l"

text \<open>\<open>new\<close> is the address of the vector that \<open>g_strsplit_set\<close> allocates.\<close>

definition btd_log_init ::
  "(string \<Rightarrow> string \<Rightarrow> bool) \<Rightarrow> (string \<Rightarrow> string \<Rightarrow> string list) \<Rightarrow> nat \<Rightarrow> string option \<Rightarrow> bool \<Rightarrow> log_state \<Rightarrow> log_state option" where
  "btd_log_init match split new debug detach l = do {
     let l = (case debug of
         None \<Rightarrow> l
       | Some d \<Rightarrow> l\<lparr>enabled := Some new, vectors := (vectors l)(new \<mapsto> split d '':, '')\<rparr>);
     l \<leftarrow> btd_enable_debug match (Some 0) (Some (length (descs l))) l;
     Some (l\<lparr>syslog := syslog l @ [Openlog ''bluetoothd'' (\<not> detach), Syslog LOG_INFO ''Bluetooth daemon %s'']\<rparr>)
   }"

text \<open>\<open>g_strfreev\<close> accepts NULL.\<close>

definition btd_log_cleanup :: "log_state \<Rightarrow> log_state option" where
  "btd_log_cleanup l = (
     let l = l\<lparr>syslog := syslog l @ [Closelog]\<rparr> in
     (case enabled l of
        None \<Rightarrow> Some l
      | Some v \<Rightarrow> do { _ \<leftarrow> vectors l v; Some (l\<lparr>vectors := (vectors l)(v := None)\<rparr>) }))"

section \<open>Which places print\<close>

lemma enabled_loop_iff: "enabled_loop match es d \<longleftrightarrow> (\<exists>f. desc_file d = Some f \<and> (\<exists>e\<in>set es. match e f))"
  by (induction es) (auto split: option.split)

definition with_print :: "bool \<Rightarrow> btd_debug_desc \<Rightarrow> btd_debug_desc" where
  "with_print b d = (if b then d\<lparr>desc_flags := desc_flags d OR BTD_DEBUG_FLAG_PRINT\<rparr> else d)"

lemma enable_loop_run:
  assumes "enabled l = Some v" and "vectors l v = Some es"
  shows "i + n \<le> length (descs l) \<Longrightarrow> enable_loop match i n l =
    Some (l\<lparr>descs := take i (descs l) @ map (\<lambda>d. with_print (enabled_loop match es d) d) (take n (drop i (descs l))) @ drop (i + n) (descs l)\<rparr>)"
  using assms
proof (induction n arbitrary: i l)
  case (Suc n)
  let ?d = "descs l ! i"
  let ?l = "l\<lparr>descs := (descs l)[i := with_print (enabled_loop match es ?d) ?d]\<rparr>"
  have i: "i < length (descs l)"
    using Suc.prems(1) by simp
  have step: "enable_loop match i (Suc n) l = enable_loop match (Suc i) n ?l"
    using Suc.prems i by (simp add: is_enabled_def set_print_def with_print_def c_mem del: rd_eq_Some)
  have "enable_loop match (Suc i) n ?l = Some (?l\<lparr>descs := take (Suc i) (descs ?l) @
      map (\<lambda>d. with_print (enabled_loop match es d) d) (take n (drop (Suc i) (descs ?l))) @ drop (Suc i + n) (descs ?l)\<rparr>)"
    by (rule Suc.IH) (use Suc.prems in simp_all)
  moreover have "take (Suc i) (descs ?l) = take i (descs l) @ [with_print (enabled_loop match es ?d) ?d]"
    using i by (simp add: take_Suc_conv_app_nth)
  moreover have "take (Suc n) (drop i (descs l)) = ?d # take n (drop (Suc i) (descs l))"
    using i by (simp add: Cons_nth_drop_Suc [symmetric])
  ultimately show ?case
    unfolding step by simp
qed simp

text \<open>Initialisation with a list of patterns turns on exactly the places in files that one of the patterns matches.\<close>

theorem log_init_enables:
  "btd_log_init match split new (Some debug) detach l = Some (l\<lparr>enabled := Some new, vectors := (vectors l)(new \<mapsto> split debug '':, ''),
     descs := map (\<lambda>d. with_print (\<exists>f. desc_file d = Some f \<and> (\<exists>e\<in>set (split debug '':, ''). match e f)) d) (descs l),
     syslog := syslog l @ [Openlog ''bluetoothd'' (\<not> detach), Syslog LOG_INFO ''Bluetooth daemon %s'']\<rparr>)"
proof -
  let ?l = "l\<lparr>enabled := Some new, vectors := (vectors l)(new \<mapsto> split debug '':, '')\<rparr>"
  show ?thesis
    using enable_loop_run [of ?l new "split debug '':, ''" 0 "length (descs l)" match]
    by (simp add: btd_log_init_def btd_enable_debug_def enabled_loop_iff)
qed

text \<open>The clean-up frees the patterns but keeps the pointer to them: a later start without patterns of its own reads freed memory.\<close>

theorem log_restart_faults:
  assumes "descs l \<noteq> []" and "btd_log_init match split new (Some debug) detach l = Some l1" and "btd_log_cleanup l1 = Some l2"
  shows "btd_log_init match split new' None detach' l2 = None"
proof -
  have "enabled l1 = Some new" "length (descs l1) = length (descs l)"
    using assms(2) by (auto simp: log_init_enables)
  then have "enabled l2 = Some new" "vectors l2 new = None" "descs l2 \<noteq> []"
    using assms(1,3) by (auto simp: btd_log_cleanup_def Let_def bind_eq_Some_conv)
  then show ?thesis
    by (cases "descs l2") (simp_all add: btd_log_init_def btd_enable_debug_def is_enabled_def rd_def)
qed

end
