(* ===== verification/Vehicle_Scan.thy ===== *)
theory Vehicle_Scan
  imports Advertisement Anki_Util
begin

text \<open>
  The scanner: \<open>examples/vehicle-scan/vehicle-scan.c\<close>.

  The reports that arrive from the Bluetooth device are the inputs; a report also says what \<open>malloc\<close>
  returns if it is called for it. The table of vehicles, a hash table of \<open>uthash.h\<close>, is the list of its
  elements in the order of their insertion: \<open>HASH_FIND\<close> finds the element with a key, \<open>HASH_ADD\<close> adds one. What
  is printed is the text.
\<close>

section \<open>Reading advertising data\<close>

abbreviation (input) FLAGS_AD_TYPE :: u8 where "FLAGS_AD_TYPE \<equiv> 0x01"
abbreviation (input) FLAGS_LIMITED_MODE_BIT :: u8 where "FLAGS_LIMITED_MODE_BIT \<equiv> 0x01"
abbreviation (input) FLAGS_GENERAL_MODE_BIT :: u8 where "FLAGS_GENERAL_MODE_BIT \<equiv> 0x02"
abbreviation (input) EIR_NAME_SHORT :: u8 where "EIR_NAME_SHORT \<equiv> 0x08"
abbreviation (input) EIR_NAME_COMPLETE :: u8 where "EIR_NAME_COMPLETE \<equiv> 0x09"

abbreviation (input) ENOENT :: int where "ENOENT \<equiv> 2"
abbreviation (input) EINTR :: int where "EINTR \<equiv> 4"
abbreviation (input) EAGAIN :: int where "EAGAIN \<equiv> 11"
abbreviation (input) EINVAL :: int where "EINVAL \<equiv> 22"

text \<open>The report as the library declares it; \<open>info_data\<close> is all that lies behind its header in the buffer.\<close>

record le_advertising_info =
  evt_type :: u8
  bdaddr_type :: u8
  bdaddr :: bytes
  info_length :: u8
  info_data :: bytes

text \<open>The loop of \<open>read_flags\<close>; \<open>flags\<close> is the object of its first argument.\<close>

function flags_loop :: "u8 \<Rightarrow> bytes \<Rightarrow> nat \<Rightarrow> nat \<Rightarrow> (int \<times> u8) option" where
  "flags_loop flags data n offset =
     (if offset < n then do {
        len \<leftarrow> rd data offset;
        (if len = 0 then Some (- ENOENT, flags)
         else if unat len + offset > n then Some (- ENOENT, flags)
         else do {
           type \<leftarrow> rd data (offset + 1);
           (if type = FLAGS_AD_TYPE then do { f \<leftarrow> rd data (offset + 2); Some (0, f) }
            else flags_loop flags data n (offset + (1 + unat len)))
         })
      }
      else Some (- ENOENT, flags))"
  by pat_completeness auto
termination
  by (relation "measure (\<lambda>(flags, data, n, offset). n - offset)") auto

declare flags_loop.simps [simp del]

definition read_flags :: "u8 option \<Rightarrow> ptr \<Rightarrow> nat \<Rightarrow> (int \<times> u8 option) option" where
  "read_flags flags data n = (case (flags, data) of
     (Some f, Some d) \<Rightarrow> do { (r, f) \<leftarrow> flags_loop f d n 0; Some (r, Some f) }
   | _ \<Rightarrow> Some (- EINVAL, flags))"

text \<open>The result, and what is printed as an error. The flags have no defined value before they are read.\<close>

definition check_report_filter :: "char \<Rightarrow> le_advertising_info \<Rightarrow> (int \<times> string) option" where
  "check_report_filter procedure info =
     (if procedure = CHR 0x00 then Some (1, [])
      else do {
        (r, flags) \<leftarrow> read_flags (Some 0) (Some (info_data info)) (unat (info_length info));
        (if r \<noteq> 0 then Some (0, [])
         else do {
           flags \<leftarrow> flags;
           Some (if procedure = CHR ''l'' then (if (flags AND FLAGS_LIMITED_MODE_BIT) \<noteq> 0 then 1 else 0, [])
             else if procedure = CHR ''g''
             then (if (flags AND (FLAGS_LIMITED_MODE_BIT OR FLAGS_GENERAL_MODE_BIT)) \<noteq> 0 then 1 else 0, [])
             else (0, ''Unknown discovery procedure'' @ [CHR 0x0A]))
         })
      })"

section \<open>Printing\<close>

abbreviation (input) LF :: string where "LF \<equiv> [CHR 0x0A]"

definition hex_byte :: "u8 \<Rightarrow> string" where
  "hex_byte b = [hex_digit (drop_bit 4 b AND 0xF), hex_digit (b AND 0xF)]"

function dump_loop :: "string \<Rightarrow> int \<Rightarrow> bytes \<Rightarrow> int \<Rightarrow> int \<Rightarrow> int \<Rightarrow> string \<Rightarrow> (int \<times> int \<times> string) option" where
  "dump_loop pref width buf len i n printed =
     (if i < len then do {
        let printed = (if n = 1 then printed @ pref else printed);
        b \<leftarrow> rd buf (nat i);
        let printed = printed @ hex_byte b @ '' '';
        (if n = width then dump_loop pref width buf len (i + 1) 1 (printed @ LF)
         else dump_loop pref width buf len (i + 1) (n + 1) printed)
      }
      else Some (i, n, printed))"
  by pat_completeness auto
termination
  by (relation "measure (\<lambda>(pref, width, buf, len, i, n, printed). nat (len - i))") auto

declare dump_loop.simps [simp del]

definition hex_dump :: "string \<Rightarrow> int \<Rightarrow> bytes \<Rightarrow> int \<Rightarrow> string option" where
  "hex_dump pref width buf len = do {
     (i, n, printed) \<leftarrow> dump_loop pref width buf len 0 1 [];
     Some (if i \<noteq> 0 \<and> n \<noteq> 1 then printed @ LF else printed)
   }"

text \<open>\<open>eir\<close> is what may be read from the pointer on. The results are the text and the buffer.\<close>

definition unknown_name :: "string \<Rightarrow> nat \<Rightarrow> string \<Rightarrow> (string \<times> string) option" where
  "unknown_name buf buf_len printed = do { buf \<leftarrow> snprintf buf buf_len ''(unknown)''; Some (printed, buf) }"

function name_loop :: "bytes \<Rightarrow> nat \<Rightarrow> nat \<Rightarrow> string \<Rightarrow> nat \<Rightarrow> string \<Rightarrow> (string \<times> string) option" where
  "name_loop eir eir_len offset buf buf_len printed =
     (if offset < eir_len then do {
        field_len \<leftarrow> rd eir 0;
        (if field_len = 0 then unknown_name buf buf_len printed
         else if offset + unat field_len > eir_len then unknown_name buf buf_len printed
         else do {
           type \<leftarrow> rd eir 1;
           dump \<leftarrow> hex_dump ''0x'' 32 (drop 2 eir) (uint field_len - 1);
           let printed = printed @ ''eir_type: '' @ hexn 2 (unat type) @ '': '' @ dump;
           (if type = EIR_NAME_SHORT \<or> type = EIR_NAME_COMPLETE then do {
              let name_len = unat field_len - 1;
              (if name_len > buf_len then unknown_name buf buf_len printed
               else do {
                 name \<leftarrow> rdn eir 2 name_len;
                 buf \<leftarrow> wrn buf 0 (map (\<lambda>b. char_of (unat b)) name);
                 Some (printed, buf)
               })
            }
            else name_loop (drop (unat field_len + 1) eir) eir_len (offset + (unat field_len + 1)) buf buf_len printed)
         })
      }
      else unknown_name buf buf_len printed)"
  by pat_completeness auto
termination
  by (relation "measure (\<lambda>(eir, eir_len, offset, buf, buf_len, printed). eir_len - offset)") auto

declare name_loop.simps [simp del]

definition eir_parse_name :: "bytes \<Rightarrow> nat \<Rightarrow> string \<Rightarrow> nat \<Rightarrow> (string \<times> string) option" where
  "eir_parse_name eir eir_len buf buf_len = name_loop eir eir_len 0 buf buf_len []"

text \<open>The library's \<open>ba2str\<close>: the bytes of an address, the last first.\<close>

definition ba2str :: "bytes \<Rightarrow> string" where
  "ba2str ba = concat (map (\<lambda>b. hex_byte b @ '':'') (rev (tl ba))) @ hex_byte (hd ba)"

section \<open>The table of vehicles\<close>

record vehicle_t =
  address :: bytes
  v_adv :: anki_vehicle_adv_t
  scan_complete :: u8

type_synonym vehicles = "(bytes \<times> vehicle_t) list"

definition HASH_FIND :: "vehicles \<Rightarrow> bytes \<Rightarrow> vehicle_t option" where
  "HASH_FIND vs key = map_of vs key"

definition HASH_ADD :: "vehicles \<Rightarrow> vehicle_t \<Rightarrow> vehicles" where
  "HASH_ADD vs v = vs @ [(address v, v)]"

text \<open>Writing to the element through its pointer.\<close>

definition put_vehicle :: "vehicle_t \<Rightarrow> vehicles \<Rightarrow> vehicles" where
  "put_vehicle v vs = map (\<lambda>(k, u). if k = address v then (k, v) else (k, u)) vs"

definition model_name :: "u8 \<Rightarrow> string" where
  "model_name m = (if m = 1 then ''Kourai'' else if m = 2 then ''Boson'' else if m = 3 then ''Rho''
     else if m = 4 then ''Katal'' else ''Unknown'')"

text \<open>The characters of the name up to its NUL, which must lie inside the member.\<close>

definition name_text :: "bytes \<Rightarrow> string option" where
  "name_text name = (if 0 \<in> set name then Some (map (\<lambda>b. char_of (unat b)) (takeWhile (\<lambda>b. b \<noteq> 0) name)) else None)"

definition vehicle_line :: "bytes \<Rightarrow> anki_vehicle_adv_t \<Rightarrow> string option" where
  "vehicle_line addr a = do {
     name \<leftarrow> name_text (adv_name (local_name a));
     Some (ba2str addr @ '' '' @ name @ '' [v'' @ hexn 4 (unat (adv_version (local_name a) AND 0xffff)) @ ''] ('' @
       model_name (model_id (mfg_data a)) @ '' '' @ hexn 4 (unat (mfg_identifier (mfg_data a) AND 0xffff)) @ '')'' @ LF)
   }"

text \<open>What is known of a vehicle suffices to show it.\<close>

definition adv_complete :: "u8 \<Rightarrow> anki_vehicle_adv_t \<Rightarrow> bool" where
  "adv_complete err a \<longleftrightarrow> err = 0 \<and> mfg_identifier (mfg_data a) > 0 \<and> adv_version (local_name a) > 0"

text \<open>\<open>mem\<close> is what \<open>malloc\<close> returns: NULL, or an object whose byte \<open>scan_complete\<close> has some value.\<close>

definition find_vehicle :: "bytes \<Rightarrow> u8 option \<Rightarrow> vehicles \<Rightarrow> (vehicle_t \<times> vehicles) option" where
  "find_vehicle addr mem vs = (case HASH_FIND vs addr of
     Some v \<Rightarrow> Some (v, vs)
   | None \<Rightarrow> do {
       garbage \<leftarrow> mem;
       let v = \<lparr>address = addr, v_adv = zero_adv, scan_complete = garbage\<rparr>;
       Some (v, HASH_ADD vs v)
     })"

definition show_vehicle :: "le_advertising_info \<Rightarrow> u8 option \<Rightarrow> vehicles \<Rightarrow> (string \<times> vehicles) option" where
  "show_vehicle info mem vs = do {
     (v, vs) \<leftarrow> find_vehicle (bdaddr info) mem vs;
     (err, a) \<leftarrow> anki_vehicle_parse_adv_record (Some (info_data info)) (unat (info_length info)) (Some (v_adv v));
     a \<leftarrow> a;
     let v = v\<lparr>v_adv := a\<rparr>;
     (if adv_complete err a \<and> scan_complete v = 0 then do {
        l \<leftarrow> vehicle_line (bdaddr info) a;
        Some (l, put_vehicle (v\<lparr>scan_complete := 1\<rparr>) vs)
      }
      else Some ([], put_vehicle v vs))
   }"

definition handle_report :: "char \<Rightarrow> le_advertising_info \<Rightarrow> u8 option \<Rightarrow> vehicles \<Rightarrow> (string \<times> vehicles) option" where
  "handle_report filter_type info mem vs = do {
     (r, complaint) \<leftarrow> check_report_filter filter_type info;
     (if r \<noteq> 0 then do { (s, vs) \<leftarrow> show_vehicle info mem vs; Some (complaint @ s, vs) }
      else Some (complaint, vs))
   }"

section \<open>The device\<close>

abbreviation (input) HCI_MAX_EVENT_SIZE :: nat where "HCI_MAX_EVENT_SIZE \<equiv> 260"
abbreviation (input) HCI_EVENT_HDR_SIZE :: nat where "HCI_EVENT_HDR_SIZE \<equiv> 2"

text \<open>The header of an event, the sub-event, the number of reports, and the first report.\<close>

definition get_info :: "bytes \<Rightarrow> le_advertising_info option" where
  "get_info b = do {
     t \<leftarrow> rd b 0; at \<leftarrow> rd b 1; a \<leftarrow> rdn b 2 6; n \<leftarrow> rd b 8;
     Some \<lparr>evt_type = t, bdaddr_type = at, bdaddr = a, info_length = n, info_data = drop 9 b\<rparr>
   }"

text \<open>A call of \<open>read\<close> returns bytes, or fails with an \<open>errno\<close>, when the signal may have been received.\<close>

datatype read_result = Got bytes | Failed int bool

text \<open>The loop for as long as there are inputs: what each of them prints, the buffer and the table, and \<open>len\<close> when
  the loop is left.\<close>

fun scan_reports ::
  "char \<Rightarrow> (read_result \<times> u8 option) list \<Rightarrow> bytes \<Rightarrow> vehicles \<Rightarrow> (string list \<times> bytes \<times> vehicles \<times> int option) option" where
  "scan_reports filter_type [] buf vs = Some ([], buf, vs, None)"
| "scan_reports filter_type ((Failed errno sigint, mem) # inputs) buf vs =
     (if errno = EINTR \<and> sigint then Some ([], buf, vs, Some 0)
      else if errno = EAGAIN \<or> errno = EINTR then scan_reports filter_type inputs buf vs
      else Some ([], buf, vs, Some (- 1)))"
| "scan_reports filter_type ((Got bs, mem) # inputs) buf vs = do {
     buf \<leftarrow> wrn buf 0 bs;
     let len = int (length bs) - (1 + int HCI_EVENT_HDR_SIZE);
     subevent \<leftarrow> rd buf (1 + HCI_EVENT_HDR_SIZE);
     (if subevent \<noteq> 0x02 then Some ([], buf, vs, Some len)
      else do {
        info \<leftarrow> get_info (drop (1 + HCI_EVENT_HDR_SIZE + 2) buf);
        (s, vs) \<leftarrow> handle_report filter_type info mem vs;
        (outs, r) \<leftarrow> scan_reports filter_type inputs buf vs;
        Some (s # outs, r)
      })
   }"

text \<open>The socket's filter can be read and set, or not. The result is \<open>None\<close> while the loop waits for input.\<close>

definition print_advertising_devices ::
  "bool \<Rightarrow> bool \<Rightarrow> char \<Rightarrow> (read_result \<times> u8 option) list \<Rightarrow> bytes \<Rightarrow> vehicles \<Rightarrow> (string list \<times> vehicles \<times> int option) option" where
  "print_advertising_devices get_ok set_ok filter_type inputs buf vs =
     (if \<not> get_ok then Some ([''Could not get socket options'' @ LF], vs, Some (- 1))
      else if \<not> set_ok then Some ([''Could not set socket options'' @ LF], vs, Some (- 1))
      else do {
        (outs, _, vs, len) \<leftarrow> scan_reports filter_type inputs buf vs;
        Some (outs, vs, map_option (\<lambda>l. if l < 0 then - 1 else 0) len)
      })"

section \<open>The command\<close>

datatype ending = Return | Exit int

definition lescan_help :: string where
  "lescan_help = ''Usage:'' @ LF @
     [CHR 0x09] @ ''lescan [--privacy] enable privacy'' @ LF @
     [CHR 0x09] @ ''lescan [--passive] set scan type passive (default active)'' @ LF @
     [CHR 0x09] @ ''lescan [--whitelist] scan for address in the whitelist only'' @ LF @
     [CHR 0x09] @ ''lescan [--discovery=g|l] enable general or limited discovery'' @ ''procedure'' @ LF @
     [CHR 0x09] @ ''lescan [--duplicates] don'' @ [CHR 0x27] @ ''t filter duplicates'' @ LF"

text \<open>\<open>argc\<close> and the name of the program are what the arguments point to; the result is what is printed and
  how the program ends, or the new count of arguments. \<open>count\<close> is the text of the limit.\<close>

definition helper_arg :: "int \<Rightarrow> int \<Rightarrow> int \<Rightarrow> int \<Rightarrow> string \<Rightarrow> (int \<Rightarrow> string) \<Rightarrow> string \<Rightarrow> (string list \<times> ending) + int" where
  "helper_arg min_num_arg max_num_arg argc optind name count usage = (
     let argc = argc - optind in
     if argc > max_num_arg \<and> max_num_arg \<ge> min_num_arg
     then Inl ([name @ '': too many arguments (maximal: '' @ count max_num_arg @ '')'' @ LF, usage], Exit 1)
     else if argc < min_num_arg
     then Inl ([name @ '': too few arguments (minimal: '' @ count min_num_arg @ '')'' @ LF, usage], Exit 0)
     else Inr argc)"

record lescan =
  own_type :: u8
  scan_type :: u8
  scan_filter :: char
  filter_policy :: u8
  interval :: u16
  window :: u16
  filter_dup :: u8

definition lescan_default :: lescan where
  "lescan_default = \<lparr>own_type = 0x00, scan_type = 0x01, scan_filter = CHR 0x00, filter_policy = 0x00,
     interval = 0x0010, window = 0x0010, filter_dup = 1\<rparr>"

text \<open>The options as \<open>getopt_long\<close> returns them, each with its argument.\<close>

fun lescan_options :: "(char \<times> string) list \<Rightarrow> lescan \<Rightarrow> (string list \<times> ending) + lescan" where
  "lescan_options [] c = Inr c"
| "lescan_options ((opt, optarg) # opts) c =
     (if opt = CHR ''p'' then lescan_options opts (c\<lparr>own_type := 0x01\<rparr>)
      else if opt = CHR ''P'' then lescan_options opts (c\<lparr>scan_type := 0x00\<rparr>)
      else if opt = CHR ''w'' then lescan_options opts (c\<lparr>filter_policy := 0x01\<rparr>)
      else if opt = CHR ''d'' then
        let c = c\<lparr>scan_filter := (case optarg of [] \<Rightarrow> CHR 0x00 | x # _ \<Rightarrow> x)\<rparr> in
        if scan_filter c \<noteq> CHR ''g'' \<and> scan_filter c \<noteq> CHR ''l''
        then Inl ([''Unknown discovery procedure'' @ LF], Exit 1)
        else lescan_options opts (c\<lparr>interval := 0x0012, window := 0x0012\<rparr>)
      else if opt = CHR ''D'' then lescan_options opts (c\<lparr>filter_dup := 0x00\<rparr>)
      else Inl ([lescan_help], Return))"

text \<open>What the device is told, and what the library and the system answer.\<close>

datatype hci_command = Scan_Parameters u8 u16 u16 u8 u8 | Scan_Enable u8 u8 | Close_Dev

record device =
  hci_get_route :: int
  hci_open_dev :: "int \<Rightarrow> int"
  on_parameters :: int
  on_enable :: int
  on_disable :: int
  getsockopt_ok :: bool
  setsockopt_ok :: bool
  event_inputs :: "(read_result \<times> u8 option) list"
  event_buf :: bytes
  decimal :: "int \<Rightarrow> string"
  perror :: "string \<Rightarrow> string"

text \<open>What is printed, the commands, the table and the end of the program, if it ends. In front of the scan the
  command may end with a failure.\<close>

definition lescan_scan ::
  "device \<Rightarrow> lescan \<Rightarrow> vehicles \<Rightarrow> (string list \<times> hci_command list \<times> vehicles \<times> ending option) option" where
  "lescan_scan dev c vs = do {
     let first = [Scan_Parameters (scan_type c) (interval c) (window c) (own_type c) (filter_policy c)];
     (if on_parameters dev < 0 then Some ([perror dev ''Set scan parameters failed''], first, vs, Some (Exit 1))
      else do {
        let second = first @ [Scan_Enable 0x01 (filter_dup c)];
        (if on_enable dev < 0 then Some ([perror dev ''Enable scan failed''], second, vs, Some (Exit 1))
         else do {
           (outs, vs, err) \<leftarrow> print_advertising_devices (getsockopt_ok dev) (setsockopt_ok dev) (scan_filter c)
             (event_inputs dev) (event_buf dev) vs;
           let outs = (''LE Scan ...'' @ LF) # outs;
           Some (case err of
             None \<Rightarrow> (outs, second, vs, None)
           | Some e \<Rightarrow>
               if e < 0 then (outs @ [perror dev ''Could not receive advertising events''], second, vs, Some (Exit 1))
               else let third = second @ [Scan_Enable 0x00 (filter_dup c), Close_Dev] in
                 if on_disable dev < 0
                 then (outs @ [''Disable scan failed with error code: '' @ decimal dev (on_disable dev)], third, vs, Some (Exit 1))
                 else (outs, third, vs, Some Return))
         })
      })
   }"

definition cmd_lescan ::
  "device \<Rightarrow> int \<Rightarrow> int \<Rightarrow> int \<Rightarrow> string \<Rightarrow> (char \<times> string) list \<Rightarrow> vehicles \<Rightarrow>
   (string list \<times> hci_command list \<times> vehicles \<times> ending option) option" where
  "cmd_lescan dev dev_id argc optind name opts vs = (case lescan_options opts lescan_default of
     Inl (outs, e) \<Rightarrow> Some (outs, [], vs, Some e)
   | Inr c \<Rightarrow> (case helper_arg 0 1 argc optind name (decimal dev) lescan_help of
       Inl (outs, e) \<Rightarrow> Some (outs, [], vs, Some e)
     | Inr argc \<Rightarrow>
         let dev_id = (if dev_id < 0 then hci_get_route dev else dev_id);
             dd = hci_open_dev dev dev_id
         in if dd < 0 then Some ([perror dev ''Could not open device''], [], vs, Some (Exit 1))
            else lescan_scan dev c vs))"

text \<open>The program runs the command on the default device, without vehicles.\<close>

definition scan_main :: "device \<Rightarrow> int \<Rightarrow> int \<Rightarrow> string \<Rightarrow> (char \<times> string) list \<Rightarrow>
    (string list \<times> hci_command list \<times> vehicles \<times> ending option) option" where
  "scan_main dev argc optind name opts = cmd_lescan dev (- 1) argc optind name opts []"

end
