(* ===== verification/Scan_Props.thy ===== *)
theory Scan_Props
  imports Vehicle_Scan
begin

text \<open>
  What the scanner promises: from the bytes of the device's events to the lines it prints. Every vehicle is followed by
  itself, and shown once, as soon as its packets together suffice.
\<close>

section \<open>The events of the device\<close>

text \<open>An advertisement of an address, made of advertising records.\<close>

type_synonym advert = "bytes \<times> ad_record list"

text \<open>The event for it: three bytes of the transport, the sub-event with one report, two bytes for the kinds of the
  advertisement and of the address, the address, the packet with its length, and the strength of the signal.\<close>

definition event_bytes :: "advert \<Rightarrow> bytes" where
  "event_bytes e = [0x04, 0x3E, of_nat (12 + length (ad_bytes (snd e))), 0x02, 0x01, 0x00, 0x00] @ fst e @
     of_nat (length (ad_bytes (snd e))) # ad_bytes (snd e) @ [0xC8]"

text \<open>Records that the parsers can take: they fit their members, names leave room for a NUL, flags are there.\<close>

definition good_record :: "ad_record \<Rightarrow> bool" where
  "good_record r \<longleftrightarrow> ad_valid r \<and> adv_fits r \<and> (fst r = ADV_TYPE_LOCAL_NAME \<longrightarrow> length (snd r) \<le> 20) \<and>
     (fst r = ADV_TYPE_FLAGS \<longrightarrow> snd r \<noteq> [])"

definition good_advert :: "advert \<Rightarrow> bool" where
  "good_advert e \<longleftrightarrow> length (fst e) = 6 \<and> list_all good_record (snd e) \<and> length (ad_bytes (snd e)) < 240"

definition info_of :: "advert \<Rightarrow> bytes \<Rightarrow> le_advertising_info" where
  "info_of e rest = \<lparr>evt_type = 0, bdaddr_type = 0, bdaddr = fst e, info_length = of_nat (length (ad_bytes (snd e))),
     info_data = ad_bytes (snd e) @ rest\<rparr>"

lemma length_event: "good_advert e \<Longrightarrow> length (event_bytes e) = 15 + length (ad_bytes (snd e))"
  by (simp add: event_bytes_def good_advert_def)

lemma event_info:
  assumes "good_advert e" "length buf = HCI_MAX_EVENT_SIZE"
  shows "wrn buf 0 (event_bytes e) = Some (overlay (event_bytes e) buf)"
    "rd (overlay (event_bytes e) buf) (1 + HCI_EVENT_HDR_SIZE) = Some 2"
    "get_info (drop (1 + HCI_EVENT_HDR_SIZE + 2) (overlay (event_bytes e) buf)) =
      Some (info_of e (0xC8 # drop (length (event_bytes e)) buf))"
    "length (overlay (event_bytes e) buf) = HCI_MAX_EVENT_SIZE"
proof -
  have l: "length (event_bytes e) \<le> length buf" using length_event [OF assms(1)] assms by (simp add: good_advert_def)
  show "wrn buf 0 (event_bytes e) = Some (overlay (event_bytes e) buf)" using wrn_front [OF l] .
  show "length (overlay (event_bytes e) buf) = HCI_MAX_EVENT_SIZE" using l assms(2) by simp
  show "rd (overlay (event_bytes e) buf) (1 + HCI_EVENT_HDR_SIZE) = Some 2"
    by (simp add: overlay_def event_bytes_def rd_def nth_append)
  obtain a0 a1 a2 a3 a4 a5 where "fst e = [a0, a1, a2, a3, a4, a5]"
    using assms(1) by (auto simp: good_advert_def length_Suc_conv eval_nat_numeral)
  then show "get_info (drop (1 + HCI_EVENT_HDR_SIZE + 2) (overlay (event_bytes e) buf)) =
      Some (info_of e (0xC8 # drop (length (event_bytes e)) buf))"
    by (simp add: overlay_def event_bytes_def get_info_def info_of_def rd_def rdn_def eval_nat_numeral)
qed

section \<open>Flags\<close>

text \<open>The discovery procedure accepts an advertisement by the flags of its first record of them.\<close>

definition accepts :: "char \<Rightarrow> ad_record list \<Rightarrow> bool" where
  "accepts p rs \<longleftrightarrow> p = CHR 0x00 \<or> (case find (\<lambda>r. fst r = FLAGS_AD_TYPE) rs of
     None \<Rightarrow> False
   | Some r \<Rightarrow> (if p = CHR ''l'' then (hd (snd r) AND FLAGS_LIMITED_MODE_BIT) \<noteq> 0
                else (hd (snd r) AND (FLAGS_LIMITED_MODE_BIT OR FLAGS_GENERAL_MODE_BIT)) \<noteq> 0))"

lemma holds_records_inside: "holds_records scan n i ((t, d) # rs) \<Longrightarrow> Suc i + length d < n"
  by (auto simp: holds_records_def)

lemma flags_loop_find:
  "holds_records scan n i rs \<Longrightarrow> list_all good_record rs \<Longrightarrow>
   flags_loop f scan n i = Some (case find (\<lambda>r. fst r = FLAGS_AD_TYPE) rs of
     None \<Rightarrow> (- ENOENT, f) | Some r \<Rightarrow> (0, hd (snd r)))"
proof (induction rs arbitrary: i)
  case Nil
  then show ?case using holds_records_Nil [OF Nil(1)] by (auto simp: flags_loop.simps [of f scan n i] c_mem)
next
  case (Cons r rs)
  obtain t d where r: "r = (t, d)" by (cases r)
  note h = holds_records_Cons [OF Cons.prems(1) [unfolded r]] and ins = holds_records_inside [OF Cons.prems(1) [unfolded r]]
  have l: "unat (of_nat (length d + 1) :: u8) = length d + 1" using h(5) by (subst unat_of_nat8) auto
  then have nz: "(of_nat (length d + 1) :: u8) \<noteq> 0" by (metis unat_0 add_is_0 zero_neq_one)
  show ?case
  proof (cases "t = FLAGS_AD_TYPE")
    case True
    then have d: "d \<noteq> []" using Cons.prems(2) r by (simp add: good_record_def)
    then have "Suc (Suc i) < length scan" using h(2) by (cases d) auto
    moreover from d have "scan ! Suc (Suc i) = hd d" using arg_cong [OF h(7), of "\<lambda>l. l ! 0"] h(2) by (auto simp: hd_conv_nth)
    ultimately show ?thesis using h ins l nz True r
      by (simp add: flags_loop.simps [of f scan n i] c_mem del: of_nat_add of_nat_Suc)
  next
    case False
    then show ?thesis using h(1-7) ins l nz r Cons.IH [OF h(8)] Cons.prems(2)
      by (simp add: flags_loop.simps [of f scan n i] c_mem del: of_nat_add of_nat_Suc)
  qed
qed

lemma holds_ad_bytes: "list_all ad_valid rs \<Longrightarrow> holds_records (ad_bytes rs @ rest) (length (ad_bytes rs)) 0 rs"
  by (simp add: holds_records_def)

lemma good_valid: "list_all good_record rs \<Longrightarrow> list_all ad_valid rs"
  by (auto simp: good_record_def list_all_iff)

lemma filter_accepts:
  assumes "good_advert e" "p \<in> {CHR 0x00, CHR ''l'', CHR ''g''}"
  shows "check_report_filter p (info_of e rest) = Some (if accepts p (snd e) then 1 else 0, [])"
proof -
  have g: "list_all good_record (snd e)" and l: "length (ad_bytes (snd e)) < 256" using assms(1) by (simp_all add: good_advert_def)
  show ?thesis
    using flags_loop_find [OF holds_ad_bytes [OF good_valid [OF g]] g, of 0 rest] assms(2) l
    by (auto simp: check_report_filter_def read_flags_def info_of_def accepts_def split: option.split)
qed

section \<open>What is known of a vehicle\<close>

text \<open>The verdict on the last packet and what all packets together say, in the order of their arrival.\<close>

definition learn :: "u8 \<times> anki_vehicle_adv_t \<Rightarrow> ad_record list \<Rightarrow> u8 \<times> anki_vehicle_adv_t" where
  "learn k rs = (case adv_spec rs (snd k) of Some (e, Some a) \<Rightarrow> (e, a) | _ \<Rightarrow> k)"

definition knowledge :: "ad_record list list \<Rightarrow> u8 \<times> anki_vehicle_adv_t" where
  "knowledge packets = foldl learn (1, zero_adv) packets"

definition suffices :: "ad_record list list \<Rightarrow> bool" where
  "suffices packets \<longleftrightarrow> adv_complete (fst (knowledge packets)) (snd (knowledge packets))"

definition shown :: "ad_record list list \<Rightarrow> bool" where
  "shown packets \<longleftrightarrow> (\<exists>n \<le> length packets. suffices (take n packets))"

text \<open>The packets of an address that the procedure accepts.\<close>

definition packets_of :: "char \<Rightarrow> bytes \<Rightarrow> advert list \<Rightarrow> ad_record list list" where
  "packets_of p a es = map snd (filter (\<lambda>e. fst e = a \<and> accepts p (snd e)) es)"

text \<open>What the last of the advertisements \<open>es @ [e]\<close> prints.\<close>

definition printed_for :: "char \<Rightarrow> advert list \<Rightarrow> advert \<Rightarrow> string" where
  "printed_for p es e =
     (let packets = packets_of p (fst e) (es @ [e])
      in if accepts p (snd e) \<and> suffices packets \<and> \<not> shown (butlast packets)
         then the (vehicle_line (fst e) (snd (knowledge packets))) else [])"

definition good_adv :: "anki_vehicle_adv_t \<Rightarrow> bool" where
  "good_adv a \<longleftrightarrow> adv_sized a \<and> 0 \<in> set (adv_name (local_name a))"

lemma shown_snoc: "shown (packets @ [rs]) \<longleftrightarrow> shown packets \<or> suffices (packets @ [rs])"
  by (auto simp: shown_def le_Suc_eq)

lemma good_effect:
  assumes "good_record r" "good_adv a"
  shows "good_adv (adv_effect r a)"
proof -
  obtain t d where r: "r = (t, d)" by (cases r)
  have "0 \<in> set (adv_name (local_name (adv_effect r a)))"
    using assms by (auto simp: r good_record_def good_adv_def adv_effect_def name_effect_def)
  then show ?thesis
    using adv_effect_sized assms by (simp add: good_adv_def good_record_def)
qed

lemma adv_spec_good:
  "list_all good_record rs \<Longrightarrow> good_adv a \<Longrightarrow> \<exists>e a'. adv_spec rs a = Some (e, Some a') \<and> good_adv a'"
proof (induction rs arbitrary: a)
  case (Cons r rs)
  then show ?case using good_effect [of r a] by (auto simp: good_record_def)
qed simp

lemma knowledge_snoc: "knowledge (packets @ [rs]) = learn (knowledge packets) rs"
  by (simp add: knowledge_def)

lemma learn_good: "list_all good_record rs \<Longrightarrow> good_adv (snd k) \<Longrightarrow> good_adv (snd (learn k rs))"
  using adv_spec_good [of rs "snd k"] by (auto simp: learn_def)

lemma knowledge_good: "list_all (list_all good_record) packets \<Longrightarrow> good_adv (snd (knowledge packets))"
proof (induction packets rule: rev_induct)
  case Nil
  then show ?case by (simp add: knowledge_def good_adv_def zero_adv_sized) (simp add: zero_adv_def)
next
  case (snoc rs packets)
  then show ?case by (simp add: knowledge_snoc learn_good)
qed

lemma parse_learns:
  assumes "list_all good_record rs" "good_adv a" "length (ad_bytes rs) < 240"
  shows "anki_vehicle_parse_adv_record (Some (ad_bytes rs @ rest)) (unat (of_nat (length (ad_bytes rs)) :: u8)) (Some a) =
    Some (fst (learn (e, a) rs), Some (snd (learn (e, a) rs)))"
proof -
  have "unat (of_nat (length (ad_bytes rs)) :: u8) = length (ad_bytes rs)" using assms(3) by simp
  then show ?thesis
    using adv.walk_run [OF holds_ad_bytes [OF good_valid [OF assms(1)]]] run_adv_spec [OF good_valid [OF assms(1)], of a]
      adv_spec_good [OF assms(1,2)] assms(2)
    by (auto simp: anki_vehicle_parse_adv_record_def learn_def good_adv_def)
qed

lemma line_good: "good_adv a \<Longrightarrow> \<exists>l. vehicle_line addr a = Some l"
  by (simp add: vehicle_line_def name_text_def good_adv_def)

section \<open>The table\<close>

text \<open>The table after the advertisements \<open>es\<close>, when \<open>malloc\<close> returns objects whose bytes are \<open>g\<close>.\<close>

definition table_of :: "u8 \<Rightarrow> char \<Rightarrow> advert list \<Rightarrow> vehicles \<Rightarrow> bool" where
  "table_of g p es vs \<longleftrightarrow> (\<forall>a. HASH_FIND vs a = (let packets = packets_of p a es in
     if packets = [] then None
     else Some \<lparr>address = a, v_adv = snd (knowledge packets), scan_complete = (if g = 0 \<and> shown packets then 1 else g)\<rparr>))"

lemma find_put:
  "HASH_FIND (put_vehicle v vs) a = (if a = address v \<and> HASH_FIND vs a \<noteq> None then Some v else HASH_FIND vs a)"
  by (induction vs) (auto simp: HASH_FIND_def put_vehicle_def)

lemma find_add: "HASH_FIND vs (address v) = None \<Longrightarrow> HASH_FIND (HASH_ADD vs v) a = (if a = address v then Some v else HASH_FIND vs a)"
  by (auto simp: HASH_FIND_def HASH_ADD_def map_add_def split: option.split)

lemma packets_snoc:
  "packets_of p a (es @ [e]) = packets_of p a es @ (if fst e = a \<and> accepts p (snd e) then [snd e] else [])"
  by (simp add: packets_of_def)

lemma packets_good: "list_all good_advert es \<Longrightarrow> list_all (list_all good_record) (packets_of p a es)"
  by (auto simp: packets_of_def list_all_iff good_advert_def)

lemma knowledge_Nil [simp]: "knowledge [] = (1, zero_adv)" "\<not> suffices []" "\<not> shown []"
  by (simp_all add: knowledge_def suffices_def shown_def adv_complete_def)

lemma find_table:
  assumes "table_of g p es vs"
  shows "\<exists>vs'. find_vehicle a (Some g) vs = Some (\<lparr>address = a, v_adv = snd (knowledge (packets_of p a es)),
      scan_complete = (if g = 0 \<and> shown (packets_of p a es) then 1 else g)\<rparr>, vs') \<and>
    (\<forall>b. b \<noteq> a \<longrightarrow> HASH_FIND vs' b = HASH_FIND vs b) \<and> HASH_FIND vs' a \<noteq> None"
proof (cases "HASH_FIND vs a")
  case None
  then have "packets_of p a es = []" using assms by (auto simp: table_of_def Let_def split: if_splits)
  moreover note find_add [of vs "\<lparr>address = a, v_adv = zero_adv, scan_complete = g\<rparr>"]
  ultimately show ?thesis using None by (simp add: find_vehicle_def Let_def)
next
  case (Some v)
  then show ?thesis using assms by (auto simp: find_vehicle_def table_of_def Let_def split: if_splits)
qed

lemma show_step:
  assumes t: "table_of g p es vs" and good: "list_all good_advert (es @ [e])" and acc: "accepts p (snd e)"
  shows "\<exists>vs'. show_vehicle (info_of e rest) (Some g) vs = Some (if g = 0 then printed_for p es e else [], vs') \<and>
    table_of g p (es @ [e]) vs'"
proof -
  define old where "old = packets_of p (fst e) es"
  define new where "new = learn (knowledge old) (snd e)"
  have new: "packets_of p (fst e) (es @ [e]) = old @ [snd e]" "knowledge (old @ [snd e]) = new"
    using acc by (simp_all add: packets_snoc old_def new_def knowledge_snoc)
  obtain vs0 where f: "find_vehicle (fst e) (Some g) vs = Some (\<lparr>address = fst e, v_adv = snd (knowledge old),
      scan_complete = (if g = 0 \<and> shown old then 1 else g)\<rparr>, vs0)"
    "\<And>b. b \<noteq> fst e \<Longrightarrow> HASH_FIND vs0 b = HASH_FIND vs b" "HASH_FIND vs0 (fst e) \<noteq> None"
    using find_table [OF t] unfolding old_def by blast
  have k: "good_adv (snd (knowledge old))" using knowledge_good [OF packets_good] good by (simp add: old_def)
  have p: "anki_vehicle_parse_adv_record (Some (info_data (info_of e rest))) (unat (info_length (info_of e rest)))
      (Some (snd (knowledge old))) = Some (fst new, Some (snd new))"
    using parse_learns [OF _ k, of "snd e" rest "fst (knowledge old)"] good by (simp add: new_def info_of_def good_advert_def)
  have "good_adv (snd new)" using learn_good [OF _ k] good by (simp add: new_def good_advert_def)
  then obtain l where l: "vehicle_line (fst e) (snd new) = Some l" using line_good by blast
  have s: "suffices (old @ [snd e]) \<longleftrightarrow> adv_complete (fst new) (snd new)" by (simp add: suffices_def new)
  define v where "v = \<lparr>address = fst e, v_adv = snd new, scan_complete = (if g = 0 \<and> shown (old @ [snd e]) then 1 else g)\<rparr>"
  have "show_vehicle (info_of e rest) (Some g) vs = Some (if g = 0 then printed_for p es e else [], put_vehicle v vs0)"
    using f(1) p l acc by (auto simp: show_vehicle_def info_of_def printed_for_def new s shown_snoc v_def Let_def)
  moreover have "table_of g p (es @ [e]) (put_vehicle v vs0)"
    using t f(2,3) new unfolding table_of_def by (auto simp: find_put v_def Let_def packets_snoc)
  ultimately show ?thesis by blast
qed

lemma report_step:
  assumes "table_of g p es vs" "list_all good_advert (es @ [e])" "p \<in> {CHR 0x00, CHR ''l'', CHR ''g''}"
  shows "\<exists>vs'. handle_report p (info_of e rest) (Some g) vs = Some (if g = 0 then printed_for p es e else [], vs') \<and>
    table_of g p (es @ [e]) vs'"
proof (cases "accepts p (snd e)")
  case True
  then show ?thesis using show_step [OF assms(1,2) True] filter_accepts [of e p rest] assms(2,3) by (auto simp: handle_report_def)
next
  case False
  then show ?thesis using filter_accepts [of e p rest] assms
    by (auto simp: handle_report_def table_of_def packets_snoc printed_for_def Let_def)
qed

lemma scan_run:
  assumes "table_of g p es vs" "list_all good_advert (es @ fs)" "p \<in> {CHR 0x00, CHR ''l'', CHR ''g''}"
    "length buf = HCI_MAX_EVENT_SIZE"
  shows "\<exists>buf' vs'. scan_reports p (map (\<lambda>e. (Got (event_bytes e), Some g)) fs) buf vs =
    Some (map (\<lambda>k. if g = 0 then printed_for p (es @ take k fs) (fs ! k) else []) [0..<length fs], buf', vs', None)"
  using assms
proof (induction fs arbitrary: es buf vs)
  case (Cons e fs)
  have e: "good_advert e" "list_all good_advert (es @ [e])" using Cons.prems(2) by auto
  note ev = event_info [OF e(1) Cons.prems(4)]
  define buf1 where "buf1 = overlay (event_bytes e) buf"
  obtain vs1 where h: "handle_report p (info_of e (0xC8 # drop (length (event_bytes e)) buf)) (Some g) vs =
      Some (if g = 0 then printed_for p es e else [], vs1)" "table_of g p (es @ [e]) vs1"
    using report_step [OF Cons.prems(1) e(2) Cons.prems(3)] by blast
  have "list_all good_advert ((es @ [e]) @ fs)" "length buf1 = HCI_MAX_EVENT_SIZE"
    using Cons.prems(2) ev(4) by (simp_all add: buf1_def)
  then obtain buf' vs' where r: "scan_reports p (map (\<lambda>e. (Got (event_bytes e), Some g)) fs) buf1 vs1 =
    Some (map (\<lambda>k. if g = 0 then printed_for p ((es @ [e]) @ take k fs) (fs ! k) else []) [0..<length fs], buf', vs', None)"
    using Cons.IH [OF h(2) _ Cons.prems(3)] by blast
  have "map (\<lambda>k. if g = 0 then printed_for p (es @ take k (e # fs)) ((e # fs) ! k) else []) [0..<length (e # fs)] =
      (if g = 0 then printed_for p es e else []) #
      map (\<lambda>k. if g = 0 then printed_for p ((es @ [e]) @ take k fs) (fs ! k) else []) [0..<length fs]"
    by (simp add: map_upt_Suc del: upt_Suc)
  then show ?case
    using ev(1-3) h(1) r unfolding buf1_def by (simp del: One_nat_def rd_eq_Some upt_Suc)
qed simp

lemma table_start: "table_of g p [] []"
  by (simp add: table_of_def packets_of_def HASH_FIND_def)

section \<open>Properties\<close>

text \<open>C3: From the bytes of the device's events to the lines on the screen: for any sequence of advertisements of any number of
  vehicles, the scanner prints something for an advertisement exactly when the discovery procedure accepts it and,
  with it, the packets of this address suffice for the first time, that is the last packet is from Anki and identifier
  and version are known; so each vehicle is shown at most once, whatever the others send; what is printed is the address with the name,
  version, model and identifier that all the packets of this address, in order, say. Nothing is read outside the buffer.\<close>

theorem vehicles_shown_once:
  assumes "list_all good_advert es" "p \<in> {CHR 0x00, CHR ''l'', CHR ''g''}" "length buf = HCI_MAX_EVENT_SIZE"
  shows "\<exists>outs vs. print_advertising_devices True True p (map (\<lambda>e. (Got (event_bytes e), Some 0)) es) buf [] = Some (outs, vs, None) \<and>
    outs = map (\<lambda>k. printed_for p (take k es) (es ! k)) [0..<length es]"
  using scan_run [OF table_start, of es p buf 0] assms by (auto simp: print_advertising_devices_def)

text \<open>C32: The scanner relies on cleared memory that \<open>malloc\<close> does not promise: when the byte \<open>scan_complete\<close> of a new vehicle
  happens not to be 0, the vehicle counts as shown, and no vehicle is ever printed, whatever they send.\<close>

theorem uncleared_vehicles_hidden:
  assumes "list_all good_advert es" "p \<in> {CHR 0x00, CHR ''l'', CHR ''g''}" "length buf = HCI_MAX_EVENT_SIZE" "g \<noteq> 0"
  shows "\<exists>vs. print_advertising_devices True True p (map (\<lambda>e. (Got (event_bytes e), Some g)) es) buf [] =
    Some (replicate (length es) [], vs, None)"
  using scan_run [OF table_start, of es p buf g] assms by (auto simp: print_advertising_devices_def map_replicate_const)

text \<open>The two packets of a vehicle.\<close>

definition sample_adverts :: "advert list" where
  "sample_adverts = [([1, 2, 3, 4, 5, 6], adv0_records), ([1, 2, 3, 4, 5, 6], adv1_records)]"

lemma sample_adverts_good: "list_all good_advert sample_adverts"
  by (simp add: sample_adverts_def good_advert_def good_record_def ad_valid_def adv_fits_def adv0_records_def adv1_records_def)

lemma sample_learns:
  "learn (1, zero_adv) adv0_records = (0, fold adv_effect adv0_records zero_adv)"
  "learn (0, fold adv_effect adv0_records zero_adv) adv1_records = (0, fold adv_effect adv1_records (fold adv_effect adv0_records zero_adv))"
  by (simp_all add: learn_def adv0_records_def adv1_records_def adv_known_def foreign_uuid_def adv_fits_def
      adv_effect_def ANKI_SERVICE_UUID_LE_def overlay_def zero_adv_def)

definition sample_final :: anki_vehicle_adv_t where
  "sample_final = fold adv_effect adv1_records (fold adv_effect adv0_records zero_adv)"

lemma sample_fields:
  "mfg_identifier (mfg_data sample_final) = 0xE00AA3" "model_id (mfg_data sample_final) = 1" "adv_version (local_name sample_final) = 0x2120"
  "adv_name (local_name sample_final) = [0x41, 0x41, 0x33, 0x20, 0x54, 0x4F, 0x4D, 0x4D, 0x59, 0, 0, 0, 0]"
  "adv_version (local_name (fold adv_effect adv0_records zero_adv)) = 0"
  by (simp_all add: sample_final_def adv0_records_def adv1_records_def adv_effect_def zero_adv_def mfg_effect_def name_effect_def
      of_le32_def of_le16_def) (simp add: eval_nat_numeral)

lemma hexn_4: "hexn 4 v = [hexc (v div 16 div 16 div 16 mod 16), hexc (v div 16 div 16 mod 16), hexc (v div 16 mod 16), hexc (v mod 16)]"
proof -
  have "(4 :: nat) = Suc (Suc (Suc (Suc 0)))" by simp
  then show ?thesis by (simp only: hexn.simps append.simps)
qed

lemma sample_line_text: "vehicle_line [1, 2, 3, 4, 5, 6] sample_final = Some (''06:05:04:03:02:01 AA3 TOMMY [v2120] (Kourai 0aa3)'' @ LF)"
proof -
  have "ba2str [1, 2, 3, 4, 5, 6] = ''06:05:04:03:02:01''" by (simp add: ba2str_def hex_byte_def hex_digit_def)
  moreover have "name_text [0x41, 0x41, 0x33, 0x20, 0x54, 0x4F, 0x4D, 0x4D, 0x59, 0, 0, 0, 0] = Some ''AA3 TOMMY''"
    by (simp add: name_text_def char_of_def) (simp add: bit_iff_odd)
  moreover have "hexn 4 0x2120 = ''2120''" "hexn 4 0x0AA3 = ''0aa3''" by (simp_all add: hexn_4 hexc_def)
  ultimately show ?thesis by (simp add: vehicle_line_def sample_fields model_name_def)
qed

lemma sample_printed:
  "printed_for (CHR 0x00) [] (sample_adverts ! 0) = []"
  "printed_for (CHR 0x00) [sample_adverts ! 0] (sample_adverts ! 1) = ''06:05:04:03:02:01 AA3 TOMMY [v2120] (Kourai 0aa3)'' @ LF"
proof -
  have k: "knowledge [adv0_records] = (0, fold adv_effect adv0_records zero_adv)" "knowledge [adv0_records, adv1_records] = (0, sample_final)"
    by (simp_all only: knowledge_def foldl.simps sample_learns sample_final_def)
  have n: "\<not> suffices [adv0_records]" "suffices [adv0_records, adv1_records]"
    by (simp_all add: suffices_def k adv_complete_def sample_fields del: fold_simps)
  have s: "\<not> shown [adv0_records]" using shown_snoc [of "[]" adv0_records] n by simp
  show "printed_for (CHR 0x00) [] (sample_adverts ! 0) = []"
    using n by (simp add: printed_for_def packets_of_def sample_adverts_def accepts_def)
  show "printed_for (CHR 0x00) [sample_adverts ! 0] (sample_adverts ! 1) = ''06:05:04:03:02:01 AA3 TOMMY [v2120] (Kourai 0aa3)'' @ LF"
    using n s by (simp add: printed_for_def packets_of_def sample_adverts_def accepts_def k sample_line_text)
qed

lemma vehicles_shown_once_witness:
  "\<exists>vs. print_advertising_devices True True (CHR 0x00) (map (\<lambda>e. (Got (event_bytes e), Some 0)) sample_adverts) (replicate 260 0) [] =
    Some ([[], ''06:05:04:03:02:01 AA3 TOMMY [v2120] (Kourai 0aa3)'' @ LF], vs, None)"
proof -
  have "map (\<lambda>k. printed_for (CHR 0x00) (take k sample_adverts) (sample_adverts ! k)) [0..<length sample_adverts] =
      [printed_for (CHR 0x00) [] (sample_adverts ! 0), printed_for (CHR 0x00) [sample_adverts ! 0] (sample_adverts ! 1)]"
    by (simp add: sample_adverts_def)
  then show ?thesis
    using vehicles_shown_once [OF sample_adverts_good, of "CHR 0x00" "replicate 260 0"] sample_printed by auto
qed

lemma uncleared_vehicles_hidden_witness:
  "\<exists>vs. print_advertising_devices True True (CHR 0x00) (map (\<lambda>e. (Got (event_bytes e), Some 0xA5)) sample_adverts) (replicate 260 0) [] =
    Some ([[], []], vs, None)"
proof -
  have "(0xA5 :: u8) \<noteq> 0" by simp
  moreover have "replicate (length sample_adverts) ([] :: string) = [[], []]" by (simp add: sample_adverts_def)
  ultimately show ?thesis
    using uncleared_vehicles_hidden [OF sample_adverts_good, of "CHR 0x00" "replicate 260 0" "0xA5"] by simp
qed

end
