(* ===== verification/Uthash.thy ===== *)
theory Uthash
  imports Prelude
begin

text \<open>
  The hash table of \<open>examples/vehicle-scan/uthash.h\<close>, at the level of its pointers.

  A table is intrusive: every element carries a \<open>UT_hash_handle\<close>, by which it is linked into the list of all elements
  (application order) and into the chain of its bucket. An address is a natural number, NULL is \<open>None\<close>. The memory \<open>uh_mem\<close>
  holds the handles and the tables; the array of buckets belongs to its table alone and lies in it. An element and its handle
  have the same number, so \<open>ELMT_FROM_HH\<close> is the identity and the member \<open>hho\<close> is left out. A key is a pointer to the
  bytes of an object; \<open>malloc\<close> is the environment's: \<open>grant i n\<close> tells whether the \<open>i\<close>-th request, for \<open>n\<close> bytes, is
  served. If it is not, \<open>uthash_fatal\<close> leaves the program (\<open>Exited\<close>, with the size asked for). \<open>None\<close> is a fault, or a loop
  that does not end.

  The macro that computes hash values, \<open>HASH_FCN\<close>, is an argument of the operations: which of the functions of the header it
  stands for is chosen when a program is compiled. The Bloom filter and \<open>HASH_EMIT_KEYS\<close> are off, as in the scanner.
\<close>

section \<open>Data\<close>

record UT_hash_handle =
  tbl :: "nat option"
  prev :: "nat option"
  nxt :: "nat option"
  hh_prev :: "nat option"
  hh_next :: "nat option"
  key :: nat
  keylen :: u32
  hashv :: u32

record UT_hash_bucket =
  hh_head :: "nat option"
  count :: u32
  expand_mult :: u32

record UT_hash_table =
  buckets :: "UT_hash_bucket list"
  num_buckets :: u32
  log2_num_buckets :: u32
  num_items :: u32
  tail :: "nat option"
  ideal_chain_maxlen :: u32
  nonideal_items :: u32
  ineff_expands :: u32
  noexpand :: u32
  signature :: u32

record uh_mem =
  elems :: "nat \<rightharpoonup> UT_hash_handle"
  tables :: "nat \<rightharpoonup> UT_hash_table"
  key_mem :: "nat \<rightharpoonup> bytes"
  grant :: "nat \<Rightarrow> nat \<Rightarrow> bool"
  asked :: nat

type_synonym hash_fcn = "bytes \<Rightarrow> nat \<Rightarrow> u32 \<Rightarrow> (u32 \<times> u32) option"

abbreviation (input) HASH_INITIAL_NUM_BUCKETS :: nat where "HASH_INITIAL_NUM_BUCKETS \<equiv> 32"
abbreviation (input) HASH_INITIAL_NUM_BUCKETS_LOG2 :: nat where "HASH_INITIAL_NUM_BUCKETS_LOG2 \<equiv> 5"
abbreviation (input) HASH_BKT_CAPACITY_THRESH :: u32 where "HASH_BKT_CAPACITY_THRESH \<equiv> 10"
abbreviation (input) HASH_SIGNATURE :: u32 where "HASH_SIGNATURE \<equiv> 0xa0111fe1"

text \<open>\<open>sizeof\<close> of a bucket and of a table on the 64-bit host.\<close>

abbreviation (input) sizeof_bucket :: nat where "sizeof_bucket \<equiv> 16"
abbreviation (input) sizeof_table :: nat where "sizeof_table \<equiv> 64"

section \<open>Memory\<close>

datatype 'a run = Exited nat | Going 'a

definition and_then :: "'a run option \<Rightarrow> ('a \<Rightarrow> 'b run option) \<Rightarrow> 'b run option" where
  "and_then r f = (case r of None \<Rightarrow> None | Some (Exited n) \<Rightarrow> Some (Exited n) | Some (Going x) \<Rightarrow> f x)"

text \<open>A new block; its address is the number of the request.\<close>

definition uthash_malloc :: "nat \<Rightarrow> uh_mem \<Rightarrow> (nat \<times> uh_mem) run" where
  "uthash_malloc n m = (if grant m (asked m) n then Going (asked m, m\<lparr>asked := Suc (asked m)\<rparr>) else Exited n)"

definition modify :: "nat \<Rightarrow> ('a \<Rightarrow> 'a) \<Rightarrow> (nat \<rightharpoonup> 'a) \<Rightarrow> (nat \<rightharpoonup> 'a)" where
  "modify p f E = E(p := map_option f (E p))"

text \<open>An assignment to members of a handle or of a table through its pointer.\<close>

definition upd_hh :: "nat \<Rightarrow> (UT_hash_handle \<Rightarrow> UT_hash_handle) \<Rightarrow> uh_mem \<Rightarrow> uh_mem option" where
  "upd_hh p f m = (if elems m p = None then None else Some (m\<lparr>elems := modify p f (elems m)\<rparr>))"

definition upd_tbl :: "nat \<Rightarrow> (UT_hash_table \<Rightarrow> UT_hash_table) \<Rightarrow> uh_mem \<Rightarrow> uh_mem option" where
  "upd_tbl t f m = (if tables m t = None then None else Some (m\<lparr>tables := modify t f (tables m)\<rparr>))"

text \<open>\<open>(head)->hh.tbl\<close>\<close>

definition tbl_of :: "uh_mem \<Rightarrow> nat \<Rightarrow> (nat \<times> UT_hash_table) option" where
  "tbl_of m p = do { h \<leftarrow> elems m p; t \<leftarrow> tbl h; T \<leftarrow> tables m t; Some (t, T) }"

definition HASH_TO_BKT :: "u32 \<Rightarrow> u32 \<Rightarrow> u32" where
  "HASH_TO_BKT hv num_bkts = hv AND (num_bkts - 1)"

definition HASH_KEYCMP :: "bytes \<Rightarrow> bytes \<Rightarrow> nat \<Rightarrow> bool option" where
  "HASH_KEYCMP a b len = do { x \<leftarrow> rdn a 0 len; y \<leftarrow> rdn b 0 len; Some (x = y) }"

section \<open>Hash functions\<close>

definition HASH_JEN_MIX :: "u32 \<Rightarrow> u32 \<Rightarrow> u32 \<Rightarrow> u32 \<times> u32 \<times> u32" where
  "HASH_JEN_MIX a b c = (
     let a = a - b; a = a - c; a = a XOR drop_bit 13 c;
         b = b - c; b = b - a; b = b XOR push_bit 8 a;
         c = c - a; c = c - b; c = c XOR drop_bit 13 b;
         a = a - b; a = a - c; a = a XOR drop_bit 12 c;
         b = b - c; b = b - a; b = b XOR push_bit 16 a;
         c = c - a; c = c - b; c = c XOR drop_bit 5 b;
         a = a - b; a = a - c; a = a XOR drop_bit 3 c;
         b = b - c; b = b - a; b = b XOR push_bit 10 a;
         c = c - a; c = c - b; c = c XOR drop_bit 15 b
     in (a, b, c))"

text \<open>The four bytes that the main loop adds at once.\<close>

definition jen_word :: "bytes \<Rightarrow> nat \<Rightarrow> u32 option" where
  "jen_word k i = do {
     a \<leftarrow> rd k i; b \<leftarrow> rd k (i + 1); c \<leftarrow> rd k (i + 2); d \<leftarrow> rd k (i + 3);
     Some (ucast a + push_bit 8 (ucast b) + push_bit 16 (ucast c) + push_bit 24 (ucast d))
   }"

function jen_loop :: "bytes \<Rightarrow> nat \<Rightarrow> nat \<Rightarrow> u32 \<Rightarrow> u32 \<Rightarrow> u32 \<Rightarrow> (nat \<times> nat \<times> u32 \<times> u32 \<times> u32) option" where
  "jen_loop k off n i j hv = (if n \<ge> 12 then do {
       x \<leftarrow> jen_word k off; y \<leftarrow> jen_word k (off + 4); z \<leftarrow> jen_word k (off + 8);
       let (i, j, hv) = HASH_JEN_MIX (i + x) (j + y) (hv + z);
       jen_loop k (off + 12) (n - 12) i j hv
     }
     else Some (off, n, i, j, hv))"
  by pat_completeness auto
termination by (relation "measure (\<lambda>(k, off, n, _). n)") auto

text \<open>One case of the \<open>switch\<close>, into which every higher one falls.\<close>

definition jen_case :: "bytes \<Rightarrow> nat \<Rightarrow> nat \<Rightarrow> nat \<Rightarrow> nat \<Rightarrow> u32 \<Rightarrow> u32 option" where
  "jen_case k off n c sh acc =
     (if c \<le> n then do { b \<leftarrow> rd k (off + c - 1); Some (acc + push_bit sh (ucast b)) } else Some acc)"

definition HASH_JEN :: hash_fcn where
  "HASH_JEN k len num_bkts = do {
     (off, n, i, j, hv) \<leftarrow> jen_loop k 0 (unat (of_nat len :: u32)) 0x9e3779b9 0x9e3779b9 0xfeedbeef;
     let hv = hv + of_nat len;
     hv \<leftarrow> jen_case k off n 11 24 hv;
     hv \<leftarrow> jen_case k off n 10 16 hv;
     hv \<leftarrow> jen_case k off n 9 8 hv;
     j \<leftarrow> jen_case k off n 8 24 j;
     j \<leftarrow> jen_case k off n 7 16 j;
     j \<leftarrow> jen_case k off n 6 8 j;
     j \<leftarrow> jen_case k off n 5 0 j;
     i \<leftarrow> jen_case k off n 4 24 i;
     i \<leftarrow> jen_case k off n 3 16 i;
     i \<leftarrow> jen_case k off n 2 8 i;
     i \<leftarrow> jen_case k off n 1 0 i;
     let (_, _, hv) = HASH_JEN_MIX i j hv;
     Some (hv, hv AND (num_bkts - 1))
   }"

text \<open>The other functions run through the key byte by byte, as signed characters.\<close>

fun key_loop :: "(u32 \<Rightarrow> u32 \<Rightarrow> u32) \<Rightarrow> bytes \<Rightarrow> nat \<Rightarrow> nat \<Rightarrow> u32 \<Rightarrow> u32 option" where
  "key_loop f k i 0 hv = Some hv"
| "key_loop f k i (Suc n) hv = do { b \<leftarrow> rd k i; key_loop f k (Suc i) n (f hv (scast b)) }"

definition HASH_BER :: hash_fcn where
  "HASH_BER k len num_bkts = do {
     hv \<leftarrow> key_loop (\<lambda>hv c. hv * 33 + c) k 0 (unat (of_nat len :: u32)) 0;
     Some (hv, hv AND (num_bkts - 1))
   }"

definition HASH_SAX :: hash_fcn where
  "HASH_SAX k len num_bkts = do {
     hv \<leftarrow> key_loop (\<lambda>hv c. hv XOR (push_bit 5 hv + drop_bit 2 hv + c)) k 0 len 0;
     Some (hv, hv AND (num_bkts - 1))
   }"

definition HASH_FNV :: hash_fcn where
  "HASH_FNV k len num_bkts = do {
     hv \<leftarrow> key_loop (\<lambda>hv c. (hv * 16777619) XOR c) k 0 len 2166136261;
     Some (hv, hv AND (num_bkts - 1))
   }"

definition HASH_OAT :: hash_fcn where
  "HASH_OAT k len num_bkts = do {
     hv \<leftarrow> key_loop (\<lambda>hv c. let hv = hv + c; hv = hv + push_bit 10 hv in hv XOR drop_bit 6 hv) k 0 len 0;
     let hv = hv + push_bit 3 hv;
     let hv = hv XOR drop_bit 11 hv;
     let hv = hv + push_bit 15 hv;
     Some (hv, hv AND (num_bkts - 1))
   }"

text \<open>The function of Paul Hsieh reads pairs of bytes.\<close>

definition get16bits :: "bytes \<Rightarrow> nat \<Rightarrow> u32 option" where
  "get16bits k i = do { a \<leftarrow> rd k i; b \<leftarrow> rd k (i + 1); Some (push_bit 8 (ucast b) + ucast a) }"

fun sfh_loop :: "bytes \<Rightarrow> nat \<Rightarrow> nat \<Rightarrow> u32 \<Rightarrow> u32 option" where
  "sfh_loop k i 0 hv = Some hv"
| "sfh_loop k i (Suc n) hv = do {
     x \<leftarrow> get16bits k i;
     let hv = hv + x;
     y \<leftarrow> get16bits k (i + 2);
     let tmp = push_bit 11 y XOR hv;
     let hv = push_bit 16 hv XOR tmp;
     sfh_loop k (i + 4) n (hv + drop_bit 11 hv)
   }"

definition sfh_rest :: "bytes \<Rightarrow> nat \<Rightarrow> nat \<Rightarrow> u32 \<Rightarrow> u32 option" where
  "sfh_rest k i r hv =
     (if r = 3 then do {
        x \<leftarrow> get16bits k i; b \<leftarrow> rd k (i + 2);
        let hv = hv + x; hv = hv XOR push_bit 16 hv; hv = hv XOR push_bit 18 (ucast b) in Some (hv + drop_bit 11 hv)
      }
      else if r = 2 then do {
        x \<leftarrow> get16bits k i;
        let hv = hv + x; hv = hv XOR push_bit 11 hv in Some (hv + drop_bit 17 hv)
      }
      else if r = 1 then do {
        b \<leftarrow> rd k i;
        let hv = hv + ucast b; hv = hv XOR push_bit 10 hv in Some (hv + drop_bit 1 hv)
      }
      else Some hv)"

definition HASH_SFH :: hash_fcn where
  "HASH_SFH k len num_bkts = do {
     let n = unat (of_nat len :: u32);
     hv \<leftarrow> sfh_loop k 0 (n div 4) 0xcafebabe;
     hv \<leftarrow> sfh_rest k (4 * (n div 4)) (n mod 4) hv;
     let hv = hv XOR push_bit 3 hv;
     let hv = hv + drop_bit 5 hv;
     let hv = hv XOR push_bit 4 hv;
     let hv = hv + drop_bit 17 hv;
     let hv = hv XOR push_bit 25 hv;
     let hv = hv + drop_bit 6 hv;
     Some (hv, hv AND (num_bkts - 1))
   }"

text \<open>The default.\<close>

definition HASH_FCN :: hash_fcn where
  "HASH_FCN = HASH_JEN"

section \<open>Looking up\<close>

partial_function (option) HASH_FIND_IN_BKT :: "uh_mem \<Rightarrow> nat option \<Rightarrow> bytes \<Rightarrow> nat \<Rightarrow> nat option option" where
  "HASH_FIND_IN_BKT m out k len = (case out of
     None \<Rightarrow> Some None
   | Some e \<Rightarrow> do {
       h \<leftarrow> elems m e;
       found \<leftarrow> (if unat (keylen h) = len then do { k' \<leftarrow> key_mem m (key h); HASH_KEYCMP k' k len } else Some False);
       (if found then Some (Some e) else HASH_FIND_IN_BKT m (hh_next h) k len)
     })"

definition HASH_FIND :: "hash_fcn \<Rightarrow> uh_mem \<Rightarrow> nat option \<Rightarrow> bytes \<Rightarrow> nat \<Rightarrow> nat option option" where
  "HASH_FIND fcn m head k len = (case head of
     None \<Rightarrow> Some None
   | Some p \<Rightarrow> do {
       (t, T) \<leftarrow> tbl_of m p;
       (hv, bkt) \<leftarrow> fcn k len (num_buckets T);
       b \<leftarrow> rd (buckets T) (unat bkt);
       HASH_FIND_IN_BKT m (hh_head b) k len
     })"

section \<open>Adding\<close>

definition zero_bucket :: UT_hash_bucket where
  "zero_bucket = \<lparr>hh_head = None, count = 0, expand_mult = 0\<rparr>"

definition HASH_MAKE_TABLE :: "uh_mem \<Rightarrow> nat \<Rightarrow> uh_mem run option" where
  "HASH_MAKE_TABLE m head =
     and_then (Some (uthash_malloc sizeof_table m)) (\<lambda>(t, m). do {
       m \<leftarrow> upd_hh head (\<lambda>h. h\<lparr>tbl := Some t\<rparr>) m;
       and_then (Some (uthash_malloc (HASH_INITIAL_NUM_BUCKETS * sizeof_bucket) m)) (\<lambda>(_, m).
         Some (Going (m\<lparr>tables := (tables m)(t \<mapsto>
           \<lparr>buckets = replicate HASH_INITIAL_NUM_BUCKETS zero_bucket, num_buckets = of_nat HASH_INITIAL_NUM_BUCKETS,
            log2_num_buckets = of_nat HASH_INITIAL_NUM_BUCKETS_LOG2, num_items = 0, tail = Some head,
            ideal_chain_maxlen = 0, nonideal_items = 0, ineff_expands = 0, noexpand = 0,
            signature = HASH_SIGNATURE\<rparr>)\<rparr>)))
     })"

text \<open>A handle becomes the first of a chain whose first was \<open>q\<close>.\<close>

definition link_front :: "nat \<Rightarrow> nat option \<Rightarrow> uh_mem \<Rightarrow> uh_mem option" where
  "link_front p q m = do {
     m \<leftarrow> upd_hh p (\<lambda>h. h\<lparr>hh_next := q, hh_prev := None\<rparr>) m;
     (case q of None \<Rightarrow> Some m | Some y \<Rightarrow> upd_hh y (\<lambda>h. h\<lparr>hh_prev := Some p\<rparr>) m)
   }"

text \<open>The body of the inner loop of the expansion, for the handle \<open>p\<close>: it goes to the front of its new bucket. The table
  \<open>T\<close> and the new buckets are written back by the caller. Last in the result is the next handle of the old bucket.\<close>

definition expand_one ::
  "uh_mem \<Rightarrow> UT_hash_table \<Rightarrow> UT_hash_bucket list \<Rightarrow> nat \<Rightarrow> (uh_mem \<times> UT_hash_table \<times> UT_hash_bucket list \<times> nat option) option" where
  "expand_one m T new p = do {
     h \<leftarrow> elems m p;
     let bkt = unat (HASH_TO_BKT (hashv h) (num_buckets T * 2));
     b \<leftarrow> rd new bkt;
     let b = b\<lparr>count := count b + 1\<rparr>;
     (T, b) \<leftarrow> (if count b > ideal_chain_maxlen T then
         if ideal_chain_maxlen T = 0 then None
         else Some (T\<lparr>nonideal_items := nonideal_items T + 1\<rparr>, b\<lparr>expand_mult := count b div ideal_chain_maxlen T\<rparr>)
       else Some (T, b));
     m \<leftarrow> link_front p (hh_head b) m;
     new \<leftarrow> wr new bkt (b\<lparr>hh_head := Some p\<rparr>);
     Some (m, T, new, hh_next h)
   }"

partial_function (option) expand_chain ::
  "nat option \<Rightarrow> uh_mem \<Rightarrow> UT_hash_table \<Rightarrow> UT_hash_bucket list \<Rightarrow> (uh_mem \<times> UT_hash_table \<times> UT_hash_bucket list) option" where
  "expand_chain thh m T new = (case thh of
     None \<Rightarrow> Some (m, T, new)
   | Some p \<Rightarrow> do {
       (m, T, new, thh) \<leftarrow> expand_one m T new p;
       expand_chain thh m T new
     })"

fun expand_all ::
  "uh_mem \<Rightarrow> UT_hash_table \<Rightarrow> UT_hash_bucket list \<Rightarrow> UT_hash_bucket list \<Rightarrow> (uh_mem \<times> UT_hash_table \<times> UT_hash_bucket list) option" where
  "expand_all m T new [] = Some (m, T, new)"
| "expand_all m T new (b # bs) = do {
     (m, T, new) \<leftarrow> expand_chain (hh_head b) m T new;
     expand_all m T new bs
   }"

definition HASH_EXPAND_BUCKETS :: "uh_mem \<Rightarrow> nat \<Rightarrow> uh_mem run option" where
  "HASH_EXPAND_BUCKETS m t = do {
     T \<leftarrow> tables m t;
     and_then (Some (uthash_malloc (unat (2 * num_buckets T) * sizeof_bucket) m)) (\<lambda>(_, m). do {
       let new = replicate (unat (2 * num_buckets T)) zero_bucket;
       let T = T\<lparr>ideal_chain_maxlen := drop_bit (unat (log2_num_buckets T + 1)) (num_items T) +
                   (if num_items T AND (num_buckets T * 2 - 1) \<noteq> 0 then 1 else 0),
                 nonideal_items := 0\<rparr>;
       old \<leftarrow> rdn (buckets T) 0 (unat (num_buckets T));
       (m, T, new) \<leftarrow> expand_all m T new old;
       let T = T\<lparr>num_buckets := num_buckets T * 2, log2_num_buckets := log2_num_buckets T + 1, buckets := new\<rparr>;
       let T = T\<lparr>ineff_expands := (if nonideal_items T > drop_bit 1 (num_items T) then ineff_expands T + 1 else 0)\<rparr>;
       let T = (if ineff_expands T > 1 then T\<lparr>noexpand := 1\<rparr> else T);
       Some (Going (m\<lparr>tables := (tables m)(t \<mapsto> T)\<rparr>))
     })
   }"

definition HASH_ADD_TO_BKT :: "uh_mem \<Rightarrow> nat \<Rightarrow> nat \<Rightarrow> nat \<Rightarrow> uh_mem run option" where
  "HASH_ADD_TO_BKT m t bkt p = do {
     T \<leftarrow> tables m t;
     b \<leftarrow> rd (buckets T) bkt;
     let b = b\<lparr>count := count b + 1\<rparr>;
     m \<leftarrow> link_front p (hh_head b) m;
     let b = b\<lparr>hh_head := Some p\<rparr>;
     bs \<leftarrow> wr (buckets T) bkt b;
     let m = m\<lparr>tables := (tables m)(t \<mapsto> T\<lparr>buckets := bs\<rparr>)\<rparr>;
     (t', T') \<leftarrow> tbl_of m p;
     (if count b \<ge> (expand_mult b + 1) * HASH_BKT_CAPACITY_THRESH \<and> noexpand T' \<noteq> 1 then HASH_EXPAND_BUCKETS m t'
      else Some (Going m))
   }"

text \<open>The first part of \<open>HASH_ADD_KEYPTR\<close>, which links the element into the application order: memory and head.\<close>

definition add_in_order :: "uh_mem \<Rightarrow> nat option \<Rightarrow> nat \<Rightarrow> (uh_mem \<times> nat) run option" where
  "add_in_order m head add = (case head of
     None \<Rightarrow> do {
       m \<leftarrow> upd_hh add (\<lambda>h. h\<lparr>prev := None\<rparr>) m;
       and_then (HASH_MAKE_TABLE m add) (\<lambda>m. Some (Going (m, add)))
     }
   | Some p \<Rightarrow> do {
       (t, T) \<leftarrow> tbl_of m p;
       last \<leftarrow> tail T;
       m \<leftarrow> upd_hh last (\<lambda>h. h\<lparr>nxt := Some add\<rparr>) m;
       m \<leftarrow> upd_hh add (\<lambda>h. h\<lparr>prev := Some last\<rparr>) m;
       m \<leftarrow> upd_tbl t (\<lambda>T. T\<lparr>tail := Some add\<rparr>) m;
       Some (Going (m, p))
     })"

text \<open>The second part: the number of items, the hash value and the bucket.\<close>

definition add_in_bucket :: "hash_fcn \<Rightarrow> uh_mem \<Rightarrow> nat \<Rightarrow> nat \<Rightarrow> nat \<Rightarrow> nat \<Rightarrow> (uh_mem \<times> nat option) run option" where
  "add_in_bucket fcn m head keyptr keylen_in add = do {
     (t, T) \<leftarrow> tbl_of m head;
     m \<leftarrow> upd_tbl t (\<lambda>T. T\<lparr>num_items := num_items T + 1\<rparr>) m;
     m \<leftarrow> upd_hh add (\<lambda>h. h\<lparr>tbl := Some t\<rparr>) m;
     k \<leftarrow> key_mem m keyptr;
     (hv, bkt) \<leftarrow> fcn k keylen_in (num_buckets T);
     m \<leftarrow> upd_hh add (\<lambda>h. h\<lparr>hashv := hv\<rparr>) m;
     and_then (HASH_ADD_TO_BKT m t (unat bkt) add) (\<lambda>m. Some (Going (m, Some head)))
   }"

definition HASH_ADD_KEYPTR :: "hash_fcn \<Rightarrow> uh_mem \<Rightarrow> nat option \<Rightarrow> nat \<Rightarrow> nat \<Rightarrow> nat \<Rightarrow> (uh_mem \<times> nat option) run option" where
  "HASH_ADD_KEYPTR fcn m head keyptr keylen_in add = do {
     m \<leftarrow> upd_hh add (\<lambda>h. h\<lparr>nxt := None, key := keyptr, keylen := of_nat keylen_in\<rparr>) m;
     and_then (add_in_order m head add) (\<lambda>(m, head). add_in_bucket fcn m head keyptr keylen_in add)
   }"

text \<open>The key is a member of the element: its pointer has the element's number.\<close>

definition HASH_ADD :: "hash_fcn \<Rightarrow> uh_mem \<Rightarrow> nat option \<Rightarrow> nat \<Rightarrow> nat \<Rightarrow> (uh_mem \<times> nat option) run option" where
  "HASH_ADD fcn m head keylen_in add = HASH_ADD_KEYPTR fcn m head add keylen_in add"

section \<open>Removing\<close>

definition HASH_DEL_IN_BKT :: "uh_mem \<Rightarrow> nat \<Rightarrow> nat \<Rightarrow> nat \<Rightarrow> uh_mem option" where
  "HASH_DEL_IN_BKT m t bkt p = do {
     T \<leftarrow> tables m t;
     b \<leftarrow> rd (buckets T) bkt;
     h \<leftarrow> elems m p;
     let b = b\<lparr>count := count b - 1\<rparr>;
     let b = (if hh_head b = Some p then b\<lparr>hh_head := hh_next h\<rparr> else b);
     bs \<leftarrow> wr (buckets T) bkt b;
     let m = m\<lparr>tables := (tables m)(t \<mapsto> T\<lparr>buckets := bs\<rparr>)\<rparr>;
     m \<leftarrow> (case hh_prev h of None \<Rightarrow> Some m | Some y \<Rightarrow> upd_hh y (\<lambda>g. g\<lparr>hh_next := hh_next h\<rparr>) m);
     (case hh_next h of None \<Rightarrow> Some m | Some y \<Rightarrow> upd_hh y (\<lambda>g. g\<lparr>hh_prev := hh_prev h\<rparr>) m)
   }"

definition HASH_DELETE :: "uh_mem \<Rightarrow> nat option \<Rightarrow> nat \<Rightarrow> (uh_mem \<times> nat option) option" where
  "HASH_DELETE m head del = do {
     d \<leftarrow> elems m del;
     p \<leftarrow> head;
     (t, T) \<leftarrow> tbl_of m p;
     (if prev d = None \<and> nxt d = None then Some (m\<lparr>tables := (tables m)(t := None)\<rparr>, None)
      else do {
        m \<leftarrow> (if tail T = Some del then upd_tbl t (\<lambda>T. T\<lparr>tail := prev d\<rparr>) m else Some m);
        (m, p) \<leftarrow> (case prev d of
            Some y \<Rightarrow> do { m \<leftarrow> upd_hh y (\<lambda>g. g\<lparr>nxt := nxt d\<rparr>) m; Some (m, p) }
          | None \<Rightarrow> do { y \<leftarrow> nxt d; Some (m, y) });
        m \<leftarrow> (case nxt d of None \<Rightarrow> Some m | Some y \<Rightarrow> upd_hh y (\<lambda>g. g\<lparr>prev := prev d\<rparr>) m);
        (t, T) \<leftarrow> tbl_of m p;
        m \<leftarrow> HASH_DEL_IN_BKT m t (unat (HASH_TO_BKT (hashv d) (num_buckets T))) del;
        m \<leftarrow> upd_tbl t (\<lambda>T. T\<lparr>num_items := num_items T - 1\<rparr>) m;
        Some (m, Some p)
      })
   }"

definition HASH_REPLACE ::
  "hash_fcn \<Rightarrow> uh_mem \<Rightarrow> nat option \<Rightarrow> nat \<Rightarrow> nat \<Rightarrow> ((uh_mem \<times> nat option) run \<times> nat option) option" where
  "HASH_REPLACE fcn m head keylen_in add = do {
     k \<leftarrow> key_mem m add;
     replaced \<leftarrow> HASH_FIND fcn m head k keylen_in;
     (m, head) \<leftarrow> (case replaced of None \<Rightarrow> Some (m, head) | Some d \<Rightarrow> HASH_DELETE m head d);
     r \<leftarrow> HASH_ADD fcn m head keylen_in add;
     Some (r, replaced)
   }"

definition HASH_CLEAR :: "uh_mem \<Rightarrow> nat option \<Rightarrow> (uh_mem \<times> nat option) option" where
  "HASH_CLEAR m head = (case head of
     None \<Rightarrow> Some (m, None)
   | Some p \<Rightarrow> do { (t, T) \<leftarrow> tbl_of m p; Some (m\<lparr>tables := (tables m)(t := None)\<rparr>, None) })"

section \<open>Going through a table\<close>

definition HASH_CNT :: "uh_mem \<Rightarrow> nat option \<Rightarrow> u32 option" where
  "HASH_CNT m head = (case head of None \<Rightarrow> Some 0 | Some p \<Rightarrow> do { (t, T) \<leftarrow> tbl_of m p; Some (num_items T) })"

text \<open>The elements that \<open>HASH_ITER\<close> visits.\<close>

partial_function (option) HASH_ITER :: "uh_mem \<Rightarrow> nat option \<Rightarrow> nat list option" where
  "HASH_ITER m el = (case el of
     None \<Rightarrow> Some []
   | Some p \<Rightarrow> do { h \<leftarrow> elems m p; es \<leftarrow> HASH_ITER m (nxt h); Some (p # es) })"

text \<open>The check of a table's integrity that \<open>HASH_DEBUG\<close> turns on: a loop returns the number of handles, or nothing when
  a back pointer is wrong.\<close>

partial_function (option) fsck_chain :: "uh_mem \<Rightarrow> nat option \<Rightarrow> nat option \<Rightarrow> u32 \<Rightarrow> u32 option option" where
  "fsck_chain m p thh n = (case thh of
     None \<Rightarrow> Some (Some n)
   | Some x \<Rightarrow> do {
       h \<leftarrow> elems m x;
       (if p \<noteq> hh_prev h then Some None else fsck_chain m (Some x) (hh_next h) (n + 1))
     })"

fun fsck_buckets :: "uh_mem \<Rightarrow> UT_hash_bucket list \<Rightarrow> u32 \<Rightarrow> u32 option option" where
  "fsck_buckets m [] n = Some (Some n)"
| "fsck_buckets m (b # bs) n = do {
     r \<leftarrow> fsck_chain m None (hh_head b) 0;
     (case r of None \<Rightarrow> Some None | Some c \<Rightarrow> if count b \<noteq> c then Some None else fsck_buckets m bs (n + c))
   }"

partial_function (option) fsck_order :: "uh_mem \<Rightarrow> nat option \<Rightarrow> nat option \<Rightarrow> u32 \<Rightarrow> u32 option option" where
  "fsck_order m p thh n = (case thh of
     None \<Rightarrow> Some (Some n)
   | Some x \<Rightarrow> do {
       h \<leftarrow> elems m x;
       (if p \<noteq> prev h then Some None else fsck_order m (Some x) (nxt h) (n + 1))
     })"

definition HASH_FSCK :: "uh_mem \<Rightarrow> nat option \<Rightarrow> bool option" where
  "HASH_FSCK m head = (case head of
     None \<Rightarrow> Some True
   | Some p \<Rightarrow> do {
       (t, T) \<leftarrow> tbl_of m p;
       bs \<leftarrow> rdn (buckets T) 0 (unat (num_buckets T));
       c \<leftarrow> fsck_buckets m bs 0;
       (if c \<noteq> Some (num_items T) then Some False
        else do {
          c \<leftarrow> fsck_order m None head 0;
          Some (c = Some (num_items T))
        })
     })"

end
