(* ===== verification/Uthash_Hash.thy ===== *)
theory Uthash_Hash
  imports Uthash
begin

text \<open>
  The contract of a hash function of \<open>uthash.h\<close>: it reads no more than the key, ends with a value that depends on the bytes of
  the key alone, and the bucket is that value modulo the number of buckets. Every function of the header keeps it.
\<close>

locale hash_function =
  fixes fcn :: hash_fcn and hash :: "bytes \<Rightarrow> u32"
  assumes fcn: "len \<le> length k \<Longrightarrow> len < 2 ^ 32 \<Longrightarrow>
    fcn k len num_bkts = Some (hash (take len k), HASH_TO_BKT (hash (take len k)) num_bkts)"

text \<open>The value of a function, taken from its result for the whole key.\<close>

definition hash_of :: "hash_fcn \<Rightarrow> bytes \<Rightarrow> u32" where
  "hash_of fcn k = fst (the (fcn k (length k) 0))"

lemma hash_functionI:
  assumes "\<And>(k :: bytes) len nb. len \<le> length k \<Longrightarrow> len < 2 ^ 32 \<Longrightarrow> fcn k len nb = fcn (take len k) len nb"
    and "\<And>(k :: bytes). length k < 2 ^ 32 \<Longrightarrow> \<exists>hv. \<forall>nb. fcn k (length k) nb = Some (hv, HASH_TO_BKT hv nb)"
  shows "hash_function fcn (hash_of fcn)"
proof
  fix len nb and k :: bytes assume l: "len \<le> length k" "len < 2 ^ 32"
  obtain hv where "\<And>nb. fcn (take len k) len nb = Some (hv, HASH_TO_BKT hv nb)"
    using assms(2) [of "take len k"] l by (auto simp: min_absorb2)
  then show "fcn k len nb = Some (hash_of fcn (take len k), HASH_TO_BKT (hash_of fcn (take len k)) nb)"
    using l by (simp add: assms(1) [of len k] hash_of_def min_absorb2)
qed

lemma unat_keylen [simp]: "n < 2 ^ 32 \<Longrightarrow> unat (of_nat n :: u32) = n"
  by (simp add: unat_of_nat take_bit_nat_eq_self)

lemma rd_take: "i < n \<Longrightarrow> rd (take n k) i = rd k i"
  by (auto simp: rd_def)

section \<open>The functions that go byte by byte\<close>

lemma key_loop_take: "i + n \<le> len \<Longrightarrow> key_loop f (take len k) i n hv = key_loop f k i n hv"
  by (induction n arbitrary: i hv) (simp_all add: rd_take)

lemma key_loop_total: "i + n \<le> length k \<Longrightarrow> \<exists>hv'. key_loop f k i n hv = Some hv'"
  by (induction n arbitrary: i hv) (simp_all add: c_mem)

lemma key_loop_whole: "\<exists>hv'. key_loop f k 0 (length k) hv = Some hv'"
  by (rule key_loop_total) simp

interpretation ber: hash_function HASH_BER "hash_of HASH_BER"
proof (rule hash_functionI, goal_cases)
  case (1 k len nb)
  then show ?case
    by (simp add: HASH_BER_def key_loop_take)
next
  case (2 k)
  then show ?case
    using key_loop_whole [of "\<lambda>hv c. hv * 33 + c" k 0] by (auto simp: HASH_BER_def HASH_TO_BKT_def)
qed

interpretation sax: hash_function HASH_SAX "hash_of HASH_SAX"
proof (rule hash_functionI, goal_cases)
  case (1 k len nb)
  then show ?case
    by (simp add: HASH_SAX_def key_loop_take)
next
  case (2 k)
  then show ?case
    using key_loop_whole [of "\<lambda>hv c. hv XOR (push_bit 5 hv + drop_bit 2 hv + c)" k 0]
    by (auto simp: HASH_SAX_def HASH_TO_BKT_def)
qed

interpretation fnv: hash_function HASH_FNV "hash_of HASH_FNV"
proof (rule hash_functionI, goal_cases)
  case (1 k len nb)
  then show ?case
    by (simp add: HASH_FNV_def key_loop_take)
next
  case (2 k)
  then show ?case
    using key_loop_whole [of "\<lambda>hv c. (hv * 16777619) XOR c" k 2166136261]
    by (auto simp: HASH_FNV_def HASH_TO_BKT_def)
qed

interpretation oat: hash_function HASH_OAT "hash_of HASH_OAT"
proof (rule hash_functionI, goal_cases)
  case (1 k len nb)
  then show ?case
    by (simp add: HASH_OAT_def key_loop_take)
next
  case (2 k)
  then show ?case
    using key_loop_whole [of "\<lambda>hv c. let hv = hv + c; hv = hv + push_bit 10 hv in hv XOR drop_bit 6 hv" k 0]
    by (auto simp: HASH_OAT_def HASH_TO_BKT_def Let_def)
qed

section \<open>The function by pairs of bytes\<close>

lemma get16bits_take: "i + 2 \<le> len \<Longrightarrow> get16bits (take len k) i = get16bits k i"
  by (simp add: get16bits_def rd_take)

lemma get16bits_total: "i + 2 \<le> length k \<Longrightarrow> \<exists>x. get16bits k i = Some x"
  by (simp add: get16bits_def c_mem)

lemma sfh_loop_take: "i + 4 * n \<le> len \<Longrightarrow> sfh_loop (take len k) i n hv = sfh_loop k i n hv"
  by (induction n arbitrary: i hv) (simp_all add: get16bits_take Let_def)

lemma sfh_loop_total: "i + 4 * n \<le> length k \<Longrightarrow> \<exists>hv'. sfh_loop k i n hv = Some hv'"
proof (induction n arbitrary: i hv)
  case (Suc n)
  then obtain x y where "get16bits k i = Some x" "get16bits k (i + 2) = Some y"
    using get16bits_total [of i k] get16bits_total [of "i + 2" k] by auto
  then show ?case
    using Suc by (simp add: Let_def)
qed simp

lemma sfh_rest_take: "i + r \<le> len \<Longrightarrow> sfh_rest (take len k) i r hv = sfh_rest k i r hv"
  by (simp add: sfh_rest_def get16bits_take rd_take)

lemma sfh_rest_total: "i + r \<le> length k \<Longrightarrow> \<exists>hv'. sfh_rest k i r hv = Some hv'"
  using get16bits_total [of i k] by (auto simp: sfh_rest_def c_mem Let_def)

interpretation sfh: hash_function HASH_SFH "hash_of HASH_SFH"
proof (rule hash_functionI, goal_cases)
  case (1 k len nb)
  then show ?case
    by (simp add: HASH_SFH_def Let_def sfh_loop_take sfh_rest_take)
next
  case (2 k)
  obtain a where a: "sfh_loop k 0 (length k div 4) 0xcafebabe = Some a"
    using sfh_loop_total [of 0 "length k div 4" k] by auto
  obtain b where "sfh_rest k (4 * (length k div 4)) (length k mod 4) a = Some b"
    using sfh_rest_total [of "4 * (length k div 4)" "length k mod 4" k] by auto
  then show ?case
    using a 2 by (auto simp: HASH_SFH_def Let_def HASH_TO_BKT_def)
qed

section \<open>Jenkins' function\<close>

lemma jen_word_take: "i + 4 \<le> len \<Longrightarrow> jen_word (take len k) i = jen_word k i"
  by (simp add: jen_word_def rd_take)

lemma jen_word_total: "i + 4 \<le> length k \<Longrightarrow> \<exists>x. jen_word k i = Some x"
  by (simp add: jen_word_def c_mem)

declare jen_loop.simps [simp del]

lemma jen_loop_end: "n < 12 \<Longrightarrow> jen_loop k off n i j hv = Some (off, n, i, j, hv)"
  by (simp add: jen_loop.simps)

lemma jen_loop_take: "off + n \<le> len \<Longrightarrow> jen_loop (take len k) off n i j hv = jen_loop k off n i j hv"
proof (induction n arbitrary: off i j hv rule: less_induct)
  case (less n)
  show ?case
  proof (cases "n \<ge> 12")
    case True
    have IH: "jen_loop (take len k) (off + 12) (n - 12) i' j' hv' = jen_loop k (off + 12) (n - 12) i' j' hv'" for i' j' hv'
      using less True by simp
    show ?thesis
      using less.prems True unfolding jen_loop.simps [of _ off n] by (simp add: jen_word_take split_def IH)
  qed (simp add: jen_loop_end)
qed

lemma jen_loop_total:
  "off + n \<le> length k \<Longrightarrow> \<exists>off' n' i' j' hv'. jen_loop k off n i j hv = Some (off', n', i', j', hv') \<and> off' + n' = off + n \<and> n' < 12"
proof (induction n arbitrary: off i j hv rule: less_induct)
  case (less n)
  show ?case
  proof (cases "n \<ge> 12")
    case True
    obtain x y z where w: "jen_word k off = Some x" "jen_word k (off + 4) = Some y" "jen_word k (off + 8) = Some z"
      using jen_word_total [of off k] jen_word_total [of "off + 4" k] jen_word_total [of "off + 8" k] less.prems True
      by auto
    obtain a b c where mx: "HASH_JEN_MIX (i + x) (j + y) (hv + z) = (a, b, c)"
      by (metis prod_cases3)
    show ?thesis
      using less.IH [of "n - 12" "off + 12" a b c] less.prems True
      unfolding jen_loop.simps [of _ off n] by (simp add: w mx)
  qed (simp add: jen_loop_end)
qed

lemma jen_case_take: "off + n \<le> len \<Longrightarrow> 0 < c \<Longrightarrow> jen_case (take len k) off n c sh a = jen_case k off n c sh a"
  by (simp add: jen_case_def rd_take)

lemma jen_case_total: "off + n \<le> length k \<Longrightarrow> 0 < c \<Longrightarrow> \<exists>a'. jen_case k off n c sh a = Some a'"
  by (auto simp: jen_case_def c_mem)


text \<open>The cases of the \<open>switch\<close> and the last mixing.\<close>

definition jen_finish :: "bytes \<Rightarrow> nat \<Rightarrow> nat \<Rightarrow> u32 \<Rightarrow> u32 \<Rightarrow> u32 \<Rightarrow> u32 option" where
  "jen_finish k off n i j hv = do {
     hv \<leftarrow> jen_case k off n 11 24 hv; hv \<leftarrow> jen_case k off n 10 16 hv; hv \<leftarrow> jen_case k off n 9 8 hv;
     j \<leftarrow> jen_case k off n 8 24 j; j \<leftarrow> jen_case k off n 7 16 j; j \<leftarrow> jen_case k off n 6 8 j; j \<leftarrow> jen_case k off n 5 0 j;
     i \<leftarrow> jen_case k off n 4 24 i; i \<leftarrow> jen_case k off n 3 16 i; i \<leftarrow> jen_case k off n 2 8 i; i \<leftarrow> jen_case k off n 1 0 i;
     Some (snd (snd (HASH_JEN_MIX i j hv)))
   }"

lemma HASH_JEN_alt: "HASH_JEN k len nb = do {
    (off, n, i, j, hv) \<leftarrow> jen_loop k 0 (unat (of_nat len :: u32)) 0x9e3779b9 0x9e3779b9 0xfeedbeef;
    hv \<leftarrow> jen_finish k off n i j (hv + of_nat len);
    Some (hv, HASH_TO_BKT hv nb)
  }"
  by (simp add: HASH_JEN_def jen_finish_def HASH_TO_BKT_def Let_def split_def)

lemma jen_finish_take: "off + n \<le> len \<Longrightarrow> jen_finish (take len k) off n i j hv = jen_finish k off n i j hv"
  by (simp add: jen_finish_def jen_case_take)

lemma jen_finish_total: "off + n \<le> length k \<Longrightarrow> jen_finish k off n i j hv \<noteq> None"
proof -
  assume l: "off + n \<le> length k"
  have "jen_case k off n c sh a \<noteq> None" if "0 < c" for c sh a
    using jen_case_total [OF l that, of sh a] by auto
  then show ?thesis
    by (simp add: jen_finish_def bind_eq_None_conv del: not_None_eq)
qed

interpretation jen: hash_function HASH_JEN "hash_of HASH_JEN"
proof (rule hash_functionI, goal_cases)
  case (1 k len nb)
  obtain off n i j hv where "jen_loop k 0 len 0x9e3779b9 0x9e3779b9 0xfeedbeef = Some (off, n, i, j, hv)" "off + n = len"
    using jen_loop_total [of 0 len k] 1 by fastforce
  then show ?case
    using 1 by (simp add: HASH_JEN_alt jen_loop_take jen_finish_take)
next
  case (2 k)
  obtain off n i j hv where l: "jen_loop k 0 (length k) 0x9e3779b9 0x9e3779b9 0xfeedbeef = Some (off, n, i, j, hv)"
      "off + n \<le> length k"
    using jen_loop_total [of 0 "length k" k] by fastforce
  obtain v where "jen_finish k off n i j (hv + of_nat (length k)) = Some v"
    using jen_finish_total [OF l(2)] by blast
  then show ?case
    using 2 l by (simp add: HASH_JEN_alt)
qed

interpretation default_fcn: hash_function HASH_FCN "hash_of HASH_FCN"
  unfolding HASH_FCN_def by (rule jen.hash_function_axioms)

text \<open>Every function of the header fulfils the contract.\<close>

lemma header_hash_function:
  "fcn \<in> {HASH_FCN, HASH_JEN, HASH_BER, HASH_SAX, HASH_FNV, HASH_OAT, HASH_SFH} \<Longrightarrow> hash_function fcn (hash_of fcn)"
  using default_fcn.hash_function_axioms jen.hash_function_axioms ber.hash_function_axioms sax.hash_function_axioms
    fnv.hash_function_axioms oat.hash_function_axioms sfh.hash_function_axioms by auto

end
