(* ===== verification/Uthash_Inv.thy ===== *)
theory Uthash_Inv
  imports Uthash_Hash
begin

text \<open>
  The invariant of a table of \<open>uthash.h\<close>. Chains are followed along two pointers of the handles, \<open>nx\<close> forward and \<open>pv\<close>
  back: \<open>seg nx pv E p q xs r\<close> says that from \<open>q\<close> on the heap \<open>E\<close> holds the handles \<open>xs\<close>, the first of which points back to
  \<open>p\<close>, and that the last one points to \<open>r\<close>. Both the application order and the buckets are such chains.
\<close>

section \<open>Chains\<close>

fun seg :: "(UT_hash_handle \<Rightarrow> nat option) \<Rightarrow> (UT_hash_handle \<Rightarrow> nat option) \<Rightarrow> (nat \<rightharpoonup> UT_hash_handle) \<Rightarrow>
    nat option \<Rightarrow> nat option \<Rightarrow> nat list \<Rightarrow> nat option \<Rightarrow> bool" where
  "seg nx pv E p q [] r \<longleftrightarrow> q = r"
| "seg nx pv E p q (x # xs) r \<longleftrightarrow> q = Some x \<and> (\<exists>h. E x = Some h \<and> pv h = p \<and> seg nx pv E (Some x) (nx h) xs r)"

text \<open>The address before the end of a chain.\<close>

definition last_or :: "nat option \<Rightarrow> nat list \<Rightarrow> nat option" where
  "last_or p xs = (if xs = [] then p else Some (last xs))"

definition hd_or :: "nat list \<Rightarrow> nat option \<Rightarrow> nat option" where
  "hd_or xs r = (if xs = [] then r else Some (hd xs))"

lemma last_or_simps [simp]: "last_or p [] = p" "last_or p (xs @ [x]) = Some x" "last_or p (x # xs) = last_or (Some x) xs"
  by (auto simp: last_or_def)

lemma hd_or_simps [simp]: "hd_or [] r = r" "hd_or (x # xs) r = Some x"
  by (auto simp: hd_or_def)

lemma seg_first: "seg nx pv E p q xs r \<Longrightarrow> q = hd_or xs r"
  by (cases xs) auto

lemma seg_append: "seg nx pv E p q (xs @ ys) r \<longleftrightarrow> (\<exists>s. seg nx pv E p q xs s \<and> seg nx pv E (last_or p xs) s ys r)"
  by (induction xs arbitrary: p q) auto

lemma seg_live: "seg nx pv E p q xs r \<Longrightarrow> x \<in> set xs \<Longrightarrow> \<exists>h. E x = Some h"
  by (induction xs arbitrary: p q) auto

lemma seg_frame:
  "(\<And>x. x \<in> set xs \<Longrightarrow> map_option (\<lambda>h. (nx h, pv h)) (E' x) = map_option (\<lambda>h. (nx h, pv h)) (E x)) \<Longrightarrow>
   seg nx pv E' p q xs r = seg nx pv E p q xs r"
proof (induction xs arbitrary: p q)
  case (Cons x xs)
  have "map_option (\<lambda>h. (nx h, pv h)) (E' x) = map_option (\<lambda>h. (nx h, pv h)) (E x)"
    using Cons.prems by simp
  moreover have "seg nx pv E' p' q' xs r = seg nx pv E p' q' xs r" for p' q'
    using Cons by simp
  ultimately show ?case
    by (cases "E x"; cases "E' x") auto
qed simp

text \<open>What a chain needs of a heap in which other cells, or other members, have changed.\<close>

definition same_on :: "nat set \<Rightarrow> (UT_hash_handle \<Rightarrow> 'a) \<Rightarrow> (nat \<rightharpoonup> UT_hash_handle) \<Rightarrow> (nat \<rightharpoonup> UT_hash_handle) \<Rightarrow> bool" where
  "same_on S f E E' \<longleftrightarrow> (\<forall>x\<in>S. map_option f (E' x) = map_option f (E x))"

lemma same_onD: "same_on S f E E' \<Longrightarrow> x \<in> S \<Longrightarrow> E x = Some h \<Longrightarrow> \<exists>h'. E' x = Some h' \<and> f h' = f h"
  by (fastforce simp: same_on_def)

lemma same_on_refl [simp]: "same_on S f E E"
  by (simp add: same_on_def)

lemma same_on_trans: "same_on S f E E' \<Longrightarrow> same_on S f E' E'' \<Longrightarrow> same_on S f E E''"
  by (simp add: same_on_def)

lemma same_on_subset: "same_on S f E E' \<Longrightarrow> T \<subseteq> S \<Longrightarrow> same_on T f E E'"
  by (auto simp: same_on_def)

lemma seg_same: "same_on (set xs) (\<lambda>h. (nx h, pv h)) E E' \<Longrightarrow> seg nx pv E p q xs r \<Longrightarrow> seg nx pv E' p q xs r"
  using seg_frame [of xs nx pv E' E] by (simp add: same_on_def)

lemma modify_same [simp]: "modify p f E p = map_option f (E p)"
  by (simp add: modify_def)

lemma modify_other [simp]: "x \<noteq> p \<Longrightarrow> modify p f E x = E x"
  by (simp add: modify_def)

lemma modify_apply: "modify p f E x = (if x = p then map_option f (E x) else E x)"
  by (simp add: modify_def)

lemma dom_modify [simp]: "dom (modify p f E) = dom E"
  by (auto simp: modify_def dom_def)

lemma same_on_modify: "p \<notin> S \<or> (\<forall>h. g (f h) = g h) \<Longrightarrow> same_on S g E (modify p f E)"
  by (auto simp: same_on_def modify_apply option.map_comp comp_def)

text \<open>A new last pointer, a new first back pointer, and a new first element.\<close>

lemma seg_end:
  assumes "seg nx pv E p q (xs @ [x]) r" and "\<And>h. nx (f h) = r'" and "\<And>h. pv (f h) = pv h" and "x \<notin> set xs"
  shows "seg nx pv (modify x f E) p q (xs @ [x]) r'"
proof -
  obtain s h where s: "seg nx pv E p q xs s" "s = Some x" "E x = Some h" "pv h = last_or p xs"
    using assms(1) by (auto simp: seg_append)
  have "seg nx pv (modify x f E) p q xs s"
    using s(1) by (rule seg_same [rotated]) (rule same_on_modify, simp add: assms(4))
  then show ?thesis
    using s assms by (auto simp: seg_append)
qed

lemma seg_start:
  assumes "seg nx pv E p q (x # xs) r" and "\<And>h. pv (f h) = p'" and "\<And>h. nx (f h) = nx h" and "x \<notin> set xs"
  shows "seg nx pv (modify x f E) p' q (x # xs) r"
proof -
  obtain h where h: "q = Some x" "E x = Some h" "seg nx pv E (Some x) (nx h) xs r"
    using assms(1) by auto
  have "seg nx pv (modify x f E) (Some x) (nx h) xs r"
    using h(3) by (rule seg_same [rotated]) (rule same_on_modify, simp add: assms(4))
  then show ?thesis
    using h assms by auto
qed

section \<open>Pushing a handle to the front of its bucket\<close>

text \<open>The members that the links of the buckets do not touch.\<close>

definition core :: "UT_hash_handle \<Rightarrow> UT_hash_handle" where
  "core h = h\<lparr>hh_prev := None, hh_next := None\<rparr>"

lemma coreD: "core h' = core h \<Longrightarrow>
  tbl h' = tbl h \<and> prev h' = prev h \<and> nxt h' = nxt h \<and> key h' = key h \<and> keylen h' = keylen h \<and> hashv h' = hashv h"
  by (cases h; cases h') (simp add: core_def)

lemma core_upd [simp]: "core (h\<lparr>hh_next := a\<rparr>) = core h" "core (h\<lparr>hh_prev := b\<rparr>) = core h"
  by (simp_all add: core_def)

text \<open>The members that the links of the application order do not touch.\<close>

definition push :: "nat \<Rightarrow> nat option \<Rightarrow> (nat \<rightharpoonup> UT_hash_handle) \<Rightarrow> (nat \<rightharpoonup> UT_hash_handle)" where
  "push p q E = (let E = modify p (\<lambda>h. h\<lparr>hh_next := q, hh_prev := None\<rparr>) E in
     (case q of None \<Rightarrow> E | Some y \<Rightarrow> modify y (\<lambda>h. h\<lparr>hh_prev := Some p\<rparr>) E))"

lemma link_front_eq:
  assumes "elems m p \<noteq> None" and "\<And>y. q = Some y \<Longrightarrow> elems m y \<noteq> None"
  shows "link_front p q m = Some (m\<lparr>elems := push p q (elems m)\<rparr>)"
  using assms by (auto simp: link_front_def upd_hh_def push_def Let_def modify_apply split: option.splits)

lemma push_same:
  assumes "p \<notin> S \<or> (\<forall>h a b. f (h\<lparr>hh_next := a, hh_prev := b\<rparr>) = f h)"
    and "\<And>y. q = Some y \<Longrightarrow> y \<notin> S \<or> (\<forall>h a. f (h\<lparr>hh_prev := a\<rparr>) = f h)"
  shows "same_on S f E (push p q E)"
proof -
  let ?E = "modify p (\<lambda>h. h\<lparr>hh_next := q, hh_prev := None\<rparr>) E"
  have 1: "same_on S f E ?E"
    by (rule same_on_modify) (use assms(1) in blast)
  show ?thesis
  proof (cases q)
    case None
    then show ?thesis
      using 1 by (simp add: push_def)
  next
    case (Some y)
    have "same_on S f ?E (modify y (\<lambda>h. h\<lparr>hh_prev := Some p\<rparr>) ?E)"
      by (rule same_on_modify) (use assms(2) [OF Some] in blast)
    then show ?thesis
      using same_on_trans [OF 1] by (simp add: push_def Some)
  qed
qed

lemma push_core: "same_on S core E (push p q E)"
  by (rule push_same) simp_all

lemma push_other: "p \<notin> S \<Longrightarrow> q \<notin> Some ` S \<Longrightarrow> same_on S f E (push p q E)"
  by (rule push_same) auto

lemma push_chain:
  assumes "seg hh_next hh_prev E None q xs None" and "x \<notin> set xs" and "distinct xs" and "E x = Some h"
  shows "seg hh_next hh_prev (push x q E) None (Some x) (x # xs) None"
proof (cases xs)
  case Nil
  then show ?thesis
    using assms by (simp add: push_def)
next
  case (Cons y ys)
  let ?E = "modify x (\<lambda>h. h\<lparr>hh_next := q, hh_prev := None\<rparr>) E"
  have q: "q = Some y" and y: "x \<noteq> y" "y \<notin> set ys"
    using assms Cons by auto
  have "seg hh_next hh_prev ?E None q (y # ys) None"
    using assms(1) unfolding Cons by (rule seg_same [rotated]) (rule same_on_modify, use assms Cons in auto)
  then have "seg hh_next hh_prev (push x q E) (Some x) q (y # ys) None"
    unfolding push_def q Let_def option.case by (rule seg_start) (use y in simp_all)
  then show ?thesis
    using assms(4) y unfolding Cons by (auto simp: push_def q Let_def modify_apply)
qed

section \<open>Unlinking an element\<close>

definition unlink :: "(nat option \<Rightarrow> UT_hash_handle \<Rightarrow> UT_hash_handle) \<Rightarrow> (nat option \<Rightarrow> UT_hash_handle \<Rightarrow> UT_hash_handle) \<Rightarrow>
    nat option \<Rightarrow> nat option \<Rightarrow> (nat \<rightharpoonup> UT_hash_handle) \<Rightarrow> (nat \<rightharpoonup> UT_hash_handle)" where
  "unlink sn sp a b E = (let E = (case a of None \<Rightarrow> E | Some y \<Rightarrow> modify y (sn b) E) in
     (case b of None \<Rightarrow> E | Some z \<Rightarrow> modify z (sp a) E))"

lemma unlink_same:
  assumes "\<And>y. a = Some y \<Longrightarrow> y \<notin> S \<or> (\<forall>h. f (sn b h) = f h)" and "\<And>z. b = Some z \<Longrightarrow> z \<notin> S \<or> (\<forall>h. f (sp a h) = f h)"
  shows "same_on S f E (unlink sn sp a b E)"
proof -
  let ?E = "case a of None \<Rightarrow> E | Some y \<Rightarrow> modify y (sn b) E"
  have 1: "same_on S f E ?E"
  proof (cases a)
    case (Some y)
    have "same_on S f E (modify y (sn b) E)"
      by (rule same_on_modify) (use assms(1) [OF Some] in blast)
    then show ?thesis
      by (simp add: Some)
  qed simp
  show ?thesis
  proof (cases b)
    case None
    then show ?thesis
      using 1 unfolding unlink_def Let_def None by simp
  next
    case (Some z)
    have "same_on S f ?E (modify z (sp a) ?E)"
      by (rule same_on_modify) (use assms(2) [OF Some] in blast)
    then show ?thesis
      using same_on_trans [OF 1] unfolding unlink_def Let_def Some by simp
  qed
qed

lemma seg_unlink:
  assumes seg: "seg nx pv E None q (ys @ d # zs) None" and dist: "distinct (ys @ d # zs)" and d: "E d = Some h"
    and sn: "\<And>a g. nx (sn a g) = a" "\<And>a g. pv (sn a g) = pv g"
    and sp: "\<And>a g. pv (sp a g) = a" "\<And>a g. nx (sp a g) = nx g"
  shows "seg nx pv (unlink sn sp (pv h) (nx h) E) None (if q = Some d then nx h else q) (ys @ zs) None"
proof -
  obtain s where 1: "seg nx pv E None q ys s" "s = Some d" "pv h = last_or None ys" "seg nx pv E (Some d) (nx h) zs None"
    using seg d by (auto simp: seg_append)
  let ?E1 = "case pv h of None \<Rightarrow> E | Some y \<Rightarrow> modify y (sn (nx h)) E"
  have zs: "seg nx pv ?E1 (Some d) (nx h) zs None"
  proof (cases "pv h")
    case (Some y)
    then have "y \<notin> set zs"
      using 1(3) dist last_in_set [of ys] by (auto simp: last_or_def simp del: last_in_set split: if_splits)
    then show ?thesis
      using 1(4) unfolding Some option.case by (intro seg_same [OF same_on_modify]) simp_all
  qed (use 1 in simp)
  have ys: "seg nx pv ?E1 None (if q = Some d then nx h else q) ys (nx h)"
  proof (cases ys rule: rev_cases)
    case (snoc us y)
    then have "q \<noteq> Some d"
      using seg_first [OF seg] dist by (cases us) auto
    then show ?thesis
      using 1 dist unfolding snoc by (auto intro!: seg_end sn)
  qed (use 1 in auto)
  show ?thesis
  proof (cases zs)
    case Nil
    then have nx: "nx h = None"
      using 1(4) by simp
    show ?thesis
      using ys unfolding unlink_def Let_def nx Nil by simp
  next
    case (Cons z ws)
    have nx: "nx h = Some z"
      using 1(4) Cons by simp
    have "z \<notin> set ys"
      using dist Cons by auto
    then have ys': "seg nx pv (modify z (sp (pv h)) ?E1) None (if q = Some d then nx h else q) ys (nx h)"
      using ys by (intro seg_same [OF same_on_modify]) simp_all
    have "seg nx pv (modify z (sp (pv h)) ?E1) (pv h) (nx h) zs None"
      using zs dist unfolding Cons by (intro seg_start sp) auto
    moreover have "unlink sn sp (pv h) (nx h) E = modify z (sp (pv h)) ?E1"
      unfolding unlink_def Let_def nx by simp
    ultimately show ?thesis
      using ys' unfolding 1(3) seg_append by auto
  qed
qed

section \<open>Buckets\<close>

definition bucket_ok :: "(nat \<rightharpoonup> UT_hash_handle) \<Rightarrow> UT_hash_bucket \<Rightarrow> nat list \<Rightarrow> bool" where
  "bucket_ok E b ch \<longleftrightarrow> seg hh_next hh_prev E None (hh_head b) ch None \<and> distinct ch \<and> unat (count b) = length ch"

text \<open>The elements \<open>S\<close>, with hash values \<open>hv\<close>, lie in \<open>n\<close> buckets \<open>bs\<close>, whose chains are \<open>bks\<close>.\<close>

definition buckets_ok ::
  "(nat \<Rightarrow> u32) \<Rightarrow> (nat \<rightharpoonup> UT_hash_handle) \<Rightarrow> u32 \<Rightarrow> nat set \<Rightarrow> UT_hash_bucket list \<Rightarrow> nat list list \<Rightarrow> bool" where
  "buckets_ok hv E n S bs bks \<longleftrightarrow> length bs = unat n \<and> length bks = unat n \<and>
     (\<forall>i<unat n. bucket_ok E (bs ! i) (bks ! i) \<and> set (bks ! i) = {x \<in> S. unat (HASH_TO_BKT (hv x) n) = i})"

lemma HASH_TO_BKT_less: "n \<noteq> 0 \<Longrightarrow> unat (HASH_TO_BKT h n) < unat n"
proof -
  assume n: "n \<noteq> 0"
  have "HASH_TO_BKT h n \<le> n - 1"
    by (simp add: HASH_TO_BKT_def word_and_le1)
  moreover have "n - 1 < n"
    using n by (simp add: measure_unat word_less_nat_alt)
  ultimately show ?thesis
    by (simp add: word_less_nat_alt [symmetric])
qed

lemma buckets_ok_cong:
  "(\<And>x. x \<in> S \<Longrightarrow> hv' x = hv x) \<Longrightarrow> buckets_ok hv' E n S bs bks = buckets_ok hv E n S bs bks"
  unfolding buckets_ok_def by (metis (no_types, lifting) Collect_cong)

lemma bucket_ok_same: "same_on (set ch) (\<lambda>h. (hh_next h, hh_prev h)) E E' \<Longrightarrow> bucket_ok E b ch \<Longrightarrow> bucket_ok E' b ch"
  unfolding bucket_ok_def using seg_same by blast

lemma buckets_ok_same:
  assumes "same_on S (\<lambda>h. (hh_next h, hh_prev h)) E E'" and "buckets_ok hv E n S bs bks"
  shows "buckets_ok hv E' n S bs bks"
proof -
  have *: "same_on (set (bks ! i)) (\<lambda>h. (hh_next h, hh_prev h)) E E'" if "i < unat n" for i
    by (rule same_on_subset [OF assms(1)]) (use assms(2) that in \<open>auto simp: buckets_ok_def\<close>)
  then have "bucket_ok E' (bs ! i) (bks ! i)" if "i < unat n" for i
    using bucket_ok_same [OF * [OF that]] that assms(2) by (simp add: buckets_ok_def)
  then show ?thesis
    using assms(2) by (simp add: buckets_ok_def)
qed

lemma bucket_head_in:
  "buckets_ok hv E n S bs bks \<Longrightarrow> i < unat n \<Longrightarrow> hh_head (bs ! i) = Some y \<Longrightarrow> y \<in> set (bks ! i) \<and> y \<in> S \<and> E y \<noteq> None"
proof -
  assume a: "buckets_ok hv E n S bs bks" "i < unat n" "hh_head (bs ! i) = Some y"
  then have c: "seg hh_next hh_prev E None (hh_head (bs ! i)) (bks ! i) None" "set (bks ! i) \<subseteq> S"
    by (auto simp: buckets_ok_def bucket_ok_def)
  have "y \<in> set (bks ! i)"
    using seg_first [OF c(1)] a(3) by (auto simp: hd_or_def split: if_splits)
  then show ?thesis
    using c seg_live by blast
qed

lemma bucket_push:
  assumes ok: "buckets_ok hv E n S bs bks" and x: "x \<notin> S" "E x \<noteq> None" and n: "n \<noteq> 0" and S: "finite S" "card S + 1 < 2 ^ 32"
    and i: "i = unat (HASH_TO_BKT (hv x) n)" and b: "hh_head b = Some x" "count b = count (bs ! i) + 1"
  shows "buckets_ok hv (push x (hh_head (bs ! i)) E) n (insert x S) (bs[i := b]) (bks[i := x # bks ! i])"
proof -
  let ?E = "push x (hh_head (bs ! i)) E"
  have len: "length bs = unat n" "length bks = unat n" and il: "i < unat n"
    using ok HASH_TO_BKT_less [OF n] by (auto simp: buckets_ok_def i)
  have bk: "bucket_ok E (bs ! j) (bks ! j)" "set (bks ! j) = {x \<in> S. unat (HASH_TO_BKT (hv x) n) = j}" if "j < unat n" for j
    using ok that by (auto simp: buckets_ok_def)
  have "length (bks ! i) \<le> card S"
    using bk [OF il] S(1) by (auto simp: bucket_ok_def distinct_card [symmetric] intro!: card_mono)
  then have cnt: "unat (count (bs ! i) + 1) = Suc (length (bks ! i))"
    using bk(1) [OF il] S(2) by (simp add: bucket_ok_def unat_word_ariths)
  have "bucket_ok ?E b (x # bks ! i)"
    using bk [OF il] x b cnt push_chain [of E "hh_head (bs ! i)" "bks ! i" x] by (auto simp: bucket_ok_def simp del: seg.simps)
  moreover have "bucket_ok ?E (bs ! j) (bks ! j)" if "j < unat n" "j \<noteq> i" for j
  proof (rule bucket_ok_same [OF push_other])
    show "x \<notin> set (bks ! j)"
      using bk(2) [OF that(1)] x by auto
    show "hh_head (bs ! i) \<notin> Some ` set (bks ! j)"
      using bucket_head_in [OF ok il] bk(2) [OF that(1)] bk(2) [OF il] that(2) by fastforce
    show "bucket_ok E (bs ! j) (bks ! j)"
      using bk that by blast
  qed
  ultimately have "bucket_ok ?E (bs[i := b] ! j) (bks[i := x # bks ! i] ! j)" if "j < unat n" for j
    using that len by (cases "j = i") simp_all
  moreover have "set (bks[i := x # bks ! i] ! j) = {y \<in> insert x S. unat (HASH_TO_BKT (hv y) n) = j}" if "j < unat n" for j
    using bk(2) [OF that] len il i by (cases "j = i") auto
  ultimately show ?thesis
    using len by (simp add: buckets_ok_def)
qed

text \<open>An element that leaves its bucket.\<close>

abbreviation unlink_bkt :: "nat option \<Rightarrow> nat option \<Rightarrow> (nat \<rightharpoonup> UT_hash_handle) \<Rightarrow> (nat \<rightharpoonup> UT_hash_handle)" where
  "unlink_bkt \<equiv> unlink (\<lambda>a h. h\<lparr>hh_next := a\<rparr>) (\<lambda>a h. h\<lparr>hh_prev := a\<rparr>)"

lemma bucket_del:
  assumes ok: "buckets_ok hv E n S bs bks" and d: "d \<in> S" "E d = Some h" and n: "n \<noteq> 0"
    and i: "i = unat (HASH_TO_BKT (hv d) n)"
    and b: "hh_head b = (if hh_head (bs ! i) = Some d then hh_next h else hh_head (bs ! i))" "count b = count (bs ! i) - 1"
  shows "buckets_ok hv (unlink_bkt (hh_prev h) (hh_next h) E) n (S - {d}) (bs[i := b]) (bks[i := remove1 d (bks ! i)])"
proof -
  let ?E = "unlink_bkt (hh_prev h) (hh_next h) E"
  have len: "length bs = unat n" "length bks = unat n" and il: "i < unat n"
    using ok HASH_TO_BKT_less [OF n] by (auto simp: buckets_ok_def i)
  have bk: "bucket_ok E (bs ! j) (bks ! j)" "set (bks ! j) = {x \<in> S. unat (HASH_TO_BKT (hv x) n) = j}" if "j < unat n" for j
    using ok that by (auto simp: buckets_ok_def)
  have "d \<in> set (bks ! i)"
    using bk(2) [OF il] d(1) i by simp
  then obtain ys zs where ch: "bks ! i = ys @ d # zs"
    by (meson split_list)
  have seg: "seg hh_next hh_prev E None (hh_head (bs ! i)) (ys @ d # zs) None" and dist: "distinct (ys @ d # zs)"
    and cnt: "unat (count (bs ! i)) = length (ys @ d # zs)"
    using bk(1) [OF il] by (auto simp only: bucket_ok_def ch)
  have rem: "remove1 d (bks ! i) = ys @ zs"
    using dist by (simp add: ch remove1_append)
  have "unat (count (bs ! i) - 1) = length (ys @ zs)"
    using cnt by (subst unat_sub) (auto simp: word_le_nat_alt)
  then have "bucket_ok ?E b (ys @ zs)"
    using seg_unlink [OF seg dist d(2), of "\<lambda>a h. h\<lparr>hh_next := a\<rparr>" "\<lambda>a h. h\<lparr>hh_prev := a\<rparr>"] b dist
    by (simp add: bucket_ok_def)
  moreover have "bucket_ok ?E (bs ! j) (bks ! j)" if j: "j < unat n" "j \<noteq> i" for j
  proof (rule bucket_ok_same [OF unlink_same bk(1) [OF j(1)]])
    obtain s where "hh_prev h = last_or None ys" "hh_next h = hd_or zs None"
      using seg d(2) seg_first by (fastforce simp: seg_append)
    moreover have "set (bks ! j) \<inter> set (bks ! i) = {}"
      using bk(2) [OF j(1)] bk(2) [OF il] j(2) by auto
    ultimately show "y \<notin> set (bks ! j) \<or> P" if "hh_prev h = Some y" for y P
      using that last_in_set [of ys] by (auto simp: ch last_or_def simp del: last_in_set split: if_splits)
    show "z \<notin> set (bks ! j) \<or> P" if "hh_next h = Some z" for z P
      using that \<open>hh_next h = hd_or zs None\<close> \<open>set (bks ! j) \<inter> set (bks ! i) = {}\<close> hd_in_set [of zs]
      by (auto simp: ch hd_or_def simp del: hd_in_set split: if_splits)
  qed
  ultimately have "bucket_ok ?E (bs[i := b] ! j) (bks[i := remove1 d (bks ! i)] ! j)" if "j < unat n" for j
    using that len by (cases "j = i") (simp_all add: rem)
  moreover have "set (bks[i := remove1 d (bks ! i)] ! j) = {y \<in> S - {d}. unat (HASH_TO_BKT (hv y) n) = j}" if "j < unat n" for j
    using bk [OF that] len il i by (cases "j = i") (auto simp: bucket_ok_def set_remove1_eq)
  ultimately show ?thesis
    using len by (simp add: buckets_ok_def)
qed

section \<open>Doubling the buckets\<close>

text \<open>The handles of a chain in the order of their forward pointers.\<close>

fun path :: "(nat \<rightharpoonup> UT_hash_handle) \<Rightarrow> nat option \<Rightarrow> nat list \<Rightarrow> bool" where
  "path E q [] \<longleftrightarrow> q = None"
| "path E q (x # xs) \<longleftrightarrow> q = Some x \<and> (\<exists>h. E x = Some h \<and> path E (hh_next h) xs)"

lemma seg_path: "seg hh_next pv E p q xs None \<Longrightarrow> path E q xs"
  by (induction xs arbitrary: p q) auto

lemma path_same: "same_on (set xs) hh_next E E' \<Longrightarrow> path E q xs \<Longrightarrow> path E' q xs"
proof (induction xs arbitrary: q)
  case (Cons x xs)
  then obtain h where h: "E x = Some h" "q = Some x" "path E (hh_next h) xs"
    by auto
  obtain h' where "E' x = Some h'" "hh_next h' = hh_next h"
    using same_onD [OF Cons.prems(1), of x h] h by auto
  then show ?case
    using Cons.IH [of "hh_next h"] h Cons.prems(1) same_on_subset by force
qed simp

text \<open>The hash values of the elements.\<close>

definition hashed :: "(nat \<Rightarrow> u32) \<Rightarrow> (nat \<rightharpoonup> UT_hash_handle) \<Rightarrow> nat set \<Rightarrow> bool" where
  "hashed hv E S \<longleftrightarrow> (\<forall>x\<in>S. \<exists>h. E x = Some h \<and> hashv h = hv x)"

lemma hashed_same: "same_on UNIV core E E' \<Longrightarrow> hashed hv E S \<Longrightarrow> hashed hv E' S"
  unfolding hashed_def
proof
  fix x assume s: "same_on UNIV core E E'" and h: "\<forall>x\<in>S. \<exists>h. E x = Some h \<and> hashv h = hv x" and x: "x \<in> S"
  obtain h where h: "E x = Some h" "hashv h = hv x"
    using h x by blast
  obtain h' where "E' x = Some h'" "core h' = core h"
    using same_onD [OF s UNIV_I h(1)] by blast
  then show "\<exists>h. E' x = Some h \<and> hashv h = hv x"
    using h(2) coreD [of h' h] by simp
qed

lemma expand_one_ok:
  assumes ok: "buckets_ok hv (elems m) (num_buckets T * 2) D new nks" and p: "p \<notin> D" "elems m p = Some h" "hashv h = hv p"
    and n: "num_buckets T * 2 \<noteq> 0" and ideal: "ideal_chain_maxlen T \<noteq> 0" and D: "finite D" "card D + 1 < 2 ^ 32"
  shows "\<exists>E' new' nks' k. expand_one m T new p = Some (m\<lparr>elems := E'\<rparr>, T\<lparr>nonideal_items := k\<rparr>, new', hh_next h) \<and>
    buckets_ok hv E' (num_buckets T * 2) (insert p D) new' nks' \<and> same_on UNIV core (elems m) E' \<and>
    same_on (- insert p D) hh_next (elems m) E'"
proof -
  let ?i = "unat (HASH_TO_BKT (hv p) (num_buckets T * 2))"
  let ?q = "hh_head (new ! ?i)"
  have il: "?i < unat (num_buckets T * 2)" "?i < length new"
    using ok HASH_TO_BKT_less [OF n] by (auto simp: buckets_ok_def)
  have link: "link_front p ?q m = Some (m\<lparr>elems := push p ?q (elems m)\<rparr>)"
    by (rule link_front_eq) (use p bucket_head_in [OF ok il(1)] in auto)
  have same: "same_on UNIV core (elems m) (push p ?q (elems m))" "same_on (- insert p D) hh_next (elems m) (push p ?q (elems m))"
    by (rule push_core) (rule push_same; simp)
  have res: "buckets_ok hv (push p ?q (elems m)) (num_buckets T * 2) (insert p D)
      (new[?i := (new ! ?i)\<lparr>count := count (new ! ?i) + 1, expand_mult := e, hh_head := Some p\<rparr>]) (nks[?i := p # nks ! ?i])" for e
    by (rule bucket_push [OF ok]) (use p n D in simp_all)
  show ?thesis
  proof (cases "count (new ! ?i) + 1 > ideal_chain_maxlen T")
    case True
    have *: "expand_one m T new p = Some (m\<lparr>elems := push p ?q (elems m)\<rparr>, T\<lparr>nonideal_items := nonideal_items T + 1\<rparr>,
        new[?i := (new ! ?i)\<lparr>count := count (new ! ?i) + 1,
          expand_mult := (count (new ! ?i) + 1) div ideal_chain_maxlen T, hh_head := Some p\<rparr>], hh_next h)"
      using True il ideal by (simp add: expand_one_def p rd_Some Let_def link wr_Some)
    show ?thesis
      by (intro exI conjI, rule *, rule res, rule same, rule same)
  next
    case False
    have *: "expand_one m T new p = Some (m\<lparr>elems := push p ?q (elems m)\<rparr>, T\<lparr>nonideal_items := nonideal_items T\<rparr>,
        new[?i := (new ! ?i)\<lparr>count := count (new ! ?i) + 1, expand_mult := expand_mult (new ! ?i), hh_head := Some p\<rparr>], hh_next h)"
      using False il by (simp add: expand_one_def p rd_Some Let_def link wr_Some)
    show ?thesis
      by (intro exI conjI, rule *, rule res, rule same, rule same)
  qed
qed

lemma expand_chain_ok:
  assumes "path (elems m) q ch" and "distinct ch" and "set ch \<inter> D = {}"
    and "buckets_ok hv (elems m) (num_buckets T * 2) D new nks" and "hashed hv (elems m) (set ch)"
    and "num_buckets T * 2 \<noteq> 0" and "ideal_chain_maxlen T \<noteq> 0" and "finite D" and "card D + length ch < 2 ^ 32"
  shows "\<exists>E' new' nks' k. expand_chain q m T new = Some (m\<lparr>elems := E'\<rparr>, T\<lparr>nonideal_items := k\<rparr>, new') \<and>
    buckets_ok hv E' (num_buckets T * 2) (D \<union> set ch) new' nks' \<and> same_on UNIV core (elems m) E' \<and>
    same_on (- (D \<union> set ch)) hh_next (elems m) E'"
  using assms
proof (induction ch arbitrary: q m T D new nks)
  case Nil
  have "expand_chain q m T new = Some (m\<lparr>elems := elems m\<rparr>, T\<lparr>nonideal_items := nonideal_items T\<rparr>, new)"
    using Nil by (simp add: expand_chain.simps)
  then show ?case
    using Nil by (metis Un_empty_right list.set(1) same_on_refl)
next
  case (Cons x xs)
  obtain h where h: "q = Some x" "elems m x = Some h" "path (elems m) (hh_next h) xs" "hashv h = hv x"
    using Cons.prems by (auto simp: hashed_def)
  have x: "x \<notin> D" "x \<notin> set xs" and D: "card D + 1 < 2 ^ 32"
    using Cons.prems by auto
  obtain E1 new1 nks1 k1 where
    1: "expand_one m T new x = Some (m\<lparr>elems := E1\<rparr>, T\<lparr>nonideal_items := k1\<rparr>, new1, hh_next h)"
      "buckets_ok hv E1 (num_buckets T * 2) (insert x D) new1 nks1" "same_on UNIV core (elems m) E1"
      "same_on (- insert x D) hh_next (elems m) E1"
    using expand_one_ok [OF Cons.prems(4) x(1) h(2,4) Cons.prems(6,7,8) D] by blast
  have "path E1 (hh_next h) xs"
    by (rule path_same [OF same_on_subset [OF 1(4)] h(3)]) (use Cons.prems x in auto)
  moreover have "hashed hv E1 (set xs)"
    using hashed_same [OF 1(3)] Cons.prems(5) by (auto simp: hashed_def)
  ultimately obtain E' new' nks' k where
    2: "expand_chain (hh_next h) (m\<lparr>elems := E1\<rparr>) (T\<lparr>nonideal_items := k1\<rparr>) new1 =
          Some (m\<lparr>elems := E'\<rparr>, T\<lparr>nonideal_items := k\<rparr>, new')"
      "buckets_ok hv E' (num_buckets T * 2) (insert x D \<union> set xs) new' nks'" "same_on UNIV core E1 E'"
      "same_on (- (insert x D \<union> set xs)) hh_next E1 E'"
    using Cons.IH [of "m\<lparr>elems := E1\<rparr>" "hh_next h" "insert x D" "T\<lparr>nonideal_items := k1\<rparr>" new1 nks1] 1(2) Cons.prems x
    by auto
  have "expand_chain q m T new = Some (m\<lparr>elems := E'\<rparr>, T\<lparr>nonideal_items := k\<rparr>, new')"
    using 1(1) 2(1) by (subst expand_chain.simps) (simp add: h)
  moreover have "same_on UNIV core (elems m) E'"
    using same_on_trans [OF 1(3) 2(3)] .
  moreover have "same_on (- (D \<union> set (x # xs))) hh_next (elems m) E'"
    by (rule same_on_trans [OF same_on_subset [OF 1(4)] same_on_subset [OF 2(4)]]) auto
  ultimately show ?case
    using 2(2) by auto
qed

lemma expand_all_ok:
  assumes "list_all2 (\<lambda>b ch. path (elems m) (hh_head b) ch) bs chs" and "distinct (concat chs)" and "set (concat chs) \<inter> D = {}"
    and "buckets_ok hv (elems m) (num_buckets T * 2) D new nks" and "hashed hv (elems m) (set (concat chs))"
    and "num_buckets T * 2 \<noteq> 0" and "ideal_chain_maxlen T \<noteq> 0" and "finite D" and "card D + length (concat chs) < 2 ^ 32"
  shows "\<exists>E' new' nks' k. expand_all m T new bs = Some (m\<lparr>elems := E'\<rparr>, T\<lparr>nonideal_items := k\<rparr>, new') \<and>
    buckets_ok hv E' (num_buckets T * 2) (D \<union> set (concat chs)) new' nks' \<and> same_on UNIV core (elems m) E'"
  using assms
proof (induction bs arbitrary: chs m T D new nks)
  case Nil
  have "expand_all m T new [] = Some (m\<lparr>elems := elems m\<rparr>, T\<lparr>nonideal_items := nonideal_items T\<rparr>, new)"
    by simp
  then show ?case
    using Nil by (metis Un_empty_right concat.simps(1) list.rel_distinct(1) list.set(1) list_all2_Nil same_on_refl)
next
  case (Cons b bs)
  obtain ch css where chs: "chs = ch # css" "path (elems m) (hh_head b) ch"
      "list_all2 (\<lambda>b ch. path (elems m) (hh_head b) ch) bs css"
    using Cons.prems(1) by (auto simp: list_all2_Cons1)
  note prems = Cons.prems(2-) [unfolded chs(1)]
  obtain E1 new1 nks1 k1 where
    1: "expand_chain (hh_head b) m T new = Some (m\<lparr>elems := E1\<rparr>, T\<lparr>nonideal_items := k1\<rparr>, new1)"
      "buckets_ok hv E1 (num_buckets T * 2) (D \<union> set ch) new1 nks1" "same_on UNIV core (elems m) E1"
      "same_on (- (D \<union> set ch)) hh_next (elems m) E1"
    using expand_chain_ok [OF chs(2) _ _ prems(3) _ prems(5,6,7)] prems by (fastforce simp: hashed_def)
  have "path E1 (hh_head b') ch'" if "(b', ch') \<in> set (zip bs css)" "path (elems m) (hh_head b') ch'" for b' ch'
  proof (rule path_same [OF same_on_subset [OF 1(4)] that(2)])
    have "ch' \<in> set css"
      using that(1) by (rule set_zip_rightD)
    then show "set ch' \<subseteq> - (D \<union> set ch)"
      using prems(1,2) by auto
  qed
  then have paths: "list_all2 (\<lambda>b ch. path E1 (hh_head b) ch) bs css"
    using chs(3) by (auto simp: list_all2_iff)
  have "hashed hv E1 (set (concat css))"
    using hashed_same [OF 1(3)] prems(4) by (auto simp: hashed_def)
  moreover have "finite (D \<union> set ch)" "card (D \<union> set ch) + length (concat css) < 2 ^ 32"
    using prems(7,8) card_Un_le [of D "set ch"] card_length [of ch] by auto
  moreover have "distinct (concat css)" "set (concat css) \<inter> (D \<union> set ch) = {}"
    using prems(1,2) by auto
  ultimately obtain E' new' nks' k where
    2: "expand_all (m\<lparr>elems := E1\<rparr>) (T\<lparr>nonideal_items := k1\<rparr>) new1 bs =
          Some (m\<lparr>elems := E'\<rparr>, T\<lparr>nonideal_items := k\<rparr>, new')"
      "buckets_ok hv E' (num_buckets T * 2) (D \<union> set ch \<union> set (concat css)) new' nks'" "same_on UNIV core E1 E'"
    using Cons.IH [of "m\<lparr>elems := E1\<rparr>" css "D \<union> set ch" "T\<lparr>nonideal_items := k1\<rparr>" new1 nks1] paths 1(2) prems(5,6)
    by auto
  have "expand_all m T new (b # bs) = Some (m\<lparr>elems := E'\<rparr>, T\<lparr>nonideal_items := k\<rparr>, new')"
    using 2(1) by (simp add: 1(1))
  then show ?case
    using 2(2) same_on_trans [OF 1(3) 2(3)] by (auto simp: chs(1) Un_assoc)
qed

end
