(* ===== verification/Uthash_Table.thy ===== *)
theory Uthash_Table
  imports Uthash_Inv
begin

text \<open>The invariant of a whole table, and what every operation makes of it.\<close>

section \<open>The doubling as a whole\<close>

text \<open>The number of buckets is a power of two, of which \<open>log2_num_buckets\<close> is the exponent.\<close>

definition geometry :: "UT_hash_table \<Rightarrow> bool" where
  "geometry T \<longleftrightarrow> num_buckets T = 2 ^ unat (log2_num_buckets T) \<and> unat (log2_num_buckets T) \<le> 30"

text \<open>No block of 32 GiB can be had.\<close>

definition bounded_heap :: "uh_mem \<Rightarrow> bool" where
  "bounded_heap m \<longleftrightarrow> (\<forall>i sz. 2 ^ 35 \<le> sz \<longrightarrow> \<not> grant m i sz)"

lemma unat_power2: "k \<le> 31 \<Longrightarrow> unat ((2 :: u32) ^ k) = 2 ^ k"
proof -
  assume "k \<le> 31"
  then have "(2 :: nat) ^ k < 2 ^ 32"
    by (intro power_strict_increasing) auto
  then have "unat (of_nat (2 ^ k) :: u32) = 2 ^ k"
    by (rule unat_keylen)
  then show ?thesis
    by simp
qed

lemma drop_bit_plus1: "0 < k \<Longrightarrow> drop_bit k n + 1 \<noteq> (0 :: u32)"
proof
  assume k: "0 < k" and "drop_bit k n + 1 = 0"
  then have "drop_bit k n = - 1"
    by (metis add_eq_0_iff2)
  then have "bit (drop_bit k n) 31"
    by simp
  then show False
    using k bit_imp_le_length [of n "k + 31"] by (simp add: bit_drop_bit_eq)
qed

text \<open>The ideal length of a chain, the number of items over the new number of buckets rounded up, is not 0; the source divides by it.\<close>

lemma ideal_chain_positive:
  assumes n: "n \<noteq> (0 :: u32)" and k: "k \<le> 30"
  shows "drop_bit (Suc k) n + (if n AND (2 ^ k * 2 - 1) \<noteq> 0 then 1 else 0) \<noteq> 0"
proof (cases "n AND (2 ^ k * 2 - 1) = 0")
  case True
  have "take_bit (Suc k) n = 0"
    using True by (simp add: take_bit_eq_mask mask_eq_decr_exp mult.commute)
  then show ?thesis
    using n bits_ident [of "Suc k" n] True by auto
next
  case False
  then show ?thesis
    using drop_bit_plus1 [of "Suc k" n] by simp
qed

lemma buckets_concat:
  assumes "buckets_ok hv E n S bs bks"
  shows "k \<le> unat n \<Longrightarrow> distinct (concat (take k bks)) \<and> set (concat (take k bks)) = {x \<in> S. unat (HASH_TO_BKT (hv x) n) < k}"
proof (induction k)
  case (Suc k)
  have "distinct (bks ! k)" "set (bks ! k) = {x \<in> S. unat (HASH_TO_BKT (hv x) n) = k}" "k < length bks"
    using assms Suc.prems by (auto simp: buckets_ok_def bucket_ok_def)
  then show ?case
    using Suc by (auto simp: take_Suc_conv_app_nth)
qed simp

lemma zero_buckets_ok: "buckets_ok hv E n {} (replicate (unat n) zero_bucket) (replicate (unat n) [])"
  by (simp add: buckets_ok_def bucket_ok_def zero_bucket_def)

text \<open>The size of the block that a doubling asks for.\<close>

definition refused_size :: "UT_hash_table \<Rightarrow> nat" where
  "refused_size T = 2 ^ Suc (unat (log2_num_buckets T)) * sizeof_bucket"

lemma HASH_EXPAND_BUCKETS_ok:
  assumes T: "tables m t = Some T" and g: "geometry T" and ok: "buckets_ok hv (elems m) (num_buckets T) S (buckets T) bks"
    and h: "hashed hv (elems m) S" and S: "finite S" "card S < 2 ^ 32" and items: "num_items T \<noteq> 0" and lim: "bounded_heap m"
  shows "(\<exists>i. HASH_EXPAND_BUCKETS m t = Some (Exited (refused_size T)) \<and> \<not> grant m i (refused_size T)) \<or>
    (\<exists>E' T' bks'. HASH_EXPAND_BUCKETS m t = Some (Going (m\<lparr>elems := E', tables := (tables m)(t \<mapsto> T'), asked := Suc (asked m)\<rparr>)) \<and>
       geometry T' \<and> buckets_ok hv E' (num_buckets T') S (buckets T') bks' \<and> same_on UNIV core (elems m) E' \<and>
       num_items T' = num_items T \<and> tail T' = tail T \<and> unat (log2_num_buckets T') = Suc (unat (log2_num_buckets T)))"
proof -
  let ?lg = "unat (log2_num_buckets T)" and ?sz = "unat (2 * num_buckets T) * sizeof_bucket"
  have nb: "num_buckets T = 2 ^ ?lg" and lg: "?lg \<le> 30"
    using g by (auto simp: geometry_def)
  have nb2: "num_buckets T * 2 = 2 ^ Suc ?lg"
    by (subst nb) simp
  have un: "unat (num_buckets T * 2) = 2 ^ Suc ?lg" "unat (num_buckets T) = 2 ^ ?lg"
    unfolding nb2 by (rule unat_power2, use lg in simp) (subst nb, rule unat_power2, use lg in simp)
  have nb0: "num_buckets T \<noteq> 0" "num_buckets T * 2 \<noteq> 0"
    using un by auto
  have lgw: "unat (log2_num_buckets T + 1) = Suc ?lg"
    using lg by (subst unat_add_lem [THEN iffD1]) auto
  show ?thesis
  proof (cases "grant m (asked m) ?sz")
    case False
    then show ?thesis
      using un(1) by (auto simp: HASH_EXPAND_BUCKETS_def T uthash_malloc_def and_then_def refused_size_def mult.commute)
  next
    case True
    then have lg': "Suc ?lg \<le> 30"
      using lim un(1) lg by (cases "?lg = 30") (auto simp: bounded_heap_def mult.commute)
    let ?T = "T\<lparr>ideal_chain_maxlen := drop_bit (unat (log2_num_buckets T + 1)) (num_items T) +
                   (if num_items T AND (num_buckets T * 2 - 1) \<noteq> 0 then 1 else 0), nonideal_items := 0\<rparr>"
    have ideal: "ideal_chain_maxlen ?T \<noteq> 0"
      using ideal_chain_positive [OF items lg] unfolding lgw by (simp add: nb [symmetric])
    have all: "take (unat (num_buckets T)) (buckets T) = buckets T" "take (unat (num_buckets T)) bks = bks"
      and len: "length (buckets T) = unat (num_buckets T)"
      using ok by (auto simp: buckets_ok_def)
    have cc: "distinct (concat bks)" "set (concat bks) = S"
      using buckets_concat [OF ok order_refl] HASH_TO_BKT_less [OF nb0(1)] unfolding all by auto
    have paths: "list_all2 (\<lambda>b ch. path (elems m) (hh_head b) ch) (buckets T) bks"
      using ok seg_path by (auto simp: list_all2_conv_all_nth buckets_ok_def bucket_ok_def)
    obtain E' new' nks' k where
      e: "expand_all (m\<lparr>asked := Suc (asked m)\<rparr>) ?T (replicate (unat (num_buckets T * 2)) zero_bucket) (buckets T) =
            Some (m\<lparr>asked := Suc (asked m), elems := E'\<rparr>, ?T\<lparr>nonideal_items := k\<rparr>, new')"
        "buckets_ok hv E' (num_buckets T * 2) S new' nks'" "same_on UNIV core (elems m) E'"
      using expand_all_ok [of "m\<lparr>asked := Suc (asked m)\<rparr>" "buckets T" bks "{}" hv ?T
          "replicate (unat (num_buckets T * 2)) zero_bucket" "replicate (unat (num_buckets T * 2)) []"]
        paths cc h S ideal zero_buckets_ok [of hv "elems m" "num_buckets T * 2"] nb0 distinct_card [OF cc(1)]
      by auto
    have go: "HASH_EXPAND_BUCKETS m t = Some (Going (m\<lparr>elems := E', tables := (tables m)(t \<mapsto> T'), asked := Suc (asked m)\<rparr>)) \<and>
        num_buckets T' = num_buckets T * 2 \<and> log2_num_buckets T' = log2_num_buckets T + 1 \<and> buckets T' = new' \<and>
        num_items T' = num_items T \<and> tail T' = tail T"
      if "T' = (let T = ?T\<lparr>nonideal_items := k, num_buckets := num_buckets T * 2, log2_num_buckets := log2_num_buckets T + 1, buckets := new'\<rparr>;
        T = T\<lparr>ineff_expands := (if nonideal_items T > drop_bit 1 (num_items T) then ineff_expands T + 1 else 0)\<rparr> in
        (if ineff_expands T > 1 then T\<lparr>noexpand := 1\<rparr> else T))" for T'
      unfolding that HASH_EXPAND_BUCKETS_def using True e(1)
      by (simp add: T uthash_malloc_def and_then_def len rdn_Some Let_def mult.commute)
    then obtain T' where
      T': "HASH_EXPAND_BUCKETS m t = Some (Going (m\<lparr>elems := E', tables := (tables m)(t \<mapsto> T'), asked := Suc (asked m)\<rparr>))"
        "num_buckets T' = num_buckets T * 2" "log2_num_buckets T' = log2_num_buckets T + 1" "buckets T' = new'"
        "num_items T' = num_items T" "tail T' = tail T"
      by blast
    moreover have "unat (log2_num_buckets T') = Suc ?lg"
      by (simp add: T' lgw)
    moreover have "geometry T'"
      using lg' by (simp add: geometry_def T' lgw nb2)
    moreover have "buckets_ok hv E' (num_buckets T') S (buckets T') nks'"
      using e(2) by (simp add: T')
    ultimately show ?thesis
      using e(3) by blast
  qed
qed

section \<open>The invariant\<close>

definition key_of :: "uh_mem \<Rightarrow> nat \<Rightarrow> bytes" where
  "key_of m x = (case elems m x of None \<Rightarrow> [] | Some h \<Rightarrow> take (unat (keylen h)) (the (key_mem m (key h))))"

definition elem_ok :: "(bytes \<Rightarrow> u32) \<Rightarrow> uh_mem \<Rightarrow> nat \<Rightarrow> nat \<Rightarrow> bool" where
  "elem_ok hash m t x \<longleftrightarrow> (\<exists>h k. elems m x = Some h \<and> tbl h = Some t \<and> key_mem m (key h) = Some k \<and>
     unat (keylen h) \<le> length k \<and> hashv h = hash (key_of m x))"

text \<open>The table at \<open>t\<close> holds the elements \<open>xs\<close> in this order, and those of \<open>S\<close> are in their buckets, with the chains \<open>bks\<close>.\<close>

definition table_inv :: "(bytes \<Rightarrow> u32) \<Rightarrow> uh_mem \<Rightarrow> nat \<Rightarrow> nat list \<Rightarrow> nat set \<Rightarrow> nat list list \<Rightarrow> bool" where
  "table_inv hash m t xs S bks \<longleftrightarrow> xs \<noteq> [] \<and> distinct xs \<and> length xs < 2 ^ 32 \<and>
     seg nxt prev (elems m) None (Some (hd xs)) xs None \<and> (\<forall>x\<in>set xs. elem_ok hash m t x) \<and>
     (\<exists>T. tables m t = Some T \<and> num_items T = of_nat (length xs) \<and> tail T = Some (last xs) \<and> geometry T \<and>
        buckets_ok (\<lambda>x. hash (key_of m x)) (elems m) (num_buckets T) S (buckets T) bks)"

text \<open>A variable \<open>head\<close> refers to a table with the elements \<open>xs\<close>.\<close>

definition holds :: "(bytes \<Rightarrow> u32) \<Rightarrow> uh_mem \<Rightarrow> nat option \<Rightarrow> nat list \<Rightarrow> bool" where
  "holds hash m head xs \<longleftrightarrow> bounded_heap m \<and>
     (case head of None \<Rightarrow> xs = [] | Some p \<Rightarrow> xs \<noteq> [] \<and> p = hd xs \<and> (\<exists>t bks. table_inv hash m t xs (set xs) bks))"

lemma geometry_nonzero: "geometry T \<Longrightarrow> num_buckets T \<noteq> 0"
  using unat_power2 [of "unat (log2_num_buckets T)"] by (auto simp: geometry_def)

lemma key_of_same: "same_on {x} core (elems m) (elems m') \<Longrightarrow> key_mem m' = key_mem m \<Longrightarrow> key_of m' x = key_of m x"
  by (cases "elems m x"; cases "elems m' x") (auto simp: key_of_def same_on_def dest: coreD)

lemma elem_ok_same:
  assumes "same_on {x} core (elems m) (elems m')" and "key_mem m' = key_mem m" and "elem_ok hash m t x"
  shows "elem_ok hash m' t x"
proof -
  obtain h where h: "elems m x = Some h" "elem_ok hash m t x"
    using assms(3) by (auto simp: elem_ok_def)
  obtain h' where "elems m' x = Some h'" "core h' = core h"
    using same_onD [OF assms(1) _ h(1)] by auto
  then show ?thesis
    using h key_of_same [OF assms(1,2)] assms(2) coreD [of h' h] by (simp add: elem_ok_def)
qed

lemma same_core_order: "same_on S core E E' \<Longrightarrow> same_on S (\<lambda>h. (nxt h, prev h)) E E'"
  unfolding same_on_def
proof
  fix x assume "\<forall>x\<in>S. map_option core (E' x) = map_option core (E x)" and "x \<in> S"
  then have "map_option core (E' x) = map_option core (E x)"
    by blast
  then show "map_option (\<lambda>h. (nxt h, prev h)) (E' x) = map_option (\<lambda>h. (nxt h, prev h)) (E x)"
    by (cases "E x"; cases "E' x") (auto dest: coreD)
qed

text \<open>Only the elements and the table count, and of the handles what the buckets do not change.\<close>

lemma table_inv_core:
  assumes inv: "table_inv hash m t xs S bks" and same: "same_on UNIV core (elems m) (elems m')" "key_mem m' = key_mem m"
    and T: "tables m t = Some T" "tables m' t = Some T'" "num_items T' = num_items T" "tail T' = tail T" "geometry T'"
    and b: "buckets_ok (\<lambda>x. hash (key_of m x)) (elems m') (num_buckets T') S' (buckets T') bks'"
  shows "table_inv hash m' t xs S' bks'"
proof -
  have s: "same_on Y core (elems m) (elems m')" for Y
    by (rule same_on_subset [OF same(1)]) simp
  have "seg nxt prev (elems m') None (Some (hd xs)) xs None"
    using inv seg_same [OF same_core_order [OF s]] by (auto simp: table_inv_def)
  moreover have "elem_ok hash m' t x" if "x \<in> set xs" for x
    using inv that elem_ok_same [OF s same(2)] by (auto simp: table_inv_def)
  moreover have "(\<lambda>x. hash (key_of m' x)) = (\<lambda>x. hash (key_of m x))"
    using key_of_same [OF s same(2)] by simp
  ultimately show ?thesis
    using inv T b by (auto simp: table_inv_def)
qed

lemma table_inv_hashed:
  assumes "table_inv hash m t xs S bks" and "same_on UNIV core (elems m) E"
  shows "hashed (\<lambda>x. hash (key_of m x)) E (set xs)"
proof (rule hashed_same [OF assms(2)])
  show "hashed (\<lambda>x. hash (key_of m x)) (elems m) (set xs)"
    using assms(1) by (force simp: table_inv_def hashed_def elem_ok_def)
qed

section \<open>Adding to a bucket\<close>

lemma HASH_ADD_TO_BKT_ok:
  assumes inv: "table_inv hash m t (xs @ [e]) (set xs) bks" and lim: "bounded_heap m" and T: "tables m t = Some T"
    and bkt: "bkt = unat (HASH_TO_BKT (hash (key_of m e)) (num_buckets T))"
  shows "(\<exists>i. HASH_ADD_TO_BKT m t bkt e = Some (Exited (refused_size T)) \<and> \<not> grant m i (refused_size T)) \<or>
    (\<exists>m' bks'. HASH_ADD_TO_BKT m t bkt e = Some (Going m') \<and> table_inv hash m' t (xs @ [e]) (set (xs @ [e])) bks' \<and>
       same_on UNIV core (elems m) (elems m') \<and> key_mem m' = key_mem m \<and> grant m' = grant m \<and>
       (\<exists>T'. tables m' t = Some T' \<and> unat (log2_num_buckets T') \<le> Suc (unat (log2_num_buckets T))))"
proof -
  let ?hv = "\<lambda>x. hash (key_of m x)" and ?b = "buckets T ! bkt"
  have inv': "num_items T = of_nat (length (xs @ [e]))" "length (xs @ [e]) < 2 ^ 32" "geometry T" "distinct (xs @ [e])"
    and ok: "buckets_ok ?hv (elems m) (num_buckets T) (set xs) (buckets T) bks"
    using inv T by (auto simp: table_inv_def)
  obtain h where h: "elems m e = Some h" "tbl h = Some t"
    using inv by (auto simp: table_inv_def elem_ok_def)
  have il: "bkt < unat (num_buckets T)" "bkt < length (buckets T)"
    using HASH_TO_BKT_less [OF geometry_nonzero [OF inv'(3)]] ok by (auto simp: bkt buckets_ok_def)
  have nz: "num_items T \<noteq> 0"
    using inv'(1,2) unat_keylen [of "length (xs @ [e])"] by (metis add_is_0 length_append list.size(3) length_Cons nat.distinct(1) unat_0)
  define E where "E = push e (hh_head ?b) (elems m)"
  define b where "b = ?b\<lparr>count := count ?b + 1, hh_head := Some e\<rparr>"
  have link: "link_front e (hh_head ?b) m = Some (m\<lparr>elems := E\<rparr>)"
    unfolding E_def by (rule link_front_eq) (use h bucket_head_in [OF ok il(1)] in auto)
  have same: "same_on UNIV core (elems m) E"
    by (simp add: E_def push_core)
  have card: "card (set xs) + 1 < 2 ^ 32"
    using inv'(2,4) by (simp add: distinct_card)
  have bs: "buckets_ok ?hv E (num_buckets T) (set (xs @ [e])) ((buckets T)[bkt := b]) (bks[bkt := e # bks ! bkt])"
    using bucket_push [OF ok, of e bkt b] inv'(4) h(1) geometry_nonzero [OF inv'(3)] card
    by (auto simp: E_def b_def bkt)
  define T1 where "T1 = T\<lparr>buckets := (buckets T)[bkt := b]\<rparr>"
  define m1 where "m1 = m\<lparr>elems := E, tables := (tables m)(t \<mapsto> T1)\<rparr>"
  obtain h' where h': "E e = Some h'" "core h' = core h"
    using same_onD [OF same UNIV_I h(1)] by auto
  have tbl: "tbl_of m1 e = Some (t, T1)"
    using h' h(2) coreD [of h' h] by (simp add: tbl_of_def m1_def)
  have run: "HASH_ADD_TO_BKT m t bkt e =
      (if count b \<ge> (expand_mult b + 1) * HASH_BKT_CAPACITY_THRESH \<and> noexpand T1 \<noteq> 1 then HASH_EXPAND_BUCKETS m1 t else Some (Going m1))"
    using il tbl unfolding HASH_ADD_TO_BKT_def by (simp add: T rd_Some Let_def link wr_Some b_def m1_def T1_def)
  have inv1: "table_inv hash m1 t (xs @ [e]) (set (xs @ [e])) (bks[bkt := e # bks ! bkt])"
    by (rule table_inv_core [OF inv _ _ T, where T' = T1]) (use same bs inv'(3) in \<open>simp_all add: m1_def T1_def geometry_def\<close>)
  show ?thesis
  proof (cases "count b \<ge> (expand_mult b + 1) * HASH_BKT_CAPACITY_THRESH \<and> noexpand T1 \<noteq> 1")
    case False
    then show ?thesis
      using run inv1 same by (auto simp: m1_def T1_def)
  next
    case True
    have T1: "tables m1 t = Some T1" "geometry T1" "num_items T1 \<noteq> 0" "bounded_heap m1" "grant m1 = grant m" "elems m1 = E"
      using inv'(3) nz lim by (simp_all add: m1_def T1_def geometry_def bounded_heap_def)
    have b1: "buckets_ok ?hv (elems m1) (num_buckets T1) (set (xs @ [e])) (buckets T1) (bks[bkt := e # bks ! bkt])"
      using bs by (simp add: T1_def m1_def)
    have "hashed ?hv (elems m1) (set (xs @ [e]))"
      using table_inv_hashed [OF inv same] by (simp add: m1_def)
    moreover have "card (set (xs @ [e])) < 2 ^ 32"
      using inv'(2) card_length [of "xs @ [e]"] by linarith
    ultimately consider (exited) i where "HASH_EXPAND_BUCKETS m1 t = Some (Exited (refused_size T1))" "\<not> grant m i (refused_size T1)"
      | (going) E' T' bks' where
        "HASH_EXPAND_BUCKETS m1 t = Some (Going (m1\<lparr>elems := E', tables := (tables m1)(t \<mapsto> T'), asked := Suc (asked m1)\<rparr>))"
        "geometry T'" "buckets_ok ?hv E' (num_buckets T') (set (xs @ [e])) (buckets T') bks'" "same_on UNIV core E E'"
        "num_items T' = num_items T1" "tail T' = tail T1" "unat (log2_num_buckets T') = Suc (unat (log2_num_buckets T1))"
      using HASH_EXPAND_BUCKETS_ok [OF T1(1,2) b1 _ _ _ T1(3,4)] unfolding T1(5,6) by blast
    then show ?thesis
    proof cases
      case exited
      moreover have "refused_size T1 = refused_size T"
        by (simp add: refused_size_def T1_def)
      ultimately show ?thesis
        using run True by auto
    next
      case going
      let ?m = "m1\<lparr>elems := E', tables := (tables m1)(t \<mapsto> T'), asked := Suc (asked m1)\<rparr>"
      have "same_on UNIV core (elems m) E'"
        by (rule same_on_trans [OF same going(4)])
      moreover from this have "table_inv hash ?m t (xs @ [e]) (set (xs @ [e])) bks'"
        by (intro table_inv_core [OF inv _ _ T, where T' = T']) (use going in \<open>simp_all add: m1_def T1_def\<close>)
      ultimately show ?thesis
        using run True going(1,7) by (auto simp: m1_def T1_def)
    qed
  qed
qed

section \<open>Adding an element\<close>

text \<open>The binary logarithm of the number of buckets; the first table comes with 5.\<close>

definition levels :: "uh_mem \<Rightarrow> nat option \<Rightarrow> nat" where
  "levels m head = (case head of None \<Rightarrow> 5 | Some p \<Rightarrow> (case tbl_of m p of None \<Rightarrow> 5 | Some (t, T) \<Rightarrow> unat (log2_num_buckets T)))"

lemma tbl_of_elem: "elem_ok hash m t x \<Longrightarrow> tables m t = Some T \<Longrightarrow> tbl_of m x = Some (t, T)"
  by (auto simp: elem_ok_def tbl_of_def)

lemma levels_Some: "table_inv hash m t xs S bks \<Longrightarrow> tables m t = Some T \<Longrightarrow> levels m (Some (hd xs)) = unat (log2_num_buckets T)"
proof -
  assume inv: "table_inv hash m t xs S bks" and T: "tables m t = Some T"
  then have "elem_ok hash m t (hd xs)"
    by (simp add: table_inv_def)
  then show ?thesis
    using tbl_of_elem [OF _ T] by (simp add: levels_def)
qed

lemma key_of_other: "map_option (\<lambda>h. (key h, keylen h)) (elems m' x) = map_option (\<lambda>h. (key h, keylen h)) (elems m x) \<Longrightarrow>
    key_mem m' = key_mem m \<Longrightarrow> key_of m' x = key_of m x"
  by (cases "elems m x"; cases "elems m' x") (auto simp: key_of_def)

text \<open>The state in which \<open>HASH_ADD_KEYPTR\<close> puts the element \<open>e\<close> into its bucket.\<close>

definition key_set :: "nat \<Rightarrow> nat \<Rightarrow> UT_hash_handle \<Rightarrow> UT_hash_handle" where
  "key_set kp len h = h\<lparr>nxt := None, key := kp, keylen := of_nat len\<rparr>"

definition ordered :: "nat option \<Rightarrow> nat \<Rightarrow> u32 \<Rightarrow> UT_hash_handle \<Rightarrow> UT_hash_handle" where
  "ordered p t hv h = h\<lparr>prev := p, tbl := Some t, hashv := hv\<rparr>"

lemma appended_inv:
  assumes inv: "table_inv hash m t xs (set xs) bks" and T: "tables m t = Some T" and e: "e \<notin> set xs" "elems m e = Some h"
    and k: "key_mem m kp = Some k" "len \<le> length k" "len < 2 ^ 32" and n: "length xs + 1 < 2 ^ 32"
    and E: "E = modify e (ordered (Some (last xs)) t (hash (take len k)))
        (modify (last xs) (\<lambda>h. h\<lparr>nxt := Some e\<rparr>) (modify e (key_set kp len) (elems m)))"
    and m': "m' = m\<lparr>elems := E, tables := (tables m)(t \<mapsto> T\<lparr>tail := Some e, num_items := num_items T + 1\<rparr>)\<rparr>"
  shows "table_inv hash m' t (xs @ [e]) (set xs) bks" and "key_of m' e = take len k" and "\<And>x. x \<noteq> e \<Longrightarrow> key_of m' x = key_of m x"
proof -
  obtain us l where xs: "xs = us @ [l]"
    using inv by (cases xs rule: rev_cases) (auto simp: table_inv_def)
  have el: "e \<noteq> l" "l \<notin> set us"
    using e inv by (auto simp: xs table_inv_def)
  have Ee: "E e = Some (ordered (Some l) t (hash (take len k)) (key_set kp len h))"
    using e el by (simp add: E xs)
  show key_e: "key_of m' e = take len k"
    using k by (simp add: key_of_def m' Ee ordered_def key_set_def)
  have other: "E x = modify l (\<lambda>h. h\<lparr>nxt := Some e\<rparr>) (elems m) x" if "x \<noteq> e" for x
    using that by (simp add: E xs modify_apply)
  have in_xs: "E x = modify l (\<lambda>h. h\<lparr>nxt := Some e\<rparr>) (elems m) x" if "x \<in> set xs" for x
    using other [of x] that e(1) by blast
  show key_x: "key_of m' x = key_of m x" if "x \<noteq> e" for x
    by (rule key_of_other) (simp_all add: m' other [OF that] modify_apply option.map_comp comp_def)
  have "seg nxt prev (elems m) None (Some (hd xs)) (us @ [l]) None"
    using inv by (auto simp: table_inv_def xs)
  then have "seg nxt prev (modify l (\<lambda>h. h\<lparr>nxt := Some e\<rparr>) (elems m)) None (Some (hd xs)) (us @ [l]) (Some e)"
    by (rule seg_end) (use el in simp_all)
  then have "seg nxt prev E None (Some (hd xs)) xs (Some e)"
    unfolding xs by (rule seg_same [rotated]) (use in_xs in \<open>simp add: same_on_def xs\<close>)
  then have "seg nxt prev E None (Some (hd xs)) (xs @ [e]) None"
    using Ee by (auto simp: seg_append last_or_def xs ordered_def key_set_def)
  moreover have "hd (xs @ [e]) = hd xs"
    by (simp add: xs hd_append)
  moreover have "elem_ok hash m' t e"
    using k key_e by (simp add: elem_ok_def m' Ee ordered_def key_set_def)
  moreover have "elem_ok hash m' t x" if x: "x \<in> set xs" for x
  proof -
    obtain g kk where g: "elems m x = Some g" "tbl g = Some t" "key_mem m (key g) = Some kk" "unat (keylen g) \<le> length kk"
        "hashv g = hash (key_of m x)"
      using inv x by (auto simp: table_inv_def elem_ok_def)
    have "x \<noteq> e"
      using x e by auto
    then show ?thesis
      using g key_x [of x] by (auto simp: elem_ok_def m' other modify_apply)
  qed
  moreover have "buckets_ok (\<lambda>x. hash (key_of m' x)) E (num_buckets T) (set xs) (buckets T) bks"
  proof -
    have "buckets_ok (\<lambda>x. hash (key_of m x)) (elems m) (num_buckets T) (set xs) (buckets T) bks"
      using inv T by (auto simp: table_inv_def)
    then have "buckets_ok (\<lambda>x. hash (key_of m x)) E (num_buckets T) (set xs) (buckets T) bks"
      by (rule buckets_ok_same [rotated])
        (simp add: same_on_def in_xs modify_apply option.map_comp comp_def)
    moreover have "hash (key_of m' x) = hash (key_of m x)" if "x \<in> set xs" for x
    proof -
      have "x \<noteq> e"
        using that e(1) by blast
      then show ?thesis
        using key_x by simp
    qed
    ultimately show ?thesis
      using buckets_ok_cong [of "set xs" "\<lambda>x. hash (key_of m' x)" "\<lambda>x. hash (key_of m x)"] by blast
  qed
  ultimately show "table_inv hash m' t (xs @ [e]) (set xs) bks"
    using inv T n e by (auto simp: table_inv_def m' geometry_def)
qed

lemma first_inv:
  assumes e: "elems m e = Some h" and k: "key_mem m kp = Some k" "len \<le> length k" "len < 2 ^ 32"
    and E: "E = modify e (ordered None t (hash (take len k)) \<circ> key_set kp len) (elems m)"
    and T: "T = \<lparr>buckets = replicate HASH_INITIAL_NUM_BUCKETS zero_bucket, num_buckets = of_nat HASH_INITIAL_NUM_BUCKETS,
      log2_num_buckets = of_nat HASH_INITIAL_NUM_BUCKETS_LOG2, num_items = 0 + 1, tail = Some e,
      ideal_chain_maxlen = 0, nonideal_items = 0, ineff_expands = 0, noexpand = 0, signature = HASH_SIGNATURE\<rparr>"
    and m': "elems m' = E" "tables m' t = Some T" "key_mem m' = key_mem m"
  shows "table_inv hash m' t [e] {} (replicate HASH_INITIAL_NUM_BUCKETS [])" and "key_of m' e = take len k"
proof -
  have Ee: "E e = Some (ordered None t (hash (take len k)) (key_set kp len h))"
    using e by (simp add: E)
  show key_e: "key_of m' e = take len k"
    using k by (simp add: key_of_def m' Ee ordered_def key_set_def)
  show "table_inv hash m' t [e] {} (replicate HASH_INITIAL_NUM_BUCKETS [])"
    using zero_buckets_ok [of "\<lambda>x. hash (key_of m' x)" E 32] k key_e
    by (simp add: table_inv_def m' Ee elem_ok_def ordered_def key_set_def T geometry_def)
qed

lemma same_on_dom: "same_on UNIV f E E' \<Longrightarrow> dom E' = dom E"
proof (rule set_eqI)
  fix x assume "same_on UNIV f E E'"
  then have "map_option f (E' x) = map_option f (E x)"
    by (simp add: same_on_def)
  then show "x \<in> dom E' \<longleftrightarrow> x \<in> dom E"
    by (cases "E x"; cases "E' x") auto
qed

text \<open>What an operation that adds \<open>e\<close> to the elements \<open>xs\<close> may do: leave the program because a request for memory is refused, or
  append \<open>e\<close>, whose key is then \<open>K\<close>; \<open>lv\<close> was the level of the table.\<close>

definition added :: "(bytes \<Rightarrow> u32) \<Rightarrow> uh_mem \<Rightarrow> nat \<Rightarrow> nat list \<Rightarrow> nat \<Rightarrow> bytes \<Rightarrow> (uh_mem \<times> nat option) run option \<Rightarrow> bool" where
  "added hash m lv xs e K r \<longleftrightarrow> (\<exists>sz i. r = Some (Exited sz) \<and> \<not> grant m i sz \<and> sz \<le> 2 ^ (lv + 5)) \<or>
     (\<exists>m' head'. r = Some (Going (m', head')) \<and> holds hash m' head' (xs @ [e]) \<and> key_of m' e = K \<and>
        (\<forall>x. x \<noteq> e \<longrightarrow> key_of m' x = key_of m x) \<and> key_mem m' = key_mem m \<and> grant m' = grant m \<and>
        dom (elems m') = dom (elems m) \<and> levels m' head' \<le> Suc lv)"

lemma added_finish:
  assumes inv: "table_inv hash m1 t (xs @ [e]) (set xs) bks" and T: "tables m1 t = Some T" and lim: "bounded_heap m"
    and m1: "key_mem m1 = key_mem m" "grant m1 = grant m" "dom (elems m1) = dom (elems m)"
    and keys: "key_of m1 e = K" "\<And>x. x \<noteq> e \<Longrightarrow> key_of m1 x = key_of m x" and p: "p = hd (xs @ [e])"
    and lv: "unat (log2_num_buckets T) = lv"
  shows "added hash m lv xs e K (and_then (HASH_ADD_TO_BKT m1 t (unat (HASH_TO_BKT (hash K) (num_buckets T))) e) (\<lambda>m. Some (Going (m, Some p))))"
proof -
  have lim1: "bounded_heap m1"
    using lim by (simp add: bounded_heap_def m1)
  consider (exited) i where "HASH_ADD_TO_BKT m1 t (unat (HASH_TO_BKT (hash K) (num_buckets T))) e = Some (Exited (refused_size T))"
      "\<not> grant m1 i (refused_size T)"
    | (going) m' bks' T' where "HASH_ADD_TO_BKT m1 t (unat (HASH_TO_BKT (hash K) (num_buckets T))) e = Some (Going m')"
        "table_inv hash m' t (xs @ [e]) (set (xs @ [e])) bks'" "same_on UNIV core (elems m1) (elems m')"
        "key_mem m' = key_mem m1" "grant m' = grant m1" "tables m' t = Some T'" "unat (log2_num_buckets T') \<le> Suc lv"
    using HASH_ADD_TO_BKT_ok [OF inv lim1 T refl] unfolding keys(1) lv by blast
  then show ?thesis
  proof cases
    case exited
    moreover have "refused_size T = 2 ^ (lv + 5)"
      by (simp add: refused_size_def lv power_add)
    ultimately show ?thesis
      by (auto simp: added_def and_then_def m1)
  next
    case going
    have "key_of m' x = key_of m1 x" for x
      by (rule key_of_same [OF same_on_subset [OF going(3)] going(4)]) simp
    moreover have "holds hash m' (Some p) (xs @ [e])"
      using going(2) lim p by (auto simp: holds_def bounded_heap_def going(5) m1)
    moreover have "dom (elems m') = dom (elems m)"
      unfolding m1(3) [symmetric] by (rule same_on_dom [OF going(3)])
    moreover have "levels m' (Some p) \<le> Suc lv"
      using levels_Some [OF going(2,6)] going(7) by (simp add: p)
    ultimately show ?thesis
      using going keys by (auto simp: added_def and_then_def m1)
  qed
qed

context hash_function
begin

lemma mem_upd_commute: "m\<lparr>tables := a, elems := b\<rparr> = m\<lparr>elems := b, tables := a\<rparr>"
  by simp

lemma add_in_bucket_eq:
  assumes "tbl_of m p = Some (t, T)" and "elems m e = Some g" and "key_mem m kp = Some k" and "len \<le> length k" and "len < 2 ^ 32"
  shows "add_in_bucket fcn m p kp len e =
    and_then (HASH_ADD_TO_BKT
        (m\<lparr>elems := modify e (\<lambda>h. h\<lparr>tbl := Some t, hashv := hash (take len k)\<rparr>) (elems m),
          tables := (tables m)(t \<mapsto> T\<lparr>num_items := num_items T + 1\<rparr>)\<rparr>)
        t (unat (HASH_TO_BKT (hash (take len k)) (num_buckets T))) e)
      (\<lambda>m. Some (Going (m, Some p)))"
proof -
  have t: "tables m t = Some T"
    using assms(1) by (auto simp: tbl_of_def bind_eq_Some_conv)
  have "modify t (\<lambda>T. T\<lparr>num_items := num_items T + 1\<rparr>) (tables m) = (tables m)(t \<mapsto> T\<lparr>num_items := num_items T + 1\<rparr>)"
    by (simp add: modify_def t)
  moreover have "modify e (\<lambda>h. h\<lparr>hashv := hash (take len k)\<rparr>) (modify e (\<lambda>h. h\<lparr>tbl := Some t\<rparr>) (elems m)) =
      modify e (\<lambda>h. h\<lparr>tbl := Some t, hashv := hash (take len k)\<rparr>) (elems m)"
    by (simp add: modify_def assms(2))
  ultimately show ?thesis
    by (simp add: add_in_bucket_def assms(1-3) fcn [OF assms(4,5)] t upd_tbl_def upd_hh_def mem_upd_commute)
qed

theorem HASH_ADD_KEYPTR_ok:
  assumes xs: "holds hash m head xs" and e: "e \<notin> set xs" "elems m e \<noteq> None"
    and k: "key_mem m kp = Some k" "len \<le> length k" "len < 2 ^ 32" and n: "length xs + 1 < 2 ^ 32"
  shows "added hash m (levels m head) xs e (take len k) (HASH_ADD_KEYPTR fcn m head kp len e)"
proof -
  obtain h where h: "elems m e = Some h"
    using e(2) by blast
  have lim: "bounded_heap m"
    using xs by (simp add: holds_def)
  let ?mk = "m\<lparr>elems := modify e (key_set kp len) (elems m)\<rparr>"
  have run: "HASH_ADD_KEYPTR fcn m head kp len e = and_then (add_in_order ?mk head e) (\<lambda>(m, head). add_in_bucket fcn m head kp len e)"
    by (simp add: HASH_ADD_KEYPTR_def upd_hh_def h key_set_def [abs_def])
  show ?thesis
  proof (cases head)
    case None
    then have xs0: "xs = []"
      using xs by (simp add: holds_def)
    show ?thesis
    proof (cases "grant m (asked m) sizeof_table \<and> grant m (Suc (asked m)) (HASH_INITIAL_NUM_BUCKETS * sizeof_bucket)")
      case False
      then have "add_in_order ?mk head e = Some (Exited sizeof_table) \<and> \<not> grant m (asked m) sizeof_table \<or>
          add_in_order ?mk head e = Some (Exited (HASH_INITIAL_NUM_BUCKETS * sizeof_bucket)) \<and>
          \<not> grant m (Suc (asked m)) (HASH_INITIAL_NUM_BUCKETS * sizeof_bucket)"
        using h None by (auto simp: add_in_order_def HASH_MAKE_TABLE_def uthash_malloc_def and_then_def upd_hh_def)
      then show ?thesis
        unfolding run by (auto simp: added_def and_then_def levels_def None intro: exI)
    next
      case True
      let ?t = "asked m"
      let ?T = "\<lparr>buckets = replicate HASH_INITIAL_NUM_BUCKETS zero_bucket, num_buckets = of_nat HASH_INITIAL_NUM_BUCKETS,
        log2_num_buckets = of_nat HASH_INITIAL_NUM_BUCKETS_LOG2, num_items = 0, tail = Some e,
        ideal_chain_maxlen = 0, nonideal_items = 0, ineff_expands = 0, noexpand = 0, signature = HASH_SIGNATURE\<rparr>"
      let ?Eo = "modify e (\<lambda>h. h\<lparr>tbl := Some ?t\<rparr>) (modify e (\<lambda>h. h\<lparr>prev := None\<rparr>) (elems ?mk))"
      let ?Ef = "modify e (ordered None ?t (hash (take len k)) \<circ> key_set kp len) (elems m)"
      let ?mo = "m\<lparr>asked := Suc (Suc ?t), elems := ?Eo, tables := (tables m)(?t \<mapsto> ?T)\<rparr>"
      let ?mf = "m\<lparr>asked := Suc (Suc ?t), elems := ?Ef, tables := (tables m)(?t \<mapsto> ?T\<lparr>num_items := 0 + 1\<rparr>)\<rparr>"
      have 1: "add_in_order ?mk None e = Some (Going (?mo, e))"
        using h True by (simp add: add_in_order_def HASH_MAKE_TABLE_def uthash_malloc_def and_then_def upd_hh_def)
      have 2: "tbl_of ?mo e = Some (?t, ?T)" "elems ?mo e = Some ((key_set kp len h)\<lparr>prev := None, tbl := Some ?t\<rparr>)"
        using h by (simp_all add: tbl_of_def)
      have 3: "modify e (\<lambda>h. h\<lparr>tbl := Some ?t, hashv := hash (take len k)\<rparr>) ?Eo = ?Ef"
        by (rule ext) (simp add: modify_apply option.map_comp comp_def ordered_def)
      have "HASH_ADD_KEYPTR fcn m head kp len e =
          and_then (HASH_ADD_TO_BKT ?mf ?t (unat (HASH_TO_BKT (hash (take len k)) (num_buckets (?T\<lparr>num_items := 0 + 1\<rparr>)))) e) (\<lambda>m. Some (Going (m, Some e)))"
        unfolding run unfolding None 1 using add_in_bucket_eq [OF 2, of kp k len] k 3 by (simp add: and_then_def [of "Some (Going _)"])
      moreover have "added hash m (levels m head) xs e (take len k)
          (and_then (HASH_ADD_TO_BKT ?mf ?t (unat (HASH_TO_BKT (hash (take len k)) (num_buckets (?T\<lparr>num_items := 0 + 1\<rparr>)))) e) (\<lambda>m. Some (Going (m, Some e))))"
      proof (rule added_finish)
        note fin = first_inv [OF h k refl refl, where m' = ?mf and t = ?t and hash = hash]
        show "table_inv hash ?mf ?t (xs @ [e]) (set xs) (replicate HASH_INITIAL_NUM_BUCKETS [])"
          using fin(1) by (simp add: xs0)
        show "key_of ?mf e = take len k"
          using fin(2) by simp
        show "tables ?mf ?t = Some (?T\<lparr>num_items := 0 + 1\<rparr>)"
          by simp
        show "key_of ?mf x = key_of m x" if "x \<noteq> e" for x
          by (rule key_of_other) (use that in simp_all)
      qed (use lim xs0 in \<open>simp_all add: levels_def None\<close>)
      ultimately show ?thesis
        by simp
    qed
  next
    case (Some p)
    then obtain t bks where inv: "table_inv hash m t xs (set xs) bks" and p: "p = hd xs" "xs \<noteq> []"
      using xs by (auto simp: holds_def)
    obtain T where T: "tables m t = Some T" "tail T = Some (last xs)"
      using inv by (auto simp: table_inv_def)
    have "elem_ok hash m t p" "elem_ok hash m t (last xs)"
      using inv p by (auto simp: table_inv_def)
    then obtain hp hl where hp: "elems m p = Some hp" "tbl hp = Some t" and hl: "elems m (last xs) = Some hl"
      by (auto simp: elem_ok_def)
    have el: "e \<noteq> last xs" "p \<noteq> e"
      using e(1) p by auto
    let ?Eo = "modify e (\<lambda>h. h\<lparr>prev := Some (last xs)\<rparr>) (modify (last xs) (\<lambda>h. h\<lparr>nxt := Some e\<rparr>) (elems ?mk))"
    let ?E = "modify e (ordered (Some (last xs)) t (hash (take len k)))
        (modify (last xs) (\<lambda>h. h\<lparr>nxt := Some e\<rparr>) (modify e (key_set kp len) (elems m)))"
    let ?mo = "m\<lparr>elems := ?Eo, tables := (tables m)(t \<mapsto> T\<lparr>tail := Some e\<rparr>)\<rparr>"
    let ?mf = "m\<lparr>elems := ?E, tables := (tables m)(t \<mapsto> T\<lparr>tail := Some e, num_items := num_items T + 1\<rparr>)\<rparr>"
    have "tbl_of ?mk p = Some (t, T)"
      using hp T el by (simp add: tbl_of_def)
    moreover have "elems ?mk (last xs) \<noteq> None" "elems ?mk e \<noteq> None"
      using el hl h by simp_all
    ultimately have 1: "add_in_order ?mk (Some p) e = Some (Going (?mo, p))"
      using T h hl by (simp add: add_in_order_def upd_hh_def upd_tbl_def modify_apply [of _ _ _ e]) (simp add: modify_def)
    have 2: "tbl_of ?mo p = Some (t, T\<lparr>tail := Some e\<rparr>)" "elems ?mo e = Some ((key_set kp len h)\<lparr>prev := Some (last xs)\<rparr>)"
      using hp el h by (auto simp: tbl_of_def modify_apply)
    have 3: "modify e (\<lambda>h. h\<lparr>tbl := Some t, hashv := hash (take len k)\<rparr>) ?Eo = ?E"
      by (rule ext) (simp add: modify_apply option.map_comp comp_def ordered_def)
    have "HASH_ADD_KEYPTR fcn m head kp len e =
        and_then (HASH_ADD_TO_BKT ?mf t (unat (HASH_TO_BKT (hash (take len k)) (num_buckets (T\<lparr>tail := Some e, num_items := num_items T + 1\<rparr>)))) e) (\<lambda>m. Some (Going (m, Some p)))"
      unfolding run unfolding Some 1 using add_in_bucket_eq [OF 2, of kp k len] k 3 by (simp add: and_then_def [of "Some (Going _)"])
    moreover have "added hash m (levels m head) xs e (take len k)
        (and_then (HASH_ADD_TO_BKT ?mf t (unat (HASH_TO_BKT (hash (take len k)) (num_buckets (T\<lparr>tail := Some e, num_items := num_items T + 1\<rparr>)))) e) (\<lambda>m. Some (Going (m, Some p))))"
    proof (rule added_finish)
      note fin = appended_inv [OF inv T(1) e(1) h k n refl refl]
      show "table_inv hash ?mf t (xs @ [e]) (set xs) bks" "key_of ?mf e = take len k"
        by (rule fin)+
      show "key_of ?mf x = key_of m x" if "x \<noteq> e" for x
        by (rule fin) (rule that)
      show "tables ?mf t = Some (T\<lparr>tail := Some e, num_items := num_items T + 1\<rparr>)"
        by simp
    qed (use lim p levels_Some [OF inv T(1)] in \<open>simp_all add: Some\<close>)
    ultimately show ?thesis
      by simp
  qed
qed

end

end
