(* ===== verification/Uthash_Ops.thy ===== *)
theory Uthash_Ops
  imports Uthash_Table
begin

text \<open>Lookup, removal and the walks through a table, on tables that satisfy the invariant.\<close>

section \<open>Lookup\<close>

lemma HASH_FIND_IN_BKT_ok:
  assumes "path (elems m) q ch" and "\<And>x. x \<in> set ch \<Longrightarrow> elem_ok hash m t x" and "len \<le> length k"
  shows "HASH_FIND_IN_BKT m q k len = Some (find (\<lambda>x. key_of m x = take len k) ch)"
  using assms(1,2)
proof (induction ch arbitrary: q)
  case Nil
  then show ?case
    by (simp add: HASH_FIND_IN_BKT.simps)
next
  case (Cons x ch)
  obtain h k' where h: "q = Some x" "elems m x = Some h" "path (elems m) (hh_next h) ch" "key_mem m (key h) = Some k'"
      "unat (keylen h) \<le> length k'"
    using Cons.prems(1) Cons.prems(2) [of x] by (auto simp: elem_ok_def)
  have key: "key_of m x = take (unat (keylen h)) k'"
    by (simp add: key_of_def h)
  have IH: "HASH_FIND_IN_BKT m (hh_next h) k len = Some (find (\<lambda>x. key_of m x = take len k) ch)"
    using Cons.IH [OF h(3)] Cons.prems(2) by simp
  show ?case
  proof (cases "unat (keylen h) = len")
    case True
    then show ?thesis
      using h(5) assms(3) by (subst HASH_FIND_IN_BKT.simps) (simp add: h(1,2,4) IH key HASH_KEYCMP_def rdn_Some)
  next
    case False
    then have "key_of m x \<noteq> take len k"
      using h(5) assms(3) key by (metis length_take min_absorb2)
    then show ?thesis
      using False by (subst HASH_FIND_IN_BKT.simps) (simp add: h(1,2) IH)
  qed
qed

lemma find_subset:
  assumes "set ch \<subseteq> set xs" and "\<And>x. x \<in> set xs \<Longrightarrow> P x \<Longrightarrow> x \<in> set ch" and "\<And>x y. x \<in> set xs \<Longrightarrow> y \<in> set xs \<Longrightarrow> P x \<Longrightarrow> P y \<Longrightarrow> x = y"
  shows "find P ch = find P xs"
proof (cases "find P xs")
  case None
  then have "find P ch = None"
    using assms(1) by (auto simp: find_None_iff)
  then show ?thesis
    by (simp add: None)
next
  case (Some x)
  then have x: "x \<in> set xs" "P x"
    by (auto simp: find_Some_iff)
  obtain y where y: "find P ch = Some y" "y \<in> set ch" "P y"
  proof (cases "find P ch")
    case None
    then show thesis
      using assms(2) [OF x] x(2) by (simp add: find_None_iff)
  next
    case (Some y)
    then have "y \<in> set ch" "P y"
      by (auto simp: find_Some_iff)
    then show thesis
      using that Some by simp
  qed
  have "y = x"
    using y assms(1) x by (intro assms(3)) auto
  then show ?thesis
    using y(1) Some by simp
qed

context hash_function
begin

theorem HASH_FIND_ok:
  assumes xs: "holds hash m head xs" and dist: "distinct (map (key_of m) xs)" and k: "len \<le> length k" "len < 2 ^ 32"
  shows "HASH_FIND fcn m head k len = Some (find (\<lambda>x. key_of m x = take len k) xs)"
proof (cases head)
  case None
  then show ?thesis
    using xs by (simp add: holds_def HASH_FIND_def)
next
  case (Some p)
  then obtain t bks where inv: "table_inv hash m t xs (set xs) bks" and p: "p = hd xs" "xs \<noteq> []"
    using xs by (auto simp: holds_def)
  obtain T where T: "tables m t = Some T" "geometry T"
      and ok: "buckets_ok (\<lambda>x. hash (key_of m x)) (elems m) (num_buckets T) (set xs) (buckets T) bks"
    using inv by (auto simp: table_inv_def)
  have tbl: "tbl_of m p = Some (t, T)"
    using inv p T(1) by (intro tbl_of_elem) (auto simp: table_inv_def)
  let ?i = "unat (HASH_TO_BKT (hash (take len k)) (num_buckets T))"
  have i: "?i < unat (num_buckets T)" "length (buckets T) = unat (num_buckets T)"
    using HASH_TO_BKT_less [OF geometry_nonzero [OF T(2)]] ok by (auto simp: buckets_ok_def)
  then have b: "bucket_ok (elems m) (buckets T ! ?i) (bks ! ?i)"
      "set (bks ! ?i) = {x \<in> set xs. unat (HASH_TO_BKT (hash (key_of m x)) (num_buckets T)) = ?i}"
    using ok by (auto simp: buckets_ok_def)
  have "HASH_FIND_IN_BKT m (hh_head (buckets T ! ?i)) k len = Some (find (\<lambda>x. key_of m x = take len k) (bks ! ?i))"
  proof (rule HASH_FIND_IN_BKT_ok [OF seg_path _ k(1)])
    show "seg hh_next hh_prev (elems m) None (hh_head (buckets T ! ?i)) (bks ! ?i) None"
      using b(1) by (simp add: bucket_ok_def)
    show "elem_ok hash m t x" if "x \<in> set (bks ! ?i)" for x
      using inv that b(2) by (simp add: table_inv_def)
  qed
  also have "find (\<lambda>x. key_of m x = take len k) (bks ! ?i) = find (\<lambda>x. key_of m x = take len k) xs"
  proof (rule find_subset)
    show "x = y" if "x \<in> set xs" "y \<in> set xs" "key_of m x = take len k" "key_of m y = take len k" for x y
      using that dist by (metis distinct_map inj_onD)
  qed (use b(2) in auto)
  finally show ?thesis
    using i by (simp add: HASH_FIND_def Some tbl fcn [OF k] rd_Some)
qed

end

section \<open>Removal\<close>

lemma upd_opt:
  "(\<And>y. a = Some y \<Longrightarrow> elems m y \<noteq> None) \<Longrightarrow>
   (case a of None \<Rightarrow> Some m | Some y \<Rightarrow> upd_hh y f m) = Some (m\<lparr>elems := (case a of None \<Rightarrow> elems m | Some y \<Rightarrow> modify y f (elems m))\<rparr>)"
  by (cases a) (simp_all add: upd_hh_def)

lemma HASH_DEL_IN_BKT_eq:
  assumes "tables m t = Some T" and "i < length (buckets T)" and "elems m d = Some h"
    and "\<And>y. hh_prev h = Some y \<Longrightarrow> elems m y \<noteq> None" and "\<And>y. hh_next h = Some y \<Longrightarrow> elems m y \<noteq> None"
  shows "HASH_DEL_IN_BKT m t i d = Some (m\<lparr>elems := unlink_bkt (hh_prev h) (hh_next h) (elems m), tables := (tables m)(t \<mapsto>
      T\<lparr>buckets := (buckets T)[i := (buckets T ! i)\<lparr>count := count (buckets T ! i) - 1,
        hh_head := (if hh_head (buckets T ! i) = Some d then hh_next h else hh_head (buckets T ! i))\<rparr>]\<rparr>)\<rparr>)"
proof -
  have "(if hh_head b = Some d then b\<lparr>hh_head := hh_next h\<rparr> else b) =
      b\<lparr>hh_head := (if hh_head b = Some d then hh_next h else hh_head b)\<rparr>" for b :: UT_hash_bucket
    by simp
  then show ?thesis
    using assms by (cases "hh_prev h"; cases "hh_next h")
      (simp_all add: HASH_DEL_IN_BKT_def rd_Some wr_Some Let_def upd_hh_def unlink_def modify_apply)
qed

text \<open>The links of the application order.\<close>

abbreviation unlink_ord :: "nat option \<Rightarrow> nat option \<Rightarrow> (nat \<rightharpoonup> UT_hash_handle) \<Rightarrow> (nat \<rightharpoonup> UT_hash_handle)" where
  "unlink_ord \<equiv> unlink (\<lambda>a h. h\<lparr>nxt := a\<rparr>) (\<lambda>a h. h\<lparr>prev := a\<rparr>)"

lemma dom_unlink [simp]: "dom (unlink sn sp a b E) = dom E"
  by (auto simp: unlink_def Let_def split: option.splits)

lemma unlink_elem:
  "a \<noteq> Some x \<Longrightarrow> b \<noteq> Some x \<Longrightarrow> unlink sn sp a b E x = E x"
  by (auto simp: unlink_def Let_def modify_apply split: option.splits)

text \<open>An element leaves the application order.\<close>

lemma order_links:
  assumes "seg nx pv E None (Some (hd (ys @ d # zs))) (ys @ d # zs) None" and "E d = Some h"
  shows "pv h = last_or None ys" and "nx h = hd_or zs None"
  using assms seg_first by (fastforce simp: seg_append)+

lemma order_removed:
  assumes inv: "table_inv hash m t xs (set xs) bks" and xs: "xs = ys @ d # zs" "ys @ zs \<noteq> []" and d: "elems m d = Some h"
  shows "\<not> (prev h = None \<and> nxt h = None)"
    and "Some (hd (ys @ zs)) = (if prev h = None then nxt h else Some (hd xs))"
    and "seg nxt prev (unlink_ord (prev h) (nxt h) (elems m)) None (Some (hd (ys @ zs))) (ys @ zs) None"
    and "Some (last (ys @ zs)) = (if last xs = d then prev h else Some (last xs))"
proof -
  have seg: "seg nxt prev (elems m) None (Some (hd xs)) (ys @ d # zs) None" and dist: "distinct (ys @ d # zs)"
    using inv by (auto simp: table_inv_def xs(1))
  have l: "prev h = last_or None ys" "nxt h = hd_or zs None"
    using order_links [OF seg [unfolded xs(1)] d] by auto
  show "\<not> (prev h = None \<and> nxt h = None)"
    using xs(2) l by (auto simp: last_or_def hd_or_def)
  show hd: "Some (hd (ys @ zs)) = (if prev h = None then nxt h else Some (hd xs))"
    using xs l by (cases ys) (auto simp: hd_or_def last_or_def)
  have "(Some (hd xs) = Some d) = (prev h = None)"
    using dist l by (cases ys) (auto simp: xs(1) last_or_def)
  then show "seg nxt prev (unlink_ord (prev h) (nxt h) (elems m)) None (Some (hd (ys @ zs))) (ys @ zs) None"
    using seg_unlink [OF seg dist d, of "\<lambda>a h. h\<lparr>nxt := a\<rparr>" "\<lambda>a h. h\<lparr>prev := a\<rparr>"] unfolding hd by simp
  show "Some (last (ys @ zs)) = (if last xs = d then prev h else Some (last xs))"
    using xs l dist by (cases zs rule: rev_cases) (auto simp: last_or_def)
qed

text \<open>What an operation does that leaves the elements \<open>xs\<close> in the table.\<close>

definition leaves :: "(bytes \<Rightarrow> u32) \<Rightarrow> uh_mem \<Rightarrow> nat \<Rightarrow> nat list \<Rightarrow> (uh_mem \<times> nat option) option \<Rightarrow> bool" where
  "leaves hash m lv xs r \<longleftrightarrow> (\<exists>m' head'. r = Some (m', head') \<and> holds hash m' head' xs \<and>
     (\<forall>x. key_of m' x = key_of m x) \<and> key_mem m' = key_mem m \<and> grant m' = grant m \<and> dom (elems m') = dom (elems m) \<and>
     levels m' head' \<le> max 5 lv)"

lemma HASH_DELETE_single:
  assumes "holds hash m head [d]"
  shows "leaves hash m (levels m head) [] (HASH_DELETE m head d)"
proof -
  obtain t bks where inv: "table_inv hash m t [d] {d} bks" "head = Some d"
    using assms by (auto simp: holds_def split: option.splits)
  then obtain T where T: "tables m t = Some T" "elem_ok hash m t d" and "\<exists>h. elems m d = Some h \<and> prev h = None \<and> nxt h = None"
    by (auto simp: table_inv_def)
  then have "HASH_DELETE m head d = Some (m\<lparr>tables := (tables m)(t := None)\<rparr>, None)"
    using tbl_of_elem [OF T(2,1)] by (auto simp: HASH_DELETE_def inv(2))
  moreover have "holds hash (m\<lparr>tables := (tables m)(t := None)\<rparr>) None []"
    using assms by (simp add: holds_def bounded_heap_def)
  moreover have "key_of (m\<lparr>tables := (tables m)(t := None)\<rparr>) x = key_of m x" for x
    by (rule key_of_other) simp_all
  ultimately show ?thesis
    by (simp add: leaves_def levels_def)
qed

text \<open>The first half of a removal from a table that keeps an element: the application order and its ends.\<close>

lemma HASH_DELETE_order:
  assumes inv: "table_inv hash m t xs (set xs) bks" and xs: "xs = ys @ d # zs" "ys @ zs \<noteq> []" and d: "elems m d = Some h"
    and T: "tables m t = Some T"
    and m1: "m1 = m\<lparr>tables := (tables m)(t \<mapsto> T\<lparr>tail := Some (last (ys @ zs))\<rparr>), elems := unlink_ord (prev h) (nxt h) (elems m)\<rparr>"
  shows "HASH_DELETE m (Some (hd xs)) d = do {
    m \<leftarrow> HASH_DEL_IN_BKT m1 t (unat (HASH_TO_BKT (hashv h) (num_buckets T))) d;
    m \<leftarrow> upd_tbl t (\<lambda>T. T\<lparr>num_items := num_items T - 1\<rparr>) m;
    Some (m, Some (hd (ys @ zs)))
  }"
proof -
  note ord = order_removed [OF inv xs d]
  have ok: "elem_ok hash m t x" if "x \<in> set xs" for x
    using inv that by (simp add: table_inv_def)
  have tail: "tail T = Some (last xs)" and seg: "seg nxt prev (elems m) None (Some (hd (ys @ d # zs))) (ys @ d # zs) None"
    using inv T by (auto simp: table_inv_def xs(1))
  have ne: "xs \<noteq> []" and tl: "tbl_of m (hd xs) = Some (t, T)"
    using tbl_of_elem [OF ok T] by (auto simp: xs(1) hd_append)
  let ?mt = "m\<lparr>tables := (tables m)(t \<mapsto> T\<lparr>tail := Some (last (ys @ zs))\<rparr>)\<rparr>"
  have 1: "(if tail T = Some d then upd_tbl t (\<lambda>T. T\<lparr>tail := prev h\<rparr>) m else Some m) = Some ?mt"
  proof (cases "last xs = d")
    case True
    then show ?thesis
      using ord(4) tail T by (simp add: upd_tbl_def modify_def)
  next
    case False
    then have "T\<lparr>tail := Some (last (ys @ zs))\<rparr> = T" "(tables m)(t \<mapsto> T) = tables m"
      using ord(4) tail T by auto
    then show ?thesis
      using False tail by simp
  qed
  have live: "prev h = Some y \<Longrightarrow> elems m y \<noteq> None" "nxt h = Some y \<Longrightarrow> elems m y \<noteq> None" for y
    using order_links [OF seg d] seg_live [OF seg] by (auto simp: last_or_def hd_or_def split: if_splits)
  have "hd (ys @ zs) \<in> set xs"
    using hd_in_set [OF xs(2)] by (auto simp: xs(1))
  then obtain g where g: "elems m (hd (ys @ zs)) = Some g" "tbl g = Some t"
    using ok by (auto simp: elem_ok_def)
  have same: "same_on UNIV tbl (elems m) (elems m1)"
    unfolding m1 by (simp add: unlink_same)
  obtain g' where "elems m1 (hd (ys @ zs)) = Some g'" "tbl g' = Some t"
    using same_onD [OF same UNIV_I g(1)] g(2) by auto
  then have 2: "tbl_of m1 (hd (ys @ zs)) = Some (t, T\<lparr>tail := Some (last (ys @ zs))\<rparr>)"
    by (simp add: tbl_of_def m1)
  show ?thesis
    using ord(1,2) live tl 1 2 unfolding HASH_DELETE_def
    by (cases "prev h"; cases "nxt h"; simp add: d upd_hh_def m1 unlink_def modify_apply Let_def; auto)
qed

lemma holds_Some: "table_inv hash m t xs (set xs) bks \<Longrightarrow> bounded_heap m \<Longrightarrow> holds hash m (Some (hd xs)) xs"
proof -
  assume "table_inv hash m t xs (set xs) bks" and "bounded_heap m"
  moreover from this have "xs \<noteq> []"
    by (simp add: table_inv_def)
  ultimately show ?thesis
    by (auto simp: holds_def)
qed

lemma bucket_links_live:
  assumes ok: "buckets_ok hv E n S bs bks" and d: "d \<in> S" "E d = Some h" and n: "n \<noteq> 0"
  shows "hh_prev h = Some y \<Longrightarrow> E y \<noteq> None" and "hh_next h = Some y \<Longrightarrow> E y \<noteq> None"
proof -
  let ?i = "unat (HASH_TO_BKT (hv d) n)"
  have b: "bucket_ok E (bs ! ?i) (bks ! ?i)" "d \<in> set (bks ! ?i)"
    using ok d(1) HASH_TO_BKT_less [OF n] by (auto simp: buckets_ok_def)
  then obtain ys zs where ch: "bks ! ?i = ys @ d # zs"
    by (meson split_list)
  then have seg: "seg hh_next hh_prev E None (hh_head (bs ! ?i)) (ys @ d # zs) None"
    using b(1) by (simp add: bucket_ok_def)
  then have "hh_head (bs ! ?i) = Some (hd (ys @ d # zs))"
    using seg_first by (fastforce simp: hd_or_def)
  then have "hh_prev h = last_or None ys" "hh_next h = hd_or zs None"
    using order_links [of hh_next hh_prev E ys d zs h] seg d(2) by auto
  then show "hh_prev h = Some y \<Longrightarrow> E y \<noteq> None" "hh_next h = Some y \<Longrightarrow> E y \<noteq> None"
    using seg_live [OF seg, of y] by (auto simp: last_or_def hd_or_def split: if_splits)
qed

theorem HASH_DELETE_ok:
  assumes xs: "holds hash m head xs" and d: "d \<in> set xs"
  shows "leaves hash m (levels m head) (remove1 d xs) (HASH_DELETE m head d)"
proof (cases "xs = [d]")
  case True
  then show ?thesis
    using HASH_DELETE_single xs by simp
next
  case False
  obtain ys zs where split: "xs = ys @ d # zs" "d \<notin> set ys"
    using split_list_first [OF d] by auto
  then have ne: "ys @ zs \<noteq> []"
    using False by auto
  have rem: "remove1 d xs = ys @ zs"
    using split by (simp add: remove1_append)
  obtain t bks where inv: "table_inv hash m t xs (set xs) bks" and head: "head = Some (hd xs)"
    using xs d by (auto simp: holds_def split: option.splits)
  have ok: "elem_ok hash m t x" if "x \<in> set xs" for x
    using inv that by (simp add: table_inv_def)
  obtain h where h: "elems m d = Some h" "hashv h = hash (key_of m d)"
    using ok [OF d] by (auto simp: elem_ok_def)
  obtain T where T: "tables m t = Some T" "geometry T" "num_items T = of_nat (length xs)"
      and bok: "buckets_ok (\<lambda>x. hash (key_of m x)) (elems m) (num_buckets T) (set xs) (buckets T) bks"
    using inv by (auto simp: table_inv_def)
  let ?hv = "\<lambda>x. hash (key_of m x)"
  let ?Eo = "unlink_ord (prev h) (nxt h) (elems m)"
  let ?Ef = "unlink_bkt (hh_prev h) (hh_next h) ?Eo"
  note ord = order_removed [OF inv split(1) ne h(1)]
  have same1: "same_on UNIV (\<lambda>h. (hh_next h, hh_prev h)) (elems m) ?Eo"
    by (rule unlink_same) simp_all
  have bok1: "buckets_ok ?hv ?Eo (num_buckets T) (set xs) (buckets T) bks"
    by (rule buckets_ok_same [OF same_on_subset [OF same1] bok]) simp
  have nz: "num_buckets T \<noteq> 0"
    by (rule geometry_nonzero [OF T(2)])
  let ?i = "unat (HASH_TO_BKT (?hv d) (num_buckets T))"
  have i: "?i < length (buckets T)"
    using HASH_TO_BKT_less [OF nz] bok by (simp add: buckets_ok_def)
  have seg: "seg nxt prev (elems m) None (Some (hd (ys @ d # zs))) (ys @ d # zs) None" and dist: "distinct (ys @ d # zs)"
    using inv by (auto simp: table_inv_def split(1))
  have "prev h \<noteq> Some d" "nxt h \<noteq> Some d"
    using order_links [OF seg h(1)] dist by (auto simp: last_or_def hd_or_def)
  then have Eod: "?Eo d = Some h"
    using unlink_elem h(1) by simp
  let ?b = "(buckets T ! ?i)\<lparr>count := count (buckets T ! ?i) - 1,
      hh_head := (if hh_head (buckets T ! ?i) = Some d then hh_next h else hh_head (buckets T ! ?i))\<rparr>"
  let ?T = "T\<lparr>tail := Some (last (ys @ zs)), buckets := (buckets T)[?i := ?b], num_items := num_items T - 1\<rparr>"
  let ?m = "m\<lparr>elems := ?Ef, tables := (tables m)(t \<mapsto> ?T)\<rparr>"
  have run: "HASH_DELETE m head d = Some (?m, Some (hd (ys @ zs)))"
    unfolding head HASH_DELETE_order [OF inv split(1) ne h(1) T(1) refl] h(2)
    using i bucket_links_live [OF bok1 d Eod nz]
    by (subst HASH_DEL_IN_BKT_eq [where T = "T\<lparr>tail := Some (last (ys @ zs))\<rparr>" and h = h])
      (simp_all add: Eod upd_tbl_def modify_def cong: if_cong)
  have same: "same_on UNIV (\<lambda>h. (key h, keylen h, tbl h, hashv h)) (elems m) ?Ef"
    by (rule same_on_trans [OF unlink_same unlink_same]) simp_all
  have same2: "same_on UNIV (\<lambda>h. (key h, keylen h)) (elems m) ?Ef"
    by (rule same_on_trans [OF unlink_same unlink_same]) simp_all
  have key: "key_of ?m x = key_of m x" for x
    by (rule key_of_other) (use same2 in \<open>simp_all add: same_on_def\<close>)
  have elems_ok: "elem_ok hash ?m t x" if x: "x \<in> set xs" for x
  proof -
    obtain g kk where g: "elems m x = Some g" "tbl g = Some t" "key_mem m (key g) = Some kk" "unat (keylen g) \<le> length kk"
        "hashv g = hash (key_of m x)"
      using ok [OF x] by (auto simp: elem_ok_def)
    obtain g' where "?Ef x = Some g'" "(key g', keylen g', tbl g', hashv g') = (key g, keylen g, tbl g, hashv g)"
      using same_onD [OF same UNIV_I g(1)] by auto
    then show ?thesis
      using g by (simp add: elem_ok_def key)
  qed
  have seg': "seg nxt prev ?Ef None (Some (hd (ys @ zs))) (ys @ zs) None"
    using ord(3) by (rule seg_same [rotated]) (rule unlink_same, simp_all)
  have S: "set xs - {d} = set (ys @ zs)"
    using dist by (auto simp: split(1))
  have "buckets_ok ?hv ?Ef (num_buckets T) (set xs - {d}) ((buckets T)[?i := ?b]) (bks[?i := remove1 d (bks ! ?i)])"
    by (rule bucket_del [OF bok1 d Eod nz refl]) simp_all
  then have bok2: "buckets_ok (\<lambda>x. hash (key_of ?m x)) (elems ?m) (num_buckets ?T) (set (ys @ zs)) (buckets ?T)
      (bks[?i := remove1 d (bks ! ?i)])"
    unfolding S key by simp
  have T': "tables ?m t = Some ?T" "num_items ?T = of_nat (length (ys @ zs))" "tail ?T = Some (last (ys @ zs))" "geometry ?T"
    using T(2,3) by (simp_all add: geometry_def split(1))
  have "length (ys @ zs) < 2 ^ 32" "distinct (ys @ zs)" "\<forall>x\<in>set (ys @ zs). elem_ok hash ?m t x"
    using inv dist elems_ok by (auto simp: table_inv_def split(1))
  then have inv': "table_inv hash ?m t (ys @ zs) (set (ys @ zs)) (bks[?i := remove1 d (bks ! ?i)])"
    using ne seg' T' bok2 unfolding table_inv_def by (intro conjI exI [of _ ?T]) simp_all
  have lv: "levels ?m (Some (hd (ys @ zs))) = levels m head"
    using levels_Some [OF inv' T'(1)] levels_Some [OF inv T(1)] by (simp add: head)
  have "holds hash ?m (Some (hd (ys @ zs))) (ys @ zs)"
    by (rule holds_Some [OF inv']) (use xs in \<open>simp add: holds_def bounded_heap_def\<close>)
  then show ?thesis
    using run key lv by (simp add: leaves_def rem)
qed

section \<open>Walks\<close>

lemma HASH_ITER_ok: "seg nxt pv (elems m) p q xs None \<Longrightarrow> HASH_ITER m q = Some xs"
proof (induction xs arbitrary: p q)
  case Nil
  then show ?case
    by (simp add: HASH_ITER.simps)
next
  case (Cons x xs)
  then obtain h where h: "q = Some x" "elems m x = Some h" "seg nxt pv (elems m) (Some x) (nxt h) xs None"
    by auto
  then show ?case
    using Cons.IH [OF h(3)] by (subst HASH_ITER.simps) simp
qed

lemma fsck_chain_ok: "seg hh_next hh_prev (elems m) p q xs None \<Longrightarrow> fsck_chain m p q n = Some (Some (n + of_nat (length xs)))"
proof (induction xs arbitrary: p q n)
  case Nil
  then show ?case
    by (simp add: fsck_chain.simps)
next
  case (Cons x xs)
  then obtain h where h: "q = Some x" "elems m x = Some h" "hh_prev h = p" "seg hh_next hh_prev (elems m) (Some x) (hh_next h) xs None"
    by auto
  then show ?case
    using Cons.IH [OF h(4), of "n + 1"] by (subst fsck_chain.simps) (simp add: add.assoc)
qed

lemma fsck_order_ok: "seg nxt prev (elems m) p q xs None \<Longrightarrow> fsck_order m p q n = Some (Some (n + of_nat (length xs)))"
proof (induction xs arbitrary: p q n)
  case Nil
  then show ?case
    by (simp add: fsck_order.simps)
next
  case (Cons x xs)
  then obtain h where h: "q = Some x" "elems m x = Some h" "prev h = p" "seg nxt prev (elems m) (Some x) (nxt h) xs None"
    by auto
  then show ?case
    using Cons.IH [OF h(4), of "n + 1"] by (subst fsck_order.simps) (simp add: add.assoc)
qed

lemma fsck_buckets_ok:
  "list_all2 (bucket_ok (elems m)) bs bks \<Longrightarrow> fsck_buckets m bs n = Some (Some (n + of_nat (length (concat bks))))"
proof (induction bs arbitrary: bks n)
  case (Cons b bs)
  then obtain ch css where c: "bks = ch # css" "bucket_ok (elems m) b ch" "list_all2 (bucket_ok (elems m)) bs css"
    by (auto simp: list_all2_Cons1)
  then have "seg hh_next hh_prev (elems m) None (hh_head b) ch None" "unat (count b) = length ch"
    by (simp_all add: bucket_ok_def)
  moreover from this(2) have "count b = of_nat (length ch)"
    by (metis of_nat_unat ucast_id)
  ultimately have "seg hh_next hh_prev (elems m) None (hh_head b) ch None" "count b = of_nat (length ch)"
    by simp_all
  then show ?case
    using Cons.IH [OF c(3)] fsck_chain_ok [of m None "hh_head b" ch 0] by (simp add: c(1) add.assoc)
qed simp

theorem walks_ok:
  assumes "holds hash m head xs"
  shows "HASH_ITER m head = Some xs" and "HASH_CNT m head = Some (of_nat (length xs))" and "HASH_FSCK m head = Some True"
proof -
  have "HASH_ITER m head = Some xs \<and> HASH_CNT m head = Some (of_nat (length xs)) \<and> HASH_FSCK m head = Some True"
  proof (cases head)
    case None
    then show ?thesis
      using assms by (simp add: holds_def HASH_CNT_def HASH_FSCK_def HASH_ITER.simps)
  next
    case (Some p)
    then obtain t bks where inv: "table_inv hash m t xs (set xs) bks" and p: "p = hd xs" "xs \<noteq> []"
      using assms by (auto simp: holds_def)
    obtain T where T: "tables m t = Some T" "num_items T = of_nat (length xs)"
        and ok: "buckets_ok (\<lambda>x. hash (key_of m x)) (elems m) (num_buckets T) (set xs) (buckets T) bks" and g: "geometry T"
        and seg: "seg nxt prev (elems m) None (Some (hd xs)) xs None" and dist: "distinct xs"
      using inv by (auto simp: table_inv_def)
    have tbl: "tbl_of m p = Some (t, T)"
      using inv p T(1) by (intro tbl_of_elem) (auto simp: table_inv_def)
    have len: "length (buckets T) = unat (num_buckets T)" "length bks = unat (num_buckets T)"
      and bs: "list_all2 (bucket_ok (elems m)) (buckets T) bks"
      using ok by (auto simp: buckets_ok_def list_all2_conv_all_nth)
    have "distinct (concat bks)" "set (concat bks) = set xs"
      using buckets_concat [OF ok order_refl] HASH_TO_BKT_less [OF geometry_nonzero [OF g]] len by auto
    then have "length (concat bks) = length xs"
      using dist by (metis distinct_card)
    then show ?thesis
      using HASH_ITER_ok [OF seg] fsck_order_ok [OF seg, of 0] fsck_buckets_ok [OF bs, of 0] T(2) len tbl p
      by (simp add: HASH_CNT_def HASH_FSCK_def Some rdn_Some)
  qed
  then show "HASH_ITER m head = Some xs" "HASH_CNT m head = Some (of_nat (length xs))" "HASH_FSCK m head = Some True"
    by blast+
qed

lemma HASH_CLEAR_ok:
  assumes "holds hash m head xs"
  shows "leaves hash m (levels m head) [] (HASH_CLEAR m head)"
proof -
  have "\<exists>m'. HASH_CLEAR m head = Some (m', None) \<and> elems m' = elems m \<and> key_mem m' = key_mem m \<and> grant m' = grant m"
  proof (cases head)
    case (Some p)
    then obtain t bks where inv: "table_inv hash m t xs (set xs) bks" and p: "p = hd xs" "xs \<noteq> []"
      using assms by (auto simp: holds_def)
    then obtain T where "tables m t = Some T" "elem_ok hash m t p"
      by (auto simp: table_inv_def)
    then have "tbl_of m p = Some (t, T)"
      by (intro tbl_of_elem)
    then show ?thesis
      by (simp add: HASH_CLEAR_def Some)
  qed (simp add: HASH_CLEAR_def)
  then obtain m' where m': "HASH_CLEAR m head = Some (m', None)" "elems m' = elems m" "key_mem m' = key_mem m" "grant m' = grant m"
    by blast
  moreover have "key_of m' x = key_of m x" for x
    by (rule key_of_other) (simp_all add: m')
  moreover have "holds hash m' None []"
    using assms m'(4) by (simp add: holds_def bounded_heap_def)
  ultimately show ?thesis
    by (simp add: leaves_def levels_def)
qed

end
