(* ===== verification/Uthash_Props.thy ===== *)
theory Uthash_Props
  imports Uthash_Ops
begin

text \<open>
  A table of \<open>uthash.h\<close> against its specification, a list of keys with their elements in the order in which they were added.
\<close>

section \<open>Specification\<close>

datatype table_op = Add nat nat | Find bytes nat | Delete nat | Replace nat nat | Clear

text \<open>\<open>ks e\<close> are the bytes of the key member of the element \<open>e\<close>.\<close>

fun spec_step :: "(nat \<rightharpoonup> bytes) \<Rightarrow> table_op \<Rightarrow> (bytes \<times> nat) list \<Rightarrow> (bytes \<times> nat) list \<times> nat option" where
  "spec_step ks (Add e n) vs = (vs @ [(take n (the (ks e)), e)], None)"
| "spec_step ks (Find k n) vs = (vs, map_of vs (take n k))"
| "spec_step ks (Delete e) vs = (filter (\<lambda>(k, x). x \<noteq> e) vs, None)"
| "spec_step ks (Replace e n) vs = (filter (\<lambda>(k, x). k \<noteq> take n (the (ks e))) vs @ [(take n (the (ks e)), e)],
     map_of vs (take n (the (ks e))))"
| "spec_step ks Clear vs = ([], None)"

text \<open>The conditions under which the macros may be used: an element is in the table at most once, keys are unique, and lie inside
  their objects; \<open>D\<close> are the elements that exist.\<close>

fun allowed :: "(nat \<rightharpoonup> bytes) \<Rightarrow> nat set \<Rightarrow> table_op \<Rightarrow> (bytes \<times> nat) list \<Rightarrow> bool" where
  "allowed ks D (Add e n) vs \<longleftrightarrow> e \<in> D \<and> e \<notin> snd ` set vs \<and> ks e \<noteq> None \<and> n \<le> length (the (ks e)) \<and> n < 2 ^ 32 \<and>
     take n (the (ks e)) \<notin> fst ` set vs \<and> length vs + 1 < 2 ^ 32"
| "allowed ks D (Find k n) vs \<longleftrightarrow> n \<le> length k \<and> n < 2 ^ 32"
| "allowed ks D (Delete e) vs \<longleftrightarrow> e \<in> snd ` set vs"
| "allowed ks D (Replace e n) vs \<longleftrightarrow> e \<in> D \<and> e \<notin> snd ` set vs \<and> ks e \<noteq> None \<and> n \<le> length (the (ks e)) \<and> n < 2 ^ 32 \<and>
     length vs + 1 < 2 ^ 32"
| "allowed ks D Clear vs \<longleftrightarrow> True"

fun spec_run :: "(nat \<rightharpoonup> bytes) \<Rightarrow> table_op list \<Rightarrow> (bytes \<times> nat) list \<Rightarrow> (bytes \<times> nat) list \<times> nat option list" where
  "spec_run ks [] vs = (vs, [])"
| "spec_run ks (a # as) vs = (let (vs, r) = spec_step ks a vs; (vs, rs) = spec_run ks as vs in (vs, r # rs))"

fun all_allowed :: "(nat \<rightharpoonup> bytes) \<Rightarrow> nat set \<Rightarrow> table_op list \<Rightarrow> (bytes \<times> nat) list \<Rightarrow> bool" where
  "all_allowed ks D [] vs \<longleftrightarrow> True"
| "all_allowed ks D (a # as) vs \<longleftrightarrow> allowed ks D a vs \<and> all_allowed ks D as (fst (spec_step ks a vs))"

section \<open>Runs of the macros\<close>

fun table_step :: "hash_fcn \<Rightarrow> table_op \<Rightarrow> uh_mem \<Rightarrow> nat option \<Rightarrow> ((uh_mem \<times> nat option) \<times> nat option) run option" where
  "table_step fcn (Add e n) m head = and_then (HASH_ADD fcn m head n e) (\<lambda>s. Some (Going (s, None)))"
| "table_step fcn (Find k n) m head = do { r \<leftarrow> HASH_FIND fcn m head k n; Some (Going ((m, head), r)) }"
| "table_step fcn (Delete e) m head = do { s \<leftarrow> HASH_DELETE m head e; Some (Going (s, None)) }"
| "table_step fcn (Replace e n) m head = do {
     (r, old) \<leftarrow> HASH_REPLACE fcn m head n e;
     and_then (Some r) (\<lambda>s. Some (Going (s, old)))
   }"
| "table_step fcn Clear m head = do { s \<leftarrow> HASH_CLEAR m head; Some (Going (s, None)) }"

fun table_run :: "hash_fcn \<Rightarrow> table_op list \<Rightarrow> uh_mem \<Rightarrow> nat option \<Rightarrow> ((uh_mem \<times> nat option) \<times> nat option list) run option" where
  "table_run fcn [] m head = Some (Going ((m, head), []))"
| "table_run fcn (a # as) m head = and_then (table_step fcn a m head) (\<lambda>((m, head), r).
     and_then (table_run fcn as m head) (\<lambda>(s, rs). Some (Going (s, r # rs))))"

section \<open>Refinement\<close>

definition entries :: "uh_mem \<Rightarrow> nat list \<Rightarrow> (bytes \<times> nat) list" where
  "entries m xs = map (\<lambda>x. (key_of m x, x)) xs"

definition represents :: "(bytes \<Rightarrow> u32) \<Rightarrow> uh_mem \<Rightarrow> nat option \<Rightarrow> (bytes \<times> nat) list \<Rightarrow> bool" where
  "represents hash m head vs \<longleftrightarrow> holds hash m head (map snd vs) \<and> vs = entries m (map snd vs) \<and> distinct (map fst vs)"

text \<open>What stays as it is.\<close>

definition same_world :: "uh_mem \<Rightarrow> uh_mem \<Rightarrow> bool" where
  "same_world m m' \<longleftrightarrow> key_mem m' = key_mem m \<and> grant m' = grant m \<and> dom (elems m') = dom (elems m)"

lemma holds_distinct: "holds hash m head xs \<Longrightarrow> distinct xs"
  by (auto simp: holds_def table_inv_def split: option.splits)

lemma holds_empty: "bounded_heap m \<Longrightarrow> holds hash m None []"
  by (simp add: holds_def)

lemma find_entries: "find (\<lambda>x. key_of m x = K) xs = map_of (entries m xs) K"
  by (induction xs) (auto simp: entries_def)

text \<open>Removing an element, and removing a key.\<close>

lemma entries_remove1: "distinct xs \<Longrightarrow> entries m (remove1 d xs) = filter (\<lambda>(k, x). x \<noteq> d) (entries m xs)"
  by (simp add: entries_def distinct_remove1_removeAll removeAll_filter_not_eq filter_map comp_def split_def eq_commute)

lemma entries_cong: "(\<And>x. x \<in> set xs \<Longrightarrow> key_of m' x = key_of m x) \<Longrightarrow> entries m' xs = entries m xs"
  by (simp add: entries_def)

lemma map_snd_entries [simp]: "map snd (entries m xs) = xs"
  by (simp add: entries_def comp_def)

lemma represents_leaves:
  assumes "leaves hash m lv xs r" and "distinct (map fst (entries m xs))"
  shows "\<exists>m' head'. r = Some (m', head') \<and> represents hash m' head' (entries m xs) \<and> same_world m m' \<and> levels m' head' \<le> max 5 lv"
proof -
  obtain m' head' where 1: "r = Some (m', head')" "holds hash m' head' xs" "\<And>x. key_of m' x = key_of m x" "same_world m m'"
      "levels m' head' \<le> max 5 lv"
    using assms(1) by (auto simp: leaves_def same_world_def)
  then have "entries m' xs = entries m xs"
    by (simp add: entries_def)
  then show ?thesis
    using 1 assms(2) by (auto simp: represents_def)
qed

text \<open>What a step does of which the specification is \<open>s\<close>, and after which the table has at most level \<open>lv\<close>.\<close>

definition step_ok ::
  "(bytes \<Rightarrow> u32) \<Rightarrow> uh_mem \<Rightarrow> nat \<Rightarrow> (bytes \<times> nat) list \<times> 'b \<Rightarrow> ((uh_mem \<times> nat option) \<times> 'b) run option \<Rightarrow> bool" where
  "step_ok hash m lv s r \<longleftrightarrow> (\<exists>sz i. r = Some (Exited sz) \<and> \<not> grant m i sz \<and> sz \<le> 2 ^ (lv + 4)) \<or>
     (\<exists>m' head'. r = Some (Going ((m', head'), snd s)) \<and> represents hash m' head' (fst s) \<and> same_world m m' \<and> levels m' head' \<le> max 5 lv)"

lemma step_ok_mono: "step_ok hash m lv s r \<Longrightarrow> lv \<le> lv' \<Longrightarrow> step_ok hash m lv' s r"
proof -
  assume s: "step_ok hash m lv s r" and l: "lv \<le> lv'"
  have "(2 :: nat) ^ (lv + 4) \<le> 2 ^ (lv' + 4)"
    using l by (intro power_increasing) auto
  then show ?thesis
    using s l unfolding step_ok_def by (force intro: le_trans)
qed

context hash_function
begin

lemma add_step:
  assumes r: "represents hash m head vs" and a: "allowed (key_mem m) (dom (elems m)) (Add e n) vs"
  shows "step_ok hash m (Suc (levels m head)) (vs @ [(take n (the (key_mem m e)), e)], x) (and_then (HASH_ADD fcn m head n e) (\<lambda>s. Some (Going (s, x))))"
proof -
  let ?xs = "map snd vs" and ?K = "take n (the (key_mem m e))"
  have h: "holds hash m head ?xs" and vs: "vs = entries m ?xs" and dist: "distinct (map fst vs)"
    using r by (auto simp: represents_def)
  obtain k where k: "key_mem m e = Some k" "n \<le> length k" "n < 2 ^ 32"
    using a by auto
  have "added hash m (levels m head) ?xs e (take n k) (HASH_ADD fcn m head n e)"
    unfolding HASH_ADD_def by (rule HASH_ADD_KEYPTR_ok [OF h]) (use a k in auto)
  then consider (exited) sz i where "HASH_ADD fcn m head n e = Some (Exited sz)" "\<not> grant m i sz" "sz \<le> 2 ^ (levels m head + 5)"
    | (going) m' head' where "HASH_ADD fcn m head n e = Some (Going (m', head'))" "holds hash m' head' (?xs @ [e])"
        "key_of m' e = take n k" "\<And>x. x \<noteq> e \<Longrightarrow> key_of m' x = key_of m x" "same_world m m'"
        "levels m' head' \<le> Suc (levels m head)"
    unfolding added_def same_world_def by blast
  then show ?thesis
  proof cases
    case exited
    then show ?thesis
      by (auto simp: step_ok_def and_then_def add.commute)
  next
    case going
    have "entries m' ?xs = entries m ?xs"
      by (rule entries_cong, rule going(4)) (use a in auto)
    then have "entries m' ?xs = vs"
      using vs by simp
    then have e: "entries m' (?xs @ [e]) = vs @ [(?K, e)]"
      using going(3) k(1) by (simp add: entries_def)
    have "distinct (map fst (vs @ [(?K, e)]))"
      using dist a by auto
    then have "represents hash m' head' (vs @ [(?K, e)])"
      using going(2) e by (simp add: represents_def)
    then show ?thesis
      using going(1,5,6) by (simp add: step_ok_def and_then_def)
  qed
qed

lemma find_result:
  assumes "represents hash m head vs" and "n \<le> length k" and "n < 2 ^ 32"
  shows "HASH_FIND fcn m head k n = Some (map_of vs (take n k))"
proof -
  have h: "holds hash m head (map snd vs)" and vs: "vs = entries m (map snd vs)" and "distinct (map fst vs)"
    using assms(1) by (auto simp: represents_def)
  moreover have "map fst vs = map (key_of m) (map snd vs)"
    by (subst vs) (simp add: entries_def)
  ultimately have "HASH_FIND fcn m head k n = Some (find (\<lambda>x. key_of m x = take n k) (map snd vs))"
    using assms(2,3) by (intro HASH_FIND_ok) auto
  then show ?thesis
    using vs by (simp add: find_entries)
qed

end

lemma delete_result:
  assumes r: "represents hash m head vs" and e: "e \<in> snd ` set vs"
  shows "\<exists>m' head'. HASH_DELETE m head e = Some (m', head') \<and> represents hash m' head' (filter (\<lambda>(k, x). x \<noteq> e) vs) \<and> same_world m m' \<and>
    levels m' head' \<le> max 5 (levels m head)"
proof -
  have h: "holds hash m head (map snd vs)" and vs: "vs = entries m (map snd vs)" and dist: "distinct (map fst vs)"
    using r by (auto simp: represents_def)
  have "leaves hash m (levels m head) (remove1 e (map snd vs)) (HASH_DELETE m head e)"
    by (rule HASH_DELETE_ok [OF h]) (use e in auto)
  moreover have eq: "entries m (remove1 e (map snd vs)) = filter (\<lambda>(k, x). x \<noteq> e) vs"
    using entries_remove1 [OF holds_distinct [OF h]] vs by metis
  moreover have "distinct (map fst (filter (\<lambda>(k, x). x \<noteq> e) vs))"
    by (rule distinct_map_filter [OF dist])
  ultimately show ?thesis
    using represents_leaves by fastforce
qed

text \<open>Removing the element that has a key is removing the key.\<close>

lemma filter_key:
  assumes "distinct (map fst vs)" and "distinct (map snd vs)" and "map_of vs K = Some d"
  shows "filter (\<lambda>(k, x). x \<noteq> d) vs = filter (\<lambda>(k, x). k \<noteq> K) vs"
proof (rule filter_cong [OF refl])
  fix p assume p: "p \<in> set vs"
  have d: "(K, d) \<in> set vs"
    by (rule map_of_SomeD [OF assms(3)])
  have "snd p = d \<longleftrightarrow> fst p = K"
    using p d assms(1,2) by (metis distinct_map fst_conv inj_onD snd_conv)
  then show "(case p of (k, x) \<Rightarrow> x \<noteq> d) = (case p of (k, x) \<Rightarrow> k \<noteq> K)"
    by (auto simp: split_def)
qed

context hash_function
begin

lemma replace_step:
  assumes r: "represents hash m head vs" and a: "allowed (key_mem m) (dom (elems m)) (Replace e n) vs"
  shows "step_ok hash m (Suc (max 5 (levels m head))) (spec_step (key_mem m) (Replace e n) vs) (table_step fcn (Replace e n) m head)"
proof -
  obtain k where k: "key_mem m e = Some k" "n \<le> length k" "n < 2 ^ 32"
    using a by auto
  let ?vs = "filter (\<lambda>(k', x). k' \<noteq> take n k) vs"
  have "\<exists>m' head'. (case map_of vs (take n k) of None \<Rightarrow> Some (m, head) | Some d \<Rightarrow> HASH_DELETE m head d) = Some (m', head') \<and>
      represents hash m' head' ?vs \<and> same_world m m' \<and> levels m' head' \<le> max 5 (levels m head)"
  proof (cases "map_of vs (take n k)")
    case None
    then have "?vs = vs"
      by (force simp: map_of_eq_None_iff filter_id_conv)
    then show ?thesis
      using r None by (simp add: same_world_def)
  next
    case (Some d)
    have "distinct (map fst vs)" "distinct (map snd vs)"
      using r holds_distinct by (auto simp: represents_def)
    then have "filter (\<lambda>(k, x). x \<noteq> d) vs = ?vs"
      by (rule filter_key [OF _ _ Some])
    moreover have "d \<in> snd ` set vs"
      using map_of_SomeD [OF Some] by force
    ultimately show ?thesis
      using delete_result [OF r, of d] Some by simp
  qed
  then obtain m' head' where 1: "(case map_of vs (take n k) of None \<Rightarrow> Some (m, head) | Some d \<Rightarrow> HASH_DELETE m head d) = Some (m', head')"
      "represents hash m' head' ?vs" "same_world m m'" "levels m' head' \<le> max 5 (levels m head)"
    by blast
  have "length ?vs + 1 < 2 ^ 32"
  proof -
    have "length vs + 1 < 2 ^ 32"
      using a by simp
    then show ?thesis
      using length_filter_le [of "\<lambda>(k', x). k' \<noteq> take n k" vs] by linarith
  qed
  then have "allowed (key_mem m') (dom (elems m')) (Add e n) ?vs"
    using a 1(3) k by (auto simp: same_world_def)
  then have add: "step_ok hash m' (Suc (levels m' head')) (?vs @ [(take n k, e)], map_of vs (take n k))
      (and_then (HASH_ADD fcn m' head' n e) (\<lambda>s. Some (Going (s, map_of vs (take n k)))))"
    using add_step [OF 1(2), of e n "map_of vs (take n k)"] 1(3) k(1) by (simp add: same_world_def)
  have "table_step fcn (Replace e n) m head =
      (case HASH_ADD fcn m' head' n e of None \<Rightarrow> None | Some r \<Rightarrow> and_then (Some r) (\<lambda>s. Some (Going (s, map_of vs (take n k)))))"
    using find_result [OF r k(2,3)] 1(1) by (simp add: HASH_REPLACE_def k(1) split: option.split)
  also have "\<dots> = and_then (HASH_ADD fcn m' head' n e) (\<lambda>s. Some (Going (s, map_of vs (take n k))))"
    by (simp add: and_then_def split: option.split)
  finally show ?thesis
    using step_ok_mono [OF add, of "Suc (max 5 (levels m head))"] 1(3,4) k(1) by (auto simp: step_ok_def same_world_def)
qed

lemma table_step_ok:
  assumes r: "represents hash m head vs" and a: "allowed (key_mem m) (dom (elems m)) op vs"
  shows "step_ok hash m (Suc (max 5 (levels m head))) (spec_step (key_mem m) op vs) (table_step fcn op m head)"
proof (cases op)
  case (Add e n)
  then show ?thesis
    using step_ok_mono [OF add_step [OF r a [unfolded Add], of None], of "Suc (max 5 (levels m head))"] by simp
next
  case (Find k n)
  then show ?thesis
    using find_result [OF r, of n k] r a by (auto simp: step_ok_def same_world_def)
next
  case (Delete e)
  then show ?thesis
    using delete_result [OF r, of e] a by (auto simp: step_ok_def)
next
  case (Replace e n)
  then show ?thesis
    using replace_step [OF r] a by simp
next
  case Clear
  have "leaves hash m (levels m head) [] (HASH_CLEAR m head)"
    using r HASH_CLEAR_ok by (auto simp: represents_def)
  then obtain m' head' where "HASH_CLEAR m head = Some (m', head')" "represents hash m' head' []" "same_world m m'"
      "levels m' head' \<le> max 5 (levels m head)"
    using represents_leaves [of hash m "levels m head" "[]" "HASH_CLEAR m head"] by (auto simp: entries_def)
  then show ?thesis
    by (simp add: Clear step_ok_def)
qed

lemma table_run_ok:
  "represents hash m head vs \<Longrightarrow> all_allowed (key_mem m) (dom (elems m)) ops vs \<Longrightarrow>
   step_ok hash m (length ops + max 5 (levels m head)) (spec_run (key_mem m) ops vs) (table_run fcn ops m head)"
proof (induction ops arbitrary: m head vs)
  case Nil
  then show ?case
    by (simp add: step_ok_def same_world_def)
next
  case (Cons a as)
  let ?lv = "Suc (max 5 (levels m head))"
  obtain vs1 r1 where s1: "spec_step (key_mem m) a vs = (vs1, r1)"
    by fastforce
  obtain vs2 rs where s2: "spec_run (key_mem m) as vs1 = (vs2, rs)"
    by fastforce
  have step: "step_ok hash m ?lv (vs1, r1) (table_step fcn a m head)"
    using table_step_ok [OF Cons.prems(1), of a] Cons.prems(2) by (simp add: s1)
  consider (exited) sz where "table_step fcn a m head = Some (Exited sz)"
    | (going) m1 head1 where "table_step fcn a m head = Some (Going ((m1, head1), r1))" "represents hash m1 head1 vs1" "same_world m m1"
        "levels m1 head1 \<le> ?lv"
    using step by (auto simp: step_ok_def)
  then show ?case
  proof cases
    case exited
    then have "step_ok hash m (length (a # as) + max 5 (levels m head)) (vs1, r1) (table_step fcn a m head)"
      using step_ok_mono [OF step] by simp
    then show ?thesis
      using exited by (auto simp: step_ok_def and_then_def)
  next
    case going
    have "step_ok hash m1 (length as + max 5 (levels m1 head1)) (vs2, rs) (table_run fcn as m1 head1)"
      using Cons.IH [OF going(2)] Cons.prems(2) going(3) by (simp add: same_world_def s1 s2)
    then have "step_ok hash m1 (length (a # as) + max 5 (levels m head)) (vs2, rs) (table_run fcn as m1 head1)"
      using step_ok_mono going(4) by fastforce
    then show ?thesis
      using going by (auto simp: step_ok_def and_then_def s1 s2 same_world_def)
  qed
qed

lemma table_run_from_empty:
  assumes "bounded_heap m" and "all_allowed (key_mem m) (dom (elems m)) ops []"
  shows "(\<exists>sz i. table_run fcn ops m None = Some (Exited sz) \<and> \<not> grant m i sz \<and> sz \<le> 2 ^ (length ops + 9)) \<or>
    (\<exists>m' head'. table_run fcn ops m None = Some (Going ((m', head'), snd (spec_run (key_mem m) ops []))) \<and>
       HASH_ITER m' head' = Some (map snd (fst (spec_run (key_mem m) ops []))) \<and>
       HASH_CNT m' head' = Some (of_nat (length (fst (spec_run (key_mem m) ops [])))) \<and>
       HASH_FSCK m' head' = Some True)"
proof -
  have "represents hash m None []"
    using assms(1) holds_empty by (simp add: represents_def entries_def)
  then have "step_ok hash m (length ops + 5) (spec_run (key_mem m) ops []) (table_run fcn ops m None)"
    using table_run_ok [of m None "[]" ops] assms(2) by (simp add: levels_def)
  then consider (exited) sz i where "table_run fcn ops m None = Some (Exited sz)" "\<not> grant m i sz" "sz \<le> 2 ^ (length ops + 5 + 4)"
    | (going) m' head' where "table_run fcn ops m None = Some (Going ((m', head'), snd (spec_run (key_mem m) ops [])))"
        "holds hash m' head' (map snd (fst (spec_run (key_mem m) ops [])))"
    unfolding step_ok_def represents_def by blast
  then show ?thesis
  proof cases
    case exited
    then show ?thesis
      by (auto simp: add.commute)
  next
    case going
    then show ?thesis
      using walks_ok [OF going(2)] by simp
  qed
qed

end

text \<open>C9: The hash table of \<open>uthash.h\<close>, with any of the hash functions of the header, refines a list of keys with their elements in
  the order of insertion: from the empty table, every sequence of additions, lookups, removals, replacements and clearings within
  the macros' conditions of use runs without a fault and to an end, returns what the list returns, and leaves a table
  that is walked in the order of the list, counts its elements, and passes the header's own check of its integrity. The
  only other outcome is that the program is left because \<open>malloc\<close> refuses a request, of a size that is bounded in the number of
  operations. Blocks of 32 GiB are taken to be
  refused; see \<open>expand_size_wraps\<close>.\<close>

theorem hash_table_refines:
  assumes "fcn \<in> {HASH_FCN, HASH_JEN, HASH_BER, HASH_SAX, HASH_FNV, HASH_OAT, HASH_SFH}"
    and "bounded_heap m" and "all_allowed (key_mem m) (dom (elems m)) ops []"
  shows "(\<exists>sz i. table_run fcn ops m None = Some (Exited sz) \<and> \<not> grant m i sz \<and> sz \<le> 2 ^ (length ops + 9)) \<or>
    (\<exists>m' head'. table_run fcn ops m None = Some (Going ((m', head'), snd (spec_run (key_mem m) ops []))) \<and>
       HASH_ITER m' head' = Some (map snd (fst (spec_run (key_mem m) ops []))) \<and>
       HASH_CNT m' head' = Some (of_nat (length (fst (spec_run (key_mem m) ops [])))) \<and>
       HASH_FSCK m' head' = Some True)"
  using hash_function.table_run_from_empty [OF header_hash_function [OF assms(1)] assms(2,3)] .

text \<open>Three elements with keys of six bytes on a host that serves requests of up to 1 MiB.\<close>

definition blank_handle :: UT_hash_handle where
  "blank_handle = \<lparr>tbl = None, prev = None, nxt = None, hh_prev = None, hh_next = None, key = 0, keylen = 0, hashv = 0\<rparr>"

definition sample_memory :: uh_mem where
  "sample_memory = \<lparr>elems = [0 \<mapsto> blank_handle, 1 \<mapsto> blank_handle, 2 \<mapsto> blank_handle], tables = Map.empty,
     key_mem = [0 \<mapsto> [1, 2, 3, 4, 5, 6], 1 \<mapsto> [6, 5, 4, 3, 2, 1], 2 \<mapsto> [1, 2, 3, 4, 5, 6]], grant = (\<lambda>i sz. sz \<le> 2 ^ 20), asked = 0\<rparr>"

lemma hash_table_refines_witness:
  "\<exists>m' head'. table_run HASH_FCN [Add 0 6, Add 1 6, Find [6, 5, 4, 3, 2, 1] 6, Replace 2 6, Delete 1, Find [6, 5, 4, 3, 2, 1] 6]
       sample_memory None = Some (Going ((m', head'), [None, None, Some 1, Some 0, None, None])) \<and>
     HASH_ITER m' head' = Some [2] \<and> HASH_CNT m' head' = Some 1 \<and> HASH_FSCK m' head' = Some True"
proof -
  let ?ops = "[Add 0 6, Add 1 6, Find [6, 5, 4, 3, 2, 1] 6, Replace 2 6, Delete 1, Find [6, 5, 4, 3, 2, 1] 6]"
  have "bounded_heap sample_memory"
    by (auto simp: bounded_heap_def sample_memory_def)
  moreover have "all_allowed (key_mem sample_memory) (dom (elems sample_memory)) ?ops []"
    by (simp add: sample_memory_def)
  moreover have "spec_run (key_mem sample_memory) ?ops [] = ([([1, 2, 3, 4, 5, 6], 2)], [None, None, Some 1, Some 0, None, None])"
    by (simp add: sample_memory_def)
  ultimately show ?thesis
    using hash_table_refines [of HASH_FCN sample_memory ?ops] by (auto simp: sample_memory_def)
qed

text \<open>Without that bound the size wraps: doubling 2 ^ 31 buckets asks for no memory at all, and then writes the new buckets.\<close>

lemma expand_size_wraps:
  assumes "tables m t = Some T" and "num_buckets T = 2 ^ 31" and "\<not> grant m (asked m) 0"
  shows "HASH_EXPAND_BUCKETS m t = Some (Exited 0)"
  using assms by (simp add: HASH_EXPAND_BUCKETS_def uthash_malloc_def and_then_def)

end
