(* ===== verification/Scan_Table.thy ===== *)
theory Scan_Table
  imports Scan_Props Uthash_Props
begin

text \<open>
  The scanner on its hash table. \<open>Vehicle_Scan\<close> keeps the vehicles in a list with their addresses; here the same steps of
  \<open>scan\<close> in \<open>vehicle-scan.c\<close> work on the table of \<open>uthash.h\<close>: the state is the memory, the variable \<open>vehicles\<close>, and the members of the
  vehicles by their addresses, through which they are written. What the scanner prints is the same.
\<close>

section \<open>The steps on the table\<close>

type_synonym scan_state = "(uh_mem \<times> nat option) \<times> (nat \<rightharpoonup> vehicle_t)"

text \<open>What \<open>malloc\<close> returns: NULL, or an address with some contents of the handle and of \<open>scan_complete\<close>.\<close>

type_synonym vehicle_block = "(nat \<times> UT_hash_handle \<times> u8) option"

definition find_vehicle_at :: "hash_fcn \<Rightarrow> bytes \<Rightarrow> vehicle_block \<Rightarrow> scan_state \<Rightarrow> (nat \<times> scan_state) run option" where
  "find_vehicle_at fcn addr blk s = (case s of ((m, head), veh) \<Rightarrow> do {
     v \<leftarrow> Uthash.HASH_FIND fcn m head addr 6;
     (case v of
        Some e \<Rightarrow> Some (Going (e, s))
      | None \<Rightarrow> do {
          (e, handle, garbage) \<leftarrow> blk;
          let veh = veh(e \<mapsto> \<lparr>address = addr, v_adv = zero_adv, scan_complete = garbage\<rparr>);
          let m = m\<lparr>elems := (elems m)(e \<mapsto> handle), key_mem := (key_mem m)(e \<mapsto> addr)\<rparr>;
          and_then (Uthash.HASH_ADD fcn m head 6 e) (\<lambda>t. Some (Going (e, (t, veh))))
        })
   })"

definition show_vehicle_at :: "hash_fcn \<Rightarrow> le_advertising_info \<Rightarrow> vehicle_block \<Rightarrow> scan_state \<Rightarrow> (string \<times> scan_state) run option" where
  "show_vehicle_at fcn info blk s = and_then (find_vehicle_at fcn (bdaddr info) blk s) (\<lambda>(e, (t, veh)). do {
     v \<leftarrow> veh e;
     (err, a) \<leftarrow> anki_vehicle_parse_adv_record (Some (info_data info)) (unat (info_length info)) (Some (v_adv v));
     a \<leftarrow> a;
     let v = v\<lparr>v_adv := a\<rparr>;
     (if adv_complete err a \<and> scan_complete v = 0 then do {
        l \<leftarrow> vehicle_line (bdaddr info) a;
        Some (Going (l, (t, veh(e \<mapsto> v\<lparr>scan_complete := 1\<rparr>))))
      }
      else Some (Going ([], (t, veh(e \<mapsto> v)))))
   })"

text \<open>The reports that pass the filter, one after the other.\<close>

fun show_all_at :: "hash_fcn \<Rightarrow> (le_advertising_info \<times> vehicle_block) list \<Rightarrow> scan_state \<Rightarrow> (string list \<times> scan_state) run option" where
  "show_all_at fcn [] s = Some (Going ([], s))"
| "show_all_at fcn ((info, blk) # rs) s = and_then (show_vehicle_at fcn info blk s) (\<lambda>(l, s).
     and_then (show_all_at fcn rs s) (\<lambda>(ls, s). Some (Going (l # ls, s))))"

fun show_all :: "(le_advertising_info \<times> u8 option) list \<Rightarrow> vehicles \<Rightarrow> (string list \<times> vehicles) option" where
  "show_all [] vs = Some ([], vs)"
| "show_all ((info, mem) # rs) vs = do {
     (l, vs) \<leftarrow> show_vehicle info mem vs;
     (ls, vs) \<leftarrow> show_all rs vs;
     Some (l # ls, vs)
   }"

section \<open>The two states\<close>

definition vehicles_of :: "(nat \<rightharpoonup> vehicle_t) \<Rightarrow> (bytes \<times> nat) list \<Rightarrow> vehicles" where
  "vehicles_of veh es = map (\<lambda>(k, e). (k, the (veh e))) es"

definition same_vehicles :: "(bytes \<Rightarrow> u32) \<Rightarrow> scan_state \<Rightarrow> vehicles \<Rightarrow> bool" where
  "same_vehicles hash s vs \<longleftrightarrow> (case s of ((m, head), veh) \<Rightarrow> \<exists>es. represents hash m head es \<and> vs = vehicles_of veh es \<and>
     (\<forall>(k, e)\<in>set es. \<exists>v. veh e = Some v \<and> address v = k))"

lemma map_of_vehicles: "map_of (vehicles_of veh es) k = map_option (\<lambda>e. the (veh e)) (map_of es k)"
  by (induction es) (auto simp: vehicles_of_def)

lemma put_vehicles:
  assumes "distinct (map fst es)" and "distinct (map snd es)" and "map_of es k = Some e" and "address v = k"
  shows "put_vehicle v (vehicles_of veh es) = vehicles_of (veh(e \<mapsto> v)) es"
proof -
  have "(if k' = k then (k', v) else (k', the (veh e'))) = (k', the ((veh(e \<mapsto> v)) e'))" if p: "(k', e') \<in> set es" for k' e'
  proof -
    have "(k, e) \<in> set es"
      by (rule map_of_SomeD [OF assms(3)])
    then have "k' = k \<longleftrightarrow> e' = e"
      using p assms(1,2) by (metis distinct_map fst_conv inj_onD snd_conv)
    then show ?thesis
      by simp
  qed
  then show ?thesis
    using assms(4) by (auto simp: put_vehicle_def vehicles_of_def)
qed

lemma represents_live: "represents hash m head es \<Longrightarrow> x \<in> snd ` set es \<Longrightarrow> x \<in> dom (elems m)"
proof -
  assume r: "represents hash m head es" and x: "x \<in> snd ` set es"
  then obtain p where p: "head = Some p"
    by (cases head) (auto simp: represents_def holds_def)
  then obtain t bks where "table_inv hash m t (map snd es) (set (map snd es)) bks"
    using r by (auto simp: represents_def holds_def)
  then have "\<forall>x\<in>set (map snd es). elem_ok hash m t x"
    by (simp add: table_inv_def)
  then show ?thesis
    using x by (auto simp: elem_ok_def)
qed

lemma levels_new:
  assumes "represents hash m head es" and "e \<notin> dom (elems m)"
  shows "levels (m\<lparr>elems := (elems m)(e \<mapsto> h), key_mem := ks\<rparr>) head = levels m head"
proof (cases head)
  case (Some p)
  then have "p \<in> snd ` set es"
    using assms(1) hd_in_set [of "map snd es"] by (auto simp: represents_def holds_def simp del: hd_in_set)
  then have "p \<noteq> e"
    using represents_live [OF assms(1)] assms(2) by blast
  then show ?thesis
    by (simp add: Some levels_def tbl_of_def)
qed (simp add: levels_def)

text \<open>A new object in memory does not change a table.\<close>

lemma represents_new:
  assumes r: "represents hash m head es" and e: "e \<notin> dom (elems m)" "e \<notin> dom (key_mem m)"
    and m': "m' = m\<lparr>elems := (elems m)(e \<mapsto> h), key_mem := (key_mem m)(e \<mapsto> k)\<rparr>"
  shows "represents hash m' head es"
proof -
  let ?xs = "map snd es"
  have h: "holds hash m head ?xs" and es: "es = entries m ?xs" and dist: "distinct (map fst es)"
    using r by (auto simp: represents_def)
  have key: "key_of m' x = key_of m x" and ok: "elem_ok hash m' t x" if "elem_ok hash m t x" for t x
  proof -
    have "x \<noteq> e"
      using that e(1) by (auto simp: elem_ok_def)
    moreover have "key g \<noteq> e" if "elems m x = Some g" for g
      using \<open>elem_ok hash m t x\<close> that e(2) by (auto simp: elem_ok_def)
    ultimately show 1: "key_of m' x = key_of m x"
      using that by (auto simp: key_of_def m' elem_ok_def)
    show "elem_ok hash m' t x"
      using that 1 \<open>x \<noteq> e\<close> \<open>\<And>g. elems m x = Some g \<Longrightarrow> key g \<noteq> e\<close> by (auto simp: elem_ok_def m')
  qed
  show ?thesis
  proof (cases head)
    case None
    then show ?thesis
      using r by (simp add: represents_def holds_def entries_def bounded_heap_def m')
  next
    case (Some p)
    then obtain t bks where inv: "table_inv hash m t ?xs (set ?xs) bks" and p: "p = hd ?xs"
      using h by (auto simp: holds_def)
    then have oks: "elem_ok hash m t x" if "x \<in> set ?xs" for x
      using that by (auto simp: table_inv_def)
    then have ne: "e \<notin> set ?xs"
      using e(1) by (auto simp: elem_ok_def)
    obtain T where T: "tables m t = Some T" "geometry T" "num_items T = of_nat (length ?xs)" "tail T = Some (last ?xs)"
        and b: "buckets_ok (\<lambda>x. hash (key_of m x)) (elems m) (num_buckets T) (set ?xs) (buckets T) bks"
      using inv by (auto simp: table_inv_def)
    have same: "same_on (set ?xs) f (elems m) (elems m')" for f :: "UT_hash_handle \<Rightarrow> 'c"
      using ne by (auto simp: same_on_def m')
    have "buckets_ok (\<lambda>x. hash (key_of m x)) (elems m') (num_buckets T) (set ?xs) (buckets T) bks"
      by (rule buckets_ok_same [OF same b])
    then have "buckets_ok (\<lambda>x. hash (key_of m' x)) (elems m') (num_buckets T) (set ?xs) (buckets T) bks"
      using buckets_ok_cong [of "set ?xs" "\<lambda>x. hash (key_of m' x)" "\<lambda>x. hash (key_of m x)"] key [OF oks] by simp
    moreover have "seg nxt prev (elems m') None (Some (hd ?xs)) ?xs None"
      by (rule seg_same [OF same]) (use inv in \<open>simp add: table_inv_def\<close>)
    moreover have "tables m' t = Some T"
      by (simp add: m' T(1))
    ultimately have "table_inv hash m' t ?xs (set ?xs) bks"
      using inv T ok [OF oks] unfolding table_inv_def by blast
    then have "holds hash m' head ?xs"
      unfolding Some p by (rule holds_Some) (use h in \<open>simp add: holds_def bounded_heap_def m'\<close>)
    moreover have "entries m' ?xs = entries m ?xs"
      by (rule entries_cong) (use key [OF oks] in blast)
    ultimately show ?thesis
      using es dist by (simp add: represents_def)
  qed
qed

lemma represents_distinct: "represents hash m head es \<Longrightarrow> distinct (map fst es) \<and> distinct (map snd es)"
  using holds_distinct by (auto simp: represents_def)

lemma put_same:
  assumes r: "represents hash m head es" and mem: "\<forall>(k, e)\<in>set es. \<exists>v. veh e = Some v \<and> address v = k"
    and k: "map_of es k = Some e" "address w = k"
  shows "same_vehicles hash ((m, head), veh(e \<mapsto> w)) (put_vehicle w (vehicles_of veh es))"
proof -
  have dist: "distinct (map fst es)" "distinct (map snd es)"
    using represents_distinct [OF r] by auto
  have "\<exists>v. (veh(e \<mapsto> w)) x = Some v \<and> address v = k'" if "(k', x) \<in> set es" for k' x
  proof (cases "x = e")
    case True
    then have "k' = k"
      using that map_of_SomeD [OF k(1)] dist(2) by (metis distinct_map fst_conv inj_onD snd_conv)
    then show ?thesis
      using True k(2) by simp
  next
    case False
    then show ?thesis
      using mem that by auto
  qed
  then have "\<forall>(k, x)\<in>set es. \<exists>v. (veh(e \<mapsto> w)) x = Some v \<and> address v = k"
    by fast
  then show ?thesis
    using r put_vehicles [OF dist k, of veh] unfolding same_vehicles_def prod.case by blast
qed

section \<open>Step by step\<close>

text \<open>What a step on the table does when the step on the list ends with \<open>(x, vs)\<close>: the program is left because a request for
  memory is refused, or the results agree. \<open>lv\<close> is the level of the table before, \<open>new\<close> are the objects that may be new.\<close>

definition agrees :: "(bytes \<Rightarrow> u32) \<Rightarrow> uh_mem \<Rightarrow> nat \<Rightarrow> nat set \<Rightarrow> vehicles \<Rightarrow> ('b \<Rightarrow> scan_state \<Rightarrow> bool) \<Rightarrow> ('b \<times> scan_state) run option \<Rightarrow> bool" where
  "agrees hash m lv new vs P r \<longleftrightarrow> (\<exists>sz i. r = Some (Exited sz) \<and> \<not> grant m i sz \<and> sz \<le> 2 ^ (lv + 5)) \<or>
     (\<exists>y m' head' veh'. r = Some (Going (y, ((m', head'), veh'))) \<and> same_vehicles hash ((m', head'), veh') vs \<and>
        P y ((m', head'), veh') \<and> grant m' = grant m \<and> dom (elems m') \<subseteq> dom (elems m) \<union> new \<and>
        dom (key_mem m') \<subseteq> dom (key_mem m) \<union> new \<and> levels m' head' \<le> Suc (max 5 lv))"

definition block_of :: "vehicle_block \<Rightarrow> nat set" where
  "block_of blk = (case blk of None \<Rightarrow> {} | Some (e, _) \<Rightarrow> {e})"

definition garbage_of :: "vehicle_block \<Rightarrow> u8 option" where
  "garbage_of blk = map_option (snd \<circ> snd) blk"

context hash_function
begin

lemma find_vehicle_agrees:
  assumes s: "same_vehicles hash ((m, head), veh) vs" and new: "block_of blk \<inter> (dom (elems m) \<union> dom (key_mem m)) = {}"
    and addr: "length addr = 6" and n: "length vs + 1 < 2 ^ 32"
    and f: "find_vehicle addr (garbage_of blk) vs = Some (v, vs')"
  shows "agrees hash m (max 5 (levels m head)) (block_of blk) vs'
    (\<lambda>e ((m', head'), veh'). veh' e = Some v \<and> address v = addr \<and> (\<exists>es. represents hash m' head' es \<and>
      vs' = vehicles_of veh' es \<and> map_of es addr = Some e \<and> (\<forall>(k, e)\<in>set es. \<exists>v. veh' e = Some v \<and> address v = k)))
    (find_vehicle_at fcn addr blk ((m, head), veh))"
proof -
  obtain es where es: "represents hash m head es" "vs = vehicles_of veh es" "\<And>k e. (k, e) \<in> set es \<Longrightarrow> \<exists>v. veh e = Some v \<and> address v = k"
    using s by (fastforce simp: same_vehicles_def)
  have find: "Uthash.HASH_FIND fcn m head addr 6 = Some (map_of es addr)"
    using find_result [OF es(1), of 6 addr] addr by simp
  show ?thesis
  proof (cases "map_of es addr")
    case (Some e)
    then obtain w where "veh e = Some w" "address w = addr"
      using es(3) map_of_SomeD [OF Some] by blast
    moreover from this have "v = w" "vs' = vs"
      using f Some by (auto simp: find_vehicle_def Vehicle_Scan.HASH_FIND_def es(2) map_of_vehicles)
    moreover have "\<forall>(k, e)\<in>set es. \<exists>v. veh e = Some v \<and> address v = k"
      using es(3) by fast
    ultimately show ?thesis
      using find Some s es(1,2) by (auto simp: agrees_def find_vehicle_at_def)
  next
    case None
    obtain e h g where blk: "blk = Some (e, h, g)"
      using f None by (cases blk) (auto simp: find_vehicle_def Vehicle_Scan.HASH_FIND_def es(2) map_of_vehicles garbage_of_def)
    let ?v = "\<lparr>address = addr, v_adv = zero_adv, scan_complete = g\<rparr>"
    have v: "v = ?v" "vs' = vs @ [(addr, ?v)]"
      using f None by (auto simp: find_vehicle_def Vehicle_Scan.HASH_FIND_def Vehicle_Scan.HASH_ADD_def es(2) map_of_vehicles
        garbage_of_def blk Let_def)
    let ?m = "m\<lparr>elems := (elems m)(e \<mapsto> h), key_mem := (key_mem m)(e \<mapsto> addr)\<rparr>"
    let ?veh = "veh(e \<mapsto> ?v)"
    have ne: "e \<notin> dom (elems m)" "e \<notin> dom (key_mem m)"
      using new by (auto simp: blk block_of_def)
    have lv: "levels ?m head = levels m head"
      using levels_new [OF es(1) ne(1)] .
    have r: "represents hash ?m head es"
      by (rule represents_new [OF es(1) ne refl])
    have live: "e \<notin> snd ` set es"
      using represents_live [OF es(1)] ne by blast
    have "allowed (key_mem ?m) (dom (elems ?m)) (Add e 6) es"
      using live None addr n by (auto simp: es(2) vehicles_of_def map_of_eq_None_iff)
    then have "step_ok hash ?m (Suc (levels ?m head)) (es @ [(addr, e)], ())
        (and_then (Uthash.HASH_ADD fcn ?m head 6 e) (\<lambda>s. Some (Going (s, ()))))"
      using add_step [OF r, of e 6 "()"] addr by simp
    then consider (exited) sz i where "Uthash.HASH_ADD fcn ?m head 6 e = Some (Exited sz)" "\<not> grant m i sz"
          "sz \<le> 2 ^ (levels m head + 5)"
      | (going) m' head' where "Uthash.HASH_ADD fcn ?m head 6 e = Some (Going (m', head'))"
          "represents hash m' head' (es @ [(addr, e)])" "same_world ?m m'"
          "levels m' head' \<le> max 5 (Suc (levels m head))"
      unfolding lv by (auto simp: step_ok_def and_then_def add.commute split: option.splits run.splits)
    then show ?thesis
    proof cases
      case exited
      have "(2 :: nat) ^ (levels m head + 5) \<le> 2 ^ (max 5 (levels m head) + 5)"
        by (intro power_increasing) auto
      then have "sz \<le> 2 ^ (max 5 (levels m head) + 5)"
        using exited(3) by linarith
      then show ?thesis
        using find None exited by (auto simp: agrees_def find_vehicle_at_def blk Let_def and_then_def)
    next
      case going
      have "(\<lambda>(k, x). (k, the (?veh x))) p = (\<lambda>(k, x). (k, the (veh x))) p" if "p \<in> set es" for p
        using live that by (cases p) force
      then have vs': "vs' = vehicles_of ?veh (es @ [(addr, e)])"
        by (simp add: v es(2) vehicles_of_def)
      have mem: "\<forall>(k, x)\<in>set (es @ [(addr, e)]). \<exists>w. ?veh x = Some w \<and> address w = k"
        using es(3) live by (fastforce simp: image_iff)
      have at: "map_of (es @ [(addr, e)]) addr = Some e" "?veh e = Some v" "address v = addr"
        using None v(1) by (simp_all add: map_add_def)
      have run: "find_vehicle_at fcn addr blk ((m, head), veh) = Some (Going (e, ((m', head'), ?veh)))"
        using find None going(1) by (simp add: find_vehicle_at_def blk Let_def and_then_def)
      have same: "same_vehicles hash ((m', head'), ?veh) vs'"
        unfolding same_vehicles_def prod.case using going(2) vs' mem by blast
      have world: "grant m' = grant m" "dom (elems m') \<subseteq> dom (elems m) \<union> block_of blk"
          "dom (key_mem m') \<subseteq> dom (key_mem m) \<union> block_of blk" "levels m' head' \<le> Suc (max 5 (max 5 (levels m head)))"
        using going(3,4) by (auto simp: same_world_def block_of_def blk)
      show ?thesis
        unfolding agrees_def prod.case using run same world going(2) vs' mem at by blast
    qed
  qed
qed

lemma show_vehicle_agrees:
  assumes s: "same_vehicles hash ((m, head), veh) vs" and new: "block_of blk \<inter> (dom (elems m) \<union> dom (key_mem m)) = {}"
    and addr: "length (bdaddr info) = 6" and n: "length vs + 1 < 2 ^ 32"
    and f: "show_vehicle info (garbage_of blk) vs = Some (l, vs')"
  shows "agrees hash m (max 5 (levels m head)) (block_of blk) vs' (\<lambda>y _. y = l) (show_vehicle_at fcn info blk ((m, head), veh))"
proof -
  obtain v vs1 err a where 1: "find_vehicle (bdaddr info) (garbage_of blk) vs = Some (v, vs1)"
      "anki_vehicle_parse_adv_record (Some (info_data info)) (unat (info_length info)) (Some (v_adv v)) = Some (err, Some a)"
    using f by (auto simp: show_vehicle_def bind_eq_Some_conv)
  consider (exited) sz i where "find_vehicle_at fcn (bdaddr info) blk ((m, head), veh) = Some (Exited sz)" "\<not> grant m i sz"
        "sz \<le> 2 ^ (max 5 (levels m head) + 5)"
    | (going) e m' head' veh' es where "find_vehicle_at fcn (bdaddr info) blk ((m, head), veh) = Some (Going (e, ((m', head'), veh')))"
        "veh' e = Some v" "address v = bdaddr info" "represents hash m' head' es" "vs1 = vehicles_of veh' es"
        "map_of es (bdaddr info) = Some e" "\<forall>(k, e)\<in>set es. \<exists>v. veh' e = Some v \<and> address v = k"
        "grant m' = grant m" "dom (elems m') \<subseteq> dom (elems m) \<union> block_of blk" "dom (key_mem m') \<subseteq> dom (key_mem m) \<union> block_of blk"
        "levels m' head' \<le> Suc (max 5 (max 5 (levels m head)))"
    using find_vehicle_agrees [OF s new addr n 1(1)] unfolding agrees_def prod.case by blast
  then show ?thesis
  proof cases
    case exited
    then show ?thesis
      by (auto simp: agrees_def show_vehicle_at_def and_then_def)
  next
    case going
    define w where "w = (if adv_complete err a \<and> scan_complete v = 0 then v\<lparr>v_adv := a, scan_complete := 1\<rparr> else v\<lparr>v_adv := a\<rparr>)"
    have "vs' = put_vehicle w vs1"
      using f 1 by (auto simp: show_vehicle_def bind_eq_Some_conv Let_def w_def split: if_splits)
    moreover have "address w = bdaddr info"
      using going(3) by (simp add: w_def)
    ultimately have "same_vehicles hash ((m', head'), veh'(e \<mapsto> w)) vs'"
      using put_same [OF going(4,7,6)] going(5) by simp
    moreover have "show_vehicle_at fcn info blk ((m, head), veh) = Some (Going (l, ((m', head'), veh'(e \<mapsto> w))))"
      using f 1 going(1,2) by (auto simp: show_vehicle_def show_vehicle_at_def bind_eq_Some_conv Let_def w_def and_then_def split: if_splits)
    ultimately show ?thesis
      using going(8-11) by (simp add: agrees_def)
  qed
qed

text \<open>The new objects of a run.\<close>

lemma show_all_agrees:
  "same_vehicles hash ((m, head), veh) vs \<Longrightarrow>
   (\<Union>(_, blk)\<in>set rs. block_of blk) \<inter> (dom (elems m) \<union> dom (key_mem m)) = {} \<Longrightarrow>
   distinct (concat (map (\<lambda>(_, blk). case blk of None \<Rightarrow> [] | Some (e, _) \<Rightarrow> [e]) rs)) \<Longrightarrow>
   (\<forall>(info, _)\<in>set rs. length (bdaddr info) = 6) \<Longrightarrow> length vs + length rs < 2 ^ 32 \<Longrightarrow>
   show_all (map (\<lambda>(info, blk). (info, garbage_of blk)) rs) vs = Some (ls, vs') \<Longrightarrow>
   (\<exists>sz i. show_all_at fcn rs ((m, head), veh) = Some (Exited sz) \<and> \<not> grant m i sz \<and>
      sz \<le> 2 ^ (length rs + max 5 (levels m head) + 4)) \<or>
   (\<exists>s. show_all_at fcn rs ((m, head), veh) = Some (Going (ls, s)) \<and> same_vehicles hash s vs')"
proof (induction rs arbitrary: m head veh vs ls)
  case Nil
  then show ?case
    by simp
next
  case (Cons r rs)
  obtain info blk where r: "r = (info, blk)"
    by fastforce
  obtain l vs1 ls1 where f: "show_vehicle info (garbage_of blk) vs = Some (l, vs1)"
      "show_all (map (\<lambda>(info, blk). (info, garbage_of blk)) rs) vs1 = Some (ls1, vs')" "ls = l # ls1"
    using Cons.prems(6) by (auto simp: r bind_eq_Some_conv)
  have new: "block_of blk \<inter> (dom (elems m) \<union> dom (key_mem m)) = {}"
    using Cons.prems(2) by (auto simp: r)
  have len: "length vs1 \<le> Suc (length vs)"
    using f(1) by (auto simp: show_vehicle_def find_vehicle_def Vehicle_Scan.HASH_ADD_def put_vehicle_def bind_eq_Some_conv Let_def
      split: option.splits if_splits)
  consider (exited) sz i where "show_vehicle_at fcn info blk ((m, head), veh) = Some (Exited sz)" "\<not> grant m i sz"
        "sz \<le> 2 ^ (max 5 (levels m head) + 5)"
    | (going) m' head' veh' where "show_vehicle_at fcn info blk ((m, head), veh) = Some (Going (l, ((m', head'), veh')))"
        "same_vehicles hash ((m', head'), veh') vs1" "grant m' = grant m"
        "dom (elems m') \<subseteq> dom (elems m) \<union> block_of blk" "dom (key_mem m') \<subseteq> dom (key_mem m) \<union> block_of blk"
        "levels m' head' \<le> Suc (max 5 (levels m head))"
    using show_vehicle_agrees [OF Cons.prems(1) new _ _ f(1)] Cons.prems(4,5) unfolding agrees_def r by fastforce
  then show ?case
  proof cases
    case exited
    have "(2 :: nat) ^ (max 5 (levels m head) + 5) \<le> 2 ^ (length (r # rs) + max 5 (levels m head) + 4)"
      by (intro power_increasing) auto
    then have "sz \<le> 2 ^ (length (r # rs) + max 5 (levels m head) + 4)"
      using exited(3) by linarith
    then show ?thesis
      using exited(1,2) by (auto simp: r and_then_def)
  next
    case going
    have "block_of blk \<inter> (\<Union>(_, blk)\<in>set rs. block_of blk) = {}"
      using Cons.prems(3) by (fastforce simp: r block_of_def split: option.splits prod.splits)
    then have "(\<Union>(_, blk)\<in>set rs. block_of blk) \<inter> (dom (elems m') \<union> dom (key_mem m')) = {}"
      using Cons.prems(2) going(4,5) by (fastforce simp: r)
    then have IH: "(\<exists>sz i. show_all_at fcn rs ((m', head'), veh') = Some (Exited sz) \<and> \<not> grant m' i sz \<and>
          sz \<le> 2 ^ (length rs + max 5 (levels m' head') + 4)) \<or>
        (\<exists>s. show_all_at fcn rs ((m', head'), veh') = Some (Going (ls1, s)) \<and> same_vehicles hash s vs')"
      using Cons.IH [OF going(2) _ _ _ _ f(2)] Cons.prems(3,4,5) len by (simp add: r)
    have "(2 :: nat) ^ (length rs + max 5 (levels m' head') + 4) \<le> 2 ^ (length (r # rs) + max 5 (levels m head) + 4)"
      using going(6) by (intro power_increasing) auto
    then show ?thesis
      using IH going(1,3) f(3) le_trans by (fastforce simp: r and_then_def)
  qed
qed

end

text \<open>C17: The scanner prints the same with the hash table of \<open>uthash.h\<close> as with a list of vehicles: for every sequence of reports
  that the list handles without a fault, and every placement of the new vehicles in memory, the steps on the table print the
  same lines, and afterwards the table and the members of the vehicles that it refers to are the list, in its order. The only other
  outcome is that the program is left because \<open>malloc\<close> refuses memory for the table, of a size bounded in the number of reports.\<close>

theorem scanner_on_hash_table:
  assumes "bounded_heap m"
    and "(\<Union>(_, blk)\<in>set rs. block_of blk) \<inter> (dom (elems m) \<union> dom (key_mem m)) = {}"
    and "distinct (concat (map (\<lambda>(_, blk). case blk of None \<Rightarrow> [] | Some (e, _) \<Rightarrow> [e]) rs))"
    and "\<forall>(info, _)\<in>set rs. length (bdaddr info) = 6" and "length rs < 2 ^ 32"
    and "show_all (map (\<lambda>(info, blk). (info, garbage_of blk)) rs) [] = Some (ls, vs)"
  shows "(\<exists>sz i. show_all_at HASH_FCN rs ((m, None), Map.empty) = Some (Exited sz) \<and> \<not> grant m i sz \<and> sz \<le> 2 ^ (length rs + 9)) \<or>
    (\<exists>s. show_all_at HASH_FCN rs ((m, None), Map.empty) = Some (Going (ls, s)) \<and> same_vehicles (hash_of HASH_FCN) s vs)"
proof -
  have "same_vehicles (hash_of HASH_FCN) ((m, None), Map.empty) []"
    using assms(1) holds_empty by (simp add: same_vehicles_def represents_def entries_def vehicles_of_def)
  then show ?thesis
    using default_fcn.show_all_agrees [of m None Map.empty "[]" rs ls vs] assms(2-) by (simp add: levels_def add.commute)
qed

text \<open>The two packets of a vehicle, on a host that serves requests of up to 1 MiB.\<close>

lemma scanner_on_hash_table_witness:
  "\<exists>s vs. show_all_at HASH_FCN [(info_of (sample_adverts ! 0) [], Some (100, blank_handle, 0)),
       (info_of (sample_adverts ! 1) [], Some (101, blank_handle, 0))] ((sample_memory, None), Map.empty) =
     Some (Going ([[], ''06:05:04:03:02:01 AA3 TOMMY [v2120] (Kourai 0aa3)'' @ LF], s)) \<and> same_vehicles (hash_of HASH_FCN) s vs"
proof -
  let ?e0 = "sample_adverts ! 0" and ?e1 = "sample_adverts ! 1"
  let ?rs = "[(info_of ?e0 [], Some (100, blank_handle, 0)), (info_of ?e1 [], Some (101, blank_handle, 0))]"
  have good: "list_all good_advert ([] @ [?e0])" "list_all good_advert ([?e0] @ [?e1])"
    using sample_adverts_good by (simp_all add: sample_adverts_def)
  have acc: "accepts (CHR 0x00) (snd ?e0)" "accepts (CHR 0x00) (snd ?e1)"
    by (simp_all add: accepts_def)
  obtain vs1 where 1: "show_vehicle (info_of ?e0 []) (Some 0) [] = Some (printed_for (CHR 0x00) [] ?e0, vs1)"
      "table_of 0 (CHR 0x00) [?e0] vs1"
    using show_step [where g = 0 and rest = "[]", OF table_start good(1) acc(1)] by auto
  obtain vs where 2: "show_vehicle (info_of ?e1 []) (Some 0) vs1 = Some (printed_for (CHR 0x00) [?e0] ?e1, vs)"
    using show_step [where rest = "[]", OF 1(2) good(2) acc(2)] by auto
  have "show_all (map (\<lambda>(info, blk). (info, garbage_of blk)) ?rs) [] =
      Some ([[], ''06:05:04:03:02:01 AA3 TOMMY [v2120] (Kourai 0aa3)'' @ LF], vs)"
    using 1(1) 2 unfolding sample_printed by (simp add: garbage_of_def)
  moreover have "bounded_heap sample_memory"
    by (auto simp: bounded_heap_def sample_memory_def)
  moreover have "\<forall>(info, _)\<in>set ?rs. length (bdaddr info) = 6"
    by (simp add: info_of_def sample_adverts_def)
  ultimately show ?thesis
    using scanner_on_hash_table [of sample_memory ?rs] by (auto simp: sample_memory_def block_of_def)
qed

end
