(* ===== verification/Uthash_Sort.thy ===== *)
theory Uthash_Sort
  imports Uthash_Props "HOL-Library.Multiset"
begin

text \<open>
  \<open>HASH_SORT\<close> of \<open>uthash.h\<close>: a merge sort from the bottom up that relinks the application order of a table in place. It is
  modelled at the level of the pointers, as the rest of the table, and shown to put the elements of every table into the order
  of a stable sort. The comparison is an argument: it reads the data of the elements, which the sort does not touch. The check
  \<open>HASH_FSCK\<close> at its end is empty in a program without \<open>HASH_DEBUG\<close>.
\<close>

section \<open>The macro\<close>

type_synonym cmpfcn = "nat \<Rightarrow> nat \<Rightarrow> int"

text \<open>The handle behind another.\<close>

definition hh_after :: "uh_mem \<Rightarrow> nat \<Rightarrow> nat option option" where
  "hh_after m x = map_option nxt (elems m x)"

text \<open>The \<open>for\<close> loop that steps over the first run: \<open>n\<close> steps are left, from \<open>q\<close>.\<close>

fun sort_skip :: "uh_mem \<Rightarrow> nat \<Rightarrow> nat option \<Rightarrow> u32 \<Rightarrow> (nat option \<times> u32) option" where
  "sort_skip m 0 q psize = Some (q, psize)"
| "sort_skip m (Suc n) q psize = do {
     x \<leftarrow> q;
     q \<leftarrow> hh_after m x;
     (if q = None then Some (q, psize + 1) else sort_skip m n q (psize + 1))
   }"

text \<open>Which handle comes next: it, and the rest of both runs.\<close>

definition sort_take ::
  "cmpfcn \<Rightarrow> uh_mem \<Rightarrow> nat option \<Rightarrow> nat option \<Rightarrow> u32 \<Rightarrow> u32 \<Rightarrow> (nat option \<times> nat option \<times> nat option \<times> u32 \<times> u32) option" where
  "sort_take cmp m p q psize qsize =
     (if psize = 0 then do { y \<leftarrow> q; q' \<leftarrow> hh_after m y; Some (q, p, q', psize, qsize - 1) }
      else if qsize = 0 \<or> q = None then
        (case p of
           None \<Rightarrow> Some (p, p, q, psize - 1, qsize)
         | Some x \<Rightarrow> do { p' \<leftarrow> hh_after m x; Some (p, p', q, psize - 1, qsize) })
      else do {
        x \<leftarrow> p;
        y \<leftarrow> q;
        (if cmp x y \<le> 0 then do { p' \<leftarrow> hh_after m x; Some (p, p', q, psize - 1, qsize) }
         else do { q' \<leftarrow> hh_after m y; Some (q, p, q', psize, qsize - 1) })
      })"

text \<open>The handle \<open>e\<close> is linked behind the last one of the new list: memory, list and last handle.\<close>

definition sort_link :: "uh_mem \<Rightarrow> nat option \<Rightarrow> nat option \<Rightarrow> nat option \<Rightarrow> (uh_mem \<times> nat option \<times> nat option) option" where
  "sort_link m e l tp = do {
     (m, l) \<leftarrow> (case tp of
         Some t \<Rightarrow> do { m \<leftarrow> upd_hh t (\<lambda>h. h\<lparr>nxt := e\<rparr>) m; Some (m, l) }
       | None \<Rightarrow> Some (m, e));
     m \<leftarrow> (case e of Some x \<Rightarrow> upd_hh x (\<lambda>h. h\<lparr>prev := tp\<rparr>) m | None \<Rightarrow> Some m);
     Some (m, l, e)
   }"

text \<open>The inner loop merges two runs; the rest behind them is returned beside the new list.\<close>

partial_function (option) sort_merge ::
  "cmpfcn \<Rightarrow> uh_mem \<Rightarrow> nat option \<Rightarrow> nat option \<Rightarrow> u32 \<Rightarrow> u32 \<Rightarrow> nat option \<Rightarrow> nat option \<Rightarrow>
     (uh_mem \<times> nat option \<times> nat option \<times> nat option) option" where
  "sort_merge cmp m p q psize qsize l tp =
     (if psize > 0 \<or> (qsize > 0 \<and> q \<noteq> None) then do {
        (e, p, q, psize, qsize) \<leftarrow> sort_take cmp m p q psize qsize;
        (m, l, tp) \<leftarrow> sort_link m e l tp;
        sort_merge cmp m p q psize qsize l tp
      }
      else Some (m, q, l, tp))"

text \<open>The loop over the pairs of runs: memory, list, last handle and number of merges.\<close>

partial_function (option) sort_pass ::
  "cmpfcn \<Rightarrow> u32 \<Rightarrow> uh_mem \<Rightarrow> nat option \<Rightarrow> nat option \<Rightarrow> nat option \<Rightarrow> u32 \<Rightarrow> (uh_mem \<times> nat option \<times> nat option \<times> u32) option" where
  "sort_pass cmp insize m p l tp nmerges =
     (if p \<noteq> None then do {
        (q, psize) \<leftarrow> sort_skip m (unat insize) p 0;
        (m, p, l, tp) \<leftarrow> sort_merge cmp m p q psize insize l tp;
        sort_pass cmp insize m p l tp (nmerges + 1)
      }
      else Some (m, l, tp, nmerges))"

text \<open>The outer loop, whose runs double in size.\<close>

partial_function (option) sort_passes ::
  "cmpfcn \<Rightarrow> nat \<Rightarrow> uh_mem \<Rightarrow> nat option \<Rightarrow> u32 \<Rightarrow> (uh_mem \<times> nat option) option" where
  "sort_passes cmp head m l insize = do {
     (m, l, tp, nmerges) \<leftarrow> sort_pass cmp insize m l None None 0;
     m \<leftarrow> (case tp of Some t \<Rightarrow> upd_hh t (\<lambda>h. h\<lparr>nxt := None\<rparr>) m | None \<Rightarrow> Some m);
     (if nmerges \<le> 1 then do {
        (t, T) \<leftarrow> tbl_of m head;
        m \<leftarrow> upd_tbl t (\<lambda>T. T\<lparr>tail := tp\<rparr>) m;
        Some (m, l)
      }
      else sort_passes cmp head m l (insize * 2))
   }"

definition HASH_SORT :: "cmpfcn \<Rightarrow> uh_mem \<Rightarrow> nat option \<Rightarrow> (uh_mem \<times> nat option) option" where
  "HASH_SORT cmp m head = (case head of
     None \<Rightarrow> Some (m, head)
   | Some p \<Rightarrow> sort_passes cmp p m head 1)"

section \<open>The same on lists\<close>

fun merge :: "('a \<Rightarrow> 'a \<Rightarrow> int) \<Rightarrow> 'a list \<Rightarrow> 'a list \<Rightarrow> 'a list" where
  "merge cmp [] ys = ys"
| "merge cmp xs [] = xs"
| "merge cmp (x # xs) (y # ys) = (if cmp x y \<le> 0 then x # merge cmp xs (y # ys) else y # merge cmp (x # xs) ys)"

lemma merge_Nil [simp]: "merge cmp xs [] = xs"
  by (cases xs) simp_all

function merge_runs :: "('a \<Rightarrow> 'a \<Rightarrow> int) \<Rightarrow> nat \<Rightarrow> 'a list \<Rightarrow> 'a list" where
  "merge_runs cmp k xs = (if k = 0 \<or> xs = [] then xs
     else merge cmp (take k xs) (take k (drop k xs)) @ merge_runs cmp k (drop (2 * k) xs))"
  by pat_completeness auto
termination by (relation "measure (\<lambda>(cmp, k, xs). length xs)") auto

declare merge_runs.simps [simp del]

lemma mset_merge [simp]: "mset (merge cmp xs ys) = mset xs + mset ys"
  by (induction cmp xs ys rule: merge.induct) auto

lemma length_merge [simp]: "length (merge cmp xs ys) = length xs + length ys"
  by (metis mset_merge size_mset size_union)

lemma set_merge [simp]: "set (merge cmp xs ys) = set xs \<union> set ys"
  by (metis mset_merge set_mset_mset set_mset_union)

lemma drop_double: "drop k (drop k xs) = drop (2 * k) xs"
  by (simp add: mult_2)

lemma mset_merge_runs [simp]: "mset (merge_runs cmp k xs) = mset xs"
proof (induction cmp k xs rule: merge_runs.induct)
  case (1 cmp k xs)
  show ?case
  proof (cases "k = 0 \<or> xs = []")
    case False
    have "mset (take k xs) + (mset (take k (drop k xs)) + mset (drop (2 * k) xs)) = mset xs"
      unfolding drop_double [symmetric] mset_append [symmetric] append_take_drop_id ..
    then show ?thesis
      using 1 [OF False] False by (subst merge_runs.simps) (simp add: add.assoc)
  qed (simp add: merge_runs.simps)
qed

lemma length_merge_runs [simp]: "length (merge_runs cmp k xs) = length xs"
  by (metis mset_merge_runs size_mset)

text \<open>All passes, for runs of \<open>k\<close> elements.\<close>

function merge_passes :: "('a \<Rightarrow> 'a \<Rightarrow> int) \<Rightarrow> nat \<Rightarrow> 'a list \<Rightarrow> 'a list" where
  "merge_passes cmp k xs = (if k = 0 \<or> length xs \<le> 2 * k then merge_runs cmp k xs else merge_passes cmp (2 * k) (merge_runs cmp k xs))"
  by pat_completeness auto
termination by (relation "measure (\<lambda>(cmp, k, xs). length xs - k)") auto

declare merge_passes.simps [simp del]

lemma mset_merge_passes [simp]: "mset (merge_passes cmp k xs) = mset xs"
proof (induction cmp k xs rule: merge_passes.induct)
  case (1 cmp k xs)
  then show ?case
    by (subst merge_passes.simps) simp
qed

section \<open>The list is sorted, stably\<close>

lemma sorted_merge:
  assumes "\<And>x y. cmp x y \<le> 0 \<longleftrightarrow> f x \<le> f y"
  shows "sorted (map f xs) \<Longrightarrow> sorted (map f ys) \<Longrightarrow> sorted (map f (merge cmp xs ys))"
proof (induction xs arbitrary: ys)
  case (Cons x xs)
  note xs = Cons
  show ?case
    using xs(3)
  proof (induction ys)
    case (Cons y ys)
    show ?case
    proof (cases "f x \<le> f y")
      case True
      then have "f x \<le> f z" if "z \<in> set (y # ys)" for z
        using Cons.prems that by fastforce
      then show ?thesis
        using True xs(2) xs(1) [OF _ Cons.prems] assms by auto
    next
      case False
      then have "f y \<le> f z" if "z \<in> set (x # xs)" for z
        using xs(2) that by fastforce
      then show ?thesis
        using False Cons assms by auto
    qed
  qed (use xs in simp)
qed simp

text \<open>Equal elements stay in their order, those of the first run before those of the second.\<close>

lemma merge_stable:
  assumes "\<And>x y. cmp x y \<le> 0 \<longleftrightarrow> f x \<le> f y"
  shows "sorted (map f xs) \<Longrightarrow> filter (\<lambda>x. f x = c) (merge cmp xs ys) = filter (\<lambda>x. f x = c) xs @ filter (\<lambda>x. f x = c) ys"
proof (induction xs arbitrary: ys)
  case (Cons x xs)
  note xs = Cons
  show ?case
  proof (induction ys)
    case (Cons y ys)
    show ?case
    proof (cases "f x \<le> f y")
      case True
      then show ?thesis
        using xs assms by simp
    next
      case False
      then have "filter (\<lambda>x. f x = c) (x # xs) = []" if "f y = c"
        using xs(2) that by (fastforce simp: filter_empty_conv)
      then show ?thesis
        using False Cons assms by auto
    qed
  qed simp
qed simp

definition runs_sorted :: "('a \<Rightarrow> 'b :: linorder) \<Rightarrow> nat \<Rightarrow> 'a list \<Rightarrow> bool" where
  "runs_sorted f k xs \<longleftrightarrow> (\<forall>i. sorted (map f (take k (drop (i * k) xs))))"

lemma runs_sorted_take: "runs_sorted f k xs \<Longrightarrow> sorted (map f (take k xs))"
  unfolding runs_sorted_def by (drule spec [of _ 0]) simp

lemma runs_sorted_drop: "runs_sorted f k xs \<Longrightarrow> runs_sorted f k (drop (n * k) xs)"
  unfolding runs_sorted_def
proof
  fix i assume "\<forall>i. sorted (map f (take k (drop (i * k) xs)))"
  then have "sorted (map f (take k (drop ((n + i) * k) xs)))"
    by blast
  then show "sorted (map f (take k (drop (i * k) (drop (n * k) xs))))"
    by (simp add: add_mult_distrib add.commute)
qed

lemma runs_sorted_append:
  assumes "length ys = k \<or> zs = []" and "length ys \<le> k" and "sorted (map f ys)" and "runs_sorted f k zs"
  shows "runs_sorted f k (ys @ zs)"
  unfolding runs_sorted_def
proof
  fix i
  show "sorted (map f (take k (drop (i * k) (ys @ zs))))"
  proof (cases i)
    case 0
    then show ?thesis
      using assms by auto
  next
    case (Suc j)
    then show ?thesis
      using assms by (auto simp: runs_sorted_def)
  qed
qed

lemma merge_runs_sorted:
  assumes "\<And>x y. cmp x y \<le> 0 \<longleftrightarrow> f x \<le> f y"
  shows "k > 0 \<Longrightarrow> runs_sorted f k xs \<Longrightarrow>
    runs_sorted f (2 * k) (merge_runs cmp k xs) \<and> filter (\<lambda>x. f x = c) (merge_runs cmp k xs) = filter (\<lambda>x. f x = c) xs"
proof (induction "length xs" arbitrary: xs rule: less_induct)
  case less
  show ?case
  proof (cases "xs = []")
    case True
    then show ?thesis
      by (simp add: merge_runs.simps runs_sorted_def)
  next
    case False
    let ?a = "take k xs" and ?b = "take k (drop k xs)" and ?r = "drop (2 * k) xs"
    have s: "sorted (map f ?a)" "sorted (map f ?b)" "runs_sorted f k ?r"
      using runs_sorted_take [OF less.prems(2)] runs_sorted_take [OF runs_sorted_drop [OF less.prems(2), of 1]]
        runs_sorted_drop [OF less.prems(2), of 2] by simp_all
    have IH: "runs_sorted f (2 * k) (merge_runs cmp k ?r)" "filter (\<lambda>x. f x = c) (merge_runs cmp k ?r) = filter (\<lambda>x. f x = c) ?r"
      using less.hyps [of ?r] s(3) less.prems(1) False by simp_all
    have eq: "merge_runs cmp k xs = merge cmp ?a ?b @ merge_runs cmp k ?r"
      using False less.prems(1) by (simp add: merge_runs.simps [of cmp k xs])
    have "runs_sorted f (2 * k) (merge_runs cmp k xs)"
      unfolding eq
    proof (rule runs_sorted_append [OF _ _ sorted_merge [OF assms s(1,2)] IH(1)])
      have "merge_runs cmp k ?r = []" if "length xs \<le> 2 * k"
        using that by (simp add: merge_runs.simps)
      then show "length (merge cmp ?a ?b) = 2 * k \<or> merge_runs cmp k ?r = []"
        by (cases "length xs \<le> 2 * k") auto
    qed simp
    moreover have "filter (\<lambda>x. f x = c) (merge_runs cmp k xs) = filter (\<lambda>x. f x = c) xs"
    proof -
      have "filter (\<lambda>x. f x = c) ?a @ filter (\<lambda>x. f x = c) ?b @ filter (\<lambda>x. f x = c) ?r = filter (\<lambda>x. f x = c) xs"
        unfolding drop_double [symmetric] filter_append [symmetric] append_take_drop_id ..
      then show ?thesis
        by (simp add: eq IH(2) merge_stable [OF assms s(1)])
    qed
    ultimately show ?thesis
      by blast
  qed
qed

lemma merge_passes_sorted:
  assumes "\<And>x y. cmp x y \<le> 0 \<longleftrightarrow> f x \<le> f y"
  shows "k > 0 \<Longrightarrow> runs_sorted f k xs \<Longrightarrow>
    sorted (map f (merge_passes cmp k xs)) \<and> filter (\<lambda>x. f x = c) (merge_passes cmp k xs) = filter (\<lambda>x. f x = c) xs"
proof (induction "length xs - k" arbitrary: k xs rule: less_induct)
  case less
  note step = merge_runs_sorted [OF assms less.prems, of c]
  show ?case
  proof (cases "length xs \<le> 2 * k")
    case True
    have "sorted (map f (merge_runs cmp k xs))"
      using runs_sorted_take [OF conjunct1 [OF step]] True by simp
    then show ?thesis
      using True step by (simp add: merge_passes.simps [of cmp k xs])
  next
    case False
    then show ?thesis
      using less.hyps [of "merge_runs cmp k xs" "2 * k"] step less.prems(1) by (simp add: merge_passes.simps [of cmp k xs])
  qed
qed

theorem merge_passes_sort_key:
  assumes "\<And>x y. cmp x y \<le> 0 \<longleftrightarrow> f x \<le> f y"
  shows "merge_passes cmp 1 xs = sort_key f xs"
proof (rule properties_for_sort_key [symmetric])
  have "runs_sorted f 1 xs"
    by (simp add: runs_sorted_def sorted01)
  then show "sorted (map f (merge_passes cmp 1 xs))" "filter (\<lambda>x. f k = f x) (merge_passes cmp 1 xs) = filter (\<lambda>x. f k = f x) xs" for k
    using merge_passes_sorted [where cmp = cmp and f = f and k = 1 and xs = xs and c = "f k", OF assms] by (simp_all add: eq_commute)
qed simp

section \<open>The pointers follow the lists\<close>

text \<open>The handles from \<open>q\<close> on, forward, up to \<open>r\<close>; back pointers do not count.\<close>

fun fwd :: "(nat \<rightharpoonup> UT_hash_handle) \<Rightarrow> nat option \<Rightarrow> nat list \<Rightarrow> nat option \<Rightarrow> bool" where
  "fwd E q [] r \<longleftrightarrow> q = r"
| "fwd E q (x # xs) r \<longleftrightarrow> q = Some x \<and> (\<exists>h. E x = Some h \<and> fwd E (nxt h) xs r)"

lemma seg_fwd: "seg nxt pv E p q xs r \<Longrightarrow> fwd E q xs r"
  by (induction xs arbitrary: p q) auto

lemma fwd_append: "fwd E q (xs @ ys) r \<longleftrightarrow> (\<exists>s. fwd E q xs s \<and> fwd E s ys r)"
  by (induction xs arbitrary: q) auto

lemma fwd_same: "same_on (set xs) nxt E E' \<Longrightarrow> fwd E q xs r \<Longrightarrow> fwd E' q xs r"
proof (induction xs arbitrary: q)
  case (Cons x xs)
  then obtain h where h: "E x = Some h" "q = Some x" "fwd E (nxt h) xs r"
    by auto
  obtain h' where "E' x = Some h'" "nxt h' = nxt h"
    using same_onD [OF Cons.prems(1), of x h] h by auto
  then show ?case
    using Cons.IH [of "nxt h"] h Cons.prems(1) same_on_subset by force
qed simp

lemma fwd_first: "fwd E q xs r \<Longrightarrow> q = hd_or xs r"
  by (cases xs) auto

text \<open>What the sort does not touch.\<close>

definition unordered :: "UT_hash_handle \<Rightarrow> UT_hash_handle" where
  "unordered h = h\<lparr>prev := None, nxt := None\<rparr>"

lemma unorderedD: "unordered h' = unordered h \<Longrightarrow>
  tbl h' = tbl h \<and> hh_prev h' = hh_prev h \<and> hh_next h' = hh_next h \<and> key h' = key h \<and> keylen h' = keylen h \<and> hashv h' = hashv h"
  by (cases h; cases h') (simp add: unordered_def)

lemma unordered_upd [simp]: "unordered (h\<lparr>nxt := a\<rparr>) = unordered h" "unordered (h\<lparr>prev := b\<rparr>) = unordered h"
  by (simp_all add: unordered_def)

text \<open>The new list: its elements are linked, apart from the last one's forward pointer.\<close>

definition new_list :: "(nat \<rightharpoonup> UT_hash_handle) \<Rightarrow> nat option \<Rightarrow> nat option \<Rightarrow> nat list \<Rightarrow> bool" where
  "new_list E ls tp out \<longleftrightarrow> ls = hd_or out None \<and> tp = last_or None out \<and> distinct out \<and> (\<exists>r. seg nxt prev E None (hd_or out r) out r)"

lemma sort_link_ok:
  assumes new: "new_list (elems m) ls tp out" and x: "x \<notin> set out" "elems m x = Some h"
  shows "\<exists>E'. sort_link m (Some x) ls tp = Some (m\<lparr>elems := E'\<rparr>, hd_or (out @ [x]) None, Some x) \<and>
    new_list E' (hd_or (out @ [x]) None) (Some x) (out @ [x]) \<and> same_on (- set out) nxt (elems m) E' \<and> same_on UNIV unordered (elems m) E'"
proof (cases out rule: rev_cases)
  case Nil
  let ?E = "modify x (\<lambda>h. h\<lparr>prev := None\<rparr>) (elems m)"
  have "sort_link m (Some x) ls tp = Some (m\<lparr>elems := ?E\<rparr>, hd_or (out @ [x]) None, Some x)"
    using new x by (simp add: sort_link_def upd_hh_def new_list_def Nil)
  moreover have "new_list ?E (hd_or (out @ [x]) None) (Some x) (out @ [x])"
    using x by (simp add: new_list_def Nil)
  moreover have "same_on (- set out) nxt (elems m) ?E" "same_on UNIV unordered (elems m) ?E"
    by (simp_all add: same_on_modify)
  ultimately show ?thesis
    by blast
next
  case (snoc us t)
  let ?E1 = "modify t (\<lambda>h. h\<lparr>nxt := Some x\<rparr>) (elems m)" and ?q = "Some (hd out)"
  let ?E = "modify x (\<lambda>h. h\<lparr>prev := Some t\<rparr>) ?E1"
  obtain r where seg: "seg nxt prev (elems m) None ?q (us @ [t]) r" and tp: "tp = Some t" "ls = ?q" and dist: "distinct (us @ [t])"
    using new by (auto simp: new_list_def hd_or_def snoc)
  have t: "elems m t \<noteq> None" "t \<noteq> x"
    using seg_live [OF seg, of t] x by (auto simp: snoc)
  have "sort_link m (Some x) ls tp = Some (m\<lparr>elems := ?E\<rparr>, hd_or (out @ [x]) None, Some x)"
    using t x by (simp add: sort_link_def upd_hh_def tp modify_apply hd_or_def snoc hd_append)
  moreover have "new_list ?E (hd_or (out @ [x]) None) (Some x) (out @ [x])"
  proof -
    have "seg nxt prev ?E1 None ?q (us @ [t]) (Some x)"
      using dist by (intro seg_end [OF seg]) simp_all
    then have "seg nxt prev ?E None ?q (us @ [t]) (Some x)"
      by (rule seg_same [rotated]) (rule same_on_modify, use x snoc in simp)
    moreover have "seg nxt prev ?E (last_or None (us @ [t])) (Some x) [x] (nxt h)"
      using x t by simp
    ultimately have "seg nxt prev ?E None ?q ((us @ [t]) @ [x]) (nxt h)"
      using seg_append [of nxt prev ?E None ?q "us @ [t]" "[x]" "nxt h"] by blast
    then have "seg nxt prev ?E None ?q (out @ [x]) (nxt h)"
      by (simp only: snoc)
    moreover have "hd_or (out @ [x]) (nxt h) = ?q" "last_or None (out @ [x]) = Some x" "distinct (out @ [x])"
      using dist x by (simp_all add: hd_or_def last_or_def snoc hd_append)
    ultimately show ?thesis
      unfolding new_list_def by (intro conjI exI [of _ "nxt h"]) simp_all
  qed
  moreover have "same_on (- set out) nxt (elems m) ?E"
    by (rule same_on_trans [of _ _ _ ?E1]; rule same_on_modify) (simp_all add: snoc)
  moreover have "same_on UNIV unordered (elems m) ?E"
    by (rule same_on_trans [of _ _ _ ?E1]; rule same_on_modify) simp_all
  ultimately show ?thesis
    by (intro exI [of _ ?E] conjI)
qed

lemma sort_take_ok:
  assumes p: "fwd (elems m) p ps r" "length ps = unat psize" and q: "fwd (elems m) q qs None"
    and more: "psize > 0 \<or> (qsize > 0 \<and> q \<noteq> None)"
  shows "\<exists>x p' q' psize' qsize' ps' qs'. sort_take cmp m p q psize qsize = Some (Some x, p', q', psize', qsize') \<and>
    fwd (elems m) p' ps' r \<and> length ps' = unat psize' \<and> fwd (elems m) q' qs' None \<and>
    merge cmp ps (take (unat qsize) qs) = x # merge cmp ps' (take (unat qsize') qs') \<and> drop (unat qsize') qs' = drop (unat qsize) qs \<and>
    ((ps = x # ps' \<and> qs' = qs) \<or> (ps' = ps \<and> qs = x # qs'))"
proof -
  have from_p: ?thesis if "ps = x # ps'" "sort_take cmp m p q psize qsize = do { p' \<leftarrow> hh_after m x; Some (p, p', q, psize - 1, qsize) }"
      "merge cmp ps (take (unat qsize) qs) = x # merge cmp ps' (take (unat qsize) qs)" for x ps'
  proof -
    have "unat (psize - 1) = length ps'"
      using that(1) p(2) by (simp add: unat_minus_one unat_eq_0 [symmetric])
    then show ?thesis
      using that p q by (fastforce simp: hh_after_def)
  qed
  have from_q: ?thesis if "qs = y # qs'" "qsize > 0" "sort_take cmp m p q psize qsize = do { q' \<leftarrow> hh_after m y; Some (q, p, q', psize, qsize - 1) }"
      "merge cmp ps (take (unat qsize) qs) = y # merge cmp ps (take (unat qsize - 1) qs')" for y qs'
  proof -
    have n: "unat (qsize - 1) = unat qsize - 1" "unat qsize > 0"
      using that(2) by (simp_all add: unat_minus_one word_gt_0 unat_gt_0)
    then have "drop (unat qsize - 1) qs' = drop (unat qsize) qs"
      using that(1) by (cases "unat qsize") simp_all
    then show ?thesis
      using that p q n by (fastforce simp: hh_after_def)
  qed
  show ?thesis
  proof (cases ps)
    case Nil
    then have "psize = 0"
      using p(2) by (simp add: unat_eq_zero)
    moreover from this have "q \<noteq> None" "qsize > 0"
      using more by simp_all
    moreover from this obtain y qs' where "qs = y # qs'"
      using q by (cases qs) auto
    moreover have "unat qsize > 0"
      using \<open>qsize > 0\<close> by (simp add: word_gt_0 unat_gt_0)
    ultimately show ?thesis
      using q by (intro from_q) (auto simp: sort_take_def Nil take_Cons')
  next
    case (Cons x ps')
    then have pos: "psize \<noteq> 0" "p = Some x"
      using p by auto
    show ?thesis
    proof (cases "qsize = 0 \<or> q = None")
      case True
      then have "take (unat qsize) qs = []"
        using q by (cases qs) auto
      then show ?thesis
        using True pos Cons by (intro from_p [OF Cons]) (auto simp: sort_take_def)
    next
      case False
      then obtain y qs' where qs: "qs = y # qs'" "q = Some y"
        using q by (cases qs) auto
      have n: "unat qsize > 0"
        using False by (simp add: word_gt_0 unat_gt_0)
      show ?thesis
      proof (cases "cmp x y \<le> 0")
        case True
        then show ?thesis
          using False pos qs n by (intro from_p [OF Cons]) (auto simp: sort_take_def Cons take_Cons')
      next
        case gt: False
        then show ?thesis
          using False pos qs n by (intro from_q [OF qs(1)]) (auto simp: sort_take_def Cons take_Cons' word_gt_0)
      qed
    qed
  qed
qed

text \<open>The rest of a list is behind its new part as it was.\<close>

lemma fwd_behind:
  "same_on (- set out) nxt E E' \<Longrightarrow> set xs \<inter> set out = {} \<Longrightarrow> fwd E q xs r \<Longrightarrow> fwd E' q xs r"
  by (rule fwd_same [OF same_on_subset]) auto

lemma sort_merge_ok:
  assumes "new_list (elems m) ls tp out" and "fwd (elems m) p ps r" and "length ps = unat psize" and "fwd (elems m) q qs None"
    and "distinct (out @ ps @ qs)"
  shows "\<exists>E' q' ls' tp'. sort_merge cmp m p q psize qsize ls tp = Some (m\<lparr>elems := E'\<rparr>, q', ls', tp') \<and>
    new_list E' ls' tp' (out @ merge cmp ps (take (unat qsize) qs)) \<and> fwd E' q' (drop (unat qsize) qs) None \<and>
    same_on UNIV unordered (elems m) E'"
  using assms
proof (induction "length ps + length qs" arbitrary: m p q psize qsize ls tp ps qs out rule: less_induct)
  case less
  show ?case
  proof (cases "psize > 0 \<or> (qsize > 0 \<and> q \<noteq> None)")
    case False
    then have "sort_merge cmp m p q psize qsize ls tp = Some (m\<lparr>elems := elems m\<rparr>, q, ls, tp)"
      unfolding sort_merge.simps [of cmp m p] if_not_P [OF False] by simp
    moreover have e: "ps = []" "take (unat qsize) qs = []" "drop (unat qsize) qs = qs"
      using False less.prems(3,4) by (cases qs; auto simp: word_gt_0)+
    moreover have "new_list (elems m) ls tp (out @ merge cmp ps (take (unat qsize) qs))" "fwd (elems m) q (drop (unat qsize) qs) None"
      unfolding e using less.prems(1,4) by simp_all
    ultimately show ?thesis
      using same_on_refl by blast
  next
    case True
    obtain x p' q' psize' qsize' ps' qs' where
      t: "sort_take cmp m p q psize qsize = Some (Some x, p', q', psize', qsize')" and
      t': "fwd (elems m) p' ps' r" "length ps' = unat psize'" "fwd (elems m) q' qs' None"
        "merge cmp ps (take (unat qsize) qs) = x # merge cmp ps' (take (unat qsize') qs')" "drop (unat qsize') qs' = drop (unat qsize) qs"
        "(ps = x # ps' \<and> qs' = qs) \<or> (ps' = ps \<and> qs = x # qs')"
      using sort_take_ok [OF less.prems(2,3,4) True] by blast
    obtain h where x: "x \<notin> set out" "elems m x = Some h"
      using t'(6) less.prems(2,4,5) by auto
    obtain E1 where
      l: "sort_link m (Some x) ls tp = Some (m\<lparr>elems := E1\<rparr>, hd_or (out @ [x]) None, Some x)" and
      l': "new_list E1 (hd_or (out @ [x]) None) (Some x) (out @ [x])" "same_on (- set out) nxt (elems m) E1" "same_on UNIV unordered (elems m) E1"
      using sort_link_ok [OF less.prems(1) x] by blast
    have dist: "distinct ((out @ [x]) @ ps' @ qs')" "set ps' \<inter> set out = {}" "set qs' \<inter> set out = {}"
      using less.prems(5) t'(6) by auto
    obtain E' q2 ls' tp' where
      r: "sort_merge cmp (m\<lparr>elems := E1\<rparr>) p' q' psize' qsize' (hd_or (out @ [x]) None) (Some x) = Some (m\<lparr>elems := E'\<rparr>, q2, ls', tp')" and
      r': "new_list E' ls' tp' ((out @ [x]) @ merge cmp ps' (take (unat qsize') qs'))" "fwd E' q2 (drop (unat qsize') qs') None"
        "same_on UNIV unordered E1 E'"
      using less.hyps [of ps' qs' "m\<lparr>elems := E1\<rparr>" "hd_or (out @ [x]) None" "Some x" "out @ [x]" p' psize' q' qsize']
        fwd_behind [OF l'(2) dist(2) t'(1)] fwd_behind [OF l'(2) dist(3) t'(3)] t'(2,6) l'(1) dist(1) by fastforce
    have "sort_merge cmp m p q psize qsize ls tp = Some (m\<lparr>elems := E'\<rparr>, q2, ls', tp')"
      using r by (subst sort_merge.simps) (simp only: True if_True t l Option.bind.simps prod.case)
    then show ?thesis
      using r' same_on_trans [OF l'(3) r'(3)] t'(4,5) by auto
  qed
qed

lemma sort_skip_ok:
  assumes "fwd (elems m) q xs None" and "xs \<noteq> []" and "length xs < 2 ^ 32" and "n > 0"
  shows "\<exists>q'. sort_skip m n q psize = Some (q', psize + of_nat (min n (length xs))) \<and>
    fwd (elems m) q (take n xs) q' \<and> fwd (elems m) q' (drop n xs) None"
  using assms
proof (induction n arbitrary: q xs psize)
  case (Suc n)
  obtain x ys h where x: "xs = x # ys" "q = Some x" "elems m x = Some h" "fwd (elems m) (nxt h) ys None"
    using Suc.prems by (cases xs) auto
  show ?case
  proof (cases "ys = [] \<or> n = 0")
    case True
    then have "sort_skip m (Suc n) q psize = Some (nxt h, psize + 1)"
      using x by (cases n) (auto simp: hh_after_def)
    then show ?thesis
      using True x by auto
  next
    case False
    then have "nxt h \<noteq> None"
      using x(4) by (cases ys) auto
    then have "sort_skip m (Suc n) q psize = sort_skip m n (nxt h) (psize + 1)"
      using x by (auto simp: hh_after_def)
    then show ?thesis
      using Suc.IH [OF x(4), of "psize + 1"] False Suc.prems(3) x by (auto simp: add.assoc)
  qed
qed simp

lemma sort_pass_ok:
  assumes "new_list (elems m) ls tp out" and "fwd (elems m) p xs None" and "distinct (out @ xs)" and "length xs < 2 ^ 32" and "insize > 0"
  shows "\<exists>E' ls' tp' j. sort_pass cmp insize m p ls tp k = Some (m\<lparr>elems := E'\<rparr>, ls', tp', k + of_nat j) \<and>
    new_list E' ls' tp' (out @ merge_runs cmp (unat insize) xs) \<and> same_on UNIV unordered (elems m) E' \<and>
    (\<forall>i<j. i * (2 * unat insize) < length xs) \<and> length xs \<le> j * (2 * unat insize)"
  using assms(1-4)
proof (induction "length xs" arbitrary: m p ls tp xs out k rule: less_induct)
  case less
  have n: "unat insize > 0"
    using assms(5) by (simp add: word_gt_0 unat_gt_0)
  show ?case
  proof (cases xs)
    case Nil
    then have "sort_pass cmp insize m p ls tp k = Some (m\<lparr>elems := elems m\<rparr>, ls, tp, k + of_nat 0)"
      using less.prems(2) by (subst sort_pass.simps) simp
    then show ?thesis
      using less.prems(1) Nil
      by (intro exI [of _ "elems m"] exI [of _ ls] exI [of _ tp] exI [of _ 0]) (simp add: merge_runs.simps)
  next
    case (Cons x ys)
    let ?n = "unat insize"
    obtain q where
      s: "sort_skip m ?n p 0 = Some (q, of_nat (min ?n (length xs)))" "fwd (elems m) p (take ?n xs) q" "fwd (elems m) q (drop ?n xs) None"
      using sort_skip_ok [OF less.prems(2) _ less.prems(4) n, of 0] Cons by auto
    have len: "length (take ?n xs) = unat (of_nat (min ?n (length xs)) :: u32)"
      using less.prems(4) by (simp add: unat_of_nat min.commute)
    have "distinct (out @ take ?n xs @ drop ?n xs)"
      using less.prems(3) by simp
    then obtain E1 q1 ls1 tp1 where
      g: "sort_merge cmp m p q (of_nat (min ?n (length xs))) insize ls tp = Some (m\<lparr>elems := E1\<rparr>, q1, ls1, tp1)" and
      g': "new_list E1 ls1 tp1 (out @ merge cmp (take ?n xs) (take ?n (drop ?n xs)))" "fwd E1 q1 (drop ?n (drop ?n xs)) None"
        "same_on UNIV unordered (elems m) E1"
      using sort_merge_ok [OF less.prems(1) s(2) len s(3), of cmp insize] by blast
    let ?out = "out @ merge cmp (take ?n xs) (take ?n (drop ?n xs))" and ?xs = "drop (2 * ?n) xs"
    have ne: "xs \<noteq> []"
      using Cons by simp
    have "distinct (?out @ ?xs)"
    proof -
      have "mset (?out @ ?xs) = mset out + mset (take ?n xs @ take ?n (drop ?n xs) @ drop ?n (drop ?n xs))"
        by (simp add: mult_2)
      also have "\<dots> = mset (out @ xs)"
        unfolding append_take_drop_id by simp
      finally show ?thesis
        using less.prems(3) mset_eq_imp_distinct_iff by blast
    qed
    then have IH: "\<exists>E' ls' tp' j. sort_pass cmp insize (m\<lparr>elems := E1\<rparr>) q1 ls1 tp1 (k + 1) = Some (m\<lparr>elems := E'\<rparr>, ls', tp', k + 1 + of_nat j) \<and>
        new_list E' ls' tp' (?out @ merge_runs cmp ?n ?xs) \<and> same_on UNIV unordered E1 E' \<and>
        (\<forall>i<j. i * (2 * ?n) < length ?xs) \<and> length ?xs \<le> j * (2 * ?n)"
      using less.hyps [of ?xs "m\<lparr>elems := E1\<rparr>" ls1 tp1 ?out q1 "k + 1"] g'(1) g'(2) [unfolded drop_double] less.prems(4) ne n
      by simp
    then obtain E' ls' tp' j where
      r: "sort_pass cmp insize (m\<lparr>elems := E1\<rparr>) q1 ls1 tp1 (k + 1) = Some (m\<lparr>elems := E'\<rparr>, ls', tp', k + 1 + of_nat j)" and
      r': "new_list E' ls' tp' (?out @ merge_runs cmp ?n ?xs)" "same_on UNIV unordered E1 E'"
        "\<forall>i<j. i * (2 * ?n) < length ?xs" "length ?xs \<le> j * (2 * ?n)"
      using IH by blast
    have "p \<noteq> None"
      using less.prems(2) Cons by simp
    then have "sort_pass cmp insize m p ls tp k = Some (m\<lparr>elems := E'\<rparr>, ls', tp', k + of_nat (Suc j))"
      using r by (subst sort_pass.simps) (simp add: s(1) g add.assoc)
    moreover have "merge_runs cmp ?n xs = merge cmp (take ?n xs) (take ?n (drop ?n xs)) @ merge_runs cmp ?n ?xs"
      using n ne by (subst merge_runs.simps) simp
    moreover have "\<forall>i<Suc j. i * (2 * ?n) < length xs"
    proof (intro allI impI)
      fix i assume "i < Suc j"
      then show "i * (2 * ?n) < length xs"
        using r'(3) ne by (cases i) (fastforce simp: less_diff_conv)+
    qed
    moreover have "length xs \<le> Suc j * (2 * ?n)"
      using r'(4) by simp
    ultimately show ?thesis
      using r'(1) same_on_trans [OF g'(3) r'(2)] by (intro exI conjI) (assumption | simp)+
  qed
qed

text \<open>All passes, on a table with the elements \<open>xs\<close>.\<close>

lemma unat_double: "(n :: u32) \<noteq> 0 \<Longrightarrow> unat n < 2 ^ 31 \<Longrightarrow> unat (n * 2) = 2 * unat n"
  by (subst unat_mult_lem [THEN iffD1]) simp_all

lemma tbl_of_unordered:
  assumes "same_on UNIV unordered (elems m) E'" and "tbl_of m x = Some r"
  shows "tbl_of (m\<lparr>elems := E'\<rparr>) x = Some r"
proof -
  obtain h where h: "elems m x = Some h" and r: "do { t \<leftarrow> tbl h; T \<leftarrow> tables m t; Some (t, T) } = Some r"
    using assms(2) by (auto simp: tbl_of_def bind_eq_Some_conv)
  obtain h' where "E' x = Some h'" "unordered h' = unordered h"
    using same_onD [OF assms(1) _ h] by auto
  then show ?thesis
    using r unorderedD [of h' h] by (simp add: tbl_of_def)
qed

text \<open>After a pass, the last handle ends the list.\<close>

lemma new_list_end:
  assumes "new_list (elems m) ls tp ys" and "ys \<noteq> []"
  shows "\<exists>E'. (case tp of Some t \<Rightarrow> upd_hh t (\<lambda>h. h\<lparr>nxt := None\<rparr>) m | None \<Rightarrow> Some m) = Some (m\<lparr>elems := E'\<rparr>) \<and>
    seg nxt prev E' None (Some (hd ys)) ys None \<and> same_on UNIV unordered (elems m) E' \<and> ls = Some (hd ys) \<and> tp = Some (last ys)"
proof -
  let ?E = "modify (last ys) (\<lambda>h. h\<lparr>nxt := None\<rparr>) (elems m)"
  obtain us t where ys: "ys = us @ [t]" "last ys = t"
    using assms(2) by (metis append_butlast_last_id)
  obtain r where seg: "seg nxt prev (elems m) None (Some (hd ys)) ys r" and "distinct ys" and l: "ls = Some (hd ys)" "tp = Some (last ys)"
    using assms by (auto simp: new_list_def hd_or_def last_or_def)
  then have "seg nxt prev ?E None (Some (hd ys)) (us @ [t]) None"
    unfolding ys(2) by (intro seg_end) (auto simp: ys(1))
  moreover have "elems m (last ys) \<noteq> None"
    using seg_live [OF seg, of "last ys"] assms(2) by auto
  moreover have "same_on UNIV unordered (elems m) ?E"
    by (rule same_on_modify) simp
  ultimately show ?thesis
    using l by (intro exI [of _ ?E]) (simp add: upd_hh_def ys(1))
qed

lemma sort_passes_ok:
  assumes "fwd (elems m) q xs None" and "distinct xs" and "xs \<noteq> []" and "length xs < 2 ^ 32" and "insize > 0"
    and "tbl_of m head = Some (t, T)" and "tables m t = Some T"
  shows "\<exists>E' ys. ys = merge_passes cmp (unat insize) xs \<and>
    sort_passes cmp head m q insize = Some (m\<lparr>elems := E', tables := (tables m)(t \<mapsto> T\<lparr>tail := Some (last ys)\<rparr>)\<rparr>, Some (hd ys)) \<and>
    seg nxt prev E' None (Some (hd ys)) ys None \<and> same_on UNIV unordered (elems m) E'"
  using assms
proof (induction "length xs - unat insize" arbitrary: m q xs insize rule: less_induct)
  case less
  let ?n = "unat insize" and ?ys = "merge_runs cmp (unat insize) xs"
  have n: "?n > 0"
    using less.prems(5) by (simp add: word_gt_0 unat_gt_0)
  have "new_list (elems m) None None []"
    by (simp add: new_list_def)
  then obtain E1 ls tp j where
    p: "sort_pass cmp insize m q None None 0 = Some (m\<lparr>elems := E1\<rparr>, ls, tp, of_nat j)" and
    p': "new_list E1 ls tp ?ys" "same_on UNIV unordered (elems m) E1" "\<forall>i<j. i * (2 * ?n) < length xs" "length xs \<le> j * (2 * ?n)"
    using sort_pass_ok [of m None None "[]" q xs insize cmp 0] less.prems by auto
  have ne: "?ys \<noteq> []"
    using less.prems(3) length_merge_runs [of cmp ?n xs] by (metis length_0_conv)
  obtain E2 where
    e: "(case tp of Some t \<Rightarrow> upd_hh t (\<lambda>h. h\<lparr>nxt := None\<rparr>) (m\<lparr>elems := E1\<rparr>) | None \<Rightarrow> Some (m\<lparr>elems := E1\<rparr>)) = Some (m\<lparr>elems := E2\<rparr>)" and
    e': "seg nxt prev E2 None (Some (hd ?ys)) ?ys None" "same_on UNIV unordered E1 E2" "ls = Some (hd ?ys)" "tp = Some (last ?ys)"
    using new_list_end [of "m\<lparr>elems := E1\<rparr>" ls tp ?ys] p'(1) ne by auto
  have same: "same_on UNIV unordered (elems m) E2"
    by (rule same_on_trans [OF p'(2) e'(2)])
  have tbl: "tbl_of (m\<lparr>elems := E2\<rparr>) head = Some (t, T)"
    by (rule tbl_of_unordered [OF same less.prems(6)])
  have j: "j < 2 ^ 32" "j > 0"
  proof -
    show "j > 0"
      using p'(4) less.prems(3) by (cases j) auto
    then have "(j - 1) * (2 * ?n) < length xs"
      using p'(3) by simp
    moreover have "j - 1 \<le> (j - 1) * (2 * ?n)"
      using n by (cases "2 * ?n") auto
    ultimately have "j - 1 < length xs"
      by (rule le_less_trans [rotated])
    then show "j < 2 ^ 32"
      using less.prems(4) by linarith
  qed
  have step: "sort_passes cmp head m q insize =
      (if j \<le> 1 then Some (m\<lparr>elems := E2, tables := (tables m)(t \<mapsto> T\<lparr>tail := Some (last ?ys)\<rparr>)\<rparr>, Some (hd ?ys))
       else sort_passes cmp head (m\<lparr>elems := E2\<rparr>) (Some (hd ?ys)) (insize * 2))"
  proof -
    have "(of_nat j :: u32) \<le> 1 \<longleftrightarrow> j \<le> 1"
      using j(1) by (simp add: word_le_nat_alt unat_of_nat)
    moreover have "upd_tbl t (\<lambda>T. T\<lparr>tail := tp\<rparr>) (m\<lparr>elems := E2\<rparr>) =
        Some (m\<lparr>elems := E2, tables := (tables m)(t \<mapsto> T\<lparr>tail := Some (last ?ys)\<rparr>)\<rparr>)"
      using less.prems(7) e'(4) by (simp add: upd_tbl_def modify_def)
    ultimately show ?thesis
      by (subst sort_passes.simps) (simp only: p e tbl Option.bind.simps prod.case e'(3))
  qed
  show ?case
  proof (cases "j \<le> 1")
    case True
    then have "length xs \<le> 2 * ?n"
      using p'(4) j(2) by (cases j) auto
    then have "merge_passes cmp ?n xs = ?ys"
      by (simp add: merge_passes.simps)
    then show ?thesis
      using step True e'(1) same by auto
  next
    case False
    then have len: "2 * ?n < length xs"
      using p'(3) by (metis mult_1 not_le)
    then have d: "unat (insize * 2) = 2 * ?n"
      using less.prems(4,5) by (intro unat_double) auto
    have "fwd (elems (m\<lparr>elems := E2\<rparr>)) (Some (hd ?ys)) ?ys None"
      using seg_fwd [OF e'(1)] by simp
    moreover have "distinct ?ys"
      using less.prems(2) mset_merge_runs mset_eq_imp_distinct_iff by blast
    moreover have "insize * 2 > 0"
      using d n by (simp add: word_gt_0 unat_gt_0 [symmetric])
    moreover have "length ?ys - unat (insize * 2) < length xs - ?n"
      unfolding d length_merge_runs using len n by linarith
    ultimately obtain E' ys where "ys = merge_passes cmp (2 * ?n) ?ys"
      "sort_passes cmp head (m\<lparr>elems := E2\<rparr>) (Some (hd ?ys)) (insize * 2) =
        Some (m\<lparr>elems := E', tables := (tables m)(t \<mapsto> T\<lparr>tail := Some (last ys)\<rparr>)\<rparr>, Some (hd ys))"
      "seg nxt prev E' None (Some (hd ys)) ys None" "same_on UNIV unordered E2 E'"
      using less.hyps [of ?ys "insize * 2" "m\<lparr>elems := E2\<rparr>" "Some (hd ?ys)"] d len n ne tbl less.prems(4,7) by auto
    moreover have "merge_passes cmp ?n xs = merge_passes cmp (2 * ?n) ?ys"
      using n len by (subst merge_passes.simps) simp
    ultimately show ?thesis
      using step False same_on_trans [OF same] by auto
  qed
qed

section \<open>Tables are sorted\<close>

text \<open>Another order of the elements, the buckets as they were.\<close>

lemma table_inv_reorder:
  assumes inv: "table_inv hash m t xs (set xs) bks" and perm: "mset ys = mset xs" and same: "same_on UNIV unordered (elems m) E"
    and seg: "seg nxt prev E None (Some (hd ys)) ys None" and T: "tables m t = Some T"
  shows "table_inv hash (m\<lparr>elems := E, tables := (tables m)(t \<mapsto> T\<lparr>tail := Some (last ys)\<rparr>)\<rparr>) t ys (set ys) bks"
proof -
  let ?m = "m\<lparr>elems := E, tables := (tables m)(t \<mapsto> T\<lparr>tail := Some (last ys)\<rparr>)\<rparr>"
  have live: "\<exists>h'. E x = Some h' \<and> unordered h' = unordered h" if "elems m x = Some h" for x h
    using same_onD [OF same _ that] by simp
  have key: "key_of ?m x = key_of m x" for x
  proof (rule key_of_other)
    have "map_option unordered (E x) = map_option unordered (elems m x)"
      using same by (simp add: same_on_def)
    then show "map_option (\<lambda>h. (key h, keylen h)) (elems ?m x) = map_option (\<lambda>h. (key h, keylen h)) (elems m x)"
      by (cases "E x"; cases "elems m x") (auto dest: unorderedD)
  qed simp
  have elem: "elem_ok hash ?m t x" if ok: "elem_ok hash m t x" for x
  proof -
    obtain h k where h: "elems m x = Some h" "tbl h = Some t" "key_mem m (key h) = Some k" "unat (keylen h) \<le> length k"
        "hashv h = hash (key_of m x)"
      using ok by (auto simp: elem_ok_def)
    obtain h' where "E x = Some h'" "unordered h' = unordered h"
      using live [OF h(1)] by blast
    then show ?thesis
      using h key [of x] unorderedD [of h' h] by (simp add: elem_ok_def)
  qed
  have chain: "same_on S (\<lambda>h. (hh_next h, hh_prev h)) (elems m) E" for S
    unfolding same_on_def
  proof
    fix x
    have "map_option unordered (E x) = map_option unordered (elems m x)"
      using same by (simp add: same_on_def)
    then show "map_option (\<lambda>h. (hh_next h, hh_prev h)) (E x) = map_option (\<lambda>h. (hh_next h, hh_prev h)) (elems m x)"
      by (cases "E x"; cases "elems m x") (auto dest: unorderedD)
  qed
  have "buckets_ok (\<lambda>x. hash (key_of m x)) E (num_buckets T) (set xs) (buckets T) bks"
    using inv T by (intro buckets_ok_same [OF chain]) (simp add: table_inv_def)
  moreover have "set ys = set xs" "length ys = length xs" "distinct ys = distinct xs"
    using perm mset_eq_setD mset_eq_length mset_eq_imp_distinct_iff by blast+
  ultimately show ?thesis
    using inv T seg elem by (auto simp: table_inv_def key geometry_def)
qed

theorem HASH_SORT_ok:
  assumes "holds hash m head xs"
  shows "\<exists>m' head'. HASH_SORT cmp m head = Some (m', head') \<and> holds hash m' head' (merge_passes cmp 1 xs)"
proof (cases head)
  case None
  then show ?thesis
    using assms by (simp add: holds_def HASH_SORT_def merge_passes.simps merge_runs.simps)
next
  case (Some p)
  then obtain t bks where inv: "table_inv hash m t xs (set xs) bks" and p: "p = hd xs" "xs \<noteq> []"
    using assms by (auto simp: holds_def)
  obtain T where T: "tables m t = Some T"
    using inv by (auto simp: table_inv_def)
  have seg: "seg nxt prev (elems m) None (Some (hd xs)) xs None" and x: "distinct xs" "length xs < 2 ^ 32" "elem_ok hash m t p"
    using inv p by (auto simp: table_inv_def)
  obtain E' ys where ys: "ys = merge_passes cmp 1 xs" and
    run: "sort_passes cmp p m head 1 = Some (m\<lparr>elems := E', tables := (tables m)(t \<mapsto> T\<lparr>tail := Some (last ys)\<rparr>)\<rparr>, Some (hd ys))" and
    res: "seg nxt prev E' None (Some (hd ys)) ys None" "same_on UNIV unordered (elems m) E'"
    using sort_passes_ok [OF seg_fwd [OF seg] x(1) p(2) x(2) _ tbl_of_elem [OF x(3) T] T, of 1 cmp] by (auto simp: Some p(1))
  let ?m = "m\<lparr>elems := E', tables := (tables m)(t \<mapsto> T\<lparr>tail := Some (last ys)\<rparr>)\<rparr>"
  have perm: "mset ys = mset xs"
    by (simp add: ys)
  have "bounded_heap ?m"
    using assms by (simp add: holds_def bounded_heap_def)
  then have "holds hash ?m (Some (hd ys)) ys"
    using table_inv_reorder [OF inv perm res(2,1) T] by (rule holds_Some [rotated])
  then show ?thesis
    using run ys by (auto simp: HASH_SORT_def Some)
qed

context hash_function
begin

lemma table_run_holds:
  assumes "bounded_heap m" and "all_allowed (key_mem m) (dom (elems m)) ops []"
    and "table_run fcn ops m None = Some (Going ((m', head'), rs))"
  shows "holds hash m' head' (map snd (fst (spec_run (key_mem m) ops [])))"
proof -
  have "represents hash m None []"
    using assms(1) holds_empty by (simp add: represents_def entries_def)
  then have "step_ok hash m (length ops + 5) (spec_run (key_mem m) ops []) (table_run fcn ops m None)"
    using table_run_ok [of m None "[]" ops] assms(2) by (simp add: levels_def)
  then show ?thesis
    using assms(3) by (auto simp: step_ok_def represents_def)
qed

end

text \<open>C18: After any sequence of operations within the macros' conditions of use, with any of the hash functions, \<open>HASH_SORT\<close> runs
  without a fault and to an end, and puts the table into the order of a stable sort: when the comparison compares a key of the elements,
  the walk through the table visits \<open>sort_key\<close> of the elements, in the order of insertion where their keys are equal. The table
  satisfies its invariant and passes the header's check, so every operation can follow.\<close>

theorem hash_sort_stable:
  fixes f :: "nat \<Rightarrow> 'k :: linorder"
  assumes "fcn \<in> {HASH_FCN, HASH_JEN, HASH_BER, HASH_SAX, HASH_FNV, HASH_OAT, HASH_SFH}"
    and "bounded_heap m" and "all_allowed (key_mem m) (dom (elems m)) ops []"
    and "table_run fcn ops m None = Some (Going ((m1, head1), rs))"
    and "\<And>x y. cmp x y \<le> 0 \<longleftrightarrow> f x \<le> f y"
    and "xs = map snd (fst (spec_run (key_mem m) ops []))"
  shows "\<exists>m' head'. HASH_SORT cmp m1 head1 = Some (m', head') \<and> holds (hash_of fcn) m' head' (sort_key f xs) \<and>
    HASH_ITER m' head' = Some (sort_key f xs) \<and> HASH_CNT m' head' = Some (of_nat (length xs)) \<and> HASH_FSCK m' head' = Some True"
proof -
  have "holds (hash_of fcn) m1 head1 xs"
    unfolding assms(6) by (rule hash_function.table_run_holds [OF header_hash_function [OF assms(1)] assms(2-4)])
  then obtain m' head' where "HASH_SORT cmp m1 head1 = Some (m', head')" "holds (hash_of fcn) m' head' (sort_key f xs)"
    using HASH_SORT_ok [of "hash_of fcn" m1 head1 xs cmp] merge_passes_sort_key [of cmp f xs, OF assms(5)] by auto
  then show ?thesis
    using walks_ok by fastforce
qed

text \<open>Three elements, sorted by the parity of their addresses: the two even ones stay in the order of insertion.\<close>

definition by_parity :: cmpfcn where
  "by_parity x y = int (x mod 2) - int (y mod 2)"

lemma hash_sort_stable_witness:
  "\<exists>m1 head1 rs m' head'. table_run HASH_FCN [Add 1 6, Add 2 6, Add 0 5] sample_memory None = Some (Going ((m1, head1), rs)) \<and>
     HASH_SORT by_parity m1 head1 = Some (m', head') \<and> HASH_ITER m' head' = Some [2, 0, 1] \<and> HASH_FSCK m' head' = Some True"
proof -
  let ?ops = "[Add 1 6, Add 2 6, Add 0 5]"
  have 1: "bounded_heap sample_memory"
    by (auto simp: bounded_heap_def sample_memory_def)
  have 2: "all_allowed (key_mem sample_memory) (dom (elems sample_memory)) ?ops []"
    by (simp add: sample_memory_def)
  have 3: "spec_run (key_mem sample_memory) ?ops [] =
      ([([6, 5, 4, 3, 2, 1], 1), ([1, 2, 3, 4, 5, 6], 2), ([1, 2, 3, 4, 5], 0)], [None, None, None])"
    by (simp add: sample_memory_def)
  obtain m1 head1 rs where run: "table_run HASH_FCN ?ops sample_memory None = Some (Going ((m1, head1), rs))"
    using default_fcn.table_run_from_empty [OF 1 2] by (auto simp: sample_memory_def)
  have "sort_key (\<lambda>x. x mod 2) [1, 2, 0 :: nat] = [2, 0, 1]"
    by simp
  then show ?thesis
    using hash_sort_stable [of HASH_FCN sample_memory ?ops m1 head1 rs by_parity "\<lambda>x. x mod 2" "[1, 2, 0]"] 1 2 3 run
    by (fastforce simp: by_parity_def)
qed

end
