(* ===== verification/Uthash_Select.thy ===== *)
theory Uthash_Select
  imports Uthash_Props
begin

text \<open>
  \<open>HASH_SELECT\<close> of \<open>uthash.h\<close>: the elements of a table that satisfy a condition enter a second table as well, by another
  handle that each of them has. The memory of those handles, and of their table, is a second \<open>uh_mem\<close>, whose keys are the same.
  The condition is an argument. \<open>HASH_FSCK\<close> at the end is empty in a program without \<open>HASH_DEBUG\<close>.
\<close>

section \<open>The macro\<close>

lemma and_then_bind: "and_then r f = Option.bind r (\<lambda>x. case x of Exited n \<Rightarrow> Some (Exited n) | Going y \<Rightarrow> f y)"
  by (cases r) (simp_all add: and_then_def)

lemma and_then_mono [partial_function_mono]:
  assumes "mono_option B" and "\<And>y. mono_option (\<lambda>f. C y f)"
  shows "mono_option (\<lambda>f. and_then (B f) (\<lambda>y. C y f))"
  unfolding and_then_bind
proof (rule bind_mono [OF assms(1)])
  show "mono_option (\<lambda>f. case y of Exited n \<Rightarrow> Some (Exited n) | Going y \<Rightarrow> C y f)" for y
    by (cases y) (simp_all add: assms(2) option.const_mono)
qed

text \<open>An element that satisfies the condition; \<open>h\<close> is its handle in the source, \<open>last_elt\<close> the one selected before.\<close>

definition select_one ::
  "uh_mem \<Rightarrow> nat option \<Rightarrow> nat option \<Rightarrow> nat \<Rightarrow> UT_hash_handle \<Rightarrow> (uh_mem \<times> nat option \<times> nat option) run option" where
  "select_one m dst last_elt p h = do {
     m \<leftarrow> upd_hh p (\<lambda>g. g\<lparr>key := key h, keylen := keylen h, hashv := hashv h, prev := last_elt, nxt := None\<rparr>) m;
     m \<leftarrow> (case last_elt of Some l \<Rightarrow> upd_hh l (\<lambda>g. g\<lparr>nxt := Some p\<rparr>) m | None \<Rightarrow> Some m);
     and_then (case dst of
         None \<Rightarrow> and_then (HASH_MAKE_TABLE m p) (\<lambda>m. Some (Going (m, p)))
       | Some d \<Rightarrow> do {
           (t, T) \<leftarrow> tbl_of m d;
           m \<leftarrow> upd_hh p (\<lambda>g. g\<lparr>tbl := Some t\<rparr>) m;
           Some (Going (m, d))
         })
       (\<lambda>(m, d). do {
         (t, T) \<leftarrow> tbl_of m p;
         and_then (HASH_ADD_TO_BKT m t (unat (HASH_TO_BKT (hashv h) (num_buckets T))) p) (\<lambda>m. do {
           (t, T) \<leftarrow> tbl_of m d;
           m \<leftarrow> upd_tbl t (\<lambda>T. T\<lparr>num_items := num_items T + 1\<rparr>) m;
           Some (Going (m, Some d, Some p))
         })
       })
   }"

text \<open>The elements of a bucket of the source, from \<open>src_hh\<close> on, and its buckets.\<close>

partial_function (option) select_chain ::
  "(nat \<Rightarrow> bool) \<Rightarrow> uh_mem \<Rightarrow> nat option \<Rightarrow> uh_mem \<times> nat option \<times> nat option \<Rightarrow> (uh_mem \<times> nat option \<times> nat option) run option" where
  "select_chain cnd src src_hh s = (case src_hh of
     None \<Rightarrow> Some (Going s)
   | Some p \<Rightarrow> do {
       h \<leftarrow> elems src p;
       and_then (if cnd p then (case s of (m, dst, last_elt) \<Rightarrow> select_one m dst last_elt p h) else Some (Going s))
         (\<lambda>s. select_chain cnd src (hh_next h) s)
     })"

fun select_buckets ::
  "(nat \<Rightarrow> bool) \<Rightarrow> uh_mem \<Rightarrow> UT_hash_bucket list \<Rightarrow> uh_mem \<times> nat option \<times> nat option \<Rightarrow> (uh_mem \<times> nat option \<times> nat option) run option" where
  "select_buckets cnd src [] s = Some (Going s)"
| "select_buckets cnd src (b # bs) s = and_then (select_chain cnd src (hh_head b) s) (select_buckets cnd src bs)"

definition HASH_SELECT ::
  "(nat \<Rightarrow> bool) \<Rightarrow> uh_mem \<Rightarrow> nat option \<Rightarrow> uh_mem \<Rightarrow> nat option \<Rightarrow> (uh_mem \<times> nat option) run option" where
  "HASH_SELECT cnd src src_head m dst = (case src_head of
     None \<Rightarrow> Some (Going (m, dst))
   | Some p \<Rightarrow> do {
       (t, T) \<leftarrow> tbl_of src p;
       bs \<leftarrow> rdn (buckets T) 0 (unat (num_buckets T));
       and_then (select_buckets cnd src bs (m, dst, None)) (\<lambda>(m, dst, _). Some (Going (m, dst)))
     })"

section \<open>The last element of the second table\<close>

text \<open>The buckets do not move the end of a table, nor its elements to another table or to another place in the order.\<close>

definition keeps_end :: "uh_mem \<Rightarrow> uh_mem \<Rightarrow> bool" where
  "keeps_end m m' \<longleftrightarrow> same_on UNIV (\<lambda>h. (tbl h, nxt h)) (elems m) (elems m') \<and> (\<forall>t. map_option tail (tables m' t) = map_option tail (tables m t))"

lemma keeps_end_refl [simp]: "keeps_end m m"
  by (simp add: keeps_end_def)

lemma keeps_end_trans: "keeps_end m m' \<Longrightarrow> keeps_end m' m'' \<Longrightarrow> keeps_end m m''"
  by (auto simp: keeps_end_def intro: same_on_trans)

lemma keeps_end_upd_hh: "upd_hh p f m = Some m' \<Longrightarrow> (\<And>h. tbl (f h) = tbl h \<and> nxt (f h) = nxt h) \<Longrightarrow> keeps_end m m'"
  by (auto simp: keeps_end_def upd_hh_def same_on_modify split: if_splits)

lemma keeps_end_upd_tbl: "upd_tbl t f m = Some m' \<Longrightarrow> (\<And>T. tail (f T) = tail T) \<Longrightarrow> keeps_end m m'"
  by (auto simp: keeps_end_def upd_tbl_def modify_apply option.map_comp comp_def split: if_splits)

lemma keeps_end_tables: "tables m t = Some T \<Longrightarrow> tail T' = tail T \<Longrightarrow> keeps_end m (m\<lparr>tables := (tables m)(t \<mapsto> T')\<rparr>)"
  by (simp add: keeps_end_def)

text \<open>Steps on handles alone leave the tables as they are.\<close>

definition hh_step :: "uh_mem \<Rightarrow> uh_mem \<Rightarrow> bool" where
  "hh_step m m' \<longleftrightarrow> keeps_end m m' \<and> tables m' = tables m"

lemma hh_step_refl [simp]: "hh_step m m"
  by (simp add: hh_step_def)

lemma hh_step_trans: "hh_step m m' \<Longrightarrow> hh_step m' m'' \<Longrightarrow> hh_step m m''"
  by (auto simp: hh_step_def intro: keeps_end_trans)

lemma upd_hh_step: "upd_hh p f m = Some m' \<Longrightarrow> (\<And>h. tbl (f h) = tbl h \<and> nxt (f h) = nxt h) \<Longrightarrow> hh_step m m'"
  using keeps_end_upd_hh by (auto simp: hh_step_def upd_hh_def split: if_splits)

lemma link_front_step:
  assumes "link_front p q m = Some m'"
  shows "hh_step m m'"
proof -
  obtain m1 where 1: "upd_hh p (\<lambda>h. h\<lparr>hh_next := q, hh_prev := None\<rparr>) m = Some m1"
    and 2: "(case q of None \<Rightarrow> Some m1 | Some y \<Rightarrow> upd_hh y (\<lambda>h. h\<lparr>hh_prev := Some p\<rparr>) m1) = Some m'"
    using assms unfolding link_front_def bind_eq_Some_conv by blast
  have "hh_step m1 m'"
    using 2 by (cases q) (auto intro: upd_hh_step)
  then show ?thesis
    using hh_step_trans [OF upd_hh_step [OF 1]] by simp
qed

lemma expand_one_step:
  assumes "expand_one m T new p = Some (m', T', new', q)"
  shows "hh_step m m' \<and> tail T' = tail T"
  using assms unfolding expand_one_def
  by (auto simp only: bind_eq_Some_conv Let_def prod.inject option.inject dest!: link_front_step split: if_splits prod.splits)
    (auto split: if_splits)

lemma expand_chain_step:
  assumes "expand_chain q m T new = Some r"
  shows "hh_step m (fst r) \<and> tail (fst (snd r)) = tail T"
proof (rule expand_chain.raw_induct [of "\<lambda>q m T new r. hh_step m (fst r) \<and> tail (fst (snd r)) = tail T", OF _ assms])
  fix rec q m T new r
  assume IH: "\<And>q m T new r. rec q m T new = Some r \<Longrightarrow> hh_step m (fst r) \<and> tail (fst (snd r)) = tail T"
    and body: "(case q of None \<Rightarrow> Some (m, T, new) | Some p \<Rightarrow> do { (m, T, new, q) \<leftarrow> expand_one m T new p; rec q m T new }) = Some r"
  show "hh_step m (fst r) \<and> tail (fst (snd r)) = tail T"
  proof (cases q)
    case None
    then show ?thesis
      using body by auto
  next
    case (Some p)
    then obtain m1 T1 new1 q1 where e: "expand_one m T new p = Some (m1, T1, new1, q1)" and r: "rec q1 m1 T1 new1 = Some r"
      using body by (cases "expand_one m T new p") auto
    show ?thesis
      using expand_one_step [OF e] IH [OF r] hh_step_trans [of m m1 "fst r"] by simp
  qed
qed

lemma expand_all_step:
  "expand_all m T new bs = Some (m', T', new') \<Longrightarrow> hh_step m m' \<and> tail T' = tail T"
proof (induction bs arbitrary: m T new)
  case (Cons b bs)
  then obtain m1 T1 new1 where "expand_chain (hh_head b) m T new = Some (m1, T1, new1)" "expand_all m1 T1 new1 bs = Some (m', T', new')"
    by (cases "expand_chain (hh_head b) m T new") auto
  then show ?case
    using Cons.IH [of m1 T1 new1] expand_chain_step [of "hh_head b" m T new] hh_step_trans [of m m1 m'] by simp
qed simp

text \<open>What remains when a request for memory is served.\<close>

lemma and_then_Going: "and_then r f = Some (Going y) \<longleftrightarrow> (\<exists>x. r = Some (Going x) \<and> f x = Some (Going y))"
  by (auto simp: and_then_def split: option.splits run.splits)

lemma malloc_keeps: "uthash_malloc n m = Going (i, m') \<Longrightarrow> keeps_end m m' \<and> tables m' = tables m"
  by (auto simp: uthash_malloc_def keeps_end_def split: if_splits)

lemma expand_keeps:
  assumes "HASH_EXPAND_BUCKETS m t = Some (Going m')"
  shows "keeps_end m m'"
proof -
  obtain T where T: "tables m t = Some T"
    using assms by (auto simp: HASH_EXPAND_BUCKETS_def bind_eq_Some_conv)
  let ?T = "T\<lparr>ideal_chain_maxlen := drop_bit (unat (log2_num_buckets T + 1)) (num_items T) +
      (if num_items T AND (num_buckets T * 2 - 1) \<noteq> 0 then 1 else 0), nonideal_items := 0\<rparr>"
  obtain i m1 m2 T2 new2 T3 old where
    1: "uthash_malloc (unat (2 * num_buckets T) * sizeof_bucket) m = Going (i, m1)" and
    2: "expand_all m1 ?T (replicate (unat (2 * num_buckets T)) zero_bucket) old = Some (m2, T2, new2)" and
    3: "m' = m2\<lparr>tables := (tables m2)(t \<mapsto> T3)\<rparr>" "tail T3 = tail T2"
    using assms unfolding HASH_EXPAND_BUCKETS_def T
    by (fastforce simp: and_then_Going bind_eq_Some_conv Let_def split: prod.splits)
  have "keeps_end m m1 \<and> tables m1 = tables m" "keeps_end m1 m2 \<and> tables m2 = tables m1" "tail T2 = tail T"
    using malloc_keeps [OF 1] expand_all_step [OF 2] by (auto simp: hh_step_def)
  then show ?thesis
    unfolding 3(1) using keeps_end_tables [of m2 t T T3] T 3(2) keeps_end_trans by metis
qed

lemma add_to_bkt_keeps:
  assumes "HASH_ADD_TO_BKT m t i p = Some (Going m')"
  shows "keeps_end m m'"
proof -
  obtain T b where T: "tables m t = Some T" "rd (buckets T) i = Some b"
    using assms unfolding HASH_ADD_TO_BKT_def by (auto simp only: bind_eq_Some_conv)
  obtain m1 where l: "link_front p (hh_head b) m = Some m1"
    using assms unfolding HASH_ADD_TO_BKT_def by (cases "link_front p (hh_head b) m") (simp_all add: T)
  obtain bs where w: "wr (buckets T) i (b\<lparr>count := count b + 1, hh_head := Some p\<rparr>) = Some bs"
    using assms unfolding HASH_ADD_TO_BKT_def
    by (cases "wr (buckets T) i (b\<lparr>count := count b + 1, hh_head := Some p\<rparr>)") (simp_all add: T l)
  let ?m = "m1\<lparr>tables := (tables m1)(t \<mapsto> T\<lparr>buckets := bs\<rparr>)\<rparr>"
  have "keeps_end m m1" "tables m1 = tables m"
    using link_front_step [OF l] by (auto simp: hh_step_def)
  then have "keeps_end m ?m"
    using keeps_end_trans keeps_end_tables [of m1 t T "T\<lparr>buckets := bs\<rparr>"] T by simp
  moreover have "keeps_end ?m m'"
    using assms expand_keeps unfolding HASH_ADD_TO_BKT_def
    by (cases "tbl_of ?m p") (auto simp: T l w Let_def split: if_splits)
  ultimately show ?thesis
    by (rule keeps_end_trans)
qed

text \<open>The table of \<open>d\<close> has \<open>d\<close> as its last element.\<close>

definition ends_at :: "uh_mem \<Rightarrow> nat \<Rightarrow> bool" where
  "ends_at m d \<longleftrightarrow> (\<exists>t T. tbl_of m d = Some (t, T) \<and> tail T = Some d)"

lemma keeps_end_at: "keeps_end m m' \<Longrightarrow> ends_at m d \<Longrightarrow> ends_at m' d"
proof -
  assume k: "keeps_end m m'" and e: "ends_at m d"
  obtain h t T where h: "elems m d = Some h" "tbl h = Some t" "tables m t = Some T" "tail T = Some d"
    using e by (auto simp: ends_at_def tbl_of_def bind_eq_Some_conv)
  have "map_option (\<lambda>h. (tbl h, nxt h)) (elems m' d) = Some (Some t, nxt h)" "map_option tail (tables m' t) = Some (Some d)"
    using k h by (simp_all add: keeps_end_def same_on_def)
  then show ?thesis
    by (auto simp: ends_at_def tbl_of_def)
qed

lemma tbl_of_upd_hh:
  "upd_hh p f m = Some m' \<Longrightarrow> tbl_of m d = Some (t, T) \<Longrightarrow> (\<And>h. tbl (f h) = tbl h \<or> tbl (f h) = Some t) \<Longrightarrow> tbl_of m' d = Some (t, T)"
  by (auto simp: upd_hh_def tbl_of_def bind_eq_Some_conv modify_apply split: if_splits) metis+

lemma make_table_ends: "HASH_MAKE_TABLE m p = Some (Going m') \<Longrightarrow> ends_at m' p"
  by (auto simp: HASH_MAKE_TABLE_def and_then_Going bind_eq_Some_conv upd_hh_def uthash_malloc_def ends_at_def tbl_of_def
      split: if_splits)

lemma select_one_ends:
  assumes "select_one m dst last_elt p h = Some (Going (m', dst', last'))" and "\<And>d. dst = Some d \<Longrightarrow> ends_at m d"
  shows "\<exists>d. dst' = Some d \<and> ends_at m' d"
proof -
  obtain m1 where 1: "upd_hh p (\<lambda>g. g\<lparr>key := key h, keylen := keylen h, hashv := hashv h, prev := last_elt, nxt := None\<rparr>) m = Some m1"
    using assms(1) unfolding select_one_def by (auto simp only: bind_eq_Some_conv)
  obtain m2 where 2: "(case last_elt of Some l \<Rightarrow> upd_hh l (\<lambda>g. g\<lparr>nxt := Some p\<rparr>) m1 | None \<Rightarrow> Some m1) = Some m2"
    using assms(1) unfolding select_one_def 1 by (auto simp only: bind_eq_Some_conv Option.bind.simps)
  obtain m3 d where 3: "(case dst of
         None \<Rightarrow> and_then (HASH_MAKE_TABLE m2 p) (\<lambda>m. Some (Going (m, p)))
       | Some d \<Rightarrow> do { (t, T) \<leftarrow> tbl_of m2 d; m \<leftarrow> upd_hh p (\<lambda>g. g\<lparr>tbl := Some t\<rparr>) m2; Some (Going (m, d)) }) = Some (Going (m3, d))"
    and 4: "do { (t, T) \<leftarrow> tbl_of m3 p;
         and_then (HASH_ADD_TO_BKT m3 t (unat (HASH_TO_BKT (hashv h) (num_buckets T))) p) (\<lambda>m. do {
           (t, T) \<leftarrow> tbl_of m d;
           m \<leftarrow> upd_tbl t (\<lambda>T. T\<lparr>num_items := num_items T + 1\<rparr>) m;
           Some (Going (m, Some d, Some p))
         }) } = Some (Going (m', dst', last'))"
    using assms(1) unfolding select_one_def 1 2 Option.bind.simps and_then_Going by auto
  have "ends_at m3 d"
  proof (cases dst)
    case None
    then show ?thesis
      using 3 make_table_ends by (auto simp: and_then_Going)
  next
    case (Some e)
    then obtain t T where t: "tbl_of m e = Some (t, T)" "tail T = Some e"
      using assms(2) by (auto simp: ends_at_def)
    have "tbl_of m2 e = Some (t, T)"
    proof (cases last_elt)
      case None
      then show ?thesis
        using 2 tbl_of_upd_hh [OF 1 t(1)] by simp
    next
      case (Some l)
      then show ?thesis
        using 2 tbl_of_upd_hh [OF _ tbl_of_upd_hh [OF 1 t(1)]] by simp
    qed
    then show ?thesis
      using 3 t(2) tbl_of_upd_hh [of p _ m2 m3 e t T] by (auto simp: Some bind_eq_Some_conv ends_at_def)
  qed
  moreover obtain t i m4 t' where 5: "HASH_ADD_TO_BKT m3 t i p = Some (Going m4)"
      and 6: "upd_tbl t' (\<lambda>T. T\<lparr>num_items := num_items T + 1\<rparr>) m4 = Some m'" "dst' = Some d"
    using 4 by (cases "tbl_of m3 p") (auto simp: and_then_Going bind_eq_Some_conv)
  moreover have "keeps_end m4 m'"
    by (rule keeps_end_upd_tbl [OF 6(1)]) simp
  ultimately show ?thesis
    using keeps_end_at [OF keeps_end_trans [OF add_to_bkt_keeps]] by blast
qed

definition ends_first :: "uh_mem \<times> nat option \<times> nat option \<Rightarrow> bool" where
  "ends_first s \<longleftrightarrow> (\<forall>d. fst (snd s) = Some d \<longrightarrow> ends_at (fst s) d)"

lemma select_chain_ends:
  assumes "select_chain cnd src q s = Some r" and "ends_first s" and "r = Going s'"
  shows "ends_first s'"
proof -
  have "\<forall>s'. ends_first s \<longrightarrow> r = Going s' \<longrightarrow> ends_first s'"
  proof (rule select_chain.raw_induct [of "\<lambda>cnd src q s r. \<forall>s'. ends_first s \<longrightarrow> r = Going s' \<longrightarrow> ends_first s'", OF _ assms(1)])
    fix rec cnd src q s r
    assume IH: "\<And>cnd src q s r. rec cnd src q s = Some r \<Longrightarrow> \<forall>s'. ends_first s \<longrightarrow> r = Going s' \<longrightarrow> ends_first s'"
      and body: "(case q of None \<Rightarrow> Some (Going s) | Some p \<Rightarrow> do { h \<leftarrow> elems src p;
        and_then (if cnd p then (case s of (m, dst, last_elt) \<Rightarrow> select_one m dst last_elt p h) else Some (Going s))
          (\<lambda>s. rec cnd src (hh_next h) s) }) = Some r"
    show "\<forall>s'. ends_first s \<longrightarrow> r = Going s' \<longrightarrow> ends_first s'"
    proof (intro allI impI)
      fix s' assume s: "ends_first s" and r: "r = Going s'"
      show "ends_first s'"
      proof (cases q)
        case None
        then show ?thesis
          using body s r by simp
      next
        case (Some p)
        then obtain h s1 where 1: "(if cnd p then (case s of (m, dst, last_elt) \<Rightarrow> select_one m dst last_elt p h) else Some (Going s)) = Some (Going s1)"
            and 2: "rec cnd src (hh_next h) s1 = Some (Going s')"
          using body r by (cases "elems src p") (auto simp only: option.case Option.bind.simps and_then_Going)
        obtain m dst last_elt m1 dst1 last1 where t: "s = (m, dst, last_elt)" "s1 = (m1, dst1, last1)"
          by (cases s, cases s1) auto
        have "ends_first s1"
          using 1 s select_one_ends [of m dst last_elt p h m1 dst1 last1] by (auto simp: t ends_first_def split: if_splits)
        then show ?thesis
          using IH [OF 2] by blast
      qed
    qed
  qed
  then show ?thesis
    using assms(2,3) by blast
qed

lemma select_buckets_ends: "select_buckets cnd src bs s = Some (Going s') \<Longrightarrow> ends_first s \<Longrightarrow> ends_first s'"
  by (induction bs arbitrary: s) (auto simp: and_then_Going dest: select_chain_ends)

text \<open>However many elements are selected, the table that \<open>HASH_SELECT\<close> makes has its first element as its last one.\<close>

theorem select_ends_at_head:
  assumes "HASH_SELECT cnd src src_head m None = Some (Going (m', Some d))"
  shows "ends_at m' d"
proof -
  obtain bs last' where "select_buckets cnd src bs (m, None, None) = Some (Going (m', Some d, last'))"
    using assms by (auto simp: HASH_SELECT_def bind_eq_Some_conv and_then_Going split: option.splits)
  then have "ends_first (m', Some d, last')"
    by (rule select_buckets_ends) (simp add: ends_first_def)
  then show ?thesis
    by (simp add: ends_first_def)
qed

text \<open>The handle \<open>e\<close> follows \<open>d\<close> and is the last one.\<close>

definition follows :: "uh_mem \<Rightarrow> nat \<Rightarrow> nat \<Rightarrow> bool" where
  "follows m d e \<longleftrightarrow> map_option nxt (elems m d) = Some (Some e) \<and> map_option nxt (elems m e) = Some None"

lemma follows_iter: "follows m d e \<Longrightarrow> HASH_ITER m (Some d) = Some [d, e]"
  by (auto simp: follows_def HASH_ITER.simps)

lemma follows_upd_hh: "upd_hh p f m = Some m' \<Longrightarrow> (\<And>h. nxt (f h) = nxt h) \<Longrightarrow> follows m d e \<Longrightarrow> follows m' d e"
  by (auto simp: follows_def upd_hh_def modify_apply split: if_splits)

lemma follows_upd_tbl: "upd_tbl t f m = Some m' \<Longrightarrow> follows m d e \<Longrightarrow> follows m' d e"
  by (auto simp: follows_def upd_tbl_def split: if_splits)

lemma follows_keeps:
  assumes "keeps_end m m'" and "follows m d e"
  shows "follows m' d e"
proof -
  have "map_option nxt (elems m' x) = map_option nxt (elems m x)" for x
  proof -
    have "map_option (\<lambda>h. (tbl h, nxt h)) (elems m' x) = map_option (\<lambda>h. (tbl h, nxt h)) (elems m x)"
      using assms(1) by (simp add: keeps_end_def same_on_def)
    then show ?thesis
      by (cases "elems m' x"; cases "elems m x") auto
  qed
  then show ?thesis
    using assms(2) by (simp add: follows_def)
qed

lemma add_in_order_follows:
  assumes "ends_at m d" and "e \<noteq> d" and "map_option nxt (elems m e) = Some None" and "add_in_order m (Some d) e = Some (Going (m', p))"
  shows "follows m' d e \<and> p = d"
  using assms
  by (auto simp: add_in_order_def ends_at_def bind_eq_Some_conv upd_hh_def upd_tbl_def follows_def modify_apply split: if_splits)

lemma add_in_bucket_follows:
  assumes "add_in_bucket fcn m p k n e = Some (Going (m', head'))" and "follows m p e"
  shows "follows m' p e \<and> head' = Some p"
proof -
  obtain t m1 m2 m3 hv i where "upd_tbl t (\<lambda>T. T\<lparr>num_items := num_items T + 1\<rparr>) m = Some m1" "upd_hh e (\<lambda>h. h\<lparr>tbl := Some t\<rparr>) m1 = Some m2"
      "upd_hh e (\<lambda>h. h\<lparr>hashv := hv\<rparr>) m2 = Some m3" and a: "HASH_ADD_TO_BKT m3 t i e = Some (Going m')" "head' = Some p"
    using assms(1) unfolding add_in_bucket_def by (auto simp: bind_eq_Some_conv and_then_Going)
  then have "follows m3 p e"
    using follows_upd_hh follows_upd_tbl assms(2) by (metis (no_types, lifting) UT_hash_handle.select_convs(3) UT_hash_handle.surjective UT_hash_handle.update_convs(1,8))
  then show ?thesis
    using follows_keeps [OF add_to_bkt_keeps [OF a(1)]] a(2) by blast
qed

text \<open>The next element that is added follows the first one: the walk through the table no longer visits those between.\<close>

theorem select_then_add_drops:
  assumes "HASH_SELECT cnd src src_head m None = Some (Going (m1, Some d))" and "e \<noteq> d"
    and "HASH_ADD fcn m1 (Some d) n e = Some (Going (m2, head2))"
  shows "HASH_ITER m2 head2 = Some [d, e]"
proof -
  obtain m3 m4 p where 1: "upd_hh e (\<lambda>h. h\<lparr>nxt := None, key := e, keylen := of_nat n\<rparr>) m1 = Some m3"
      and 2: "add_in_order m3 (Some d) e = Some (Going (m4, p))" and 3: "add_in_bucket fcn m4 p e n e = Some (Going (m2, head2))"
    using assms(3) unfolding HASH_ADD_def HASH_ADD_KEYPTR_def by (auto simp: bind_eq_Some_conv and_then_Going)
  obtain t T where "tbl_of m1 d = Some (t, T)" "tail T = Some d"
    using select_ends_at_head [OF assms(1)] by (auto simp: ends_at_def)
  then have "ends_at m3 d"
    using tbl_of_upd_hh [OF 1, of d t T] by (simp add: ends_at_def)
  moreover have "map_option nxt (elems m3 e) = Some None"
    using 1 by (auto simp: upd_hh_def split: if_splits)
  ultimately have "follows m4 d e" "p = d"
    using add_in_order_follows assms(2) 2 by blast+
  then show ?thesis
    using add_in_bucket_follows 3 follows_iter by blast
qed

end
