(* ===== verification/Gatt_Service.thy ===== *)
theory Gatt_Service
  imports Gatt
begin

text \<open>
  Registration of a service with a local attribute server (\<open>examples/vehicle-tool/gatt-service.c\<close>, with the
  struct of \<open>att-database.h\<close>).

  The server (\<open>attrib-server.c\<close> of BlueZ) is not in the repository: its three functions are the record
  \<open>attrib_server\<close>, a parameter of every operation. The attributes are heap cells, since this code writes into the
  struct that the server returns. The variable arguments are a list that ends where the C code finds
  \<open>GATT_OPT_INVALID\<close>. Messages to the system log have no counterpart.
\<close>

section \<open>Data\<close>

abbreviation (input) GATT_CHR_VALUE_READ :: int where "GATT_CHR_VALUE_READ \<equiv> 9"
abbreviation (input) GATT_CHR_VALUE_WRITE :: int where "GATT_CHR_VALUE_WRITE \<equiv> 10"
abbreviation (input) GATT_CHR_VALUE_BOTH :: int where "GATT_CHR_VALUE_BOTH \<equiv> 11"

abbreviation (input) ATT_CHAR_PROPER_READ :: u8 where "ATT_CHAR_PROPER_READ \<equiv> 0x02"
abbreviation (input) ATT_CHAR_PROPER_WRITE_WITHOUT_RESP :: u8 where "ATT_CHAR_PROPER_WRITE_WITHOUT_RESP \<equiv> 0x04"
abbreviation (input) ATT_CHAR_PROPER_WRITE :: u8 where "ATT_CHAR_PROPER_WRITE \<equiv> 0x08"
abbreviation (input) ATT_CHAR_PROPER_NOTIFY :: u8 where "ATT_CHAR_PROPER_NOTIFY \<equiv> 0x10"
abbreviation (input) ATT_CHAR_PROPER_INDICATE :: u8 where "ATT_CHAR_PROPER_INDICATE \<equiv> 0x20"

abbreviation (input) GATT_CLIENT_CHARAC_CFG_UUID :: u16 where "GATT_CLIENT_CHARAC_CFG_UUID \<equiv> 0x2902"

datatype att_requirement = ATT_NONE | ATT_AUTHENTICATION | ATT_AUTHORIZATION | ATT_NOT_PERMITTED

datatype attrib_event_t = ATTRIB_READ | ATTRIB_WRITE

text \<open>The function pointers and the user data are of type \<open>'p\<close>, with \<open>None\<close> for NULL.\<close>

record 'p attrib_cb =
  cb_event :: attrib_event_t
  cb_fn :: "'p option"
  cb_data :: "'p option"

record 'p gatt_info =
  gi_uuid :: bt_uuid_t
  gi_props :: u8
  gi_authentication :: int
  gi_authorization :: int
  gi_callbacks :: "'p attrib_cb list"
  gi_num_attrs :: u32
  gi_value_handle :: "nat option"
  gi_ccc_handle :: "nat option"

text \<open>An option with its arguments. The two pointers to handles are numbered variables of the caller.\<close>

datatype 'p gatt_opt =
    CHR_UUID bt_uuid_t
  | CHR_UUID16 int
  | CHR_PROPS int
  | CHR_VALUE_CB attrib_event_t "'p option" "'p option"
  | CHR_AUTHENTICATION int
  | CHR_AUTHORIZATION int
  | CHR_VALUE_GET_HANDLE "nat option"
  | CCC_GET_HANDLE "nat option"
  | Invalid_Option int

record 'p attribute =
  a_handle :: u16
  a_uuid :: bt_uuid_t
  a_read_req :: att_requirement
  a_write_req :: att_requirement
  a_read_cb :: "'p option"
  a_write_cb :: "'p option"
  a_user_data :: "'p option"
  a_value :: bytes

text \<open>What the functions work on: the attributes, the caller's variables, and the rest of the server's state.\<close>

record ('p, 'd) btd_adapter =
  attributes :: "'p attribute option list"
  vars :: "nat \<rightharpoonup> u16"
  server :: 'd

record ('p, 'd) attrib_server =
  attrib_db_add :: "u16 \<Rightarrow> bt_uuid_t \<Rightarrow> att_requirement \<Rightarrow> att_requirement \<Rightarrow> bytes \<Rightarrow>
    ('p, 'd) btd_adapter \<Rightarrow> nat option \<times> ('p, 'd) btd_adapter"
  attrib_db_find_avail :: "bt_uuid_t \<Rightarrow> u32 \<Rightarrow> ('p, 'd) btd_adapter \<Rightarrow> u16"
  attrib_db_del :: "u16 \<Rightarrow> ('p, 'd) btd_adapter \<Rightarrow> int \<times> ('p, 'd) btd_adapter"

section \<open>The options\<close>

definition new_info :: "'p gatt_info" where
  "new_info = \<lparr>gi_uuid = BT_UUID_UNSPEC, gi_props = 0, gi_authentication = 0, gi_authorization = 0, gi_callbacks = [],
     gi_num_attrs = 0, gi_value_handle = None, gi_ccc_handle = None\<rparr>"

definition can_notify :: "u8 \<Rightarrow> bool" where
  "can_notify props \<longleftrightarrow> props AND (ATT_CHAR_PROPER_NOTIFY OR ATT_CHAR_PROPER_INDICATE) \<noteq> 0"

fun parse_opt :: "'p gatt_opt \<Rightarrow> 'p gatt_info \<Rightarrow> 'p gatt_info" where
  "parse_opt (CHR_UUID16 v) info =
     info\<lparr>gi_uuid := snd (bt_uuid16_create (word_of_int v)), gi_num_attrs := gi_num_attrs info + 2\<rparr>"
| "parse_opt (CHR_UUID u) info = info\<lparr>gi_uuid := u, gi_num_attrs := gi_num_attrs info + 2\<rparr>"
| "parse_opt (CHR_PROPS p) info = (let info = info\<lparr>gi_props := word_of_int p\<rparr> in
     if can_notify (gi_props info) then info\<lparr>gi_num_attrs := gi_num_attrs info + 1\<rparr> else info)"
| "parse_opt (CHR_VALUE_CB ev fn d) info =
     info\<lparr>gi_callbacks := gi_callbacks info @ [\<lparr>cb_event = ev, cb_fn = fn, cb_data = d\<rparr>]\<rparr>"
| "parse_opt (CHR_VALUE_GET_HANDLE p) info = info\<lparr>gi_value_handle := p\<rparr>"
| "parse_opt (CCC_GET_HANDLE p) info = info\<lparr>gi_ccc_handle := p\<rparr>"
| "parse_opt (CHR_AUTHENTICATION v) info = info\<lparr>gi_authentication := v\<rparr>"
| "parse_opt (CHR_AUTHORIZATION v) info = info\<lparr>gi_authorization := v\<rparr>"
| "parse_opt (Invalid_Option _) info = info"

definition is_uuid_opt :: "'p gatt_opt \<Rightarrow> bool" where
  "is_uuid_opt opt \<longleftrightarrow> (case opt of CHR_UUID16 _ \<Rightarrow> True | CHR_UUID _ \<Rightarrow> True | _ \<Rightarrow> False)"

text \<open>The list from the current struct on.\<close>

fun parse_loop :: "'p gatt_opt list \<Rightarrow> 'p gatt_info \<Rightarrow> 'p gatt_info list" where
  "parse_loop [] info = [info]"
| "parse_loop (opt # opts) info = (let info = parse_opt opt info in
     (case opts of
        [] \<Rightarrow> [info]
      | opt' # _ \<Rightarrow> if is_uuid_opt opt' then info # parse_loop opts new_info else parse_loop opts info))"

definition parse_opts :: "'p gatt_opt list \<Rightarrow> 'p gatt_info list" where
  "parse_opts opts = parse_loop opts new_info"

section \<open>Adding attributes\<close>

definition add_service_declaration ::
  "('p, 'd) attrib_server \<Rightarrow> u16 \<Rightarrow> u16 \<Rightarrow> bt_uuid_t \<Rightarrow> ('p, 'd) btd_adapter \<Rightarrow> (nat option \<times> ('p, 'd) btd_adapter) option" where
  "add_service_declaration srv handle svc uuid db =
     (let add = (\<lambda>atval len. do {
            val \<leftarrow> rdn atval 0 len;
            Some (attrib_db_add srv handle (snd (bt_uuid16_create svc)) ATT_NONE ATT_NOT_PERMITTED val db) })
      in (case uuid of
            BT_UUID16 v \<Rightarrow> do { atval \<leftarrow> att_put_u16 v (replicate 16 0) 0; add atval 2 }
          | BT_UUID128 v \<Rightarrow> do { atval \<leftarrow> att_put_u128 v (replicate 16 0) 0; add atval 16 }
          | _ \<Rightarrow> Some (None, db)))"

definition att_read_req :: "int \<Rightarrow> int \<Rightarrow> u8 \<Rightarrow> att_requirement" where
  "att_read_req authorization authentication props =
     (if authorization = GATT_CHR_VALUE_READ \<or> authorization = GATT_CHR_VALUE_BOTH then ATT_AUTHORIZATION
      else if authentication = GATT_CHR_VALUE_READ \<or> authentication = GATT_CHR_VALUE_BOTH then ATT_AUTHENTICATION
      else if props AND ATT_CHAR_PROPER_READ = 0 then ATT_NOT_PERMITTED
      else ATT_NONE)"

definition att_write_req :: "int \<Rightarrow> int \<Rightarrow> u8 \<Rightarrow> att_requirement" where
  "att_write_req authorization authentication props =
     (if authorization = GATT_CHR_VALUE_WRITE \<or> authorization = GATT_CHR_VALUE_BOTH then ATT_AUTHORIZATION
      else if authentication = GATT_CHR_VALUE_WRITE \<or> authentication = GATT_CHR_VALUE_BOTH then ATT_AUTHENTICATION
      else if props AND (ATT_CHAR_PROPER_WRITE OR ATT_CHAR_PROPER_WRITE_WITHOUT_RESP) = 0 then ATT_NOT_PERMITTED
      else ATT_NONE)"

definition find_callback :: "'p attrib_cb list \<Rightarrow> attrib_event_t \<Rightarrow> 'p attrib_cb option" where
  "find_callback cbs ev = find (\<lambda>cb. cb_event cb = ev) cbs"

fun set_callbacks :: "'p attrib_cb list \<Rightarrow> 'p attribute \<Rightarrow> 'p attribute" where
  "set_callbacks [] a = a"
| "set_callbacks (cb # cbs) a = (let a = (case cb_event cb of
       ATTRIB_READ \<Rightarrow> a\<lparr>a_read_cb := cb_fn cb\<rparr>
     | ATTRIB_WRITE \<Rightarrow> a\<lparr>a_write_cb := cb_fn cb\<rparr>)
     in set_callbacks cbs (a\<lparr>a_user_data := cb_data cb\<rparr>))"

text \<open>A handle is stored through a pointer unless it is NULL.\<close>

definition store_handle :: "nat option \<Rightarrow> u16 \<Rightarrow> ('p, 'd) btd_adapter \<Rightarrow> ('p, 'd) btd_adapter" where
  "store_handle p h db = (case p of None \<Rightarrow> db | Some i \<Rightarrow> db\<lparr>vars := (vars db)(i \<mapsto> h)\<rparr>)"

text \<open>The end of \<open>add_characteristic\<close>, from the descriptor for the client's configuration on.\<close>

definition add_configuration ::
  "('p, 'd) attrib_server \<Rightarrow> u16 \<Rightarrow> u16 \<Rightarrow> 'p gatt_info \<Rightarrow> ('p, 'd) btd_adapter \<Rightarrow> (bool \<times> u16 \<times> ('p, 'd) btd_adapter) option" where
  "add_configuration srv handle h info db =
     (if can_notify (gi_props info) then
        (case attrib_db_add srv h (snd (bt_uuid16_create GATT_CLIENT_CHARAC_CFG_UUID)) ATT_NONE ATT_AUTHENTICATION [0, 0] db of
           (None, db) \<Rightarrow> Some (False, handle, db)
         | (Some i, db) \<Rightarrow> do {
             a \<leftarrow> cell (attributes db) i;
             Some (True, h + 1, store_handle (gi_ccc_handle info) (a_handle a) db)
           })
      else Some (True, h, db))"

text \<open>\<open>handle\<close> is the variable of the caller; it only changes when everything was added.\<close>

definition add_characteristic ::
  "('p, 'd) attrib_server \<Rightarrow> u16 \<Rightarrow> 'p gatt_info \<Rightarrow> ('p, 'd) btd_adapter \<Rightarrow> (bool \<times> u16 \<times> ('p, 'd) btd_adapter) option" where
  "add_characteristic srv handle info db =
     (if (case gi_uuid info of BT_UUID16 _ \<Rightarrow> False | BT_UUID128 _ \<Rightarrow> False | _ \<Rightarrow> True) \<or> gi_props info = 0
      then Some (False, handle, db)
      else let read_req = att_read_req (gi_authorization info) (gi_authentication info) (gi_props info);
               write_req = att_write_req (gi_authorization info) (gi_authentication info) (gi_props info) in
        if read_req \<noteq> ATT_NOT_PERMITTED \<and> find_callback (gi_callbacks info) ATTRIB_READ = None then Some (False, handle, db)
        else if write_req \<noteq> ATT_NOT_PERMITTED \<and> find_callback (gi_callbacks info) ATTRIB_WRITE = None then Some (False, handle, db)
        else do {
          atval \<leftarrow> wr (replicate 512 0) 0 (gi_props info);
          atval \<leftarrow> att_put_u16 (handle + 1) atval 1;
          atval \<leftarrow> att_put_uuid (gi_uuid info) atval 3;
          val \<leftarrow> rdn atval 0 (3 + (case gi_uuid info of BT_UUID16 _ \<Rightarrow> 2 | _ \<Rightarrow> 16));
          (case attrib_db_add srv handle (snd (bt_uuid16_create GATT_CHARAC_UUID)) ATT_NONE ATT_NOT_PERMITTED val db of
             (None, db) \<Rightarrow> Some (False, handle, db)
           | (Some _, db) \<Rightarrow>
               (case attrib_db_add srv (handle + 1) (gi_uuid info) read_req write_req [] db of
                  (None, db) \<Rightarrow> Some (False, handle, db)
                | (Some i, db) \<Rightarrow> do {
                    a \<leftarrow> cell (attributes db) i;
                    let a = set_callbacks (gi_callbacks info) a;
                    let db = db\<lparr>attributes := (attributes db)[i := Some a]\<rparr>;
                    add_configuration srv handle (handle + 2) info (store_handle (gi_value_handle info) (a_handle a) db)
                  }))
        })"

fun add_characteristics ::
  "('p, 'd) attrib_server \<Rightarrow> u16 \<Rightarrow> 'p gatt_info list \<Rightarrow> ('p, 'd) btd_adapter \<Rightarrow> (bool \<times> u16 \<times> ('p, 'd) btd_adapter) option" where
  "add_characteristics srv h [] db = Some (True, h, db)"
| "add_characteristics srv h (info # chrs) db = do {
     (ok, h, db) \<leftarrow> add_characteristic srv h info db;
     (if ok then add_characteristics srv h chrs db else Some (False, h, db))
   }"

text \<open>The handle is a 16-bit number: the loop does not end when \<open>end_h\<close> is the largest of them.\<close>

partial_function (option) service_attr_del ::
  "('p, 'd) attrib_server \<Rightarrow> u16 \<Rightarrow> u16 \<Rightarrow> ('p, 'd) btd_adapter \<Rightarrow> ('p, 'd) btd_adapter option"
where
  "service_attr_del srv handle end_h db =
     (if handle \<le> end_h then service_attr_del srv (handle + 1) end_h (snd (attrib_db_del srv handle db)) else Some db)"

text \<open>An assertion that fails ends the program.\<close>

definition gatt_service_add ::
  "('p, 'd) attrib_server \<Rightarrow> u16 \<Rightarrow> bt_uuid_t \<Rightarrow> 'p gatt_opt list \<Rightarrow> ('p, 'd) btd_adapter \<Rightarrow> (bool \<times> ('p, 'd) btd_adapter) option" where
  "gatt_service_add srv uuid svc_uuid opts db = do {
     _ \<leftarrow> bt_uuid_to_string (Some svc_uuid) (replicate 37 (CHR 0x00)) 37;
     (if (case svc_uuid of BT_UUID16 _ \<Rightarrow> False | BT_UUID128 _ \<Rightarrow> False | _ \<Rightarrow> True) then Some (False, db)
      else do {
        let chrs = parse_opts opts;
        let size = fold (\<lambda>info n. n + gi_num_attrs info) chrs 1;
        let start = attrib_db_find_avail srv svc_uuid size db;
        (if start = 0 then Some (False, db)
         else do {
           (a, db) \<leftarrow> add_service_declaration srv start uuid svc_uuid db;
           (if a = None then Some (False, db)
            else do {
              (ok, h, db) \<leftarrow> add_characteristics srv (start + 1) chrs db;
              (if \<not> ok then do { db \<leftarrow> service_attr_del srv start (h - 1) db; Some (False, db) }
               else if size \<ge> 65535 then None
               else if h \<noteq> 0 \<and> uint h - uint start \<noteq> uint (ucast size :: u16) then None
               else Some (True, db))
            })
         })
      })
   }"

end
