(* ===== verification/Service_Props.thy ===== *)
theory Service_Props
  imports Gatt_Service Att_Codec
begin

text \<open>
  What registering a service promises: with a server that keeps its own contract, the attributes of the service are
  exactly those that the options describe, at consecutive handles. And what is left behind when it fails.
\<close>

section \<open>The server\<close>

definition free_handle :: "u16 \<Rightarrow> ('p, 'd) btd_adapter \<Rightarrow> bool" where
  "free_handle h db \<longleftrightarrow> list_all (\<lambda>c. case c of None \<Rightarrow> True | Some a \<Rightarrow> a_handle a \<noteq> h) (attributes db)"

definition free_range :: "u16 \<Rightarrow> nat \<Rightarrow> ('p, 'd) btd_adapter \<Rightarrow> bool" where
  "free_range h n db \<longleftrightarrow> unat h + n \<le> 65536 \<and>
     list_all (\<lambda>c. case c of None \<Rightarrow> True | Some a \<Rightarrow> unat (a_handle a) < unat h \<or> unat h + n \<le> unat (a_handle a)) (attributes db)"

definition new_attribute :: "u16 \<Rightarrow> bt_uuid_t \<Rightarrow> att_requirement \<Rightarrow> att_requirement \<Rightarrow> bytes \<Rightarrow> 'p attribute" where
  "new_attribute h u r w v = \<lparr>a_handle = h, a_uuid = u, a_read_req = r, a_write_req = w, a_read_cb = None, a_write_cb = None,
     a_user_data = None, a_value = v\<rparr>"

text \<open>The contract of the server: an attribute is added in a new cell when its handle is free, and refused, without
  a change of the attributes, when it is taken; the handles that it offers for a service are free.\<close>

definition server_ok :: "('p, 'd) attrib_server \<Rightarrow> bool" where
  "server_ok srv \<longleftrightarrow>
     (\<forall>h u r w v db. \<exists>d. attrib_db_add srv h u r w v db =
        (if free_handle h db
         then (Some (length (attributes db)), db\<lparr>attributes := attributes db @ [Some (new_attribute h u r w v)], server := d\<rparr>)
         else (None, db\<lparr>server := d\<rparr>))) \<and>
     (\<forall>u n db. attrib_db_find_avail srv u n db \<noteq> 0 \<longrightarrow> free_range (attrib_db_find_avail srv u n db) (unat n) db)"

lemma server_add:
  assumes "server_ok srv" "free_handle h db"
  obtains d where "attrib_db_add srv h u r w v db =
    (Some (length (attributes db)), db\<lparr>attributes := attributes db @ [Some (new_attribute h u r w v)], server := d\<rparr>)"
proof -
  have "\<exists>d. attrib_db_add srv h u r w v db =
        (if free_handle h db
         then (Some (length (attributes db)), db\<lparr>attributes := attributes db @ [Some (new_attribute h u r w v)], server := d\<rparr>)
         else (None, db\<lparr>server := d\<rparr>))"
    using assms(1) by (simp add: server_ok_def)
  then show thesis using assms(2) that by auto
qed

lemma server_range:
  "server_ok srv \<Longrightarrow> attrib_db_find_avail srv u n db \<noteq> 0 \<Longrightarrow> free_range (attrib_db_find_avail srv u n db) (unat n) db"
  by (simp add: server_ok_def)

lemma range_first: "free_range h n db \<Longrightarrow> 0 < n \<Longrightarrow> free_handle h db"
  by (auto simp: free_range_def free_handle_def list_all_iff split: option.splits)

lemma handle_plus: "unat (h :: u16) + m < 65536 \<Longrightarrow> unat (h + of_nat m) = unat h + m"
  by (simp add: unat_word_ariths unat_of_nat16)

text \<open>Rows at the front of a free range leave the rest of it free.\<close>

lemma range_rest:
  assumes "free_range h n db" "m < n" "attributes db' = attributes db @ map Some rows"
    "list_all (\<lambda>a. unat (a_handle a) < unat h + m) rows"
  shows "free_range (h + of_nat m) (n - m) db'"
proof -
  have "unat (h + of_nat m) = unat h + m" using assms(1,2) by (intro handle_plus) (simp add: free_range_def)
  then show ?thesis using assms by (fastforce simp: free_range_def list_all_iff split: option.splits)
qed

section \<open>What the options describe\<close>

text \<open>The options of one characteristic: its UUID first, then its properties and any other options.\<close>

definition is_props_opt :: "'p gatt_opt \<Rightarrow> bool" where
  "is_props_opt opt \<longleftrightarrow> (case opt of CHR_PROPS _ \<Rightarrow> True | _ \<Rightarrow> False)"

definition char_opts :: "'p gatt_opt list \<Rightarrow> bool" where
  "char_opts g \<longleftrightarrow> g \<noteq> [] \<and> is_uuid_opt (hd g) \<and> list_all (\<lambda>opt. \<not> is_uuid_opt opt) (tl g) \<and> length (filter is_props_opt g) = 1"

definition opts_info :: "'p gatt_opt list \<Rightarrow> 'p gatt_info" where
  "opts_info g = fold parse_opt g new_info"

lemma opt_kinds [simp]:
  "is_uuid_opt (CHR_UUID u)" "is_uuid_opt (CHR_UUID16 v)" "\<not> is_uuid_opt (CHR_PROPS p)" "\<not> is_uuid_opt (CHR_VALUE_CB e f d)"
  "\<not> is_uuid_opt (CHR_AUTHENTICATION v)" "\<not> is_uuid_opt (CHR_AUTHORIZATION v)" "\<not> is_uuid_opt (CHR_VALUE_GET_HANDLE i)"
  "\<not> is_uuid_opt (CCC_GET_HANDLE i)" "\<not> is_uuid_opt (Invalid_Option v)"
  "is_props_opt (CHR_PROPS p)" "\<not> is_props_opt (CHR_UUID u)" "\<not> is_props_opt (CHR_UUID16 v)" "\<not> is_props_opt (CHR_VALUE_CB e f d)"
  "\<not> is_props_opt (CHR_AUTHENTICATION v)" "\<not> is_props_opt (CHR_AUTHORIZATION v)" "\<not> is_props_opt (CHR_VALUE_GET_HANDLE i)"
  "\<not> is_props_opt (CCC_GET_HANDLE i)" "\<not> is_props_opt (Invalid_Option v)"
  by (simp_all add: is_uuid_opt_def is_props_opt_def)

lemma parse_loop_group:
  assumes "list_all (\<lambda>opt. \<not> is_uuid_opt opt) os" "rest \<noteq> [] \<longrightarrow> is_uuid_opt (hd rest)"
  shows "parse_loop ((o1 # os) @ rest) info =
    fold parse_opt (o1 # os) info # (if rest = [] then [] else parse_loop rest new_info)"
  using assms(1)
proof (induction os arbitrary: o1 info)
  case Nil
  then show ?case using assms(2) by (cases rest) (simp_all add: Let_def)
next
  case (Cons o2 os)
  then show ?case using Cons.IH [of o2 "parse_opt o1 info"] by (simp add: Let_def)
qed

lemma parse_groups:
  assumes "list_all char_opts gs" "gs \<noteq> []"
  shows "parse_opts (concat gs) = map opts_info gs"
  using assms
proof (induction gs)
  case (Cons g gs)
  obtain o1 os where g: "g = o1 # os" "list_all (\<lambda>opt. \<not> is_uuid_opt opt) os"
    using Cons.prems by (cases g) (auto simp: char_opts_def)
  have r: "concat gs = [] \<longleftrightarrow> gs = []" "gs \<noteq> [] \<longrightarrow> is_uuid_opt (hd (concat gs))"
    using Cons.prems by (cases gs; auto simp: char_opts_def)+
  show ?case
    using parse_loop_group [OF g(2), of "concat gs" o1 new_info] r Cons
    by (cases "gs = []") (simp_all add: parse_opts_def opts_info_def g(1))
qed simp

lemma parse_other_opts:
  assumes "list_all (\<lambda>opt. \<not> is_uuid_opt opt) os"
  shows "filter is_props_opt os = [] \<Longrightarrow> gi_num_attrs (fold parse_opt os info) = gi_num_attrs info \<and>
      gi_props (fold parse_opt os info) = gi_props info"
    "length (filter is_props_opt os) = 1 \<Longrightarrow> gi_num_attrs (fold parse_opt os info) =
      gi_num_attrs info + (if can_notify (gi_props (fold parse_opt os info)) then 1 else 0)"
proof -
  have a: "gi_num_attrs (fold parse_opt os info) = gi_num_attrs info \<and> gi_props (fold parse_opt os info) = gi_props info"
    if "list_all (\<lambda>opt. \<not> is_uuid_opt opt) os" "filter is_props_opt os = []" for os and info :: "'a gatt_info"
    using that
  proof (induction os arbitrary: info)
    case (Cons x os)
    then show ?case by (cases x) simp_all
  qed simp
  show "filter is_props_opt os = [] \<Longrightarrow> gi_num_attrs (fold parse_opt os info) = gi_num_attrs info \<and>
      gi_props (fold parse_opt os info) = gi_props info" by (rule a [OF assms])
  show "length (filter is_props_opt os) = 1 \<Longrightarrow> gi_num_attrs (fold parse_opt os info) =
      gi_num_attrs info + (if can_notify (gi_props (fold parse_opt os info)) then 1 else 0)"
    using assms
  proof (induction os arbitrary: info)
    case (Cons x os)
    then show ?case using a [of os] by (cases x) (simp_all add: Let_def)
  qed simp
qed

lemma opts_info_num:
  assumes "char_opts g"
  shows "gi_num_attrs (opts_info g) = 2 + (if can_notify (gi_props (opts_info g)) then 1 else 0)"
proof -
  obtain o1 os where g: "g = o1 # os" "is_uuid_opt o1" "list_all (\<lambda>opt. \<not> is_uuid_opt opt) os" "length (filter is_props_opt os) = 1"
    using assms by (cases g; cases "hd g") (auto simp: char_opts_def)
  have "gi_num_attrs (parse_opt o1 new_info :: 'a gatt_info) = 2"
    using g(2) by (cases o1) (simp_all add: new_info_def)
  then show ?thesis using parse_other_opts(2) [OF g(3,4), of "parse_opt o1 new_info"] by (simp add: opts_info_def g(1))
qed

section \<open>The attributes of a service\<close>

text \<open>The last callback of a kind is the one that counts.\<close>

definition last_callback :: "attrib_event_t \<Rightarrow> 'p attrib_cb list \<Rightarrow> 'p option" where
  "last_callback ev cbs = (case filter (\<lambda>cb. cb_event cb = ev) cbs of [] \<Rightarrow> None | l \<Rightarrow> cb_fn (last l))"

definition read_requirement :: "'p gatt_info \<Rightarrow> att_requirement" where
  "read_requirement info = att_read_req (gi_authorization info) (gi_authentication info) (gi_props info)"

definition write_requirement :: "'p gatt_info \<Rightarrow> att_requirement" where
  "write_requirement info = att_write_req (gi_authorization info) (gi_authentication info) (gi_props info)"

definition value_row :: "u16 \<Rightarrow> 'p gatt_info \<Rightarrow> 'p attribute" where
  "value_row h info = \<lparr>a_handle = h, a_uuid = gi_uuid info, a_read_req = read_requirement info, a_write_req = write_requirement info,
     a_read_cb = last_callback ATTRIB_READ (gi_callbacks info), a_write_cb = last_callback ATTRIB_WRITE (gi_callbacks info),
     a_user_data = (if gi_callbacks info = [] then None else cb_data (last (gi_callbacks info))), a_value = []\<rparr>"

definition char_rows :: "u16 \<Rightarrow> 'p gatt_info \<Rightarrow> 'p attribute list" where
  "char_rows h info =
     [new_attribute h (BT_UUID16 GATT_CHARAC_UUID) ATT_NONE ATT_NOT_PERMITTED
        (gi_props info # le16 (h + 1) @ uuid_bytes (gi_uuid info)),
      value_row (h + 1) info] @
     (if can_notify (gi_props info)
      then [new_attribute (h + 2) (BT_UUID16 GATT_CLIENT_CHARAC_CFG_UUID) ATT_NONE ATT_AUTHENTICATION [0, 0]] else [])"

definition char_vars :: "u16 \<Rightarrow> 'p gatt_info \<Rightarrow> (nat \<rightharpoonup> u16) \<Rightarrow> nat \<rightharpoonup> u16" where
  "char_vars h info vs = (let vs = (case gi_value_handle info of None \<Rightarrow> vs | Some i \<Rightarrow> vs(i \<mapsto> h + 1)) in
     (case gi_ccc_handle info of Some i \<Rightarrow> if can_notify (gi_props info) then vs(i \<mapsto> h + 2) else vs | None \<Rightarrow> vs))"

definition rows_needed :: "'p gatt_info \<Rightarrow> nat" where
  "rows_needed info = (if can_notify (gi_props info) then 3 else 2)"

fun chars_rows :: "u16 \<Rightarrow> 'p gatt_info list \<Rightarrow> 'p attribute list" where
  "chars_rows h [] = []"
| "chars_rows h (info # infos) = char_rows h info @ chars_rows (h + of_nat (rows_needed info)) infos"

fun chars_vars :: "u16 \<Rightarrow> 'p gatt_info list \<Rightarrow> (nat \<rightharpoonup> u16) \<Rightarrow> nat \<rightharpoonup> u16" where
  "chars_vars h [] vs = vs"
| "chars_vars h (info # infos) vs = chars_vars (h + of_nat (rows_needed info)) infos (char_vars h info vs)"

text \<open>A characteristic can be registered when it has a UUID and properties and a callback for everything it allows.\<close>

definition uuid_ok :: "bt_uuid_t \<Rightarrow> bool" where
  "uuid_ok u \<longleftrightarrow> (case u of BT_UUID16 _ \<Rightarrow> True | BT_UUID128 v \<Rightarrow> length v = 16 | _ \<Rightarrow> False)"

definition info_ok :: "'p gatt_info \<Rightarrow> bool" where
  "info_ok info \<longleftrightarrow> uuid_ok (gi_uuid info) \<and> gi_props info \<noteq> 0 \<and>
     (read_requirement info = ATT_NOT_PERMITTED \<or> find_callback (gi_callbacks info) ATTRIB_READ \<noteq> None) \<and>
     (write_requirement info = ATT_NOT_PERMITTED \<or> find_callback (gi_callbacks info) ATTRIB_WRITE \<noteq> None)"

lemma set_callbacks_value:
  "set_callbacks cbs a = a\<lparr>a_read_cb := (if filter (\<lambda>cb. cb_event cb = ATTRIB_READ) cbs = [] then a_read_cb a else last_callback ATTRIB_READ cbs),
     a_write_cb := (if filter (\<lambda>cb. cb_event cb = ATTRIB_WRITE) cbs = [] then a_write_cb a else last_callback ATTRIB_WRITE cbs),
     a_user_data := (if cbs = [] then a_user_data a else cb_data (last cbs))\<rparr>"
proof (induction cbs arbitrary: a)
  case (Cons cb cbs)
  then show ?case
    by (cases "cb_event cb") (auto simp: last_callback_def Let_def split: list.splits)
qed simp

lemma value_row_made:
  "set_callbacks (gi_callbacks info) (new_attribute h (gi_uuid info) (read_requirement info) (write_requirement info) []) = value_row h info"
  by (auto simp: set_callbacks_value new_attribute_def value_row_def last_callback_def)

lemma value_row_handle [simp]: "a_handle (value_row h info) = h"
  by (simp add: value_row_def)

lemma declaration_value:
  assumes "uuid_ok u"
  shows "do { a \<leftarrow> wr (replicate 512 0) 0 p; a \<leftarrow> att_put_u16 h a 1; a \<leftarrow> att_put_uuid u a 3;
      rdn a 0 (3 + (case u of BT_UUID16 _ \<Rightarrow> 2 | _ \<Rightarrow> 16)) } = Some (p # le16 h @ uuid_bytes u)"
proof -
  have r: "replicate 512 (0 :: u8) = replicate 19 0 @ replicate 493 0" by (simp flip: replicate_add)
  show ?thesis
    using assms unfolding r
    by (cases u) (auto simp: uuid_ok_def att_put_u16_def att_put_uuid_def att_put_uuid16_def att_put_uuid128_def att_put_u128_def
        wr_def wrn_def rdn_def overlay_def le16_def numeral_eq_Suc)
qed

text \<open>A characteristic that can be registered passes all checks, and its declaration can be written.\<close>

lemma info_okE:
  assumes "info_ok info"
  obtains b1 b2 b3 where "gi_props info \<noteq> 0" "(case gi_uuid info of BT_UUID16 _ \<Rightarrow> False | BT_UUID128 _ \<Rightarrow> False | _ \<Rightarrow> True) = False"
    "(read_requirement info \<noteq> ATT_NOT_PERMITTED \<and> find_callback (gi_callbacks info) ATTRIB_READ = None) = False"
    "(write_requirement info \<noteq> ATT_NOT_PERMITTED \<and> find_callback (gi_callbacks info) ATTRIB_WRITE = None) = False"
    "wr (replicate 512 0) 0 (gi_props info) = Some b1" "att_put_u16 (h + 1) b1 1 = Some b2" "att_put_uuid (gi_uuid info) b2 3 = Some b3"
    "rdn b3 0 (3 + (case gi_uuid info of BT_UUID16 _ \<Rightarrow> 2 | _ \<Rightarrow> 16)) = Some (gi_props info # le16 (h + 1) @ uuid_bytes (gi_uuid info))"
proof -
  have u: "uuid_ok (gi_uuid info)" using assms by (simp add: info_ok_def)
  obtain b1 b2 b3 where b: "wr (replicate 512 0) 0 (gi_props info) = Some b1" "att_put_u16 (h + 1) b1 1 = Some b2"
    "att_put_uuid (gi_uuid info) b2 3 = Some b3"
    "rdn b3 0 (3 + (case gi_uuid info of BT_UUID16 _ \<Rightarrow> 2 | _ \<Rightarrow> 16)) = Some (gi_props info # le16 (h + 1) @ uuid_bytes (gi_uuid info))"
    using declaration_value [OF u, of "gi_props info" "h + 1"] unfolding bind_eq_Some_conv by blast
  show thesis
    by (rule that [OF _ _ _ _ b]) (use assms in \<open>auto simp: info_ok_def uuid_ok_def split: bt_uuid_t.splits\<close>)
qed

lemma configuration_added:
  assumes "server_ok srv" "can_notify (gi_props info) \<Longrightarrow> free_handle h db"
  shows "\<exists>d. add_configuration srv h0 h info db = Some (True, h + (if can_notify (gi_props info) then 1 else 0),
    db\<lparr>attributes := attributes db @ map Some (if can_notify (gi_props info)
        then [new_attribute h (BT_UUID16 GATT_CLIENT_CHARAC_CFG_UUID) ATT_NONE ATT_AUTHENTICATION [0, 0]] else []),
      vars := (case gi_ccc_handle info of Some i \<Rightarrow> if can_notify (gi_props info) then (vars db)(i \<mapsto> h) else vars db | None \<Rightarrow> vars db),
      server := d\<rparr>)"
proof (cases "can_notify (gi_props info)")
  case True
  obtain d where "attrib_db_add srv h (BT_UUID16 GATT_CLIENT_CHARAC_CFG_UUID) ATT_NONE ATT_AUTHENTICATION [0, 0] db =
      (Some (length (attributes db)), db\<lparr>attributes := attributes db @
        [Some (new_attribute h (BT_UUID16 GATT_CLIENT_CHARAC_CFG_UUID) ATT_NONE ATT_AUTHENTICATION [0, 0])], server := d\<rparr>)"
    by (rule server_add [OF assms(1) assms(2) [OF True]])
  then show ?thesis
    using True by (intro exI [of _ d])
      (simp add: add_configuration_def bt_uuid16_create_def cell_def store_handle_def new_attribute_def split: option.split)
next
  case False
  then show ?thesis
    by (intro exI [of _ "server db"]) (simp add: add_configuration_def split: option.split)
qed

text \<open>The declaration and the value, up to the descriptor.\<close>

lemma value_added:
  assumes srv: "server_ok srv" and free: "free_range h n db" "1 < n" and info: "info_ok info"
  shows "\<exists>d. add_characteristic srv h info db = add_configuration srv h (h + 2) info (store_handle (gi_value_handle info) (h + 1)
    (db\<lparr>attributes := attributes db @ map Some [new_attribute h (BT_UUID16 GATT_CHARAC_UUID) ATT_NONE ATT_NOT_PERMITTED
        (gi_props info # le16 (h + 1) @ uuid_bytes (gi_uuid info)), value_row (h + 1) info], server := d\<rparr>))"
proof -
  let ?u = "gi_uuid info" and ?p = "gi_props info"
  let ?r = "new_attribute h (BT_UUID16 GATT_CHARAC_UUID) ATT_NONE ATT_NOT_PERMITTED (?p # le16 (h + 1) @ uuid_bytes ?u)"
  have "free_handle h db" using range_first [OF free(1)] free(2) by simp
  then obtain d1 where d1: "attrib_db_add srv h (BT_UUID16 GATT_CHARAC_UUID) ATT_NONE ATT_NOT_PERMITTED (?p # le16 (h + 1) @ uuid_bytes ?u) db =
      (Some (length (attributes db)), db\<lparr>attributes := attributes db @ [Some ?r], server := d1\<rparr>)"
    using server_add [OF srv] by blast
  define db1 where "db1 = db\<lparr>attributes := attributes db @ [Some ?r], server := d1\<rparr>"
  have f1: "free_handle (h + 1) db1"
    using range_rest [OF free, of db1 "[?r]"] free(2)
    by (intro range_first [of _ "n - 1"]) (simp_all add: db1_def new_attribute_def)
  obtain d2 where d2: "attrib_db_add srv (h + 1) ?u (read_requirement info) (write_requirement info) [] db1 =
      (Some (length (attributes db1)), db1\<lparr>attributes := attributes db1 @
        [Some (new_attribute (h + 1) ?u (read_requirement info) (write_requirement info) [])], server := d2\<rparr>)"
    by (rule server_add [OF srv f1])
  obtain b1 b2 b3 where k: "?p \<noteq> 0" "(case ?u of BT_UUID16 _ \<Rightarrow> False | BT_UUID128 _ \<Rightarrow> False | _ \<Rightarrow> True) = False"
    "(read_requirement info \<noteq> ATT_NOT_PERMITTED \<and> find_callback (gi_callbacks info) ATTRIB_READ = None) = False"
    "(write_requirement info \<noteq> ATT_NOT_PERMITTED \<and> find_callback (gi_callbacks info) ATTRIB_WRITE = None) = False"
    and b: "wr (replicate 512 0) 0 ?p = Some b1" "att_put_u16 (h + 1) b1 1 = Some b2" "att_put_uuid ?u b2 3 = Some b3"
    "rdn b3 0 (3 + (case ?u of BT_UUID16 _ \<Rightarrow> 2 | _ \<Rightarrow> 16)) = Some (?p # le16 (h + 1) @ uuid_bytes ?u)"
    by (rule info_okE [OF info])
  have c: "cell (attributes db1 @ [Some x]) (length (attributes db1)) = Some x" for x by (simp add: cell_def)
  have u: "db1\<lparr>server := s, attributes := a\<rparr> = db1\<lparr>attributes := a, server := s\<rparr>" for s a by (cases db1) simp
  have "add_characteristic srv h info db = add_configuration srv h (h + 2) info (store_handle (gi_value_handle info) (h + 1)
      (db1\<lparr>attributes := attributes db1 @ [Some (value_row (h + 1) info)], server := d2\<rparr>))"
    unfolding add_characteristic_def read_requirement_def [symmetric] write_requirement_def [symmetric] Let_def
      bt_uuid16_create_def snd_conv k(2-4) b Option.bind.bind_lunit d1 [folded db1_def] prod.case option.case d2
    using k(1) by (simp add: c value_row_made u del: set_callbacks.simps)
  then show ?thesis by (intro exI [of _ d2]) (simp add: db1_def)
qed

lemma characteristic_added:
  assumes srv: "server_ok srv" and free: "free_range h (rows_needed info) db" and info: "info_ok info"
  shows "\<exists>d. add_characteristic srv h info db = Some (True, h + of_nat (rows_needed info),
    db\<lparr>attributes := attributes db @ map Some (char_rows h info), vars := char_vars h info (vars db), server := d\<rparr>)"
proof -
  have n: "1 < rows_needed info" by (simp add: rows_needed_def)
  define rows where "rows = [new_attribute h (BT_UUID16 GATT_CHARAC_UUID) ATT_NONE ATT_NOT_PERMITTED
    (gi_props info # le16 (h + 1) @ uuid_bytes (gi_uuid info)), value_row (h + 1) info]"
  obtain d where d: "add_characteristic srv h info db = add_configuration srv h (h + 2) info
      (store_handle (gi_value_handle info) (h + 1) (db\<lparr>attributes := attributes db @ map Some rows, server := d\<rparr>))"
    using value_added [OF srv free n info] unfolding rows_def by blast
  define db2 where "db2 = store_handle (gi_value_handle info) (h + 1) (db\<lparr>attributes := attributes db @ map Some rows, server := d\<rparr>)"
  have a: "attributes db2 = attributes db @ map Some rows"
    "vars db2 = (case gi_value_handle info of None \<Rightarrow> vars db | Some i \<Rightarrow> (vars db)(i \<mapsto> h + 1))"
    "db2\<lparr>attributes := x, vars := y, server := z\<rparr> = db\<lparr>attributes := x, vars := y, server := z\<rparr>" for x y z
    by (simp_all add: db2_def store_handle_def split: option.splits)
  have "unat (h + 1) = unat h + 1" using handle_plus [of h 1] free n by (simp add: free_range_def)
  then have f: "free_handle (h + 2) db2" if "can_notify (gi_props info)"
    using range_rest [OF free _ a(1), of 2] that
    by (intro range_first [of _ "rows_needed info - 2"]) (simp_all add: rows_needed_def rows_def new_attribute_def value_row_def)
  obtain e where e: "add_configuration srv h (h + 2) info db2 = Some (True, h + 2 + (if can_notify (gi_props info) then 1 else 0),
    db2\<lparr>attributes := attributes db2 @ map Some (if can_notify (gi_props info)
        then [new_attribute (h + 2) (BT_UUID16 GATT_CLIENT_CHARAC_CFG_UUID) ATT_NONE ATT_AUTHENTICATION [0, 0]] else []),
      vars := (case gi_ccc_handle info of Some i \<Rightarrow> if can_notify (gi_props info) then (vars db2)(i \<mapsto> h + 2) else vars db2 | None \<Rightarrow> vars db2),
      server := e\<rparr>)"
    using configuration_added [OF srv, of info "h + 2" db2 h, OF f] by blast
  show ?thesis
    unfolding d db2_def [symmetric] e a
    by (intro exI [of _ e]) (simp add: rows_needed_def char_rows_def rows_def char_vars_def Let_def split: option.split)
qed

lemma free_range_mono: "free_range h n db \<Longrightarrow> m \<le> n \<Longrightarrow> free_range h m db"
  by (fastforce simp: free_range_def list_all_iff split: option.splits)

lemma char_rows_handles:
  assumes "unat h + rows_needed info \<le> 65536"
  shows "list_all (\<lambda>a. unat (a_handle a) < unat h + rows_needed info) (char_rows h info)"
proof -
  have "unat (h + 1) = unat h + 1" using assms handle_plus [of h 1] by (simp add: rows_needed_def split: if_splits)
  moreover have "can_notify (gi_props info) \<Longrightarrow> unat (h + 2) = unat h + 2"
    using assms handle_plus [of h 2] by (simp add: rows_needed_def)
  ultimately show ?thesis by (simp add: char_rows_def new_attribute_def rows_needed_def)
qed

definition rows_total :: "'p gatt_info list \<Rightarrow> nat" where
  "rows_total infos = sum_list (map rows_needed infos)"

lemma rows_total_simps [simp]: "rows_total [] = 0" "rows_total (info # infos) = rows_needed info + rows_total infos"
  by (simp_all add: rows_total_def)

lemma characteristics_added:
  assumes "server_ok srv" "list_all info_ok infos" "free_range h (rows_total infos) db"
  shows "\<exists>d. add_characteristics srv h infos db = Some (True, h + of_nat (rows_total infos),
    db\<lparr>attributes := attributes db @ map Some (chars_rows h infos), vars := chars_vars h infos (vars db), server := d\<rparr>)"
  using assms(2,3)
proof (induction infos arbitrary: h db)
  case Nil
  show ?case by (intro exI [of _ "server db"]) simp
next
  case (Cons info infos)
  have free: "free_range h (rows_needed info) db" using free_range_mono [OF Cons.prems(2)] by simp
  obtain d where d: "add_characteristic srv h info db = Some (True, h + of_nat (rows_needed info),
      db\<lparr>attributes := attributes db @ map Some (char_rows h info), vars := char_vars h info (vars db), server := d\<rparr>)"
    using characteristic_added [OF assms(1) free] Cons.prems(1) by auto
  let ?db = "db\<lparr>attributes := attributes db @ map Some (char_rows h info), vars := char_vars h info (vars db), server := d\<rparr>"
  have "free_range (h + of_nat (rows_needed info)) (rows_total infos) ?db"
  proof (cases "rows_total infos = 0")
    case True
    have "unat (x :: u16) < 65536" for x using unsigned_less [of x] by simp
    then show ?thesis
      using True by (auto simp: free_range_def list_all_iff not_less less_imp_le split: option.split)
  next
    case False
    then show ?thesis
      using range_rest [OF Cons.prems(2), of "rows_needed info" ?db "char_rows h info"]
        char_rows_handles [of h info] free by (simp add: free_range_def)
  qed
  then obtain e where "add_characteristics srv (h + of_nat (rows_needed info)) infos ?db = Some (True,
      h + of_nat (rows_needed info) + of_nat (rows_total infos), ?db\<lparr>attributes := attributes ?db @
        map Some (chars_rows (h + of_nat (rows_needed info)) infos),
        vars := chars_vars (h + of_nat (rows_needed info)) infos (vars ?db), server := e\<rparr>)"
    using Cons.IH [of "h + of_nat (rows_needed info)" ?db] Cons.prems(1) by auto
  then show ?case using d by (intro exI [of _ e]) simp
qed

section \<open>Registering a service\<close>

definition service_rows :: "u16 \<Rightarrow> u16 \<Rightarrow> bt_uuid_t \<Rightarrow> 'p gatt_info list \<Rightarrow> 'p attribute list" where
  "service_rows start uuid svc infos =
     new_attribute start (BT_UUID16 uuid) ATT_NONE ATT_NOT_PERMITTED (uuid_bytes svc) # chars_rows (start + 1) infos"

lemma handles_after:
  assumes "unat (start :: u16) + n \<le> 65536"
  shows "start + of_nat n = 0 \<or> uint (start + of_nat n) - uint start = int n"
proof (cases "unat start + n = 65536")
  case True
  have "start + of_nat n = of_nat (unat start + n)" by simp
  also have "\<dots> = 0" unfolding True by simp
  finally show ?thesis by simp
next
  case False
  then have "unat (start + of_nat n) = unat start + n" using assms by (intro handle_plus) simp
  then show ?thesis unfolding uint_nat by linarith
qed

text \<open>The number of attributes that the code asks the server for.\<close>

lemma size_counted:
  assumes "list_all char_opts gs"
  shows "fold (\<lambda>info n. n + gi_num_attrs info) (map opts_info gs) (s :: u32) = s + of_nat (rows_total (map opts_info gs))"
  using assms
proof (induction gs arbitrary: s)
  case (Cons g gs)
  have "gi_num_attrs (opts_info g) = of_nat (rows_needed (opts_info g))"
    using opts_info_num [of g] Cons.prems by (simp add: rows_needed_def)
  then show ?case using Cons.IH [of "s + gi_num_attrs (opts_info g)"] Cons.prems by (simp add: add.assoc)
qed simp

lemma service_declared:
  assumes "server_ok srv" "uuid_ok svc" "free_handle h db"
  shows "\<exists>d. add_service_declaration srv h uuid svc db = Some (Some (length (attributes db)), db\<lparr>attributes := attributes db @
    [Some (new_attribute h (BT_UUID16 uuid) ATT_NONE ATT_NOT_PERMITTED (uuid_bytes svc))], server := d\<rparr>)"
proof -
  obtain d where d: "attrib_db_add srv h (BT_UUID16 uuid) ATT_NONE ATT_NOT_PERMITTED (uuid_bytes svc) db =
    (Some (length (attributes db)), db\<lparr>attributes := attributes db @
      [Some (new_attribute h (BT_UUID16 uuid) ATT_NONE ATT_NOT_PERMITTED (uuid_bytes svc))], server := d\<rparr>)"
    by (rule server_add [OF assms(1,3)])
  then show ?thesis
    using assms(2) by (cases svc) (auto simp: uuid_ok_def add_service_declaration_def bt_uuid16_create_def att_put_u16_def
        att_put_u128_def wrn_def rdn_def overlay_def le16_def Let_def)
qed

text \<open>C16: A service is registered completely: when the options describe characteristics with a UUID, properties and a
  callback for everything that they allow, and the server has room, then the service gets its declaration and, for each
  characteristic in order, its declaration with the properties and the handle of the value, its value with the access
  rights and the last callback of each kind, and the descriptor for notifications exactly when it can notify; all at
  consecutive handles, and the caller's variables get the handles that they ask for.\<close>

theorem service_registered:
  assumes "server_ok srv" "uuid_ok svc" "gs \<noteq> []" "list_all char_opts gs" "list_all info_ok (map opts_info gs)"
    and "1 + rows_total (map opts_info gs) < 65535"
    and "attrib_db_find_avail srv svc (1 + of_nat (rows_total (map opts_info gs))) db = start" "start \<noteq> 0"
  shows "\<exists>d. gatt_service_add srv uuid svc (concat gs) db = Some (True, db\<lparr>
    attributes := attributes db @ map Some (service_rows start uuid svc (map opts_info gs)),
    vars := chars_vars (start + 1) (map opts_info gs) (vars db), server := d\<rparr>)"
proof -
  let ?infos = "map opts_info gs"
  let ?n = "rows_total ?infos"
  let ?row = "new_attribute start (BT_UUID16 uuid) ATT_NONE ATT_NOT_PERMITTED (uuid_bytes svc) :: 'a attribute"
  have un: "unat (1 + of_nat ?n :: u32) = 1 + ?n" using assms(6) by (simp add: unat_word_ariths unat_of_nat)
  have free: "free_range start (1 + ?n) db"
    using server_range [OF assms(1), of svc "1 + of_nat ?n" db] assms(7,8) un by simp
  obtain d1 where d1: "add_service_declaration srv start uuid svc db = Some (Some (length (attributes db)),
      db\<lparr>attributes := attributes db @ [Some ?row], server := d1\<rparr>)"
    using service_declared [OF assms(1,2) range_first [OF free]] by auto
  define db1 where "db1 = db\<lparr>attributes := attributes db @ [Some ?row], server := d1\<rparr>"
  have "0 < ?n" using assms(3) by (cases gs) (simp_all add: rows_needed_def)
  then have "free_range (start + 1) ?n db1"
    using range_rest [OF free, of 1 db1 "[?row]"] by (simp add: db1_def new_attribute_def)
  then obtain d2 where d2: "add_characteristics srv (start + 1) ?infos db1 = Some (True, start + 1 + of_nat ?n,
      db1\<lparr>attributes := attributes db1 @ map Some (chars_rows (start + 1) ?infos),
        vars := chars_vars (start + 1) ?infos (vars db1), server := d2\<rparr>)"
    using characteristics_added [OF assms(1,5)] by blast
  obtain str where str: "bt_uuid_to_string (Some svc) (replicate 37 (CHR 0x00)) 37 = Some (0, str)"
  proof -
    have "uuid_wf svc" using assms(2) by (cases svc) (simp_all add: uuid_ok_def)
    then show thesis using string_to_uuid_text [of svc BT_UUID_UNSPEC] that by fastforce
  qed
  have size: "fold (\<lambda>info n. n + gi_num_attrs info) ?infos 1 = 1 + of_nat ?n" by (rule size_counted [OF assms(4)])
  have "unat (ucast (1 + of_nat ?n :: u32) :: u16) = 1 + ?n" using un assms(6) by (simp add: unsigned_ucast_eq take_bit_eq_mod)
  then have "uint (ucast (1 + of_nat ?n :: u32) :: u16) = int (1 + ?n)" by (simp only: uint_nat)
  moreover have "start + 1 + of_nat ?n = start + of_nat (1 + ?n)" by (simp add: add.assoc)
  ultimately have h: "start + 1 + of_nat ?n = 0 \<or> uint (start + 1 + of_nat ?n) - uint start = uint (ucast (1 + of_nat ?n :: u32) :: u16)"
    using handles_after [of start "1 + ?n"] free unfolding free_range_def by metis
  have a: "((1 + of_nat ?n :: u32) \<ge> 65535) = False" using un assms(6) by (simp add: word_le_nat_alt)
  have b: "(case svc of BT_UUID16 _ \<Rightarrow> False | BT_UUID128 _ \<Rightarrow> False | _ \<Rightarrow> True) = False"
    using assms(2) by (auto simp: uuid_ok_def split: bt_uuid_t.splits)
  have c: "(start + 1 + of_nat ?n \<noteq> 0 \<and> uint (start + 1 + of_nat ?n) - uint start \<noteq> uint (ucast (1 + of_nat ?n :: u32) :: u16)) = False"
    using h by blast
  have r: "db1\<lparr>attributes := attributes db1 @ map Some (chars_rows (start + 1) ?infos),
        vars := chars_vars (start + 1) ?infos (vars db1), server := d2\<rparr> = db\<lparr>
      attributes := attributes db @ map Some (service_rows start uuid svc ?infos),
      vars := chars_vars (start + 1) ?infos (vars db), server := d2\<rparr>"
    by (simp add: db1_def service_rows_def)
  have z: "(start = 0) = False" using assms(8) by simp
  have "gatt_service_add srv uuid svc (concat gs) db = Some (True, db1\<lparr>attributes := attributes db1 @ map Some (chars_rows (start + 1) ?infos),
        vars := chars_vars (start + 1) ?infos (vars db1), server := d2\<rparr>)"
    unfolding gatt_service_add_def parse_groups [OF assms(4,3)] Let_def size str b assms(7) z d1 [folded db1_def]
      Option.bind.bind_lunit if_False prod.case d2 not_True_eq_False a c by simp
  then show ?thesis unfolding r by blast
qed

text \<open>A server whose database is empty but for what was added, and a battery service.\<close>

definition sample_server :: "(nat, unit) attrib_server" where
  "sample_server = \<lparr>
     attrib_db_add = (\<lambda>h u r w v db. if free_handle h db
       then (Some (length (attributes db)), db\<lparr>attributes := attributes db @ [Some (new_attribute h u r w v)]\<rparr>) else (None, db)),
     attrib_db_find_avail = (\<lambda>u n db. if free_range 1 (unat n) db then 1 else 0),
     attrib_db_del = (\<lambda>h db. (0, db\<lparr>attributes := map (\<lambda>c. case c of None \<Rightarrow> None | Some a \<Rightarrow> if a_handle a = h then None else c) (attributes db)\<rparr>))\<rparr>"

lemma sample_server_ok: "server_ok sample_server"
proof -
  have "db\<lparr>server := ()\<rparr> = db" "db\<lparr>attributes := a, server := ()\<rparr> = db\<lparr>attributes := a\<rparr>" for db :: "(nat, unit) btd_adapter" and a
    by (cases db; simp)+
  then show ?thesis by (simp add: server_ok_def sample_server_def)
qed

definition battery_opts :: "nat gatt_opt list" where
  "battery_opts = [CHR_UUID16 0x2A19, CHR_PROPS 0x12, CHR_VALUE_CB ATTRIB_READ (Some 7) None,
     CHR_VALUE_GET_HANDLE (Some 0), CCC_GET_HANDLE (Some 1)]"

lemma service_registered_witness:
  "\<exists>db. gatt_service_add sample_server 0x2800 (BT_UUID16 0x180F) battery_opts \<lparr>attributes = [], vars = Map.empty, server = ()\<rparr> = Some (True, db) \<and>
    map (map_option a_value) (attributes db) = [Some [0x0F, 0x18], Some [0x12, 3, 0, 0x19, 0x2A], Some [], Some [0, 0]] \<and>
    vars db 0 = Some 3 \<and> vars db 1 = Some 4"
proof -
  have i: "opts_info battery_opts = \<lparr>gi_uuid = BT_UUID16 0x2A19, gi_props = 0x12, gi_authentication = 0, gi_authorization = 0,
      gi_callbacks = [\<lparr>cb_event = ATTRIB_READ, cb_fn = Some 7, cb_data = None\<rparr>], gi_num_attrs = 3, gi_value_handle = Some 0,
      gi_ccc_handle = Some 1\<rparr>"
    by (simp add: opts_info_def battery_opts_def new_info_def bt_uuid16_create_def can_notify_def)
  have n: "can_notify 0x12" by (simp add: can_notify_def)
  have r: "rows_total [opts_info battery_opts] = 3" by (simp add: i rows_needed_def n)
  have "char_opts battery_opts" by (simp add: char_opts_def battery_opts_def)
  moreover have "info_ok (opts_info battery_opts)"
    by (simp add: i info_ok_def uuid_ok_def read_requirement_def write_requirement_def att_read_req_def att_write_req_def find_callback_def)
  moreover have "attrib_db_find_avail sample_server (BT_UUID16 0x180F) 4 \<lparr>attributes = [], vars = Map.empty, server = ()\<rparr> = 1"
    by (simp add: sample_server_def free_range_def)
  ultimately show ?thesis
    using service_registered [OF sample_server_ok, of "BT_UUID16 0x180F" "[battery_opts]"
        "\<lparr>attributes = [], vars = Map.empty, server = ()\<rparr>" 1 "0x2800"] r
    by (simp add: uuid_ok_def) (simp add: i service_rows_def char_rows_def n new_attribute_def value_row_def le16_def char_vars_def rows_needed_def)
qed

section \<open>When it fails\<close>

text \<open>Deleting what was added comes to an end exactly when the last handle is not the largest of all.\<close>

lemma deletion_step:
  "service_attr_del srv h e db =
    (if h \<le> e then service_attr_del srv (h + 1) e (snd (attrib_db_del srv h db)) else Some db)"
  by (subst service_attr_del.simps) simp

lemma u16_le: "(x :: u16) \<le> 0xFFFF"
proof -
  have "unat x < 65536" using unsigned_less [of x] by simp
  then have "unat x \<le> 65535" by linarith
  then show ?thesis by (simp add: word_le_nat_alt)
qed

lemma deletion_loops:
  assumes "service_attr_del srv h e db = Some db'"
  shows "e \<noteq> 0xFFFF"
proof (rule service_attr_del.raw_induct [where P = "\<lambda>srv h e db db'. e \<noteq> 0xFFFF", OF _ assms])
  fix f and srv :: "('a, 'b) attrib_server" and h e :: u16 and db db'
  assume ih: "\<And>srv h e db db'. f srv h e db = Some db' \<Longrightarrow> e \<noteq> 0xFFFF"
    and run: "(if h \<le> e then f srv (h + 1) e (snd (attrib_db_del srv h db)) else Some db) = Some db'"
  show "e \<noteq> 0xFFFF" using ih run u16_le [of h] by (auto split: if_splits)
qed

lemma deletion_ends:
  assumes "e \<noteq> 0xFFFF"
  shows "\<exists>db'. service_attr_del srv h e db = Some db'"
proof (induction "unat e + 1 - unat h" arbitrary: h db rule: less_induct)
  case less
  show ?case
  proof (cases "h \<le> e")
    case True
    have "e < 0xFFFF" using assms u16_le [of e] by (simp add: order.strict_iff_order)
    then have "unat (h + 1) = unat h + 1" using True handle_plus [of h 1] by (simp add: word_le_nat_alt word_less_nat_alt)
    then show ?thesis
      using less [of "h + 1" "snd (attrib_db_del srv h db)"] True by (subst deletion_step) (simp add: word_le_nat_alt)
  qed (simp add: deletion_step)
qed

text \<open>C31: The clean-up after a characteristic that cannot be added returns exactly when the last attribute of the service
  that was added does not have the largest handle: its counter has the width of a handle and can never pass that one.\<close>

theorem cleanup_returns: "(\<exists>db'. service_attr_del srv start end_h db = Some db') \<longleftrightarrow> end_h \<noteq> 0xFFFF"
  using deletion_ends deletion_loops by blast

text \<open>A value that the server refuses leaves the declaration before it in the database: the handle that the caller
  cleans up to was not moved.\<close>

lemma declaration_left_behind:
  assumes "info_ok info"
    and "attrib_db_add srv h (BT_UUID16 GATT_CHARAC_UUID) ATT_NONE ATT_NOT_PERMITTED
      (gi_props info # le16 (h + 1) @ uuid_bytes (gi_uuid info)) db = (Some i, db1)"
    and "attrib_db_add srv (h + 1) (gi_uuid info) (read_requirement info) (write_requirement info) [] db1 = (None, db2)"
  shows "add_characteristic srv h info db = Some (False, h, db2)"
proof -
  let ?u = "gi_uuid info" and ?p = "gi_props info"
  obtain b1 b2 b3 where k: "?p \<noteq> 0" "(case ?u of BT_UUID16 _ \<Rightarrow> False | BT_UUID128 _ \<Rightarrow> False | _ \<Rightarrow> True) = False"
    "(read_requirement info \<noteq> ATT_NOT_PERMITTED \<and> find_callback (gi_callbacks info) ATTRIB_READ = None) = False"
    "(write_requirement info \<noteq> ATT_NOT_PERMITTED \<and> find_callback (gi_callbacks info) ATTRIB_WRITE = None) = False"
    and b: "wr (replicate 512 0) 0 ?p = Some b1" "att_put_u16 (h + 1) b1 1 = Some b2" "att_put_uuid ?u b2 3 = Some b3"
    "rdn b3 0 (3 + (case ?u of BT_UUID16 _ \<Rightarrow> 2 | _ \<Rightarrow> 16)) = Some (?p # le16 (h + 1) @ uuid_bytes ?u)"
    by (rule info_okE [OF assms(1)])
  show ?thesis
    unfolding add_characteristic_def read_requirement_def [symmetric] write_requirement_def [symmetric] Let_def
      bt_uuid16_create_def snd_conv k(2-4) b Option.bind.bind_lunit assms(2) prod.case option.case assms(3)
    using k(1) by simp
qed

end
