(* ===== verification/Spec2Isabelle.thy ===== *)
theory Spec2Isabelle
  imports Protocol Anki_Uuid Eir Advertisement Anki_Util Bt_Uuid Att_Codec Gatt_Errors Vehicle_Discovery Vehicle_Btio Vehicle_Main Log Scan_Table Uthash_Sort Uthash_Select Service_Props
begin

text \<open>
  A model of the Anki Drive SDK and of its two programs, and what is proved about them.

  \<^bold>\<open>The program.\<close> The SDK (\<open>src/src\<close>) is a C library for Anki's toy cars: it builds the messages that a
  vehicle understands and parses the advertisements that it sends. Two programs use it. The scanner
  (\<open>src/examples/vehicle-scan\<close>) listens to a Bluetooth device and lists vehicles. The tool
  (\<open>src/examples/vehicle-tool\<close>) is a command line that connects to one vehicle and drives it; below its commands
  (\<open>vehicle_cmd.c\<close>) lie the GATT procedures (\<open>gatt.c\<close>), the channel with its queues (\<open>gattrib.c\<close>), the PDUs of the
  attribute protocol (\<open>att.c\<close>), Bluetooth UUIDs (\<open>lib/uuid.c\<close>) and the sockets (\<open>btio/btio.c\<close>).

  \<^bold>\<open>Conventions.\<close> Integers are words of their C width, \<open>size_t\<close> is a natural number with its wrap-around written out
  (\<open>sz_sub\<close>, \<open>sz_add\<close>). A buffer is a list of bytes, an access goes through \<open>rd\<close>, \<open>wr\<close>, \<open>rdn\<close>, \<open>wrn\<close>; a result \<open>None\<close> is
  a fault: an access outside an object, a NULL pointer that is used, a division by zero, a read of memory that was freed.
  Error codes of the source are ordinary values under \<open>Some\<close>. A pointer that the source compares with NULL is an option.
  Arguments through which a function returns something are part of its result. Where C reads memory of no defined value the model
  has a parameter, or the byte 0 where nothing depends on it. Callbacks are values of a datatype and run by a client function
  that is a parameter of the channel and of the GATT procedures.

  \<^bold>\<open>Theories.\<close>
  \<^item> \<open>Prelude\<close>, \<open>C_String\<close>, \<open>C_Number\<close>: words, buffers and their rewrite rules (\<open>c_mem\<close>, \<open>c_fill\<close>), the string and number
    functions of the C library that the sources use (\<open>strtol\<close>, \<open>sscanf\<close>, \<open>snprintf\<close>, \<open>strtof\<close> with the rounding of a
    32-bit float, comparisons).
  \<^item> \<open>Protocol\<close> (\<open>src/protocol.c\<close>, \<open>protocol.h\<close>): the message builders. The abstract message \<open>msg\<close> and its wire form; the
    locale \<open>message_builder\<close> is the contract of a builder, interpreted on every one.
  \<^item> \<open>Anki_Uuid\<close> (\<open>src/uuid.c\<close>, \<open>vehicle_gatt_profile.h\<close>), \<open>Anki_Util\<close> (\<open>src/anki_util.c\<close>, the hexadecimal reader of \<open>utils.c\<close>).
  \<^item> \<open>Eir\<close> (\<open>src/eir.c\<close>): advertising records. The locale \<open>ad_walker\<close> is what a loop over such records promises; the splitter
    here and the parser of \<open>Advertisement\<close> (\<open>src/advertisement.c\<close>) interpret it.
  \<^item> \<open>Vehicle_Scan\<close> (\<open>vehicle-scan.c\<close>): the scanner with its options, discovery procedures, event loop and table of vehicles;
    \<open>Scan_Props\<close>: from the bytes of the device's events to the lines printed.
  \<^item> \<open>Uthash\<close> (\<open>uthash.h\<close>): the hash table below the scanner, with its handles, chains, buckets and their doubling, at the level of
    pointers. \<open>Uthash_Hash\<close> has the locale \<open>hash_function\<close>, the contract of a hash function, interpreted on each of the header;
    \<open>Uthash_Inv\<close> and \<open>Uthash_Table\<close> the invariant of chains, buckets and table and its preservation by an addition; \<open>Uthash_Ops\<close> lookup, removal and
    walks; \<open>Uthash_Props\<close>: the table refines a list in the order of insertion. \<open>Uthash_Sort\<close>: \<open>HASH_SORT\<close>
    is a stable sort of any table, by way of a merge sort of lists. \<open>Uthash_Select\<close>: \<open>HASH_SELECT\<close>, and the end of the order that it does
    not set. \<open>Scan_Table\<close>: the scanner on this table prints what it
    prints on the list of \<open>Vehicle_Scan\<close>.
  \<^item> \<open>Bt_Uuid\<close> (\<open>lib/uuid.c\<close>): UUIDs of 16, 32 and 128 bits, comparison and text.
  \<^item> \<open>Att\<close> (\<open>att.c\<close>, \<open>att.h\<close>): every encoder and decoder; \<open>Att_Codec\<close>: the abstract PDU, its wire form, and the locale \<open>pdu_codec\<close>.
  \<^item> \<open>Gattrib\<close> (\<open>gattrib.c\<close>): the channel. \<open>Gattrib_Inv\<close> has its invariant and the locale \<open>attrib_client\<close>, the contract of a client whose
    callbacks run in the middle of the channel's operations (they may call every operation, but keep the references that
    others hold); \<open>Gattrib_Run\<close> has the steps of the main loop and a client that records its callbacks; \<open>Gattrib_Props\<close> the properties.
  \<^item> \<open>Gatt\<close> (\<open>gatt.c\<close>): the GATT procedures and their callbacks, as a client of the channel with heap cells for
    their objects. \<open>Gatt_Inv\<close> shows that this client keeps the channel's contract for every user of the procedures that
    keeps it (locale \<open>gatt_user\<close>, a sublocale of \<open>attrib_client\<close>). \<open>Gatt_Talk\<close>, \<open>Gatt_Props\<close>, \<open>Gatt_Search\<close>, \<open>Gatt_Chars\<close>,
    \<open>Gatt_Long\<close>, \<open>Gatt_Write\<close> and \<open>Gatt_Errors\<close> follow whole conversations with a server: discovery of services, search for one
    UUID, discovery of characteristics, long reads and writes, their errors.
  \<^item> \<open>Vehicle_Cmd\<close> (\<open>vehicle_cmd.c\<close>, \<open>gatt_connect\<close> of \<open>utils.c\<close>): the state of the tool, its callbacks and commands.
    \<open>Vehicle_Run\<close> interprets \<open>gatt_user\<close> on the tool's callbacks and has the invariant of all sessions; \<open>Vehicle_Props\<close>,
    \<open>Vehicle_Faults\<close>: what commands send, what is reported, and the inputs that crash or block the tool; \<open>Vehicle_Discovery\<close>: the
    whole way from a new connection to the handles of the vehicle's two characteristics; \<open>Vehicle_Examples\<close>: a session.
  \<^item> \<open>Gatt_Service\<close> (\<open>gatt-service.c\<close>, \<open>att-database.h\<close>): registration of a service with the server of attributes, which the
    repository does not hold and which is a parameter, the record \<open>attrib_server\<close>; \<open>service_attr_del\<close> is a partial function because its loop ends
    only if the server keeps its promise. \<open>Service_Props\<close>: what a registration leaves in the server's database, and when the clean-up ends.
  \<^item> \<open>Vehicle_Main\<close> (\<open>vehicle_tool.c\<close>): options, start and end of the tool. \<open>Log\<close> (\<open>log.c\<close>): which debug messages are logged.
  \<^item> \<open>Btio\<close> (\<open>btio.c\<close>): sockets over a kernel that is a parameter, in the state monad with a trace of system calls;
    \<open>Btio_Props\<close>: no socket is lost, security levels; \<open>Vehicle_Btio\<close>: the system calls of the tool's connection.

  \<^bold>\<open>What is shown.\<close> For the SDK: what is built can be read back, parsers equal a specification record by record and accept only
  vehicles, and the inputs on which they overrun memory. For the scanner: every vehicle is shown once, when its packets suffice, and the
  dependence on uncleared memory; its hash table is a map in the order of insertion for every sequence of operations and every hash function. For PDUs and UUIDs: round trips, bounds, and the decoders' faults. For the channel: its
  invariant in all reachable states under any well-behaved client, requests in order with the response to each, liveness of the
  sender, timeouts and cancellation. For the procedures: discovery is complete, long values arrive exactly, and how
  errors are masked, leak memory or let a server keep the tool busy for ever. For the tool: a typed command puts exactly
  its messages into the queue; the invariant of all sessions; what is reported; completion; the crashes. For the sockets: no path
  loses one.

  \<^bold>\<open>Fuel.\<close> \<open>gatt_client n\<close> bounds how deep the destruction of a channel may run inside a callback; the invariants hold
  for every \<open>n\<close>, and conversations between a server and the procedures need none of it. \<open>completions\<close> calls the generator at most \<open>n\<close> times; one more than the
  number of commands is shown to be enough. The loops along the chains of the
  hash table and the clean-up of a service are partial functions: their ends are shown. All other loops are total functions with a measure, or are unfolded along the
  list of inputs.

  \<^bold>\<open>Not modelled.\<close>
  \<^item> \<open>client/display.c\<close> keeps the line that the user edits while the tool prints, by calls of readline. The tool's output is recorded as
    formats with their arguments.
  \<^item> Of \<open>uthash.h\<close>, the Bloom filter, the emission of keys and the MurmurHash, which are off.
  \<^item> The main loop, timers and sources of GLib, readline and the signal descriptor: their handlers are modelled, the steps of
    \<open>Gattrib_Run\<close> and \<open>Vehicle_Run\<close> dispatch them in any order.
  \<^item> The functions of \<open>gatt.c\<close> that read SDP records of classic Bluetooth, which nothing calls.
  \<^item> A channel that outlives its disconnection because a procedure still holds a reference is not followed further.
  \<^item> The directory \<open>include/ankidrive\<close> repeats the headers of \<open>src/src\<close>; tests and build files are not part of the program.
\<close>

end
